(* ===== verification/Prelude.thy ===== *)
theory Prelude
  imports Main "HOL-Library.Word"
begin

unbundle bit_operations_syntax

text \<open>
  Shared vocabulary of the development: the machine integer types of the C sources, the
  little-endian byte order every structure of the firmware uses on the wire, memories as
  functions from addresses to bytes with block update, and the collections of rewrite rules
  the component theories extend.
\<close>

type_synonym byte = "8 word"
type_synonym u16 = "16 word"
type_synonym u32 = "32 word"
type_synonym u64 = "64 word"
type_synonym memory = "nat \<Rightarrow> byte"

named_theorems unat_bridge \<open>moving machine arithmetic to natural numbers\<close>
named_theorems frame \<open>what an operation leaves alone\<close>

text \<open>The dash of a sentence, as its three bytes of UTF-8.\<close>

definition em_dash :: string where
  "em_dash = [CHR 0xE2, CHR 0x80, CHR 0x94]"

subsection \<open>Machine arithmetic as arithmetic on natural numbers\<close>

lemma unat_mod_numeral [unat_bridge]:
  "unat ((a :: u32) mod b) = unat a mod unat b"
  by (simp add: unat_mod)

lemma unat_div_numeral [unat_bridge]:
  "unat ((a :: u32) div b) = unat a div unat b"
  by (simp add: unat_div)

lemma unat_less_u32 [simp]: "unat (a :: u32) < 4294967296"
  using unsigned_less [of a] by simp

lemma unat_less_u16 [simp]: "unat (a :: u16) < 65536"
  using unsigned_less [of a] by simp

lemma unat_less_byte [simp]: "unat (a :: byte) < 256"
  using unsigned_less [of a] by simp

lemma unat_minus_le:
  "b \<le> a \<Longrightarrow> unat (a - b) = unat (a :: 'a :: len word) - unat b"
  by (simp add: unat_sub)

lemma unat_plus_le:
  "unat a + unat b < 4294967296 \<Longrightarrow> unat (a + b :: u32) = unat a + unat b"
  by (simp add: unat_word_ariths)

lemma unat_ucast_u16_u32 [simp, unat_bridge]: "unat (ucast (a :: u16) :: u32) = unat a"
  by (simp add: unsigned_ucast_eq take_bit_nat_eq_self less_le_trans [OF unsigned_less])

lemma unat_ucast_byte_u32 [simp, unat_bridge]: "unat (ucast (a :: byte) :: u32) = unat a"
  by (simp add: unsigned_ucast_eq take_bit_nat_eq_self less_le_trans [OF unsigned_less])

lemma unat_ucast_u32_u16:
  "unat (a :: u32) < 65536 \<Longrightarrow> unat (ucast a :: u16) = unat a"
  by (simp add: unsigned_ucast_eq take_bit_nat_eq_self)

lemma unat_of_nat_u32: "n < 4294967296 \<Longrightarrow> unat (of_nat n :: u32) = n"
  by (simp add: unat_of_nat take_bit_nat_eq_self)

lemma unat_of_nat_u16: "n < 65536 \<Longrightarrow> unat (of_nat n :: u16) = n"
  by (simp add: unat_of_nat take_bit_nat_eq_self)

lemma u32_less_iff [unat_bridge]: "((a :: u32) < b) = (unat a < unat b)"
  by (rule word_less_nat_alt)

lemma u32_le_iff [unat_bridge]: "((a :: u32) \<le> b) = (unat a \<le> unat b)"
  by (rule word_le_nat_alt)

lemma u32_eq_iff: "((a :: u32) = b) = (unat a = unat b)"
  by (simp add: word_unat_eq_iff)

lemma block_floor:
  assumes "k * s \<le> a" and "a < m * s"
  shows "k * s \<le> a - a mod s \<and> a - a mod s + s \<le> m * (s :: nat)"
proof -
  have s: "0 < s" using assms(2) by (cases s) simp_all
  have eq: "a - a mod s = a div s * s" by (simp add: minus_mod_eq_div_mult)
  have "k \<le> a div s" using assms(1) s by (simp add: less_eq_div_iff_mult_less_eq)
  moreover have "Suc (a div s) \<le> m" using assms(2) s by (simp add: Suc_le_eq div_less_iff_less_mult)
  ultimately show ?thesis unfolding eq by (metis add.commute mult_Suc mult_le_mono1)
qed

subsection \<open>Little-endian fields\<close>

definition le32_of :: "byte \<Rightarrow> byte \<Rightarrow> byte \<Rightarrow> byte \<Rightarrow> u32" where
  "le32_of b0 b1 b2 b3 =
     ucast b0 OR push_bit 8 (ucast b1) OR push_bit 16 (ucast b2) OR push_bit 24 (ucast b3)"

definition bytes_le32 :: "u32 \<Rightarrow> byte list" where
  "bytes_le32 v =
     [ucast (v AND 0xFF), ucast (drop_bit 8 v AND 0xFF),
      ucast (drop_bit 16 v AND 0xFF), ucast (drop_bit 24 v AND 0xFF)]"

definition bytes_le16 :: "u16 \<Rightarrow> byte list" where
  "bytes_le16 v = [ucast (v AND 0xFF), ucast (drop_bit 8 v AND 0xFF)]"

lemma length_bytes_le32 [simp]: "length (bytes_le32 v) = 4"
  by (simp add: bytes_le32_def)

lemma length_bytes_le16 [simp]: "length (bytes_le16 v) = 2"
  by (simp add: bytes_le16_def)

lemma ucast_low_byte_u32 [simp]: "(ucast ((v :: u32) AND 0xFF) :: byte) = ucast v"
proof -
  have "(0xFF :: u32) = mask 8" by (simp add: mask_eq_exp_minus_1)
  then show ?thesis
    by (simp only: bit_eq_iff bit_ucast_iff bit_and_iff bit_mask_iff) auto
qed

lemma ucast_low_byte_u16 [simp]: "(ucast ((v :: u16) AND 0xFF) :: byte) = ucast v"
proof -
  have "(0xFF :: u16) = mask 8" by (simp add: mask_eq_exp_minus_1)
  then show ?thesis
    by (simp only: bit_eq_iff bit_ucast_iff bit_and_iff bit_mask_iff) auto
qed

lemma bytes_le32_plain:
  "bytes_le32 v = [ucast v, ucast (drop_bit 8 v), ucast (drop_bit 16 v), ucast (drop_bit 24 v)]"
  by (simp only: bytes_le32_def ucast_low_byte_u32)

lemma le32_of_bytes:
  "le32_of (ucast v) (ucast (drop_bit 8 v)) (ucast (drop_bit 16 v)) (ucast (drop_bit 24 v)) = v"
proof (rule bit_word_eqI)
  fix n :: nat
  assume "n < LENGTH(32)"
  then have "n < 8 \<or> 8 \<le> n \<and> n < 16 \<or> 16 \<le> n \<and> n < 24 \<or> 24 \<le> n \<and> n < 32"
    by auto
  then show "bit (le32_of (ucast v) (ucast (drop_bit 8 v)) (ucast (drop_bit 16 v))
     (ucast (drop_bit 24 v))) n = bit v n"
    by (elim disjE)
      (auto simp add: le32_of_def bit_or_iff bit_push_bit_iff bit_drop_bit_eq bit_ucast_iff)
qed

lemma le32_of_nth:
  "le32_of (bytes_le32 v ! 0) (bytes_le32 v ! 1) (bytes_le32 v ! 2) (bytes_le32 v ! 3) = v"
  by (simp add: bytes_le32_plain le32_of_bytes)

lemma bytes_le32_inj: "bytes_le32 a = bytes_le32 b \<longleftrightarrow> a = b"
  by (metis le32_of_nth)

lemma byte_bit_less: "bit (b :: byte) n \<Longrightarrow> n < 8"
  using bit_imp_le_length [of b n] by simp

lemma bytes_of_le32: "bytes_le32 (le32_of a b c d) = [a, b, c, d]"
proof -
  have "(ucast (le32_of a b c d) :: byte) = a"
    by (rule bit_word_eqI)
      (auto simp add: le32_of_def bit_or_iff bit_push_bit_iff bit_ucast_iff)
  moreover have "(ucast (drop_bit 8 (le32_of a b c d)) :: byte) = b"
    by (rule bit_word_eqI)
      (auto simp add: le32_of_def bit_or_iff bit_push_bit_iff bit_drop_bit_eq bit_ucast_iff
        dest: byte_bit_less)
  moreover have "(ucast (drop_bit 16 (le32_of a b c d)) :: byte) = c"
    by (rule bit_word_eqI)
      (auto simp add: le32_of_def bit_or_iff bit_push_bit_iff bit_drop_bit_eq bit_ucast_iff
        dest: byte_bit_less)
  moreover have "(ucast (drop_bit 24 (le32_of a b c d)) :: byte) = d"
    by (rule bit_word_eqI)
      (auto simp add: le32_of_def bit_or_iff bit_push_bit_iff bit_drop_bit_eq bit_ucast_iff
        dest: byte_bit_less)
  ultimately show ?thesis by (simp add: bytes_le32_plain)
qed

subsection \<open>Memories and buffers\<close>

text \<open>
  A block written into a memory, a block read out of it, and a block copied into a fixed
  buffer. \<open>patch\<close> is what a page write or a sector program does to the cells it names.
\<close>

definition patch :: "(nat \<Rightarrow> 'a) \<Rightarrow> nat \<Rightarrow> 'a list \<Rightarrow> nat \<Rightarrow> 'a" where
  "patch m a xs = (\<lambda>i. if a \<le> i \<and> i < a + length xs then xs ! (i - a) else m i)"

definition slice :: "(nat \<Rightarrow> 'a) \<Rightarrow> nat \<Rightarrow> nat \<Rightarrow> 'a list" where
  "slice m a n = map (\<lambda>i. m (a + i)) [0..<n]"

lemma length_slice [simp]: "length (slice m a n) = n"
  by (simp add: slice_def)

lemma nth_slice [simp]: "i < n \<Longrightarrow> slice m a n ! i = m (a + i)"
  by (simp add: slice_def)

lemma slice_0 [simp]: "slice m a 0 = []"
  by (simp add: slice_def)

lemma slice_Suc: "slice m a (Suc n) = m a # slice m (Suc a) n"
  by (simp add: slice_def upt_conv_Cons del: upt_Suc flip: map_Suc_upt)

lemma slice_append: "slice m a (n + k) = slice m a n @ slice m (a + n) k"
  by (rule nth_equalityI) (auto simp: nth_append)

lemma patch_Nil [simp]: "patch m a [] = m"
  by (auto simp: patch_def fun_eq_iff)

lemma patch_append: "patch (patch m a xs) (a + length xs) ys = patch m a (xs @ ys)"
  by (rule ext) (auto simp: patch_def nth_append)

lemma patch_same [simp]: "i < length xs \<Longrightarrow> patch m a xs (a + i) = xs ! i"
  by (simp add: patch_def)

lemma patch_other [simp]: "i < a \<or> a + length xs \<le> i \<Longrightarrow> patch m a xs i = m i"
  by (auto simp: patch_def)

lemma slice_patch_same: "slice (patch m a xs) a (length xs) = xs"
  by (rule nth_equalityI) auto

lemma slice_patch_disjoint:
  "b + n \<le> a \<or> a + length xs \<le> b \<Longrightarrow> slice (patch m a xs) b n = slice m b n"
  by (rule nth_equalityI) auto

lemma slice_cong: "(\<And>i. i < n \<Longrightarrow> f (a + i) = g (a + i)) \<Longrightarrow> slice f a n = slice g a n"
  by (rule nth_equalityI) auto

definition blit :: "'a list \<Rightarrow> nat \<Rightarrow> 'a list \<Rightarrow> 'a list" where
  "blit buf off xs = take off buf @ xs @ drop (off + length xs) buf"

lemma length_blit [simp]: "off + length xs \<le> length buf \<Longrightarrow> length (blit buf off xs) = length buf"
  by (simp add: blit_def)

lemma take_blit_end [simp]:
  "off \<le> length buf \<Longrightarrow> take (off + length xs) (blit buf off xs) = take off buf @ xs"
  by (simp add: blit_def min_def)

lemma blit_whole: "off + length xs = length buf \<Longrightarrow> blit buf off xs = take off buf @ xs"
  by (simp add: blit_def)

lemma take_blit_0 [simp]: "take (length xs) (blit buf 0 xs) = xs"
  by (simp add: blit_def)

lemma take_drop_append:
  "i + k \<le> length xs \<Longrightarrow> take i xs @ take k (drop i xs) = take (i + k) xs"
  by (simp add: take_add)

end
