(* ===== verification/Memory.thy ===== *)
theory Memory
  imports Prelude
begin

text \<open>
  The memory primitives of \<^verbatim>\<open>fx3/firmware/src/cyfxtx.c\<close> on a memory of bytes: \<^verbatim>\<open>CyU3PMemSet\<close>,
  \<^verbatim>\<open>CyU3PMemCopy\<close> and \<^verbatim>\<open>CyU3PMemCmp\<close>, with their unrolled loops as the source writes them.
  The lemmas say what they amount to: a block set, a block copied when the source does not run
  into the destination, a lexicographic comparison.
\<close>

subsection \<open>Setting\<close>

definition set_eight :: "memory \<Rightarrow> nat \<Rightarrow> byte \<Rightarrow> memory" where
  "set_eight m ptr data = m(ptr + 0 := data, ptr + 1 := data, ptr + 2 := data, ptr + 3 := data,
     ptr + 4 := data, ptr + 5 := data, ptr + 6 := data, ptr + 7 := data)"

fun memset_tail :: "memory \<Rightarrow> nat \<Rightarrow> byte \<Rightarrow> nat \<Rightarrow> memory" where
  "memset_tail m ptr data 0 = m"
| "memset_tail m ptr data (Suc count) = memset_tail (m(ptr := data)) (ptr + 1) data count"

function CyU3PMemSet :: "memory \<Rightarrow> nat \<Rightarrow> byte \<Rightarrow> nat \<Rightarrow> memory" where
  "CyU3PMemSet m ptr data count =
     (if count div 8 \<noteq> 0 then CyU3PMemSet (set_eight m ptr data) (ptr + 8) data (count - 8)
      else memset_tail m ptr data count)"
  by pat_completeness auto
termination by (relation "measure (\<lambda>(_, _, _, count). count)") auto

declare CyU3PMemSet.simps [simp del]

lemma patch_replicate_Cons:
  "patch m a (replicate (Suc n) v) = patch (m(a := v)) (Suc a) (replicate n v)"
proof (rule ext)
  fix i
  show "patch m a (replicate (Suc n) v) i = patch (m(a := v)) (Suc a) (replicate n v) i"
    by (cases "a \<le> i \<and> i < a + Suc n"; cases "i = a") (auto simp: patch_def nth_Cons split: nat.split)
qed

lemma memset_tail_patch: "memset_tail m a v n = patch m a (replicate n v)"
  by (induction n arbitrary: m a) (simp_all add: patch_replicate_Cons del: replicate_Suc)

lemma set_eight_patch: "set_eight m a v = patch m a (replicate 8 v)"
  by (simp add: set_eight_def eval_nat_numeral patch_replicate_Cons del: replicate_Suc)

lemma MemSet_patch: "CyU3PMemSet m a v n = patch m a (replicate n v)"
proof (induction n arbitrary: m a rule: less_induct)
  case (less n)
  show ?case
  proof (cases "n div 8 = 0")
    case True
    then show ?thesis by (simp add: CyU3PMemSet.simps [of m a v n] memset_tail_patch)
  next
    case False
    then have "8 \<le> n" by (cases "n < 8") auto
    then have "replicate n v = replicate 8 v @ replicate (n - 8) v"
      by (simp add: replicate_add [symmetric])
    moreover have "CyU3PMemSet m a v n = patch (patch m a (replicate 8 v)) (a + 8) (replicate (n - 8) v)"
      using False \<open>8 \<le> n\<close> by (simp add: CyU3PMemSet.simps [of m a v n] set_eight_patch less.IH)
    ultimately show ?thesis using patch_append [of m a "replicate 8 v" "replicate (n - 8) v"] by simp
  qed
qed

subsection \<open>Copying\<close>

definition copy_eight :: "memory \<Rightarrow> nat \<Rightarrow> nat \<Rightarrow> memory" where
  "copy_eight m dest src =
     fold (\<lambda>k m. m(dest + k := m (src + k))) [0, 1, 2, 3, 4, 5, 6, 7] m"

fun memcopy_tail :: "memory \<Rightarrow> nat \<Rightarrow> nat \<Rightarrow> nat \<Rightarrow> memory" where
  "memcopy_tail m dest src 0 = m"
| "memcopy_tail m dest src (Suc count) = memcopy_tail (m(dest := m src)) (dest + 1) (src + 1) count"

function CyU3PMemCopy :: "memory \<Rightarrow> nat \<Rightarrow> nat \<Rightarrow> nat \<Rightarrow> memory" where
  "CyU3PMemCopy m dest src count =
     (if count div 8 \<noteq> 0 then CyU3PMemCopy (copy_eight m dest src) (dest + 8) (src + 8) (count - 8)
      else memcopy_tail m dest src count)"
  by pat_completeness auto
termination by (relation "measure (\<lambda>(_, _, _, count). count)") auto

declare CyU3PMemCopy.simps [simp del]

lemma memcopy_tail_add:
  "memcopy_tail m d s (n + k) = memcopy_tail (memcopy_tail m d s n) (d + n) (s + n) k"
  by (induction n arbitrary: m d s) simp_all

lemma copy_eight_tail: "copy_eight m d s = memcopy_tail m d s 8"
  by (simp add: copy_eight_def eval_nat_numeral)

lemma MemCopy_tail: "CyU3PMemCopy m d s n = memcopy_tail m d s n"
proof (induction n arbitrary: m d s rule: less_induct)
  case (less n)
  show ?case
  proof (cases "n div 8 = 0")
    case True
    then show ?thesis by (simp add: CyU3PMemCopy.simps [of m d s n])
  next
    case False
    then have "8 \<le> n" by (cases "n < 8") auto
    then show ?thesis using False memcopy_tail_add [of m d s 8 "n - 8"]
      by (simp add: CyU3PMemCopy.simps [of m d s n] copy_eight_tail less.IH)
  qed
qed

text \<open>
  Bytes are copied in increasing order, so the copy is that of the source's first contents
  unless the destination starts inside the source block.
\<close>

lemma memcopy_tail_patch:
  "d \<le> s \<or> s + n \<le> d \<Longrightarrow> memcopy_tail m d s n = patch m d (slice m s n)"
proof (induction n arbitrary: m d s)
  case (Suc n)
  have ih: "memcopy_tail (m(d := m s)) (Suc d) (Suc s) n
      = patch (m(d := m s)) (Suc d) (slice (m(d := m s)) (Suc s) n)"
    using Suc.prems by (intro Suc.IH) auto
  have "slice (m(d := m s)) (Suc s) n = slice m (Suc s) n"
    using Suc.prems by (intro slice_cong) auto
  moreover have "patch (m(d := m s)) (Suc d) xs = patch m d (m s # xs)" for xs
    by (rule ext) (auto simp: patch_def nth_Cons')
  ultimately show ?case using ih by (simp add: slice_Suc)
qed simp

lemma MemCopy_patch: "d \<le> s \<or> s + n \<le> d \<Longrightarrow> CyU3PMemCopy m d s n = patch m d (slice m s n)"
  by (simp add: MemCopy_tail memcopy_tail_patch)

subsection \<open>Comparing\<close>

fun CyU3PMemCmp :: "memory \<Rightarrow> nat \<Rightarrow> nat \<Rightarrow> nat \<Rightarrow> int" where
  "CyU3PMemCmp m s1 s2 0 = 0"
| "CyU3PMemCmp m s1 s2 (Suc n) =
     (if m s1 \<noteq> m s2 then uint (m s1) - uint (m s2) else CyU3PMemCmp m (s1 + 1) (s2 + 1) n)"

lemma MemCmp_zero: "CyU3PMemCmp m a b n = 0 \<longleftrightarrow> slice m a n = slice m b n"
  by (induction n arbitrary: a b) (auto simp: slice_Suc word_uint_eq_iff)

lemma MemCmp_first:
  "CyU3PMemCmp m a b n < 0 \<longleftrightarrow>
     (\<exists>k < n. slice m a k = slice m b k \<and> m (a + k) < m (b + k))"
proof (induction n arbitrary: a b)
  case (Suc n)
  show ?case
  proof (cases "m a = m b")
    case True
    have "(\<exists>k < Suc n. slice m a k = slice m b k \<and> m (a + k) < m (b + k))
        \<longleftrightarrow> (\<exists>k < n. slice m (a + 1) k = slice m (b + 1) k \<and> m (a + 1 + k) < m (b + 1 + k))"
    proof
      assume "\<exists>k < Suc n. slice m a k = slice m b k \<and> m (a + k) < m (b + k)"
      then obtain k where k: "k < Suc n" "slice m a k = slice m b k" "m (a + k) < m (b + k)" by blast
      with True obtain j where "k = Suc j" by (cases k) auto
      with k show "\<exists>k < n. slice m (a + 1) k = slice m (b + 1) k \<and> m (a + 1 + k) < m (b + 1 + k)"
        by (auto simp: slice_Suc)
    next
      assume "\<exists>k < n. slice m (a + 1) k = slice m (b + 1) k \<and> m (a + 1 + k) < m (b + 1 + k)"
      then obtain k where "k < n" "slice m (a + 1) k = slice m (b + 1) k" "m (a + 1 + k) < m (b + 1 + k)"
        by blast
      with True show "\<exists>k < Suc n. slice m a k = slice m b k \<and> m (a + k) < m (b + k)"
        by (intro exI [of _ "Suc k"]) (simp add: slice_Suc)
    qed
    then show ?thesis using True Suc.IH [of "a + 1" "b + 1"] by simp
  next
    case False
    have "slice m a k = slice m b k \<Longrightarrow> k = 0" for k
      using False by (cases k) (auto simp: slice_Suc)
    then have "(\<exists>k < Suc n. slice m a k = slice m b k \<and> m (a + k) < m (b + k)) \<longleftrightarrow> m a < m b"
      by (metis add_0_right slice_0 zero_less_Suc)
    then show ?thesis using False by (simp add: word_less_def)
  qed
qed simp

end
