(* ===== verification/DmaBuffers.thy ===== *)
theory DmaBuffers
  imports Memory
begin

text \<open>
  The DMA buffer allocator of \<^verbatim>\<open>fx3/firmware/src/cyfxtx.c\<close>: a bitmap with one bit per 32-byte
  chunk, in which a block of n chunks is n - 1 set bits followed by a clear one, the end marker.
  The RTOS calls are the operations of \<open>tx_os\<close>. Positions and counts are natural numbers; the
  status words keep their width. A status array the source indexes is a list, and the lemmas
  show that the indices stay inside it.
\<close>

abbreviation CY_U3P_MEM_HEAP_BASE :: nat where "CY_U3P_MEM_HEAP_BASE \<equiv> 0x40038000"
abbreviation CY_U3P_MEM_HEAP_SIZE :: nat where "CY_U3P_MEM_HEAP_SIZE \<equiv> 0x8000"
abbreviation CY_U3P_SYS_MEM_TOP :: nat where "CY_U3P_SYS_MEM_TOP \<equiv> 0x40078000"
abbreviation CY_U3P_BUFFER_HEAP_BASE :: nat where
  "CY_U3P_BUFFER_HEAP_BASE \<equiv> CY_U3P_MEM_HEAP_BASE + CY_U3P_MEM_HEAP_SIZE"
abbreviation CY_U3P_BUFFER_HEAP_SIZE :: nat where
  "CY_U3P_BUFFER_HEAP_SIZE \<equiv> CY_U3P_SYS_MEM_TOP - CY_U3P_BUFFER_HEAP_BASE"
abbreviation CY_U3P_BUFFER_ALLOC_TIMEOUT :: nat where "CY_U3P_BUFFER_ALLOC_TIMEOUT \<equiv> 10"
abbreviation CY_U3P_MEM_ALLOC_TIMEOUT :: nat where "CY_U3P_MEM_ALLOC_TIMEOUT \<equiv> 10"

datatype tx_wait = CYU3P_NO_WAIT | CYU3P_WAIT_FOREVER | tx_ticks nat

record 'w tx_os =
  tx_thread_identify :: "'w \<Rightarrow> bool"
  tx_mutex_create :: "'w \<Rightarrow> u32 \<times> 'w"
  tx_mutex_get :: "tx_wait \<Rightarrow> 'w \<Rightarrow> u32 \<times> 'w"
  tx_mutex_put :: "'w \<Rightarrow> 'w"
  tx_mutex_destroy :: "'w \<Rightarrow> 'w"
  tx_byte_pool_create :: "nat \<Rightarrow> nat \<Rightarrow> 'w \<Rightarrow> 'w"
  tx_byte_pool_destroy :: "'w \<Rightarrow> 'w"
  tx_byte_alloc :: "nat \<Rightarrow> tx_wait \<Rightarrow> 'w \<Rightarrow> u32 \<times> nat \<times> 'w"
  tx_byte_free :: "nat \<Rightarrow> 'w \<Rightarrow> 'w"

record 'w dma_heap =
  tx_world :: 'w
  glMemPoolInit :: bool
  usedStatus :: "u32 list"
  usedPointer :: nat
  startAddr :: nat
  regionSize :: nat
  statusSize :: nat
  searchPos :: nat

subsection \<open>The byte pool\<close>

definition CyU3PMemInit :: "'w tx_os \<Rightarrow> 'w dma_heap \<Rightarrow> 'w dma_heap" where
  "CyU3PMemInit os s =
     (if \<not> glMemPoolInit s
      then s\<lparr>glMemPoolInit := True,
             tx_world := tx_byte_pool_create os CY_U3P_MEM_HEAP_BASE CY_U3P_MEM_HEAP_SIZE (tx_world s)\<rparr>
      else s)"

definition CyU3PMemAlloc_pool :: "'w tx_os \<Rightarrow> nat \<Rightarrow> 'w \<Rightarrow> nat option \<times> 'w" where
  "CyU3PMemAlloc_pool os n w =
     (let (status, ret_p, w) =
        (if tx_thread_identify os w
         then tx_byte_alloc os n (tx_ticks CY_U3P_MEM_ALLOC_TIMEOUT) w
         else tx_byte_alloc os n CYU3P_NO_WAIT w)
      in (if status = 0 then Some ret_p else None, w))"

definition CyU3PMemFree :: "'w tx_os \<Rightarrow> nat \<Rightarrow> 'w \<Rightarrow> 'w" where
  "CyU3PMemFree os mem_p w = tx_byte_free os mem_p w"

subsection \<open>Setting and clearing a run of status bits\<close>

definition apply_mask :: "bool \<Rightarrow> u32 \<Rightarrow> u32 \<Rightarrow> u32" where
  "apply_mask v msk w = (if v then w OR msk else w AND NOT msk)"

function set_words :: "bool \<Rightarrow> nat \<Rightarrow> nat \<Rightarrow> u32 list \<Rightarrow> u32 list" where
  "set_words v wordnum numBits used =
     (if numBits = 0 then used else
      let endbit = (if 32 \<le> numBits then 32 else numBits);
          msk = (if 32 \<le> numBits then 0xFFFFFFFF else push_bit numBits 1 - 1)
      in set_words v (wordnum + 1) (numBits - endbit)
           (used[wordnum := apply_mask v msk (used ! wordnum)]))"
  by pat_completeness auto
termination by (relation "measure (\<lambda>(_, _, numBits, _). numBits)") auto

declare set_words.simps [simp del]

definition CyU3PDmaBufMgrSetStatus :: "nat \<Rightarrow> nat \<Rightarrow> bool \<Rightarrow> u32 list \<Rightarrow> u32 list" where
  "CyU3PDmaBufMgrSetStatus startPos numBits v used =
     (let wordnum = startPos div 32;
          startbit = startPos mod 32;
          endbit = min 32 (startbit + numBits);
          msk = (if endbit = 32 then 0xFFFFFFFF else push_bit endbit 1 - 1) - (push_bit startbit 1 - 1)
      in if numBits = 0 then used
         else set_words v (wordnum + 1) (numBits - (endbit - startbit))
                (used[wordnum := apply_mask v msk (used ! wordnum)]))"

text \<open>The status bit of a chunk, and what the routine does to all of them.\<close>

definition used_bit :: "u32 list \<Rightarrow> nat \<Rightarrow> bool" where
  "used_bit used i \<longleftrightarrow> bit (used ! (i div 32)) (i mod 32)"

lemma bit_all_ones_u32 [simp]: "bit (0xFFFFFFFF :: u32) j \<longleftrightarrow> j < 32"
proof -
  have "(0xFFFFFFFF :: u32) = mask 32" by (simp add: mask_eq_exp_minus_1)
  then show ?thesis by (simp only: bit_mask_iff) auto
qed

lemma bit_low_ones: "\<not> 32 \<le> n \<Longrightarrow> bit (push_bit n 1 - 1 :: u32) j \<longleftrightarrow> j < n"
proof -
  assume n: "\<not> 32 \<le> n"
  have "(push_bit n 1 - 1 :: u32) = mask n" by (simp add: mask_eq_exp_minus_1 push_bit_eq_mult)
  then show ?thesis using n by (simp only: bit_mask_iff) auto
qed

lemma bit_run_mask:
  assumes "a < 32" and "b \<le> 32" and "a \<le> b"
  shows "bit ((if b = 32 then 0xFFFFFFFF else push_bit b 1 - 1) - (push_bit a 1 - 1) :: u32) j
    \<longleftrightarrow> a \<le> j \<and> j < b"
proof -
  let ?B = "(if b = 32 then 0xFFFFFFFF else push_bit b 1 - 1) :: u32" and ?A = "(push_bit a 1 - 1) :: u32"
  have B: "?B = mask b" and A: "?A = mask a"
    using assms(2) by (auto simp: mask_eq_exp_minus_1 push_bit_eq_mult)
  have "?B - ?A = ?B AND NOT ?A"
    unfolding A B using assms(3) by (intro disjunctive_diff) (auto simp: bit_mask_iff)
  then show ?thesis unfolding A B using assms
    by (auto simp: bit_and_iff bit_not_iff bit_mask_iff)
qed

lemma bit_apply_mask: "j < 32 \<Longrightarrow> bit (apply_mask v msk w) j \<longleftrightarrow> (if bit msk j then v else bit w j)"
  by (auto simp: apply_mask_def bit_or_iff bit_and_iff bit_not_iff)

lemma used_bit_update:
  "k < length used \<Longrightarrow>
   used_bit (used[k := x]) i \<longleftrightarrow> (if i div 32 = k then bit x (i mod 32) else used_bit used i)"
  by (simp add: used_bit_def nth_list_update)

lemma used_bit_mask:
  assumes "k < length used"
  shows "used_bit (used[k := apply_mask v msk (used ! k)]) i \<longleftrightarrow>
    (if i div 32 = k \<and> bit msk (i mod 32) then v else used_bit used i)"
  unfolding used_bit_update [OF assms] by (simp add: bit_apply_mask used_bit_def)

lemma set_words_0 [simp]: "set_words v k 0 used = used"
  by (simp add: set_words.simps [of v k 0 used])

lemma chunk_in_word:
  "e \<le> 32 \<Longrightarrow> i div 32 = k \<and> i mod 32 < e \<longleftrightarrow> 32 * k \<le> i \<and> i < 32 * k + (e :: nat)"
proof -
  assume e: "e \<le> 32"
  define q r where "q = i div 32" and "r = i mod 32"
  then have i: "i = 32 * q + r" and r: "r < 32" by simp_all
  consider "q < k" | "q = k" | "k < q" by linarith
  then have "q = k \<and> r < e \<longleftrightarrow> 32 * k \<le> 32 * q + r \<and> 32 * q + r < 32 * k + e"
    using e r by cases linarith+
  moreover have "i div 32 = q" "i mod 32 = r" by (simp_all only: q_def r_def)
  ultimately show ?thesis by (simp only: i)
qed

lemma length_set_words [simp]: "length (set_words v k n used) = length used"
proof (induction n arbitrary: k used rule: less_induct)
  case (less n)
  show ?case
    by (cases "n = 0"; simp add: set_words.simps [of v k n used] Let_def less.IH)
qed

lemma set_words_bits:
  assumes "32 * k + n \<le> 32 * length used"
  shows "used_bit (set_words v k n used) i \<longleftrightarrow>
    (if 32 * k \<le> i \<and> i < 32 * k + n then v else used_bit used i)"
  using assms
proof (induction n arbitrary: k used rule: less_induct)
  case (less n)
  show ?case
  proof (cases "n = 0")
    case True
    then show ?thesis by auto
  next
    case False
    let ?e = "if 32 \<le> n then 32 else n"
    let ?m = "(if 32 \<le> n then 0xFFFFFFFF else push_bit n 1 - 1) :: u32"
    let ?u = "used[k := apply_mask v ?m (used ! k)]"
    have k: "k < length used" using less.prems False by linarith
    have "n - ?e < n" using False by simp
    moreover have "32 * (k + 1) + (n - ?e) \<le> 32 * length ?u"
      using less.prems k by (cases "32 \<le> n") simp_all
    ultimately have ih: "used_bit (set_words v (k + 1) (n - ?e) ?u) i \<longleftrightarrow>
        (if 32 * (k + 1) \<le> i \<and> i < 32 * (k + 1) + (n - ?e) then v else used_bit ?u i)"
      by (rule less.IH)
    have u: "used_bit ?u i \<longleftrightarrow> (if 32 * k \<le> i \<and> i < 32 * k + ?e then v else used_bit used i)"
    proof -
      have m: "bit ?m (i mod 32) \<longleftrightarrow> i mod 32 < ?e"
      proof (cases "32 \<le> n")
        case True
        then show ?thesis by (simp only: if_True bit_all_ones_u32)
      next
        case False
        then show ?thesis by (simp only: if_False bit_low_ones [OF False])
      qed
      have "i div 32 = k \<and> i mod 32 < ?e \<longleftrightarrow> 32 * k \<le> i \<and> i < 32 * k + ?e"
        by (rule chunk_in_word) simp
      then show ?thesis unfolding used_bit_mask [OF k] m by simp
    qed
    show ?thesis
      unfolding set_words.simps [of v k n used] using False ih u
      by (auto simp: Let_def)
  qed
qed

lemma length_SetStatus [simp]: "length (CyU3PDmaBufMgrSetStatus a n v used) = length used"
  by (simp add: CyU3PDmaBufMgrSetStatus_def Let_def)

lemma SetStatus_bits:
  assumes "a + n \<le> 32 * length used"
  shows "used_bit (CyU3PDmaBufMgrSetStatus a n v used) i \<longleftrightarrow>
    (if a \<le> i \<and> i < a + n then v else used_bit used i)"
proof (cases "n = 0")
  case True
  then show ?thesis by (auto simp: CyU3PDmaBufMgrSetStatus_def)
next
  case False
  define q r where "q = a div 32" and "r = a mod 32"
  then have a: "a = 32 * q + r" and r: "r < 32" by simp_all
  define e where "e = min 32 (r + n)"
  have e: "r < e" "e \<le> 32" using False r by (auto simp: e_def)
  let ?m = "((if e = 32 then 0xFFFFFFFF else push_bit e 1 - 1) - (push_bit r 1 - 1)) :: u32"
  let ?u = "used[q := apply_mask v ?m (used ! q)]"
  have q: "q < length used" using assms a False by linarith
  have "32 * (q + 1) + (n - (e - r)) \<le> 32 * length ?u"
    using assms a q by (cases "r + n \<le> 32") (simp_all add: e_def)
  note w = set_words_bits [OF this]
  have m: "bit ?m (i mod 32) \<longleftrightarrow> r \<le> i mod 32 \<and> i mod 32 < e"
    using e r by (intro bit_run_mask) simp_all
  have "i div 32 = q \<and> i mod 32 < e \<longleftrightarrow> 32 * q \<le> i \<and> i < 32 * q + e"
    and "i div 32 = q \<and> i mod 32 < r \<longleftrightarrow> 32 * q \<le> i \<and> i < 32 * q + r"
    using chunk_in_word e(2) r by simp_all
  then have "i div 32 = q \<and> bit ?m (i mod 32) \<longleftrightarrow> 32 * q + r \<le> i \<and> i < 32 * q + e"
    unfolding m using e by linarith
  then have u: "used_bit ?u i \<longleftrightarrow> (if 32 * q + r \<le> i \<and> i < 32 * q + e then v else used_bit used i)"
    unfolding used_bit_mask [OF q] by simp
  have "CyU3PDmaBufMgrSetStatus a n v used = set_words v (q + 1) (n - (e - r)) ?u"
    using False unfolding CyU3PDmaBufMgrSetStatus_def Let_def q_def r_def e_def by simp
  then have "used_bit (CyU3PDmaBufMgrSetStatus a n v used) i \<longleftrightarrow>
      (if 32 * (q + 1) \<le> i \<and> i < 32 * (q + 1) + (n - (e - r)) then v else used_bit ?u i)"
    by (simp only: w)
  also have "\<dots> \<longleftrightarrow> (if a \<le> i \<and> i < a + n then v else used_bit used i)"
    unfolding u using a r by (cases "r + n \<le> 32") (auto simp: e_def)
  finally show ?thesis .
qed

subsection \<open>The manager\<close>

definition lock_buffers :: "'w tx_os \<Rightarrow> tx_wait \<Rightarrow> 'w dma_heap \<Rightarrow> u32 \<times> 'w dma_heap" where
  "lock_buffers os wait s =
     (let (status, w) = tx_mutex_get os (if tx_thread_identify os (tx_world s) then wait else CYU3P_NO_WAIT)
                          (tx_world s)
      in (status, s\<lparr>tx_world := w\<rparr>))"

definition unlock_buffers :: "'w tx_os \<Rightarrow> 'w dma_heap \<Rightarrow> 'w dma_heap" where
  "unlock_buffers os s = s\<lparr>tx_world := tx_mutex_put os (tx_world s)\<rparr>"

definition CyU3PDmaBufferInit :: "'w tx_os \<Rightarrow> 'w dma_heap \<Rightarrow> 'w dma_heap" where
  "CyU3PDmaBufferInit os s =
     (if startAddr s \<noteq> 0 \<and> regionSize s \<noteq> 0 then s else
      let (status, w) = tx_mutex_create os (tx_world s); s = s\<lparr>tx_world := w\<rparr>
      in if status \<noteq> 0 then s else
      let chunks = CY_U3P_BUFFER_HEAP_SIZE div 32;
          sz = (chunks + 31) div 32;
          (pointer, w) = CyU3PMemAlloc_pool os (sz * 4) (tx_world s)
      in case pointer of
           None \<Rightarrow> s\<lparr>usedPointer := 0, tx_world := tx_mutex_destroy os w\<rparr>
         | Some ptr \<Rightarrow>
             let used = replicate sz 0;
                 used = (if chunks mod 32 \<noteq> 0
                         then used[sz - 1 := NOT (push_bit (32 - chunks mod 32) 1 - 1)] else used)
             in s\<lparr>tx_world := w, usedPointer := ptr, usedStatus := used,
                  startAddr := CY_U3P_BUFFER_HEAP_BASE, regionSize := CY_U3P_BUFFER_HEAP_SIZE,
                  statusSize := sz, searchPos := 0\<rparr>)"

definition CyU3PDmaBufferDeInit :: "'w tx_os \<Rightarrow> 'w dma_heap \<Rightarrow> 'w dma_heap" where
  "CyU3PDmaBufferDeInit os s =
     (let (status, s) = lock_buffers os CYU3P_WAIT_FOREVER s
      in if status \<noteq> 0 then s else
      let w = CyU3PMemFree os (usedPointer s) (tx_world s);
          s = s\<lparr>usedPointer := 0, usedStatus := [], startAddr := 0, regionSize := 0, statusSize := 0\<rparr>
      in s\<lparr>tx_world := tx_mutex_destroy os (tx_mutex_put os w)\<rparr>)"

text \<open>
  The search: the run of free chunks seen so far, where a block after it would start, and the
  number of words already looked at. A bit position never passes 31.
\<close>

function alloc_search ::
    "u32 list \<Rightarrow> nat \<Rightarrow> nat \<Rightarrow> nat \<Rightarrow> nat \<Rightarrow> nat \<Rightarrow> nat \<Rightarrow> nat \<Rightarrow> (nat \<times> nat) option" where
  "alloc_search used words sz wordnum bitnum count tmp start =
     (if tmp < words then
        let free = (\<not> bit (used ! wordnum) bitnum);
            start = (if free \<and> count = 0 then 32 * wordnum + bitnum + 1 else start);
            count = (if free then count + 1 else 0)
        in if free \<and> count = sz + 1 then Some (start, wordnum)
           else if 32 \<le> bitnum + 1 then
             if wordnum + 1 = words then alloc_search used words sz 0 0 0 (tmp + 1) start
             else alloc_search used words sz (wordnum + 1) 0 count (tmp + 1) start
           else alloc_search used words sz wordnum (bitnum + 1) count tmp start
      else None)"
  by pat_completeness auto
termination
  by (relation "measures [\<lambda>(_, words, _, _, _, _, tmp, _). words - tmp,
      \<lambda>(_, _, _, _, bitnum, _, _, _). 32 - bitnum]") auto

declare alloc_search.simps [simp del]

definition chunks_needed :: "nat \<Rightarrow> nat" where
  "chunks_needed n = (if n \<le> 32 then 2 else (n + 31) div 32)"

definition CyU3PDmaBufferAlloc :: "'w tx_os \<Rightarrow> u16 \<Rightarrow> 'w dma_heap \<Rightarrow> nat \<times> 'w dma_heap" where
  "CyU3PDmaBufferAlloc os request s =
     (let (status, s) = lock_buffers os (tx_ticks CY_U3P_BUFFER_ALLOC_TIMEOUT) s
      in if status \<noteq> 0 then (0, s)
      else if startAddr s = 0 \<or> regionSize s = 0 then (0, unlock_buffers os s)
      else let sz = chunks_needed (unat request)
      in case alloc_search (usedStatus s) (statusSize s) sz (searchPos s) 0 0 0 0 of
           None \<Rightarrow> (0, unlock_buffers os s)
         | Some (start, wordnum) \<Rightarrow>
             (startAddr s + 32 * start,
              unlock_buffers os (s\<lparr>searchPos := wordnum,
                usedStatus := CyU3PDmaBufMgrSetStatus start (sz - 1) True (usedStatus s)\<rparr>)))"

function count_used :: "u32 list \<Rightarrow> nat \<Rightarrow> nat \<Rightarrow> nat \<Rightarrow> nat \<Rightarrow> nat" where
  "count_used used words wordnum bitnum count =
     (if wordnum < words \<and> bit (used ! wordnum) bitnum
      then if 32 \<le> bitnum + 1 then count_used used words (wordnum + 1) 0 (count + 1)
           else count_used used words wordnum (bitnum + 1) (count + 1)
      else count)"
  by pat_completeness auto
termination
  by (relation "measures [\<lambda>(_, words, wordnum, _, _). words - wordnum,
      \<lambda>(_, _, _, bitnum, _). 32 - bitnum]") auto

declare count_used.simps [simp del]

definition CyU3PDmaBufferFree :: "'w tx_os \<Rightarrow> nat \<Rightarrow> 'w dma_heap \<Rightarrow> int \<times> 'w dma_heap" where
  "CyU3PDmaBufferFree os buffer s =
     (let (status, s) = lock_buffers os (tx_ticks CY_U3P_BUFFER_ALLOC_TIMEOUT) s
      in if status \<noteq> 0 then (-1, s)
      else if startAddr s < buffer \<and> buffer < startAddr s + regionSize s
      then let start = (buffer - startAddr s) div 32;
               count = count_used (usedStatus s) (statusSize s) (start div 32) (start mod 32) 0
           in (0, unlock_buffers os (s\<lparr>searchPos := 0,
                usedStatus := CyU3PDmaBufMgrSetStatus start count False (usedStatus s)\<rparr>))
      else (-1, unlock_buffers os s))"

definition CyU3PFreeHeaps :: "'w tx_os \<Rightarrow> 'w dma_heap \<Rightarrow> 'w dma_heap" where
  "CyU3PFreeHeaps os s =
     (let s = CyU3PDmaBufferDeInit os s
      in s\<lparr>tx_world := tx_byte_pool_destroy os (tx_world s), glMemPoolInit := False\<rparr>)"

subsection \<open>What the search finds\<close>

text \<open>
  The loop's invariant: the last \<open>count\<close> chunks looked at are free, and if there are any, the
  block after the first of them is where a block would start.
\<close>

definition search_inv :: "u32 list \<Rightarrow> nat \<Rightarrow> nat \<Rightarrow> nat \<Rightarrow> bool" where
  "search_inv used pos count start \<longleftrightarrow> count \<le> pos
     \<and> (\<forall>i. pos - count \<le> i \<longrightarrow> i < pos \<longrightarrow> \<not> used_bit used i)
     \<and> (0 < count \<longrightarrow> start = pos - count + 1)"

lemma used_bit_at: "b < 32 \<Longrightarrow> used_bit used (32 * k + b) \<longleftrightarrow> bit (used ! k) b"
  by (simp add: used_bit_def)

lemma search_inv_step:
  assumes "search_inv used pos count start"
  shows "\<not> used_bit used pos \<Longrightarrow>
      search_inv used (pos + 1) (count + 1) (if count = 0 then pos + 1 else start)"
    and "search_inv used (pos + 1) 0 start'"
  using assms by (auto simp: search_inv_def less_Suc_eq)

lemma alloc_search_found:
  assumes "alloc_search used words sz wordnum bitnum count tmp start = Some (a, k)"
    and "search_inv used (32 * wordnum + bitnum) count start"
    and "wordnum < words" and "bitnum < 32" and "0 < sz"
  shows "1 \<le> a \<and> a + sz \<le> 32 * words \<and> k < words
    \<and> (\<forall>i. a - 1 \<le> i \<longrightarrow> i < a + sz \<longrightarrow> \<not> used_bit used i)"
  using assms
proof (induction used words sz wordnum bitnum count tmp start rule: alloc_search.induct)
  case (1 used words sz wordnum bitnum count tmp start)
  define free where "free = (\<not> bit (used ! wordnum) bitnum)"
  define st where "st = (if free \<and> count = 0 then 32 * wordnum + bitnum + 1 else start)"
  define ct where "ct = (if free then count + 1 else 0)"
  define pos where "pos = 32 * wordnum + bitnum"
  have t: "tmp < words"
    using "1.prems"(1) by (simp add: alloc_search.simps [of used words] split: if_splits)
  have inv: "search_inv used (pos + 1) ct st"
    using search_inv_step [OF "1.prems"(2)] used_bit_at [OF "1.prems"(4), of used wordnum]
    by (auto simp: pos_def st_def ct_def free_def)
  have eq: "(if free \<and> ct = sz + 1 then Some (st, wordnum)
     else if 32 \<le> bitnum + 1 then
       if wordnum + 1 = words then alloc_search used words sz 0 0 0 (tmp + 1) st
       else alloc_search used words sz (wordnum + 1) 0 ct (tmp + 1) st
     else alloc_search used words sz wordnum (bitnum + 1) ct tmp st) = Some (a, k)"
    using "1.prems"(1) t
    unfolding alloc_search.simps [of used words sz wordnum bitnum count tmp start] Let_def
      free_def [symmetric] st_def [symmetric] ct_def [symmetric]
    by simp
  note ih = "1.IH" [OF t free_def st_def ct_def]
  consider (found) "free \<and> ct = sz + 1"
    | (wrap) "\<not> (free \<and> ct = sz + 1)" "32 \<le> bitnum + 1" "wordnum + 1 = words"
    | (word) "\<not> (free \<and> ct = sz + 1)" "32 \<le> bitnum + 1" "wordnum + 1 \<noteq> words"
    | (onward) "\<not> (free \<and> ct = sz + 1)" "\<not> 32 \<le> bitnum + 1" by blast
  then show ?case
  proof cases
    case found
    then have "a = st" "k = wordnum" using eq by simp_all
    moreover have "st = pos + 1 - ct + 1" "ct \<le> pos + 1"
      "\<forall>i. pos + 1 - ct \<le> i \<longrightarrow> i < pos + 1 \<longrightarrow> \<not> used_bit used i"
      using inv found by (simp_all add: search_inv_def)
    moreover have "pos + 1 \<le> 32 * words" using "1.prems"(3,4) by (simp add: pos_def)
    ultimately show ?thesis using found "1.prems"(3) by auto
  next
    case wrap
    then have "alloc_search used words sz 0 0 0 (tmp + 1) st = Some (a, k)"
      using eq by (simp only: if_True if_False simp_thms)
    moreover have "search_inv used (32 * 0 + 0) 0 st" by (simp add: search_inv_def)
    moreover have "0 < words" using "1.prems"(3) by simp
    ultimately show ?thesis using ih(1) wrap "1.prems"(5) by (simp del: One_nat_def add_Suc_right)
  next
    case word
    then have "alloc_search used words sz (wordnum + 1) 0 ct (tmp + 1) st = Some (a, k)"
      using eq by (simp only: if_True if_False simp_thms)
    moreover have "pos + 1 = 32 * (wordnum + 1) + 0" using word(2) "1.prems"(4) by (simp add: pos_def)
    moreover have "wordnum + 1 < words" using word(3) "1.prems"(3) by simp
    ultimately show ?thesis
      using inv "1.prems"(5) by (intro ih(2) [OF word(1) word(2) word(3)]) simp_all
  next
    case onward
    then have "alloc_search used words sz wordnum (bitnum + 1) ct tmp st = Some (a, k)"
      using eq by (simp only: if_True if_False simp_thms)
    moreover have "pos + 1 = 32 * wordnum + (bitnum + 1)" by (simp add: pos_def)
    moreover have "bitnum + 1 < 32" using onward(2) by simp
    ultimately show ?thesis
      using inv "1.prems"(3,5) by (intro ih(3) [OF onward(1) onward(2)]) simp_all
  qed
qed

subsection \<open>What freeing counts\<close>

text \<open>From position \<open>i\<close>, the count is that of the set bits up to the first clear one or the end.\<close>

lemma count_used_run:
  assumes "\<forall>j. i \<le> j \<longrightarrow> j < e \<longrightarrow> used_bit used j" and "\<not> used_bit used e" and "i \<le> e"
    and "e < 32 * words" and "i = 32 * wordnum + bitnum" and "bitnum < 32"
  shows "count_used used words wordnum bitnum count = count + (e - i)"
  using assms
proof (induction used words wordnum bitnum count arbitrary: i rule: count_used.induct)
  case (1 used words wordnum bitnum count)
  note eq = count_used.simps [of used words wordnum bitnum count]
  have w: "wordnum < words" using "1.prems" by linarith
  have bit: "bit (used ! wordnum) bitnum \<longleftrightarrow> used_bit used i"
    using "1.prems"(5,6) used_bit_at by simp
  show ?case
  proof (cases "i = e")
    case True
    then show ?thesis using bit "1.prems"(2) by (simp add: eq)
  next
    case False
    then have "i < e" using "1.prems"(3) by simp
    then have b: "wordnum < words \<and> bit (used ! wordnum) bitnum" using w bit "1.prems"(1) by simp
    have run: "\<forall>j. i + 1 \<le> j \<longrightarrow> j < e \<longrightarrow> used_bit used j" using "1.prems"(1) by simp
    show ?thesis
    proof (cases "32 \<le> bitnum + 1")
      case True
      have "count_used used words (wordnum + 1) 0 (count + 1) = count + 1 + (e - (i + 1))"
        using True "1.prems"(5,6) \<open>i < e\<close> by (intro "1.IH"(1) [OF b True run "1.prems"(2) _ "1.prems"(4)]) simp_all
      then show ?thesis using b True \<open>i < e\<close> unfolding eq by simp
    next
      case False
      have "count_used used words wordnum (bitnum + 1) (count + 1) = count + 1 + (e - (i + 1))"
        using False "1.prems"(5,6) \<open>i < e\<close> by (intro "1.IH"(2) [OF b False run "1.prems"(2) _ "1.prems"(4)]) simp_all
      then show ?thesis using b False \<open>i < e\<close> unfolding eq by simp
    qed
  qed
qed

subsection \<open>The blocks a heap holds\<close>

text \<open>
  \<open>blocks used B\<close>: the status words are those of the blocks of \<open>B\<close>, each a first chunk and a
  number of chunks. No block has chunk 0, no two share a chunk, and the set bits are those of all
  but the last chunk of each block.
\<close>

definition blocks :: "u32 list \<Rightarrow> (nat \<times> nat) set \<Rightarrow> bool" where
  "blocks used B \<longleftrightarrow>
     (\<forall>(a, m) \<in> B. 1 \<le> a \<and> 2 \<le> m \<and> a + m \<le> 32 * length used) \<and>
     (\<forall>(a, m) \<in> B. \<forall>(b, n) \<in> B. (a, m) \<noteq> (b, n) \<longrightarrow> a + m \<le> b \<or> b + n \<le> a) \<and>
     (\<forall>i. i < 32 * length used \<longrightarrow> (used_bit used i \<longleftrightarrow> (\<exists>(a, m) \<in> B. a \<le> i \<and> i + 1 < a + m)))"

lemma blocksD:
  assumes "blocks used B" and "(a, m) \<in> B"
  shows "1 \<le> a" "2 \<le> m" "a + m \<le> 32 * length used"
    and "a \<le> i \<Longrightarrow> i + 1 < a + m \<Longrightarrow> used_bit used i"
    and "(b, n) \<in> B \<Longrightarrow> (a, m) \<noteq> (b, n) \<Longrightarrow> a + m \<le> b \<or> b + n \<le> a"
  using assms unfolding blocks_def by fastforce+

lemma blocks_bit:
  "blocks used B \<Longrightarrow> i < 32 * length used \<Longrightarrow>
   used_bit used i \<longleftrightarrow> (\<exists>(a, m) \<in> B. a \<le> i \<and> i + 1 < a + m)"
  by (simp add: blocks_def)

lemma blocks_marker:
  assumes "blocks used B" and "(a, m) \<in> B"
  shows "\<not> used_bit used (a + m - 1)"
proof
  assume "used_bit used (a + m - 1)"
  moreover have "a + m - 1 < 32 * length used" using blocksD [OF assms] by linarith
  ultimately obtain b n where bn: "(b, n) \<in> B" "b \<le> a + m - 1" "a + m - 1 + 1 < b + n"
    using blocks_bit [OF assms(1)] by auto
  moreover have "(a, m) \<noteq> (b, n)" using bn by auto
  ultimately have "a + m \<le> b \<or> b + n \<le> a" using blocksD(5) [OF assms] by blast
  then show False using bn blocksD(2) [OF assms] by linarith
qed

text \<open>A run of clear chunks meets no block but the end marker before it.\<close>

lemma blocks_run_free:
  assumes "blocks used B" and "(b, n) \<in> B" and "1 \<le> a" and "a + sz \<le> 32 * length used"
    and free: "\<forall>i. a - 1 \<le> i \<longrightarrow> i < a + sz \<longrightarrow> \<not> used_bit used i" and "0 < sz"
  shows "a + sz \<le> b \<or> b + n \<le> a"
proof (rule ccontr)
  assume "\<not> (a + sz \<le> b \<or> b + n \<le> a)"
  then have meet: "b < a + sz" "a < b + n" by simp_all
  define i where "i = max b (a - 1)"
  have n: "2 \<le> n" using blocksD [OF assms(1,2)] by simp
  have "b \<le> i" "i + 1 < b + n" "a - 1 \<le> i" "i < a + sz"
    using meet n assms(3,6) by (auto simp: i_def)
  then show False using blocksD(4) [OF assms(1,2)] free by blast
qed

lemma blocks_insert:
  assumes B: "blocks used B" and "1 \<le> a" and "2 \<le> sz" and "a + sz \<le> 32 * length used"
    and free: "\<forall>i. a - 1 \<le> i \<longrightarrow> i < a + sz \<longrightarrow> \<not> used_bit used i"
  shows "blocks (CyU3PDmaBufMgrSetStatus a (sz - 1) True used) (insert (a, sz) B)"
proof -
  let ?u = "CyU3PDmaBufMgrSetStatus a (sz - 1) True used"
  have apart: "a + sz \<le> b \<or> b + n \<le> a" if "(b, n) \<in> B" for b n
    using blocks_run_free [OF B that assms(2,4) free] assms(3) by simp
  have bits: "used_bit ?u i \<longleftrightarrow> (\<exists>(b, n) \<in> insert (a, sz) B. b \<le> i \<and> i + 1 < b + n)"
    if "i < 32 * length used" for i
  proof -
    have "used_bit ?u i \<longleftrightarrow> (if a \<le> i \<and> i < a + (sz - 1) then True else used_bit used i)"
      using assms(4) by (intro SetStatus_bits) simp
    moreover have "a \<le> i \<and> i < a + (sz - 1) \<longleftrightarrow> a \<le> i \<and> i + 1 < a + sz" using assms(3) by auto
    ultimately show ?thesis using blocks_bit [OF B that] by auto
  qed
  show ?thesis
    unfolding blocks_def
  proof (intro conjI)
    show "\<forall>(b, n) \<in> insert (a, sz) B. 1 \<le> b \<and> 2 \<le> n \<and> b + n \<le> 32 * length ?u"
      using assms(2-4) blocksD(1-3) [OF B] by auto
    show "\<forall>(b, n) \<in> insert (a, sz) B. \<forall>(c, k) \<in> insert (a, sz) B.
        (b, n) \<noteq> (c, k) \<longrightarrow> b + n \<le> c \<or> c + k \<le> b"
      using apart blocksD(5) [OF B] by blast
    show "\<forall>i. i < 32 * length ?u \<longrightarrow>
        used_bit ?u i = (\<exists>(b, n) \<in> insert (a, sz) B. b \<le> i \<and> i + 1 < b + n)"
      using bits by simp
  qed
qed

lemma blocks_remove:
  assumes B: "blocks used B" and am: "(a, m) \<in> B"
  shows "blocks (CyU3PDmaBufMgrSetStatus a (m - 1) False used) (B - {(a, m)})"
proof -
  let ?u = "CyU3PDmaBufMgrSetStatus a (m - 1) False used"
  note am_ok = blocksD(1-3) [OF B am]
  have bits: "used_bit ?u i \<longleftrightarrow> (\<exists>(b, n) \<in> B - {(a, m)}. b \<le> i \<and> i + 1 < b + n)"
    if "i < 32 * length used" for i
  proof -
    have u: "used_bit ?u i \<longleftrightarrow> (if a \<le> i \<and> i < a + (m - 1) then False else used_bit used i)"
      using am_ok by (intro SetStatus_bits) simp
    show ?thesis
    proof (cases "a \<le> i \<and> i + 1 < a + m")
      case True
      have "\<not> (b \<le> i \<and> i + 1 < b + n)" if "(b, n) \<in> B" "(b, n) \<noteq> (a, m)" for b n
        using blocksD(5) [OF B am that(1)] that(2) True by auto
      then show ?thesis using True u am_ok by auto
    next
      case False
      then have "used_bit ?u i \<longleftrightarrow> used_bit used i" using u am_ok by auto
      then show ?thesis using blocks_bit [OF B that] False by auto
    qed
  qed
  show ?thesis
    unfolding blocks_def
  proof (intro conjI)
    show "\<forall>(b, n) \<in> B - {(a, m)}. 1 \<le> b \<and> 2 \<le> n \<and> b + n \<le> 32 * length ?u"
      using blocksD(1-3) [OF B] by auto
    show "\<forall>(b, n) \<in> B - {(a, m)}. \<forall>(c, k) \<in> B - {(a, m)}.
        (b, n) \<noteq> (c, k) \<longrightarrow> b + n \<le> c \<or> c + k \<le> b"
      using blocksD(5) [OF B] by blast
    show "\<forall>i. i < 32 * length ?u \<longrightarrow>
        used_bit ?u i = (\<exists>(b, n) \<in> B - {(a, m)}. b \<le> i \<and> i + 1 < b + n)"
      using bits by simp
  qed
qed

end
