(* ===== verification/DmaHeap.thy ===== *)
theory DmaHeap
  imports DmaBuffers
begin

text \<open>
  What the DMA buffer allocator promises its callers: a buffer it hands out meets no other live
  buffer and lies in the buffer region, freeing a buffer removes that buffer and nothing else, and
  the heap is clear again when every buffer is freed. The contract is the locale
  \<open>block_allocator\<close>; traces of calls are reasoned about there once, and the interpretation
  discharges the contract for the model of \<^verbatim>\<open>fx3/firmware/src/cyfxtx.c\<close>.
\<close>

subsection \<open>The contract\<close>

datatype heap_call = Alloc nat | Free nat

text \<open>A live buffer is its address and its length in bytes.\<close>

abbreviation apart :: "nat \<times> nat \<Rightarrow> nat \<times> nat \<Rightarrow> bool" where
  "apart x y \<equiv> fst x + snd x \<le> fst y \<or> fst y + snd y \<le> fst x"

fun call_heap ::
    "(nat \<Rightarrow> 's \<Rightarrow> nat \<times> 's) \<Rightarrow> (nat \<Rightarrow> 's \<Rightarrow> int \<times> 's) \<Rightarrow> (nat \<Rightarrow> nat)
     \<Rightarrow> heap_call \<Rightarrow> 's \<times> (nat \<times> nat) list \<Rightarrow> 's \<times> (nat \<times> nat) list" where
  "call_heap alloc free extent (Alloc n) (s, live) =
     (let (p, s) = alloc n s in (s, if p = 0 then live else (p, extent n) # live))"
| "call_heap alloc free extent (Free k) (s, live) =
     (if k < length live
      then let (r, s) = free (fst (live ! k)) s in (s, if r = 0 then take k live @ drop (Suc k) live else live)
      else (s, live))"

locale block_allocator =
  fixes alloc :: "nat \<Rightarrow> 's \<Rightarrow> nat \<times> 's"
    and free :: "nat \<Rightarrow> 's \<Rightarrow> int \<times> 's"
    and extent :: "nat \<Rightarrow> nat"
    and holds :: "'s \<Rightarrow> (nat \<times> nat) set \<Rightarrow> bool"
  assumes alloc_none: "holds s B \<Longrightarrow> alloc n s = (0, s') \<Longrightarrow> holds s' B"
    and alloc_block: "holds s B \<Longrightarrow> alloc n s = (p, s') \<Longrightarrow> p \<noteq> 0 \<Longrightarrow>
      holds s' (insert (p, extent n) B) \<and> (p, extent n) \<notin> B"
    and free_block: "holds s B \<Longrightarrow> x \<in> B \<Longrightarrow> free (fst x) s = (0, s') \<Longrightarrow> holds s' (B - {x})"
    and free_refused: "holds s B \<Longrightarrow> x \<in> B \<Longrightarrow> free (fst x) s = (r, s') \<Longrightarrow> r \<noteq> 0 \<Longrightarrow> holds s' B"
    and live_apart: "holds s B \<Longrightarrow> x \<in> B \<Longrightarrow> y \<in> B \<Longrightarrow> x \<noteq> y \<Longrightarrow> apart x y"
begin

abbreviation sound :: "'s \<times> (nat \<times> nat) list \<Rightarrow> bool" where
  "sound c \<equiv> distinct (snd c) \<and> holds (fst c) (set (snd c))"

lemma call_sound: "sound c \<Longrightarrow> sound (call_heap alloc free extent call c)"
proof (cases call; cases c)
  fix n s live
  assume "sound c" "call = Alloc n" "c = (s, live)"
  moreover obtain p s' where "alloc n s = (p, s')" by fastforce
  ultimately show "sound (call_heap alloc free extent call c)"
    using alloc_none alloc_block by (cases "p = 0") auto
next
  fix k s live
  assume c: "sound c" "call = Free k" "c = (s, live)"
  obtain r s' where f: "free (fst (live ! k)) s = (r, s')" by fastforce
  show "sound (call_heap alloc free extent call c)"
  proof (cases "k < length live")
    case True
    define pre post where "pre = take k live" and "post = drop (Suc k) live"
    have live: "live = pre @ live ! k # post" using id_take_nth_drop [OF True] by (simp add: pre_def post_def)
    then have "distinct (pre @ live ! k # post)" using c by simp
    then have d: "distinct (pre @ post)" "live ! k \<notin> set (pre @ post)" by auto
    have "set live = insert (live ! k) (set (pre @ post))" by (subst live) auto
    then have "set live - {live ! k} = set (pre @ post)" using d(2) by auto
    moreover have "live ! k \<in> set live" using True by simp
    moreover have "holds s (set live)" using c by simp
    ultimately show ?thesis
      using c f d True free_block [of s "set live" "live ! k" s'] free_refused [of s "set live" "live ! k" r s']
      by (cases "r = 0") (simp_all add: pre_def post_def)
  qed (use c in simp)
qed

lemma calls_sound: "sound c \<Longrightarrow> sound (fold (call_heap alloc free extent) calls c)"
proof (induction calls arbitrary: c)
  case (Cons call calls)
  then show ?case using call_sound [OF Cons.prems] by simp
qed simp

lemma calls_apart:
  assumes "holds s {}" and "fold (call_heap alloc free extent) calls (s, []) = (s', live)"
    and "i < j" and "j < length live"
  shows "apart (live ! i) (live ! j)"
proof -
  have s: "distinct live" "holds s' (set live)" using calls_sound [of "(s, [])" calls] assms by simp_all
  then have "live ! i \<noteq> live ! j" using assms(3,4) by (simp add: nth_eq_iff_index_eq)
  then show ?thesis using live_apart [OF s(2)] assms(3,4) by simp
qed

end

subsection \<open>The calls on a heap that holds known buffers\<close>

definition heap_ready :: "'w dma_heap \<Rightarrow> bool" where
  "heap_ready s \<longleftrightarrow> startAddr s = CY_U3P_BUFFER_HEAP_BASE \<and> regionSize s = CY_U3P_BUFFER_HEAP_SIZE
     \<and> statusSize s = 224 \<and> length (usedStatus s) = 224 \<and> searchPos s < 224"

definition buffer_of :: "nat \<times> nat \<Rightarrow> nat \<times> nat" where
  "buffer_of x = (CY_U3P_BUFFER_HEAP_BASE + 32 * fst x, 32 * snd x)"

definition heap_holds :: "'w dma_heap \<Rightarrow> (nat \<times> nat) set \<Rightarrow> bool" where
  "heap_holds s B \<longleftrightarrow> heap_ready s \<and> (\<exists>C. B = buffer_of ` C \<and> blocks (usedStatus s) C)"

lemma buffer_of_inj [simp]: "buffer_of x = buffer_of y \<longleftrightarrow> x = y"
  by (auto simp: buffer_of_def prod_eq_iff)

lemma inj_buffer_of: "inj buffer_of"
  by (rule injI) simp

lemma chunks_needed_two: "2 \<le> chunks_needed n"
  by (auto simp: chunks_needed_def)

lemma chunks_needed_enough: "n \<le> 32 * chunks_needed n"
proof (cases "n \<le> 32")
  case False
  define q where "q = (n + 31) div 32"
  then have "n + 31 < 32 * q + 32" by linarith
  then show ?thesis using False by (simp add: chunks_needed_def q_def)
qed (simp add: chunks_needed_def)

lemma lock_buffers_heap:
  "lock_buffers os t s = (st, s') \<Longrightarrow> \<exists>w. s' = s\<lparr>tx_world := w\<rparr>"
  by (auto simp: lock_buffers_def split: prod.splits)

lemma holds_world [simp]: "heap_holds (s\<lparr>tx_world := w\<rparr>) B = heap_holds s B"
  by (simp add: heap_holds_def heap_ready_def)

lemma holds_unlock [simp]: "heap_holds (unlock_buffers os s) B = heap_holds s B"
  by (simp add: unlock_buffers_def)

lemma holds_lock: "lock_buffers os t s = (st, s') \<Longrightarrow> heap_holds s' B = heap_holds s B"
  using lock_buffers_heap by (metis holds_world)

text \<open>The three ways an allocation ends.\<close>

lemma alloc_cases:
  assumes "CyU3PDmaBufferAlloc os n s = (p, s')" and "heap_ready s"
  obtains "p = 0" "\<And>B. heap_holds s' B = heap_holds s B"
  | a k w where "p = CY_U3P_BUFFER_HEAP_BASE + 32 * a"
      "alloc_search (usedStatus s) 224 (chunks_needed (unat n)) (searchPos s) 0 0 0 0 = Some (a, k)"
      "s' = s\<lparr>searchPos := k,
        usedStatus := CyU3PDmaBufMgrSetStatus a (chunks_needed (unat n) - 1) True (usedStatus s), tx_world := w\<rparr>"
proof -
  obtain st s1 where l: "lock_buffers os (tx_ticks CY_U3P_BUFFER_ALLOC_TIMEOUT) s = (st, s1)" by fastforce
  note h = holds_lock [OF l]
  obtain w1 where s1: "s1 = s\<lparr>tx_world := w1\<rparr>" using lock_buffers_heap [OF l] by blast
  have r: "startAddr s1 = CY_U3P_BUFFER_HEAP_BASE" "regionSize s1 = CY_U3P_BUFFER_HEAP_SIZE"
    "statusSize s1 = 224" "usedStatus s1 = usedStatus s" "searchPos s1 = searchPos s"
    using assms(2) by (simp_all add: s1 heap_ready_def)
  note eq = assms(1) [unfolded CyU3PDmaBufferAlloc_def l Let_def prod.case]
  show thesis
  proof (cases "st \<noteq> 0")
    case True
    then have "p = 0" "s' = s1" using eq by simp_all
    then show thesis using h by (intro that(1)) simp_all
  next
    case False
    show thesis
    proof (cases "alloc_search (usedStatus s) 224 (chunks_needed (unat n)) (searchPos s) 0 0 0 0")
      case None
      then have "p = 0" "s' = unlock_buffers os s1" using eq False r by simp_all
      then show thesis using h by (intro that(1)) simp_all
    next
      case (Some x)
      obtain a k where x: "x = (a, k)" by fastforce
      have "s' = s\<lparr>searchPos := k,
          usedStatus := CyU3PDmaBufMgrSetStatus a (chunks_needed (unat n) - 1) True (usedStatus s),
          tx_world := tx_mutex_put os w1\<rparr>"
        using eq False r Some x by (simp add: s1 unlock_buffers_def)
      moreover have "p = CY_U3P_BUFFER_HEAP_BASE + 32 * a" using eq False r Some x by simp
      ultimately show thesis using Some x by (intro that(2)) simp_all
    qed
  qed
qed

lemma alloc_search_blocks:
  assumes "alloc_search (usedStatus s) 224 (chunks_needed n) (searchPos s) 0 0 0 0 = Some (a, k)"
    and "heap_ready s"
  shows "1 \<le> a" "a + chunks_needed n \<le> 32 * length (usedStatus s)" "k < 224"
    and "\<forall>i. a - 1 \<le> i \<longrightarrow> i < a + chunks_needed n \<longrightarrow> \<not> used_bit (usedStatus s) i"
proof -
  have "search_inv (usedStatus s) (32 * searchPos s + 0) 0 0" by (simp add: search_inv_def)
  moreover have "0 < chunks_needed n" using chunks_needed_two [of n] by simp
  ultimately have "1 \<le> a \<and> a + chunks_needed n \<le> 32 * 224 \<and> k < 224
      \<and> (\<forall>i. a - 1 \<le> i \<longrightarrow> i < a + chunks_needed n \<longrightarrow> \<not> used_bit (usedStatus s) i)"
    using assms by (intro alloc_search_found [OF assms(1)]) (simp_all add: heap_ready_def)
  then show "1 \<le> a" "a + chunks_needed n \<le> 32 * length (usedStatus s)" "k < 224"
    and "\<forall>i. a - 1 \<le> i \<longrightarrow> i < a + chunks_needed n \<longrightarrow> \<not> used_bit (usedStatus s) i"
    using assms(2) by (simp_all add: heap_ready_def)
qed

lemma dma_alloc_none:
  assumes "heap_holds s B" and "CyU3PDmaBufferAlloc os n s = (0, s')"
  shows "heap_holds s' B"
proof -
  have "heap_ready s" using assms(1) by (simp add: heap_holds_def)
  then show ?thesis using assms by (cases rule: alloc_cases [OF assms(2)]) auto
qed

lemma dma_alloc_block:
  assumes "heap_holds s B" and "CyU3PDmaBufferAlloc os n s = (p, s')" and "p \<noteq> 0"
  shows "heap_holds s' (insert (p, 32 * chunks_needed (unat n)) B)"
    and "(p, 32 * chunks_needed (unat n)) \<notin> B"
proof -
  let ?sz = "chunks_needed (unat n)"
  from assms(1) obtain C where r: "heap_ready s" and C: "B = buffer_of ` C" "blocks (usedStatus s) C"
    by (auto simp: heap_holds_def)
  obtain a k w where p: "p = CY_U3P_BUFFER_HEAP_BASE + 32 * a"
    and found: "alloc_search (usedStatus s) 224 ?sz (searchPos s) 0 0 0 0 = Some (a, k)"
    and s': "s' = s\<lparr>searchPos := k,
        usedStatus := CyU3PDmaBufMgrSetStatus a (?sz - 1) True (usedStatus s), tx_world := w\<rparr>"
    using assms(3) by (cases rule: alloc_cases [OF assms(2) r]) auto
  note a = alloc_search_blocks [OF found r]
  have "blocks (usedStatus s') (insert (a, ?sz) C)"
    unfolding s' using blocks_insert [OF C(2) a(1) chunks_needed_two a(2,4)] by simp
  moreover have "heap_ready s'" using r a(3) by (simp add: s' heap_ready_def)
  moreover have pb: "(p, 32 * ?sz) = buffer_of (a, ?sz)" by (simp add: p buffer_of_def)
  ultimately show "heap_holds s' (insert (p, 32 * ?sz) B)"
    unfolding heap_holds_def C(1) by (intro conjI exI [of _ "insert (a, ?sz) C"]) simp_all
  have "(a, ?sz) \<notin> C"
  proof
    assume "(a, ?sz) \<in> C"
    moreover have "2 \<le> ?sz" by (rule chunks_needed_two)
    ultimately have "used_bit (usedStatus s) a" using blocksD(4) [OF C(2)] by simp
    then show False using a(1,4) \<open>2 \<le> ?sz\<close> by simp
  qed
  then show "(p, 32 * ?sz) \<notin> B" unfolding pb C(1) by auto
qed

lemma dma_free_found:
  assumes "heap_holds s (buffer_of ` C)" and "blocks (usedStatus s) C" and "(a, m) \<in> C"
    and "CyU3PDmaBufferFree os (CY_U3P_BUFFER_HEAP_BASE + 32 * a) s = (r, s')"
  shows "r \<noteq> 0 \<and> (\<forall>B. heap_holds s' B = heap_holds s B) \<or>
    r = 0 \<and> (\<exists>w. s' = s\<lparr>searchPos := 0,
      usedStatus := CyU3PDmaBufMgrSetStatus a (m - 1) False (usedStatus s), tx_world := w\<rparr>)"
proof -
  note am = blocksD [OF assms(2,3)]
  have ready: "heap_ready s" using assms(1) by (simp add: heap_holds_def)
  obtain st s1 where l: "lock_buffers os (tx_ticks CY_U3P_BUFFER_ALLOC_TIMEOUT) s = (st, s1)" by fastforce
  note h = holds_lock [OF l]
  obtain w1 where s1: "s1 = s\<lparr>tx_world := w1\<rparr>" using lock_buffers_heap [OF l] by blast
  have r: "startAddr s1 = CY_U3P_BUFFER_HEAP_BASE" "regionSize s1 = CY_U3P_BUFFER_HEAP_SIZE"
    "statusSize s1 = 224" "usedStatus s1 = usedStatus s"
    using ready by (simp_all add: s1 heap_ready_def)
  have n: "length (usedStatus s) = 224" using ready by (simp add: heap_ready_def)
  have "count_used (usedStatus s) 224 (a div 32) (a mod 32) 0 = 0 + (a + m - 1 - a)"
    using am(1-4) n blocks_marker [OF assms(2,3)] by (intro count_used_run) auto
  then have count: "count_used (usedStatus s) 224 (a div 32) (a mod 32) 0 = m - 1" by simp
  have inside: "0 < 32 * a" "32 * a < CY_U3P_BUFFER_HEAP_SIZE" using am(1-3) n by simp_all
  note eq = assms(4) [unfolded CyU3PDmaBufferFree_def l Let_def prod.case]
  show ?thesis
  proof (cases "st = 0")
    case True
    then have "r = 0" and "s' = unlock_buffers os (s1\<lparr>searchPos := 0,
        usedStatus := CyU3PDmaBufMgrSetStatus a (m - 1) False (usedStatus s)\<rparr>)"
      using eq r inside count by simp_all
    then show ?thesis by (auto simp: s1 unlock_buffers_def)
  next
    case False
    then show ?thesis using eq h by auto
  qed
qed

lemma dma_free_block:
  assumes "heap_holds s B" and "x \<in> B" and "CyU3PDmaBufferFree os (fst x) s = (r, s')"
  shows "heap_holds s' (if r = 0 then B - {x} else B)"
proof -
  from assms(1) obtain C where r: "heap_ready s" and C: "B = buffer_of ` C" "blocks (usedStatus s) C"
    by (auto simp: heap_holds_def)
  with assms(2) obtain a m where am: "(a, m) \<in> C" and x: "x = buffer_of (a, m)" by auto
  have free: "CyU3PDmaBufferFree os (CY_U3P_BUFFER_HEAP_BASE + 32 * a) s = (r, s')"
    using assms(3) by (simp add: x buffer_of_def)
  have holds: "heap_holds s (buffer_of ` C)" using assms(1) C(1) by simp
  show ?thesis
    using dma_free_found [OF holds C(2) am free]
  proof (elim disjE conjE exE)
    fix w
    assume z: "r = 0" and s': "s' = s\<lparr>searchPos := 0,
      usedStatus := CyU3PDmaBufMgrSetStatus a (m - 1) False (usedStatus s), tx_world := w\<rparr>"
    have "blocks (usedStatus s') (C - {(a, m)})" unfolding s' using blocks_remove [OF C(2) am] by simp
    moreover have "heap_ready s'" using r by (simp add: s' heap_ready_def)
    moreover have "B - {x} = buffer_of ` (C - {(a, m)})"
      unfolding C(1) x using image_set_diff [OF inj_buffer_of, of C "{(a, m)}"] by simp
    ultimately show ?thesis using z by (auto simp: heap_holds_def)
  next
    assume "r \<noteq> 0" "\<forall>B. heap_holds s' B = heap_holds s B"
    then show ?thesis using assms(1) by simp
  qed
qed

lemma dma_live_apart:
  assumes "heap_holds s B" and "x \<in> B" and "y \<in> B" and "x \<noteq> y"
  shows "apart x y"
proof -
  from assms obtain C a m b n where C: "blocks (usedStatus s) C" and xy: "(a, m) \<in> C" "(b, n) \<in> C"
    "x = buffer_of (a, m)" "y = buffer_of (b, n)"
    by (auto simp: heap_holds_def)
  moreover have "(a, m) \<noteq> (b, n)" using assms(4) xy by auto
  ultimately have "a + m \<le> b \<or> b + n \<le> a" using blocksD(5) by blast
  then show ?thesis by (auto simp: xy buffer_of_def)
qed

lemma dma_live_inside:
  assumes "heap_holds s B" and "(p, len) \<in> B"
  shows "CY_U3P_BUFFER_HEAP_BASE < p" "p + len \<le> CY_U3P_BUFFER_HEAP_BASE + CY_U3P_BUFFER_HEAP_SIZE"
    "p mod 32 = 0"
proof -
  from assms obtain C a m where C: "blocks (usedStatus s) C" "heap_ready s" and xy: "(a, m) \<in> C"
    "(p, len) = buffer_of (a, m)"
    by (auto simp: heap_holds_def)
  then show "CY_U3P_BUFFER_HEAP_BASE < p" "p + len \<le> CY_U3P_BUFFER_HEAP_BASE + CY_U3P_BUFFER_HEAP_SIZE"
    "p mod 32 = 0"
    using blocksD(1-3) [OF C(1) xy(1)] by (auto simp: buffer_of_def heap_ready_def mod_add_left_eq)
qed

text \<open>The allocator keeps the contract, whatever the operating system's answers.\<close>

interpretation dma_buffers: block_allocator
  "\<lambda>n. CyU3PDmaBufferAlloc os (of_nat n)" "CyU3PDmaBufferFree os"
  "\<lambda>n. 32 * chunks_needed (unat (of_nat n :: u16))" heap_holds
proof
  show "heap_holds s' B" if "heap_holds s B" "CyU3PDmaBufferAlloc os (of_nat n) s = (0, s')" for s B n s'
    using that by (rule dma_alloc_none)
next
  fix s B n p s'
  assume "heap_holds s B" "CyU3PDmaBufferAlloc os (of_nat n) s = (p, s')" "p \<noteq> 0"
  from dma_alloc_block [OF this]
  show "heap_holds s' (insert (p, 32 * chunks_needed (unat (of_nat n :: u16))) B)
      \<and> (p, 32 * chunks_needed (unat (of_nat n :: u16))) \<notin> B" by simp
next
  fix s B x s'
  assume "heap_holds s B" "x \<in> B" "CyU3PDmaBufferFree os (fst x) s = (0, s')"
  from dma_free_block [OF this] show "heap_holds s' (B - {x})" by simp
next
  fix s B x r s'
  assume a: "heap_holds s B" "x \<in> B" "CyU3PDmaBufferFree os (fst x) s = (r, s')" "r \<noteq> 0"
  from dma_free_block [OF a(1-3)] a(4) show "heap_holds s' B" by simp
next
  show "apart x y" if "heap_holds s B" "x \<in> B" "y \<in> B" "x \<noteq> y" for s B x y
    using that by (rule dma_live_apart)
qed

subsection \<open>When a search fails\<close>

text \<open>
  Searching from the top of the bitmap, no run of \<open>sz + 1\<close> clear chunks is overlooked: the
  run counted last cannot be extended backwards, and no run of that length ends before it.
\<close>

definition no_run :: "u32 list \<Rightarrow> nat \<Rightarrow> nat \<Rightarrow> bool" where
  "no_run used sz e \<longleftrightarrow> (\<forall>a. a + sz < e \<longrightarrow> (\<exists>i. a \<le> i \<and> i \<le> a + sz \<and> used_bit used i))"

definition passed :: "u32 list \<Rightarrow> nat \<Rightarrow> nat \<Rightarrow> nat \<Rightarrow> bool" where
  "passed used sz pos count \<longleftrightarrow> count \<le> sz \<and> no_run used sz pos
     \<and> (count < pos \<longrightarrow> used_bit used (pos - count - 1))"

lemma passed_start: "passed used sz 0 0"
  by (simp add: passed_def no_run_def)

lemma passed_step:
  assumes "passed used sz pos count" and "count \<le> pos" and "used_bit used pos \<or> count < sz"
  shows "passed used sz (pos + 1) (if used_bit used pos then 0 else count + 1)"
proof -
  have "no_run used sz (pos + 1)"
    unfolding no_run_def
  proof (intro allI impI)
    fix a
    assume a: "a + sz < pos + 1"
    show "\<exists>i. a \<le> i \<and> i \<le> a + sz \<and> used_bit used i"
    proof (cases "a + sz < pos")
      case True
      then show ?thesis using assms(1) by (simp add: passed_def no_run_def)
    next
      case False
      then have pos: "pos = a + sz" using a by simp
      show ?thesis
      proof (cases "used_bit used pos")
        case True
        then show ?thesis using pos by (intro exI [of _ pos]) simp
      next
        case False
        then have "count < pos" "a \<le> pos - count - 1" using assms(3) pos by auto
        then show ?thesis using assms(1) pos by (intro exI [of _ "pos - count - 1"]) (simp add: passed_def)
      qed
    qed
  qed
  then show ?thesis using assms by (auto simp: passed_def)
qed

lemma alloc_search_none:
  assumes "alloc_search used words sz wordnum bitnum count wordnum start = None"
    and "passed used sz (32 * wordnum + bitnum) count" and "count \<le> 32 * wordnum + bitnum"
    and "wordnum < words" and "bitnum < 32"
  shows "no_run used sz (32 * words)"
  using assms
proof (induction "32 * words - (32 * wordnum + bitnum)" arbitrary: wordnum bitnum count start
    rule: less_induct)
  case less
  define pos where "pos = 32 * wordnum + bitnum"
  have bit: "bit (used ! wordnum) bitnum \<longleftrightarrow> used_bit used pos"
    using used_bit_at [OF less.prems(5)] by (simp add: pos_def)
  define ct where "ct = (if used_bit used pos then 0 else count + 1)"
  define st where "st = (if \<not> used_bit used pos \<and> count = 0 then pos + 1 else start)"
  have miss: "\<not> (\<not> used_bit used pos \<and> ct = sz + 1)"
    and eq: "(if 32 \<le> bitnum + 1 then
       if wordnum + 1 = words then alloc_search used words sz 0 0 0 (wordnum + 1) st
       else alloc_search used words sz (wordnum + 1) 0 ct (wordnum + 1) st
     else alloc_search used words sz wordnum (bitnum + 1) ct wordnum st) = None"
    using less.prems(1,4) bit
    unfolding alloc_search.simps [of used words sz wordnum bitnum count wordnum start] Let_def ct_def st_def pos_def
    by (auto split: if_splits)
  have p: "passed used sz pos count" "count \<le> pos" using less.prems(2,3) by (simp_all add: pos_def)
  have "used_bit used pos \<or> count < sz" using miss p(1) by (cases "used_bit used pos") (auto simp: ct_def passed_def)
  then have step: "passed used sz (pos + 1) ct" "ct \<le> pos + 1"
    using passed_step [OF p] p(2) by (simp_all add: ct_def)
  consider (finish) "32 \<le> bitnum + 1" "wordnum + 1 = words"
    | (word) "32 \<le> bitnum + 1" "wordnum + 1 < words" | (onward) "bitnum + 1 < 32"
    using less.prems(4) by linarith
  then show ?case
  proof cases
    case finish
    then have "pos + 1 = 32 * words" using less.prems(5) by (simp add: pos_def)
    then show ?thesis using step(1) by (simp add: passed_def)
  next
    case word
    then have pos: "pos + 1 = 32 * (wordnum + 1) + 0" using less.prems(5) by (simp add: pos_def)
    have "alloc_search used words sz (wordnum + 1) 0 ct (wordnum + 1) st = None" using eq word by simp
    then show ?thesis
      using step word less.prems(5) unfolding pos
      by (intro less.hyps [of "wordnum + 1" 0 ct st]) auto
  next
    case onward
    then have pos: "pos + 1 = 32 * wordnum + (bitnum + 1)" by (simp add: pos_def)
    have "alloc_search used words sz wordnum (bitnum + 1) ct wordnum st = None" using eq onward by simp
    then show ?thesis
      using step onward less.prems(4) unfolding pos
      by (intro less.hyps [of wordnum "bitnum + 1" ct st]) auto
  qed
qed

subsection \<open>From power-on\<close>

definition heap_off :: "'w dma_heap \<Rightarrow> bool" where
  "heap_off s \<longleftrightarrow> startAddr s = 0 \<and> regionSize s = 0"

lemma used_bit_zeros: "i < 32 * n \<Longrightarrow> \<not> used_bit (replicate n 0) i"
  by (simp add: used_bit_def)

lemma init_holds:
  assumes "heap_off s" and "CyU3PDmaBufferInit os s = s'"
  shows "heap_off s' \<or> heap_holds s' {}"
proof -
  have "blocks (replicate 224 0) {}" by (simp add: blocks_def used_bit_zeros)
  then show ?thesis
    using assms unfolding heap_off_def CyU3PDmaBufferInit_def Let_def heap_holds_def
    by (auto simp: heap_ready_def split: prod.splits if_splits option.splits)
qed

lemma deinit_off:
  "CyU3PDmaBufferDeInit os s = s' \<Longrightarrow> heap_off s' \<or> (\<exists>w. s' = s\<lparr>tx_world := w\<rparr>)"
  using lock_buffers_heap
  unfolding CyU3PDmaBufferDeInit_def Let_def heap_off_def by (fastforce split: prod.splits if_splits)

lemma off_no_buffer: "heap_off s \<Longrightarrow> fst (CyU3PDmaBufferAlloc os n s) = 0"
  by (auto simp: CyU3PDmaBufferAlloc_def Let_def heap_off_def lock_buffers_def split: prod.splits)

lemma used_bit_ext:
  assumes "length u = length v" and "\<And>i. i < 32 * length u \<Longrightarrow> used_bit u i = used_bit v i"
  shows "u = v"
proof (rule nth_equalityI)
  fix k
  assume k: "k < length u"
  show "u ! k = v ! k"
  proof (rule bit_eqI)
    fix j
    assume "possible_bit TYPE(u32) j"
    then have j: "j < 32" by (simp add: possible_bit_def)
    then have "32 * k + j < 32 * length u" using k by linarith
    then show "bit (u ! k) j = bit (v ! k) j"
      using assms(2) [of "32 * k + j"] j by (simp add: used_bit_at)
  qed
qed (rule assms(1))

lemma empty_heap_clear: "heap_holds s {} \<Longrightarrow> usedStatus s = replicate 224 0"
proof -
  assume "heap_holds s {}"
  then have "blocks (usedStatus s) {}" "length (usedStatus s) = 224"
    by (auto simp: heap_holds_def heap_ready_def)
  then show ?thesis using used_bit_zeros by (intro used_bit_ext) (auto simp: blocks_bit)
qed

lemma set_clear_run:
  assumes "a + n \<le> 32 * length used" and "\<And>i. a \<le> i \<Longrightarrow> i < a + n \<Longrightarrow> \<not> used_bit used i"
  shows "CyU3PDmaBufMgrSetStatus a n False (CyU3PDmaBufMgrSetStatus a n True used) = used"
  using assms by (intro used_bit_ext) (simp_all add: SetStatus_bits)

subsection \<open>Allocating, then freeing\<close>

lemma dma_alloc_free:
  assumes "heap_holds s B" and "CyU3PDmaBufferAlloc os n s = (p, s')" and "p \<noteq> 0"
    and "CyU3PDmaBufferFree os p s' = (r, s'')"
  shows "(r = 0 \<longrightarrow> usedStatus s'' = usedStatus s)
    \<and> (r = 0 \<longleftrightarrow> fst (lock_buffers os (tx_ticks CY_U3P_BUFFER_ALLOC_TIMEOUT) s') = 0)"
proof -
  let ?sz = "chunks_needed (unat n)"
  from assms(1) obtain C where r: "heap_ready s" and C: "B = buffer_of ` C" "blocks (usedStatus s) C"
    by (auto simp: heap_holds_def)
  obtain a k w where p: "p = CY_U3P_BUFFER_HEAP_BASE + 32 * a"
    and found: "alloc_search (usedStatus s) 224 ?sz (searchPos s) 0 0 0 0 = Some (a, k)"
    and s': "s' = s\<lparr>searchPos := k,
        usedStatus := CyU3PDmaBufMgrSetStatus a (?sz - 1) True (usedStatus s), tx_world := w\<rparr>"
    using assms(3) by (cases rule: alloc_cases [OF assms(2) r]) auto
  note a = alloc_search_blocks [OF found r]
  have b: "blocks (usedStatus s') (insert (a, ?sz) C)"
    unfolding s' using blocks_insert [OF C(2) a(1) chunks_needed_two a(2,4)] by simp
  have pb: "(p, 32 * ?sz) = buffer_of (a, ?sz)" by (simp add: p buffer_of_def)
  have "heap_holds s' (buffer_of ` insert (a, ?sz) C)"
    using dma_alloc_block(1) [OF assms(1-3)] unfolding C(1) pb by simp
  from dma_free_found [OF this b insertI1 assms(4) [unfolded p]]
  have free: "r = 0 \<Longrightarrow> usedStatus s'' = CyU3PDmaBufMgrSetStatus a (?sz - 1) False (usedStatus s')"
    by auto
  have "usedStatus s'' = usedStatus s" if "r = 0"
    unfolding free [OF that] s' using a by (simp add: set_clear_run)
  moreover have "r = 0 \<longleftrightarrow> fst (lock_buffers os (tx_ticks CY_U3P_BUFFER_ALLOC_TIMEOUT) s') = 0"
  proof -
    obtain st w1 where l: "lock_buffers os (tx_ticks CY_U3P_BUFFER_ALLOC_TIMEOUT) s' = (st, s'\<lparr>tx_world := w1\<rparr>)"
      using lock_buffers_heap by (metis surj_pair)
    have "startAddr s' < p" "p < startAddr s' + regionSize s'"
      using a(1,2) r chunks_needed_two [of "unat n"] by (simp_all add: s' p heap_ready_def)
    then show ?thesis
      using assms(4) unfolding CyU3PDmaBufferFree_def l Let_def prod.case by (cases "st = 0") auto
  qed
  ultimately show ?thesis by blast
qed

lemma dma_alloc_full:
  assumes "heap_holds s B" and "searchPos s = 0"
    and "fst (lock_buffers os (tx_ticks CY_U3P_BUFFER_ALLOC_TIMEOUT) s) = 0"
    and "fst (CyU3PDmaBufferAlloc os n s) = 0"
  shows "no_run (usedStatus s) (chunks_needed (unat n)) 7168"
proof -
  have r: "startAddr s = CY_U3P_BUFFER_HEAP_BASE" "regionSize s = CY_U3P_BUFFER_HEAP_SIZE" "statusSize s = 224"
    using assms(1) by (simp_all add: heap_holds_def heap_ready_def)
  obtain st w1 where l: "lock_buffers os (tx_ticks CY_U3P_BUFFER_ALLOC_TIMEOUT) s = (st, s\<lparr>tx_world := w1\<rparr>)"
    using lock_buffers_heap by (metis surj_pair)
  have "alloc_search (usedStatus s) 224 (chunks_needed (unat n)) 0 0 0 0 0 = None"
    using assms(2-4) r unfolding CyU3PDmaBufferAlloc_def l Let_def prod.case
    by (auto split: option.splits)
  then have "no_run (usedStatus s) (chunks_needed (unat n)) (32 * 224)"
    by (rule alloc_search_none) (simp_all add: passed_start)
  then show ?thesis by simp
qed

subsection \<open>An operating system for examples\<close>

text \<open>Every mutex is granted at once; the byte pool hands out one address and takes it back.\<close>

definition sim_tx :: "nat tx_os" where
  "sim_tx = \<lparr>tx_thread_identify = \<lambda>_. True, tx_mutex_create = \<lambda>w. (0, w),
     tx_mutex_get = \<lambda>_ w. (0, w), tx_mutex_put = id, tx_mutex_destroy = id,
     tx_byte_pool_create = \<lambda>_ _ w. w, tx_byte_pool_destroy = id,
     tx_byte_alloc = \<lambda>n _ w. (0, CY_U3P_MEM_HEAP_BASE + w, w + n), tx_byte_free = \<lambda>_ w. w\<rparr>"

definition sim_heap_off :: "nat dma_heap" where
  "sim_heap_off = \<lparr>tx_world = 0, glMemPoolInit = True, usedStatus = [], usedPointer = 0, startAddr = 0,
     regionSize = 0, statusSize = 0, searchPos = 0\<rparr>"

definition sim_heap :: "nat dma_heap" where
  "sim_heap = CyU3PDmaBufferInit sim_tx sim_heap_off"

lemma sim_heap_holds: "heap_holds sim_heap {}"
proof -
  have "\<not> heap_off sim_heap" "heap_off sim_heap_off"
    by (simp_all add: sim_heap_def CyU3PDmaBufferInit_def sim_tx_def sim_heap_off_def heap_off_def
        CyU3PMemAlloc_pool_def)
  then show ?thesis using init_holds [of sim_heap_off sim_tx sim_heap] by (auto simp: sim_heap_def)
qed

lemma sim_heap_fields: "startAddr sim_heap = CY_U3P_BUFFER_HEAP_BASE" "regionSize sim_heap = CY_U3P_BUFFER_HEAP_SIZE"
  "statusSize sim_heap = 224" "usedStatus sim_heap = replicate 224 0" "searchPos sim_heap = 0"
  using empty_heap_clear [OF sim_heap_holds]
  by (simp_all add: sim_heap_def CyU3PDmaBufferInit_def sim_tx_def sim_heap_off_def CyU3PMemAlloc_pool_def)

lemma sim_lock: "lock_buffers sim_tx t s = (0, s)"
  by (simp add: lock_buffers_def sim_tx_def)

lemma sim_search: "alloc_search (replicate 224 0) 224 4 0 0 0 0 0 = Some (1, 0)"
  by (simp add: alloc_search.simps)

lemma sim_alloc: "CyU3PDmaBufferAlloc sim_tx 100 sim_heap = (CY_U3P_BUFFER_HEAP_BASE + 32,
   sim_heap\<lparr>usedStatus := CyU3PDmaBufMgrSetStatus (Suc 0) 3 True (replicate 224 0)\<rparr>)"
proof -
  have "searchPos sim_heap = 0" by (rule sim_heap_fields)
  then have "sim_heap\<lparr>searchPos := 0\<rparr> = sim_heap" by simp
  then show ?thesis
    unfolding CyU3PDmaBufferAlloc_def sim_lock Let_def prod.case
    by (simp add: sim_heap_fields sim_search chunks_needed_def unlock_buffers_def sim_tx_def)
qed

lemma sim_heap_off: "heap_off sim_heap_off" "\<not> heap_off sim_heap"
  by (simp_all add: heap_off_def sim_heap_fields) (simp_all add: sim_heap_off_def)

lemma sim_search_again:
  "alloc_search (CyU3PDmaBufMgrSetStatus (Suc 0) 3 True (replicate 224 0)) 224 4 0 0 0 0 0 = Some (5, 0)"
proof -
  have "CyU3PDmaBufMgrSetStatus (Suc 0) 3 True (replicate 224 0) = (replicate 224 0)[0 := 14]"
    by (simp add: CyU3PDmaBufMgrSetStatus_def apply_mask_def)
  then show ?thesis by (simp add: alloc_search.simps)
qed

lemma sim_alloc_again: "fst (CyU3PDmaBufferAlloc sim_tx 100
    (sim_heap\<lparr>usedStatus := CyU3PDmaBufMgrSetStatus (Suc 0) 3 True (replicate 224 0)\<rparr>))
  = CY_U3P_BUFFER_HEAP_BASE + 160"
  unfolding CyU3PDmaBufferAlloc_def sim_lock Let_def prod.case
  by (simp add: sim_heap_fields sim_search_again chunks_needed_def)

end
