(* ===== verification/BootImage.thy ===== *)
theory BootImage
  imports Prelude
begin

text \<open>
  The writer of FX3 boot images, \<^verbatim>\<open>fx3/mkimage/src/fx3-bootimage.c\<close>: reading the loadable segments
  of an ELF file and laying them out as sections of at most 64 KiB, each a word count, an
  address and its words, closed by the entry point and a checksum. Files and images are lists of
  bytes, a pointer into the file is what is left of it from there, and sizes, which the source
  keeps in \<^verbatim>\<open>size_t\<close> and which stay below \<open>2 ^ 39\<close>, are natural numbers.
\<close>

abbreviation FX3_SIGNATURE_0 :: byte where "FX3_SIGNATURE_0 \<equiv> 0x43"
abbreviation FX3_SIGNATURE_1 :: byte where "FX3_SIGNATURE_1 \<equiv> 0x59"
abbreviation FX3_IMAGE_TYPE_NORMAL :: byte where "FX3_IMAGE_TYPE_NORMAL \<equiv> 0xB0"
abbreviation FX3_IMAGE_CTL_DEFAULT :: byte where "FX3_IMAGE_CTL_DEFAULT \<equiv> 0x1C"
abbreviation FX3_VECTOR_AREA_END :: u32 where "FX3_VECTOR_AREA_END \<equiv> 0x100"
abbreviation FX3_MAX_SECTION_BYTES :: nat where "FX3_MAX_SECTION_BYTES \<equiv> 0x10000"
abbreviation FX3_MAX_SEGMENTS :: nat where "FX3_MAX_SEGMENTS \<equiv> 64"

abbreviation (input) ELF_OFF_TYPE :: nat where "ELF_OFF_TYPE \<equiv> 0x10"
abbreviation (input) ELF_OFF_MACHINE :: nat where "ELF_OFF_MACHINE \<equiv> 0x12"
abbreviation (input) ELF_OFF_ENTRY :: nat where "ELF_OFF_ENTRY \<equiv> 0x18"
abbreviation (input) ELF_OFF_PHOFF :: nat where "ELF_OFF_PHOFF \<equiv> 0x1C"
abbreviation (input) ELF_OFF_PHENTSIZE :: nat where "ELF_OFF_PHENTSIZE \<equiv> 0x2A"
abbreviation (input) ELF_OFF_PHNUM :: nat where "ELF_OFF_PHNUM \<equiv> 0x2C"
abbreviation (input) ELF_HEADER_SIZE :: nat where "ELF_HEADER_SIZE \<equiv> 0x34"
abbreviation (input) PH_OFF_TYPE :: nat where "PH_OFF_TYPE \<equiv> 0x00"
abbreviation (input) PH_OFF_OFFSET :: nat where "PH_OFF_OFFSET \<equiv> 0x04"
abbreviation (input) PH_OFF_PADDR :: nat where "PH_OFF_PADDR \<equiv> 0x0C"
abbreviation (input) PH_OFF_FILESZ :: nat where "PH_OFF_FILESZ \<equiv> 0x10"
abbreviation (input) PH_OFF_MEMSZ :: nat where "PH_OFF_MEMSZ \<equiv> 0x14"
abbreviation (input) PH_MIN_SIZE :: nat where "PH_MIN_SIZE \<equiv> 0x20"
abbreviation (input) PT_LOAD :: u32 where "PT_LOAD \<equiv> 1"
abbreviation (input) ET_EXEC :: u16 where "ET_EXEC \<equiv> 2"
abbreviation (input) EM_ARM :: u16 where "EM_ARM \<equiv> 40"
abbreviation (input) ELFCLASS32 :: byte where "ELFCLASS32 \<equiv> 1"
abbreviation (input) ELFDATA2LSB :: byte where "ELFDATA2LSB \<equiv> 1"

datatype fx3_status = FX3_E_TRUNCATED | FX3_E_NOT_ELF | FX3_E_NOT_ELF32_LSB | FX3_E_NOT_ARM
  | FX3_E_NOT_EXEC | FX3_E_TOO_MANY_SEGMENTS | FX3_E_NO_SEGMENTS | FX3_E_NOMEM

record fx3_segment =
  seg_address :: u32
  seg_data :: "byte list"
  seg_file_size :: nat
  seg_mem_size :: nat

text \<open>
  Subtraction of two \<^verbatim>\<open>size_t\<close>, which wraps at 64 bits when the second is the larger: the guards
  before it are what keeps a bound from becoming a huge one.
\<close>

definition size_minus :: "nat \<Rightarrow> nat \<Rightarrow> nat" where
  "size_minus a b = (if b \<le> a then a - b else 2 ^ 64 + a - b)"

lemma size_minus_ge [simp]: "b \<le> a \<Longrightarrow> size_minus a b = a - b"
  by (simp add: size_minus_def)

definition rd16 :: "byte list \<Rightarrow> nat \<Rightarrow> u16" where
  "rd16 p n = ucast (p ! n) OR push_bit 8 (ucast (p ! (n + 1)))"

definition rd32 :: "byte list \<Rightarrow> nat \<Rightarrow> u32" where
  "rd32 p n = le32_of (p ! n) (p ! (n + 1)) (p ! (n + 2)) (p ! (n + 3))"

definition wr32 :: "byte list \<Rightarrow> nat \<Rightarrow> u32 \<Rightarrow> byte list" where
  "wr32 p n v = p[n := bytes_le32 v ! 0, n + 1 := bytes_le32 v ! 1, n + 2 := bytes_le32 v ! 2,
     n + 3 := bytes_le32 v ! 3]"

subsection \<open>Reading the ELF file\<close>

fun elf_segments ::
    "byte list \<Rightarrow> nat \<Rightarrow> nat \<Rightarrow> nat \<Rightarrow> nat list \<Rightarrow> fx3_segment list \<Rightarrow> fx3_status + fx3_segment list" where
  "elf_segments elf phoff phentsize max_segs [] segs = Inr segs"
| "elf_segments elf phoff phentsize max_segs (i # is) segs =
     (let ph = phoff + i * phentsize
      in if rd32 elf (ph + PH_OFF_TYPE) \<noteq> PT_LOAD
         then elf_segments elf phoff phentsize max_segs is segs
         else
         let p_offset = unat (rd32 elf (ph + PH_OFF_OFFSET));
             p_paddr = rd32 elf (ph + PH_OFF_PADDR);
             p_filesz = unat (rd32 elf (ph + PH_OFF_FILESZ));
             p_memsz = unat (rd32 elf (ph + PH_OFF_MEMSZ))
         in if p_memsz = 0 then elf_segments elf phoff phentsize max_segs is segs
         else if p_memsz < p_filesz then Inl FX3_E_TRUNCATED
         else if length elf < p_offset then Inl FX3_E_TRUNCATED
         else if size_minus (length elf) p_offset < p_filesz then Inl FX3_E_TRUNCATED
         else if max_segs \<le> length segs then Inl FX3_E_TOO_MANY_SEGMENTS
         else elf_segments elf phoff phentsize max_segs is
           (segs @ [\<lparr>seg_address = p_paddr, seg_data = drop p_offset elf,
                      seg_file_size = p_filesz, seg_mem_size = p_memsz\<rparr>]))"

definition fx3_elf_parse :: "byte list \<Rightarrow> nat \<Rightarrow> fx3_status + fx3_segment list \<times> u32" where
  "fx3_elf_parse elf max_segs =
     (if length elf < ELF_HEADER_SIZE then Inl FX3_E_TRUNCATED
      else if elf ! 0 \<noteq> 0x7F \<or> elf ! 1 \<noteq> 0x45 \<or> elf ! 2 \<noteq> 0x4C \<or> elf ! 3 \<noteq> 0x46 then Inl FX3_E_NOT_ELF
      else if elf ! 4 \<noteq> ELFCLASS32 \<or> elf ! 5 \<noteq> ELFDATA2LSB then Inl FX3_E_NOT_ELF32_LSB
      else if rd16 elf ELF_OFF_TYPE \<noteq> ET_EXEC then Inl FX3_E_NOT_EXEC
      else if rd16 elf ELF_OFF_MACHINE \<noteq> EM_ARM then Inl FX3_E_NOT_ARM
      else
      let entry = rd32 elf ELF_OFF_ENTRY;
          phoff = unat (rd32 elf ELF_OFF_PHOFF);
          phentsize = unat (rd16 elf ELF_OFF_PHENTSIZE);
          phnum = unat (rd16 elf ELF_OFF_PHNUM)
      in if phnum = 0 \<or> phentsize < PH_MIN_SIZE then Inl FX3_E_TRUNCATED
      else if length elf < phoff then Inl FX3_E_TRUNCATED
      else if size_minus (length elf) phoff div phentsize < phnum then Inl FX3_E_TRUNCATED
      else case elf_segments elf phoff phentsize max_segs [0..<phnum] [] of
          Inl st \<Rightarrow> Inl st
        | Inr segs \<Rightarrow> if segs = [] then Inl FX3_E_NO_SEGMENTS else Inr (segs, entry))"

subsection \<open>Building the image\<close>

definition round_up4 :: "nat \<Rightarrow> nat" where
  "round_up4 n = (n + 3) - (n + 3) mod 4"

definition trim_vectors :: "fx3_segment \<Rightarrow> fx3_segment option" where
  "trim_vectors seg =
     (if FX3_VECTOR_AREA_END \<le> seg_address seg then Some seg else
      let skip = unat (FX3_VECTOR_AREA_END - seg_address seg)
      in if seg_mem_size seg \<le> skip then None
         else Some \<lparr>seg_address = FX3_VECTOR_AREA_END,
                seg_data = drop (if seg_file_size seg < skip then seg_file_size seg else skip) (seg_data seg),
                seg_file_size = (if skip < seg_file_size seg then seg_file_size seg - skip else 0),
                seg_mem_size = seg_mem_size seg - skip\<rparr>)"

fun work_segments :: "bool \<Rightarrow> fx3_segment list \<Rightarrow> fx3_segment list" where
  "work_segments keep_vectors [] = []"
| "work_segments keep_vectors (seg # segs) =
     (if keep_vectors then seg # work_segments keep_vectors segs
      else case trim_vectors seg of
          None \<Rightarrow> work_segments keep_vectors segs
        | Some s \<Rightarrow> s # work_segments keep_vectors segs)"

definition segment_bytes :: "fx3_segment \<Rightarrow> nat" where
  "segment_bytes seg =
     (let payload = round_up4 (seg_mem_size seg);
          sections = (payload + FX3_MAX_SECTION_BYTES - 1) div FX3_MAX_SECTION_BYTES
      in sections * 8 + payload)"

definition image_bytes :: "fx3_segment list \<Rightarrow> nat" where
  "image_bytes work = foldl (\<lambda>total seg. total + segment_bytes seg) 4 work + (8 + 4)"

record image_writer =
  iw_img :: "byte list"
  iw_pos :: nat
  iw_checksum :: u32

function sum_words :: "byte list \<Rightarrow> nat \<Rightarrow> nat \<Rightarrow> nat \<Rightarrow> u32 \<Rightarrow> u32" where
  "sum_words img pos w chunk checksum =
     (if w < chunk then sum_words img pos (w + 4) chunk (checksum + rd32 img (pos + w)) else checksum)"
  by pat_completeness auto
termination by (relation "measure (\<lambda>(_, _, w, chunk, _). chunk - w)") auto

declare sum_words.simps [simp del]

function write_sections :: "fx3_segment \<Rightarrow> u32 \<Rightarrow> nat \<Rightarrow> nat \<Rightarrow> image_writer \<Rightarrow> image_writer" where
  "write_sections seg address remaining copied iw =
     (if remaining = 0 then iw else
      let chunk = (if FX3_MAX_SECTION_BYTES < remaining then FX3_MAX_SECTION_BYTES else remaining);
          img = wr32 (iw_img iw) (iw_pos iw) (of_nat (chunk div 4));
          img = wr32 img (iw_pos iw + 4) address;
          pos = iw_pos iw + 8;
          img = (if copied < seg_file_size seg
                 then let avail = seg_file_size seg - copied; n = (if avail < chunk then avail else chunk)
                      in blit img pos (take n (drop copied (seg_data seg)))
                 else img);
          checksum = sum_words img pos 0 chunk (iw_checksum iw)
      in write_sections seg (address + of_nat chunk) (remaining - chunk) (copied + chunk)
           \<lparr>iw_img = img, iw_pos = pos + chunk, iw_checksum = checksum\<rparr>)"
  by pat_completeness auto
termination by (relation "measure (\<lambda>(_, _, remaining, _, _). remaining)") auto

declare write_sections.simps [simp del]

definition write_segment :: "fx3_segment \<Rightarrow> image_writer \<Rightarrow> image_writer" where
  "write_segment seg iw = write_sections seg (seg_address seg) (round_up4 (seg_mem_size seg)) 0 iw"

text \<open>\<open>calloc\<close> says whether so many bytes of zeroed memory can be had.\<close>

definition fx3_build_image ::
    "(nat \<Rightarrow> bool) \<Rightarrow> fx3_segment list \<Rightarrow> u32 \<Rightarrow> byte \<Rightarrow> byte \<Rightarrow> bool \<Rightarrow> fx3_status + byte list" where
  "fx3_build_image calloc segs entry image_ctl image_type keep_vectors =
     (if FX3_MAX_SEGMENTS < length segs then Inl FX3_E_TOO_MANY_SEGMENTS else
      let work = work_segments keep_vectors segs
      in if work = [] then Inl FX3_E_NO_SEGMENTS else
      let total = image_bytes work
      in if \<not> calloc total then Inl FX3_E_NOMEM else
      let img = (replicate total 0)[0 := FX3_SIGNATURE_0, 1 := FX3_SIGNATURE_1, 2 := image_ctl, 3 := image_type];
          iw = fold write_segment work \<lparr>iw_img = img, iw_pos = 4, iw_checksum = 0\<rparr>;
          img = wr32 (iw_img iw) (iw_pos iw) 0;
          img = wr32 img (iw_pos iw + 4) entry;
          img = wr32 img (iw_pos iw + 8) (iw_checksum iw)
      in Inr (take (iw_pos iw + 12) img))"

subsection \<open>The layout of an image\<close>

text \<open>
  What the image of a segment list is, said without positions: the sections cut out of each
  segment's padded contents, one after the other, between the header and the closing record.
\<close>

fun words_sum :: "byte list \<Rightarrow> u32" where
  "words_sum (a # b # c # d # bs) = le32_of a b c d + words_sum bs"
| "words_sum _ = 0"

definition segment_content :: "fx3_segment \<Rightarrow> byte list" where
  "segment_content seg = take (seg_file_size seg) (seg_data seg)
     @ replicate (round_up4 (seg_mem_size seg) - seg_file_size seg) 0"

function cut_sections :: "u32 \<Rightarrow> byte list \<Rightarrow> (u32 \<times> byte list) list" where
  "cut_sections a bs =
     (if bs = [] then []
      else (a, take FX3_MAX_SECTION_BYTES bs)
        # cut_sections (a + of_nat (min FX3_MAX_SECTION_BYTES (length bs))) (drop FX3_MAX_SECTION_BYTES bs))"
  by pat_completeness auto
termination by (relation "measure (\<lambda>(_, bs). length bs)") auto

declare cut_sections.simps [simp del]

definition encode_section :: "u32 \<times> byte list \<Rightarrow> byte list" where
  "encode_section sec = bytes_le32 (of_nat (length (snd sec) div 4)) @ bytes_le32 (fst sec) @ snd sec"

definition image_sections :: "fx3_segment list \<Rightarrow> (u32 \<times> byte list) list" where
  "image_sections work = concat (map (\<lambda>seg. cut_sections (seg_address seg) (segment_content seg)) work)"

definition sections_checksum :: "(u32 \<times> byte list) list \<Rightarrow> u32" where
  "sections_checksum secs = sum_list (map (\<lambda>sec. words_sum (snd sec)) secs)"

definition image_of :: "byte \<Rightarrow> byte \<Rightarrow> (u32 \<times> byte list) list \<Rightarrow> u32 \<Rightarrow> byte list" where
  "image_of ctl ty secs entry = [FX3_SIGNATURE_0, FX3_SIGNATURE_1, ctl, ty]
     @ concat (map encode_section secs) @ bytes_le32 0 @ bytes_le32 entry
     @ bytes_le32 (sections_checksum secs)"

text \<open>A segment as the parser hands it over: its bytes are there and fit its memory.\<close>

definition segment_ok :: "fx3_segment \<Rightarrow> bool" where
  "segment_ok seg \<longleftrightarrow> seg_file_size seg \<le> length (seg_data seg) \<and> seg_file_size seg \<le> seg_mem_size seg
     \<and> 0 < seg_mem_size seg \<and> seg_mem_size seg < 2 ^ 32"

lemma round_up4_bounds: "n \<le> round_up4 n" "round_up4 n < n + 4" "round_up4 n mod 4 = 0"
proof -
  define q r where "q = (n + 3) div 4" and "r = (n + 3) mod 4"
  then have n: "n + 3 = 4 * q + r" "r < 4" by simp_all
  have "round_up4 n = 4 * q" unfolding round_up4_def r_def [symmetric] using n by linarith
  then show "n \<le> round_up4 n" "round_up4 n < n + 4" "round_up4 n mod 4 = 0" using n by simp_all
qed

lemma length_segment_content:
  "segment_ok seg \<Longrightarrow> length (segment_content seg) = round_up4 (seg_mem_size seg)"
  using round_up4_bounds(1) [of "seg_mem_size seg"] by (simp add: segment_content_def segment_ok_def)

lemma trim_vectors_ok: "segment_ok seg \<Longrightarrow> trim_vectors seg = Some s \<Longrightarrow> segment_ok s"
  by (auto simp: trim_vectors_def segment_ok_def Let_def split: if_splits)

lemma work_segments_ok: "list_all segment_ok segs \<Longrightarrow> list_all segment_ok (work_segments keep segs)"
  by (induction segs) (auto simp: trim_vectors_ok split: option.splits)

text \<open>The bytes a segment holds in the file are bytes of the file.\<close>

definition segment_within :: "byte list \<Rightarrow> fx3_segment \<Rightarrow> bool" where
  "segment_within elf seg \<longleftrightarrow>
     (\<exists>off. off + seg_file_size seg \<le> length elf \<and> seg_data seg = drop off elf)"

lemma elf_segments_ok:
  "elf_segments elf phoff phentsize max_segs is segs = Inr out \<Longrightarrow> list_all segment_ok segs \<Longrightarrow>
   list_all (segment_within elf) segs \<Longrightarrow>
   list_all segment_ok out \<and> list_all (segment_within elf) out \<and> length out \<le> max (length segs) max_segs"
proof (induction elf phoff phentsize max_segs "is" segs rule: elf_segments.induct)
  case (2 elf phoff phentsize max_segs i "is" segs)
  let ?off = "unat (rd32 elf (phoff + i * phentsize + PH_OFF_OFFSET))"
  let ?n = "unat (rd32 elf (phoff + i * phentsize + PH_OFF_FILESZ))"
  have "segment_within elf \<lparr>seg_address = a, seg_data = drop ?off elf, seg_file_size = ?n, seg_mem_size = m\<rparr>"
    if "?off \<le> length elf" "?n \<le> length elf - ?off" for a m
    using that by (auto simp: segment_within_def intro!: exI [of _ ?off])
  then show ?case using 2 by (auto simp: Let_def segment_ok_def not_less split: if_splits)
qed simp

lemma elf_parse_ok:
  "fx3_elf_parse elf max_segs = Inr (segs, entry) \<Longrightarrow>
   list_all segment_ok segs \<and> list_all (segment_within elf) segs \<and> segs \<noteq> [] \<and> length segs \<le> max_segs"
  by (auto simp: fx3_elf_parse_def Let_def split: if_splits sum.splits dest: elf_segments_ok)

subsection \<open>The writer writes that layout\<close>

lemma wr32_zeros:
  "4 \<le> k \<Longrightarrow> wr32 (pre @ replicate k 0) (length pre) v = pre @ bytes_le32 v @ replicate (k - 4) 0"
proof -
  assume "4 \<le> k"
  then have "replicate k (0 :: byte) = 0 # 0 # 0 # 0 # replicate (k - 4) 0"
    by (cases k rule: nat.exhaust) (simp_all add: eval_nat_numeral Suc_diff_le flip: replicate_Suc)
  then show ?thesis by (simp add: wr32_def list_update_append bytes_le32_def)
qed

lemma blit_zeros:
  "length xs \<le> k \<Longrightarrow> blit (pre @ replicate k 0) (length pre) xs = pre @ xs @ replicate (k - length xs) 0"
  by (simp add: blit_def)

lemma rd32_append: "rd32 (pre @ bs) (length pre + n) = rd32 bs n"
  by (simp add: rd32_def nth_append add.assoc)

lemma sum_words_shift:
  "k + chunk \<le> length bs \<Longrightarrow> chunk mod 4 = 0 \<Longrightarrow>
   sum_words (pre @ bs) (length pre) k (k + chunk) cs = cs + words_sum (take chunk (drop k bs))"
proof (induction chunk arbitrary: k cs rule: less_induct)
  case (less chunk)
  show ?case
  proof (cases "chunk = 0")
    case True
    then show ?thesis by (simp add: sum_words.simps [of _ _ k k])
  next
    case False
    then have c: "4 \<le> chunk" "(chunk - 4) mod 4 = 0" using less.prems(2) by (auto elim: dvdE simp: mod_eq_0_iff_dvd)
    define tl where "tl = drop (k + 4) bs"
    have "drop k bs = bs ! k # bs ! (k + 1) # bs ! (k + 2) # bs ! (k + 3) # tl"
      using less.prems(1) c(1) by (simp add: tl_def Cons_nth_drop_Suc eval_nat_numeral)
    moreover obtain m where m: "chunk = Suc (Suc (Suc (Suc m)))" "chunk - 4 = m"
      using c(1) by (metis add_diff_cancel_right' le_add_diff_inverse2 add_2_eq_Suc' numeral_Bit0 add.assoc)
    ultimately have w: "words_sum (take chunk (drop k bs))
        = rd32 bs k + words_sum (take (chunk - 4) tl)"
      by (simp add: rd32_def)
    have "sum_words (pre @ bs) (length pre) (k + 4) (k + 4 + (chunk - 4)) (cs + rd32 bs k)
        = cs + rd32 bs k + words_sum (take (chunk - 4) tl)"
      unfolding tl_def using less.prems c by (intro less.IH) simp_all
    moreover have "k + 4 + (chunk - 4) = k + chunk" using c(1) by simp
    ultimately show ?thesis
      using w False by (simp add: sum_words.simps [of _ _ k] rd32_append)
  qed
qed

lemma content_chunk:
  assumes "segment_ok seg" and "copied + chunk \<le> round_up4 (seg_mem_size seg)"
  shows "take chunk (drop copied (segment_content seg)) =
    (if copied < seg_file_size seg
     then take (min (seg_file_size seg - copied) chunk) (drop copied (seg_data seg))
       @ replicate (chunk - min (seg_file_size seg - copied) chunk) 0
     else replicate chunk 0)"
proof (rule nth_equalityI)
  have len: "length (drop copied (segment_content seg)) \<ge> chunk"
    using assms by (simp add: length_segment_content)
  have f: "seg_file_size seg \<le> length (seg_data seg)" using assms(1) by (simp add: segment_ok_def)
  then show "length (take chunk (drop copied (segment_content seg))) = length
    (if copied < seg_file_size seg
     then take (min (seg_file_size seg - copied) chunk) (drop copied (seg_data seg))
       @ replicate (chunk - min (seg_file_size seg - copied) chunk) 0
     else replicate chunk 0)" using len by auto
  fix i
  assume "i < length (take chunk (drop copied (segment_content seg)))"
  then have i: "i < chunk" by simp
  have "copied + i < seg_file_size seg + (round_up4 (seg_mem_size seg) - seg_file_size seg)"
    using i assms(2) by linarith
  then show "take chunk (drop copied (segment_content seg)) ! i =
    (if copied < seg_file_size seg
     then take (min (seg_file_size seg - copied) chunk) (drop copied (seg_data seg))
       @ replicate (chunk - min (seg_file_size seg - copied) chunk) 0
     else replicate chunk 0) ! i"
    using i f len by (auto simp: segment_content_def nth_append)
qed

definition sections_bytes :: "(u32 \<times> byte list) list \<Rightarrow> byte list" where
  "sections_bytes secs = concat (map encode_section secs)"

lemma sections_simps [simp]:
  "sections_bytes [] = []" "sections_bytes (sec # secs) = encode_section sec @ sections_bytes secs"
  "sections_bytes (secs @ secs') = sections_bytes secs @ sections_bytes secs'"
  "sections_checksum [] = 0" "sections_checksum (sec # secs) = words_sum (snd sec) + sections_checksum secs"
  "sections_checksum (secs @ secs') = sections_checksum secs + sections_checksum secs'"
  by (simp_all add: sections_bytes_def sections_checksum_def)

lemma cut_sections_Nil [simp]: "cut_sections a [] = []"
  by (simp add: cut_sections.simps)

lemma length_cut_bytes:
  "length (sections_bytes (cut_sections a bs)) = (length bs + 65535) div 65536 * 8 + length bs"
proof (induction a bs rule: cut_sections.induct)
  case (1 a bs)
  show ?case
  proof (cases "bs = []")
    case False
    define n where "n = length bs"
    have "0 < n" using False by (simp add: n_def)
    then have "(n + 65535) div 65536 = Suc ((n - 65536 + 65535) div 65536)"
    proof (cases "n \<le> 65536")
      case True
      then show ?thesis using \<open>0 < n\<close> by (simp add: div_nat_eqI)
    next
      case False
      then have "n + 65535 = n - 65536 + 65535 + 65536" by simp
      then show ?thesis by (metis div_add_self2 Suc_eq_plus1 zero_neq_numeral)
    qed
    then show ?thesis
      using 1 [OF False] False by (simp add: cut_sections.simps [of a bs] encode_section_def n_def)
  qed simp
qed

lemma write_sections_layout:
  assumes "segment_ok seg"
  shows "copied + remaining = round_up4 (seg_mem_size seg) \<Longrightarrow> remaining mod 4 = 0 \<Longrightarrow>
    secs = cut_sections address (drop copied (segment_content seg)) \<Longrightarrow>
    length (sections_bytes secs) \<le> k \<Longrightarrow>
    write_sections seg address remaining copied
      \<lparr>iw_img = pre @ replicate k 0, iw_pos = length pre, iw_checksum = cs\<rparr>
    = \<lparr>iw_img = (pre @ sections_bytes secs) @ replicate (k - length (sections_bytes secs)) 0,
       iw_pos = length (pre @ sections_bytes secs), iw_checksum = cs + sections_checksum secs\<rparr>"
proof (induction remaining arbitrary: copied address secs pre k cs rule: less_induct)
  case (less remaining)
  define c where "c = drop copied (segment_content seg)"
  have len: "length c = remaining"
    using less.prems(1) by (simp add: c_def length_segment_content [OF assms])
  show ?case
  proof (cases "remaining = 0")
    case True
    then show ?thesis using len less.prems(3)
      by (simp add: write_sections.simps [of _ _ 0] c_def)
  next
    case False
    define chunk where "chunk = (if FX3_MAX_SECTION_BYTES < remaining then FX3_MAX_SECTION_BYTES else remaining)"
    have chunk: "0 < chunk" "chunk \<le> remaining" "chunk mod 4 = 0" "chunk = min 65536 remaining"
      using False less.prems(2) by (simp_all add: chunk_def)
    define rest where "rest = cut_sections (address + of_nat chunk) (drop chunk c)"
    have "c \<noteq> []" using len False by auto
    moreover have "take 65536 c = take chunk c" "drop 65536 c = drop chunk c"
      using len by (auto simp: chunk_def)
    ultimately have secs: "secs = (address, take chunk c) # rest"
      using less.prems(3) chunk(4) len
      by (simp add: c_def [symmetric] cut_sections.simps [of address c] rest_def)
    have bytes: "sections_bytes secs = (bytes_le32 (of_nat (chunk div 4)) @ bytes_le32 address @ take chunk c)
        @ sections_bytes rest"
      using chunk(2) len by (simp add: secs encode_section_def)
    have k: "8 + chunk + length (sections_bytes rest) \<le> k"
      using less.prems(4) chunk(2) len by (simp add: bytes)
    define pre1 where "pre1 = pre @ bytes_le32 (of_nat (chunk div 4)) @ bytes_le32 address"
    define pre2 where "pre2 = pre1 @ take chunk c"
    have head: "wr32 (wr32 (pre @ replicate k 0) (length pre) (of_nat (chunk div 4))) (length pre + 4) address
        = pre1 @ replicate (k - 8) 0"
      using wr32_zeros [of k pre] wr32_zeros [of "k - 4" "pre @ bytes_le32 (of_nat (chunk div 4))" address] k
      by (simp add: pre1_def)
    have fill: "(if copied < seg_file_size seg
        then let avail = seg_file_size seg - copied; n = (if avail < chunk then avail else chunk)
             in blit (pre1 @ replicate (k - 8) 0) (length pre + 8) (take n (drop copied (seg_data seg)))
        else pre1 @ replicate (k - 8) 0) = pre2 @ replicate (k - 8 - chunk) 0"
    proof -
      have p: "length pre + 8 = length pre1" by (simp add: pre1_def)
      have cc: "take chunk c = (if copied < seg_file_size seg
         then take (min (seg_file_size seg - copied) chunk) (drop copied (seg_data seg))
           @ replicate (chunk - min (seg_file_size seg - copied) chunk) 0
         else replicate chunk 0)"
        unfolding c_def using less.prems(1) chunk(2) by (intro content_chunk [OF assms]) linarith
      show ?thesis
      proof (cases "copied < seg_file_size seg")
        case True
        define xs where "xs = take (min (seg_file_size seg - copied) chunk) (drop copied (seg_data seg))"
        have xs: "length xs = min (seg_file_size seg - copied) chunk"
          using assms True by (simp add: xs_def segment_ok_def min_def) linarith
        have "blit (pre1 @ replicate (k - 8) 0) (length pre1) xs = pre1 @ xs @ replicate (k - 8 - length xs) 0"
          using k xs by (intro blit_zeros) simp
        moreover have "replicate (k - 8 - length xs) (0 :: byte)
            = replicate (chunk - length xs) 0 @ replicate (k - 8 - chunk) 0"
          using k xs by (simp add: replicate_add [symmetric])
        moreover have "(if seg_file_size seg - copied < chunk then seg_file_size seg - copied else chunk)
            = min (seg_file_size seg - copied) chunk" by simp
        ultimately show ?thesis
          using True unfolding Let_def p cc by (simp only: if_True xs_def [symmetric] xs pre2_def cc append.assoc)
      next
        case False
        then show ?thesis using k unfolding pre2_def cc by (simp add: replicate_add [symmetric])
      qed
    qed
    have sum: "sum_words (pre2 @ replicate (k - 8 - chunk) 0) (length pre + 8) 0 chunk cs
        = cs + words_sum (take chunk c)"
      using sum_words_shift [of 0 chunk "take chunk c @ replicate (k - 8 - chunk) 0" pre1 cs] chunk len
      by (simp add: pre2_def pre1_def)
    have pos: "length pre + 8 + chunk = length pre2" using chunk(2) len by (simp add: pre2_def pre1_def)
    have "write_sections seg address remaining copied
        \<lparr>iw_img = pre @ replicate k 0, iw_pos = length pre, iw_checksum = cs\<rparr>
      = write_sections seg (address + of_nat chunk) (remaining - chunk) (copied + chunk)
         \<lparr>iw_img = pre2 @ replicate (k - 8 - chunk) 0, iw_pos = length pre2,
          iw_checksum = cs + words_sum (take chunk c)\<rparr>"
      using False
      unfolding write_sections.simps [of seg address remaining copied]
      by (simp only: if_False Let_def chunk_def [symmetric] image_writer.simps head fill [unfolded Let_def] sum pos)
    also have "\<dots> = \<lparr>iw_img = (pre2 @ sections_bytes rest)
          @ replicate (k - 8 - chunk - length (sections_bytes rest)) 0,
        iw_pos = length (pre2 @ sections_bytes rest),
        iw_checksum = cs + words_sum (take chunk c) + sections_checksum rest\<rparr>"
      using less.prems(1,2) chunk k
      by (intro less.IH) (auto simp: rest_def c_def add.commute mod_diff_left_eq dvd_imp_mod_0 mod_0_imp_dvd
          intro!: dvd_imp_mod_0 dvd_diff_nat)
    finally show ?thesis
      using chunk(2) len unfolding bytes secs pre2_def pre1_def by (simp add: add.assoc encode_section_def)
  qed
qed

lemma write_segment_layout:
  assumes "segment_ok seg" and "secs = cut_sections (seg_address seg) (segment_content seg)"
    and "length (sections_bytes secs) \<le> k"
  shows "write_segment seg \<lparr>iw_img = pre @ replicate k 0, iw_pos = length pre, iw_checksum = cs\<rparr>
    = \<lparr>iw_img = (pre @ sections_bytes secs) @ replicate (k - length (sections_bytes secs)) 0,
       iw_pos = length (pre @ sections_bytes secs), iw_checksum = cs + sections_checksum secs\<rparr>"
  unfolding write_segment_def using assms round_up4_bounds(3)
  by (intro write_sections_layout) simp_all

lemma image_sections_simps [simp]:
  "image_sections [] = []"
  "image_sections (seg # work) = cut_sections (seg_address seg) (segment_content seg) @ image_sections work"
  by (simp_all add: image_sections_def)

lemma write_segments_layout:
  "list_all segment_ok work \<Longrightarrow> length (sections_bytes (image_sections work)) \<le> k \<Longrightarrow>
   fold write_segment work \<lparr>iw_img = pre @ replicate k 0, iw_pos = length pre, iw_checksum = cs\<rparr>
   = \<lparr>iw_img = (pre @ sections_bytes (image_sections work))
        @ replicate (k - length (sections_bytes (image_sections work))) 0,
      iw_pos = length (pre @ sections_bytes (image_sections work)),
      iw_checksum = cs + sections_checksum (image_sections work)\<rparr>"
proof (induction work arbitrary: pre k cs)
  case (Cons seg work)
  define secs where "secs = cut_sections (seg_address seg) (segment_content seg)"
  have k: "length (sections_bytes secs) + length (sections_bytes (image_sections work)) \<le> k"
    using Cons.prems(2) by (simp add: secs_def)
  have "write_segment seg \<lparr>iw_img = pre @ replicate k 0, iw_pos = length pre, iw_checksum = cs\<rparr>
    = \<lparr>iw_img = (pre @ sections_bytes secs) @ replicate (k - length (sections_bytes secs)) 0,
       iw_pos = length (pre @ sections_bytes secs), iw_checksum = cs + sections_checksum secs\<rparr>"
    using Cons.prems(1) k by (intro write_segment_layout) (simp_all add: secs_def)
  moreover have "list_all segment_ok work" "length (sections_bytes (image_sections work)) \<le> k - length (sections_bytes secs)"
    using Cons.prems(1) k by simp_all
  note Cons.IH [OF this, of "pre @ sections_bytes secs" "cs + sections_checksum secs"]
  ultimately show ?case
    by (simp only: fold.simps comp_def image_sections_simps sections_simps secs_def [symmetric]
        append.assoc length_append diff_diff_left add.assoc)
qed simp

lemma image_bytes_sum:
  "list_all segment_ok work \<Longrightarrow> image_bytes work = 4 + length (sections_bytes (image_sections work)) + 12"
proof -
  assume ok: "list_all segment_ok work"
  have "segment_bytes seg = length (sections_bytes (cut_sections (seg_address seg) (segment_content seg)))"
    if "segment_ok seg" for seg
    using length_segment_content [OF that] by (simp add: segment_bytes_def Let_def length_cut_bytes)
  then have "foldl (\<lambda>total seg. total + segment_bytes seg) n work
      = n + length (sections_bytes (image_sections work))" for n
    using ok by (induction work arbitrary: n) simp_all
  then show ?thesis by (simp add: image_bytes_def)
qed

theorem build_image_layout:
  assumes "list_all segment_ok segs" and "fx3_build_image calloc segs entry ctl ty keep = Inr img"
  shows "img = image_of ctl ty (image_sections (work_segments keep segs)) entry"
proof -
  define work where "work = work_segments keep segs"
  have ok: "list_all segment_ok work" unfolding work_def by (rule work_segments_ok [OF assms(1)])
  let ?secs = "image_sections work"
  define n where "n = length (sections_bytes ?secs)"
  define hdr where "hdr = [FX3_SIGNATURE_0, FX3_SIGNATURE_1, ctl, ty]"
  have "replicate (4 + n + 12) (0 :: byte) = 0 # 0 # 0 # 0 # replicate (n + 12) 0"
    by (simp add: eval_nat_numeral)
  then have init: "(replicate (image_bytes work) 0)[0 := FX3_SIGNATURE_0, 1 := FX3_SIGNATURE_1, 2 := ctl, 3 := ty]
      = hdr @ replicate (n + 12) 0"
    by (simp add: image_bytes_sum [OF ok] n_def hdr_def)
  have "fold write_segment work \<lparr>iw_img = hdr @ replicate (n + 12) 0, iw_pos = length hdr, iw_checksum = 0\<rparr>
      = \<lparr>iw_img = (hdr @ sections_bytes ?secs) @ replicate (n + 12 - n) 0,
         iw_pos = length (hdr @ sections_bytes ?secs), iw_checksum = 0 + sections_checksum ?secs\<rparr>"
    unfolding n_def by (intro write_segments_layout [OF ok]) simp
  moreover have "length hdr = 4" by (simp add: hdr_def)
  ultimately have body: "fold write_segment work \<lparr>iw_img = hdr @ replicate (n + 12) 0, iw_pos = 4, iw_checksum = 0\<rparr>
      = \<lparr>iw_img = (hdr @ sections_bytes ?secs) @ replicate 12 0,
         iw_pos = length (hdr @ sections_bytes ?secs), iw_checksum = sections_checksum ?secs\<rparr>"
    by (simp only: add_diff_cancel_left' add_0)
  define pre where "pre = hdr @ sections_bytes ?secs"
  have tail: "wr32 (wr32 (wr32 (pre @ replicate 12 0) (length pre) 0) (length pre + 4) entry)
      (length pre + 8) c = pre @ bytes_le32 0 @ bytes_le32 entry @ bytes_le32 c" for c
    using wr32_zeros [of 12 pre 0] wr32_zeros [of 8 "pre @ bytes_le32 0" entry]
      wr32_zeros [of 4 "pre @ bytes_le32 0 @ bytes_le32 entry" c] by (simp add: add.commute)
  have "img = pre @ bytes_le32 0 @ bytes_le32 entry @ bytes_le32 (sections_checksum ?secs)"
    using assms(2) unfolding fx3_build_image_def Let_def work_def [symmetric] init body
    by (simp only: image_writer.simps pre_def [symmetric] tail split: if_splits) simp_all
  then show ?thesis
    by (simp add: pre_def hdr_def image_of_def sections_bytes_def work_def)
qed

end
