(* ===== verification/BootReader.thy ===== *)
theory BootReader
  imports BootImage
begin

text \<open>
  The host's reader of FX3 boot images, \<^verbatim>\<open>ddd-gui/src/capture/boot_image.cpp\<close>: the checks made
  before a device is opened, the sections found and the sentence a refusal shows. Sizes and
  positions are natural numbers, as \<^verbatim>\<open>size_t\<close> is wide enough for every one of them. The lemmas say
  that the reader accepts what the writer of \<open>BootImage\<close> writes and gives back its sections, and
  what an accepted file looks like.
\<close>

abbreviation (input) kHeaderBytes :: nat where "kHeaderBytes \<equiv> 4"
abbreviation (input) kSectionHeaderBytes :: nat where "kSectionHeaderBytes \<equiv> 8"
abbreviation (input) kChecksumBytes :: nat where "kChecksumBytes \<equiv> 4"
abbreviation (input) kSignatureFirst :: byte where "kSignatureFirst \<equiv> 0x43"
abbreviation (input) kSignatureSecond :: byte where "kSignatureSecond \<equiv> 0x59"
abbreviation (input) kControlNotExecutable :: byte where "kControlNotExecutable \<equiv> 0x01"
abbreviation (input) kImageTypeNormalFirmware :: byte where "kImageTypeNormalFirmware \<equiv> 0xB0"
abbreviation kMaximumSections :: nat where "kMaximumSections \<equiv> 1024"

record BootImageSection =
  sec_address :: u32
  sec_offset :: nat
  sec_length :: nat

record BootImage =
  bi_sections :: "BootImageSection list"
  bi_entry_address :: u32
  bi_payload_bytes :: nat

definition Read32 :: "byte list \<Rightarrow> nat \<Rightarrow> u32" where
  "Read32 img offset =
     ucast (img ! offset) OR push_bit 8 (ucast (img ! (offset + 1)))
     OR push_bit 16 (ucast (img ! (offset + 2))) OR push_bit 24 (ucast (img ! (offset + 3)))"

function payload_checksum :: "byte list \<Rightarrow> nat \<Rightarrow> nat \<Rightarrow> nat \<Rightarrow> u32 \<Rightarrow> u32" where
  "payload_checksum img position offset payload checksum =
     (if offset < payload
      then payload_checksum img position (offset + 4) payload (checksum + Read32 img (position + offset))
      else checksum)"
  by pat_completeness auto
termination by (relation "measure (\<lambda>(_, _, offset, payload, _). payload - offset)") auto

declare payload_checksum.simps [simp del]

text \<open>The loop over the sections: the image read so far, the checksum and the position after it.\<close>

function read_sections ::
    "byte list \<Rightarrow> nat \<Rightarrow> u32 \<Rightarrow> BootImage \<Rightarrow> string + BootImage \<times> u32 \<times> nat" where
  "read_sections img position checksum parsed =
     (if size_minus (length img) position < kSectionHeaderBytes
      then Inl ''That firmware image ends part way through. It may not have downloaded completely.'' else
      let words = Read32 img position;
          address = Read32 img (position + 4);
          position = position + kSectionHeaderBytes
      in if words = 0 then Inr (parsed\<lparr>bi_entry_address := address\<rparr>, checksum, position)
      else if kMaximumSections \<le> length (bi_sections parsed)
      then Inl ''That firmware image is not laid out the way this device's firmware is.''
      else let payload = unat words * 4
      in if size_minus (length img) position < payload
      then Inl ''That firmware image ends part way through. It may not have downloaded completely.''
      else read_sections img (position + payload) (payload_checksum img position 0 payload checksum)
             (parsed\<lparr>bi_sections := bi_sections parsed
                 @ [\<lparr>sec_address = address, sec_offset = position, sec_length = payload\<rparr>],
               bi_payload_bytes := bi_payload_bytes parsed + payload\<rparr>))"
  by pat_completeness auto
termination by (relation "measure (\<lambda>(img, position, _, _). 2 ^ 64 + length img - position)")
  (auto simp: size_minus_def split: if_splits)

declare read_sections.simps [simp del]

definition ParseBootImage :: "byte list \<Rightarrow> string + BootImage" where
  "ParseBootImage img =
     (if length img < kHeaderBytes + kSectionHeaderBytes + kChecksumBytes
      then Inl ''That file is too short to be firmware for this device.''
      else if img ! 0 \<noteq> kSignatureFirst \<or> img ! 1 \<noteq> kSignatureSecond
      then Inl ''That file is not firmware for this device.''
      else if img ! 2 AND kControlNotExecutable \<noteq> 0
      then Inl ''That firmware image does not contain a program the device can run.''
      else if img ! 3 \<noteq> kImageTypeNormalFirmware
      then Inl ''That firmware image is of a kind this device cannot boot.''
      else case read_sections img kHeaderBytes 0
             \<lparr>bi_sections = [], bi_entry_address = 0, bi_payload_bytes = 0\<rparr> of
          Inl problem \<Rightarrow> Inl problem
        | Inr (parsed, checksum, position) \<Rightarrow>
            if size_minus (length img) position \<noteq> kChecksumBytes
            then Inl ''That firmware image is not laid out the way this device's firmware is.''
            else if Read32 img position \<noteq> checksum
            then Inl ''That firmware image failed its own checksum, so it is damaged. Download it again.''
            else if bi_sections parsed = [] then Inl ''That firmware image contains no program to load.''
            else Inr parsed)"

subsection \<open>Reading sections as they are encoded\<close>

lemma Read32_rd32: "Read32 img n = rd32 img n"
  by (simp add: Read32_def rd32_def le32_of_def)

lemma payload_checksum_sum: "payload_checksum img p k n cs = sum_words img p k n cs"
proof (induction img p k n cs rule: payload_checksum.induct)
  case (1 img p k n cs)
  then show ?case
    by (simp add: payload_checksum.simps [of img p k n] sum_words.simps [of img p k n] Read32_rd32)
qed

lemma Read32_bytes: "Read32 (pre @ bytes_le32 v @ post) (length pre) = v"
  using le32_of_nth [of v] rd32_append [of pre "bytes_le32 v @ post" 0]
  by (simp add: Read32_rd32 rd32_def nth_append)

definition section_of :: "byte list \<Rightarrow> BootImageSection \<Rightarrow> u32 \<times> byte list" where
  "section_of img sec = (sec_address sec, take (sec_length sec) (drop (sec_offset sec) img))"

definition section_fits :: "u32 \<times> byte list \<Rightarrow> bool" where
  "section_fits sec \<longleftrightarrow> length (snd sec) mod 4 = 0 \<and> 0 < length (snd sec) \<and> length (snd sec) < 2 ^ 32"

lemma encode_section_words:
  "section_fits sec \<Longrightarrow> unat (of_nat (length (snd sec) div 4) :: u32) * 4 = length (snd sec)
     \<and> (of_nat (length (snd sec) div 4) :: u32) \<noteq> 0"
proof -
  assume "section_fits sec"
  define q where "q = length (snd sec) div 4"
  have q: "length (snd sec) = 4 * q" "0 < q" "q < 2 ^ 30"
    using \<open>section_fits sec\<close>
    by (auto simp: section_fits_def q_def div_greater_zero_iff intro: dvd_imp_le)
  then have "unat (of_nat q :: u32) = q" by (simp add: unat_of_nat_u32)
  then show ?thesis using q by (auto simp: unat_eq_zero [symmetric])
qed

lemma read_encoded:
  assumes "list_all section_fits secs"
    and "length (bi_sections parsed) + length secs \<le> 1024"
  shows "\<exists>parsed'. read_sections (pre @ sections_bytes secs @ bytes_le32 0 @ bytes_le32 entry @ post)
      (length pre) cs parsed
    = Inr (parsed', cs + sections_checksum secs, length pre + length (sections_bytes secs) + 8)
    \<and> bi_entry_address parsed' = entry
    \<and> bi_payload_bytes parsed' = bi_payload_bytes parsed + sum_list (map (length \<circ> snd) secs)
    \<and> map (section_of (pre @ sections_bytes secs @ bytes_le32 0 @ bytes_le32 entry @ post)) (bi_sections parsed')
      = map (section_of (pre @ sections_bytes secs @ bytes_le32 0 @ bytes_le32 entry @ post)) (bi_sections parsed) @ secs"
  using assms
proof (induction secs arbitrary: pre cs parsed)
  case Nil
  let ?img = "pre @ bytes_le32 0 @ bytes_le32 entry @ post"
  have "Read32 ?img (length pre) = 0" by (rule Read32_bytes)
  moreover have "Read32 ?img (length pre + 4) = entry"
    using Read32_bytes [of "pre @ bytes_le32 0" entry post] by simp
  ultimately show ?case by (simp add: read_sections.simps [of ?img "length pre"] Let_def)
next
  case (Cons sec secs)
  obtain a bs where sec: "sec = (a, bs)" by fastforce
  let ?n = "of_nat (length bs div 4) :: u32"
  let ?rest = "sections_bytes secs @ bytes_le32 0 @ bytes_le32 entry @ post"
  let ?img = "pre @ bytes_le32 ?n @ bytes_le32 a @ bs @ ?rest"
  let ?pre = "pre @ bytes_le32 ?n @ bytes_le32 a"
  let ?item = "\<lparr>sec_address = a, sec_offset = length ?pre, sec_length = length bs\<rparr>"
  let ?parsed = "parsed\<lparr>bi_sections := bi_sections parsed @ [?item],
      bi_payload_bytes := bi_payload_bytes parsed + length bs\<rparr>"
  have n: "unat ?n * 4 = length bs" "?n \<noteq> 0"
    using Cons.prems(1) encode_section_words [of sec] by (simp_all add: sec)
  have r: "Read32 ?img (length pre) = ?n" by (rule Read32_bytes)
  have a: "Read32 ?img (length pre + 4) = a"
    using Read32_bytes [of "pre @ bytes_le32 ?n" a "bs @ ?rest"] by simp
  have "length bs mod 4 = 0" using Cons.prems(1) by (simp add: sec section_fits_def)
  then have "sum_words (?pre @ bs @ ?rest) (length ?pre) 0 (0 + length bs) cs
      = cs + words_sum (take (length bs) (drop 0 (bs @ ?rest)))"
    by (intro sum_words_shift) simp_all
  then have cs: "payload_checksum ?img (length pre + 8) 0 (length bs) cs = cs + words_sum bs"
    by (simp add: payload_checksum_sum)
  have step: "read_sections ?img (length pre) cs parsed
      = read_sections ?img (length pre + 8 + length bs) (cs + words_sum bs) ?parsed"
    using Cons.prems(2) n
    by (simp add: read_sections.simps [of ?img "length pre"] Let_def r a cs)
  have item: "section_of ?img ?item = (a, bs)" by (simp add: section_of_def)
  have enc: "encode_section sec = bytes_le32 ?n @ bytes_le32 a @ bs"
    by (simp add: sec encode_section_def)
  have img: "pre @ sections_bytes (sec # secs) @ bytes_le32 0 @ bytes_le32 entry @ post = ?img"
    "(?pre @ bs) @ ?rest = ?img" by (simp_all add: enc)
  have "\<exists>parsed'. read_sections ((?pre @ bs) @ ?rest) (length (?pre @ bs)) (cs + words_sum bs) ?parsed
    = Inr (parsed', cs + words_sum bs + sections_checksum secs,
        length (?pre @ bs) + length (sections_bytes secs) + 8)
    \<and> bi_entry_address parsed' = entry
    \<and> bi_payload_bytes parsed' = bi_payload_bytes ?parsed + sum_list (map (length \<circ> snd) secs)
    \<and> map (section_of ((?pre @ bs) @ ?rest)) (bi_sections parsed')
      = map (section_of ((?pre @ bs) @ ?rest)) (bi_sections ?parsed) @ secs"
    using Cons.prems by (intro Cons.IH) simp_all
  then obtain parsed' where p: "read_sections ?img (length pre + 8 + length bs) (cs + words_sum bs) ?parsed
    = Inr (parsed', cs + words_sum bs + sections_checksum secs,
        length pre + 8 + length bs + length (sections_bytes secs) + 8)"
    "bi_entry_address parsed' = entry"
    "bi_payload_bytes parsed' = bi_payload_bytes parsed + length bs + sum_list (map (length \<circ> snd) secs)"
    "map (section_of ?img) (bi_sections parsed') = map (section_of ?img) (bi_sections parsed) @ (a, bs) # secs"
    unfolding img(2) using item by (auto simp: add.assoc)
  show ?case
    unfolding img(1) step p(1)
    using p(2-4) by (intro exI [of _ parsed']) (simp add: sec encode_section_def comp_def add_ac)
qed

theorem parse_image_of:
  assumes "list_all section_fits secs" and "secs \<noteq> []" and "length secs \<le> kMaximumSections"
    and "ctl AND 1 = 0"
  shows "\<exists>parsed. ParseBootImage (image_of ctl FX3_IMAGE_TYPE_NORMAL secs entry) = Inr parsed
    \<and> map (section_of (image_of ctl FX3_IMAGE_TYPE_NORMAL secs entry)) (bi_sections parsed) = secs
    \<and> bi_entry_address parsed = entry
    \<and> bi_payload_bytes parsed = sum_list (map (length \<circ> snd) secs)"
proof -
  define hdr where "hdr = [FX3_SIGNATURE_0, FX3_SIGNATURE_1, ctl, FX3_IMAGE_TYPE_NORMAL]"
  define post where "post = bytes_le32 (sections_checksum secs)"
  define img where "img = image_of ctl FX3_IMAGE_TYPE_NORMAL secs entry"
  define start where "start = \<lparr>bi_sections = [], bi_entry_address = 0, bi_payload_bytes = 0\<rparr>"
  have img: "img = hdr @ sections_bytes secs @ bytes_le32 0 @ bytes_le32 entry @ post"
    by (simp add: img_def image_of_def hdr_def post_def sections_bytes_def)
  have hdr: "length hdr = 4" by (simp add: hdr_def)
  obtain parsed where p: "read_sections img 4 0 start
      = Inr (parsed, 0 + sections_checksum secs, 4 + length (sections_bytes secs) + 8)"
    "bi_entry_address parsed = entry"
    "bi_payload_bytes parsed = 0 + sum_list (map (length \<circ> snd) secs)"
    "map (section_of img) (bi_sections parsed) = secs"
    using read_encoded [OF assms(1), of start hdr entry post 0] assms(3) hdr
    unfolding img by (auto simp: start_def)
  have "Read32 img (length (hdr @ sections_bytes secs @ bytes_le32 0 @ bytes_le32 entry)) = sections_checksum secs"
    using Read32_bytes [of "hdr @ sections_bytes secs @ bytes_le32 0 @ bytes_le32 entry" "sections_checksum secs" "[]"]
    by (simp add: img post_def)
  then have cs: "Read32 img (4 + length (sections_bytes secs) + 8) = sections_checksum secs"
    by (simp add: hdr add_ac)
  have len: "length img = 4 + length (sections_bytes secs) + 12" by (simp add: img hdr post_def)
  have at: "img ! 0 = FX3_SIGNATURE_0" "img ! 1 = FX3_SIGNATURE_1" "img ! 2 = ctl" "img ! 3 = FX3_IMAGE_TYPE_NORMAL"
    by (simp_all add: img hdr_def)
  have ne: "bi_sections parsed \<noteq> []" using p(4) assms(2) by auto
  have "ParseBootImage img = Inr parsed"
    unfolding ParseBootImage_def start_def [symmetric] at p(1)
    using len assms(4) cs ne by simp
  then show ?thesis using p(2-4) unfolding img_def by auto
qed

subsection \<open>What an accepted file looks like\<close>

lemma read_sections_inside:
  assumes "read_sections img position cs parsed = Inr (parsed', cs', position')"
    and "list_all (\<lambda>sec. sec_offset sec + sec_length sec \<le> length img \<and> sec_length sec mod 4 = 0
        \<and> 0 < sec_length sec) (bi_sections parsed)"
    and "length (bi_sections parsed) \<le> 1024" and "position \<le> length img"
  shows "list_all (\<lambda>sec. sec_offset sec + sec_length sec \<le> length img \<and> sec_length sec mod 4 = 0
      \<and> 0 < sec_length sec) (bi_sections parsed')
    \<and> length (bi_sections parsed') \<le> 1024 \<and> position' \<le> length img"
  using assms
proof (induction img position cs parsed rule: read_sections.induct)
  case (1 img position cs parsed)
  have w: "size_minus (length img) position = length img - position" using "1.prems"(4) by simp
  show ?case
  proof (cases "length img - position < 8 \<or> Read32 img position = 0
      \<or> 1024 \<le> length (bi_sections parsed) \<or> length img - (position + 8) < unat (Read32 img position) * 4")
    case True
    then show ?thesis
      using "1.prems" by (auto simp: read_sections.simps [of img position] Let_def w split: if_splits)
  next
    case False
    have "position + 8 \<le> length img" using "1.prems"(4) False by auto
    with False have "read_sections img (position + 8 + unat (Read32 img position) * 4)
        (payload_checksum img (position + 8) 0 (unat (Read32 img position) * 4) cs)
        (parsed\<lparr>bi_sections := bi_sections parsed @ [\<lparr>sec_address = Read32 img (position + 4),
            sec_offset = position + 8, sec_length = unat (Read32 img position) * 4\<rparr>],
          bi_payload_bytes := bi_payload_bytes parsed + unat (Read32 img position) * 4\<rparr>)
        = Inr (parsed', cs', position')"
      using "1.prems"(1) by (simp add: read_sections.simps [of img position] Let_def w)
    moreover have "unat (Read32 img position) \<noteq> 0" using False by (simp add: unat_eq_zero)
    ultimately show ?thesis using False "1.prems"(2-4) by (intro "1.IH") auto
  qed
qed

theorem parse_sections_inside:
  "ParseBootImage img = Inr parsed \<Longrightarrow>
   list_all (\<lambda>sec. sec_offset sec + sec_length sec \<le> length img \<and> sec_length sec mod 4 = 0
     \<and> 0 < sec_length sec) (bi_sections parsed)
   \<and> bi_sections parsed \<noteq> [] \<and> length (bi_sections parsed) \<le> kMaximumSections"
  using read_sections_inside [of img 4 0 "\<lparr>bi_sections = [], bi_entry_address = 0, bi_payload_bytes = 0\<rparr>"]
  by (fastforce simp: ParseBootImage_def split: if_splits sum.splits)

end
