(* ===== verification/HostUsb.thy ===== *)
theory HostUsb
  imports Prelude
begin

text \<open>
  The host's side of the bus, from \<^verbatim>\<open>ddd-gui/src/capture\<close>: what is known of an attached device
  (\<^verbatim>\<open>usb_device_info.h\<close>, \<^verbatim>\<open>usb_device_info.cpp\<close>) and the operations of a USB backend
  (\<^verbatim>\<open>usb_device.h\<close>), with the clock and the sleep the callers use. The backends, over libusb and
  WinUSB, are parameters. The memory a device in its boot ROM loads is a function of 32-bit
  addresses.
\<close>

datatype DeviceSpeed = SpeedUnknown | SpeedLow | SpeedFull | SpeedHigh | SpeedSuper | SpeedSuperPlus

fun speed_rank :: "DeviceSpeed \<Rightarrow> nat" where
  "speed_rank SpeedUnknown = 0"
| "speed_rank SpeedLow = 1"
| "speed_rank SpeedFull = 2"
| "speed_rank SpeedHigh = 3"
| "speed_rank SpeedSuper = 4"
| "speed_rank SpeedSuperPlus = 5"

lemma speed_rank_inj [simp]: "speed_rank a = speed_rank b \<longleftrightarrow> a = b"
  by (cases a; cases b; simp)

instantiation DeviceSpeed :: linorder
begin

definition less_eq_DeviceSpeed :: "DeviceSpeed \<Rightarrow> DeviceSpeed \<Rightarrow> bool" where
  "less_eq_DeviceSpeed a b \<longleftrightarrow> speed_rank a \<le> speed_rank b"

definition less_DeviceSpeed :: "DeviceSpeed \<Rightarrow> DeviceSpeed \<Rightarrow> bool" where
  "less_DeviceSpeed a b \<longleftrightarrow> speed_rank a < speed_rank b"

instance
proof
  fix a b c :: DeviceSpeed
  show "(a < b) = (a \<le> b \<and> \<not> b \<le> a)"
    by (auto simp: less_eq_DeviceSpeed_def less_DeviceSpeed_def)
  show "a \<le> a" by (simp add: less_eq_DeviceSpeed_def)
  show "a \<le> b \<Longrightarrow> b \<le> c \<Longrightarrow> a \<le> c" by (simp add: less_eq_DeviceSpeed_def)
  show "a \<le> b \<Longrightarrow> b \<le> a \<Longrightarrow> a = b" by (simp add: less_eq_DeviceSpeed_def)
  show "a \<le> b \<or> b \<le> a" by (auto simp: less_eq_DeviceSpeed_def)
qed

end

fun DeviceSpeedName :: "DeviceSpeed \<Rightarrow> string" where
  "DeviceSpeedName SpeedUnknown = ''unknown speed''"
| "DeviceSpeedName SpeedLow = ''Low-speed''"
| "DeviceSpeedName SpeedFull = ''Full-speed''"
| "DeviceSpeedName SpeedHigh = ''High-speed''"
| "DeviceSpeedName SpeedSuper = ''SuperSpeed''"
| "DeviceSpeedName SpeedSuperPlus = ''SuperSpeed+''"

datatype DevicePersonality = PersonalityApplication | PersonalityRecovery | PersonalityFlashProgrammer
  | PersonalityLegacy

fun DevicePersonalityName :: "DevicePersonality \<Rightarrow> string" where
  "DevicePersonalityName PersonalityApplication = ''Duplicator firmware''"
| "DevicePersonalityName PersonalityRecovery = ''recovery mode''"
| "DevicePersonalityName PersonalityFlashProgrammer = ''Cypress flash programmer''"
| "DevicePersonalityName PersonalityLegacy = ''legacy firmware''"

definition SpeedCanCarryCapture :: "DeviceSpeed \<Rightarrow> bool" where
  "SpeedCanCarryCapture speed \<longleftrightarrow> speed = SpeedUnknown \<or> SpeedSuper \<le> speed"

record DeviceInfo =
  di_path :: string
  di_product_string :: string
  di_protocol_version :: int
  di_speed :: DeviceSpeed
  di_personality :: DevicePersonality

definition is_application :: "DeviceInfo \<Rightarrow> bool" where
  "is_application d \<longleftrightarrow> di_personality d = PersonalityApplication"

definition CanCarryCapture :: "DeviceInfo \<Rightarrow> bool" where
  "CanCarryCapture d = SpeedCanCarryCapture (di_speed d)"

datatype DeviceSelection = SelectCaptureCapable | SelectAny

definition SelectDevice :: "DeviceInfo list \<Rightarrow> string \<Rightarrow> DeviceSelection \<Rightarrow> DeviceInfo option" where
  "SelectDevice devices preferred_path selection =
     (let acceptable = (\<lambda>d. selection = SelectAny \<or> is_application d);
          preferred = (if preferred_path \<noteq> []
            then find (\<lambda>d. di_path d = preferred_path \<and> acceptable d) devices else None)
      in case preferred of Some d \<Rightarrow> Some d | None \<Rightarrow> find acceptable devices)"

subsection \<open>A USB backend\<close>

record 'w usb_host =
  Enumerate :: "'w \<Rightarrow> DeviceInfo list option \<times> 'w"
  OpenControlChannel :: "string \<Rightarrow> 'w \<Rightarrow> bool \<times> 'w"
  Transfer :: "byte \<Rightarrow> byte \<Rightarrow> u16 \<Rightarrow> u16 \<Rightarrow> byte list \<Rightarrow> nat \<Rightarrow> 'w \<Rightarrow> int \<times> 'w"
  steady_now :: "'w \<Rightarrow> nat \<times> 'w"
  sleep_for :: "nat \<Rightarrow> 'w \<Rightarrow> 'w"

subsection \<open>Memory at 32-bit addresses\<close>

type_synonym ram = "u32 \<Rightarrow> byte"

definition store :: "ram \<Rightarrow> u32 \<Rightarrow> byte list \<Rightarrow> ram" where
  "store r a bs = (\<lambda>i. let k = unat (i - a) in if k < length bs then bs ! k else r i)"

lemma store_Nil [simp]: "store r a [] = r"
  by (simp add: store_def)

lemma unat_diff_of_nat:
  assumes "n \<le> 2 ^ 32"
  shows "unat (i - (a + of_nat n) :: u32)
    = (if n \<le> unat (i - a) then unat (i - a) - n else 2 ^ 32 + unat (i - a) - n)"
proof -
  define k where "k = i - a"
  have k: "i - (a + of_nat n) = k - of_nat n" by (simp add: k_def)
  show ?thesis
  proof (cases "n = 2 ^ 32")
    case True
    then have "(of_nat n :: u32) = 0" by (simp only: word_of_nat_eq_0_iff) simp
    then have "unat (i - (a + of_nat n)) = unat k" by (simp add: k_def)
    moreover have "unat k < n" by (simp add: True)
    ultimately show ?thesis by (simp add: k_def [symmetric] True del: unat_less_u32)
  next
    case False
    then have n: "unat (of_nat n :: u32) = n" using assms by (simp add: unat_of_nat_u32)
    show ?thesis
    proof (cases "n \<le> unat k")
      case True
      then have "(of_nat n :: u32) \<le> k" by (simp add: u32_le_iff n)
      then show ?thesis using True by (simp add: k k_def [symmetric] unat_sub n)
    next
      case False
      then show ?thesis by (simp add: k k_def [symmetric] unat_sub_if' n)
    qed
  qed
qed

lemma store_append:
  assumes "length (xs @ ys) \<le> 2 ^ 32"
  shows "store (store r a xs) (a + of_nat (length xs)) ys = store r a (xs @ ys)"
proof (rule ext)
  fix i
  have "unat (i - (a + of_nat (length xs))) = (if length xs \<le> unat (i - a) then unat (i - a) - length xs
      else 2 ^ 32 + unat (i - a) - length xs)"
    using assms by (intro unat_diff_of_nat) simp
  then show "store (store r a xs) (a + of_nat (length xs)) ys i = store r a (xs @ ys) i"
    using assms by (auto simp: store_def Let_def nth_append)
qed

end
