(* ===== verification/Recovery.thy ===== *)
theory Recovery
  imports BootReader HostUsb
begin

text \<open>
  Waking a device that sits in its boot ROM: the programmer over a control channel,
  \<^verbatim>\<open>ddd-gui/src/capture/device_programmer.cpp\<close>, and the prelude of an installation that drives a
  programmer, \<^verbatim>\<open>RecoveryInstaller::Wake\<close> of \<^verbatim>\<open>device_recovery.cpp\<close>. A programmer is a record of its
  three operations, as the class is an interface in the source; its contract is the locale
  \<open>ram_programmer\<close>, what the boot ROM promises is the locale \<open>boot_rom\<close>, and the USB programmer over
  a boot ROM fulfils the contract of a programmer. Log and progress output is left out.
\<close>

subsection \<open>The programmer over USB\<close>

abbreviation kRamDownloadRequest :: byte where "kRamDownloadRequest \<equiv> 0xA0"
abbreviation kVendorWriteRequestType :: byte where "kVendorWriteRequestType \<equiv> 0x40"
abbreviation kMaximumDownloadBytes :: nat where "kMaximumDownloadBytes \<equiv> 2048"
abbreviation kDownloadTimeoutMilliseconds :: nat where "kDownloadTimeoutMilliseconds \<equiv> 5000"
abbreviation kReturnPollInterval :: nat where "kReturnPollInterval \<equiv> 250"

record 'w UsbDeviceProgrammer =
  usb_world :: 'w
  programmer_path :: string
  channel_open :: bool
  known_application_paths :: "string set"

definition MakeDeviceProgrammer ::
    "'w usb_host \<Rightarrow> string \<Rightarrow> 'w UsbDeviceProgrammer \<Rightarrow> bool \<times> 'w UsbDeviceProgrammer" where
  "MakeDeviceProgrammer H path s =
     (let (channel, w) = OpenControlChannel H path (usb_world s)
      in if \<not> channel then (False, s\<lparr>usb_world := w\<rparr>) else
      let (devices, w) = Enumerate H w
      in (True, \<lparr>usb_world = w, programmer_path = path, channel_open = True,
                 known_application_paths = (case devices of None \<Rightarrow> {}
                   | Some ds \<Rightarrow> set (map di_path (filter is_application ds)))\<rparr>))"

definition download :: "'w usb_host \<Rightarrow> u32 \<Rightarrow> byte list \<Rightarrow> 'w \<Rightarrow> int \<times> 'w" where
  "download H target data w =
     Transfer H kVendorWriteRequestType kRamDownloadRequest (ucast (target AND 0xFFFF))
       (ucast (drop_bit 16 target AND 0xFFFF)) data kDownloadTimeoutMilliseconds w"

function write_ram_loop :: "'w usb_host \<Rightarrow> u32 \<Rightarrow> byte list \<Rightarrow> nat \<Rightarrow> 'w \<Rightarrow> bool \<times> 'w" where
  "write_ram_loop H address data sent w =
     (if sent < length data then
        let block = min kMaximumDownloadBytes (length data - sent);
            target = address + of_nat sent;
            (written, w) = download H target (take block (drop sent data)) w
        in if written \<noteq> int block then (False, w) else write_ram_loop H address data (sent + block) w
      else (True, w))"
  by pat_completeness auto
termination by (relation "measure (\<lambda>(_, _, data, sent, _). length data - sent)") auto

declare write_ram_loop.simps [simp del]

definition usb_WriteRam ::
    "'w usb_host \<Rightarrow> u32 \<Rightarrow> byte list \<Rightarrow> 'w UsbDeviceProgrammer \<Rightarrow> bool \<times> 'w UsbDeviceProgrammer" where
  "usb_WriteRam H address data s =
     (if \<not> channel_open s then (False, s) else
      let (r, w) = write_ram_loop H address data 0 (usb_world s) in (r, s\<lparr>usb_world := w\<rparr>))"

definition usb_Start :: "'w usb_host \<Rightarrow> u32 \<Rightarrow> 'w UsbDeviceProgrammer \<Rightarrow> bool \<times> 'w UsbDeviceProgrammer" where
  "usb_Start H entry_address s =
     (if \<not> channel_open s then (False, s) else
      let (_, w) = download H entry_address [] (usb_world s)
      in (True, s\<lparr>usb_world := w, channel_open := False\<rparr>))"

definition came_back :: "string \<Rightarrow> string set \<Rightarrow> DeviceInfo list \<Rightarrow> string option" where
  "came_back path known devices =
     (case find (\<lambda>d. di_path d = path \<and> is_application d) devices of
        Some d \<Rightarrow> Some (di_path d)
      | None \<Rightarrow> map_option di_path (find (\<lambda>d. is_application d \<and> di_path d \<notin> known) devices))"

partial_function (option) wait_loop ::
    "'w usb_host \<Rightarrow> string \<Rightarrow> string set \<Rightarrow> nat \<Rightarrow> 'w \<Rightarrow> (string option \<times> 'w) option" where
  "wait_loop H path known deadline w =
     (let (now, w) = steady_now H w
      in if \<not> now < deadline then Some (None, w) else
      let (devices, w) = Enumerate H (sleep_for H kReturnPollInterval w)
      in case devices of
           None \<Rightarrow> wait_loop H path known deadline w
         | Some ds \<Rightarrow>
             (case came_back path known ds of
                Some p \<Rightarrow> Some (Some p, w)
              | None \<Rightarrow> wait_loop H path known deadline w))"

definition usb_WaitForApplication ::
    "'w usb_host \<Rightarrow> nat \<Rightarrow> 'w UsbDeviceProgrammer \<Rightarrow> (string option \<times> 'w UsbDeviceProgrammer) option" where
  "usb_WaitForApplication H timeout s =
     (let (now, w) = steady_now H (usb_world s)
      in map_option (\<lambda>(path, w). (path, s\<lparr>usb_world := w\<rparr>))
           (wait_loop H (programmer_path s) (known_application_paths s) (now + timeout) w))"

subsection \<open>The prelude\<close>

record 's device_programmer =
  WriteRam :: "u32 \<Rightarrow> byte list \<Rightarrow> 's \<Rightarrow> bool \<times> 's"
  Start :: "u32 \<Rightarrow> 's \<Rightarrow> bool \<times> 's"
  WaitForApplication :: "nat \<Rightarrow> 's \<Rightarrow> (string option \<times> 's) option"

record 's recovery_access =
  open_programmer :: "('s \<Rightarrow> bool \<times> 's) option"
  application_present :: "'s \<Rightarrow> bool \<times> 's"
  cancelled :: "'s \<Rightarrow> bool \<times> 's"
  return_timeout :: nat

definition usb_programmer :: "'w usb_host \<Rightarrow> 'w UsbDeviceProgrammer device_programmer" where
  "usb_programmer H = \<lparr>WriteRam = usb_WriteRam H, Start = usb_Start H,
     WaitForApplication = usb_WaitForApplication H\<rparr>"

fun send_sections ::
    "'s device_programmer \<Rightarrow> 's recovery_access \<Rightarrow> byte list \<Rightarrow> BootImageSection list \<Rightarrow> 's
     \<Rightarrow> string option \<times> 's" where
  "send_sections P A firmware [] s = (None, s)"
| "send_sections P A firmware (sec # secs) s =
     (let (stop, s) = cancelled A s
      in if stop
      then (Some ''Stopped before anything was written. The device is in the same state it was in before.'', s)
      else let (r, s) = WriteRam P (sec_address sec) (take (sec_length sec) (drop (sec_offset sec) firmware)) s
      in if \<not> r
      then (Some ''The device stopped accepting the firmware. Nothing was written permanently; unplug it, plug it back in, and try again.'', s)
      else send_sections P A firmware secs s)"

text \<open>The result is a sentence (left) or the path the device came back at (right).\<close>

definition Wake ::
    "'s device_programmer \<Rightarrow> 's recovery_access \<Rightarrow> byte list \<Rightarrow> 's \<Rightarrow> ((string + string) \<times> 's) option" where
  "Wake P A firmware s =
     (if firmware = []
      then Some (Inl ''This device has no working firmware, and this update file does not contain any. Choose an update that includes firmware.'', s)
      else case ParseBootImage firmware of
        Inl problem \<Rightarrow> Some (Inl problem, s)
      | Inr img \<Rightarrow>
        (case open_programmer A of
          None \<Rightarrow> Some (Inl ''This device cannot be reached for programming.'', s)
        | Some opener \<Rightarrow>
          (let (opened, s) = opener s
           in if \<not> opened
           then Some (Inl ''The device in recovery mode could not be opened. Unplug it, plug it back in, and try again.'', s)
           else let (problem, s) = send_sections P A firmware (bi_sections img) s
           in case problem of
             Some text \<Rightarrow> Some (Inl text, s)
           | None \<Rightarrow>
             (let (started, s) = Start P (bi_entry_address img) s
              in if \<not> started
              then Some (Inl ''The device did not start the firmware it was given. Unplug it, plug it back in, and try again.'', s)
              else case WaitForApplication P (return_timeout A) s of
                None \<Rightarrow> None
              | Some (Some path, s) \<Rightarrow> Some (Inr path, s)
              | Some (None, s) \<Rightarrow>
                  (let (present, s) = application_present A s
                   in if present
                   then Some (Inl (''The device restarted with the firmware it was given and is attached as a Duplicator (1209:2347), but this application cannot open it under that identifier. On Windows that is the driver binding: bind 1209:2347 to WinUSB with Zadig '' @ em_dash @ '' the device is on the bus now, which is what Zadig needs '' @ em_dash @ '' and run this again. Nothing has been written; the firmware it is running is in memory and goes when the power does.''), s)
                   else Some (Inl ''The device did not come back after being given its firmware. Unplug it, plug it back in, and try again.'', s))))))"

subsection \<open>What a programmer promises, and what the prelude then does\<close>

definition load_sections :: "(u32 \<times> byte list) list \<Rightarrow> ram \<Rightarrow> ram" where
  "load_sections secs r = fold (\<lambda>sec r. store r (fst sec) (snd sec)) secs r"

lemma load_sections_simps [simp]:
  "load_sections [] r = r"
  "load_sections (sec # secs) r = load_sections secs (store r (fst sec) (snd sec))"
  "load_sections (secs @ secs') r = load_sections secs' (load_sections secs r)"
  by (simp_all add: load_sections_def)

text \<open>\<open>jumps\<close> lists the jumps asked for so far, each with the memory the device had then.\<close>

locale ram_programmer =
  fixes P :: "'s device_programmer"
    and ram :: "'s \<Rightarrow> ram"
    and jumps :: "'s \<Rightarrow> (u32 \<times> ram) list"
  assumes writes: "WriteRam P a bs s = (True, s') \<Longrightarrow> length bs \<le> 2 ^ 32 \<Longrightarrow>
      ram s' = store (ram s) a bs \<and> jumps s' = jumps s"
    and starts: "Start P e s = (True, s') \<Longrightarrow> jumps s' = jumps s @ [(e, ram s)]"
    and waits: "WaitForApplication P n s = Some (path, s') \<Longrightarrow> jumps s' = jumps s"

locale recovery = ram_programmer P ram jumps
  for P :: "'s device_programmer" and ram and jumps +
  fixes A :: "'s recovery_access"
  assumes opens: "open_programmer A = Some opener \<Longrightarrow> opener s = (True, s') \<Longrightarrow> ram s' = ram s \<and> jumps s' = jumps s"
    and asks: "cancelled A s = (b, s') \<Longrightarrow> ram s' = ram s \<and> jumps s' = jumps s"
begin

lemma send_sections_loads:
  assumes "length firmware \<le> 2 ^ 32" and "send_sections P A firmware secs s = (None, s')"
  shows "ram s' = load_sections (map (section_of firmware) secs) (ram s) \<and> jumps s' = jumps s"
  using assms(2)
proof (induction secs arbitrary: s)
  case (Cons sec secs)
  let ?bs = "take (sec_length sec) (drop (sec_offset sec) firmware)"
  obtain b s1 where c: "cancelled A s = (b, s1)" by fastforce
  obtain r s2 where w: "WriteRam P (sec_address sec) ?bs s1 = (r, s2)" by fastforce
  have b: "\<not> b" "r" and rest: "send_sections P A firmware secs s2 = (None, s')"
    using Cons.prems by (auto simp: c w split: if_splits)
  have "length ?bs \<le> 2 ^ 32" using assms(1) by (auto intro: le_trans [rotated])
  then show ?case
    using Cons.IH [OF rest] writes [of "sec_address sec" ?bs s1 s2] w b asks [OF c]
    by (simp add: section_of_def)
qed simp

lemma wake_loads:
  assumes "length firmware \<le> 2 ^ 32" and "Wake P A firmware s = Some (Inr path, s')"
  shows "\<exists>parsed. ParseBootImage firmware = Inr parsed
    \<and> jumps s' = jumps s @ [(bi_entry_address parsed,
        load_sections (map (section_of firmware) (bi_sections parsed)) (ram s))]"
proof -
  from assms(2) obtain parsed opener where parsed: "ParseBootImage firmware = Inr parsed"
    and opener: "open_programmer A = Some opener"
    by (auto simp: Wake_def split: if_splits sum.splits option.splits)
  obtain o1 s1 where o1: "opener s = (o1, s1)" by fastforce
  obtain pr s2 where sends: "send_sections P A firmware (bi_sections parsed) s1 = (pr, s2)" by fastforce
  obtain st s3 where start: "Start P (bi_entry_address parsed) s2 = (st, s3)" by fastforce
  have ok: "o1" "pr = None" "st"
    and wait: "\<exists>p. WaitForApplication P (return_timeout A) s3 = Some (Some p, s')"
    using assms(2)
    by (auto simp: Wake_def parsed opener o1 sends start Let_def split: if_splits option.splits prod.splits)
  have "ram s1 = ram s" "jumps s1 = jumps s" using opens [OF opener] o1 ok(1) by auto
  moreover have "ram s2 = load_sections (map (section_of firmware) (bi_sections parsed)) (ram s1)"
    "jumps s2 = jumps s1"
    using send_sections_loads [OF assms(1)] sends ok(2) by auto
  moreover have "jumps s3 = jumps s2 @ [(bi_entry_address parsed, ram s2)]" using starts start ok(3) by auto
  moreover have "jumps s' = jumps s3" using wait waits by blast
  ultimately show ?thesis using parsed by simp
qed

end

subsection \<open>The USB programmer over a boot ROM\<close>

definition wire_address :: "u16 \<Rightarrow> u16 \<Rightarrow> u32" where
  "wire_address lo hi = ucast lo OR push_bit 16 (ucast hi)"

lemma wire_address_split [simp]:
  "wire_address (ucast (t AND 0xFFFF)) (ucast (drop_bit 16 t AND 0xFFFF)) = t"
proof (rule bit_word_eqI)
  fix n :: nat
  assume n: "n < LENGTH(32)"
  have m: "(0xFFFF :: u32) = mask 16" by (simp add: mask_eq_exp_minus_1)
  show "bit (wire_address (ucast (t AND 0xFFFF)) (ucast (drop_bit 16 t AND 0xFFFF))) n = bit t n"
    using n unfolding m
    by (cases "n < 16")
      (auto simp: wire_address_def bit_or_iff bit_push_bit_iff bit_ucast_iff bit_and_iff bit_mask_iff
        bit_drop_bit_eq)
qed

text \<open>
  The download command of the boot ROM: a data stage is stored at the address in the request when
  it is taken whole, and a request without one jumps there.
\<close>

locale boot_rom =
  fixes H :: "'w usb_host"
    and ram :: "'w \<Rightarrow> ram"
    and jumps :: "'w \<Rightarrow> (u32 \<times> ram) list"
  assumes takes: "Transfer H 0x40 0xA0 lo hi data t w = (n, w') \<Longrightarrow> data \<noteq> [] \<Longrightarrow> n = int (length data) \<Longrightarrow>
      ram w' = store (ram w) (wire_address lo hi) data \<and> jumps w' = jumps w"
    and jumps_to: "Transfer H 0x40 0xA0 lo hi [] t w = (n, w') \<Longrightarrow>
      jumps w' = jumps w @ [(wire_address lo hi, ram w)]"
    and channels: "OpenControlChannel H path w = (b, w') \<Longrightarrow> ram w' = ram w \<and> jumps w' = jumps w"
    and listing: "Enumerate H w = (ds, w') \<Longrightarrow> ram w' = ram w \<and> jumps w' = jumps w"
    and clock: "steady_now H w = (t, w') \<Longrightarrow> jumps w' = jumps w"
    and pausing: "jumps (sleep_for H t w) = jumps w"
begin

lemma download_stores:
  "download H a data w = (int (length data), w') \<Longrightarrow> data \<noteq> [] \<Longrightarrow>
   ram w' = store (ram w) a data \<and> jumps w' = jumps w"
  unfolding download_def using takes by fastforce

lemma download_jumps: "download H a [] w = (n, w') \<Longrightarrow> jumps w' = jumps w @ [(a, ram w)]"
  unfolding download_def using jumps_to by fastforce

lemma write_ram_loop_stores:
  assumes "length data \<le> 2 ^ 32"
  shows "write_ram_loop H a data sent w = (True, w') \<Longrightarrow> sent \<le> length data \<Longrightarrow>
    ram w' = store (ram w) (a + of_nat sent) (drop sent data) \<and> jumps w' = jumps w"
proof (induction "length data - sent" arbitrary: sent w rule: less_induct)
  case less
  show ?case
  proof (cases "sent < length data")
    case False
    then have "ram w' = ram w \<and> jumps w' = jumps w"
      using less.prems(1) by (simp add: write_ram_loop.simps [of H a data sent w])
    then show ?thesis using False by simp
  next
    case True
    define block where "block = min 2048 (length data - sent)"
    define bs where "bs = take block (drop sent data)"
    have len: "length bs = block" "0 < block" "sent + block \<le> length data"
      using True by (simp_all add: bs_def block_def)
    obtain n w1 where d: "download H (a + of_nat sent) bs w = (n, w1)" by fastforce
    have n: "n = int block" and rest: "write_ram_loop H a data (sent + block) w1 = (True, w')"
      using less.prems(1) True
      by (auto simp: write_ram_loop.simps [of H a data sent w] Let_def block_def [symmetric]
          bs_def [symmetric] d split: if_splits)
    have "ram w1 = store (ram w) (a + of_nat sent) bs \<and> jumps w1 = jumps w"
      using download_stores [of _ bs w w1] d n len by force
    moreover have "ram w' = store (ram w1) (a + of_nat (sent + block)) (drop (sent + block) data)
        \<and> jumps w' = jumps w1"
      using rest len by (intro less.hyps) simp_all
    moreover have "drop sent data = bs @ drop (sent + block) data"
      by (simp add: bs_def add.commute flip: drop_drop)
    moreover have "store (store (ram w) (a + of_nat sent) bs) (a + of_nat sent + of_nat (length bs))
        (drop (sent + block) data) = store (ram w) (a + of_nat sent) (bs @ drop (sent + block) data)"
      using assms len by (intro store_append) simp
    ultimately show ?thesis by (simp add: len add.assoc)
  qed
qed

lemma wait_loop_keeps:
  assumes "wait_loop H path known deadline w = Some r"
  shows "jumps (snd r) = jumps w"
proof -
  note induct = wait_loop.raw_induct
    [where P = "\<lambda>H' path known deadline w r. H' = H \<longrightarrow> jumps (snd r) = jumps w"]
  have "H = H \<longrightarrow> jumps (snd r) = jumps w"
  proof (rule induct [OF _ assms], rule impI)
    fix f :: "'w usb_host \<Rightarrow> string \<Rightarrow> string set \<Rightarrow> nat \<Rightarrow> 'w \<Rightarrow> (string option \<times> 'w) option"
      and H' :: "'w usb_host" and path known deadline w and r :: "string option \<times> 'w"
    assume ih: "\<And>H' path known deadline w r. f H' path known deadline w = Some r \<Longrightarrow>
        H' = H \<longrightarrow> jumps (snd r) = jumps w"
      and body: "(let (now, w) = steady_now H' w
        in if \<not> now < deadline then Some (None, w) else
        let (devices, w) = Enumerate H' (sleep_for H' kReturnPollInterval w)
        in case devices of
             None \<Rightarrow> f H' path known deadline w
           | Some ds \<Rightarrow>
               (case came_back path known ds of
                  Some p \<Rightarrow> Some (Some p, w)
                | None \<Rightarrow> f H' path known deadline w)) = Some r"
      and H: "H' = H"
    obtain now w1 where now: "steady_now H w = (now, w1)" by fastforce
    obtain ds w2 where list: "Enumerate H (sleep_for H kReturnPollInterval w1) = (ds, w2)" by fastforce
    have "jumps w2 = jumps w" using listing [OF list] clock [OF now] pausing by simp
    then show "jumps (snd r) = jumps w"
      using body ih [of H path known deadline w2 r] clock [OF now] unfolding H
      by (auto simp: now list split: if_splits option.splits)
  qed
  then show ?thesis by simp
qed

sublocale usb: ram_programmer "usb_programmer H" "\<lambda>s. ram (usb_world s)" "\<lambda>s. jumps (usb_world s)"
proof
  fix a bs s s'
  assume "WriteRam (usb_programmer H) a bs s = (True, s')" and len: "length bs \<le> 2 ^ 32"
  then obtain w where "write_ram_loop H a bs 0 (usb_world s) = (True, w)" "s' = s\<lparr>usb_world := w\<rparr>"
    by (auto simp: usb_programmer_def usb_WriteRam_def Let_def split: if_splits prod.splits)
  then show "ram (usb_world s') = store (ram (usb_world s)) a bs \<and> jumps (usb_world s') = jumps (usb_world s)"
    using write_ram_loop_stores [OF len, of a 0] by fastforce
next
  fix e s s'
  assume "Start (usb_programmer H) e s = (True, s')"
  then show "jumps (usb_world s') = jumps (usb_world s) @ [(e, ram (usb_world s))]"
    using download_jumps
    by (fastforce simp: usb_programmer_def usb_Start_def Let_def split: if_splits prod.splits)
next
  fix n s path s'
  assume "WaitForApplication (usb_programmer H) n s = Some (path, s')"
  then show "jumps (usb_world s') = jumps (usb_world s)"
    using wait_loop_keeps clock
    by (fastforce simp: usb_programmer_def usb_WaitForApplication_def Let_def split: prod.splits)
qed

end

end
