(* ===== verification/RecoveryBench.thy ===== *)
theory RecoveryBench
  imports Recovery
begin

text \<open>
  The image a device is woken with, end to end: what the sections of a built image leave in the
  memory of the boot ROM, that waiting for the device ends when the clock moves on, and a simulated
  host and device on which the contracts of \<open>Recovery\<close> are interpreted.
\<close>

subsection \<open>The sections of a built image\<close>

definition load_segments :: "fx3_segment list \<Rightarrow> ram \<Rightarrow> ram" where
  "load_segments segs r = fold (\<lambda>seg r. store r (seg_address seg) (segment_content seg)) segs r"

text \<open>
  What of a program ends up in memory, said of the segments themselves: each with its memory beyond
  the file's bytes zeroed, less what lies below the end of the vector area unless that is kept, and
  padded to whole words.
\<close>

definition pad4 :: "byte list \<Rightarrow> byte list" where
  "pad4 bs = bs @ replicate ((4 - length bs mod 4) mod 4) 0"

definition below_vectors :: "bool \<Rightarrow> fx3_segment \<Rightarrow> nat" where
  "below_vectors keep seg = (if keep then 0 else 0x100 - unat (seg_address seg))"

definition load_program :: "bool \<Rightarrow> fx3_segment list \<Rightarrow> ram \<Rightarrow> ram" where
  "load_program keep segs r =
     fold (\<lambda>seg r. store r (seg_address seg + of_nat (below_vectors keep seg))
       (pad4 (drop (below_vectors keep seg) (take (seg_file_size seg) (seg_data seg)
          @ replicate (seg_mem_size seg - seg_file_size seg) 0)))) segs r"

lemma round_up4_pad: "round_up4 n = n + (4 - n mod 4) mod 4"
proof -
  define q r where "q = n div 4" and "r = n mod 4"
  then have n: "n = 4 * q + r" "r < 4" by simp_all
  have m: "round_up4 n = n + 3 - (r + 3) mod 4" unfolding round_up4_def r_def by (simp add: mod_add_left_eq)
  consider "r = 0" | "r = 1" | "r = 2" | "r = 3" using n(2) by linarith
  then show ?thesis unfolding m r_def [symmetric] by cases simp_all
qed

lemma segment_content_pad:
  "segment_ok seg \<Longrightarrow> segment_content seg
    = pad4 (take (seg_file_size seg) (seg_data seg) @ replicate (seg_mem_size seg - seg_file_size seg) 0)"
  by (simp add: segment_content_def pad4_def segment_ok_def round_up4_pad replicate_add [symmetric])

lemma trim_vectors_content:
  assumes "segment_ok seg"
  shows "case trim_vectors seg of
      Some t \<Rightarrow> seg_address t = seg_address seg + of_nat (below_vectors False seg)
        \<and> segment_content t = pad4 (drop (below_vectors False seg) (take (seg_file_size seg) (seg_data seg)
            @ replicate (seg_mem_size seg - seg_file_size seg) 0))
    | None \<Rightarrow> seg_mem_size seg \<le> below_vectors False seg"
proof (cases "0x100 \<le> seg_address seg")
  case True
  then show ?thesis using assms
    by (simp add: trim_vectors_def below_vectors_def u32_le_iff segment_content_pad)
next
  case False
  define skip where "skip = unat (0x100 - seg_address seg)"
  have u: "unat (seg_address seg) < 256" using False by (simp add: u32_le_iff)
  then have skip: "below_vectors False seg = skip" "of_nat skip = 0x100 - seg_address seg"
    using False by (simp_all add: skip_def below_vectors_def unat_sub word_le_nat_alt)
  show ?thesis
  proof (cases "seg_mem_size seg \<le> skip")
    case True
    then show ?thesis using False by (simp add: trim_vectors_def skip skip_def [symmetric])
  next
    case small: False
    define t where "t = \<lparr>seg_address = 0x100, seg_data = drop (if seg_file_size seg < skip then seg_file_size seg
        else skip) (seg_data seg), seg_file_size = (if skip < seg_file_size seg then seg_file_size seg - skip else 0),
      seg_mem_size = seg_mem_size seg - skip\<rparr>"
    have "trim_vectors seg = Some t"
      using False small by (simp add: trim_vectors_def skip_def [symmetric] Let_def t_def)
    then have t: "trim_vectors seg = Some t" "seg_address t = 0x100"
      "seg_data t = drop (min (seg_file_size seg) skip) (seg_data seg)"
      "seg_file_size t = seg_file_size seg - skip" "seg_mem_size t = seg_mem_size seg - skip"
      by (simp_all add: t_def min_def)
    have "segment_content t = pad4 (take (seg_file_size t) (seg_data t)
        @ replicate (seg_mem_size t - seg_file_size t) 0)"
      by (rule segment_content_pad [OF trim_vectors_ok [OF assms t(1)]])
    moreover have "take (seg_file_size t) (seg_data t) @ replicate (seg_mem_size t - seg_file_size t) 0
        = drop skip (take (seg_file_size seg) (seg_data seg)
            @ replicate (seg_mem_size seg - seg_file_size seg) 0)"
    proof (cases "skip \<le> seg_file_size seg")
      case True
      then show ?thesis using assms by (simp add: t segment_ok_def drop_take)
    next
      case False
      moreover have "length (take (seg_file_size seg) (seg_data seg)) = seg_file_size seg"
        using assms by (simp add: segment_ok_def)
      ultimately show ?thesis using assms by (simp add: t segment_ok_def)
    qed
    ultimately show ?thesis by (simp add: t skip)
  qed
qed

lemma load_work:
  "list_all segment_ok segs \<Longrightarrow> load_segments (work_segments keep segs) r = load_program keep segs r"
proof (induction segs arbitrary: r)
  case (Cons seg segs)
  then have ok: "segment_ok seg" and ih: "load_segments (work_segments keep segs) r = load_program keep segs r" for r
    by simp_all
  show ?case
  proof (cases keep)
    case True
    then show ?thesis using ih ok
      by (simp add: load_segments_def load_program_def segment_content_pad below_vectors_def)
  next
    case False
    define bs where "bs = drop (below_vectors False seg) (take (seg_file_size seg) (seg_data seg)
      @ replicate (seg_mem_size seg - seg_file_size seg) 0)"
    have p: "load_program keep (seg # segs) r = load_program keep segs
        (store r (seg_address seg + of_nat (below_vectors False seg)) (pad4 bs))"
      using False by (simp add: load_program_def bs_def)
    show ?thesis
    proof (cases "trim_vectors seg")
      case None
      then have "bs = []" using trim_vectors_content [OF ok] ok by (simp add: bs_def segment_ok_def)
      then have "pad4 bs = []" by (simp add: pad4_def)
      then show ?thesis unfolding p using None ih False by simp
    next
      case (Some t)
      then have "seg_address t = seg_address seg + of_nat (below_vectors False seg)" "segment_content t = pad4 bs"
        using trim_vectors_content [OF ok] by (simp_all add: bs_def)
      then show ?thesis unfolding p using Some ih False by (simp add: load_segments_def)
    qed
  qed
qed (simp add: load_segments_def load_program_def)

lemma load_cut:
  "length bs \<le> 2 ^ 32 \<Longrightarrow> load_sections (cut_sections a bs) r = store r a bs"
proof (induction a bs arbitrary: r rule: cut_sections.induct)
  case (1 a bs)
  show ?case
  proof (cases "bs = []")
    case False
    define n where "n = min FX3_MAX_SECTION_BYTES (length bs)"
    have n: "length (take FX3_MAX_SECTION_BYTES bs) = n" by (simp add: n_def min.commute)
    have "load_sections (cut_sections a bs) r
        = store (store r a (take FX3_MAX_SECTION_BYTES bs)) (a + of_nat n) (drop FX3_MAX_SECTION_BYTES bs)"
      using 1 False by (simp add: cut_sections.simps [of a bs] n_def)
    also have "\<dots> = store r a (take FX3_MAX_SECTION_BYTES bs @ drop FX3_MAX_SECTION_BYTES bs)"
      unfolding n [symmetric] using 1(2) by (intro store_append) simp
    finally show ?thesis by simp
  qed simp
qed

lemma content_bounds:
  "segment_ok seg \<Longrightarrow> length (segment_content seg) \<le> 2 ^ 32 \<and> length (segment_content seg) mod 4 = 0"
proof -
  assume ok: "segment_ok seg"
  define n where "n = round_up4 (seg_mem_size seg)"
  have "n < seg_mem_size seg + 4" "n mod 4 = 0"
    using round_up4_bounds [of "seg_mem_size seg"] by (simp_all add: n_def)
  moreover have "seg_mem_size seg < 2 ^ 32" using ok by (simp add: segment_ok_def)
  ultimately show ?thesis unfolding length_segment_content [OF ok] n_def [symmetric]
    by (auto simp: mod_eq_0_iff_dvd elim!: dvdE)
qed

lemma load_image_sections:
  "list_all segment_ok work \<Longrightarrow> load_sections (image_sections work) r = load_segments work r"
proof (induction work arbitrary: r)
  case (Cons seg work)
  then have "load_sections (cut_sections (seg_address seg) (segment_content seg)) r
      = store r (seg_address seg) (segment_content seg)"
    using content_bounds by (intro load_cut) simp
  then show ?case using Cons by (simp add: load_segments_def)
qed (simp add: load_segments_def)

lemma cut_sections_fit:
  "length bs mod 4 = 0 \<Longrightarrow> list_all section_fits (cut_sections a bs)"
proof (induction a bs rule: cut_sections.induct)
  case (1 a bs)
  show ?case
  proof (cases "bs = []")
    case False
    have "length (drop FX3_MAX_SECTION_BYTES bs) mod 4 = 0" "min FX3_MAX_SECTION_BYTES (length bs) mod 4 = 0"
      using 1(2) by (auto simp: min_def mod_eq_0_iff_dvd)
    then show ?thesis using 1(1) False
      by (simp add: cut_sections.simps [of a bs] section_fits_def min.commute)
  qed simp
qed

lemma image_sections_fit: "list_all segment_ok work \<Longrightarrow> list_all section_fits (image_sections work)"
  by (induction work) (simp_all add: cut_sections_fit content_bounds)

lemma cut_sections_ne: "bs \<noteq> [] \<Longrightarrow> cut_sections a bs \<noteq> []"
  by (simp add: cut_sections.simps [of a bs])

lemma image_sections_ne: "list_all segment_ok work \<Longrightarrow> work \<noteq> [] \<Longrightarrow> image_sections work \<noteq> []"
proof (cases work)
  case (Cons seg segs)
  assume "list_all segment_ok work"
  then have ok: "segment_ok seg" using Cons by simp
  then have "length (segment_content seg) \<noteq> 0"
    using round_up4_bounds(1) [of "seg_mem_size seg"] unfolding length_segment_content [OF ok]
    by (simp add: segment_ok_def)
  then show ?thesis using Cons by (simp add: cut_sections_ne)
qed simp

lemma build_image_work:
  "fx3_build_image calloc segs entry ctl ty keep = Inr img \<Longrightarrow> work_segments keep segs \<noteq> []"
  by (auto simp: fx3_build_image_def Let_def split: if_splits)

text \<open>The reader gives back what the writer laid out.\<close>

lemma parse_built:
  assumes "list_all segment_ok segs" and "fx3_build_image calloc segs entry ctl FX3_IMAGE_TYPE_NORMAL keep = Inr img"
    and "ctl AND 1 = 0" and "length (image_sections (work_segments keep segs)) \<le> kMaximumSections"
  shows "\<exists>parsed. ParseBootImage img = Inr parsed
    \<and> map (section_of img) (bi_sections parsed) = image_sections (work_segments keep segs)
    \<and> bi_entry_address parsed = entry"
proof -
  have ok: "list_all segment_ok (work_segments keep segs)" by (rule work_segments_ok [OF assms(1)])
  show ?thesis
    unfolding build_image_layout [OF assms(1,2)]
    using parse_image_of [OF image_sections_fit [OF ok] image_sections_ne [OF ok build_image_work [OF assms(2)]]
        assms(4,3)] by blast
qed

subsection \<open>Waiting ends\<close>

locale ticking_host =
  fixes H :: "'w usb_host" and clock :: "'w \<Rightarrow> nat"
  assumes now: "steady_now H w = (t, w') \<Longrightarrow> t = clock w \<and> clock w \<le> clock w'"
    and listing: "Enumerate H w = (ds, w') \<Longrightarrow> clock w \<le> clock w'"
    and sleeping: "clock w + t \<le> clock (sleep_for H t w)"
begin

lemma wait_loop_returns: "\<exists>r. wait_loop H path known deadline w = Some r"
proof (induction "deadline - clock w" arbitrary: w rule: less_induct)
  case less
  obtain t w1 where t: "steady_now H w = (t, w1)" by fastforce
  obtain ds w2 where l: "Enumerate H (sleep_for H 250 w1) = (ds, w2)" by fastforce
  have "clock w1 + 250 \<le> clock w2" using sleeping [of w1 250] listing [OF l] by linarith
  then have "t < deadline \<Longrightarrow> deadline - clock w2 < deadline - clock w" using now [OF t] by linarith
  then have "t < deadline \<Longrightarrow> \<exists>r. wait_loop H path known deadline w2 = Some r" by (rule less)
  then show ?case
    by (subst wait_loop.simps) (auto simp: t l Let_def split: option.splits)
qed

lemma wait_returns: "\<exists>r. usb_WaitForApplication H timeout s = Some r"
  using wait_loop_returns by (fastforce simp: usb_WaitForApplication_def Let_def split: prod.splits)

end

subsection \<open>The whole prelude\<close>

lemma cut_sections_short: "list_all (\<lambda>sec. length (snd sec) \<le> FX3_MAX_SECTION_BYTES) (cut_sections a bs)"
proof (induction a bs rule: cut_sections.induct)
  case (1 a bs)
  then show ?case by (cases "bs = []") (simp_all add: cut_sections.simps [of a bs])
qed

lemma image_sections_short:
  "list_all (\<lambda>sec. length (snd sec) \<le> FX3_MAX_SECTION_BYTES) (image_sections work)"
  by (induction work) (simp_all add: cut_sections_short)

lemma sections_bytes_short:
  "list_all (\<lambda>sec. length (snd sec) \<le> FX3_MAX_SECTION_BYTES) secs \<Longrightarrow>
   length (sections_bytes secs) \<le> length secs * (FX3_MAX_SECTION_BYTES + 8)"
  by (induction secs) (simp_all add: encode_section_def)

lemma built_image_short:
  assumes "list_all segment_ok segs" and "fx3_build_image calloc segs entry ctl ty keep = Inr img"
    and "length (image_sections (work_segments keep segs)) \<le> kMaximumSections"
  shows "length img \<le> 2 ^ 32"
  unfolding build_image_layout [OF assms(1,2)] image_of_def sections_bytes_def [symmetric]
  using sections_bytes_short [OF image_sections_short [of "work_segments keep segs"]] assms(3) by simp

text \<open>The access a recovery has: the programmer at a path, a probe of the bus, a way to stop.\<close>

definition usb_access ::
    "'w usb_host \<Rightarrow> string \<Rightarrow> ('w \<Rightarrow> bool \<times> 'w) \<Rightarrow> ('w \<Rightarrow> bool \<times> 'w) \<Rightarrow> nat
     \<Rightarrow> 'w UsbDeviceProgrammer recovery_access" where
  "usb_access H path present cancel timeout =
     \<lparr>open_programmer = Some (MakeDeviceProgrammer H path),
      application_present = (\<lambda>s. let (b, w) = present (usb_world s) in (b, s\<lparr>usb_world := w\<rparr>)),
      cancelled = (\<lambda>s. let (b, w) = cancel (usb_world s) in (b, s\<lparr>usb_world := w\<rparr>)),
      return_timeout = timeout\<rparr>"

context boot_rom
begin

lemma usb_recovery:
  assumes "\<And>w b w'. cancel w = (b, w') \<Longrightarrow> ram w' = ram w \<and> jumps w' = jumps w"
  shows "recovery (usb_programmer H) (\<lambda>s. ram (usb_world s)) (\<lambda>s. jumps (usb_world s))
    (usb_access H path present cancel timeout)"
proof (rule recovery.intro [OF usb.ram_programmer_axioms], unfold_locales)
  fix opener s s'
  assume "open_programmer (usb_access H path present cancel timeout) = Some opener"
    and "opener s = (True, s')"
  then show "ram (usb_world s') = ram (usb_world s) \<and> jumps (usb_world s') = jumps (usb_world s)"
    using channels listing
    by (fastforce simp: usb_access_def MakeDeviceProgrammer_def Let_def split: prod.splits if_splits)
next
  fix s b s'
  assume "cancelled (usb_access H path present cancel timeout) s = (b, s')"
  then show "ram (usb_world s') = ram (usb_world s) \<and> jumps (usb_world s') = jumps (usb_world s)"
    using assms by (auto simp: usb_access_def split: prod.splits)
qed

end

subsection \<open>A simulated host and device\<close>

record sim_bus =
  sb_ram :: ram
  sb_jumps :: "(u32 \<times> ram) list"
  sb_clock :: nat

definition sim_device :: "sim_bus \<Rightarrow> DeviceInfo" where
  "sim_device w = \<lparr>di_path = ''1-2'', di_product_string = ''FX3'', di_protocol_version = 1,
     di_speed = SpeedSuper,
     di_personality = (if sb_jumps w = [] then PersonalityRecovery else PersonalityApplication)\<rparr>"

definition sim_host :: "sim_bus usb_host" where
  "sim_host = \<lparr>Enumerate = \<lambda>w. (Some [sim_device w], w), OpenControlChannel = \<lambda>_ w. (True, w),
     Transfer = \<lambda>ty rq lo hi data t w.
       (if ty = 0x40 \<and> rq = 0xA0
        then (int (length data),
          if data = [] then w\<lparr>sb_jumps := sb_jumps w @ [(wire_address lo hi, sb_ram w)]\<rparr>
          else w\<lparr>sb_ram := store (sb_ram w) (wire_address lo hi) data\<rparr>)
        else (-1, w)),
     steady_now = \<lambda>w. (sb_clock w, w), sleep_for = \<lambda>t w. w\<lparr>sb_clock := sb_clock w + t\<rparr>\<rparr>"

definition sim_bus_start :: sim_bus where
  "sim_bus_start = \<lparr>sb_ram = \<lambda>_. 0, sb_jumps = [], sb_clock = 0\<rparr>"

interpretation bench_rom: boot_rom sim_host sb_ram sb_jumps
  by unfold_locales (auto simp: sim_host_def split: if_splits)

interpretation bench_clock: ticking_host sim_host sb_clock
  by unfold_locales (auto simp: sim_host_def)

definition idle_cancel :: "sim_bus \<Rightarrow> bool \<times> sim_bus" where
  "idle_cancel w = (False, w)"

text \<open>
  An ELF file with one loadable segment: four bytes and four more of zeroed memory, half of it in
  the vector area; the image built from it, and the device waking up with it.
\<close>

definition bench_elf :: "byte list" where
  "bench_elf = [0x7F, 0x45, 0x4C, 0x46, 1, 1, 1, 0, 0, 0, 0, 0, 0, 0, 0, 0,
     2, 0, 40, 0, 1, 0, 0, 0, 0x00, 0x01, 0, 0, 52, 0, 0, 0, 0, 0, 0, 0, 0, 0, 0, 0, 52, 0, 32, 0, 1, 0,
     0, 0, 0, 0, 0, 0,
     1, 0, 0, 0, 84, 0, 0, 0, 0, 0, 0, 0, 0xFE, 0x00, 0, 0, 4, 0, 0, 0, 8, 0, 0, 0, 7, 0, 0, 0, 4, 0, 0, 0,
     1, 2, 3, 4]"

definition bench_segment :: fx3_segment where
  "bench_segment = \<lparr>seg_address = 0xFE, seg_data = [1, 2, 3, 4], seg_file_size = 4, seg_mem_size = 8\<rparr>"

lemma bench_elf_parse: "fx3_elf_parse bench_elf FX3_MAX_SEGMENTS = Inr ([bench_segment], 0x100)"
  by (simp add: fx3_elf_parse_def bench_elf_def rd16_def rd32_def le32_of_def bench_segment_def upt_rec)

definition bench_image :: "byte list" where
  "bench_image = [0x43, 0x59, 0x1C, 0xB0, 2, 0, 0, 0, 0, 1, 0, 0, 3, 4, 0, 0, 0, 0, 0, 0,
     0, 0, 0, 0, 0, 1, 0, 0, 3, 4, 0, 0]"

lemma bench_work: "work_segments False [bench_segment]
    = [\<lparr>seg_address = 0x100, seg_data = [3, 4], seg_file_size = 2, seg_mem_size = 6\<rparr>]"
  by (simp add: bench_segment_def trim_vectors_def)

lemma bench_content: "segment_content \<lparr>seg_address = 0x100, seg_data = [3, 4], seg_file_size = 2, seg_mem_size = 6\<rparr>
    = [3, 4, 0, 0, 0, 0, 0, 0]"
proof -
  have "round_up4 6 = 8" by (simp add: round_up4_def)
  moreover have "replicate 6 (0 :: byte) = [0, 0, 0, 0, 0, 0]" by (simp add: numeral_eq_Suc)
  ultimately show ?thesis by (simp add: segment_content_def)
qed

lemma bench_sections: "image_sections (work_segments False [bench_segment]) = [(0x100, [3, 4, 0, 0, 0, 0, 0, 0])]"
  unfolding bench_work by (simp add: bench_content cut_sections.simps [where bs = "x # xs" for x xs])

lemma bench_count: "length (image_sections (work_segments False [bench_segment])) \<le> kMaximumSections"
  unfolding bench_sections by simp

lemma bench_byte: "load_program False [bench_segment] r 0x101 = 4"
proof -
  have "store r 0x100 [3, 4, 0, 0, 0, 0, 0, 0] 0x101 = 4" by (simp add: store_def)
  then have "load_segments (work_segments False [bench_segment]) r 0x101 = 4"
    unfolding bench_work load_segments_def by (simp only: fold_simps fx3_segment.simps bench_content)
  moreover have "list_all segment_ok [bench_segment]" by (simp add: bench_segment_def segment_ok_def)
  ultimately show ?thesis by (simp only: load_work)
qed

lemma bench_build: "fx3_build_image (\<lambda>_. True) [bench_segment] 0x100 FX3_IMAGE_CTL_DEFAULT FX3_IMAGE_TYPE_NORMAL False
    = Inr bench_image"
proof -
  obtain img where b: "fx3_build_image (\<lambda>_. True) [bench_segment] 0x100 FX3_IMAGE_CTL_DEFAULT
      FX3_IMAGE_TYPE_NORMAL False = Inr img"
    unfolding fx3_build_image_def bench_work by (simp add: Let_def)
  have "list_all segment_ok [bench_segment]" by (simp add: bench_segment_def segment_ok_def)
  from build_image_layout [OF this b] have "img = bench_image"
    unfolding bench_sections
    by (simp add: image_of_def encode_section_def bytes_le32_plain sections_checksum_def le32_of_def bench_image_def)
  then show ?thesis using b by simp
qed

definition bench_programmer :: "sim_bus UsbDeviceProgrammer" where
  "bench_programmer = \<lparr>usb_world = sim_bus_start, programmer_path = [], channel_open = False,
     known_application_paths = {}\<rparr>"

definition bench_access :: "sim_bus UsbDeviceProgrammer recovery_access" where
  "bench_access = usb_access sim_host ''1-2'' idle_cancel idle_cancel 30000"

lemma bench_parse: "ParseBootImage bench_image = Inr
    \<lparr>bi_sections = [\<lparr>sec_address = 0x100, sec_offset = 12, sec_length = 8\<rparr>], bi_entry_address = 0x100,
     bi_payload_bytes = 8\<rparr>"
  by (simp add: ParseBootImage_def bench_image_def read_sections.simps payload_checksum.simps Read32_def)

lemma sim_download: "download sim_host a data w = (int (length data),
    if data = [] then w\<lparr>sb_jumps := sb_jumps w @ [(a, sb_ram w)]\<rparr> else w\<lparr>sb_ram := store (sb_ram w) a data\<rparr>)"
  by (simp add: download_def sim_host_def)

lemma sim_write: "data \<noteq> [] \<Longrightarrow> length data \<le> 2048 \<Longrightarrow>
    usb_WriteRam sim_host a data s = (if channel_open s
      then (True, s\<lparr>usb_world := (usb_world s)\<lparr>sb_ram := store (sb_ram (usb_world s)) a data\<rparr>\<rparr>) else (False, s))"
  by (simp add: usb_WriteRam_def write_ram_loop.simps [of _ _ _ 0] write_ram_loop.simps [of _ _ _ "length data"]
      sim_download min_def)

lemma sim_start: "usb_Start sim_host e s = (if channel_open s
      then (True, s\<lparr>usb_world := (usb_world s)\<lparr>sb_jumps := sb_jumps (usb_world s) @ [(e, sb_ram (usb_world s))]\<rparr>,
        channel_open := False\<rparr>) else (False, s))"
  by (simp add: usb_Start_def sim_download)

lemma sim_wait: "sb_jumps (usb_world s) \<noteq> [] \<Longrightarrow> programmer_path s = ''1-2'' \<Longrightarrow> 0 < n \<Longrightarrow>
    \<exists>s'. usb_WaitForApplication sim_host n s = Some (Some ''1-2'', s')"
  by (simp add: usb_WaitForApplication_def sim_host_def wait_loop.simps [of _ _ _ "sb_clock (usb_world s) + n"]
      came_back_def sim_device_def is_application_def)

lemma sim_make: "MakeDeviceProgrammer sim_host path s = (True, \<lparr>usb_world = usb_world s, programmer_path = path,
    channel_open = True, known_application_paths =
      (if sb_jumps (usb_world s) = [] then {} else {''1-2''})\<rparr>)"
  by (simp add: MakeDeviceProgrammer_def sim_host_def sim_device_def is_application_def)

lemma bench_wake: "\<exists>s'. Wake (usb_programmer sim_host) bench_access bench_image bench_programmer = Some (Inr ''1-2'', s')"
proof -
  have i: "bench_image \<noteq> []" "take 8 (drop 12 bench_image) = [3, 4, 0, 0, 0, 0, 0, 0]"
    by (simp_all add: bench_image_def)
  define s where "s = \<lparr>usb_world = sim_bus_start\<lparr>sb_ram := store (sb_ram sim_bus_start) 0x100 [3, 4, 0, 0, 0, 0, 0, 0],
      sb_jumps := [(0x100, store (sb_ram sim_bus_start) 0x100 [3, 4, 0, 0, 0, 0, 0, 0])]\<rparr>,
    programmer_path = ''1-2'', channel_open = False, known_application_paths = {}\<rparr>"
  obtain s' where "usb_WaitForApplication sim_host 30000 s = Some (Some ''1-2'', s')"
    using sim_wait [of s 30000] by (auto simp: s_def)
  then show ?thesis
    using i by (simp add: Wake_def bench_parse bench_access_def usb_access_def sim_make usb_programmer_def
        sim_write sim_start idle_cancel_def bench_programmer_def sim_bus_start_def Let_def s_def)
qed

end
