(* ===== verification/CaptureRing.thy ===== *)
theory CaptureRing
  imports Prelude
begin

text \<open>
  The ring of buffers between the transfer thread and the processing thread of a capture:
  \<^verbatim>\<open>ddd-gui/src/capture/disk_buffer_ring.h\<close> and \<^verbatim>\<open>disk_buffer_ring.cpp\<close>. Each operation is given as
  the atomic accesses it makes, in their order, so that the threads can be interleaved between
  them; a wait is the answer it returns with, or \<open>None\<close> while it blocks.
\<close>

datatype slot_state = kSlotEmpty | kSlotFull | kSlotDumped | kSlotAborted

datatype FillResult = kHandedOver | kOverflow | kAborted

record Geometry =
  slot_size_bytes :: nat
  slot_count :: nat

abbreviation (input) kMinimumQueueSizeBytes :: nat where "kMinimumQueueSizeBytes \<equiv> 64 * 2 ^ 20"
abbreviation (input) kMaximumQueueSizeBytes :: nat where "kMaximumQueueSizeBytes \<equiv> 512 * 2 ^ 20"
abbreviation (input) kTargetSlotSizeBytes :: nat where "kTargetSlotSizeBytes \<equiv> 2 * 2 ^ 20"

definition PlanGeometry :: "nat \<Rightarrow> nat \<Rightarrow> Geometry" where
  "PlanGeometry queue_size_bytes endpoint_max_packet_bytes =
     (let clamped_queue = max kMinimumQueueSizeBytes (min queue_size_bytes kMaximumQueueSizeBytes);
          slot_size =
            (if endpoint_max_packet_bytes = 0 then kTargetSlotSizeBytes
             else let rounded = kTargetSlotSizeBytes div endpoint_max_packet_bytes * endpoint_max_packet_bytes
               in if rounded = 0 then endpoint_max_packet_bytes else rounded)
      in \<lparr>slot_size_bytes = slot_size, slot_count = max (clamped_queue div slot_size) 3\<rparr>)"

record 'b DiskBufferRing =
  slot_states :: "slot_state list"
  slot_data :: "'b list"
  slots_filled :: nat
  slots_freed :: nat
  peak_slots_in_use :: nat
  ring_abort_requested :: bool

definition new_ring :: "nat \<Rightarrow> 'b \<Rightarrow> 'b DiskBufferRing" where
  "new_ring n b = \<lparr>slot_states = replicate n kSlotEmpty, slot_data = replicate n b, slots_filled = 0,
     slots_freed = 0, peak_slots_in_use = 0, ring_abort_requested = False\<rparr>"

definition ring_size :: "'b DiskBufferRing \<Rightarrow> nat" where
  "ring_size r = length (slot_states r)"

definition set_slot :: "nat \<Rightarrow> slot_state \<Rightarrow> 'b DiskBufferRing \<Rightarrow> 'b DiskBufferRing" where
  "set_slot i st r = r\<lparr>slot_states := (slot_states r)[i := st]\<rparr>"

subsection \<open>The producer's side\<close>

definition WaitForSlotFree :: "nat \<Rightarrow> 'b DiskBufferRing \<Rightarrow> bool option" where
  "WaitForSlotFree i r =
     (case slot_states r ! i of kSlotEmpty \<Rightarrow> Some True | kSlotAborted \<Rightarrow> Some False | _ \<Rightarrow> None)"

definition fill_slot :: "nat \<Rightarrow> 'b \<Rightarrow> 'b DiskBufferRing \<Rightarrow> 'b DiskBufferRing" where
  "fill_slot i b r = r\<lparr>slot_data := (slot_data r)[i := b]\<rparr>"

text \<open>\<open>MarkSlotFull\<close>: the exchange, the count of slots filled, and the high-water mark.\<close>

definition exchange_full :: "nat \<Rightarrow> 'b DiskBufferRing \<Rightarrow> FillResult \<times> 'b DiskBufferRing" where
  "exchange_full i r =
     (if slot_states r ! i = kSlotEmpty then (kHandedOver, set_slot i kSlotFull r)
      else (if slot_states r ! i = kSlotAborted then kAborted else kOverflow, r))"

definition count_filled :: "'b DiskBufferRing \<Rightarrow> 'b DiskBufferRing" where
  "count_filled r = r\<lparr>slots_filled := slots_filled r + 1\<rparr>"

definition raise_peak :: "'b DiskBufferRing \<Rightarrow> 'b DiskBufferRing" where
  "raise_peak r =
     (let in_use = slots_filled r - slots_freed r
      in if peak_slots_in_use r < in_use then r\<lparr>peak_slots_in_use := in_use\<rparr> else r)"

definition MarkSlotFull :: "nat \<Rightarrow> 'b DiskBufferRing \<Rightarrow> FillResult \<times> 'b DiskBufferRing" where
  "MarkSlotFull i r =
     (case exchange_full i r of
        (kHandedOver, r) \<Rightarrow> (kHandedOver, raise_peak (count_filled r))
      | (failed, r) \<Rightarrow> (failed, r))"

subsection \<open>The consumer's side\<close>

definition WaitForSlotFull :: "nat \<Rightarrow> 'b DiskBufferRing \<Rightarrow> bool option" where
  "WaitForSlotFull i r =
     (if slot_states r ! i = kSlotEmpty then None else Some (slot_states r ! i = kSlotFull))"

text \<open>\<open>MarkSlotFree\<close>: the exchange, which says whether the slot counts as freed, and the count.\<close>

definition exchange_free :: "nat \<Rightarrow> 'b DiskBufferRing \<Rightarrow> bool \<times> 'b DiskBufferRing" where
  "exchange_free i r =
     (if slot_states r ! i = kSlotFull then (True, set_slot i kSlotEmpty r)
      else if slot_states r ! i = kSlotDumped then (False, set_slot i kSlotEmpty r)
      else (False, r))"

definition count_freed :: "'b DiskBufferRing \<Rightarrow> 'b DiskBufferRing" where
  "count_freed r = r\<lparr>slots_freed := slots_freed r + 1\<rparr>"

definition MarkSlotFree :: "nat \<Rightarrow> 'b DiskBufferRing \<Rightarrow> 'b DiskBufferRing" where
  "MarkSlotFree i r = (case exchange_free i r of (freed, r) \<Rightarrow> if freed then count_freed r else r)"

definition SlotsInUse :: "'b DiskBufferRing \<Rightarrow> nat" where
  "SlotsInUse r = slots_filled r - min (slots_filled r) (slots_freed r)"

subsection \<open>Shutting down\<close>

definition dump_slot :: "nat \<Rightarrow> 'b DiskBufferRing \<Rightarrow> 'b DiskBufferRing" where
  "dump_slot i r = (if slot_states r ! i = kSlotEmpty then set_slot i kSlotDumped r else r)"

definition MarkEmptySlotsDumped :: "'b DiskBufferRing \<Rightarrow> 'b DiskBufferRing" where
  "MarkEmptySlotsDumped r = fold dump_slot [0..<ring_size r] r"

definition request_abort :: "'b DiskBufferRing \<Rightarrow> 'b DiskBufferRing" where
  "request_abort r = r\<lparr>ring_abort_requested := True\<rparr>"

definition ring_Abort :: "'b DiskBufferRing \<Rightarrow> 'b DiskBufferRing" where
  "ring_Abort r = fold (\<lambda>i. set_slot i kSlotAborted) [0..<ring_size r] (request_abort r)"

lemmas ring_ops = set_slot_def fill_slot_def exchange_full_def count_filled_def raise_peak_def
  exchange_free_def count_freed_def dump_slot_def request_abort_def

lemma ring_size_ops [simp]:
  "ring_size (set_slot i st r) = ring_size r" "ring_size (fill_slot i b r) = ring_size r"
  "ring_size (count_filled r) = ring_size r" "ring_size (raise_peak r) = ring_size r"
  "ring_size (count_freed r) = ring_size r" "ring_size (dump_slot i r) = ring_size r"
  "ring_size (request_abort r) = ring_size r"
  "exchange_full i r = (res, r') \<Longrightarrow> ring_size r' = ring_size r"
  "exchange_free i r = (freed, r') \<Longrightarrow> ring_size r' = ring_size r"
  by (auto simp: ring_size_def ring_ops Let_def split: if_splits)

lemma fold_set_slots:
  "n \<le> length xs \<Longrightarrow> fold (\<lambda>i xs. xs[i := f (xs ! i)]) [0..<n] xs = map f (take n xs) @ drop n xs"
proof (induction n)
  case (Suc n)
  then have n: "n < length xs" by simp
  have "(map f (take n xs) @ drop n xs)[n := f ((map f (take n xs) @ drop n xs) ! n)]
      = map f (take n xs) @ (drop n xs)[0 := f (xs ! n)]"
    using n by (simp add: list_update_append nth_append min_def)
  also have "(drop n xs)[0 := f (xs ! n)] = f (xs ! n) # drop (Suc n) xs"
    using n by (simp add: Cons_nth_drop_Suc [symmetric])
  finally show ?case using Suc n by (simp add: take_Suc_conv_app_nth)
qed simp

lemma MarkEmptySlotsDumped_eq:
  "MarkEmptySlotsDumped r =
     r\<lparr>slot_states := map (\<lambda>st. if st = kSlotEmpty then kSlotDumped else st) (slot_states r)\<rparr>"
proof -
  define f where "f st = (if st = kSlotEmpty then kSlotDumped else st)" for st
  have d: "dump_slot i r = r\<lparr>slot_states := (slot_states r)[i := f (slot_states r ! i)]\<rparr>" for i and r :: "'a DiskBufferRing"
    by (auto simp: dump_slot_def set_slot_def f_def)
  have "fold dump_slot is r = r\<lparr>slot_states := fold (\<lambda>i xs. xs[i := f (xs ! i)]) is (slot_states r)\<rparr>" for "is"
    by (induction "is" arbitrary: r) (simp_all add: d)
  then show ?thesis
    using fold_set_slots [of "length (slot_states r)" "slot_states r" f]
    by (simp add: MarkEmptySlotsDumped_def ring_size_def f_def [abs_def])
qed

lemma ring_Abort_eq:
  "ring_Abort r = r\<lparr>slot_states := map (\<lambda>_. kSlotAborted) (slot_states r), ring_abort_requested := True\<rparr>"
proof -
  have "fold (\<lambda>i. set_slot i kSlotAborted) is r =
      r\<lparr>slot_states := fold (\<lambda>i xs. xs[i := kSlotAborted]) is (slot_states r)\<rparr>" for "is" and r :: "'a DiskBufferRing"
    by (induction "is" arbitrary: r) (simp_all add: set_slot_def)
  then show ?thesis
    using fold_set_slots [of "length (slot_states r)" "slot_states r" "\<lambda>_. kSlotAborted"]
    by (simp add: ring_Abort_def ring_size_def request_abort_def)
qed

subsection \<open>The plan\<close>

lemma planned_slot:
  fixes q p :: nat
  assumes "p \<le> kTargetSlotSizeBytes"
  shows "slot_size_bytes (PlanGeometry q p) =
      (if p = 0 then kTargetSlotSizeBytes else kTargetSlotSizeBytes div p * p)"
    and "0 < slot_size_bytes (PlanGeometry q p)"
    and "slot_size_bytes (PlanGeometry q p) \<le> kTargetSlotSizeBytes"
    and "kTargetSlotSizeBytes < 2 * slot_size_bytes (PlanGeometry q p)"
proof -
  define t :: nat where "t = kTargetSlotSizeBytes"
  define s where "s = slot_size_bytes (PlanGeometry q p)"
  have t: "0 < t" "p \<le> t" using assms by (simp_all add: t_def)
  have k: "0 < p \<Longrightarrow> 0 < t div p" using t by (simp add: div_greater_zero_iff)
  have s: "s = (if p = 0 then t else t div p * p)"
  proof (cases "p = 0")
    case False
    then have "0 < kTargetSlotSizeBytes div p" using k by (simp only: t_def)
    then show ?thesis using False by (simp add: s_def PlanGeometry_def Let_def t_def)
  qed (simp add: s_def PlanGeometry_def Let_def t_def)
  then show "slot_size_bytes (PlanGeometry q p) = (if p = 0 then kTargetSlotSizeBytes else kTargetSlotSizeBytes div p * p)"
    by (simp add: s_def t_def)
  have "0 < s \<and> s \<le> t \<and> t < 2 * s"
  proof (cases "p = 0")
    case False
    have "t < t div p * p + p" using False dividend_less_div_times [of p t] by simp
    moreover have "p \<le> t div p * p" using k False by (cases "t div p") auto
    moreover have "s = t div p * p" "t div p * p \<le> t" using False s by simp_all
    ultimately show ?thesis using False by linarith
  qed (use s t in auto)
  then show "0 < slot_size_bytes (PlanGeometry q p)" "slot_size_bytes (PlanGeometry q p) \<le> kTargetSlotSizeBytes"
      "kTargetSlotSizeBytes < 2 * slot_size_bytes (PlanGeometry q p)"
    by (simp_all add: s_def t_def)
qed

lemma PlanGeometry_count:
  fixes q p :: nat
  assumes "p \<le> kTargetSlotSizeBytes"
  shows "32 \<le> slot_count (PlanGeometry q p)"
    and "slot_size_bytes (PlanGeometry q p) * slot_count (PlanGeometry q p) \<le> kMaximumQueueSizeBytes"
proof -
  define c where "c = max kMinimumQueueSizeBytes (min q kMaximumQueueSizeBytes)"
  define s where "s = slot_size_bytes (PlanGeometry q p)"
  have s: "0 < s" "s \<le> kTargetSlotSizeBytes" using planned_slot [OF assms, of q] by (simp_all add: s_def)
  have c: "32 * kTargetSlotSizeBytes \<le> c" "c \<le> kMaximumQueueSizeBytes" by (auto simp: c_def)
  have "32 * s \<le> c" using s(2) c(1) by simp
  then have n: "32 \<le> c div s" using s(1) by (simp add: less_eq_div_iff_mult_less_eq)
  have "slot_count (PlanGeometry q p) = max (c div s) 3"
    by (simp add: PlanGeometry_def Let_def c_def s_def)
  then have cnt: "slot_count (PlanGeometry q p) = c div s" using n by simp
  then show "32 \<le> slot_count (PlanGeometry q p)" using n by simp
  have "s * (c div s) \<le> c" by simp
  then show "slot_size_bytes (PlanGeometry q p) * slot_count (PlanGeometry q p) \<le> kMaximumQueueSizeBytes"
    unfolding cnt s_def [symmetric] using c(2) by (rule le_trans)
qed

lemma PlanGeometry_floor: "3 \<le> slot_count (PlanGeometry q p)"
  by (simp add: PlanGeometry_def Let_def)

end
