(* ===== verification/CapturePipeline.thy ===== *)
theory CapturePipeline
  imports CaptureRing
begin

text \<open>
  The threads of a capture: \<^verbatim>\<open>ddd-gui/src/capture/capture_pipeline.cpp\<close>, with a source that runs as
  \<^verbatim>\<open>synthetic_source.cpp\<close> does, one slot at a time. Each thread is a function that makes its next
  access to the shared state, or is blocked; the step relation interleaves them with the control
  thread and with the requests of the caller. What the processing thread does to a buffer is a
  parameter here and is given in the theory of its work. The invariant gives first in, first out
  delivery with nothing overwritten and nothing lost.
\<close>

datatype TransferResult = kRunning | kSuccess | kFileCreationError | kFileWriteError | kBufferOverflow
  | kConnectionFailure | kUsbTransferFailure | kHostUnderflow | kUsbMemoryLimit | kSequenceMismatch
  | kVerificationError | kSourceStalled | kProgramError | kForcedAbort

definition TransferFinished :: "TransferResult \<Rightarrow> bool" where
  "TransferFinished r \<longleftrightarrow> r \<noteq> kRunning"

definition TransferFailed :: "TransferResult \<Rightarrow> bool" where
  "TransferFailed r \<longleftrightarrow> r \<noteq> kRunning \<and> r \<noteq> kSuccess"

datatype producer_pc = PTop | PWait | PFill | PMark | PCount | PPeak | PNext
  | PExit TransferResult | PDone TransferResult

text \<open>
  The consumer's counter. The flag of \<open>CFree\<close> to \<open>CAfter\<close> is whether the buffer was good, that of
  \<open>CExit\<close> and \<open>CDone\<close> whether the loop was left after a bad one.
\<close>

datatype consumer_pc = CTop | CWait | CWork | CFree bool | CCount bool | CAfter bool
  | CExit bool | CDone bool

record ('b, 'c) pipeline =
  ring :: "'b DiskBufferRing"
  producer :: producer_pc
  producer_slot :: nat
  slots_delivered :: nat
  consumer :: consumer_pc
  consumer_slot :: nat
  worker :: 'c
  buffers_processed :: nat
  stop_requested :: bool
  abort_requested :: bool
  latched :: "TransferResult option"

definition LatchResult :: "TransferResult \<Rightarrow> ('b, 'c) pipeline \<Rightarrow> ('b, 'c) pipeline" where
  "LatchResult r s = (case latched s of None \<Rightarrow> s\<lparr>latched := Some r\<rparr> | Some _ \<Rightarrow> s)"

definition transfer_finished :: "('b, 'c) pipeline \<Rightarrow> bool" where
  "transfer_finished s \<longleftrightarrow> (case producer s of PDone _ \<Rightarrow> True | _ \<Rightarrow> False)"

definition processing_finished :: "('b, 'c) pipeline \<Rightarrow> bool" where
  "processing_finished s \<longleftrightarrow> (case consumer s of CDone _ \<Rightarrow> True | _ \<Rightarrow> False)"

definition started :: "nat \<Rightarrow> 'b \<Rightarrow> 'c \<Rightarrow> ('b, 'c) pipeline" where
  "started n b w = \<lparr>ring = new_ring n b, producer = PTop, producer_slot = 0, slots_delivered = 0,
     consumer = CTop, consumer_slot = 0, worker = w, buffers_processed = 0, stop_requested = False,
     abort_requested = False, latched = None\<rparr>"

subsection \<open>The transfer thread\<close>

text \<open>The guards at the top of the loop of the source, and what it makes of a handover.\<close>

definition source_guards :: "nat \<Rightarrow> ('b, 'c) pipeline \<Rightarrow> producer_pc" where
  "source_guards slot_limit s =
     (if abort_requested s \<or> ring_abort_requested (ring s) then PExit kForcedAbort
      else if stop_requested s then PExit kSuccess
      else if slot_limit \<noteq> 0 \<and> slot_limit \<le> slots_delivered s then PExit kSuccess
      else PWait)"

definition after_handover :: "FillResult \<Rightarrow> producer_pc" where
  "after_handover r = (case r of
     kHandedOver \<Rightarrow> PCount
   | kOverflow \<Rightarrow> PExit kBufferOverflow
   | kAborted \<Rightarrow> PExit kForcedAbort)"

definition thread_ends :: "TransferResult \<Rightarrow> ('b, 'c) pipeline \<Rightarrow> ('b, 'c) pipeline" where
  "thread_ends r s = (if TransferFailed r then LatchResult r s else s)\<lparr>producer := PDone r\<rparr>"

declare source_guards_def [simp] after_handover_def [simp] thread_ends_def [simp]

definition producer_step :: "(nat \<Rightarrow> 'b) \<Rightarrow> nat \<Rightarrow> ('b, 'c) pipeline \<Rightarrow> ('b, 'c) pipeline option" where
  "producer_step gen slot_limit s =
     (case producer s of
        PTop \<Rightarrow> Some (s\<lparr>producer := source_guards slot_limit s\<rparr>)
      | PWait \<Rightarrow>
          (case WaitForSlotFree (producer_slot s) (ring s) of
             None \<Rightarrow> None
           | Some free \<Rightarrow> Some (s\<lparr>producer := if free then PFill else PExit kForcedAbort\<rparr>))
      | PFill \<Rightarrow> Some (s\<lparr>ring := fill_slot (producer_slot s) (gen (slots_delivered s)) (ring s),
          producer := PMark\<rparr>)
      | PMark \<Rightarrow>
          (case exchange_full (producer_slot s) (ring s) of
             (handover, r) \<Rightarrow> Some (s\<lparr>ring := r, producer := after_handover handover\<rparr>))
      | PCount \<Rightarrow> Some (s\<lparr>ring := count_filled (ring s), producer := PPeak\<rparr>)
      | PPeak \<Rightarrow> Some (s\<lparr>ring := raise_peak (ring s), producer := PNext\<rparr>)
      | PNext \<Rightarrow> Some (s\<lparr>slots_delivered := slots_delivered s + 1,
          producer_slot := (producer_slot s + 1) mod ring_size (ring s), producer := PTop\<rparr>)
      | PExit r \<Rightarrow> Some (thread_ends r s)
      | PDone r \<Rightarrow> None)"

subsection \<open>The processing thread\<close>

definition consumer_step ::
    "('b \<Rightarrow> 'c \<Rightarrow> TransferResult option \<times> 'c) \<Rightarrow> ('b, 'c) pipeline \<Rightarrow> ('b, 'c) pipeline option" where
  "consumer_step work s =
     (case consumer s of
        CTop \<Rightarrow> Some (s\<lparr>consumer := if abort_requested s then CExit False else CWait\<rparr>)
      | CWait \<Rightarrow>
          (case WaitForSlotFull (consumer_slot s) (ring s) of
             None \<Rightarrow> None
           | Some full \<Rightarrow> Some (s\<lparr>consumer := if full then CWork else CExit False\<rparr>))
      | CWork \<Rightarrow>
          (case work (slot_data (ring s) ! consumer_slot s) (worker s) of
             (None, w) \<Rightarrow> Some (s\<lparr>worker := w, consumer := CFree True\<rparr>)
           | (Some e, w) \<Rightarrow> Some (LatchResult e (s\<lparr>worker := w, consumer := CFree False\<rparr>)))
      | CFree good \<Rightarrow>
          (case exchange_free (consumer_slot s) (ring s) of
             (freed, r) \<Rightarrow> Some (s\<lparr>ring := r, consumer := if freed then CCount good else CAfter good\<rparr>))
      | CCount good \<Rightarrow> Some (s\<lparr>ring := count_freed (ring s), consumer := CAfter good\<rparr>)
      | CAfter good \<Rightarrow>
          (if good then Some (s\<lparr>buffers_processed := buffers_processed s + 1,
             consumer_slot := (consumer_slot s + 1) mod ring_size (ring s), consumer := CTop\<rparr>)
           else Some (s\<lparr>consumer := CExit True\<rparr>))
      | CExit bad \<Rightarrow> Some (s\<lparr>consumer := CDone bad\<rparr>)
      | CDone bad \<Rightarrow> None)"

subsection \<open>The control thread and the caller\<close>

definition tear_down :: "('b, 'c) pipeline \<Rightarrow> ('b, 'c) pipeline" where
  "tear_down s = s\<lparr>abort_requested := True, ring := request_abort (ring s)\<rparr>"

inductive control_step :: "('b, 'c) pipeline \<Rightarrow> ('b, 'c) pipeline \<Rightarrow> bool" where
  dump: "transfer_finished s \<Longrightarrow> \<not> processing_finished s \<Longrightarrow> i < ring_size (ring s) \<Longrightarrow>
    control_step s (s\<lparr>ring := dump_slot i (ring s)\<rparr>)"
| stalled: "\<not> transfer_finished s \<Longrightarrow> \<not> stop_requested s \<Longrightarrow> \<not> processing_finished s \<Longrightarrow>
    control_step s (tear_down (LatchResult kSourceStalled s))"
| failed: "latched s = Some r \<Longrightarrow> TransferFailed r \<Longrightarrow> \<not> processing_finished s \<Longrightarrow>
    control_step s (tear_down s)"
| release: "processing_finished s \<Longrightarrow> \<not> transfer_finished s \<Longrightarrow>
    control_step s (s\<lparr>stop_requested := True, ring := request_abort (ring s)\<rparr>)"
| abort_slot: "ring_abort_requested (ring s) \<Longrightarrow> i < ring_size (ring s) \<Longrightarrow>
    control_step s (s\<lparr>ring := set_slot i kSlotAborted (ring s)\<rparr>)"

definition RequestStop :: "('b, 'c) pipeline \<Rightarrow> ('b, 'c) pipeline" where
  "RequestStop s = s\<lparr>stop_requested := True\<rparr>"

definition AbortCapture :: "('b, 'c) pipeline \<Rightarrow> ('b, 'c) pipeline" where
  "AbortCapture s = tear_down (s\<lparr>stop_requested := True\<rparr>)"

inductive step ::
    "(nat \<Rightarrow> 'b) \<Rightarrow> nat \<Rightarrow> ('b \<Rightarrow> 'c \<Rightarrow> TransferResult option \<times> 'c) \<Rightarrow> ('b, 'c) pipeline \<Rightarrow> ('b, 'c) pipeline \<Rightarrow> bool"
  for gen :: "nat \<Rightarrow> 'b" and limit :: nat and work :: "'b \<Rightarrow> 'c \<Rightarrow> TransferResult option \<times> 'c" where
  produces: "producer_step gen limit s = Some s' \<Longrightarrow> step gen limit work s s'"
| consumes: "consumer_step work s = Some s' \<Longrightarrow> step gen limit work s s'"
| controls: "control_step s s' \<Longrightarrow> step gen limit work s s'"
| stops: "step gen limit work s (RequestStop s)"
| aborts: "step gen limit work s (AbortCapture s)"

text \<open>The run when it is over: what the control thread reports.\<close>

definition finished :: "('b, 'c) pipeline \<Rightarrow> bool" where
  "finished s \<longleftrightarrow> transfer_finished s \<and> processing_finished s"

text \<open>
  The sink is closed when both workers have stopped: a flush that fails is latched like any other
  failure, and what is latched by then is the result.
\<close>

definition close_sink :: "('c \<Rightarrow> bool \<times> 'c) \<Rightarrow> ('b, 'c) pipeline \<Rightarrow> ('b, 'c) pipeline" where
  "close_sink sink_finish s =
     (case sink_finish (worker s) of
        (True, w) \<Rightarrow> s\<lparr>worker := w\<rparr>
      | (False, w) \<Rightarrow> LatchResult kFileWriteError (s\<lparr>worker := w\<rparr>))"

definition capture_result :: "('b, 'c) pipeline \<Rightarrow> TransferResult" where
  "capture_result s = (case latched s of Some r \<Rightarrow> r | None \<Rightarrow> kSuccess)"

fun run_work ::
    "('b \<Rightarrow> 'c \<Rightarrow> TransferResult option \<times> 'c) \<Rightarrow> 'b list \<Rightarrow> 'c \<Rightarrow> TransferResult option \<times> 'c" where
  "run_work work [] c = (None, c)"
| "run_work work (b # bs) c =
     (case work b c of (None, c') \<Rightarrow> run_work work bs c' | (Some e, c') \<Rightarrow> (Some e, c'))"

lemma run_work_append:
  "run_work work (bs @ ds) c =
     (case run_work work bs c of (None, c') \<Rightarrow> run_work work ds c' | (Some e, c') \<Rightarrow> (Some e, c'))"
  by (induction bs arbitrary: c) (auto split: prod.splits option.splits)

subsection \<open>What the threads keep\<close>

definition handed :: "('b, 'c) pipeline \<Rightarrow> nat" where
  "handed s = slots_filled (ring s) + (if producer s = PCount then 1 else 0)"

definition released :: "('b, 'c) pipeline \<Rightarrow> nat" where
  "released s = buffers_processed s
     + (case consumer s of CCount _ \<Rightarrow> 1 | CAfter _ \<Rightarrow> 1 | CExit b \<Rightarrow> of_bool b | CDone b \<Rightarrow> of_bool b | _ \<Rightarrow> 0)"

definition slot_live :: "nat \<Rightarrow> nat \<Rightarrow> nat \<Rightarrow> nat \<Rightarrow> bool" where
  "slot_live n r h i \<longleftrightarrow> (\<exists>j. r \<le> j \<and> j < h \<and> j mod n = i)"

lemma live_Suc: "r \<le> h \<Longrightarrow> slot_live n r (Suc h) i \<longleftrightarrow> slot_live n r h i \<or> i = h mod n"
  by (auto simp: slot_live_def less_Suc_eq)

lemma mod_window: "j mod n = r mod n \<Longrightarrow> r \<le> j \<Longrightarrow> j < r + n \<Longrightarrow> j = (r :: nat)"
proof -
  assume a: "j mod n = r mod n" "r \<le> j" "j < r + n"
  then have "n dvd j - r" using mod_eq_dvd_iff_nat [of r j n] by simp
  moreover have "j - r < n" using a by simp
  ultimately have "j - r = 0" by (meson nat_dvd_not_less not_gr_zero)
  then show ?thesis using a by simp
qed

lemma live_remove:
  assumes "r < h" and "h \<le> r + n"
  shows "slot_live n (Suc r) h i \<longleftrightarrow> slot_live n r h i \<and> i \<noteq> r mod n"
proof
  assume "slot_live n (Suc r) h i"
  then obtain j where j: "Suc r \<le> j" "j < h" "j mod n = i" by (auto simp: slot_live_def)
  have "i \<noteq> r mod n"
  proof
    assume "i = r mod n"
    then have "j = r" using mod_window [of j n r] j assms by simp
    then show False using j by simp
  qed
  moreover have "slot_live n r h i" unfolding slot_live_def using j by (intro exI [of _ j]) simp
  ultimately show "slot_live n r h i \<and> i \<noteq> r mod n" by simp
next
  assume "slot_live n r h i \<and> i \<noteq> r mod n"
  then obtain j where j: "r \<le> j" "j < h" "j mod n = i" "i \<noteq> r mod n" by (auto simp: slot_live_def)
  then have "j \<noteq> r" by auto
  then show "slot_live n (Suc r) h i" using j by (auto simp: slot_live_def intro!: exI [of _ j])
qed

lemma live_at: "r < h \<Longrightarrow> slot_live n r h (r mod n)"
  by (auto simp: slot_live_def)

lemma live_all: "0 < n \<Longrightarrow> i < n \<Longrightarrow> slot_live n r (r + n) i"
proof -
  assume n: "0 < n" "i < n"
  define j where "j = r + (i + n - r mod n) mod n"
  have "(i + n - r mod n) mod n < n" using n by simp
  moreover have "j mod n = i"
  proof -
    have "r mod n \<le> i + n" using n by (simp add: le_add2 mod_le_divisor le_trans [of _ n])
    then have "(r mod n + (i + n - r mod n)) mod n = i" using n by simp
    then show ?thesis by (simp add: j_def mod_simps)
  qed
  ultimately show ?thesis unfolding slot_live_def by (intro exI [of _ j]) (simp add: j_def)
qed

text \<open>
  The invariant, in parts: the ring, the two positions in it, the contents of the slots, and the
  counts. \<open>n\<close> is the number of slots.
\<close>

definition slots_inv :: "nat \<Rightarrow> slot_state list \<Rightarrow> nat \<Rightarrow> nat \<Rightarrow> bool \<Rightarrow> bool \<Rightarrow> bool" where
  "slots_inv n states r h torn_down over \<longleftrightarrow> 0 < n \<and> length states = n \<and> r \<le> h \<and> h \<le> r + n
     \<and> (\<forall>i<n. case states ! i of
           kSlotFull \<Rightarrow> slot_live n r h i
         | kSlotEmpty \<Rightarrow> \<not> slot_live n r h i
         | kSlotDumped \<Rightarrow> \<not> slot_live n r h i \<and> over
         | kSlotAborted \<Rightarrow> torn_down)"

definition slots_ok :: "nat \<Rightarrow> ('b, 'c) pipeline \<Rightarrow> bool" where
  "slots_ok n s \<longleftrightarrow> length (slot_data (ring s)) = n \<and>
     slots_inv n (slot_states (ring s)) (released s) (handed s) (ring_abort_requested (ring s)) (transfer_finished s)"

definition producer_ok :: "nat \<Rightarrow> ('b, 'c) pipeline \<Rightarrow> bool" where
  "producer_ok n s \<longleftrightarrow>
     (case producer s of
        PTop \<Rightarrow> producer_slot s = handed s mod n \<and> slots_delivered s = handed s
      | PWait \<Rightarrow> producer_slot s = handed s mod n \<and> slots_delivered s = handed s
      | PFill \<Rightarrow> producer_slot s = handed s mod n \<and> slots_delivered s = handed s \<and> handed s < released s + n
      | PMark \<Rightarrow> producer_slot s = handed s mod n \<and> slots_delivered s = handed s \<and> handed s < released s + n
      | PCount \<Rightarrow> producer_slot s = slots_delivered s mod n \<and> handed s = Suc (slots_delivered s)
      | PPeak \<Rightarrow> producer_slot s = slots_delivered s mod n \<and> handed s = Suc (slots_delivered s)
      | PNext \<Rightarrow> producer_slot s = slots_delivered s mod n \<and> handed s = Suc (slots_delivered s)
      | PExit r \<Rightarrow> slots_delivered s = handed s
      | PDone r \<Rightarrow> slots_delivered s = handed s)"

definition consumer_ok :: "nat \<Rightarrow> ('b, 'c) pipeline \<Rightarrow> bool" where
  "consumer_ok n s \<longleftrightarrow>
     (case consumer s of
        CTop \<Rightarrow> consumer_slot s = buffers_processed s mod n
      | CWait \<Rightarrow> consumer_slot s = buffers_processed s mod n
      | CWork \<Rightarrow> consumer_slot s = buffers_processed s mod n \<and> released s < handed s
      | CFree _ \<Rightarrow> consumer_slot s = buffers_processed s mod n \<and> released s < handed s
      | CCount _ \<Rightarrow> consumer_slot s = buffers_processed s mod n
      | CAfter _ \<Rightarrow> consumer_slot s = buffers_processed s mod n
      | _ \<Rightarrow> True)"

definition data_ok :: "(nat \<Rightarrow> 'b) \<Rightarrow> nat \<Rightarrow> ('b, 'c) pipeline \<Rightarrow> bool" where
  "data_ok gen n s \<longleftrightarrow>
     (\<forall>j. released s \<le> j \<longrightarrow> j < handed s \<longrightarrow> slot_data (ring s) ! (j mod n) = gen j)
     \<and> (producer s = PMark \<longrightarrow> slot_data (ring s) ! (handed s mod n) = gen (handed s))"

definition work_ok ::
    "(nat \<Rightarrow> 'b) \<Rightarrow> ('b \<Rightarrow> 'c \<Rightarrow> TransferResult option \<times> 'c) \<Rightarrow> 'c \<Rightarrow> ('b, 'c) pipeline \<Rightarrow> bool" where
  "work_ok gen work w0 s \<longleftrightarrow>
     (let result = (\<lambda>k. run_work work (map gen [0..<k]) w0); b = buffers_processed s in
      case consumer s of
        CFree good \<Rightarrow> snd (result (Suc b)) = worker s \<and> (fst (result (Suc b)) = None) = good \<and> fst (result b) = None
      | CCount good \<Rightarrow> snd (result (Suc b)) = worker s \<and> (fst (result (Suc b)) = None) = good
      | CAfter good \<Rightarrow> snd (result (Suc b)) = worker s \<and> (fst (result (Suc b)) = None) = good
      | CExit bad \<Rightarrow> snd (result (released s)) = worker s \<and> (fst (result (released s)) = None) = (\<not> bad)
      | CDone bad \<Rightarrow> snd (result (released s)) = worker s \<and> (fst (result (released s)) = None) = (\<not> bad)
      | _ \<Rightarrow> result b = (None, worker s))"

lemmas pipeline_parts = slots_ok_def slots_inv_def producer_ok_def consumer_ok_def data_ok_def work_ok_def

lemma started_ok:
  assumes "0 < n"
  shows "slots_ok n (started n b w)" "producer_ok n (started n b w)" "consumer_ok n (started n b w)"
    "data_ok gen n (started n b w)" "work_ok gen work w (started n b w)"
  using assms by (auto simp: pipeline_parts started_def new_ring_def handed_def released_def slot_live_def)

lemma slots_inv_hand:
  assumes "slots_inv n st r h a over" and "st ! (h mod n) = kSlotEmpty" and "h < r + n" and "\<not> over"
  shows "slots_inv n (st[h mod n := kSlotFull]) r (Suc h) a over"
proof -
  have r: "r \<le> h" using assms(1) by (simp add: slots_inv_def)
  show ?thesis using assms
    by (auto simp: slots_inv_def live_Suc [OF r] nth_list_update split: slot_state.splits)
qed

lemma slots_inv_at:
  "slots_inv n st r h a over \<Longrightarrow> i < n \<Longrightarrow>
     (case st ! i of kSlotFull \<Rightarrow> slot_live n r h i | kSlotEmpty \<Rightarrow> \<not> slot_live n r h i
      | kSlotDumped \<Rightarrow> \<not> slot_live n r h i \<and> over | kSlotAborted \<Rightarrow> a)"
  by (simp add: slots_inv_def)

lemma slots_inv_release:
  assumes "slots_inv n st r h a over" and "r < h"
    and "st' = (if st ! (r mod n) \<in> {kSlotFull, kSlotDumped} then st[r mod n := kSlotEmpty] else st)"
  shows "slots_inv n st' (Suc r) h a over"
proof -
  have h: "h \<le> r + n" and n: "0 < n" "length st = n" using assms(1) by (simp_all add: slots_inv_def)
  have "case st ! (r mod n) of kSlotAborted \<Rightarrow> a | kSlotFull \<Rightarrow> True | _ \<Rightarrow> False"
    using slots_inv_at [OF assms(1), of "r mod n"] live_at [OF assms(2), of n] n(1)
    by (auto split: slot_state.splits)
  then show ?thesis using assms(1,2) n
    by (auto simp: slots_inv_def live_remove [OF assms(2) h] nth_list_update assms(3) split: slot_state.splits)
qed

lemma slots_inv_weaken: "slots_inv n st r h a over \<Longrightarrow> (a \<Longrightarrow> a') \<Longrightarrow> (over \<Longrightarrow> over') \<Longrightarrow> slots_inv n st r h a' over'"
  by (auto simp: slots_inv_def split: slot_state.splits)

lemma slots_inv_set:
  assumes "slots_inv n st r h a over" and "v = kSlotAborted \<and> a \<or> v = kSlotDumped \<and> over \<and> st ! i = kSlotEmpty"
  shows "slots_inv n (st[i := v]) r h a over"
proof -
  have "(case st[i := v] ! k of
           kSlotFull \<Rightarrow> slot_live n r h k | kSlotEmpty \<Rightarrow> \<not> slot_live n r h k
         | kSlotDumped \<Rightarrow> \<not> slot_live n r h k \<and> over | kSlotAborted \<Rightarrow> a)" if "k < n" for k
    using assms that by (cases "k = i") (auto simp: slots_inv_def split: slot_state.splits)
  then show ?thesis using assms(1) by (simp add: slots_inv_def)
qed

lemma producer_keeps_slots:
  assumes "producer_step gen limit s = Some s'" "slots_ok n s" "producer_ok n s"
  shows "slots_ok n s'"
proof (cases "producer s = PMark \<and> slot_states (ring s) ! producer_slot s = kSlotEmpty")
  case True
  have st: "s' = s\<lparr>ring := set_slot (producer_slot s) kSlotFull (ring s), producer := PCount\<rparr>"
    using True assms(1) by (simp add: producer_step_def exchange_full_def)
  have p: "producer_slot s = handed s mod n" "handed s < released s + n"
    using assms(3) True by (simp_all add: producer_ok_def)
  have h: "handed s' = Suc (handed s)" "released s' = released s" "transfer_finished s' = transfer_finished s"
      "\<not> transfer_finished s" "slot_states (ring s') = (slot_states (ring s))[handed s mod n := kSlotFull]"
      "slot_data (ring s') = slot_data (ring s)" "ring_abort_requested (ring s') = ring_abort_requested (ring s)"
    using True by (simp_all add: st handed_def released_def transfer_finished_def set_slot_def p)
  have inv: "slots_inv n (slot_states (ring s)) (released s) (handed s) (ring_abort_requested (ring s)) False"
    using assms(2) h(4) by (simp add: slots_ok_def)
  show ?thesis using assms(2) slots_inv_hand [OF inv _ p(2)] True p(1) h(4) by (simp add: slots_ok_def h)
next
  case False
  have same: "slot_states (ring s') = slot_states (ring s)" "length (slot_data (ring s')) = length (slot_data (ring s))"
      "released s' = released s" "handed s' = handed s" "ring_abort_requested (ring s') = ring_abort_requested (ring s)"
      "transfer_finished s \<Longrightarrow> transfer_finished s'"
    using assms(1) False
    by (auto simp: producer_step_def released_def handed_def fill_slot_def exchange_full_def count_filled_def
        raise_peak_def LatchResult_def transfer_finished_def Let_def split: producer_pc.splits option.splits if_splits)
  show ?thesis using assms(2) same(6) by (auto simp: slots_ok_def same(1-5) elim: slots_inv_weaken)
qed

lemma consumer_keeps_slots:
  assumes "consumer_step work s = Some s'" "slots_ok n s" "consumer_ok n s"
  shows "slots_ok n s'"
proof (cases "\<exists>good. consumer s = CFree good")
  case True
  then obtain good where c: "consumer s = CFree good" by blast
  define i where "i = consumer_slot s"
  define r where "r = released s"
  have i: "i = r mod n" "r < handed s" using assms(3) c by (simp_all add: consumer_ok_def i_def r_def released_def)
  have h: "handed s' = handed s" "released s' = Suc r" "transfer_finished s' = transfer_finished s"
      "slot_data (ring s') = slot_data (ring s)" "ring_abort_requested (ring s') = ring_abort_requested (ring s)"
      "slot_states (ring s') = (if slot_states (ring s) ! i \<in> {kSlotFull, kSlotDumped}
         then (slot_states (ring s))[i := kSlotEmpty] else slot_states (ring s))"
    using assms(1) c
    by (auto simp: consumer_step_def exchange_free_def set_slot_def handed_def released_def r_def i_def
        transfer_finished_def split: if_splits)
  have inv: "slots_inv n (slot_states (ring s)) r (handed s) (ring_abort_requested (ring s)) (transfer_finished s)"
    using assms(2) by (simp add: slots_ok_def r_def)
  show ?thesis using assms(2) slots_inv_release [OF inv i(2) refl]
    by (auto simp: slots_ok_def h i(1) split: if_splits)
next
  case False
  have same: "slot_states (ring s') = slot_states (ring s)" "slot_data (ring s') = slot_data (ring s)"
      "released s' = released s" "handed s' = handed s" "ring_abort_requested (ring s') = ring_abort_requested (ring s)"
      "transfer_finished s' = transfer_finished s"
    using assms(1) False
    by (auto simp: consumer_step_def released_def handed_def count_freed_def LatchResult_def transfer_finished_def
        split: consumer_pc.splits option.splits prod.splits if_splits)
  show ?thesis using assms(2) by (simp add: slots_ok_def same)
qed

lemma control_keeps_slots: "control_step s s' \<Longrightarrow> slots_ok n s \<Longrightarrow> slots_ok n s'"
proof (induction rule: control_step.induct)
  case (dump s i)
  then have inv: "slots_inv n (slot_states (ring s)) (released s) (handed s) (ring_abort_requested (ring s)) True"
    by (simp add: slots_ok_def)
  show ?case using dump slots_inv_set [OF inv, of kSlotDumped i]
    by (auto simp: slots_ok_def dump_slot_def set_slot_def handed_def released_def transfer_finished_def)
next
  case (abort_slot s i)
  then have inv: "slots_inv n (slot_states (ring s)) (released s) (handed s) True (transfer_finished s)"
    by (simp add: slots_ok_def)
  show ?case using abort_slot slots_inv_set [OF inv, of kSlotAborted i]
    by (simp add: slots_ok_def set_slot_def handed_def released_def transfer_finished_def)
qed (auto simp: slots_ok_def tear_down_def request_abort_def LatchResult_def handed_def released_def
    transfer_finished_def elim: slots_inv_weaken split: option.splits)

lemma control_keeps:
  "control_step s s' \<Longrightarrow> handed s' = handed s \<and> released s' = released s \<and> producer s' = producer s
     \<and> producer_slot s' = producer_slot s \<and> slots_delivered s' = slots_delivered s \<and> consumer s' = consumer s
     \<and> consumer_slot s' = consumer_slot s \<and> worker s' = worker s \<and> buffers_processed s' = buffers_processed s
     \<and> slot_data (ring s') = slot_data (ring s) \<and> slots_filled (ring s') = slots_filled (ring s)
     \<and> slots_freed (ring s') = slots_freed (ring s) \<and> peak_slots_in_use (ring s') = peak_slots_in_use (ring s)"
  by (induction rule: control_step.induct)
    (auto simp: tear_down_def request_abort_def LatchResult_def handed_def released_def dump_slot_def set_slot_def
      split: option.splits)

lemma live_less: "slot_live n r h i \<Longrightarrow> h \<le> r + n \<Longrightarrow> i = h mod n \<Longrightarrow> h = r + n"
proof -
  assume l: "slot_live n r h i" "h \<le> r + n" "i = h mod n"
  then obtain j where j: "r \<le> j" "j < h" "h mod n = j mod n" by (auto simp: slot_live_def)
  show "h = r + n"
  proof (rule ccontr)
    assume "h \<noteq> r + n"
    then have "h < j + n" using l(2) j(1) by simp
    then show False using mod_window [OF j(3)] j(2) by simp
  qed
qed

lemma waited_free:
  assumes "slots_ok n s" "slot_states (ring s) ! (handed s mod n) = kSlotEmpty"
  shows "handed s < released s + n"
proof (rule ccontr)
  assume "\<not> handed s < released s + n"
  then have h: "handed s = released s + n" using assms(1) by (simp add: slots_ok_def slots_inv_def)
  have n: "0 < n" using assms(1) by (simp add: slots_ok_def slots_inv_def)
  have inv: "slots_inv n (slot_states (ring s)) (released s) (handed s) (ring_abort_requested (ring s)) (transfer_finished s)"
    using assms(1) by (simp add: slots_ok_def)
  show False using slots_inv_at [OF inv, of "handed s mod n"] assms(2) live_all [OF n, of "handed s mod n" "released s"] n h
    by simp
qed

lemma waited_full:
  assumes "slots_ok n s" "slot_states (ring s) ! (released s mod n) = kSlotFull"
  shows "released s < handed s"
proof (rule ccontr)
  assume "\<not> released s < handed s"
  then have "\<not> slot_live n (released s) (handed s) i" for i by (auto simp: slot_live_def)
  moreover have "0 < n" using assms(1) by (simp add: slots_ok_def slots_inv_def)
  moreover have "slots_inv n (slot_states (ring s)) (released s) (handed s) (ring_abort_requested (ring s)) (transfer_finished s)"
    using assms(1) by (simp add: slots_ok_def)
  note slots_inv_at [OF this, of "released s mod n"]
  ultimately show False using assms(2) by simp
qed

lemma never_overflows:
  assumes "slots_ok n s" "producer_ok n s" "producer s = PMark"
  shows "fst (exchange_full (producer_slot s) (ring s)) \<noteq> kOverflow"
proof -
  have p: "producer_slot s = handed s mod n" "handed s < released s + n"
    using assms(2,3) by (simp_all add: producer_ok_def)
  have inv: "slots_inv n (slot_states (ring s)) (released s) (handed s) (ring_abort_requested (ring s)) False"
    using assms(1,3) by (simp add: slots_ok_def transfer_finished_def)
  then have n: "0 < n" "handed s \<le> released s + n" by (simp_all add: slots_inv_def)
  have "\<not> slot_live n (released s) (handed s) (handed s mod n)" using live_less [OF _ n(2)] p(2) by auto
  then show ?thesis using slots_inv_at [OF inv, of "handed s mod n"] n(1)
    by (auto simp: exchange_full_def p(1) split: slot_state.splits)
qed

lemma producer_keeps_producer:
  assumes "producer_step gen limit s = Some s'" "slots_ok n s" "producer_ok n s"
  shows "producer_ok n s'"
proof (cases "producer s")
  case PWait
  show ?thesis
  proof (cases "slot_states (ring s) ! producer_slot s = kSlotEmpty")
    case True
    then show ?thesis using assms PWait waited_free [OF assms(2)]
      by (auto simp: producer_step_def WaitForSlotFree_def producer_ok_def handed_def released_def)
  next
    case False
    then show ?thesis using assms PWait
      by (auto simp: producer_step_def WaitForSlotFree_def producer_ok_def handed_def released_def
          split: slot_state.splits)
  qed
next
  case PNext
  have "length (slot_states (ring s)) = n" using assms(2) by (simp add: slots_ok_def slots_inv_def)
  then show ?thesis using assms PNext
    by (auto simp: producer_step_def producer_ok_def handed_def ring_size_def mod_Suc_eq)
next
  case PMark
  then show ?thesis using assms
    by (auto simp: producer_step_def producer_ok_def exchange_full_def handed_def set_slot_def split: if_splits)
qed (use assms in \<open>auto simp: producer_step_def producer_ok_def handed_def released_def fill_slot_def
    count_filled_def raise_peak_def LatchResult_def Let_def split: option.splits if_splits\<close>)

lemma consumer_keeps_producer:
  assumes "consumer_step work s = Some s'" "producer_ok n s"
  shows "producer_ok n s'"
proof -
  have same: "producer s' = producer s" "producer_slot s' = producer_slot s" "slots_delivered s' = slots_delivered s"
      "handed s' = handed s" "released s \<le> released s'"
    using assms(1)
    by (auto simp: consumer_step_def handed_def released_def exchange_free_def set_slot_def count_freed_def LatchResult_def
        split: consumer_pc.splits option.splits prod.splits if_splits)
  show ?thesis using assms(2) same(5) by (auto simp: producer_ok_def same(1-4) split: producer_pc.splits)
qed

lemma consumer_keeps_consumer:
  assumes "consumer_step work s = Some s'" "slots_ok n s" "consumer_ok n s"
  shows "consumer_ok n s'"
proof (cases "consumer s")
  case CWait
  show ?thesis
  proof (cases "slot_states (ring s) ! consumer_slot s = kSlotFull")
    case True
    then show ?thesis using assms CWait waited_full [OF assms(2)]
      by (auto simp: consumer_step_def WaitForSlotFull_def consumer_ok_def handed_def released_def)
  next
    case False
    then show ?thesis using assms CWait
      by (auto simp: consumer_step_def WaitForSlotFull_def consumer_ok_def split: if_splits)
  qed
next
  case (CAfter good)
  have "length (slot_states (ring s)) = n" using assms(2) by (simp add: slots_ok_def slots_inv_def)
  then show ?thesis using assms CAfter
    by (auto simp: consumer_step_def consumer_ok_def ring_size_def mod_Suc_eq split: if_splits)
qed (use assms in \<open>auto simp: consumer_step_def consumer_ok_def handed_def released_def exchange_free_def
    count_freed_def set_slot_def LatchResult_def split: option.splits prod.splits if_splits\<close>)

lemma producer_keeps_consumer:
  assumes "producer_step gen limit s = Some s'" "consumer_ok n s"
  shows "consumer_ok n s'"
proof -
  have same: "consumer s' = consumer s" "consumer_slot s' = consumer_slot s" "buffers_processed s' = buffers_processed s"
      "released s' = released s" "handed s \<le> handed s'"
    using assms(1)
    by (auto simp: producer_step_def handed_def released_def exchange_full_def set_slot_def count_filled_def
        fill_slot_def raise_peak_def LatchResult_def Let_def
        split: producer_pc.splits option.splits prod.splits if_splits FillResult.splits)
  show ?thesis using assms(2) same(5) by (auto simp: consumer_ok_def same(1-4) split: consumer_pc.splits)
qed

lemma producer_keeps_data:
  assumes "producer_step gen limit s = Some s'" "slots_ok n s" "producer_ok n s" "data_ok gen n s"
  shows "data_ok gen n s'"
proof (cases "producer s")
  case PFill
  have p: "producer_slot s = handed s mod n" "slots_delivered s = handed s" "handed s < released s + n"
    using assms(3) PFill by (simp_all add: producer_ok_def)
  have n: "handed s mod n < length (slot_data (ring s))" using assms(2) by (simp add: slots_ok_def slots_inv_def)
  have s': "slot_data (ring s') = (slot_data (ring s))[handed s mod n := gen (handed s)]"
      "released s' = released s" "handed s' = handed s"
    using assms(1) PFill p by (auto simp: producer_step_def fill_slot_def released_def handed_def)
  have old: "slot_data (ring s') ! (j mod n) = gen j" if "released s \<le> j" "j < handed s" for j
  proof -
    have "handed s mod n \<noteq> j mod n"
    proof
      assume "handed s mod n = j mod n"
      then have "handed s = j" using mod_window [of "handed s" n j] that p(3) by simp
      then show False using that by simp
    qed
    then show ?thesis using that assms(4) by (simp add: s'(1) data_ok_def)
  qed
  have "slot_data (ring s') ! (handed s mod n) = gen (handed s)" using n by (simp add: s'(1))
  then show ?thesis using old by (simp add: data_ok_def s'(2,3))
next
  case PMark
  have p: "producer_slot s = handed s mod n" using assms(3) PMark by (simp add: producer_ok_def)
  then show ?thesis using assms(1,4) PMark
    by (auto simp: producer_step_def data_ok_def exchange_full_def set_slot_def handed_def released_def less_Suc_eq
        split: if_splits)
qed (use assms in \<open>auto simp: producer_step_def data_ok_def handed_def released_def count_filled_def raise_peak_def
    LatchResult_def Let_def split: option.splits if_splits\<close>)

lemma consumer_keeps_data:
  assumes "consumer_step work s = Some s'" "data_ok gen n s"
  shows "data_ok gen n s'"
proof -
  have same: "slot_data (ring s') = slot_data (ring s)" "producer s' = producer s" "handed s' = handed s"
      "released s \<le> released s'"
    using assms(1)
    by (auto simp: consumer_step_def handed_def released_def exchange_free_def set_slot_def count_freed_def LatchResult_def
        split: consumer_pc.splits option.splits prod.splits if_splits)
  show ?thesis using assms(2) same(4) by (auto simp: data_ok_def same(1-3))
qed

lemma run_work_Suc:
  "run_work work (map gen [0..<Suc k]) w0 =
     (case run_work work (map gen [0..<k]) w0 of (None, c) \<Rightarrow> work (gen k) c | (Some e, c) \<Rightarrow> (Some e, c))"
  by (simp add: run_work_append split: prod.splits option.splits)

lemma consumer_keeps_work:
  assumes "consumer_step work s = Some s'" "consumer_ok n s" "data_ok gen n s" "work_ok gen work w0 s"
  shows "work_ok gen work w0 s'"
proof (cases "consumer s")
  case CWork
  then have c: "consumer_slot s = buffers_processed s mod n" "released s < handed s" "released s = buffers_processed s"
    using assms(2) by (simp_all add: consumer_ok_def released_def)
  then have d: "slot_data (ring s) ! consumer_slot s = gen (buffers_processed s)"
    using assms(3) by (simp add: data_ok_def)
  have w: "run_work work (map gen [0..<buffers_processed s]) w0 = (None, worker s)"
    using assms(4) CWork by (simp add: work_ok_def)
  show ?thesis using assms(1) CWork
    by (auto simp: consumer_step_def d work_ok_def Let_def run_work_Suc w LatchResult_def
        simp del: upt_Suc split: prod.splits option.splits)
next
  case (CFree good)
  then show ?thesis using assms(1,4)
    by (auto simp: consumer_step_def work_ok_def Let_def simp del: upt_Suc split: prod.splits if_splits)
next
  case (CAfter good)
  then show ?thesis using assms(1,4)
    by (auto simp: consumer_step_def work_ok_def Let_def released_def prod_eq_iff simp del: upt_Suc split: if_splits)
qed (use assms in \<open>auto simp: consumer_step_def work_ok_def Let_def released_def simp del: upt_Suc
    split: option.splits if_splits\<close>)

lemma producer_keeps_work:
  assumes "producer_step gen limit s = Some s'" "work_ok gen work w0 s"
  shows "work_ok gen work w0 s'"
proof -
  have same: "consumer s' = consumer s" "buffers_processed s' = buffers_processed s" "worker s' = worker s"
      "released s' = released s"
    using assms(1)
    by (auto simp: producer_step_def released_def LatchResult_def
        split: producer_pc.splits option.splits prod.splits if_splits FillResult.splits)
  show ?thesis using assms(2) unfolding work_ok_def same by simp
qed

definition run_ok ::
    "(nat \<Rightarrow> 'b) \<Rightarrow> ('b \<Rightarrow> 'c \<Rightarrow> TransferResult option \<times> 'c) \<Rightarrow> 'c \<Rightarrow> nat \<Rightarrow> ('b, 'c) pipeline \<Rightarrow> bool" where
  "run_ok gen work w0 n s \<longleftrightarrow> slots_ok n s \<and> producer_ok n s \<and> consumer_ok n s \<and> data_ok gen n s
     \<and> work_ok gen work w0 s"

lemma requests_keep:
  assumes "s' = RequestStop s \<or> s' = AbortCapture s"
  shows "run_ok gen work w0 n s \<Longrightarrow> run_ok gen work w0 n s'"
proof -
  have same: "handed s' = handed s" "released s' = released s" "transfer_finished s' = transfer_finished s"
      "producer s' = producer s" "producer_slot s' = producer_slot s" "slots_delivered s' = slots_delivered s"
      "consumer s' = consumer s" "consumer_slot s' = consumer_slot s" "worker s' = worker s"
      "buffers_processed s' = buffers_processed s" "slot_data (ring s') = slot_data (ring s)"
      "slot_states (ring s') = slot_states (ring s)"
      "ring_abort_requested (ring s) \<Longrightarrow> ring_abort_requested (ring s')"
    using assms by (auto simp: RequestStop_def AbortCapture_def tear_down_def request_abort_def handed_def released_def
        transfer_finished_def)
  assume "run_ok gen work w0 n s"
  then show ?thesis
    using same(13) unfolding run_ok_def slots_ok_def producer_ok_def consumer_ok_def data_ok_def work_ok_def same(1-12)
    by (auto elim: slots_inv_weaken)
qed

lemma step_keeps: "step gen limit work s s' \<Longrightarrow> run_ok gen work w0 n s \<Longrightarrow> run_ok gen work w0 n s'"
proof (induction rule: step.induct)
  case (produces s s')
  then show ?case unfolding run_ok_def
    by (auto intro: producer_keeps_slots producer_keeps_producer producer_keeps_consumer producer_keeps_data
        producer_keeps_work)
next
  case (consumes s s')
  then show ?case unfolding run_ok_def
    by (auto intro: consumer_keeps_slots consumer_keeps_producer consumer_keeps_consumer consumer_keeps_data
        consumer_keeps_work)
next
  case (controls s s')
  have same: "handed s' = handed s" "released s' = released s" "producer s' = producer s"
      "producer_slot s' = producer_slot s" "slots_delivered s' = slots_delivered s" "consumer s' = consumer s"
      "consumer_slot s' = consumer_slot s" "worker s' = worker s" "buffers_processed s' = buffers_processed s"
      "slot_data (ring s') = slot_data (ring s)"
    using control_keeps [OF controls(1)] by simp_all
  have "slots_ok n s'" using controls control_keeps_slots by (auto simp: run_ok_def)
  then show ?case using controls(2)
    unfolding run_ok_def producer_ok_def consumer_ok_def data_ok_def work_ok_def same by simp
qed (auto intro: requests_keep)

definition reachable ::
    "(nat \<Rightarrow> 'b) \<Rightarrow> nat \<Rightarrow> ('b \<Rightarrow> 'c \<Rightarrow> TransferResult option \<times> 'c) \<Rightarrow> nat \<Rightarrow> 'b \<Rightarrow> 'c \<Rightarrow> ('b, 'c) pipeline \<Rightarrow> bool" where
  "reachable gen limit work n b w s \<longleftrightarrow> (step gen limit work)\<^sup>*\<^sup>* (started n b w) s"

lemma reachable_ok:
  assumes "0 < n" and "reachable gen limit work n b w s"
  shows "run_ok gen work w n s"
  using assms(2) unfolding reachable_def
proof (induction rule: rtranclp_induct)
  case base
  then show ?case by (simp add: run_ok_def started_ok [OF assms(1)])
next
  case (step y z)
  show ?case by (rule step_keeps [OF step(2,3)])
qed

end
