(* ===== verification/CaptureEnd.thy ===== *)
theory CaptureEnd
  imports CapturePipeline
begin

text \<open>
  How the threads of \<^verbatim>\<open>capture_pipeline.cpp\<close> end: when a result of success means that every buffer
  was processed, what bounds the fill level the ring of \<^verbatim>\<open>disk_buffer_ring.cpp\<close> reports, and that a
  capture that is told to stop ends, however its threads are scheduled.
\<close>

subsection \<open>The end of a run\<close>

text \<open>What is latched and who stopped what.\<close>

definition verdict_ok :: "('b, 'c) pipeline \<Rightarrow> bool" where
  "verdict_ok s \<longleftrightarrow>
     (\<forall>r. latched s = Some r \<longrightarrow> TransferFailed r)
     \<and> (ring_abort_requested (ring s) \<longrightarrow> abort_requested s \<or> processing_finished s)
     \<and> (case consumer s of
          CFree good \<Rightarrow> good \<or> latched s \<noteq> None | CCount good \<Rightarrow> good \<or> latched s \<noteq> None
        | CAfter good \<Rightarrow> good \<or> latched s \<noteq> None
        | CExit bad \<Rightarrow> bad \<and> latched s \<noteq> None \<or> abort_requested s \<or> \<not> bad \<and> transfer_finished s \<and> released s = handed s
        | CDone bad \<Rightarrow> bad \<and> latched s \<noteq> None \<or> abort_requested s \<or> \<not> bad \<and> transfer_finished s \<and> released s = handed s
        | _ \<Rightarrow> True)
     \<and> (case producer s of
          PExit r \<Rightarrow> r \<noteq> kRunning | PDone r \<Rightarrow> r \<noteq> kRunning \<and> (r \<noteq> kSuccess \<longrightarrow> latched s \<noteq> None) | _ \<Rightarrow> True)"

lemma producer_keeps_verdict:
  assumes "producer_step gen limit s = Some s'" "verdict_ok s"
  shows "verdict_ok s'"
proof -
  have same: "consumer s' = consumer s" "processing_finished s' = processing_finished s"
      "abort_requested s' = abort_requested s" "ring_abort_requested (ring s') = ring_abort_requested (ring s)"
      "released s' = released s"
    using assms(1)
    by (auto simp: producer_step_def released_def LatchResult_def processing_finished_def ring_ops Let_def
        split: producer_pc.splits option.splits prod.splits if_splits FillResult.splits)
  have over: "transfer_finished s \<Longrightarrow> False"
    using assms(1) by (auto simp: producer_step_def transfer_finished_def split: producer_pc.splits)
  have lat: "latched s' = latched s \<or> latched s = None \<and> (\<exists>r. producer s = PExit r \<and> TransferFailed r \<and> latched s' = Some r)"
    using assms(1)
    by (auto simp: producer_step_def LatchResult_def TransferFailed_def
        split: producer_pc.splits option.splits prod.splits if_splits FillResult.splits)
  have pr: "case producer s' of
          PExit r \<Rightarrow> r \<noteq> kRunning | PDone r \<Rightarrow> r \<noteq> kRunning \<and> (r \<noteq> kSuccess \<longrightarrow> latched s' \<noteq> None) | _ \<Rightarrow> True"
    using assms
    by (auto simp: producer_step_def verdict_ok_def LatchResult_def TransferFailed_def
        split: producer_pc.splits option.splits prod.splits if_splits FillResult.splits)
  show ?thesis
    using assms(2) over lat pr unfolding verdict_ok_def same
    by (auto split: consumer_pc.splits)
qed

lemma woken_empty:
  assumes "run_ok gen work w0 n s" "consumer s = CWait" "WaitForSlotFull (consumer_slot s) (ring s) = Some False"
  shows "ring_abort_requested (ring s) \<or> transfer_finished s \<and> released s = handed s"
proof -
  have r: "released s = buffers_processed s" using assms(2) by (simp add: released_def)
  have c: "consumer_slot s = released s mod n"
    using assms(1,2) by (simp add: run_ok_def consumer_ok_def r)
  have inv: "slots_inv n (slot_states (ring s)) (released s) (handed s) (ring_abort_requested (ring s)) (transfer_finished s)"
    using assms(1) by (simp add: run_ok_def slots_ok_def)
  then have n: "0 < n" "released s \<le> handed s" by (simp_all add: slots_inv_def)
  have "slot_states (ring s) ! (released s mod n) \<in> {kSlotDumped, kSlotAborted}"
    using assms(3) by (cases "slot_states (ring s) ! (released s mod n)") (auto simp: WaitForSlotFull_def c split: if_splits)
  then show ?thesis
    using slots_inv_at [OF inv, of "released s mod n"] live_at [of "released s" "handed s" n] n
    by (cases "released s = handed s") auto
qed

lemma consumer_keeps_verdict:
  assumes "consumer_step work s = Some s'" "run_ok gen work w0 n s" "verdict_ok s"
    and fails: "\<And>b c e c'. work b c = (Some e, c') \<Longrightarrow> TransferFailed e"
  shows "verdict_ok s'"
proof -
  have same: "producer s' = producer s" "transfer_finished s' = transfer_finished s" "handed s' = handed s"
      "abort_requested s' = abort_requested s" "ring_abort_requested (ring s') = ring_abort_requested (ring s)"
    using assms(1)
    by (auto simp: consumer_step_def handed_def transfer_finished_def exchange_free_def set_slot_def count_freed_def
        LatchResult_def split: consumer_pc.splits option.splits prod.splits if_splits)
  have over: "\<not> processing_finished s"
    using assms(1) by (auto simp: consumer_step_def processing_finished_def split: consumer_pc.splits)
  have lat: "latched s \<noteq> None \<Longrightarrow> latched s' = latched s" "\<forall>r. latched s' = Some r \<longrightarrow> TransferFailed r"
    using assms(1,3) fails
    by (auto simp: consumer_step_def LatchResult_def verdict_ok_def
        split: consumer_pc.splits option.splits prod.splits if_splits)
  have pr: "case producer s of
          PExit r \<Rightarrow> r \<noteq> kRunning | PDone r \<Rightarrow> r \<noteq> kRunning \<and> (r \<noteq> kSuccess \<longrightarrow> latched s' \<noteq> None) | _ \<Rightarrow> True"
    using assms(3) lat(1) by (auto simp: verdict_ok_def split: producer_pc.splits)
  have ab: "ring_abort_requested (ring s) \<Longrightarrow> abort_requested s" using assms(3) over by (auto simp: verdict_ok_def)
  have cn: "case consumer s' of
          CFree good \<Rightarrow> good \<or> latched s' \<noteq> None | CCount good \<Rightarrow> good \<or> latched s' \<noteq> None
        | CAfter good \<Rightarrow> good \<or> latched s' \<noteq> None
        | CExit bad \<Rightarrow> bad \<and> latched s' \<noteq> None \<or> abort_requested s \<or> \<not> bad \<and> transfer_finished s \<and> released s' = handed s
        | CDone bad \<Rightarrow> bad \<and> latched s' \<noteq> None \<or> abort_requested s \<or> \<not> bad \<and> transfer_finished s \<and> released s' = handed s
        | _ \<Rightarrow> True"
  proof (cases "consumer s")
    case CWait
    then show ?thesis using assms(1) woken_empty [OF assms(2) CWait] ab
      by (auto simp: consumer_step_def released_def split: option.splits if_splits)
  qed (use assms(1,3) in \<open>auto simp: consumer_step_def verdict_ok_def released_def LatchResult_def
      split: option.splits prod.splits if_splits\<close>)
  show ?thesis unfolding verdict_ok_def same using lat(2) pr ab cn by simp
qed

lemma control_keeps_verdict: "control_step s s' \<Longrightarrow> verdict_ok s \<Longrightarrow> verdict_ok s'"
proof -
  assume c: "control_step s s'" and v: "verdict_ok s"
  have same: "consumer s' = consumer s" "producer s' = producer s" "handed s' = handed s" "released s' = released s"
    using control_keeps [OF c] by simp_all
  have fin: "transfer_finished s' = transfer_finished s" "processing_finished s' = processing_finished s"
    by (simp_all add: transfer_finished_def processing_finished_def same)
  have lat: "latched s \<noteq> None \<Longrightarrow> latched s' = latched s" "\<forall>r. latched s' = Some r \<longrightarrow> TransferFailed r"
      "abort_requested s \<Longrightarrow> abort_requested s'"
      "ring_abort_requested (ring s') \<longrightarrow> abort_requested s' \<or> processing_finished s"
    using c v by (auto elim!: control_step.cases simp: verdict_ok_def tear_down_def request_abort_def LatchResult_def
        TransferFailed_def dump_slot_def set_slot_def split: option.splits if_splits)
  have pr: "case producer s of
          PExit r \<Rightarrow> r \<noteq> kRunning | PDone r \<Rightarrow> r \<noteq> kRunning \<and> (r \<noteq> kSuccess \<longrightarrow> latched s' \<noteq> None) | _ \<Rightarrow> True"
    using v lat(1) by (auto simp: verdict_ok_def split: producer_pc.splits)
  have "case consumer s of
          CFree good \<Rightarrow> good \<or> latched s' \<noteq> None | CCount good \<Rightarrow> good \<or> latched s' \<noteq> None
        | CAfter good \<Rightarrow> good \<or> latched s' \<noteq> None
        | CExit bad \<Rightarrow> bad \<and> latched s' \<noteq> None \<or> abort_requested s' \<or> \<not> bad \<and> transfer_finished s \<and> released s = handed s
        | CDone bad \<Rightarrow> bad \<and> latched s' \<noteq> None \<or> abort_requested s' \<or> \<not> bad \<and> transfer_finished s \<and> released s = handed s
        | _ \<Rightarrow> True"
    using v lat(1,3) by (auto simp: verdict_ok_def split: consumer_pc.splits)
  then show ?thesis unfolding verdict_ok_def same fin using lat(2,4) pr by simp
qed

lemma requests_keep_verdict: "verdict_ok s \<Longrightarrow> verdict_ok (RequestStop s) \<and> verdict_ok (AbortCapture s)"
proof -
  assume v: "verdict_ok s"
  have same: "released (RequestStop s) = released s" "handed (RequestStop s) = handed s"
      "transfer_finished (RequestStop s) = transfer_finished s" "processing_finished (RequestStop s) = processing_finished s"
      "latched (RequestStop s) = latched s" "abort_requested (RequestStop s) = abort_requested s"
      "consumer (RequestStop s) = consumer s" "producer (RequestStop s) = producer s" "ring (RequestStop s) = ring s"
    by (simp_all add: RequestStop_def released_def handed_def transfer_finished_def processing_finished_def)
  have "verdict_ok (RequestStop s)" using v unfolding verdict_ok_def same .
  have same: "latched (AbortCapture s) = latched s" "consumer (AbortCapture s) = consumer s"
      "producer (AbortCapture s) = producer s" "abort_requested (AbortCapture s) = True"
    by (simp_all add: AbortCapture_def tear_down_def)
  moreover have "verdict_ok (AbortCapture s)" using v unfolding verdict_ok_def same
    by (auto split: consumer_pc.splits)
  ultimately show ?thesis using \<open>verdict_ok (RequestStop s)\<close> by simp
qed

lemma reachable_verdict:
  assumes "0 < n" and fails: "\<And>b c e c'. work b c = (Some e, c') \<Longrightarrow> TransferFailed e"
    and "reachable gen limit work n b w s"
  shows "verdict_ok s"
  using assms(3) unfolding reachable_def
proof (induction rule: rtranclp_induct)
  case base
  then show ?case by (simp add: verdict_ok_def started_def new_ring_def)
next
  case (step y z)
  have "run_ok gen work w n y" using reachable_ok [OF assms(1)] step(1) by (auto simp: reachable_def)
  with step(2,3) show ?case
  proof cases
    case consumes
    show ?thesis
      by (rule consumer_keeps_verdict [OF consumes \<open>run_ok gen work w n y\<close> step(3)]) (rule fails)
  qed (auto intro: producer_keeps_verdict control_keeps_verdict dest: requests_keep_verdict)
qed

text \<open>
  The refinement: a run that ends with success, and that nobody aborted, has done the work of every
  buffer the source handed over, in order, and of nothing else, and has closed the sink without a
  failure.
\<close>

lemma finished_run:
  assumes "0 < n" and fails: "\<And>b c e c'. work b c = (Some e, c') \<Longrightarrow> TransferFailed e"
    and r: "reachable gen limit work n b w s" and f: "finished s" and ok: "capture_result (close_sink finish s) = kSuccess"
    and a: "\<not> abort_requested s"
  shows "run_work work (map gen [0..<slots_delivered s]) w = (None, worker s)
     \<and> finish (worker s) = (True, worker (close_sink finish s))"
proof -
  have inv: "run_ok gen work w n s" by (rule reachable_ok [OF assms(1) r])
  have v: "verdict_ok s" by (rule reachable_verdict [OF assms(1) fails r])
  have l: "latched s = None" and fin: "finish (worker s) = (True, worker (close_sink finish s))" using ok v
    by (auto simp: capture_result_def close_sink_def LatchResult_def verdict_ok_def TransferFailed_def
        split: option.splits prod.splits bool.splits if_splits)
  obtain bad where c: "consumer s = CDone bad"
    using f by (auto simp: finished_def processing_finished_def split: consumer_pc.splits)
  have d: "\<not> bad" "released s = handed s" using v c l a by (auto simp: verdict_ok_def)
  have "slots_delivered s = handed s"
    using inv f by (auto simp: run_ok_def producer_ok_def finished_def transfer_finished_def split: producer_pc.splits)
  then show ?thesis using inv c d fin by (simp add: run_ok_def work_ok_def prod_eq_iff)
qed

subsection \<open>The fill level\<close>

definition counts_ok :: "nat \<Rightarrow> ('b, 'c) pipeline \<Rightarrow> bool" where
  "counts_ok n s \<longleftrightarrow> slots_freed (ring s) \<le> released s \<and> released s \<le> slots_freed (ring s) + 1
     \<and> (released s = slots_freed (ring s) + 1 \<longrightarrow>
          (\<exists>good. consumer s = CCount good)
          \<or> abort_requested s \<and> (case consumer s of CAfter _ \<Rightarrow> True | CTop \<Rightarrow> True | CExit _ \<Rightarrow> True | CDone _ \<Rightarrow> True | _ \<Rightarrow> False))
     \<and> ((\<exists>good. consumer s = CCount good) \<longrightarrow> released s = slots_freed (ring s) + 1)
     \<and> peak_slots_in_use (ring s) \<le> n + 1"

lemma producer_keeps_counts:
  assumes "producer_step gen limit s = Some s'" "slots_ok n s" "counts_ok n s"
  shows "counts_ok n s'"
proof -
  have same: "consumer s' = consumer s" "released s' = released s" "abort_requested s' = abort_requested s"
      "slots_freed (ring s') = slots_freed (ring s)"
    using assms(1)
    by (auto simp: producer_step_def released_def LatchResult_def ring_ops Let_def
        split: producer_pc.splits option.splits prod.splits if_splits FillResult.splits)
  have "handed s \<le> released s + n" using assms(2) by (simp add: slots_ok_def slots_inv_def)
  then have "slots_filled (ring s) - slots_freed (ring s) \<le> n + 1"
    using assms(3) by (auto simp: counts_ok_def handed_def split: if_splits)
  then have "peak_slots_in_use (ring s') \<le> n + 1"
    using assms(1,3)
    by (auto simp: producer_step_def LatchResult_def ring_ops Let_def counts_ok_def
        split: producer_pc.splits option.splits prod.splits if_splits FillResult.splits)
  then show ?thesis using assms(3) unfolding counts_ok_def same by simp
qed

lemma consumer_keeps_counts:
  assumes "consumer_step work s = Some s'" "run_ok gen work w0 n s" "verdict_ok s" "counts_ok n s"
  shows "counts_ok n s'"
proof (cases "\<exists>good. consumer s = CFree good")
  case True
  then obtain good where c: "consumer s = CFree good" by blast
  define i where "i = released s mod n"
  have r: "released s = buffers_processed s" using c by (simp add: released_def)
  have i: "consumer_slot s = i" "released s < handed s" using assms(2) c by (simp_all add: run_ok_def consumer_ok_def r i_def)
  have inv: "slots_inv n (slot_states (ring s)) (released s) (handed s) (ring_abort_requested (ring s)) (transfer_finished s)"
    using assms(2) by (simp add: run_ok_def slots_ok_def)
  have n: "i < n" using inv by (simp add: slots_inv_def i_def)
  have a: "ring_abort_requested (ring s) \<Longrightarrow> abort_requested s"
    using assms(3) c by (auto simp: verdict_ok_def processing_finished_def)
  have st: "slot_states (ring s) ! i = kSlotFull \<or> slot_states (ring s) ! i = kSlotAborted \<and> abort_requested s"
    using slots_inv_at [OF inv n] live_at [OF i(2), of n] a by (auto simp: i_def split: slot_state.splits)
  have "released s = slots_freed (ring s)" using assms(4) c by (auto simp: counts_ok_def)
  then show ?thesis using assms(1,4) c st
    by (auto simp: consumer_step_def exchange_free_def set_slot_def counts_ok_def i released_def split: if_splits)
next
  case False
  show ?thesis
  proof (cases "consumer s")
    case CTop
    then show ?thesis using assms(1,4) by (auto simp: consumer_step_def counts_ok_def released_def split: if_splits)
  qed (use assms(1,4) False in \<open>auto simp: consumer_step_def counts_ok_def released_def count_freed_def LatchResult_def
      split: option.splits prod.splits if_splits\<close>)
qed

lemma reachable_counts:
  assumes "0 < n" and fails: "\<And>b c e c'. work b c = (Some e, c') \<Longrightarrow> TransferFailed e"
    and "reachable gen limit work n b w s"
  shows "counts_ok n s"
  using assms(3) unfolding reachable_def
proof (induction rule: rtranclp_induct)
  case base
  then show ?case by (simp add: counts_ok_def started_def new_ring_def released_def)
next
  case (step y z)
  have y: "reachable gen limit work n b w y" using step(1) by (simp add: reachable_def)
  note ok = reachable_ok [OF assms(1) y]
  have v: "verdict_ok y" by (rule reachable_verdict [OF assms(1) fails y])
  from step(2,3) show ?case
  proof cases
    case produces
    then show ?thesis using producer_keeps_counts ok step(3) by (auto simp: run_ok_def)
  next
    case consumes
    show ?thesis by (rule consumer_keeps_counts [OF consumes ok v step(3)])
  next
    case controls
    have "abort_requested y \<Longrightarrow> abort_requested z"
      using controls by (auto elim!: control_step.cases simp: tear_down_def LatchResult_def split: option.splits)
    then show ?thesis using step(3) control_keeps [OF controls] by (auto simp: counts_ok_def)
  qed (auto simp: counts_ok_def RequestStop_def AbortCapture_def tear_down_def request_abort_def released_def
      split: consumer_pc.splits)
qed

lemma windows_apart:
  assumes "run_ok gen work w0 n s" "producer s \<in> {PFill, PMark}" "consumer s = CWork \<or> (\<exists>good. consumer s = CFree good)"
  shows "producer_slot s \<noteq> consumer_slot s"
proof
  assume eq: "producer_slot s = consumer_slot s"
  have p: "producer_slot s = handed s mod n" "handed s < released s + n"
    using assms(1,2) by (auto simp: run_ok_def producer_ok_def)
  have c: "consumer_slot s = released s mod n" "released s < handed s"
    using assms(1,3) by (auto simp: run_ok_def consumer_ok_def released_def)
  have "handed s = released s" using mod_window [of "handed s" n "released s"] eq p c by simp
  then show False using c(2) by simp
qed

text \<open>The counters never run backwards, so the unsigned difference never wraps.\<close>

lemma in_use_bound:
  assumes "0 < n" and "\<And>b c e c'. work b c = (Some e, c') \<Longrightarrow> TransferFailed e"
    and "reachable gen limit work n b w s"
  shows "slots_freed (ring s) \<le> slots_filled (ring s) + (if producer s = PCount then 1 else 0)
     \<and> peak_slots_in_use (ring s) \<le> n + 1 \<and> SlotsInUse (ring s) \<le> n + 1"
proof -
  have c: "counts_ok n s" by (rule reachable_counts [OF assms])
  have "released s \<le> handed s" "handed s \<le> released s + n"
    using reachable_ok [OF assms(1,3)] by (simp_all add: run_ok_def slots_ok_def slots_inv_def)
  then show ?thesis using c by (auto simp: counts_ok_def handed_def SlotsInUse_def split: if_splits)
qed

subsection \<open>A capture that is told to stop ends\<close>

fun producer_rank :: "producer_pc \<Rightarrow> nat" where
  "producer_rank (PDone _) = 0"
| "producer_rank (PExit _) = 1"
| "producer_rank PTop = 2"
| "producer_rank PNext = 3"
| "producer_rank PPeak = 4"
| "producer_rank PCount = 5"
| "producer_rank PMark = 14"
| "producer_rank PFill = 15"
| "producer_rank PWait = 16"

fun consumer_rank :: "consumer_pc \<Rightarrow> nat" where
  "consumer_rank (CDone _) = 0"
| "consumer_rank (CExit _) = 1"
| "consumer_rank (CFree _) = 2"
| "consumer_rank CWork = 3"
| "consumer_rank CWait = 4"
| "consumer_rank CTop = 5"
| "consumer_rank (CAfter _) = 6"
| "consumer_rank (CCount _) = 7"

fun slot_rank :: "slot_state \<Rightarrow> nat" where
  "slot_rank kSlotEmpty = 3"
| "slot_rank kSlotFull = 1"
| "slot_rank kSlotDumped = 1"
| "slot_rank kSlotAborted = 0"

definition flags_rank :: "('b, 'c) pipeline \<Rightarrow> nat" where
  "flags_rank s = of_bool (\<not> abort_requested s) + of_bool (\<not> stop_requested s)
     + of_bool (\<not> ring_abort_requested (ring s)) + of_bool (latched s = None)"

definition work_left :: "('b, 'c) pipeline \<Rightarrow> nat" where
  "work_left s = 3 * (producer_rank (producer s) + 8 * (handed s - released s) + consumer_rank (consumer s))
     + sum_list (map slot_rank (slot_states (ring s))) + flags_rank s"

lemma flags_mono:
  assumes "abort_requested s \<Longrightarrow> abort_requested s'" "stop_requested s \<Longrightarrow> stop_requested s'"
    "ring_abort_requested (ring s) \<Longrightarrow> ring_abort_requested (ring s')" "latched s \<noteq> None \<Longrightarrow> latched s' \<noteq> None"
  shows "flags_rank s' \<le> flags_rank s"
  using assms unfolding flags_rank_def by (intro add_mono; cases "latched s") (auto simp: of_bool_def)

lemma ring_same: "s\<lparr>ring := ring s\<rparr> = s"
  by (cases s) simp

lemma sum_list_set:
  "i < length xs \<Longrightarrow> sum_list (map f (xs[i := v])) + f (xs ! i) = sum_list (map f xs) + (f v :: nat)"
  by (induction xs arbitrary: i) (auto split: nat.splits)

lemma producer_keeps_flags:
  "producer_step gen limit s = Some s' \<Longrightarrow> abort_requested s' = abort_requested s \<and> stop_requested s' = stop_requested s
     \<and> ring_abort_requested (ring s') = ring_abort_requested (ring s) \<and> (latched s \<noteq> None \<longrightarrow> latched s' = latched s)"
  by (cases "producer s") (auto simp: producer_step_def LatchResult_def ring_ops Let_def
      split: option.splits if_splits FillResult.splits)

lemma consumer_keeps_flags:
  "consumer_step work s = Some s' \<Longrightarrow> abort_requested s' = abort_requested s \<and> stop_requested s' = stop_requested s
     \<and> ring_abort_requested (ring s') = ring_abort_requested (ring s) \<and> (latched s \<noteq> None \<longrightarrow> latched s' = latched s)"
  by (cases "consumer s") (auto simp: consumer_step_def LatchResult_def ring_ops
      split: option.splits if_splits prod.splits)

lemma producer_progress:
  assumes "producer_step gen limit s = Some s'" "slots_ok n s" "producer_ok n s" "stop_requested s"
  shows "work_left s' < work_left s"
proof (cases "producer s = PMark \<and> slot_states (ring s) ! producer_slot s = kSlotEmpty")
  case True
  have st: "s' = s\<lparr>ring := set_slot (producer_slot s) kSlotFull (ring s), producer := PCount\<rparr>"
    using True assms(1) by (simp add: producer_step_def exchange_full_def)
  have i: "producer_slot s < length (slot_states (ring s))"
    using assms(2,3) True by (simp add: producer_ok_def slots_ok_def slots_inv_def)
  have h: "handed s' = Suc (handed s)" "released s' = released s" "released s \<le> handed s"
    using True assms(2) by (simp_all add: st handed_def released_def set_slot_def slots_ok_def slots_inv_def)
  have "sum_list (map slot_rank (slot_states (ring s'))) \<le> sum_list (map slot_rank (slot_states (ring s)))"
    using sum_list_set [OF i, of slot_rank kSlotFull] True by (simp add: st set_slot_def)
  moreover have "flags_rank s' = flags_rank s" by (simp add: st flags_rank_def set_slot_def)
  ultimately show ?thesis using True by (simp add: work_left_def h Suc_diff_le) (simp add: st)
next
  case False
  have same: "consumer s' = consumer s" "released s' = released s" "handed s' = handed s"
      "slot_states (ring s') = slot_states (ring s)"
    using assms(1) False
    by (auto simp: producer_step_def released_def handed_def LatchResult_def fill_slot_def exchange_full_def
        count_filled_def raise_peak_def Let_def split: producer_pc.splits option.splits if_splits)
  have "flags_rank s' \<le> flags_rank s"
    by (rule flags_mono) (use producer_keeps_flags [OF assms(1)] in auto)
  moreover have "producer_rank (producer s') < producer_rank (producer s)"
    using assms(1,4) False
    by (auto simp: producer_step_def LatchResult_def exchange_full_def split: producer_pc.splits option.splits if_splits)
  ultimately show ?thesis by (simp add: work_left_def same)
qed

lemma consumer_progress:
  assumes "consumer_step work s = Some s'" "slots_ok n s" "consumer_ok n s"
  shows "work_left s' < work_left s"
proof (cases "\<exists>good. consumer s = CFree good")
  case True
  then obtain good where c: "consumer s = CFree good" by blast
  define i where "i = consumer_slot s"
  have i: "i < length (slot_states (ring s))" "released s < handed s"
    using assms(2,3) c by (simp_all add: consumer_ok_def slots_ok_def slots_inv_def i_def)
  have h: "handed s' = handed s" "released s' = Suc (released s)" "producer s' = producer s"
      "consumer_rank (consumer s') \<le> 7"
      "slot_states (ring s') = (if slot_states (ring s) ! i \<in> {kSlotFull, kSlotDumped}
         then (slot_states (ring s))[i := kSlotEmpty] else slot_states (ring s))"
    using assms(1) c
    by (auto simp: consumer_step_def exchange_free_def set_slot_def handed_def released_def i_def split: if_splits)
  have fl: "flags_rank s' \<le> flags_rank s"
    by (rule flags_mono) (use consumer_keeps_flags [OF assms(1)] in auto)
  have "sum_list (map slot_rank (slot_states (ring s'))) \<le> sum_list (map slot_rank (slot_states (ring s))) + 2"
    using sum_list_set [OF i(1), of slot_rank kSlotEmpty] by (auto simp: h(5))
  moreover have "handed s - Suc (released s) + 1 = handed s - released s" using i(2) by simp
  ultimately show ?thesis using h(4) fl by (simp add: work_left_def h(1-3) c)
next
  case False
  have same: "producer s' = producer s" "handed s' = handed s" "released s' = released s"
      "slot_states (ring s') = slot_states (ring s)"
    using assms(1) False
    by (auto simp: consumer_step_def handed_def released_def count_freed_def LatchResult_def
        split: consumer_pc.splits option.splits prod.splits if_splits)
  have "flags_rank s' \<le> flags_rank s"
    by (rule flags_mono) (use consumer_keeps_flags [OF assms(1)] in auto)
  have "consumer_rank (consumer s') < consumer_rank (consumer s)"
    using assms(1) False
    by (auto simp: consumer_step_def LatchResult_def split: consumer_pc.splits option.splits prod.splits if_splits)
  then show ?thesis using \<open>flags_rank s' \<le> flags_rank s\<close> by (simp add: work_left_def same)
qed

lemma control_progress:
  assumes "control_step s s'" "s' \<noteq> s"
  shows "work_left s' < work_left s"
proof -
  have same: "handed s' = handed s" "released s' = released s" "producer s' = producer s" "consumer s' = consumer s"
    using control_keeps [OF assms(1)] by simp_all
  have "sum_list (map slot_rank (slot_states (ring s'))) + flags_rank s'
      < sum_list (map slot_rank (slot_states (ring s))) + flags_rank s"
    using assms
  proof (induction rule: control_step.induct)
    case (dump s i)
    then have e: "slot_states (ring s) ! i = kSlotEmpty" by (auto simp: dump_slot_def ring_same split: if_splits)
    then show ?case using dump sum_list_set [of i "slot_states (ring s)" slot_rank kSlotDumped]
      by (simp add: dump_slot_def set_slot_def flags_rank_def ring_size_def)
  next
    case (abort_slot s i)
    have "slot_states (ring s) ! i \<noteq> kSlotAborted"
    proof
      assume "slot_states (ring s) ! i = kSlotAborted"
      then have "set_slot i kSlotAborted (ring s) = ring s"
        unfolding set_slot_def by (metis DiskBufferRing.surjective DiskBufferRing.update_convs(1) list_update_id)
      then show False using abort_slot(3) by (simp add: ring_same)
    qed
    then have "0 < slot_rank (slot_states (ring s) ! i)" by (cases "slot_states (ring s) ! i") simp_all
    then show ?case using abort_slot sum_list_set [of i "slot_states (ring s)" slot_rank kSlotAborted]
      by (simp add: set_slot_def flags_rank_def ring_size_def)
  next
    case (stalled s)
    then show ?case by (auto simp: tear_down_def request_abort_def LatchResult_def flags_rank_def split: option.splits)
  next
    case (failed s r)
    then show ?case by (auto simp: tear_down_def request_abort_def flags_rank_def)
  next
    case (release s)
    then show ?case by (auto simp: request_abort_def flags_rank_def)
  qed
  then show ?thesis by (simp add: work_left_def same)
qed

lemma step_stays_stopped: "step gen limit work s s' \<Longrightarrow> stop_requested s \<Longrightarrow> stop_requested s'"
proof (induction rule: step.induct)
  case (produces s s')
  then show ?case using producer_keeps_flags by auto
next
  case (consumes s s')
  then show ?case using consumer_keeps_flags by auto
next
  case (controls s s')
  then show ?case by (auto elim!: control_step.cases simp: tear_down_def LatchResult_def split: option.splits)
qed (auto simp: RequestStop_def AbortCapture_def tear_down_def)

lemma step_progress:
  assumes "step gen limit work s s'" "s' \<noteq> s" "run_ok gen work w0 n s" "stop_requested s"
  shows "work_left s' < work_left s"
  using assms(1)
proof cases
  case produces
  then show ?thesis using producer_progress assms(3,4) by (auto simp: run_ok_def)
next
  case consumes
  then show ?thesis using consumer_progress assms(3) by (auto simp: run_ok_def)
next
  case controls
  then show ?thesis using control_progress assms(2) by blast
next
  case stops
  then have "s' = s" using assms(4) by (cases s) (simp add: RequestStop_def)
  then show ?thesis using assms(2) by simp
next
  case aborts
  have same: "handed s' = handed s" "released s' = released s" "producer s' = producer s" "consumer s' = consumer s"
      "slot_states (ring s') = slot_states (ring s)"
    by (simp_all add: aborts AbortCapture_def tear_down_def request_abort_def handed_def released_def)
  have "\<not> (abort_requested s \<and> ring_abort_requested (ring s))"
  proof
    assume "abort_requested s \<and> ring_abort_requested (ring s)"
    then have "s' = s" using assms(4)
      by (cases s; cases "ring s") (simp add: aborts AbortCapture_def tear_down_def request_abort_def)
    then show False using assms(2) by simp
  qed
  then have "flags_rank s' < flags_rank s"
    by (auto simp: flags_rank_def aborts AbortCapture_def tear_down_def request_abort_def assms(4))
  then show ?thesis by (simp add: work_left_def same)
qed

lemma work_left_bound: "run_ok gen work w0 n s \<Longrightarrow> work_left s \<le> 27 * n + 73"
proof -
  assume ok: "run_ok gen work w0 n s"
  then have h: "handed s - released s \<le> n" "length (slot_states (ring s)) = n"
    by (auto simp: run_ok_def slots_ok_def slots_inv_def)
  have pr: "producer_rank (producer s) \<le> 16" by (cases "producer s") simp_all
  have cr: "consumer_rank (consumer s) \<le> 7" by (cases "consumer s") simp_all
  have w: "sum_list (map slot_rank xs) \<le> 3 * length xs" for xs
  proof (induction xs)
    case (Cons x xs)
    then show ?case by (cases x) simp_all
  qed simp
  have fr: "flags_rank s \<le> 4" by (simp add: flags_rank_def)
  define d where "d = handed s - released s"
  define q where "q = sum_list (map slot_rank (slot_states (ring s)))"
  have "q \<le> 3 * n" "d \<le> n" using w [of "slot_states (ring s)"] h by (simp_all add: q_def d_def)
  then show ?thesis using pr cr fr unfolding work_left_def d_def [symmetric] q_def [symmetric] by simp
qed

text \<open>Nothing but a finished run has nothing left to do.\<close>

text \<open>A step of one of the three threads, not of the caller who stops or aborts.\<close>

definition thread_step ::
    "(nat \<Rightarrow> 'b) \<Rightarrow> nat \<Rightarrow> ('b \<Rightarrow> 'c \<Rightarrow> TransferResult option \<times> 'c) \<Rightarrow> ('b, 'c) pipeline \<Rightarrow> ('b, 'c) pipeline \<Rightarrow> bool" where
  "thread_step gen limit work s s' \<longleftrightarrow>
     producer_step gen limit s = Some s' \<or> consumer_step work s = Some s' \<or> control_step s s'"

lemma no_deadlock:
  assumes "run_ok gen work w0 n s" "\<not> finished s"
  shows "\<exists>s'. thread_step gen limit work s s' \<and> s' \<noteq> s"
proof -
  have inv: "slots_inv n (slot_states (ring s)) (released s) (handed s) (ring_abort_requested (ring s)) (transfer_finished s)"
    using assms(1) by (simp add: run_ok_def slots_ok_def)
  then have n: "0 < n" "released s \<le> handed s" "handed s \<le> released s + n" "length (slot_states (ring s)) = n"
    by (simp_all add: slots_inv_def)
  have "producer s' \<noteq> producer s" if "producer_step gen limit s = Some s'" for s'
    using that by (auto simp: producer_step_def LatchResult_def
        split: producer_pc.splits option.splits prod.splits if_splits FillResult.splits)
  then have p: "s' \<noteq> s" if "producer_step gen limit s = Some s'" for s' using that by auto
  have "consumer s' \<noteq> consumer s" if "consumer_step work s = Some s'" for s'
    using that by (auto simp: consumer_step_def LatchResult_def
        split: consumer_pc.splits option.splits prod.splits if_splits)
  then have c: "s' \<noteq> s" if "consumer_step work s = Some s'" for s' using that by auto
  consider (runs) s' where "producer_step gen limit s = Some s' \<or> consumer_step work s = Some s'"
    | (stuck) "producer_step gen limit s = None" "consumer_step work s = None" by fastforce
  then show ?thesis
  proof cases
    case runs
    then show ?thesis using p c unfolding thread_step_def by blast
  next
    case stuck
    have P: "transfer_finished s \<or> producer s = PWait \<and> slot_states (ring s) ! (handed s mod n) \<in> {kSlotFull, kSlotDumped}"
      using stuck(1) assms(1)
      by (auto simp: producer_step_def transfer_finished_def WaitForSlotFree_def run_ok_def producer_ok_def
          split: producer_pc.splits slot_state.splits option.splits prod.splits FillResult.splits)
    have C: "processing_finished s \<or> consumer s = CWait \<and> slot_states (ring s) ! (released s mod n) = kSlotEmpty"
      using stuck(2) assms(1)
      by (auto simp: consumer_step_def processing_finished_def WaitForSlotFull_def run_ok_def consumer_ok_def released_def
          split: consumer_pc.splits option.splits prod.splits if_splits)
    show ?thesis
    proof (cases "transfer_finished s")
      case True
      then have e: "\<not> processing_finished s" "slot_states (ring s) ! (released s mod n) = kSlotEmpty"
        using assms(2) C by (auto simp: finished_def)
      have "s\<lparr>ring := dump_slot (released s mod n) (ring s)\<rparr> \<noteq> s"
      proof
        assume "s\<lparr>ring := dump_slot (released s mod n) (ring s)\<rparr> = s"
        then have "slot_states (ring (s\<lparr>ring := dump_slot (released s mod n) (ring s)\<rparr>)) ! (released s mod n)
            = slot_states (ring s) ! (released s mod n)" by simp
        then show False using e(2) n by (simp add: dump_slot_def set_slot_def)
      qed
      moreover have "released s mod n < ring_size (ring s)" using n by (simp add: ring_size_def)
      ultimately show ?thesis using control_step.dump [OF True e(1)] unfolding thread_step_def by blast
    next
      case False
      then have f: "producer s = PWait" "slot_states (ring s) ! (handed s mod n) = kSlotFull"
        using P slots_inv_at [OF inv, of "handed s mod n"] n(1) by auto
      then have h: "handed s = released s + n"
        using slots_inv_at [OF inv, of "handed s mod n"] live_less [OF _ n(3)] n(1) by auto
      have "slot_states (ring s) ! (released s mod n) = kSlotFull" using f(2) h by simp
      then have pf: "processing_finished s" using C by auto
      show ?thesis
      proof (cases "ring_abort_requested (ring s)")
        case True
        have "s\<lparr>ring := set_slot (handed s mod n) kSlotAborted (ring s)\<rparr> \<noteq> s"
        proof
          assume "s\<lparr>ring := set_slot (handed s mod n) kSlotAborted (ring s)\<rparr> = s"
          then have "slot_states (ring (s\<lparr>ring := set_slot (handed s mod n) kSlotAborted (ring s)\<rparr>)) ! (handed s mod n)
            = slot_states (ring s) ! (handed s mod n)" by simp
          then show False using f(2) n by (simp add: set_slot_def)
        qed
        moreover have "handed s mod n < ring_size (ring s)" using n by (simp add: ring_size_def)
        ultimately show ?thesis using control_step.abort_slot [OF True] unfolding thread_step_def by blast
      next
        case False
        have "s\<lparr>stop_requested := True, ring := request_abort (ring s)\<rparr> \<noteq> s"
        proof
          assume "s\<lparr>stop_requested := True, ring := request_abort (ring s)\<rparr> = s"
          then have "ring_abort_requested (ring (s\<lparr>stop_requested := True, ring := request_abort (ring s)\<rparr>))
              = ring_abort_requested (ring s)" by simp
          then show False using False by (simp add: request_abort_def)
        qed
        then show ?thesis using control_step.release [OF pf \<open>\<not> transfer_finished s\<close>] unfolding thread_step_def by blast
      qed
    qed
  qed
qed

lemma run_bound:
  assumes "\<And>i. i < k \<Longrightarrow> step gen limit work (f i) (f (Suc i)) \<and> f (Suc i) \<noteq> f i"
    and "run_ok gen work w0 n (f 0)" and "stop_requested (f 0)"
  shows "run_ok gen work w0 n (f k) \<and> stop_requested (f k) \<and> work_left (f k) + k \<le> work_left (f 0)"
  using assms(1)
proof (induction k)
  case 0
  then show ?case using assms(2,3) by simp
next
  case (Suc k)
  then have IH: "run_ok gen work w0 n (f k)" "stop_requested (f k)" "work_left (f k) + k \<le> work_left (f 0)"
    by simp_all
  have st: "step gen limit work (f k) (f (Suc k))" "f (Suc k) \<noteq> f k" using Suc.prems [of k] by simp_all
  show ?case
    using step_keeps [OF st(1) IH(1)] step_stays_stopped [OF st(1) IH(2)] step_progress [OF st IH(1,2)] IH(3)
    by simp
qed

lemma stopped_run_ends:
  assumes "0 < n" "reachable gen limit work n b w (f 0)" "stop_requested (f 0)"
    and "\<And>i. i < k \<Longrightarrow> step gen limit work (f i) (f (Suc i)) \<and> f (Suc i) \<noteq> f i"
  shows "k \<le> 27 * n + 73 \<and> (finished (f k) \<or> (\<exists>s'. thread_step gen limit work (f k) s' \<and> s' \<noteq> f k))"
proof -
  have ok: "run_ok gen work w n (f 0)" by (rule reachable_ok [OF assms(1,2)])
  have R: "run_ok gen work w n (f k) \<and> stop_requested (f k) \<and> work_left (f k) + k \<le> work_left (f 0)"
    by (rule run_bound [OF assms(4) ok assms(3)])
  have "k \<le> 27 * n + 73" using R work_left_bound [OF ok] by linarith
  then show ?thesis using R no_deadlock [of gen work w n "f k" limit] by blast
qed

subsection \<open>Schedules\<close>

datatype action = Produce | Consume | Dump nat | Stop | Abort

fun perform ::
    "(nat \<Rightarrow> 'b) \<Rightarrow> nat \<Rightarrow> ('b \<Rightarrow> 'c \<Rightarrow> TransferResult option \<times> 'c) \<Rightarrow> action \<Rightarrow> ('b, 'c) pipeline \<Rightarrow> ('b, 'c) pipeline option" where
  "perform gen limit work Produce s = producer_step gen limit s"
| "perform gen limit work Consume s = consumer_step work s"
| "perform gen limit work (Dump i) s =
     (if transfer_finished s \<and> \<not> processing_finished s \<and> i < ring_size (ring s)
      then Some (s\<lparr>ring := dump_slot i (ring s)\<rparr>) else None)"
| "perform gen limit work Stop s = Some (RequestStop s)"
| "perform gen limit work Abort s = Some (AbortCapture s)"

fun perform_all ::
    "(nat \<Rightarrow> 'b) \<Rightarrow> nat \<Rightarrow> ('b \<Rightarrow> 'c \<Rightarrow> TransferResult option \<times> 'c) \<Rightarrow> action list \<Rightarrow> ('b, 'c) pipeline \<Rightarrow> ('b, 'c) pipeline option" where
  "perform_all gen limit work [] s = Some s"
| "perform_all gen limit work (a # as) s =
     (case perform gen limit work a s of None \<Rightarrow> None | Some s' \<Rightarrow> perform_all gen limit work as s')"

lemma perform_step: "perform gen limit work a s = Some s' \<Longrightarrow> step gen limit work s s'"
  by (cases a) (auto intro: step.intros control_step.intros split: if_splits)

lemma perform_reachable:
  "perform_all gen limit work as s = Some s' \<Longrightarrow> reachable gen limit work n b w s \<Longrightarrow> reachable gen limit work n b w s'"
proof (induction "as" arbitrary: s)
  case (Cons a as)
  then obtain t where t: "perform gen limit work a s = Some t" "perform_all gen limit work as t = Some s'"
    by (auto split: option.splits)
  have "reachable gen limit work n b w t"
    using Cons.prems(2) perform_step [OF t(1)] unfolding reachable_def by (rule rtranclp.rtrancl_into_rtrancl)
  then show ?case using Cons.IH t(2) by blast
qed simp

lemma perform_started:
  "perform_all gen limit work as (started n b w) = Some s \<Longrightarrow> reachable gen limit work n b w s"
  by (erule perform_reachable) (simp add: reachable_def)

definition one_slot :: "action list \<Rightarrow> (nat, nat) pipeline option" where
  "one_slot as = perform_all id 0 (\<lambda>b c. (None, c + 1)) as (started 1 0 0)"

text \<open>
  The slot is exchanged before it is counted as freed, so a producer that fills it in between sees one
  slot more in use than there are.
\<close>

lemma peak_over_count:
  "(case one_slot (replicate 7 Produce @ replicate 4 Consume @ replicate 6 Produce) of
      Some s \<Rightarrow> peak_slots_in_use (ring s) = 2 \<and> ring_size (ring s) = 1 | None \<Rightarrow> False)"
  by code_simp

text \<open>
  A caller's abort that comes when the transfer thread has finished is not latched as a result, and
  what was still in the ring is not processed.
\<close>

lemma abort_during_drain:
  "(case one_slot (replicate 7 Produce @ [Stop, Produce, Produce, Abort, Consume, Consume]) of
      Some s \<Rightarrow> finished s \<and> capture_result (close_sink (\<lambda>w. (True, w)) s) = kSuccess \<and> slots_delivered s = 1 \<and> buffers_processed s = 0
    | None \<Rightarrow> False)"
  by code_simp

end
