(* ===== verification/Samples.thy ===== *)
theory Samples
  imports Prelude "HOL-Library.Signed_Division"
begin

text \<open>
  Samples on the wire and what is measured of them: \<^verbatim>\<open>ddd-gui/src/capture/sample_format.h\<close>,
  \<^verbatim>\<open>sample_metrics.h\<close> and \<^verbatim>\<open>sample_metrics.cpp\<close>. Counts and sums, which the source keeps in 64 bits
  and says why that is enough, are natural numbers; a root mean square is the pair it is the root
  of the quotient of.
\<close>

abbreviation (input) kBytesPerSample :: nat where "kBytesPerSample \<equiv> 2"
abbreviation (input) kMinimumSampleValue :: u16 where "kMinimumSampleValue \<equiv> 0"
abbreviation (input) kMaximumSampleValue :: u16 where "kMaximumSampleValue \<equiv> 1023"
abbreviation (input) kSampleZeroOffset :: int where "kSampleZeroOffset \<equiv> 512"
abbreviation (input) kSampleScale :: int where "kSampleScale \<equiv> 64"
abbreviation (input) kSampleValueMask :: u16 where "kSampleValueMask \<equiv> 0x03FF"
abbreviation (input) kSequenceCounterShift :: nat where "kSequenceCounterShift \<equiv> 10"
abbreviation (input) kSequenceCounterHighByteShift :: nat where "kSequenceCounterHighByteShift \<equiv> 2"
abbreviation (input) kSampleValueHighByteMask :: byte where "kSampleValueHighByteMask \<equiv> 0x03"
abbreviation (input) kSequenceCounterValues :: nat where "kSequenceCounterValues \<equiv> 63"
abbreviation (input) kSamplesPerSequenceCounter :: nat where "kSamplesPerSequenceCounter \<equiv> 65535"
abbreviation (input) kLegacySamplesPerSequenceCounter :: nat where
  "kLegacySamplesPerSequenceCounter \<equiv> 65536"
abbreviation (input) kMaximumSamplesPerSequenceCounter :: nat where
  "kMaximumSamplesPerSequenceCounter \<equiv> 65536"

definition IsKnownSamplesPerSequenceCounter :: "nat \<Rightarrow> bool" where
  "IsKnownSamplesPerSequenceCounter samples \<longleftrightarrow>
     samples = kSamplesPerSequenceCounter \<or> samples = kLegacySamplesPerSequenceCounter"

definition SampleValueFromWord :: "u16 \<Rightarrow> u16" where
  "SampleValueFromWord w = w AND kSampleValueMask"

definition SequenceCounterFromWord :: "u16 \<Rightarrow> byte" where
  "SequenceCounterFromWord w = ucast (drop_bit kSequenceCounterShift w)"

definition MakeWireWord :: "u16 \<Rightarrow> byte \<Rightarrow> u16" where
  "MakeWireWord sample_value sequence_counter =
     (sample_value AND kSampleValueMask) OR push_bit kSequenceCounterShift (ucast sequence_counter)"

definition ToSigned16Bit :: "int \<Rightarrow> int" where
  "ToSigned16Bit ten_bit_value = signed_take_bit 15 ((ten_bit_value - kSampleZeroOffset) * kSampleScale)"

definition ToTenBit :: "int \<Rightarrow> int" where
  "ToTenBit signed_value = (signed_value sdiv kSampleScale) + kSampleZeroOffset"

lemma wire_word_value: "SampleValueFromWord (MakeWireWord v c) = v AND 0x3FF"
proof (rule bit_word_eqI)
  fix n :: nat
  assume "n < LENGTH(16)"
  have m: "(0x3FF :: u16) = mask 10" by (simp add: mask_eq_exp_minus_1)
  show "bit (SampleValueFromWord (MakeWireWord v c)) n = bit (v AND 0x3FF) n"
    unfolding SampleValueFromWord_def MakeWireWord_def m
    by (auto simp: bit_and_iff bit_or_iff bit_push_bit_iff bit_mask_iff)
qed

lemma wire_word_counter: "c < 64 \<Longrightarrow> SequenceCounterFromWord (MakeWireWord v c) = c"
proof -
  assume "c < 64"
  then have c: "c = take_bit 6 c" by (simp add: take_bit_eq_mod word_mod_less_divisor mod_word_less)
  have m: "(0x3FF :: u16) = mask 10" by (simp add: mask_eq_exp_minus_1)
  show ?thesis
  proof (rule bit_word_eqI)
    fix n :: nat
    assume "n < LENGTH(8)"
    then show "bit (SequenceCounterFromWord (MakeWireWord v c)) n = bit c n"
      unfolding SequenceCounterFromWord_def MakeWireWord_def m
      by (subst (2) c)
        (auto simp: bit_ucast_iff bit_drop_bit_eq bit_and_iff bit_or_iff bit_push_bit_iff bit_mask_iff
          bit_take_bit_iff)
  qed
qed

lemma ten_bit_roundtrip: "0 \<le> v \<Longrightarrow> v < 1024 \<Longrightarrow> ToTenBit (ToSigned16Bit v) = v"
proof -
  assume v: "0 \<le> v" "v < 1024"
  then have "signed_take_bit 15 ((v - 512) * 64) = (v - 512) * 64"
    by (intro signed_take_bit_int_eq_self) simp_all
  moreover have "(d * 64) sdiv 64 = d" for d :: int
    by (cases "0 \<le> d") (auto simp: signed_divide_int_def sgn_if abs_if)
  ultimately show ?thesis by (simp add: ToTenBit_def ToSigned16Bit_def del: left_diff_distrib_numeral)
qed

subsection \<open>Tallies\<close>

record BufferTally =
  sample_count :: nat
  minimum_value :: u16
  maximum_value :: u16
  clipped_low_count :: nat
  clipped_high_count :: nat
  sum_of_squares :: nat

definition empty_tally :: BufferTally where
  "empty_tally = \<lparr>sample_count = 0, minimum_value = 0xFFFF, maximum_value = 0, clipped_low_count = 0,
     clipped_high_count = 0, sum_of_squares = 0\<rparr>"

definition measure_sample :: "u16 \<Rightarrow> BufferTally \<Rightarrow> BufferTally" where
  "measure_sample value t =
     \<lparr>sample_count = sample_count t + 1,
      minimum_value = min (minimum_value t) value,
      maximum_value = max (maximum_value t) value,
      clipped_low_count = (if value = kMinimumSampleValue then clipped_low_count t + 1 else clipped_low_count t),
      clipped_high_count = (if value = kMinimumSampleValue then clipped_high_count t
        else if value = kMaximumSampleValue then clipped_high_count t + 1 else clipped_high_count t),
      sum_of_squares = sum_of_squares t
        + nat ((int (unat value) - kSampleZeroOffset) * (int (unat value) - kSampleZeroOffset))\<rparr>"

record SampleMetrics =
  sm_total :: BufferTally
  sm_recent :: BufferTally
  sm_capture :: BufferTally
  sm_capturing :: bool

definition merge_tally :: "BufferTally \<Rightarrow> BufferTally \<Rightarrow> BufferTally" where
  "merge_tally s t =
     \<lparr>sample_count = sample_count s + sample_count t,
      minimum_value = min (minimum_value s) (minimum_value t),
      maximum_value = max (maximum_value s) (maximum_value t),
      clipped_low_count = clipped_low_count s + clipped_low_count t,
      clipped_high_count = clipped_high_count s + clipped_high_count t,
      sum_of_squares = sum_of_squares s + sum_of_squares t\<rparr>"

definition metrics_Reset :: SampleMetrics where
  "metrics_Reset = \<lparr>sm_total = empty_tally, sm_recent = empty_tally, sm_capture = empty_tally,
     sm_capturing = False\<rparr>"

definition Accumulate :: "BufferTally \<Rightarrow> SampleMetrics \<Rightarrow> SampleMetrics" where
  "Accumulate tally m =
     (if sample_count tally = 0 then m
      else let m = m\<lparr>sm_total := merge_tally (sm_total m) tally, sm_recent := tally\<rparr>
      in if sm_capturing m then m\<lparr>sm_capture := merge_tally (sm_capture m) tally\<rparr> else m)"

definition BeginCaptureSpan :: "SampleMetrics \<Rightarrow> SampleMetrics" where
  "BeginCaptureSpan m = m\<lparr>sm_capture := empty_tally, sm_capturing := True\<rparr>"

definition EndCaptureSpan :: "SampleMetrics \<Rightarrow> SampleMetrics" where
  "EndCaptureSpan m = m\<lparr>sm_capturing := False\<rparr>"

record figures =
  fig_sample_count :: nat
  fig_minimum_value :: u16
  fig_maximum_value :: u16
  fig_clipped_low_count :: nat
  fig_clipped_high_count :: nat
  fig_mean_square :: "(nat \<times> nat) option"

definition RootMeanSquare :: "nat \<Rightarrow> nat \<Rightarrow> (nat \<times> nat) option" where
  "RootMeanSquare squares n = (if n = 0 then None else Some (squares, n))"

definition figures_of :: "BufferTally \<Rightarrow> figures" where
  "figures_of t = \<lparr>fig_sample_count = sample_count t,
     fig_minimum_value = (if sample_count t = 0 then 0 else minimum_value t),
     fig_maximum_value = maximum_value t, fig_clipped_low_count = clipped_low_count t,
     fig_clipped_high_count = clipped_high_count t,
     fig_mean_square = RootMeanSquare (sum_of_squares t) (sample_count t)\<rparr>"

definition metrics_Snapshot :: "SampleMetrics \<Rightarrow> figures \<times> figures \<times> figures" where
  "metrics_Snapshot m = (figures_of (sm_total m), figures_of (sm_recent m), figures_of (sm_capture m))"

text \<open>A tally is that of a list of values, whatever buffers they came in.\<close>

definition tally_of :: "u16 list \<Rightarrow> BufferTally" where
  "tally_of vs = fold measure_sample vs empty_tally"

lemma merge_tally_assoc: "merge_tally (merge_tally s t) u = merge_tally s (merge_tally t u)"
  by (simp add: merge_tally_def min.assoc max.assoc)

lemma u16_top [simp]: "min x 0xFFFF = (x :: u16)" "min 0xFFFF x = x" "max x 0 = x" "max 0 x = x"
  using unat_less_u16 [of x] by (auto simp add: min_def max_def word_le_nat_alt word_unat_eq_iff simp del: unat_less_u16)

lemma merge_tally_empty [simp]: "merge_tally t empty_tally = t"
  by (simp add: merge_tally_def empty_tally_def)

lemma measure_sample_merge: "measure_sample v t = merge_tally t (measure_sample v empty_tally)"
  by (simp add: merge_tally_def measure_sample_def empty_tally_def)

lemma fold_measure: "fold measure_sample vs t = merge_tally t (tally_of vs)"
proof (induction vs arbitrary: t)
  case Nil
  show ?case by (simp add: tally_of_def)
next
  case (Cons v vs)
  have "fold measure_sample (v # vs) t = merge_tally (merge_tally t (measure_sample v empty_tally)) (tally_of vs)"
    using Cons.IH [of "measure_sample v t"] by (simp flip: measure_sample_merge)
  also have "\<dots> = merge_tally t (tally_of (v # vs))"
    using Cons.IH [of "measure_sample v empty_tally"] by (simp only: merge_tally_assoc tally_of_def fold_simps)
  finally show ?case .
qed

lemma merge_measure: "merge_tally (measure_sample w u) (tally_of ws) = merge_tally u (tally_of (w # ws))"
  using fold_measure [of "w # ws" u] fold_measure [of ws "measure_sample w u"] by simp

lemma merge_tally_of: "merge_tally (tally_of vs) (tally_of ws) = tally_of (vs @ ws)"
  using fold_measure [of ws "tally_of vs"] by (simp add: tally_of_def)

end
