(* ===== verification/SequenceValidator.thy ===== *)
theory SequenceValidator
  imports Samples
begin

text \<open>
  The check that a capture is bit-perfect: \<^verbatim>\<open>ddd-gui/src/capture/sequence_validator.h\<close> and
  \<^verbatim>\<open>sequence_validator.cpp\<close>. \<open>Process\<close> takes a buffer as it came off the wire and yields it with
  the markers stripped, the validator after it and the outcome. The lemmas reduce what it does to a
  buffer to the counters and the values of its words.
\<close>

datatype SequenceState = kSynchronising | kRunning | kDisabled | kFailed

record SequenceValidator =
  sv_state :: SequenceState
  counter_value :: byte
  run_length :: nat
  samples_per_counter :: nat

record Outcome =
  outcome_ok :: bool
  outcome_tally :: BufferTally
  mismatch_sample_index :: nat
  expected_counter :: byte
  actual_counter :: byte
  synchronised_here :: bool
  synchronisation_sample_index :: nat
  outcome_first_counter :: byte
  samples_expected_remaining :: nat

definition fresh_outcome :: Outcome where
  "fresh_outcome = \<lparr>outcome_ok = True, outcome_tally = empty_tally, mismatch_sample_index = 0,
     expected_counter = 0, actual_counter = 0, synchronised_here = False,
     synchronisation_sample_index = 0, outcome_first_counter = 0, samples_expected_remaining = 0\<rparr>"

definition NextCounterValue :: "byte \<Rightarrow> byte" where
  "NextCounterValue value =
     (let nxt = ucast value + 1 :: u32
      in ucast (if of_nat kSequenceCounterValues \<le> nxt then 0 else nxt))"

definition validator_Reset :: SequenceValidator where
  "validator_Reset = \<lparr>sv_state = kSynchronising, counter_value = 0, run_length = 0,
     samples_per_counter = 0\<rparr>"

definition synchronised :: "SequenceValidator \<Rightarrow> bool" where
  "synchronised v \<longleftrightarrow> sv_state v \<noteq> kSynchronising"

definition counter_at :: "byte list \<Rightarrow> nat \<Rightarrow> byte" where
  "counter_at buf index = drop_bit kSequenceCounterHighByteShift (buf ! (index * kBytesPerSample + 1))"

text \<open>Acquiring the lock: the validator, where validation starts and the outcome so far.\<close>

definition synchronise :: "byte list \<Rightarrow> SequenceValidator \<Rightarrow> SequenceValidator \<times> nat \<times> Outcome" where
  "synchronise buf v =
     (let sample_count = length buf div kBytesPerSample;
          first_counter = drop_bit kSequenceCounterHighByteShift (buf ! 1);
          out = fresh_outcome\<lparr>outcome_first_counter := first_counter\<rparr>;
          search_limit = min sample_count (kMaximumSamplesPerSequenceCounter + 1)
      in case List.find (\<lambda>index. counter_at buf index \<noteq> first_counter) [1..<search_limit] of
           Some index \<Rightarrow>
             (v\<lparr>sv_state := kRunning, counter_value := counter_at buf index, run_length := 0\<rparr>, index,
              out\<lparr>synchronised_here := True, synchronisation_sample_index := index\<rparr>)
         | None \<Rightarrow> (v\<lparr>sv_state := kDisabled\<rparr>, 0, out))"

text \<open>
  The check of one counter against the run it continues or ends. A mismatch is the counter that was
  expected, the samples still expected of the run, and the failed validator.
\<close>

definition check_sample ::
    "byte \<Rightarrow> SequenceValidator \<times> nat \<Rightarrow> (byte \<times> nat \<times> SequenceValidator) + (SequenceValidator \<times> nat)" where
  "check_sample counter s = (case s of (v, run_limit) \<Rightarrow>
     if counter = counter_value v then
       (let v = v\<lparr>run_length := run_length v + 1\<rparr>
        in if run_limit < run_length v
           then Inl (NextCounterValue (counter_value v), 0, v\<lparr>sv_state := kFailed\<rparr>)
           else Inr (v, run_limit))
     else if counter = NextCounterValue (counter_value v)
         \<and> (if samples_per_counter v \<noteq> 0 then run_length v = samples_per_counter v
            else IsKnownSamplesPerSequenceCounter (run_length v)) then
       (let (v, run_limit) = (if samples_per_counter v = 0
              then (v\<lparr>samples_per_counter := run_length v\<rparr>, run_length v) else (v, run_limit))
        in Inr (v\<lparr>counter_value := counter, run_length := 1\<rparr>, run_limit))
     else Inl (counter_value v, run_limit - run_length v, v\<lparr>sv_state := kFailed\<rparr>))"

fun process_samples ::
    "bool \<Rightarrow> nat \<Rightarrow> nat \<Rightarrow> byte list \<Rightarrow> SequenceValidator \<times> nat \<Rightarrow> Outcome
     \<Rightarrow> byte list \<times> SequenceValidator \<times> Outcome" where
  "process_samples checking validate_from index (low # high_byte # rest) s out =
     (let counter = drop_bit kSequenceCounterHighByteShift high_byte
      in case (if checking \<and> validate_from \<le> index then check_sample counter s else Inr s) of
           Inl (expected, remaining, v) \<Rightarrow>
             (low # high_byte # rest, v,
              out\<lparr>outcome_ok := False, mismatch_sample_index := index, expected_counter := expected,
                 actual_counter := counter, samples_expected_remaining := remaining\<rparr>)
         | Inr s' \<Rightarrow>
             (let high = high_byte AND kSampleValueHighByteMask;
                  value = ucast low OR push_bit 8 (ucast high) :: u16;
                  (stripped, v, out') = process_samples checking validate_from (index + 1) rest s'
                    (out\<lparr>outcome_tally := measure_sample value (outcome_tally out)\<rparr>)
              in (low # high # stripped, v, out')))"
| "process_samples checking validate_from index buf s out = (buf, fst s, out)"

definition Process :: "byte list \<Rightarrow> SequenceValidator \<Rightarrow> byte list \<times> SequenceValidator \<times> Outcome" where
  "Process buf v =
     (if length buf div kBytesPerSample = 0 then (buf, v, fresh_outcome)
      else if sv_state v = kFailed then (buf, v, fresh_outcome\<lparr>outcome_ok := False\<rparr>)
      else let (v, validate_from, out) =
                 (if sv_state v = kSynchronising then synchronise buf v else (v, 0, fresh_outcome));
               run_limit = (if samples_per_counter v \<noteq> 0 then samples_per_counter v
                            else kMaximumSamplesPerSequenceCounter)
        in process_samples (sv_state v = kRunning) validate_from 0 buf (v, run_limit) out)"

subsection \<open>Words of a buffer\<close>

fun words_of :: "byte list \<Rightarrow> u16 list" where
  "words_of (l # h # bs) = (ucast l OR push_bit 8 (ucast h)) # words_of bs"
| "words_of bs = []"

fun strip_markers :: "byte list \<Rightarrow> byte list" where
  "strip_markers (l # h # bs) = l # (h AND 0x03) # strip_markers bs"
| "strip_markers bs = bs"

definition counters_of :: "byte list \<Rightarrow> byte list" where
  "counters_of buf = map SequenceCounterFromWord (words_of buf)"

definition values_of :: "byte list \<Rightarrow> u16 list" where
  "values_of buf = map SampleValueFromWord (words_of buf)"

lemma length_words_of [simp]: "length (words_of buf) = length buf div 2"
  by (induction buf rule: words_of.induct) simp_all

lemma length_counters_of [simp]: "length (counters_of buf) = length buf div 2"
  by (simp add: counters_of_def)

lemma length_values_of [simp]: "length (values_of buf) = length buf div 2"
  by (simp add: values_of_def)

lemma length_strip_markers [simp]: "length (strip_markers buf) = length buf"
  by (induction buf rule: strip_markers.induct) simp_all

lemma counter_of_bytes:
  "SequenceCounterFromWord (ucast (l :: byte) OR push_bit 8 (ucast (h :: byte))) = drop_bit 2 h"
  by (rule bit_word_eqI)
    (auto simp: SequenceCounterFromWord_def bit_or_iff bit_push_bit_iff bit_drop_bit_eq bit_ucast_iff
      dest: byte_bit_less)

lemma value_of_bytes:
  "(ucast (l :: byte) OR push_bit 8 (ucast ((h :: byte) AND 0x03)) :: u16)
     = SampleValueFromWord (ucast l OR push_bit 8 (ucast h))"
proof (rule bit_word_eqI)
  fix n :: nat
  assume "n < LENGTH(16)"
  have m: "(0x3FF :: u16) = mask 10" "(0x03 :: byte) = mask 2" by (simp_all add: mask_eq_exp_minus_1)
  show "bit (ucast l OR push_bit 8 (ucast (h AND 0x03)) :: u16) n
     = bit (SampleValueFromWord (ucast l OR push_bit 8 (ucast h))) n"
    unfolding SampleValueFromWord_def m
    by (auto simp: bit_and_iff bit_or_iff bit_push_bit_iff bit_mask_iff bit_ucast_iff dest: byte_bit_less)
qed

lemma counters_of_Cons [simp]: "counters_of (l # h # bs) = drop_bit 2 h # counters_of bs"
  by (simp add: counters_of_def counter_of_bytes)

lemma counters_of_short [simp]: "counters_of [] = []" "counters_of [b] = []"
  by (simp_all add: counters_of_def)

lemma values_of_Cons:
  "values_of (l # h # bs) = (ucast l OR push_bit 8 (ucast (h AND 0x03))) # values_of bs"
  by (simp add: values_of_def value_of_bytes)

lemma values_of_short [simp]: "values_of [] = []" "values_of [b] = []"
  by (simp_all add: values_of_def)

lemma words_of_strip: "words_of (strip_markers buf) = values_of buf"
  by (induction buf rule: strip_markers.induct) (simp_all add: values_of_Cons)

lemma counter_at_nth: "i < length buf div 2 \<Longrightarrow> counter_at buf i = counters_of buf ! i"
proof (induction buf arbitrary: i rule: words_of.induct)
  case (1 l h bs)
  show ?case
  proof (cases i)
    case 0
    then show ?thesis by (simp add: counter_at_def)
  next
    case (Suc j)
    then show ?thesis using "1.IH" [of j] "1.prems" by (simp add: counter_at_def)
  qed
qed simp_all

lemma words_of_append: "even (length a) \<Longrightarrow> words_of (a @ b) = words_of a @ words_of b"
  by (induction a rule: words_of.induct) simp_all

lemma words_of_wire: "words_of (concat (map bytes_le16 ws)) = ws"
proof (induction ws)
  case (Cons w ws)
  have "(ucast (ucast w :: byte) OR push_bit 8 (ucast (ucast (drop_bit 8 w) :: byte)) :: u16) = w"
  proof (rule bit_word_eqI)
    fix n :: nat
    assume "n < LENGTH(16)"
    then show "bit (ucast (ucast w :: byte) OR push_bit 8 (ucast (ucast (drop_bit 8 w) :: byte)) :: u16) n
       = bit w n"
      by (cases "n < 8") (auto simp: bit_or_iff bit_push_bit_iff bit_drop_bit_eq bit_ucast_iff)
  qed
  then show ?case using Cons.IH by (simp add: bytes_le16_def)
qed simp

subsection \<open>A buffer as its counters and its values\<close>

fun check_counters ::
    "byte list \<Rightarrow> SequenceValidator \<times> nat \<Rightarrow> (byte \<times> nat \<times> SequenceValidator) + (SequenceValidator \<times> nat)" where
  "check_counters [] s = Inr s"
| "check_counters (c # cs) s = (case check_sample c s of Inl e \<Rightarrow> Inl e | Inr s' \<Rightarrow> check_counters cs s')"

lemma check_counters_append:
  "check_counters (cs @ ds) s = (case check_counters cs s of Inl e \<Rightarrow> Inl e | Inr s' \<Rightarrow> check_counters ds s')"
  by (induction cs arbitrary: s) (auto split: sum.splits)

lemma drop_Suc_diff: "i < from \<Longrightarrow> drop (from - i) (x # xs) = drop (from - (i + 1)) xs"
proof -
  assume "i < from"
  then have "from - i = Suc (from - (i + 1))" by arith
  then show ?thesis by simp
qed

lemma process_samples_ok:
  "check_counters (if checking then drop (from - i) (counters_of buf) else []) s = Inr s' \<Longrightarrow>
   process_samples checking from i buf s out =
     (strip_markers buf, fst s',
      out\<lparr>outcome_tally := merge_tally (outcome_tally out) (tally_of (values_of buf))\<rparr>)"
proof (induction buf arbitrary: i s out rule: words_of.induct)
  case (1 l h bs)
  define w :: u16 where "w = ucast l OR push_bit 8 (ucast (h AND 0x03))"
  have v: "values_of (l # h # bs) = w # values_of bs" by (simp add: values_of_Cons w_def)
  show ?case
  proof (cases "checking \<and> from \<le> i")
    case True
    then obtain s1 where s1: "check_sample (drop_bit 2 h) s = Inr s1"
        and r: "check_counters (counters_of bs) s1 = Inr s'"
      using "1.prems" by (auto split: sum.splits)
    have "check_counters (if checking then drop (from - (i + 1)) (counters_of bs) else []) s1 = Inr s'"
      using True r by simp
    from "1.IH" [OF this] show ?thesis
      using True by (simp add: s1 v Let_def merge_measure flip: w_def)
  next
    case False
    then have "check_counters (if checking then drop (from - (i + 1)) (counters_of bs) else []) s = Inr s'"
      using "1.prems" by (auto simp: not_le drop_Suc_diff)
    from "1.IH" [OF this] show ?thesis
      by (cases "checking") (use False in \<open>simp_all add: v Let_def merge_measure flip: w_def\<close>)
  qed
qed (auto simp: tally_of_def split: if_splits)

lemma process_samples_mismatch:
  assumes "from - i \<le> k" and "k < length (counters_of buf)"
    and "check_counters (drop (from - i) (take k (counters_of buf))) s = Inr s'"
    and "check_sample (counters_of buf ! k) s' = Inl (e, r, v)"
  shows "process_samples True from i buf s out =
     (strip_markers (take (2 * k) buf) @ drop (2 * k) buf, v,
      out\<lparr>outcome_tally := merge_tally (outcome_tally out) (tally_of (take k (values_of buf))),
         outcome_ok := False, mismatch_sample_index := i + k, expected_counter := e,
         actual_counter := counters_of buf ! k, samples_expected_remaining := r\<rparr>)"
  using assms
proof (induction buf arbitrary: i k s out rule: words_of.induct)
  case (1 l h bs)
  define w :: u16 where "w = ucast l OR push_bit 8 (ucast (h AND 0x03))"
  have v: "values_of (l # h # bs) = w # values_of bs" by (simp add: values_of_Cons w_def)
  show ?case
  proof (cases k)
    case 0
    then show ?thesis using "1.prems" by (simp add: tally_of_def)
  next
    case (Suc j)
    show ?thesis
    proof (cases "from \<le> i")
      case True
      then obtain s1 where s1: "check_sample (drop_bit 2 h) s = Inr s1"
          and q: "check_counters (drop (from - (i + 1)) (take j (counters_of bs))) s1 = Inr s'"
        using "1.prems"(3) Suc by (auto split: sum.splits)
      have "from - (i + 1) \<le> j" "j < length (counters_of bs)"
          "check_sample (counters_of bs ! j) s' = Inl (e, r, v)"
        using "1.prems" Suc True by simp_all
      from "1.IH" [OF this(1,2) q this(3)] show ?thesis
        using True Suc by (simp add: s1 v Let_def merge_measure flip: w_def)
    next
      case False
      then have "from - (i + 1) \<le> j" "j < length (counters_of bs)"
          "check_counters (drop (from - (i + 1)) (take j (counters_of bs))) s = Inr s'"
          "check_sample (counters_of bs ! j) s' = Inl (e, r, v)"
        using "1.prems" Suc by (auto simp: not_le drop_Suc_diff)
      from "1.IH" [OF this] show ?thesis
        using False Suc by (simp add: v Let_def merge_measure flip: w_def)
    qed
  qed
qed simp_all

end
