(* ===== verification/CounterStreams.thy ===== *)
theory CounterStreams
  imports SequenceValidator
begin

text \<open>
  Which streams the sequence validator accepts (\<^verbatim>\<open>sequence_validator.cpp\<close>): a stream of counters
  passes exactly when it advances once every block of 65535 or of 65536 samples, a stream the gateware
  sent passes however it is cut into buffers, and a stream with a hole in it passes exactly when the
  hole is a whole number of periods.
\<close>

subsection \<open>The streams that are accepted\<close>

definition counter_after :: "nat \<Rightarrow> byte \<Rightarrow> nat \<Rightarrow> byte" where
  "counter_after B c i = (NextCounterValue ^^ (i div B)) c"

definition limit_of :: "SequenceValidator \<Rightarrow> nat" where
  "limit_of v = (if samples_per_counter v \<noteq> 0 then samples_per_counter v
     else kMaximumSamplesPerSequenceCounter)"

definition advances :: "nat \<Rightarrow> byte \<Rightarrow> byte list \<Rightarrow> bool" where
  "advances B c cs \<longleftrightarrow> (\<forall>i<length cs. cs ! i = counter_after B c i)"

lemma unat_NextCounterValue:
  "unat (NextCounterValue c) = (if 62 \<le> unat c then 0 else unat c + 1)"
proof -
  have "unat (ucast c + 1 :: u32) = unat c + 1"
    by (subst unat_plus_le) (use unat_less_byte [of c] in \<open>simp_all del: unat_less_byte\<close>)
  then show ?thesis
    using unat_less_byte [of c]
    by (auto simp: NextCounterValue_def Let_def word_le_nat_alt unsigned_ucast_eq take_bit_nat_eq_self
      simp del: unat_less_byte)
qed

lemma NextCounterValue_neq [simp]: "NextCounterValue c \<noteq> c" "c \<noteq> NextCounterValue c"
proof -
  have "unat (NextCounterValue c) \<noteq> unat c" by (auto simp: unat_NextCounterValue)
  then show "NextCounterValue c \<noteq> c" "c \<noteq> NextCounterValue c" by (metis | metis)+
qed

lemma counter_after_first [simp]: "i < B \<Longrightarrow> counter_after B c i = c"
  by (simp add: counter_after_def)

lemma counter_after_block:
  "j < B \<Longrightarrow> counter_after B c (q * B + j) = (NextCounterValue ^^ q) c"
  by (simp add: counter_after_def)

lemma counter_after_next [simp]: "0 < B \<Longrightarrow> counter_after B c (Suc q * B) = NextCounterValue ((NextCounterValue ^^ q) c)"
  using counter_after_block [of 0 B c "Suc q"] by simp

text \<open>What the validator knows after accepting the counters \<open>cs\<close>, the first of which was \<open>c\<close>.\<close>

definition locked :: "byte \<Rightarrow> byte list \<Rightarrow> SequenceValidator \<Rightarrow> bool" where
  "locked c cs v \<longleftrightarrow> sv_state v = kRunning \<and>
     (samples_per_counter v = 0 \<and> run_length v = length cs \<and> length cs \<le> 65536
        \<and> counter_value v = c \<and> (\<forall>i<length cs. cs ! i = c)
      \<or> (\<exists>q. samples_per_counter v \<in> {65535, 65536} \<and> 0 < q \<and> 0 < run_length v
           \<and> run_length v \<le> samples_per_counter v
           \<and> length cs = q * samples_per_counter v + run_length v
           \<and> counter_value v = (NextCounterValue ^^ q) c
           \<and> advances (samples_per_counter v) c cs))"

lemma advances_snoc:
  "advances B c (cs @ [x]) \<longleftrightarrow> advances B c cs \<and> x = counter_after B c (length cs)"
  by (auto simp: advances_def nth_append less_Suc_eq)

lemma advances_prefix: "advances B c (a @ b) \<Longrightarrow> advances B c a"
proof (unfold advances_def, intro allI impI)
  fix i
  assume "\<forall>i<length (a @ b). (a @ b) ! i = counter_after B c i" "i < length a"
  then show "a ! i = counter_after B c i" by (auto simp: nth_append dest: spec [of _ i])
qed

lemma advances_unique:
  assumes "advances B c cs" "advances B' c cs" "B < length cs" "B' < length cs" "0 < B" "0 < B'"
  shows "B = B'"
proof (rule ccontr)
  assume "B \<noteq> B'"
  moreover have False if "advances A c cs" "advances A' c cs" "A < length cs" "0 < A" "A < A'" for A A'
  proof -
    have "cs ! A = NextCounterValue c" using that counter_after_next [of A c 0] by (simp add: advances_def)
    moreover have "cs ! A = c" using that by (simp add: advances_def)
    ultimately show False by simp
  qed
  ultimately show False using assms by (metis linorder_neqE_nat)
qed

lemma locked_step:
  assumes "locked c cs v" and "cs \<noteq> []"
  shows "case check_sample x (v, limit_of v) of
      Inr (v', limit) \<Rightarrow> locked c (cs @ [x]) v' \<and> limit = limit_of v'
    | Inl _ \<Rightarrow> \<not> advances 65535 c (cs @ [x]) \<and> \<not> advances 65536 c (cs @ [x])"
proof (cases "samples_per_counter v = 0")
  case True
  then have v: "run_length v = length cs" "length cs \<le> 65536" "counter_value v = c"
      "\<forall>i<length cs. cs ! i = c" "sv_state v = kRunning" "limit_of v = 65536"
    using assms(1) by (auto simp: locked_def limit_of_def)
  have nxt: "counter_after B c B = NextCounterValue c" if "0 < B" for B
    using counter_after_next [OF that, of c 0] by simp
  consider "x = c" "length cs < 65536" | "x = c" "length cs = 65536"
    | "x = NextCounterValue c" "length cs = 65535 \<or> length cs = 65536"
    | "x = NextCounterValue c" "length cs < 65535" | "x \<noteq> c" "x \<noteq> NextCounterValue c"
    using v(2) by linarith
  then show ?thesis
  proof cases
    case 1
    then show ?thesis using v True
      by (auto simp: check_sample_def locked_def limit_of_def nth_append less_Suc_eq)
  next
    case 2
    have "counter_after 65535 c 65536 = NextCounterValue c"
      using counter_after_block [of 1 65535 c 1] by simp
    then show ?thesis using v True 2 nxt [of 65536]
      by (auto simp: check_sample_def advances_snoc)
  next
    case 3
    define B where "B = length cs"
    have "advances B c (cs @ [x])" using v(4) 3 nxt [of B] assms(2)
      by (auto simp: advances_def nth_append less_Suc_eq B_def)
    moreover have "check_sample x (v, limit_of v) = Inr (v\<lparr>samples_per_counter := B, counter_value := x,
        run_length := 1\<rparr>, B)"
      using 3 v True by (simp add: check_sample_def IsKnownSamplesPerSequenceCounter_def B_def)
    ultimately show ?thesis using 3 v True assms(2)
      by (auto simp: locked_def limit_of_def B_def intro!: exI [of _ 1])
  next
    case 4
    then have "counter_after 65535 c (length cs) = c" "counter_after 65536 c (length cs) = c" by simp_all
    then show ?thesis using v True 4
      by (simp add: check_sample_def IsKnownSamplesPerSequenceCounter_def advances_snoc)
  next
    case 5
    have "counter_after B c (length cs) \<in> {c, NextCounterValue c}" if "length cs div B \<le> 1" for B
      using that by (cases "length cs div B") (auto simp: counter_after_def)
    from this [of 65535] this [of 65536] show ?thesis
      using div_le_mono [OF v(2), of 65535] div_le_mono [OF v(2), of 65536] True 5 v(3)
      by (auto simp: check_sample_def advances_snoc)
  qed
next
  case False
  then obtain q where v: "samples_per_counter v \<in> {65535, 65536}" "0 < q" "0 < run_length v"
      "run_length v \<le> samples_per_counter v" "length cs = q * samples_per_counter v + run_length v"
      "counter_value v = (NextCounterValue ^^ q) c" "advances (samples_per_counter v) c cs"
      "sv_state v = kRunning"
    using assms(1) by (auto simp: locked_def)
  define B where "B = samples_per_counter v"
  have B: "B \<in> {65535, 65536}" "0 < B" using v(1) by (auto simp: B_def)
  have lim: "limit_of v = B" using False by (simp add: limit_of_def B_def)
  have long: "65536 < length cs \<or> B = 65535 \<and> length cs = 65536"
    using v(2,3,5) B(1) unfolding B_def [symmetric] by (cases q) auto
  have only: "B' = B" if "advances B' c (cs @ [x])" "B' \<in> {65535, 65536}" for B'
  proof (rule ccontr)
    assume n: "B' \<noteq> B"
    have a: "advances B' c cs" "advances B c cs" using that v(7) by (simp_all add: advances_snoc B_def)
    have "cs ! 65535 = counter_after B' c 65535" "cs ! 65535 = counter_after B c 65535"
      using a long by (auto simp: advances_def)
    then show False using that(2) B(1) n counter_after_next [of 65535 c 0] by auto
  qed
  have here: "counter_after B c (length cs) = (if run_length v = B then NextCounterValue (counter_value v)
      else counter_value v)"
    using v(4-6) B(2) counter_after_next [of B c q] counter_after_block [of "run_length v" B c q]
    unfolding B_def [symmetric] by (auto simp: algebra_simps)
  show ?thesis
  proof (cases "x = counter_after B c (length cs)")
    case True
    have adv: "advances B c (cs @ [x])" using v(7) True by (simp add: advances_snoc B_def)
    show ?thesis
    proof (cases "run_length v = B")
      case True
      with \<open>x = counter_after B c (length cs)\<close> here have x: "x = NextCounterValue (counter_value v)" by simp
      then have "check_sample x (v, limit_of v) = Inr (v\<lparr>counter_value := x, run_length := 1\<rparr>, B)"
        using True False lim by (simp add: check_sample_def B_def)
      then show ?thesis using True x v adv B
        by (auto simp: locked_def limit_of_def B_def intro!: exI [of _ "Suc q"])
    next
      case neq: False
      with True here have x: "x = counter_value v" by simp
      then have "check_sample x (v, limit_of v) = Inr (v\<lparr>run_length := run_length v + 1\<rparr>, B)"
        using neq lim v(4) by (simp add: check_sample_def B_def)
      then show ?thesis using neq x v adv B
        by (auto simp: locked_def limit_of_def B_def intro!: exI [of _ q])
    qed
  next
    case neq: False
    have "\<not> advances B' c (cs @ [x])" if "B' \<in> {65535, 65536}" for B'
    proof
      assume a: "advances B' c (cs @ [x])"
      then show False using only [OF a that] neq by (simp add: advances_snoc)
    qed
    moreover have "\<exists>e. check_sample x (v, limit_of v) = Inl e"
      using neq here False lim v(4) by (auto simp: check_sample_def B_def split: if_splits)
    ultimately show ?thesis by auto
  qed
qed

definition locked_on :: "byte \<Rightarrow> SequenceValidator" where
  "locked_on c = \<lparr>sv_state = kRunning, counter_value = c, run_length = 0, samples_per_counter = 0\<rparr>"

definition accepts :: "byte list \<Rightarrow> bool" where
  "accepts cs \<longleftrightarrow> (\<exists>s. check_counters cs (locked_on (hd cs), limit_of (locked_on (hd cs))) = Inr s)"

lemma locked_prefix:
  "check_counters cs (v, limit_of v) = Inr s \<Longrightarrow> locked c ds v \<Longrightarrow> ds \<noteq> [] \<Longrightarrow>
     locked c (ds @ cs) (fst s) \<and> snd s = limit_of (fst s)"
proof (induction cs arbitrary: ds v)
  case (Cons x cs)
  obtain v' where st: "check_sample x (v, limit_of v) = Inr (v', limit_of v')"
      and l: "locked c (ds @ [x]) v'"
    using locked_step [OF Cons.prems(2,3), of x] Cons.prems(1) by (auto split: sum.splits)
  show ?case using Cons.IH [OF _ l] Cons.prems(1) st by simp
qed auto

lemma locked_first:
  "check_sample c (locked_on c, limit_of (locked_on c)) = Inr (locked_on c\<lparr>run_length := Suc 0\<rparr>, 65536)"
  "locked c [c] (locked_on c\<lparr>run_length := Suc 0\<rparr>)"
  "limit_of (locked_on c\<lparr>run_length := Suc 0\<rparr>) = 65536"
  by (simp_all add: check_sample_def locked_on_def limit_of_def locked_def)

lemma locked_reject:
  "check_counters cs (v, limit_of v) = Inl e \<Longrightarrow> locked c ds v \<Longrightarrow> ds \<noteq> [] \<Longrightarrow>
     B \<in> {65535, 65536} \<Longrightarrow> \<not> advances B c (ds @ cs)"
proof (induction cs arbitrary: ds v)
  case (Cons x cs)
  show ?case
  proof (cases "check_sample x (v, limit_of v)")
    case (Inl e')
    then have "\<not> advances B c (ds @ [x])"
      using locked_step [OF Cons.prems(2,3), of x] Cons.prems(4) by auto
    moreover have "advances B c (ds @ [x])" if "advances B c (ds @ x # cs)"
      using advances_prefix [of B c "ds @ [x]" cs] that by simp
    ultimately show ?thesis by blast
  next
    case (Inr s)
    then obtain v' where st: "check_sample x (v, limit_of v) = Inr (v', limit_of v')"
        and l: "locked c (ds @ [x]) v'"
      using locked_step [OF Cons.prems(2,3), of x] by (auto split: sum.splits)
    show ?thesis using Cons.IH [OF _ l _ Cons.prems(4)] Cons.prems(1) st by simp
  qed
qed simp

lemma locked_advances: "locked c cs v \<Longrightarrow> cs \<noteq> [] \<Longrightarrow> advances 65535 c cs \<or> advances 65536 c cs"
proof -
  assume l: "locked c cs v" "cs \<noteq> []"
  show ?thesis
  proof (cases "samples_per_counter v = 0")
    case True
    then have "advances 65536 c cs" using l by (auto simp: locked_def advances_def)
    then show ?thesis ..
  next
    case False
    then show ?thesis using l by (auto simp: locked_def)
  qed
qed

lemma accepts_iff:
  assumes "cs \<noteq> []"
  shows "accepts cs \<longleftrightarrow> advances 65535 (hd cs) cs \<or> advances 65536 (hd cs) cs"
proof -
  obtain c ds where cs: "cs = c # ds" using assms by (cases cs) auto
  define v where "v = locked_on c\<lparr>run_length := Suc 0\<rparr>"
  have red: "check_counters cs (locked_on c, limit_of (locked_on c)) = check_counters ds (v, limit_of v)"
    by (simp add: cs locked_first v_def)
  have l: "locked c [c] v" unfolding v_def by (rule locked_first)
  show ?thesis
  proof (cases "check_counters ds (v, limit_of v)")
    case (Inl e)
    then show ?thesis using red locked_reject [OF Inl l, of 65535] locked_reject [OF Inl l, of 65536]
      by (auto simp: accepts_def cs)
  next
    case (Inr s)
    then show ?thesis
      using red locked_advances [of c "[c] @ ds" "fst s"] locked_prefix [OF Inr l] by (auto simp: accepts_def cs)
  qed
qed

text \<open>
  A loss of \<open>k\<close> samples after more than a block has been seen, with more than a block after it, is
  accepted exactly when it is a whole number of periods.
\<close>

definition with_gap :: "nat \<Rightarrow> byte \<Rightarrow> nat \<Rightarrow> nat \<Rightarrow> nat \<Rightarrow> byte list" where
  "with_gap B c m k n = map (counter_after B c) ([0..<m] @ [m + k..<m + k + n])"

lemma unat_NextCounterValue_mod: "unat c < 63 \<Longrightarrow> unat (NextCounterValue c) = (unat c + 1) mod 63"
  by (cases "unat c = 62") (auto simp: unat_NextCounterValue)

lemma unat_counter_iterate: "unat c < 63 \<Longrightarrow> unat ((NextCounterValue ^^ q) c) = (unat c + q) mod 63"
proof (induction q)
  case (Suc q)
  define d where "d = (NextCounterValue ^^ q) c"
  have d: "unat d = (unat c + q) mod 63" using Suc by (simp add: d_def)
  then have "unat d < 63" by simp
  then have "unat (NextCounterValue d) = ((unat c + q) mod 63 + 1) mod 63"
    by (simp only: unat_NextCounterValue_mod d)
  also have "\<dots> = (unat c + Suc q) mod 63" by presburger
  finally show ?case by (simp add: d_def)
qed simp

lemma mod_add_cancel: "((a :: nat) + q) mod n = (a + r) mod n \<longleftrightarrow> q mod n = r mod n"
proof -
  have "int (a + q) mod int n = int (a + r) mod int n \<longleftrightarrow> int q mod int n = int r mod int n"
    by (simp add: mod_eq_dvd_iff)
  then show ?thesis by (simp flip: of_nat_mod del: of_nat_add)
qed

lemma counter_iterate_eq:
  assumes "unat c < 63"
  shows "(NextCounterValue ^^ q) c = (NextCounterValue ^^ r) c \<longleftrightarrow> q mod 63 = r mod 63"
proof -
  have "(NextCounterValue ^^ q) c = (NextCounterValue ^^ r) c \<longleftrightarrow> (unat c + q) mod 63 = (unat c + r) mod 63"
    using unat_counter_iterate [OF assms] by (metis word_unat_eq_iff)
  also have "\<dots> \<longleftrightarrow> q mod 63 = r mod 63" by (rule mod_add_cancel)
  finally show ?thesis .
qed

lemma block_div: "j < B \<Longrightarrow> (q * B + j) div B = (q :: nat)"
  by simp

lemma whole_periods:
  assumes all: "\<forall>i<m + n. m \<le> i \<longrightarrow> (i + k) div B mod 63 = i div B mod 63"
    and pos: "0 < B" and n: "B < n"
  shows "63 * B dvd (k :: nat)"
proof -
  define p where "p = m div B"
  define d where "d = k div B"
  define r where "r = k mod B"
  have k: "k = d * B + r" "r < B" using pos by (simp_all add: d_def r_def)
  have lo: "m \<le> p * B + (B - 1)"
    using dividend_less_div_times [OF pos, of m] pos by (simp add: p_def)
  have "p * B \<le> m" by (simp add: p_def)
  then have hi: "p * B + B < m + n" using n by simp
  have at: "(p * B + B + k) div B = p + 1 + d"
    using block_div [OF k(2), of "p + 1 + d"] by (simp add: k(1) algebra_simps)
  have before: "(p * B + (B - 1) + k) div B = p + d + (if r = 0 then 0 else 1)"
  proof (cases "r = 0")
    case True
    then show ?thesis using block_div [of "B - 1" B "p + d"] pos by (simp add: k(1) algebra_simps)
  next
    case False
    then have "p * B + (B - 1) + k = (p + d + 1) * B + (r - 1)"
      using pos by (simp add: k(1) add_mult_distrib)
    then show ?thesis using block_div [of "r - 1" B "p + d + 1"] k(2) False by simp
  qed
  have "(p * B + (B - 1)) div B = p" "(p * B + B) div B = p + 1"
    using block_div [of "B - 1" B p] pos by simp_all
  with all [rule_format, of "p * B + B"] all [rule_format, of "p * B + (B - 1)"] lo hi pos at before
  have 1: "(p + 1 + d) mod 63 = (p + 1) mod 63"
    and 2: "(p + d + (if r = 0 then 0 else 1)) mod 63 = p mod 63"
    by simp_all
  have "d mod 63 = 0" using mod_add_cancel [of "p + 1" d 63 0] 1 by simp
  moreover have "r = 0"
  proof (rule ccontr)
    assume "r \<noteq> 0"
    then have "(p + (d + 1)) mod 63 = (p + 0) mod 63" using 2 by simp
    then have "(d + 1) mod 63 = 0 mod 63" unfolding mod_add_cancel .
    with \<open>d mod 63 = 0\<close> show False by presburger
  qed
  ultimately show ?thesis using k(1) by auto
qed

lemma accepts_with_gap:
  assumes B: "B \<in> {65535, 65536}" and c: "unat c < 63" and m: "65536 < m" and n: "B < n"
  shows "accepts (with_gap B c m k n) \<longleftrightarrow> 63 * B dvd k"
proof -
  define cs where "cs = with_gap B c m k n"
  have pos: "0 < B" using B by auto
  have len: "length cs = m + n" by (simp add: cs_def with_gap_def)
  have nth: "cs ! i = counter_after B c (if i < m then i else i + k)" if "i < m + n" for i
    using that by (auto simp: cs_def with_gap_def nth_append ac_simps)
  have "hd cs = cs ! 0" using m len by (simp add: hd_conv_nth flip: length_greater_0_conv)
  then have hd: "hd cs = c" using nth [of 0] m pos by simp
  have ne: "cs \<noteq> []" using len m by auto
  have only: "B' = B" if "advances B' c cs" "B' \<in> {65535, 65536}" for B'
  proof (rule advances_unique [of B' c "take m cs" B])
    show "advances B' c (take m cs)" by (rule advances_prefix [of _ _ _ "drop m cs"]) (simp add: that)
    show "advances B c (take m cs)" using len by (auto simp: advances_def nth)
  qed (use that B m len in auto)
  have acc: "accepts cs \<longleftrightarrow> advances B c cs"
  proof (cases "B = 65535")
    case True
    then have "\<not> advances 65536 c cs" using only [of 65536] by auto
    then show ?thesis by (simp add: accepts_iff [OF ne] hd True)
  next
    case False
    then have "B = 65536" using B by simp
    moreover from this have "\<not> advances 65535 c cs" using only [of 65535] by auto
    ultimately show ?thesis by (simp add: accepts_iff [OF ne] hd)
  qed
  have one: "counter_after B c (if i < m then i else i + k) = counter_after B c i
      \<longleftrightarrow> (m \<le> i \<longrightarrow> (i + k) div B mod 63 = i div B mod 63)" for i
    by (cases "i < m") (simp_all add: counter_after_def counter_iterate_eq [OF c] not_less)
  have "advances B c cs \<longleftrightarrow> (\<forall>i<m + n. counter_after B c (if i < m then i else i + k) = counter_after B c i)"
    using nth by (simp add: advances_def len)
  also have "\<dots> \<longleftrightarrow> (\<forall>i<m + n. m \<le> i \<longrightarrow> (i + k) div B mod 63 = i div B mod 63)"
    unfolding one by simp
  also have "\<dots> \<longleftrightarrow> 63 * B dvd k"
  proof
    assume "63 * B dvd k"
    then obtain j where k: "k = 63 * B * j" by auto
    have "(i + k) div B = i div B + 63 * j" for i
      using pos by (simp add: k mult.assoc mult.left_commute [of _ B])
    then show "\<forall>i<m + n. m \<le> i \<longrightarrow> (i + k) div B mod 63 = i div B mod 63" by simp
  next
    assume "\<forall>i<m + n. m \<le> i \<longrightarrow> (i + k) div B mod 63 = i div B mod 63"
    then show "63 * B dvd k" by (rule whole_periods) (use pos n in simp_all)
  qed
  finally show ?thesis using acc by (simp add: cs_def)
qed

subsection \<open>A capture, buffer by buffer\<close>

lemma check_sample_keeps:
  "check_sample c (v, limit_of v) = Inr (v', l) \<Longrightarrow> sv_state v' = sv_state v \<and> l = limit_of v'"
  by (auto simp: check_sample_def limit_of_def Let_def IsKnownSamplesPerSequenceCounter_def split: if_splits)

lemma check_counters_keeps:
  "check_counters cs (v, limit_of v) = Inr (v', l) \<Longrightarrow> sv_state v' = sv_state v \<and> l = limit_of v'"
proof (induction cs arbitrary: v)
  case (Cons c cs)
  then obtain v1 l1 where 1: "check_sample c (v, limit_of v) = Inr (v1, l1)"
      and r: "check_counters cs (v1, l1) = Inr (v', l)"
    by (auto split: sum.splits)
  show ?case using Cons.IH [of v1] r check_sample_keeps [OF 1] by simp
qed simp

lemma check_counters_Inl:
  "check_counters cs s = Inl x \<Longrightarrow>
     \<exists>k<length cs. \<exists>s'. check_counters (take k cs) s = Inr s' \<and> check_sample (cs ! k) s' = Inl x"
proof (induction cs arbitrary: s)
  case (Cons c cs)
  show ?case
  proof (cases "check_sample c s")
    case (Inl y)
    then have "0 < length (c # cs) \<and> check_counters (take 0 (c # cs)) s = Inr s \<and> check_sample ((c # cs) ! 0) s = Inl x"
      using Cons.prems by simp
    then show ?thesis by blast
  next
    case (Inr s1)
    then obtain k s' where "k < length cs" "check_counters (take k cs) s1 = Inr s'"
        "check_sample (cs ! k) s' = Inl x"
      using Cons.IH [of s1] Cons.prems Inr by auto
    then have "Suc k < length (c # cs) \<and> check_counters (take (Suc k) (c # cs)) s = Inr s'
        \<and> check_sample ((c # cs) ! Suc k) s' = Inl x"
      using Inr by simp
    then show ?thesis by blast
  qed
qed simp

lemma Process_running:
  assumes "sv_state v = kRunning"
  shows "case check_counters (counters_of buf) (v, limit_of v) of
      Inr (v', _) \<Rightarrow> Process buf v =
        (strip_markers buf, v', fresh_outcome\<lparr>outcome_tally := tally_of (values_of buf)\<rparr>)
    | Inl _ \<Rightarrow> \<not> outcome_ok (snd (snd (Process buf v)))"
proof (cases "length buf div 2 = 0")
  case True
  then have "buf = [] \<or> (\<exists>b. buf = [b])" by (cases buf rule: words_of.cases) auto
  then show ?thesis by (auto simp: Process_def tally_of_def fresh_outcome_def)
next
  case long: False
  then have P: "Process buf v = process_samples True 0 0 buf (v, limit_of v) fresh_outcome"
    using assms by (simp add: Process_def limit_of_def)
  show ?thesis
  proof (cases "check_counters (counters_of buf) (v, limit_of v)")
    case (Inl x)
    then obtain k s' where k: "k < length (counters_of buf)"
        "check_counters (take k (counters_of buf)) (v, limit_of v) = Inr s'"
        "check_sample (counters_of buf ! k) s' = Inl x"
      using check_counters_Inl by blast
    obtain e r w where x: "x = (e, r, w)" by (cases x)
    show ?thesis using process_samples_mismatch [of 0 0 k buf "(v, limit_of v)" s' e r w fresh_outcome] k x Inl P
      by simp
  next
    case (Inr s')
    then show ?thesis
      using process_samples_ok [of True 0 0 buf "(v, limit_of v)" s' fresh_outcome] P
      by (cases s') (simp add: fresh_outcome_def merge_tally_def empty_tally_def)
  qed
qed

lemma Process_disabled:
  "sv_state v = kDisabled \<Longrightarrow> Process buf v =
     (strip_markers buf, v, fresh_outcome\<lparr>outcome_tally := tally_of (values_of buf)\<rparr>)"
proof (cases "length buf div 2 = 0")
  case True
  then have "buf = [] \<or> (\<exists>b. buf = [b])" by (cases buf rule: words_of.cases) auto
  then show ?thesis by (auto simp: Process_def tally_of_def fresh_outcome_def)
next
  case False
  assume "sv_state v = kDisabled"
  then show ?thesis
    using False process_samples_ok [of False 0 0 buf "(v, limit_of v)" "(v, limit_of v)" fresh_outcome]
    by (simp add: Process_def limit_of_def fresh_outcome_def merge_tally_def empty_tally_def)
qed

definition first_change :: "byte list \<Rightarrow> nat option" where
  "first_change buf =
     List.find (\<lambda>i. counters_of buf ! i \<noteq> counters_of buf ! 0) [1..<min (length buf div 2) 65537]"

lemma find_upt_Some:
  "List.find P [m..<n] = Some i \<longleftrightarrow> m \<le> i \<and> i < n \<and> P i \<and> (\<forall>j. m \<le> j \<longrightarrow> j < i \<longrightarrow> \<not> P j)"
proof
  assume "List.find P [m..<n] = Some i"
  then obtain k where k: "k < n - m" "P (m + k)" "i = m + k" "\<forall>j<k. \<not> P (m + j)"
    by (auto simp: find_Some_iff)
  moreover have "\<not> P j" if "m \<le> j" "j < i" for j
    using k(4) [rule_format, of "j - m"] that k(3) by simp
  ultimately show "m \<le> i \<and> i < n \<and> P i \<and> (\<forall>j. m \<le> j \<longrightarrow> j < i \<longrightarrow> \<not> P j)" by simp
next
  assume "m \<le> i \<and> i < n \<and> P i \<and> (\<forall>j. m \<le> j \<longrightarrow> j < i \<longrightarrow> \<not> P j)"
  then show "List.find P [m..<n] = Some i"
    by (auto simp: find_Some_iff intro!: exI [of _ "i - m"])
qed

lemma find_cong: "(\<And>x. x \<in> set xs \<Longrightarrow> P x = Q x) \<Longrightarrow> List.find P xs = List.find Q xs"
  by (induction xs) auto

lemma synchronise_eq:
  assumes "length buf div 2 \<noteq> 0"
  shows "synchronise buf validator_Reset =
    (let c = counters_of buf ! 0; out = fresh_outcome\<lparr>outcome_first_counter := c\<rparr> in
     case first_change buf of
       Some i \<Rightarrow> (locked_on (counters_of buf ! i), i,
         out\<lparr>synchronised_here := True, synchronisation_sample_index := i\<rparr>)
     | None \<Rightarrow> (validator_Reset\<lparr>sv_state := kDisabled\<rparr>, 0, out))"
proof -
  have c0: "drop_bit 2 (buf ! 1) = counters_of buf ! 0"
    using counter_at_nth [of 0 buf] assms by (simp add: counter_at_def)
  have f: "List.find (\<lambda>i. counter_at buf i \<noteq> counters_of buf ! 0) [1..<min (length buf div 2) 65537]
      = first_change buf"
    unfolding first_change_def by (rule find_cong) (simp add: counter_at_nth)
  have n: "counter_at buf i = counters_of buf ! i" if "first_change buf = Some i" for i
    using that counter_at_nth [of i buf] by (auto simp: first_change_def find_upt_Some)
  show ?thesis
    using n by (auto simp: synchronise_def Let_def c0 [simplified] f [simplified] locked_on_def validator_Reset_def
      split: option.splits)
qed

lemma Process_synchronising:
  "case first_change buf of
     None \<Rightarrow> Process buf validator_Reset =
       (strip_markers buf, (if length buf div 2 = 0 then validator_Reset else validator_Reset\<lparr>sv_state := kDisabled\<rparr>),
        snd (snd (Process buf validator_Reset)))
       \<and> outcome_ok (snd (snd (Process buf validator_Reset)))
       \<and> outcome_tally (snd (snd (Process buf validator_Reset))) = tally_of (values_of buf)
   | Some i \<Rightarrow> (case check_counters (drop i (counters_of buf)) (locked_on (counters_of buf ! i), 65536) of
       Inr (v', _) \<Rightarrow> (\<exists>out. Process buf validator_Reset = (strip_markers buf, v', out) \<and> outcome_ok out
         \<and> outcome_tally out = tally_of (values_of buf))
     | Inl _ \<Rightarrow> \<not> outcome_ok (snd (snd (Process buf validator_Reset))))"
proof (cases "length buf div 2 = 0")
  case True
  then have "buf = [] \<or> (\<exists>b. buf = [b])" by (cases buf rule: words_of.cases) auto
  then show ?thesis by (auto simp: Process_def tally_of_def fresh_outcome_def first_change_def)
next
  case long: False
  have st: "sv_state validator_Reset = kSynchronising" "samples_per_counter validator_Reset = 0"
    by (simp_all add: validator_Reset_def)
  define out0 where "out0 = fresh_outcome\<lparr>outcome_first_counter := counters_of buf ! 0\<rparr>"
  have t0: "merge_tally empty_tally t = t" for t by (simp add: merge_tally_def empty_tally_def)
  show ?thesis
  proof (cases "first_change buf")
    case None
    define v where "v = validator_Reset\<lparr>sv_state := kDisabled\<rparr>"
    have "Process buf validator_Reset = process_samples False 0 0 buf (v, 65536) out0"
      using long None st
      by (simp add: Process_def synchronise_eq Let_def out0_def v_def)
    also have "\<dots> = (strip_markers buf, v, out0\<lparr>outcome_tally := tally_of (values_of buf)\<rparr>)"
      using process_samples_ok [of False 0 0 buf "(v, 65536)" "(v, 65536)" out0]
      by (simp add: out0_def fresh_outcome_def t0)
    finally show ?thesis using None long by (simp add: v_def out0_def fresh_outcome_def)
  next
    case (Some i)
    define out1 where "out1 = out0\<lparr>synchronised_here := True, synchronisation_sample_index := i\<rparr>"
    define v where "v = locked_on (counters_of buf ! i)"
    have i: "i < length (counters_of buf)" using Some by (auto simp: first_change_def find_upt_Some)
    have P: "Process buf validator_Reset = process_samples True i 0 buf (v, 65536) out1"
      using long Some st
      by (simp add: Process_def synchronise_eq Let_def out0_def out1_def v_def locked_on_def)
    show ?thesis
    proof (cases "check_counters (drop i (counters_of buf)) (v, 65536)")
      case (Inr s')
      then have "Process buf validator_Reset = (strip_markers buf, fst s', out1\<lparr>outcome_tally := tally_of (values_of buf)\<rparr>)"
        unfolding P by (subst process_samples_ok) (simp_all add: out1_def out0_def fresh_outcome_def t0)
      then show ?thesis using Some Inr
        by (cases s') (simp add: v_def out1_def out0_def fresh_outcome_def)
    next
      case (Inl x)
      then obtain k s' where k: "k < length (drop i (counters_of buf))"
          "check_counters (take k (drop i (counters_of buf))) (v, 65536) = Inr s'"
          "check_sample (drop i (counters_of buf) ! k) s' = Inl x"
        using check_counters_Inl by blast
      obtain e r w where x: "x = (e, r, w)" by (cases x)
      have "take k (drop i (counters_of buf)) = drop i (take (i + k) (counters_of buf))"
        by (simp add: take_drop add.commute)
      with k i have "\<not> outcome_ok (snd (snd (process_samples True i 0 buf (v, 65536) out1)))"
        using process_samples_mismatch [of i 0 "i + k" buf "(v, 65536)" s' e r w out1] x by simp
      then show ?thesis using Some Inl by (simp add: P v_def)
    qed
  qed
qed

fun validate_buffers ::
    "byte list list \<Rightarrow> SequenceValidator \<Rightarrow> (byte list list \<times> SequenceValidator \<times> BufferTally list) option" where
  "validate_buffers [] v = Some ([], v, [])"
| "validate_buffers (buf # bufs) v =
     (case Process buf v of (buf', v', out) \<Rightarrow>
        if outcome_ok out then
          (case validate_buffers bufs v' of
             Some (bufs', v'', ts) \<Rightarrow> Some (buf' # bufs', v'', outcome_tally out # ts)
           | None \<Rightarrow> None)
        else None)"

definition measured :: "byte list list \<Rightarrow> SequenceValidator \<Rightarrow> (byte list list \<times> SequenceValidator \<times> BufferTally list)" where
  "measured bufs v = (map strip_markers bufs, v, map (\<lambda>b. tally_of (values_of b)) bufs)"

lemma validate_running:
  "sv_state v = kRunning \<Longrightarrow> validate_buffers bufs v =
     (case check_counters (concat (map counters_of bufs)) (v, limit_of v) of
        Inr (v', _) \<Rightarrow> Some (measured bufs v') | Inl _ \<Rightarrow> None)"
proof (induction bufs arbitrary: v)
  case (Cons b bufs)
  show ?case
  proof (cases "check_counters (counters_of b) (v, limit_of v)")
    case (Inl x)
    then show ?thesis using Process_running [OF Cons.prems, of b]
      by (auto simp: check_counters_append split: prod.splits)
  next
    case (Inr s')
    obtain v' l where s': "s' = (v', l)" by (cases s')
    have k: "sv_state v' = kRunning" "l = limit_of v'"
      using check_counters_keeps [OF Inr [unfolded s']] Cons.prems by simp_all
    show ?thesis using Process_running [OF Cons.prems, of b] Inr s' Cons.IH [OF k(1)] k(2)
      by (auto simp: check_counters_append fresh_outcome_def measured_def split: sum.splits)
  qed
qed (simp add: measured_def)

lemma validate_disabled: "sv_state v = kDisabled \<Longrightarrow> validate_buffers bufs v = Some (measured bufs v)"
  by (induction bufs) (simp_all add: Process_disabled measured_def fresh_outcome_def)

lemma validate_synchronised:
  assumes "first_change b = Some i"
  shows "validate_buffers (b # bufs) validator_Reset =
     (case check_counters (drop i (concat (map counters_of (b # bufs)))) (locked_on (counters_of b ! i), 65536) of
        Inr (v', _) \<Rightarrow> Some (measured (b # bufs) v') | Inl _ \<Rightarrow> None)"
proof -
  define v where "v = locked_on (counters_of b ! i)"
  have v: "sv_state v = kRunning" "limit_of v = 65536" by (simp_all add: v_def locked_on_def limit_of_def)
  have i: "i < length (counters_of b)" using assms by (auto simp: first_change_def find_upt_Some)
  then have d: "drop i (concat (map counters_of (b # bufs)))
      = drop i (counters_of b) @ concat (map counters_of bufs)" by simp
  show ?thesis
  proof (cases "check_counters (drop i (counters_of b)) (v, limit_of v)")
    case (Inl x)
    then show ?thesis using Process_synchronising [of b] assms
      by (auto simp: d v check_counters_append split: prod.splits simp flip: v_def)
  next
    case (Inr s')
    obtain v' l where s': "s' = (v', l)" by (cases s')
    have k: "sv_state v' = kRunning" "l = limit_of v'"
      using check_counters_keeps [OF Inr [unfolded s']] v by simp_all
    obtain out where P: "Process b validator_Reset = (strip_markers b, v', out)" "outcome_ok out"
        "outcome_tally out = tally_of (values_of b)"
      using Process_synchronising [of b] assms Inr s' v by (auto simp flip: v_def)
    show ?thesis unfolding d v_def [symmetric]
      using P Inr s' v validate_running [OF k(1), of bufs] k(2)
      by (auto simp: check_counters_append measured_def split: sum.splits)
  qed
qed

lemma drop_concat_hd:
  "i < length (counters_of b) \<Longrightarrow> hd (drop i (concat (map counters_of (b # bufs)))) = counters_of b ! i"
  by (simp add: hd_append hd_drop_conv_nth)

text \<open>A stream whose first counter change is at sample \<open>i\<close> of its first buffer.\<close>

lemma validate_iff:
  assumes "first_change b = Some i"
  shows "validate_buffers (b # bufs) validator_Reset \<noteq> None \<longleftrightarrow>
     accepts (drop i (concat (map counters_of (b # bufs))))"
    and "validate_buffers (b # bufs) validator_Reset = Some (out, v, ts) \<Longrightarrow>
     out = map strip_markers (b # bufs) \<and> ts = map (\<lambda>b. tally_of (values_of b)) (b # bufs)"
proof -
  have i: "i < length (counters_of b)" using assms by (auto simp: first_change_def find_upt_Some)
  have l: "limit_of (locked_on c) = 65536" for c by (simp add: limit_of_def locked_on_def)
  show "validate_buffers (b # bufs) validator_Reset \<noteq> None \<longleftrightarrow>
     accepts (drop i (concat (map counters_of (b # bufs))))"
    unfolding validate_synchronised [OF assms] accepts_def drop_concat_hd [OF i] l
    by (auto simp: measured_def split: sum.splits)
  show "validate_buffers (b # bufs) validator_Reset = Some (out, v, ts) \<Longrightarrow>
     out = map strip_markers (b # bufs) \<and> ts = map (\<lambda>b. tally_of (values_of b)) (b # bufs)"
    unfolding validate_synchronised [OF assms] by (auto simp: measured_def split: sum.splits)
qed

lemma concat_counters:
  "\<forall>b\<in>set bufs. even (length b) \<Longrightarrow> concat (map counters_of bufs) = counters_of (concat bufs)"
  by (induction bufs) (simp_all add: counters_of_def words_of_append)

text \<open>
  What the gateware sends: sample \<open>j\<close> carries the counter of its block. The samples \<open>p\<close> up to \<open>m\<close>
  and then, after a loss of \<open>k\<close>, the next \<open>n\<close>, as the bytes of the words.
\<close>

definition gateware_word :: "nat \<Rightarrow> byte \<Rightarrow> (nat \<Rightarrow> u16) \<Rightarrow> nat \<Rightarrow> u16" where
  "gateware_word B c x j = MakeWireWord (x j) (counter_after B c j)"

definition wire_bytes :: "u16 list \<Rightarrow> byte list" where
  "wire_bytes ws = concat (map bytes_le16 ws)"

lemma words_of_wire_bytes [simp]: "words_of (wire_bytes ws) = ws"
  by (simp add: wire_bytes_def words_of_wire)

lemma counter_after_less: "unat c < 63 \<Longrightarrow> unat (counter_after B c i) < 63"
  by (simp add: counter_after_def unat_counter_iterate)

lemma counters_of_gateware:
  "unat c < 63 \<Longrightarrow> counters_of (wire_bytes (map (gateware_word B c x) js)) = map (counter_after B c) js"
proof -
  assume c: "unat c < 63"
  have "counter_after B c i < 64" for i
    using counter_after_less [OF c, of B i] by (simp add: word_less_nat_alt)
  then show ?thesis
    by (simp add: counters_of_def gateware_word_def wire_word_counter)
qed

lemma values_of_gateware:
  "values_of (wire_bytes (map (gateware_word B c x) js)) = map (\<lambda>j. x j AND 0x3FF) js"
  by (simp add: values_of_def gateware_word_def wire_word_value)

lemma counters_take: "even (length b) \<Longrightarrow> i < length b div 2 \<Longrightarrow> counters_of (b @ bs) ! i = counters_of b ! i"
  by (simp add: counters_of_def words_of_append nth_append)

lemma first_change_gateware:
  assumes c: "unat c < 63" and p: "p < B" and B: "B \<in> {65535, 65536}" and m: "B < m"
    and b: "even (length b)" "131074 \<le> length b"
    and s: "b @ bs = wire_bytes (map (gateware_word B c x) ([p..<m] @ js))"
  shows "first_change b = Some (B - p)"
proof -
  have cs: "counters_of b ! i = counter_after B c (p + i)" if "i < length b div 2" "p + i < m" for i
  proof -
    have "i < m - p" using that(2) by simp
    then show ?thesis
      using counters_take [OF b(1) that(1), of bs] counters_of_gateware [OF c, of B x "[p..<m] @ js"]
      by (simp add: s nth_append)
  qed
  have nxt: "counter_after B c B = NextCounterValue c" using counter_after_next [of B c 0] p by simp
  have L: "B - p < 65537" "B - p < length b div 2" using B b(2) by auto
  show ?thesis
    unfolding first_change_def find_upt_Some
    using cs [of 0] cs [OF L(2)] p m L nxt b(2) by (auto simp: cs)
qed

lemma counter_after_shift: "0 < B \<Longrightarrow> counter_after B c (B + i) = counter_after B (NextCounterValue c) i"
proof -
  assume "0 < B"
  then have "(B + i) div B = Suc (i div B)" by (simp add: div_add_self1)
  then show ?thesis by (simp add: counter_after_def funpow_swap1)
qed

lemma map_plus_upt: "map ((+) B) [i..<j] = [B + i..<B + j]"
  by (induction j) auto

lemma gateware_tail:
  assumes c: "unat c < 63" and p: "p < B" and m: "B < m"
  shows "drop (B - p) (counters_of (wire_bytes (map (gateware_word B c x) ([p..<m] @ [m + k..<m + k + n]))))
     = with_gap B (NextCounterValue c) (m - B) k n"
proof -
  have "drop (B - p) ([p..<m] @ [m + k..<m + k + n]) = map ((+) B) ([0..<m - B] @ [m - B + k..<m - B + k + n])"
    using p m by (simp add: map_plus_upt)
  then have "drop (B - p) (map (counter_after B c) ([p..<m] @ [m + k..<m + k + n]))
      = map (counter_after B c) (map ((+) B) ([0..<m - B] @ [m - B + k..<m - B + k + n]))"
    by (simp only: drop_map)
  also have "\<dots> = with_gap B (NextCounterValue c) (m - B) k n"
    using p by (simp add: with_gap_def counter_after_shift comp_def)
  finally show ?thesis by (simp only: counters_of_gateware [OF c])
qed

lemma unat_next_less: "unat c < 63 \<Longrightarrow> unat (NextCounterValue c) < 63"
  by (simp add: unat_NextCounterValue)

definition captured :: "nat \<Rightarrow> byte \<Rightarrow> (nat \<Rightarrow> u16) \<Rightarrow> nat list \<Rightarrow> byte list list \<Rightarrow> bool" where
  "captured B c x js bufs \<longleftrightarrow> B \<in> {65535, 65536} \<and> unat c < 63 \<and> bufs \<noteq> [] \<and> 131074 \<le> length (hd bufs)
     \<and> list_all (\<lambda>b. even (length b)) bufs \<and> concat bufs = wire_bytes (map (gateware_word B c x) js)"

lemma gap_undetected_iff:
  assumes cap: "captured B c x ([p..<m] @ [m + k..<m + k + n]) bufs"
    and p: "p < B" and m: "B + 65536 < m" and n: "B < n"
  shows "validate_buffers bufs validator_Reset \<noteq> None \<longleftrightarrow> 63 * B dvd k"
proof -
  obtain b bs where bufs: "bufs = b # bs" using cap by (cases bufs) (auto simp: captured_def)
  have B: "B \<in> {65535, 65536}" and c: "unat c < 63" and b: "even (length b)" "131074 \<le> length b"
      and ev: "\<forall>b\<in>set bufs. even (length b)"
      and s: "concat bufs = wire_bytes (map (gateware_word B c x) ([p..<m] @ [m + k..<m + k + n]))"
    using cap by (auto simp: captured_def bufs list_all_iff)
  have "first_change b = Some (B - p)"
  proof (rule first_change_gateware [OF c p B _ b])
    show "B < m" using m by simp
    show "b @ concat bs = wire_bytes (map (gateware_word B c x) ([p..<m] @ [m + k..<m + k + n]))"
      using s by (simp add: bufs)
  qed
  note validate_iff(1) [OF this, of bs]
  also have "drop (B - p) (concat (map counters_of (b # bs))) = with_gap B (NextCounterValue c) (m - B) k n"
    using concat_counters [OF ev] s gateware_tail [OF c p, of m x k n] m by (simp add: bufs)
  also have "accepts (with_gap B (NextCounterValue c) (m - B) k n) \<longleftrightarrow> 63 * B dvd k"
    by (rule accepts_with_gap [OF B unat_next_less [OF c]]) (use m n in simp_all)
  finally show ?thesis by (simp add: bufs)
qed

lemma concat_strip: "concat (map (\<lambda>b. words_of (strip_markers b)) bufs) = concat (map values_of bufs)"
  by (simp add: words_of_strip)

lemma concat_values:
  "\<forall>b\<in>set bufs. even (length b) \<Longrightarrow> concat (map values_of bufs) = values_of (concat bufs)"
  by (induction bufs) (simp_all add: values_of_def words_of_append)

lemma accepts_tail:
  assumes "B \<in> {65535, 65536}" "B < m"
  shows "accepts (map (counter_after B c) [B..<m])"
proof -
  have pos: "0 < B" using assms(1) by auto
  have a: "advances B (NextCounterValue c) (map (counter_after B c) [B..<m])"
    using counter_after_shift [OF pos, of c] by (auto simp: advances_def)
  have ne: "map (counter_after B c) [B..<m] \<noteq> []" using assms by simp
  have hd: "hd (map (counter_after B c) [B..<m]) = NextCounterValue c"
    using assms(2) counter_after_shift [OF pos, of c 0] pos by (simp add: hd_map upt_conv_Cons)
  show ?thesis unfolding accepts_iff [OF ne] hd using a assms(1) by auto
qed

lemma first_change_none:
  assumes c: "unat c < 63" and m: "m \<le> B" and b: "even (length b)"
    and s: "b @ bs = wire_bytes (map (gateware_word B c x) [p..<m])"
  shows "first_change b = None"
proof -
  have all: "counters_of (b @ bs) = map (counter_after B c) [p..<m]"
    by (simp only: s counters_of_gateware [OF c])
  then have len: "length (b @ bs) div 2 = m - p" by (metis length_counters_of length_map length_upt)
  have "counters_of b ! i = c" if "i < length b div 2" for i
  proof -
    have "i < m - p" using that len by simp
    then show ?thesis using counters_take [OF b that, of bs] m by (simp add: all)
  qed
  then show ?thesis by (auto simp: first_change_def find_None_iff)
qed

lemma validate_unmarked:
  assumes "first_change b = None" and "length b div 2 \<noteq> 0"
  shows "\<exists>v. validate_buffers (b # bs) validator_Reset = Some (measured (b # bs) v)"
proof -
  obtain out where "Process b validator_Reset = (strip_markers b, validator_Reset\<lparr>sv_state := kDisabled\<rparr>, out)"
      "outcome_ok out" "outcome_tally out = tally_of (values_of b)"
    using Process_synchronising [of b] assms by auto
  then show ?thesis
    using validate_disabled [of "validator_Reset\<lparr>sv_state := kDisabled\<rparr>" bs] by (simp add: measured_def)
qed

lemma lossless_capture:
  assumes cap: "captured B c x [p..<m] bufs" and p: "p < B"
  shows "\<exists>v. validate_buffers bufs validator_Reset = Some (measured bufs v)
     \<and> concat (map words_of (map strip_markers bufs)) = map (\<lambda>j. x j AND 0x3FF) [p..<m]"
proof -
  obtain b bs where bufs: "bufs = b # bs" using cap by (cases bufs) (auto simp: captured_def)
  have B: "B \<in> {65535, 65536}" and c: "unat c < 63" and b: "even (length b)" "131074 \<le> length b"
      and ev: "\<forall>b\<in>set bufs. even (length b)"
      and s: "concat bufs = wire_bytes (map (gateware_word B c x) [p..<m])"
    using cap by (auto simp: captured_def bufs list_all_iff)
  have vals: "concat (map words_of (map strip_markers bufs)) = map (\<lambda>j. x j AND 0x3FF) [p..<m]"
    using concat_values [OF ev] s values_of_gateware [of B c x "[p..<m]"] concat_strip [of bufs]
    by (simp add: comp_def)
  have "\<exists>v. validate_buffers bufs validator_Reset = Some (measured bufs v)"
  proof (cases "B < m")
    case True
    have f: "first_change b = Some (B - p)"
      by (rule first_change_gateware [OF c p B True b, where bs = "concat bs" and js = "[]"]) (use s in \<open>simp add: bufs\<close>)
    have "drop (B - p) [p..<m] = [B..<m]" using p True by simp
    then have "drop (B - p) (concat (map counters_of (b # bs))) = map (counter_after B c) [B..<m]"
      using concat_counters [OF ev] s counters_of_gateware [OF c, of B x "[p..<m]"]
      by (simp add: bufs drop_map)
    with accepts_tail [OF B True, of c] have "validate_buffers bufs validator_Reset \<noteq> None"
      using validate_iff(1) [OF f, of bs] by (simp add: bufs)
    then show ?thesis using validate_synchronised [OF f, of bs] by (auto simp: bufs split: sum.splits)
  next
    case False
    then have "first_change b = None"
      by (intro first_change_none [OF c _ b(1), where bs = "concat bs"]) (use s in \<open>simp_all add: bufs\<close>)
    then show ?thesis unfolding bufs by (rule validate_unmarked) (use b in simp)
  qed
  then show ?thesis using vals by simp
qed

end
