(* ===== verification/TestPattern.thy ===== *)
theory TestPattern
  imports CounterStreams
begin

text \<open>
  The end to end check of the capture path: \<^verbatim>\<open>ddd-gui/src/capture/test_pattern_verifier.cpp\<close>, which
  checks the gateware's test ramp, and \<^verbatim>\<open>fpga/application/dataGenerator.v\<close>, which makes the ramp and
  the sequence counter. The lemmas say which streams pass, that it does not matter how they are cut
  into buffers, and that what the data generator sends passes both this check and the validator.
\<close>

abbreviation (input) kSequenceLength :: u16 where "kSequenceLength \<equiv> 1021"

record PatternResult =
  pattern_passed :: bool
  samples_checked :: nat
  expected_value :: u16
  actual_value :: u16
  sequence_length :: "u16 option"

record TestPatternVerifier =
  pattern_result :: PatternResult
  have_first_sample :: bool
  current_value :: u16

definition fresh_verifier :: TestPatternVerifier where
  "fresh_verifier = \<lparr>pattern_result = \<lparr>pattern_passed = True, samples_checked = 0, expected_value = 0,
     actual_value = 0, sequence_length = None\<rparr>, have_first_sample = False, current_value = 0\<rparr>"

definition FeedOne :: "u16 \<Rightarrow> TestPatternVerifier \<Rightarrow> bool \<times> TestPatternVerifier" where
  "FeedOne sample_value s =
     (let r = pattern_result s in
      if \<not> have_first_sample s then
        (True, s\<lparr>current_value := sample_value, have_first_sample := True,
           pattern_result := r\<lparr>samples_checked := samples_checked r + 1\<rparr>\<rparr>)
      else
        let current = current_value s + 1;
            (current, r) = (if kSequenceLength \<le> current
               then (0, r\<lparr>sequence_length := Some kSequenceLength\<rparr>) else (current, r))
        in if sample_value \<noteq> current then
             (False, s\<lparr>current_value := current,
                pattern_result := r\<lparr>pattern_passed := False, expected_value := current,
                  actual_value := sample_value\<rparr>\<rparr>)
           else (True, s\<lparr>current_value := current,
                pattern_result := r\<lparr>samples_checked := samples_checked r + 1\<rparr>\<rparr>))"

fun feed_samples :: "u16 list \<Rightarrow> TestPatternVerifier \<Rightarrow> bool \<times> TestPatternVerifier" where
  "feed_samples [] s = (True, s)"
| "feed_samples (v # vs) s =
     (case FeedOne v s of (good, s) \<Rightarrow> if good then feed_samples vs s else (False, s))"

definition Feed :: "u16 list \<Rightarrow> TestPatternVerifier \<Rightarrow> bool \<times> TestPatternVerifier" where
  "Feed samples s = (if \<not> pattern_passed (pattern_result s) then (False, s) else feed_samples samples s)"

fun feed_wire :: "byte list \<Rightarrow> TestPatternVerifier \<Rightarrow> bool \<times> TestPatternVerifier" where
  "feed_wire (low # high # rest) s =
     (let w = ucast low OR push_bit 8 (ucast high) :: u16
      in case FeedOne (SampleValueFromWord w) s of
           (good, s) \<Rightarrow> if good then feed_wire rest s else (False, s))"
| "feed_wire rest s = (True, s)"

definition FeedWireBytes :: "byte list \<Rightarrow> TestPatternVerifier \<Rightarrow> bool \<times> TestPatternVerifier" where
  "FeedWireBytes wire_data s =
     (if \<not> pattern_passed (pattern_result s) then (False, s) else feed_wire wire_data s)"

lemma feed_wire_samples: "feed_wire bs s = feed_samples (values_of bs) s"
  by (induction bs s rule: feed_wire.induct)
    (auto simp: values_of_Cons value_of_bytes Let_def split: prod.splits)

lemma FeedWireBytes_Feed: "FeedWireBytes bs s = Feed (values_of bs) s"
  by (simp add: FeedWireBytes_def Feed_def feed_wire_samples)

lemma FeedOne_passed: "pattern_passed (pattern_result s) \<Longrightarrow>
   pattern_passed (pattern_result (snd (FeedOne v s))) = fst (FeedOne v s)"
  by (auto simp: FeedOne_def Let_def)

lemma feed_samples_passed: "pattern_passed (pattern_result s) \<Longrightarrow>
   pattern_passed (pattern_result (snd (feed_samples vs s))) = fst (feed_samples vs s)"
proof (induction vs arbitrary: s)
  case (Cons v vs)
  then show ?case using FeedOne_passed [OF Cons.prems, of v] by (auto split: prod.splits)
qed simp

lemma Feed_append: "Feed (vs @ ws) s = (case Feed vs s of (good, s) \<Rightarrow> Feed ws s)"
proof (cases "pattern_passed (pattern_result s)")
  case True
  have "feed_samples (vs @ ws) s =
      (case feed_samples vs s of (good, s) \<Rightarrow> if good then feed_samples ws s else (False, s))"
    by (induction vs arbitrary: s) (auto split: prod.splits)
  then show ?thesis using feed_samples_passed [OF True, of vs] True
    by (auto simp: Feed_def split: prod.splits)
qed (simp add: Feed_def)

subsection \<open>The streams that pass\<close>

definition ramp_next :: "u16 \<Rightarrow> u16" where
  "ramp_next v = (if kSequenceLength \<le> v + 1 then 0 else v + 1)"

definition on_ramp :: "u16 list \<Rightarrow> bool" where
  "on_ramp vs = successively (\<lambda>u v. v = ramp_next u) vs"

lemma FeedOne_running:
  assumes "have_first_sample s" "pattern_passed (pattern_result s)"
  shows "case FeedOne v s of (good, s') \<Rightarrow>
     (good \<longleftrightarrow> v = ramp_next (current_value s)) \<and> have_first_sample s' \<and> pattern_passed (pattern_result s') = good
     \<and> current_value s' = ramp_next (current_value s)
     \<and> samples_checked (pattern_result s') = samples_checked (pattern_result s) + (if good then 1 else 0)
     \<and> (\<not> good \<longrightarrow> expected_value (pattern_result s') = ramp_next (current_value s) \<and> actual_value (pattern_result s') = v)"
  using assms by (auto simp: FeedOne_def ramp_next_def Let_def)

text \<open>What a run tells: passed, or the first sample that is off the ramp.\<close>

definition verdict_of :: "u16 list \<Rightarrow> PatternResult \<Rightarrow> bool" where
  "verdict_of vs r \<longleftrightarrow>
     (if pattern_passed r then on_ramp vs \<and> samples_checked r = length vs
      else 0 < samples_checked r \<and> samples_checked r < length vs \<and> on_ramp (take (samples_checked r) vs)
        \<and> expected_value r = ramp_next (vs ! (samples_checked r - 1))
        \<and> actual_value r = vs ! samples_checked r \<and> actual_value r \<noteq> expected_value r)"

lemma on_ramp_snoc: "vs \<noteq> [] \<Longrightarrow> on_ramp (vs @ [v]) \<longleftrightarrow> on_ramp vs \<and> v = ramp_next (last vs)"
  by (auto simp: on_ramp_def successively_append_iff)

lemma Feed_fresh:
  "vs \<noteq> [] \<Longrightarrow> Feed vs fresh_verifier = (good, s) \<Longrightarrow>
     good = pattern_passed (pattern_result s) \<and> have_first_sample s \<and> verdict_of vs (pattern_result s)
     \<and> (good \<longrightarrow> current_value s = last vs)"
proof (induction vs arbitrary: good s rule: rev_induct)
  case (snoc v vs)
  show ?case
  proof (cases "vs = []")
    case True
    then show ?thesis using snoc.prems
      by (auto simp: Feed_def fresh_verifier_def FeedOne_def verdict_of_def on_ramp_def)
  next
    case False
    obtain g t where vs: "Feed vs fresh_verifier = (g, t)" by (cases "Feed vs fresh_verifier")
    note IH = snoc.IH [OF False vs]
    have st: "Feed [v] t = (good, s)" using snoc.prems(2) vs by (simp add: Feed_append)
    show ?thesis
    proof (cases g)
      case True
      then have t: "have_first_sample t" "pattern_passed (pattern_result t)" "current_value t = last vs"
          "on_ramp vs" "samples_checked (pattern_result t) = length vs"
        using IH by (auto simp: verdict_of_def)
      have "FeedOne v t = (good, s)" using st t(2) by (auto simp: Feed_def split: prod.splits if_splits)
      then show ?thesis using FeedOne_running [OF t(1,2), of v] t False
        by (cases good) (auto simp: verdict_of_def on_ramp_snoc nth_append last_conv_nth)
    next
      case f: False
      then have "s = t" "\<not> good" using st IH by (auto simp: Feed_def)
      then show ?thesis using IH f
        by (auto simp: verdict_of_def nth_append)
    qed
  qed
qed simp

lemma Feed_fresh_iff: "fst (Feed vs fresh_verifier) \<longleftrightarrow> on_ramp vs"
proof (cases "vs = []")
  case False
  obtain g t where vs: "Feed vs fresh_verifier = (g, t)" by (cases "Feed vs fresh_verifier")
  note F = Feed_fresh [OF False vs]
  show ?thesis
  proof (cases g)
    case True
    then show ?thesis using F vs by (simp add: verdict_of_def)
  next
    case f: False
    define k where "k = samples_checked (pattern_result t)"
    have k: "0 < k" "k < length vs" "vs ! k \<noteq> ramp_next (vs ! (k - 1))"
      using F f by (auto simp: verdict_of_def k_def)
    have "\<not> on_ramp vs"
    proof
      assume "on_ramp vs"
      then have "successively (\<lambda>u v. v = ramp_next u) vs" by (simp add: on_ramp_def)
      from successively_nth [OF this, of "k - 1"] k show False by simp
    qed
    then show ?thesis using f vs by simp
  qed
qed (simp add: Feed_def fresh_verifier_def on_ramp_def)

text \<open>The ramp in the natural numbers, and the length of it a run reports.\<close>

lemma ramp_next_nat: "v < 1021 \<Longrightarrow> unat (ramp_next v) = (unat v + 1) mod 1021"
proof -
  assume "v < 1021"
  then have v: "unat v < 1021" by (simp add: word_less_nat_alt)
  then have "unat (v + 1) = unat v + 1" by (simp add: unat_word_ariths)
  then show ?thesis using v by (simp add: ramp_next_def word_le_nat_alt mod_Suc)
qed

lemma on_ramp_nat:
  assumes "\<forall>v\<in>set vs. v < 1021"
  shows "on_ramp vs \<longleftrightarrow> (\<forall>i. Suc i < length vs \<longrightarrow> unat (vs ! Suc i) = (unat (vs ! i) + 1) mod 1021)"
proof -
  have "vs ! Suc i = ramp_next (vs ! i) \<longleftrightarrow> unat (vs ! Suc i) = (unat (vs ! i) + 1) mod 1021" if "Suc i < length vs" for i
  proof -
    have "vs ! i < 1021" using assms that by simp
    then show ?thesis by (simp add: word_unat_eq_iff ramp_next_nat)
  qed
  then show ?thesis by (simp add: on_ramp_def successively_conv_nth)
qed

lemma Feed_length:
  assumes "\<forall>v\<in>set vs. v < 1021" and "on_ramp vs"
  shows "sequence_length (pattern_result (snd (Feed vs fresh_verifier))) = (if 0 \<in> set (tl vs) then Some kSequenceLength else None)"
  using assms
proof (induction vs rule: rev_induct)
  case Nil
  then show ?case by (simp add: Feed_def fresh_verifier_def)
next
  case (snoc v vs)
  show ?case
  proof (cases "vs = []")
    case True
    then show ?thesis by (simp add: Feed_def fresh_verifier_def FeedOne_def)
  next
    case False
    then have r: "on_ramp vs" "v = ramp_next (last vs)" "last vs < 1021"
      using snoc.prems by (auto simp: on_ramp_snoc)
    define t where "t = snd (Feed vs fresh_verifier)"
    have F: "Feed vs fresh_verifier = (True, t)" using Feed_fresh_iff [of vs] r(1) by (simp add: t_def prod_eq_iff)
    have t: "have_first_sample t" "pattern_passed (pattern_result t)" "current_value t = last vs"
      using Feed_fresh [OF False F] by simp_all
    have "unat (last vs) < 1021" using r(3) by (simp add: word_less_nat_alt)
    then have "last vs + 1 \<noteq> 0" by (simp add: word_unat_eq_iff unat_word_ariths)
    then have z: "v = 0 \<longleftrightarrow> kSequenceLength \<le> last vs + 1" using r(2) by (simp add: ramp_next_def)
    have "Feed (vs @ [v]) fresh_verifier = Feed [v] t" by (simp add: Feed_append F)
    moreover have "sequence_length (pattern_result (snd (Feed [v] t)))
        = (if v = 0 then Some kSequenceLength else sequence_length (pattern_result t))"
      using t z r(2) by (auto simp: Feed_def FeedOne_def Let_def ramp_next_def split: if_splits)
    moreover have "sequence_length (pattern_result t) = (if 0 \<in> set (tl vs) then Some kSequenceLength else None)"
      using snoc.IH snoc.prems r(1) by (simp add: t_def)
    ultimately show ?thesis using False by simp
  qed
qed

fun feed_buffers :: "byte list list \<Rightarrow> TestPatternVerifier \<Rightarrow> bool \<times> TestPatternVerifier" where
  "feed_buffers [] s = (pattern_passed (pattern_result s), s)"
| "feed_buffers (b # bs) s =
     (case FeedWireBytes b s of (good, s) \<Rightarrow> if good then feed_buffers bs s else (False, s))"

lemma feed_buffers_Feed: "feed_buffers bs s = Feed (concat (map values_of bs)) s"
proof (induction bs arbitrary: s)
  case Nil
  show ?case by (simp add: Feed_def)
next
  case (Cons b bs)
  have "pattern_passed (pattern_result t) = g" if "Feed (values_of b) s = (g, t)" for g t
    using feed_samples_passed [of s "values_of b"] that by (auto simp: Feed_def split: if_splits)
  then show ?case by (auto simp: FeedWireBytes_Feed Feed_append Cons.IH Feed_def [of _ "snd _"] split: prod.splits)
      (simp add: Feed_def)
qed

subsection \<open>The data generator of the gateware\<close>

record dataGenerator =
  adc_data :: "10 word"
  test_data :: "10 word"
  sequence_count :: "6 word"
  sequence_position :: u16

definition generator_reset :: dataGenerator where
  "generator_reset = \<lparr>adc_data = 0, test_data = 0, sequence_count = 0, sequence_position = 0\<rparr>"

definition generator_clock :: "bool \<Rightarrow> 10 word \<Rightarrow> dataGenerator \<Rightarrow> dataGenerator" where
  "generator_clock sample_enable adc_databus g =
     (if \<not> sample_enable then g
      else \<lparr>adc_data = adc_databus,
        test_data = (if test_data g = 1021 - 1 then 0 else test_data g + 1),
        sequence_count =
          (if sequence_position g = 65535 - 1
           then if sequence_count g = 62 then 0 else sequence_count g + 1
           else sequence_count g),
        sequence_position = (if sequence_position g = 65535 - 1 then 0 else sequence_position g + 1)\<rparr>)"

definition data_out :: "bool \<Rightarrow> dataGenerator \<Rightarrow> u16" where
  "data_out test_mode_flag g =
     push_bit 10 (ucast (sequence_count g)) OR ucast (if test_mode_flag then test_data g else adc_data g)"

text \<open>The generator after \<open>j\<close> samples of the converter.\<close>

fun generated :: "(nat \<Rightarrow> 10 word) \<Rightarrow> nat \<Rightarrow> dataGenerator" where
  "generated adc 0 = generator_reset"
| "generated adc (Suc j) = generator_clock True (adc j) (generated adc j)"

lemma wrap_inc:
  fixes w k :: "'a :: len word"
  assumes "unat w = j mod Suc (unat k)"
  shows "unat (if w = k then 0 else w + 1) = Suc j mod Suc (unat k)"
proof (cases "w = k")
  case True
  then show ?thesis using assms by (simp add: mod_Suc)
next
  case False
  have "unat w \<le> unat k" using assms mod_less_divisor [of "Suc (unat k)" j] by simp
  moreover have "unat w \<noteq> unat k" using False by (simp add: word_unat_eq_iff)
  ultimately have lt: "unat w < unat k" by simp
  then have "Suc (unat w) \<le> unat k" by simp
  from le_less_trans [OF this unsigned_less] have "unat w + 1 < 2 ^ LENGTH('a)" by simp
  then have "unat (w + 1) = unat w + 1" by (simp add: unat_word_ariths)
  then show ?thesis using False assms lt by (simp add: mod_Suc)
qed

lemma generated_state:
  "unat (test_data (generated adc j)) = j mod 1021 \<and>
   unat (sequence_position (generated adc j)) = j mod 65535 \<and>
   unat (sequence_count (generated adc j)) = j div 65535 mod 63"
proof (induction j)
  case (Suc j)
  define g where "g = generated adc j"
  have IH: "unat (test_data g) = j mod 1021" "unat (sequence_position g) = j mod 65535"
      "unat (sequence_count g) = j div 65535 mod 63"
    using Suc by (simp_all add: g_def)
  have t: "unat (if test_data g = 1020 then 0 else test_data g + 1) = Suc j mod 1021"
    using wrap_inc [of "test_data g" j 1020] IH(1) by simp
  have p: "unat (if sequence_position g = 65534 then 0 else sequence_position g + 1) = Suc j mod 65535"
    using wrap_inc [of "sequence_position g" j 65534] IH(2) by simp
  have c: "unat (if sequence_count g = 62 then 0 else sequence_count g + 1) = Suc (j div 65535) mod 63"
    using wrap_inc [of "sequence_count g" "j div 65535" 62] IH(3) by simp
  have pos: "sequence_position g = 65534 \<longleftrightarrow> Suc j mod 65535 = 0"
    using IH(2) by (auto simp: word_unat_eq_iff mod_Suc)
  have "unat (if sequence_position g = 65534 then if sequence_count g = 62 then 0 else sequence_count g + 1
      else sequence_count g) = Suc j div 65535 mod 63"
    using c IH(3) by (simp add: pos div_Suc)
  moreover have "generated adc (Suc j) = generator_clock True (adc j) g" by (simp add: g_def)
  ultimately show ?case using t p by (simp only: generator_clock_def dataGenerator.simps)
     (simp add: dataGenerator.simps)
qed (simp add: generator_reset_def)

lemma counter_start: "counter_after B 0 j = of_nat (j div B mod 63)"
proof -
  have "unat (counter_after B 0 j) = j div B mod 63"
    by (simp add: counter_after_def unat_counter_iterate)
  moreover have "unat (of_nat (j div B mod 63) :: byte) = j div B mod 63"
    by (simp add: unat_of_nat take_bit_nat_eq_self less_trans [OF mod_less_divisor])
  ultimately show ?thesis by (simp add: word_unat_eq_iff)
qed

definition generator_value :: "bool \<Rightarrow> (nat \<Rightarrow> 10 word) \<Rightarrow> nat \<Rightarrow> u16" where
  "generator_value test_mode adc j =
     (if test_mode then of_nat (j mod 1021) else if j = 0 then 0 else ucast (adc (j - 1)))"

lemma data_out_word:
  "data_out test_mode (generated adc j) = gateware_word 65535 0 (generator_value test_mode adc) j"
proof -
  define g where "g = generated adc j"
  have c: "(ucast (sequence_count g) :: u16) = ucast (counter_after 65535 0 j)"
    using generated_state [of adc j]
    by (simp add: word_unat_eq_iff counter_start g_def unsigned_ucast_eq take_bit_nat_eq_self unat_of_nat
        less_trans [OF mod_less_divisor])
  have t: "(ucast (test_data g) :: u16) = of_nat (j mod 1021)"
    using generated_state [of adc j]
    by (simp add: word_unat_eq_iff g_def unsigned_ucast_eq take_bit_nat_eq_self unat_of_nat
        less_trans [OF mod_less_divisor])
  have a: "(ucast (adc_data g) :: u16) = (if j = 0 then 0 else ucast (adc (j - 1)))"
    by (cases j) (simp_all add: g_def generator_reset_def generator_clock_def)
  have v: "(if test_mode then ucast (test_data g) else ucast (adc_data g)) = generator_value test_mode adc j"
    by (simp add: generator_value_def t a)
  have m: "v AND 0x3FF = v" if v: "v = ucast (w :: 10 word)" for v :: u16 and w
  proof -
    have m: "(0x3FF :: u16) = mask 10" by (simp add: mask_eq_exp_minus_1)
    show ?thesis unfolding m v
      by (rule bit_word_eqI) (auto simp: bit_and_iff bit_mask_iff bit_ucast_iff dest: bit_imp_le_length)
  qed
  have "generator_value test_mode adc j = ucast (if test_mode then test_data g else adc_data g)"
    using v by (cases test_mode) simp_all
  note low = m [OF this]
  then show ?thesis
    by (simp add: data_out_def gateware_word_def MakeWireWord_def c low v if_distrib [of ucast] or.commute flip: g_def)
qed

subsection \<open>What the generator sends is what the host accepts\<close>

lemma counter_after_blocks: "0 < B \<Longrightarrow> counter_after B c (q * B + i) = counter_after B ((NextCounterValue ^^ q) c) i"
  by (simp add: counter_after_def funpow_add add.commute [of q])

lemma gateware_word_blocks:
  "0 < B \<Longrightarrow> gateware_word B c x (q * B + i) = gateware_word B ((NextCounterValue ^^ q) c) (\<lambda>i. x (q * B + i)) i"
  by (simp add: gateware_word_def counter_after_blocks)

lemma ramp_next_mod: "ramp_next (of_nat (j mod 1021)) = of_nat (Suc j mod 1021)"
proof -
  have u: "unat (of_nat (i mod 1021) :: u16) = i mod 1021" for i :: nat
    by (rule unat_of_nat_u16) (simp add: less_trans [OF mod_less_divisor])
  have "unat (of_nat (j mod 1021) + 1 :: u16) = j mod 1021 + 1"
    using mod_less_divisor [of 1021 j] by (simp add: unat_word_ariths u)
  then show ?thesis
    using mod_less_divisor [of 1021 j]
    by (auto simp: ramp_next_def word_le_nat_alt word_unat_eq_iff u mod_Suc add.commute [of 1])
qed

lemma on_ramp_generated: "on_ramp (map (\<lambda>j. of_nat (j mod 1021)) [a..<b])"
proof (induction b)
  case (Suc b)
  show ?case
  proof (cases "a < b")
    case True
    then have "last (map (\<lambda>j. of_nat (j mod 1021) :: u16) [a..<b]) = of_nat ((b - 1) mod 1021)"
      by (simp add: last_map)
    then show ?thesis using Suc True ramp_next_mod [of "b - 1"] by (simp add: on_ramp_snoc)
  qed (simp add: on_ramp_def)
qed (simp add: on_ramp_def)

definition received :: "bool \<Rightarrow> (nat \<Rightarrow> 10 word) \<Rightarrow> nat list \<Rightarrow> byte list list \<Rightarrow> bool" where
  "received test_mode adc js bufs \<longleftrightarrow> bufs \<noteq> [] \<and> 131074 \<le> length (hd bufs)
     \<and> list_all (\<lambda>b. even (length b)) bufs
     \<and> concat bufs = wire_bytes (map (\<lambda>j. data_out test_mode (generated adc j)) js)"

lemma upt_blocks: "[q * B + p..<b] = map ((+) (q * B)) [p..<b - q * B]"
  by (cases "q * B \<le> b") (simp_all add: map_plus_upt)

lemma received_captured:
  assumes "received tm adc [a..<b] bufs"
  shows "captured 65535 ((NextCounterValue ^^ (a div 65535)) 0)
     (\<lambda>i. generator_value tm adc (a div 65535 * 65535 + i))
     [a mod 65535..<b - a div 65535 * 65535] bufs"
proof -
  define q where "q = a div 65535"
  have "[a..<b] = map ((+) (q * 65535)) [a mod 65535..<b - q * 65535]"
    using upt_blocks [of q 65535 "a mod 65535" b] by (simp add: q_def)
  then have "map (\<lambda>j. data_out tm (generated adc j)) [a..<b] =
      map (gateware_word 65535 ((NextCounterValue ^^ q) 0) (\<lambda>i. generator_value tm adc (q * 65535 + i)))
        [a mod 65535..<b - q * 65535]"
    by (simp add: data_out_word gateware_word_blocks)
  moreover have "unat ((NextCounterValue ^^ q) 0) < 63" by (simp add: unat_counter_iterate)
  ultimately show ?thesis using assms by (simp add: received_def captured_def flip: q_def)
qed

lemma generator_value_low: "generator_value tm adc j AND 0x3FF = generator_value tm adc j"
proof -
  have "SampleValueFromWord (data_out tm (generated adc j)) = generator_value tm adc j AND 0x3FF"
    by (simp add: data_out_word gateware_word_def wire_word_value)
  have m: "(0x3FF :: u16) = mask 10" by (simp add: mask_eq_exp_minus_1)
  have "unat (adc (j - 1)) < 2 ^ LENGTH(10)" by (rule unsigned_less)
  then have a: "unat (adc (j - Suc 0)) < 1024" by simp
  then have "unat (adc (j - Suc 0)) < 65536" by linarith
  with a have u: "unat (generator_value tm adc j) < 1024"
    using mod_less_divisor [of 1021 j]
    by (auto simp: generator_value_def unat_of_nat take_bit_nat_eq_self unsigned_ucast_eq)
  show ?thesis unfolding m
    by (simp add: word_unat_eq_iff unsigned_take_bit_eq take_bit_nat_eq_self u flip: take_bit_eq_mask)
qed

lemma generated_capture:
  assumes "received tm adc [a..<b] bufs"
  shows "(\<exists>v. validate_buffers bufs validator_Reset = Some (measured bufs v))
     \<and> concat (map words_of (map strip_markers bufs)) = map (generator_value tm adc) [a..<b]"
proof -
  define q where "q = a div 65535"
  have "concat (map words_of (map strip_markers bufs))
      = map (\<lambda>i. generator_value tm adc (q * 65535 + i) AND 0x3FF) [a mod 65535..<b - q * 65535]"
    using lossless_capture [OF received_captured [OF assms]] by (simp add: q_def)
  also have "\<dots> = map (generator_value tm adc) (map ((+) (q * 65535)) [a mod 65535..<b - q * 65535])"
    by (simp add: generator_value_low)
  also have "map ((+) (q * 65535)) [a mod 65535..<b - q * 65535] = [a..<b]"
    using upt_blocks [of q 65535 "a mod 65535" b] by (simp add: q_def)
  finally show ?thesis using lossless_capture [OF received_captured [OF assms]] by simp
qed

lemma values_of_strip: "values_of (strip_markers b) = values_of b"
proof -
  have "(w AND 0x3FF) AND 0x3FF = w AND (0x3FF :: u16)" for w by (simp add: and.assoc)
  then show ?thesis
    by (simp add: values_of_def [of "strip_markers b"] words_of_strip) (simp add: values_of_def SampleValueFromWord_def comp_def)
qed

lemma generated_test_pattern:
  assumes "received True adc [a..<b] bufs"
  shows "fst (feed_buffers (map strip_markers bufs) fresh_verifier)"
proof -
  have "concat (map values_of (map strip_markers bufs)) = concat (map words_of (map strip_markers bufs))"
    by (simp add: comp_def values_of_strip words_of_strip)
  also have "\<dots> = map (\<lambda>j. of_nat (j mod 1021)) [a..<b]"
    using generated_capture [OF assms] by (simp add: generator_value_def)
  finally show ?thesis unfolding feed_buffers_Feed Feed_fresh_iff by (simp add: on_ramp_generated)
qed

lemma packets_in_period: "63 * 65535 dvd 512 * (P :: nat) \<longleftrightarrow> 4128705 dvd P"
proof -
  have "coprime (63 * 65535 :: nat) (2 ^ 9)" by (simp only: coprime_power_right_iff) simp
  then have "coprime (63 * 65535 :: nat) 512" by simp
  then show ?thesis by (simp add: coprime_dvd_mult_right_iff)
qed

end
