(* ===== verification/CaptureFile.thy ===== *)
theory CaptureFile
  imports TestPattern
begin

text \<open>
  A capture on disk and read back: the uncompressed sink \<^verbatim>\<open>ddd-gui/src/capture/raw_sink.cpp\<close>, the
  uncompressed half of \<^verbatim>\<open>capture_reader.cpp\<close>, and the offline check of \<^verbatim>\<open>test_data_analysis.cpp\<close>. A
  file is the bytes that have reached the volume, those its stream still holds in its buffer, and the
  room the volume has left: a write may be held back, so a volume that is full may be noticed only by
  a later write or by the flush at the end, as the standard stream reports it. The lemmas give the round trip from the wire to the file and
  back to ten-bit values, and what the offline check then says.
\<close>

abbreviation (input) kWriteChunkSamples :: nat where "kWriteChunkSamples \<equiv> 65536"
abbreviation (input) kFileBytesPerSample :: nat where "kFileBytesPerSample \<equiv> 2"
abbreviation (input) kRawReadChunkBytes :: nat where "kRawReadChunkBytes \<equiv> 2 * 65536"
abbreviation (input) kAnalysisChunkSamples :: nat where "kAnalysisChunkSamples \<equiv> 4 * 2 ^ 20"

text \<open>
  The output stream: what is on the volume, what the buffer of the stream holds, the room left, and how
  the stream buffers: of \<open>n\<close> bytes that wait to be written it holds back at most \<open>file_keeps n\<close>.
\<close>

record OutputFile =
  file_contents :: "byte list"
  file_pending :: "byte list"
  file_room :: nat
  file_keeps :: "nat \<Rightarrow> nat"

definition new_file :: "nat \<Rightarrow> (nat \<Rightarrow> nat) \<Rightarrow> OutputFile" where
  "new_file room keeps = \<lparr>file_contents = [], file_pending = [], file_room = room, file_keeps = keeps\<rparr>"

text \<open>Bytes handed to the volume: as many as it has room for.\<close>

definition file_drain :: "nat \<Rightarrow> OutputFile \<Rightarrow> bool \<times> OutputFile" where
  "file_drain wanted f =
     (let n = min wanted (file_room f)
      in (n = wanted, f\<lparr>file_contents := file_contents f @ take n (file_pending f),
            file_pending := drop n (file_pending f), file_room := file_room f - n\<rparr>))"

definition file_write :: "byte list \<Rightarrow> OutputFile \<Rightarrow> bool \<times> OutputFile" where
  "file_write bytes f =
     (let waiting = file_pending f @ bytes
      in file_drain (length waiting - file_keeps f (length waiting)) (f\<lparr>file_pending := waiting\<rparr>))"

definition file_flush :: "OutputFile \<Rightarrow> bool \<times> OutputFile" where
  "file_flush f = file_drain (length (file_pending f)) f"

definition file_accepted :: "OutputFile \<Rightarrow> byte list" where
  "file_accepted f = file_contents f @ file_pending f"

record RawSink =
  raw_is_open :: bool
  raw_file :: OutputFile
  raw_good :: bool
  raw_bytes_written :: nat
  raw_samples_written :: nat
  raw_finished :: bool
  raw_last_error :: string

definition new_RawSink :: RawSink where
  "new_RawSink = \<lparr>raw_is_open = False, raw_file = new_file 0 (\<lambda>_. 0), raw_good = True,
     raw_bytes_written = 0, raw_samples_written = 0, raw_finished = False, raw_last_error = ''''\<rparr>"

text \<open>\<open>Open\<close>: the new file, when it can be created at all.\<close>

definition RawSink_Open :: "OutputFile option \<Rightarrow> RawSink \<Rightarrow> bool \<times> RawSink" where
  "RawSink_Open created s =
     (case created of
        None \<Rightarrow> (False, s\<lparr>raw_last_error := ''RawSink::Open(): Failed to create the capture file''\<rparr>)
      | Some f \<Rightarrow> (True, s\<lparr>raw_is_open := True, raw_file := f,
          raw_good := True, raw_bytes_written := 0, raw_samples_written := 0, raw_finished := False\<rparr>))"

definition RawSink_flush :: "byte list \<Rightarrow> RawSink \<Rightarrow> bool \<times> RawSink" where
  "RawSink_flush scratch s =
     (if scratch = [] then (True, s)
      else case (if raw_good s then file_write scratch (raw_file s) else (False, raw_file s)) of
          (False, f) \<Rightarrow> (False, s\<lparr>raw_file := f, raw_good := False,
             raw_last_error := ''RawSink::Write(): Failed to write to the capture file''\<rparr>)
        | (True, f) \<Rightarrow> (True, s\<lparr>raw_file := f, raw_bytes_written := raw_bytes_written s + length scratch,
             raw_samples_written := raw_samples_written s + length scratch div kFileBytesPerSample\<rparr>))"

definition file_sample :: "u16 \<Rightarrow> byte list" where
  "file_sample ten_bit_value =
     (let sample = word_of_int (ToSigned16Bit (int (unat ten_bit_value))) :: u16
      in [ucast sample, ucast (drop_bit 8 sample)])"

text \<open>The loop over the samples; \<open>scratch\<close> is what has been converted and not yet flushed.\<close>

fun RawSink_loop :: "byte list \<Rightarrow> nat \<Rightarrow> byte list \<Rightarrow> RawSink \<Rightarrow> bool \<times> RawSink" where
  "RawSink_loop (low # high # rest) (Suc left) scratch s =
     (let scratch = scratch @ file_sample (ucast low OR push_bit 8 (ucast high))
      in if length scratch div kFileBytesPerSample = kWriteChunkSamples then
           (case RawSink_flush scratch s of
              (False, s) \<Rightarrow> (False, s)
            | (True, s) \<Rightarrow> RawSink_loop rest left [] s)
         else RawSink_loop rest left scratch s)"
| "RawSink_loop wire left scratch s = RawSink_flush scratch s"

definition RawSink_Write :: "byte list \<Rightarrow> nat \<Rightarrow> RawSink \<Rightarrow> bool \<times> RawSink" where
  "RawSink_Write wire_data samples s =
     (if \<not> raw_is_open s then
        (False, s\<lparr>raw_last_error := ''RawSink::Write(): The capture file is not open''\<rparr>)
      else RawSink_loop wire_data samples [] s)"

definition RawSink_Finish :: "RawSink \<Rightarrow> bool \<times> RawSink" where
  "RawSink_Finish s =
     (if raw_finished s \<or> \<not> raw_is_open s then (True, s)
      else case (if raw_good s then file_flush (raw_file s) else (False, raw_file s)) of
        (good, f) \<Rightarrow>
          let s = s\<lparr>raw_finished := True, raw_file := f, raw_good := good, raw_is_open := False\<rparr>
          in if good then (True, s)
             else (False, s\<lparr>raw_last_error := ''RawSink::Finish(): Failed to flush the capture file''\<rparr>))"

subsection \<open>What reaches the file\<close>

definition file_samples :: "u16 list \<Rightarrow> byte list" where
  "file_samples vs = concat (map file_sample vs)"

lemma length_file_sample [simp]: "length (file_sample v) = 2"
  by (simp add: file_sample_def Let_def)

lemma length_file_samples [simp]: "length (file_samples vs) = 2 * length vs"
  by (induction vs) (simp_all add: file_samples_def)

lemma file_drain_all: "file_drain n f = (True, g) \<Longrightarrow> file_accepted g = file_accepted f"
  by (auto simp: file_drain_def file_accepted_def Let_def)

lemma file_write_accepts: "file_write bytes f = (True, g) \<Longrightarrow> file_accepted g = file_accepted f @ bytes"
  by (auto simp: file_write_def Let_def dest!: file_drain_all) (simp add: file_accepted_def)

lemma file_flush_contents: "file_flush f = (True, g) \<Longrightarrow> file_contents g = file_accepted f"
  by (auto simp: file_flush_def file_drain_def file_accepted_def Let_def min_def split: if_splits)

definition file_spare :: "OutputFile \<Rightarrow> nat \<Rightarrow> bool" where
  "file_spare f n \<longleftrightarrow> length (file_pending f) + n \<le> file_room f"

lemma file_write_fits:
  "file_spare f (length bytes + n) \<Longrightarrow> fst (file_write bytes f) \<and> file_spare (snd (file_write bytes f)) n"
  by (auto simp: file_spare_def file_write_def file_drain_def Let_def)

lemma file_flush_fits: "file_spare f n \<Longrightarrow> fst (file_flush f)"
  by (simp add: file_spare_def file_flush_def file_drain_def Let_def)

lemma RawSink_flush_ok:
  "RawSink_flush scratch s = (True, s') \<Longrightarrow> even (length scratch) \<Longrightarrow>
     file_accepted (raw_file s') = file_accepted (raw_file s) @ scratch \<and> raw_good s' = raw_good s
     \<and> raw_is_open s' = raw_is_open s \<and> raw_finished s' = raw_finished s
     \<and> raw_bytes_written s' = raw_bytes_written s + length scratch
     \<and> raw_samples_written s' = raw_samples_written s + length scratch div 2"
  by (auto simp: RawSink_flush_def file_write_accepts split: if_splits prod.splits bool.splits)

lemma RawSink_flush_fits:
  "raw_good s \<Longrightarrow> file_spare (raw_file s) (length scratch + n) \<Longrightarrow>
     fst (RawSink_flush scratch s) \<and> raw_good (snd (RawSink_flush scratch s))
     \<and> file_spare (raw_file (snd (RawSink_flush scratch s))) n"
  using file_write_fits [of "raw_file s" scratch n]
  by (cases "file_write scratch (raw_file s)") (auto simp: RawSink_flush_def split: bool.splits)

text \<open>A flush that reports no failure has put everything the sink accepted into the file.\<close>

lemma RawSink_Finish_stores:
  "RawSink_Finish s = (True, s') \<Longrightarrow> raw_is_open s \<Longrightarrow> \<not> raw_finished s \<Longrightarrow>
     file_contents (raw_file s') = file_accepted (raw_file s)"
  by (auto simp: RawSink_Finish_def Let_def file_flush_contents split: prod.splits if_splits)

lemma file_samples_Cons: "file_samples (w # ws) = file_sample w @ file_samples ws"
  by (simp add: file_samples_def)

lemma RawSink_loop_Suc:
  "RawSink_loop (low # high # rest) (Suc left) scratch s =
     (let scratch' = scratch @ file_sample (ucast low OR push_bit 8 (ucast high))
      in if length scratch' div 2 = 65536
         then if fst (RawSink_flush scratch' s) then RawSink_loop rest left [] (snd (RawSink_flush scratch' s))
              else (False, snd (RawSink_flush scratch' s))
         else RawSink_loop rest left scratch' s)"
  by (simp add: Let_def split: prod.splits bool.splits)

lemma RawSink_loop_0: "RawSink_loop wire 0 scratch s = RawSink_flush scratch s"
  by (cases wire rule: words_of.cases) simp_all

definition stored :: "RawSink \<Rightarrow> byte list \<Rightarrow> nat \<Rightarrow> RawSink \<Rightarrow> bool" where
  "stored s bytes n s' \<longleftrightarrow> file_accepted (raw_file s') = file_accepted (raw_file s) @ bytes
     \<and> raw_good s' = raw_good s \<and> raw_is_open s' = raw_is_open s \<and> raw_finished s' = raw_finished s
     \<and> raw_samples_written s' = raw_samples_written s + n"

lemma stored_flush:
  "fst (RawSink_flush scratch s) \<Longrightarrow> even (length scratch) \<Longrightarrow>
     stored s scratch (length scratch div 2) (snd (RawSink_flush scratch s))"
  using RawSink_flush_ok [of scratch s "snd (RawSink_flush scratch s)"]
  by (cases "RawSink_flush scratch s") (simp add: stored_def)

lemma stored_trans: "stored s a n t \<Longrightarrow> stored t b m u \<Longrightarrow> stored s (a @ b) (n + m) u"
  by (simp add: stored_def)

lemma RawSink_loop_ok:
  "fst (RawSink_loop wire n scratch s) \<Longrightarrow> even (length scratch) \<Longrightarrow> 2 * n \<le> length wire \<Longrightarrow>
     stored s (scratch @ file_samples (take n (words_of wire))) (length scratch div 2 + n)
       (snd (RawSink_loop wire n scratch s))"
proof (induction n arbitrary: wire scratch s)
  case 0
  then show ?case using stored_flush by (simp add: RawSink_loop_0 file_samples_def)
next
  case (Suc n)
  obtain low high rest where wire: "wire = low # high # rest"
    using Suc.prems(3) by (cases wire rule: words_of.cases) auto
  define w :: u16 where "w = ucast low OR push_bit 8 (ucast high)"
  define scratch' where "scratch' = scratch @ file_sample w"
  have ev: "even (length scratch')" "length scratch' div 2 = length scratch div 2 + 1"
    using Suc.prems(2) by (simp_all add: scratch'_def)
  have words: "take (Suc n) (words_of wire) = w # take n (words_of rest)" by (simp add: wire w_def)
  have bytes: "scratch @ file_samples (take (Suc n) (words_of wire)) = scratch' @ file_samples (take n (words_of rest))"
    by (simp add: words scratch'_def file_samples_Cons)
  note step = RawSink_loop_Suc [of low high rest n scratch s, folded wire w_def, unfolded Let_def, folded scratch'_def]
  have len: "2 * n \<le> length rest" using Suc.prems(3) by (simp add: wire)
  show ?case
  proof (cases "length scratch' div 2 = 65536")
    case True
    have f: "fst (RawSink_flush scratch' s)" and r: "RawSink_loop wire (Suc n) scratch s = RawSink_loop rest n [] (snd (RawSink_flush scratch' s))"
      using Suc.prems(1) True step by (auto split: if_splits)
    have "fst (RawSink_loop rest n [] (snd (RawSink_flush scratch' s)))" using Suc.prems(1) r by simp
    from Suc.IH [OF this _ len] show ?thesis
      using stored_trans [OF stored_flush [OF f ev(1)]] ev(2) unfolding bytes r by force
  next
    case False
    then have r: "RawSink_loop wire (Suc n) scratch s = RawSink_loop rest n scratch' s" using step by simp
    have "fst (RawSink_loop rest n scratch' s)" using Suc.prems(1) r by simp
    from Suc.IH [OF this ev(1) len] show ?thesis unfolding bytes r using ev(2) by simp
  qed
qed

lemma RawSink_loop_fits:
  "raw_good s \<Longrightarrow> even (length scratch) \<Longrightarrow> 2 * n \<le> length wire \<Longrightarrow>
     file_spare (raw_file s) (length scratch + 2 * n) \<Longrightarrow>
     fst (RawSink_loop wire n scratch s) \<and> raw_good (snd (RawSink_loop wire n scratch s))
     \<and> file_spare (raw_file (snd (RawSink_loop wire n scratch s))) 0"
proof (induction n arbitrary: wire scratch s)
  case 0
  then show ?case using RawSink_flush_fits [of s scratch 0] by (simp add: RawSink_loop_0)
next
  case (Suc n)
  obtain low high rest where wire: "wire = low # high # rest"
    using Suc.prems(3) by (cases wire rule: words_of.cases) auto
  define scratch' where "scratch' = scratch @ file_sample (ucast low OR push_bit 8 (ucast high))"
  have ev: "even (length scratch')" "length scratch' = length scratch + 2"
    using Suc.prems(2) by (simp_all add: scratch'_def)
  note step = RawSink_loop_Suc [of low high rest n scratch s, folded wire, unfolded Let_def, folded scratch'_def]
  have len: "2 * n \<le> length rest" using Suc.prems(3) by (simp add: wire)
  have fits: "file_spare (raw_file s) (length scratch' + 2 * n)" using Suc.prems(4) ev(2) by (simp add: file_spare_def)
  note F = RawSink_flush_fits [OF Suc.prems(1) fits]
  show ?case unfolding step
    using F Suc.IH [of "snd (RawSink_flush scratch' s)" "[]" rest] Suc.IH [OF Suc.prems(1) ev(1) len fits] len by simp
qed

subsection \<open>Reading it back\<close>

definition sample_from_file :: "byte \<Rightarrow> byte \<Rightarrow> u16" where
  "sample_from_file low high =
     word_of_int (ToTenBit (sint (ucast low OR push_bit 8 (ucast high) :: u16)))"

fun samples_from_file :: "byte list \<Rightarrow> u16 list" where
  "samples_from_file (low # high # rest) = sample_from_file low high # samples_from_file rest"
| "samples_from_file rest = []"

text \<open>
  \<open>Read\<close> of the uncompressed format, on what can still be read of the file: the samples, whether that
  was the end, and the rest. It never fails: a device that gives no more bytes looks like the end of
  the file. \<open>None\<close>, a failed read, is what a reader of the compressed format may answer.
\<close>

definition CaptureReader_Read :: "nat \<Rightarrow> byte list \<Rightarrow> (u16 list \<times> bool \<times> byte list) option" where
  "CaptureReader_Read max_samples file =
     (let samples_wanted = min max_samples (kRawReadChunkBytes div kBytesPerSample);
          bytes = take (samples_wanted * kBytesPerSample) file
      in if bytes = [] then Some ([], True, file)
         else Some (samples_from_file bytes, length bytes < samples_wanted * kBytesPerSample,
               drop (samples_wanted * kBytesPerSample) file))"

lemma file_sample_roundtrip: "v < 1024 \<Longrightarrow> samples_from_file (file_sample v @ bs) = v # samples_from_file bs"
proof -
  assume "v < 1024"
  then have v: "0 \<le> uint v" "uint v < 1024" by (simp_all add: word_less_def)
  define t :: u16 where "t = word_of_int (ToSigned16Bit (uint v))"
  have bytes: "(ucast (ucast t :: byte) OR push_bit 8 (ucast (ucast (drop_bit 8 t) :: byte)) :: u16) = t"
  proof (rule bit_word_eqI)
    fix n :: nat
    assume "n < LENGTH(16)"
    then show "bit (ucast (ucast t :: byte) OR push_bit 8 (ucast (ucast (drop_bit 8 t) :: byte)) :: u16) n = bit t n"
      by (cases "n < 8") (auto simp: bit_or_iff bit_push_bit_iff bit_drop_bit_eq bit_ucast_iff)
  qed
  have "sint t = ToSigned16Bit (uint v)"
    by (simp add: t_def sint_sbintrunc' ToSigned16Bit_def)
  then have "sample_from_file (ucast t) (ucast (drop_bit 8 t)) = word_of_int (uint v)"
    by (simp add: sample_from_file_def bytes ten_bit_roundtrip [OF v])
  then show ?thesis by (simp add: file_sample_def Let_def flip: t_def)
qed

lemma samples_from_file_samples: "\<forall>v\<in>set vs. v < 1024 \<Longrightarrow> samples_from_file (file_samples vs) = vs"
  by (induction vs) (simp_all add: file_samples_Cons file_sample_roundtrip, simp add: file_samples_def)

lemma take_file_samples: "take (n * 2) (file_samples vs) = file_samples (take n vs)"
proof (induction vs arbitrary: n)
  case (Cons v vs)
  then show ?case by (cases n) (simp_all add: file_samples_Cons, simp add: file_samples_def)
qed (simp add: file_samples_def)

lemma drop_file_samples: "drop (n * 2) (file_samples vs) = file_samples (drop n vs)"
proof (induction vs arbitrary: n)
  case (Cons v vs)
  then show ?case by (cases n) (simp_all add: file_samples_Cons)
qed (simp add: file_samples_def)

lemma Read_file_samples:
  assumes "\<forall>v\<in>set vs. v < 1024" and "0 < max_samples"
  shows "CaptureReader_Read max_samples (file_samples vs) =
     (let n = min max_samples 65536 in
      Some (take n vs, length vs < n, file_samples (drop n vs)))"
proof (cases vs)
  case Nil
  then show ?thesis using assms(2) by (simp add: CaptureReader_Read_def file_samples_def Let_def)
next
  case (Cons v ws)
  define n where "n = min max_samples 65536"
  have n: "0 < n" using assms(2) by (simp add: n_def)
  have "samples_from_file (file_samples (take n vs)) = take n vs"
    using assms(1) by (intro samples_from_file_samples) (auto dest: in_set_takeD)
  moreover have "file_samples (take n vs) \<noteq> []"
    using n Cons by (metis length_file_samples length_0_conv take_eq_Nil2 list.distinct(1) mult_is_0 not_gr0 zero_neq_numeral)
  ultimately show ?thesis
    by (simp add: CaptureReader_Read_def Let_def take_file_samples drop_file_samples flip: n_def) (auto simp: min_def)
qed

subsection \<open>The offline check\<close>

datatype AnalysisOutcome = kPassed | kFailedRamp | kUnreadable | kCancelled

fun ExitCode :: "AnalysisOutcome \<Rightarrow> int" where
  "ExitCode kPassed = 0"
| "ExitCode kFailedRamp = 1"
| "ExitCode kUnreadable = 2"
| "ExitCode kCancelled = 2"

text \<open>
  The read loop, over a reader: how it ended, and the verifier. The reader is a function that gives the
  samples of one read, whether that was the end of the file, and the reader after it, or fails. The
  \<open>k\<close>th question of whether the caller has cancelled is answered by \<open>cancelled k\<close>. A reader may go on
  for ever, so the value is an option: \<open>None\<close> would be a loop that does not return.
\<close>

datatype analysis_end = ran_out | stopped_early | read_failed

partial_function (option) analyse_loop ::
    "(nat \<Rightarrow> 'r \<Rightarrow> (u16 list \<times> bool \<times> 'r) option) \<Rightarrow> (nat \<Rightarrow> bool) \<Rightarrow> nat \<Rightarrow> bool \<Rightarrow> 'r \<Rightarrow> TestPatternVerifier
     \<Rightarrow> (analysis_end \<times> TestPatternVerifier) option" where
  "analyse_loop read_samples cancelled k end_of_file reader verifier =
     (if end_of_file then Some (ran_out, verifier)
      else if cancelled k then Some (stopped_early, verifier)
      else case read_samples kAnalysisChunkSamples reader of
        None \<Rightarrow> Some (read_failed, verifier)
      | Some (samples, end_of_file, reader) \<Rightarrow>
          if samples = [] then Some (ran_out, verifier)
          else case Feed samples verifier of
            (still_good, verifier) \<Rightarrow>
              if still_good then analyse_loop read_samples cancelled (k + 1) end_of_file reader verifier
              else Some (ran_out, verifier))"

text \<open>The reader is \<open>None\<close> when the file has another extension or cannot be opened.\<close>

definition AnalyseTestData ::
    "(nat \<Rightarrow> 'r \<Rightarrow> (u16 list \<times> bool \<times> 'r) option) \<Rightarrow> (nat \<Rightarrow> bool) \<Rightarrow> 'r option
     \<Rightarrow> (AnalysisOutcome \<times> PatternResult) option" where
  "AnalyseTestData read_samples cancelled opened =
     (case opened of
        None \<Rightarrow> Some (kUnreadable, pattern_result fresh_verifier)
      | Some reader \<Rightarrow>
          (case analyse_loop read_samples cancelled 0 False reader fresh_verifier of
             None \<Rightarrow> None
           | Some (how, verifier) \<Rightarrow>
               Some (if how = read_failed then (kUnreadable, pattern_result fresh_verifier)
                 else (if \<not> pattern_passed (pattern_result verifier) then kFailedRamp
                   else if how = stopped_early then kCancelled else kPassed, pattern_result verifier))))"

lemma Feed_Nil: "Feed [] s = (pattern_passed (pattern_result s), s)"
  by (simp add: Feed_def)

lemma Feed_good: "pattern_passed (pattern_result (snd (Feed vs s))) = fst (Feed vs s)"
  using feed_samples_passed [of s vs] by (simp add: Feed_def)

lemma Feed_stuck: "\<not> pattern_passed (pattern_result s) \<Longrightarrow> Feed vs s = (False, s)"
  by (simp add: Feed_def)

lemma analyse_loop_whole:
  assumes "\<forall>v\<in>set vs. v < 1024" and "pattern_passed (pattern_result s)" and "end_of_file \<longrightarrow> vs = []"
  shows "analyse_loop CaptureReader_Read (\<lambda>_. False) k end_of_file (file_samples vs) s = Some (ran_out, snd (Feed vs s))"
  using assms
proof (induction "length vs" arbitrary: vs s k end_of_file rule: less_induct)
  case less
  note R = Read_file_samples [OF less.prems(1), of kAnalysisChunkSamples, simplified Let_def]
  show ?case
  proof (cases "end_of_file \<or> vs = []")
    case True
    then show ?thesis using less.prems(2,3) R
      by (subst analyse_loop.simps) (auto simp: Feed_Nil)
  next
    case False
    define n :: nat where "n = 65536"
    have R': "CaptureReader_Read kAnalysisChunkSamples (file_samples vs) = Some (take n vs, length vs < n, file_samples (drop n vs))"
      using R by (simp add: n_def)
    have ne: "take n vs \<noteq> []" using False by (simp add: n_def)
    obtain good t where F: "Feed (take n vs) s = (good, t)" by (cases "Feed (take n vs) s")
    have good: "pattern_passed (pattern_result t) = good" using Feed_good [of "take n vs" s] F by simp
    have whole: "Feed vs s = Feed (drop n vs) t" using Feed_append [of "take n vs" "drop n vs" s] F by simp
    have "analyse_loop CaptureReader_Read (\<lambda>_. False) (k + 1) (length vs < n) (file_samples (drop n vs)) t
        = Some (ran_out, snd (Feed (drop n vs) t))"
      if good using less.hyps [of "drop n vs" t "length vs < n" "k + 1"] less.prems(1) that good False
      by (simp add: n_def) (auto dest: in_set_dropD)
    then show ?thesis
      using False ne F good whole Feed_stuck [of t "drop n vs"]
      by (subst analyse_loop.simps) (auto simp: R' [simplified])
  qed
qed

lemma AnalyseTestData_whole:
  assumes "\<forall>v\<in>set vs. v < 1024"
  shows "AnalyseTestData CaptureReader_Read (\<lambda>_. False) (Some (file_samples vs)) =
     Some (if on_ramp vs then kPassed else kFailedRamp, pattern_result (snd (Feed vs fresh_verifier)))"
proof -
  have fresh: "pattern_passed (pattern_result fresh_verifier)" by (simp add: fresh_verifier_def)
  have "analyse_loop CaptureReader_Read (\<lambda>_. False) 0 False (file_samples vs) fresh_verifier
      = Some (ran_out, snd (Feed vs fresh_verifier))"
    by (rule analyse_loop_whole [OF assms fresh]) simp
  then show ?thesis by (simp add: AnalyseTestData_def Feed_good Feed_fresh_iff)
qed

text \<open>
  A capture of older gateware, whose ramp runs up to 1023, does not pass: the length of the ramp is a
  constant of the verifier, and the check stops at the first value beyond 1020.
\<close>

lemma older_ramp_fails:
  "map_option fst (AnalyseTestData CaptureReader_Read (\<lambda>_. False) (Some (file_samples ([1019, 1020, 1021, 1022, 1023, 0] @ vs))))
     = Some kFailedRamp" if "\<forall>v\<in>set vs. v < 1024"
proof -
  define ws :: "u16 list" where "ws = [1019, 1020, 1021, 1022, 1023, 0] @ vs"
  have "\<forall>v\<in>set ws. v < 1024" using that by (auto simp: ws_def)
  moreover have "\<not> on_ramp ws" by (simp add: ws_def on_ramp_def ramp_next_def)
  ultimately show ?thesis using AnalyseTestData_whole [of ws] by (simp add: ws_def)
qed

text \<open>A read that fails is no verdict on the capture.\<close>

lemma failed_read_unreadable:
  "read_samples kAnalysisChunkSamples reader = None \<Longrightarrow> \<not> cancelled 0 \<Longrightarrow>
     map_option fst (AnalyseTestData read_samples cancelled (Some reader)) = Some kUnreadable"
  by (simp add: AnalyseTestData_def analyse_loop.simps)

end
