(* ===== verification/CaptureWork.thy ===== *)
theory CaptureWork
  imports CaptureEnd CaptureFile
begin

text \<open>
  What the processing thread of \<^verbatim>\<open>ddd-gui/src/capture/capture_pipeline.cpp\<close> does to one buffer: the
  validator, the metrics, the test pattern, the snapshot for the displays and the sink, in that
  order, with the result that is latched when one of them fails. The sink is an interface,
  \<^verbatim>\<open>sample_sink.h\<close>, stated as a locale; \<^verbatim>\<open>sample_sink.cpp\<close> and \<^verbatim>\<open>raw_sink.cpp\<close> provide it. The last
  lemmas put the threads, the work and the file together: what a capture that ends with success has
  in its file, and what the offline check says of it.
\<close>

record CaptureOptions =
  test_mode :: bool
  snapshot_interval_buffers :: nat
  snapshot_bytes :: nat

record 's CaptureWorker =
  validator :: SequenceValidator
  metrics :: SampleMetrics
  test_pattern_verifier :: TestPatternVerifier
  test_pattern_checked :: bool
  buffers_since_snapshot :: nat
  snapshots :: "byte list list"
  sink :: "'s option"

definition new_worker :: "'s option \<Rightarrow> 's CaptureWorker" where
  "new_worker s = \<lparr>validator = validator_Reset, metrics = metrics_Reset, test_pattern_verifier = fresh_verifier,
     test_pattern_checked = False, buffers_since_snapshot = 0, snapshots = [], sink = s\<rparr>"

definition publish_snapshot :: "CaptureOptions \<Rightarrow> byte list \<Rightarrow> 's CaptureWorker \<Rightarrow> 's CaptureWorker" where
  "publish_snapshot opts data w =
     (let since = buffers_since_snapshot w + 1
      in if snapshot_interval_buffers opts \<le> since
         then w\<lparr>buffers_since_snapshot := 0, snapshots := snapshots w @ [take (snapshot_bytes opts) data]\<rparr>
         else w\<lparr>buffers_since_snapshot := since\<rparr>)"

definition process_buffer ::
    "(byte list \<Rightarrow> nat \<Rightarrow> 's \<Rightarrow> bool \<times> 's) \<Rightarrow> CaptureOptions \<Rightarrow> byte list \<Rightarrow> 's CaptureWorker
     \<Rightarrow> TransferResult option \<times> 's CaptureWorker" where
  "process_buffer sink_write opts slot w =
     (case Process slot (validator w) of (data, v, outcome) \<Rightarrow>
       let w = w\<lparr>validator := v, metrics := Accumulate (outcome_tally outcome) (metrics w)\<rparr>
       in if \<not> outcome_ok outcome then (Some kSequenceMismatch, w)
       else let (good, w) =
              (if test_mode opts then
                 (case FeedWireBytes data (test_pattern_verifier w) of
                    (good, t) \<Rightarrow> (good, w\<lparr>test_pattern_checked := True, test_pattern_verifier := t\<rparr>))
               else (True, w))
       in if \<not> good then (Some kVerificationError, w)
       else let w = publish_snapshot opts data w
       in case sink w of
            None \<Rightarrow> (None, w)
          | Some s \<Rightarrow>
              (case sink_write data (length slot div kBytesPerSample) s of
                 (written, s) \<Rightarrow> (if written then None else Some kFileWriteError, w\<lparr>sink := Some s\<rparr>)))"

text \<open>\<open>Finish\<close> of the sink, when there is one.\<close>

definition finish_worker :: "('s \<Rightarrow> bool \<times> 's) \<Rightarrow> 's CaptureWorker \<Rightarrow> bool \<times> 's CaptureWorker" where
  "finish_worker sink_finish w =
     (case sink w of
        None \<Rightarrow> (True, w)
      | Some s \<Rightarrow> (case sink_finish s of (good, s) \<Rightarrow> (good, w\<lparr>sink := Some s\<rparr>)))"

lemma process_buffer_fails:
  "process_buffer write_sink opts b c = (Some e, c') \<Longrightarrow> TransferFailed e"
  by (auto simp: process_buffer_def Let_def TransferFailed_def split: prod.splits option.splits if_splits)

text \<open>A buffer that passed: each part did its share on the stripped data.\<close>

lemma process_buffer_ok:
  assumes "process_buffer write_sink opts slot w = (None, w')"
  shows "\<exists>data out. Process slot (validator w) = (data, validator w', out) \<and> outcome_ok out
     \<and> metrics w' = Accumulate (outcome_tally out) (metrics w)
     \<and> (test_mode opts \<longrightarrow> FeedWireBytes data (test_pattern_verifier w) = (True, test_pattern_verifier w'))
     \<and> (case sink w of None \<Rightarrow> sink w' = None
        | Some s \<Rightarrow> \<exists>s'. write_sink data (length slot div 2) s = (True, s') \<and> sink w' = Some s')"
  using assms
  by (auto simp: process_buffer_def Let_def publish_snapshot_def split: prod.splits option.splits if_splits)

subsection \<open>The sink as an interface\<close>

locale sample_sink =
  fixes sink_write :: "byte list \<Rightarrow> nat \<Rightarrow> 's \<Rightarrow> bool \<times> 's"
    and samples_taken :: "'s \<Rightarrow> nat"
  assumes write_counts: "sink_write data n s = (True, s') \<Longrightarrow> 2 * n \<le> length data \<Longrightarrow>
    samples_taken s' = samples_taken s + n"
begin

lemma run_counts:
  "run_work (process_buffer sink_write opts) bufs w = (None, w') \<Longrightarrow> sink w = Some s \<Longrightarrow>
     \<forall>b\<in>set bufs. \<forall>v. length (fst (Process b v)) = length b \<Longrightarrow>
     \<exists>s'. sink w' = Some s' \<and> samples_taken s' = samples_taken s + sum_list (map (\<lambda>b. length b div 2) bufs)"
proof (induction bufs arbitrary: w s)
  case (Cons b bufs)
  obtain w1 where w1: "process_buffer sink_write opts b w = (None, w1)"
      and r: "run_work (process_buffer sink_write opts) bufs w1 = (None, w')"
    using Cons.prems(1) by (auto split: prod.splits option.splits)
  obtain data v out s1 where d: "Process b (validator w) = (data, v, out)"
      "sink_write data (length b div 2) s = (True, s1)" "sink w1 = Some s1"
    using process_buffer_ok [OF w1] Cons.prems(2) by auto
  have "length data = length b" using Cons.prems(3) d(1) by (metis fst_conv list.set_intros(1))
  then have "samples_taken s1 = samples_taken s + length b div 2" by (intro write_counts [OF d(2)]) simp
  then show ?case using Cons.IH [OF r d(3)] Cons.prems(3) by auto
qed simp

end

locale storing_sink = sample_sink sink_write samples_taken
    for sink_write :: "byte list \<Rightarrow> nat \<Rightarrow> 's \<Rightarrow> bool \<times> 's" and samples_taken +
  fixes sink_finish :: "'s \<Rightarrow> bool \<times> 's"
    and is_open :: "'s \<Rightarrow> bool"
    and accepted :: "'s \<Rightarrow> byte list"
    and contents :: "'s \<Rightarrow> byte list"
  assumes write_accepts: "sink_write data n s = (True, s') \<Longrightarrow> 2 * n \<le> length data \<Longrightarrow>
    accepted s' = accepted s @ file_samples (take n (words_of data))"
    and write_open: "sink_write data n s = (True, s') \<Longrightarrow> 2 * n \<le> length data \<Longrightarrow> is_open s \<Longrightarrow> is_open s'"
    and finish_stores: "sink_finish s = (True, s') \<Longrightarrow> is_open s \<Longrightarrow> contents s' = accepted s"
begin

lemma run_accepts:
  "run_work (process_buffer sink_write opts) bufs w = (None, w') \<Longrightarrow> sink w = Some s \<Longrightarrow> is_open s \<Longrightarrow>
     \<forall>b\<in>set bufs. \<forall>v. length (fst (Process b v)) = length b \<Longrightarrow>
     \<exists>s' out ts. sink w' = Some s' \<and> validate_buffers bufs (validator w) = Some (out, validator w', ts)
       \<and> is_open s' \<and> accepted s' = accepted s @ file_samples (concat (map words_of out))
       \<and> metrics w' = fold Accumulate ts (metrics w)
       \<and> (test_mode opts \<longrightarrow> pattern_passed (pattern_result (test_pattern_verifier w)) \<longrightarrow>
            feed_buffers out (test_pattern_verifier w) = (True, test_pattern_verifier w'))"
proof (induction bufs arbitrary: w s)
  case Nil
  then show ?case by (simp add: file_samples_def)
next
  case (Cons b bufs)
  obtain w1 where w1: "process_buffer sink_write opts b w = (None, w1)"
      and r: "run_work (process_buffer sink_write opts) bufs w1 = (None, w')"
    using Cons.prems(1) by (auto split: prod.splits option.splits)
  obtain data out1 s1 where d: "Process b (validator w) = (data, validator w1, out1)" "outcome_ok out1"
      "metrics w1 = Accumulate (outcome_tally out1) (metrics w)"
      "test_mode opts \<longrightarrow> FeedWireBytes data (test_pattern_verifier w) = (True, test_pattern_verifier w1)"
      "sink_write data (length b div 2) s = (True, s1)" "sink w1 = Some s1"
    using process_buffer_ok [OF w1] Cons.prems(2) by auto
  have len: "length data = length b" using Cons.prems(4) d(1) by (metis fst_conv list.set_intros(1))
  then have c: "accepted s1 = accepted s @ file_samples (words_of data)" "is_open s1"
    using write_accepts [OF d(5)] write_open [OF d(5) _ Cons.prems(3)] by simp_all
  obtain s' out ts where IH: "sink w' = Some s'" "validate_buffers bufs (validator w1) = Some (out, validator w', ts)"
      "is_open s'" "accepted s' = accepted s1 @ file_samples (concat (map words_of out))"
      "metrics w' = fold Accumulate ts (metrics w1)"
      "test_mode opts \<longrightarrow> pattern_passed (pattern_result (test_pattern_verifier w1)) \<longrightarrow>
            feed_buffers out (test_pattern_verifier w1) = (True, test_pattern_verifier w')"
    using Cons.IH [OF r d(6) c(2)] Cons.prems(4) by auto
  have p: "pattern_passed (pattern_result (test_pattern_verifier w1))" if "test_mode opts"
    using d(4) that Feed_good [of "values_of data" "test_pattern_verifier w"] by (simp add: FeedWireBytes_Feed)
  have "validate_buffers (b # bufs) (validator w) = Some (data # out, validator w', outcome_tally out1 # ts)"
    using d(1,2) IH(2) by simp
  moreover have "accepted s' = accepted s @ file_samples (concat (map words_of (data # out)))"
    using IH(4) c(1) by (simp add: file_samples_def)
  moreover have "metrics w' = fold Accumulate (outcome_tally out1 # ts) (metrics w)" using IH(5) d(3) by simp
  moreover have "test_mode opts \<longrightarrow> feed_buffers (data # out) (test_pattern_verifier w) = (True, test_pattern_verifier w')"
    using d(4) IH(6) p by auto
  ultimately show ?case using IH(1,3) by blast
qed

text \<open>And when the sink has been closed without a failure, all of it is in the file.\<close>

lemma run_stores:
  assumes "run_work (process_buffer sink_write opts) bufs w = (None, w1)"
    and "finish_worker sink_finish w1 = (True, w')" and "sink w = Some s" and "is_open s"
    and "\<forall>b\<in>set bufs. \<forall>v. length (fst (Process b v)) = length b"
  shows "\<exists>s' out ts. sink w' = Some s' \<and> validate_buffers bufs (validator w) = Some (out, validator w', ts)
     \<and> contents s' = accepted s @ file_samples (concat (map words_of out))
     \<and> metrics w' = fold Accumulate ts (metrics w)
     \<and> (test_mode opts \<longrightarrow> pattern_passed (pattern_result (test_pattern_verifier w)) \<longrightarrow>
          feed_buffers out (test_pattern_verifier w) = (True, test_pattern_verifier w'))"
proof -
  obtain s1 out ts where R: "sink w1 = Some s1" "validate_buffers bufs (validator w) = Some (out, validator w1, ts)"
      "is_open s1" "accepted s1 = accepted s @ file_samples (concat (map words_of out))"
      "metrics w1 = fold Accumulate ts (metrics w)"
      "test_mode opts \<longrightarrow> pattern_passed (pattern_result (test_pattern_verifier w)) \<longrightarrow>
          feed_buffers out (test_pattern_verifier w) = (True, test_pattern_verifier w1)"
    using run_accepts [OF assms(1,3,4,5)] by blast
  obtain s' where f: "sink_finish s1 = (True, s')" "w' = w1\<lparr>sink := Some s'\<rparr>"
    using assms(2) R(1) by (auto simp: finish_worker_def split: prod.splits)
  show ?thesis using R f(2) finish_stores [OF f(1) R(3)] by simp
qed

end

subsection \<open>The sinks\<close>

record NullSink =
  null_samples_written :: nat

definition NullSink_Write :: "byte list \<Rightarrow> nat \<Rightarrow> NullSink \<Rightarrow> bool \<times> NullSink" where
  "NullSink_Write wire_data samples s = (True, s\<lparr>null_samples_written := null_samples_written s + samples\<rparr>)"

definition NullSink_Finish :: "NullSink \<Rightarrow> bool \<times> NullSink" where
  "NullSink_Finish s = (True, s)"

interpretation null_sink: sample_sink NullSink_Write null_samples_written
  by (rule sample_sink.intro) (auto simp: NullSink_Write_def)

lemma RawSink_Write_stored:
  "RawSink_Write data n s = (True, s') \<Longrightarrow> 2 * n \<le> length data \<Longrightarrow>
     stored s (file_samples (take n (words_of data))) n s'"
  using RawSink_loop_ok [of data n "[]" s] by (auto simp: RawSink_Write_def split: if_splits)

interpretation raw_sink: sample_sink RawSink_Write raw_samples_written
  by (rule sample_sink.intro) (auto dest: RawSink_Write_stored simp: stored_def)

interpretation raw_file: storing_sink RawSink_Write raw_samples_written RawSink_Finish
    "\<lambda>s. raw_is_open s \<and> \<not> raw_finished s" "\<lambda>s. file_accepted (raw_file s)" "\<lambda>s. file_contents (raw_file s)"
  by (intro storing_sink.intro storing_sink_axioms.intro raw_sink.sample_sink_axioms)
    (auto dest: RawSink_Write_stored RawSink_Finish_stores simp: stored_def)

subsection \<open>A whole capture\<close>

lemma process_samples_length:
  "length (fst (process_samples checking from i buf s out)) = length buf"
proof (induction buf arbitrary: i s out rule: words_of.induct)
  case (1 l h bs)
  then show ?case by (cases "checking") (simp_all add: Let_def split_beta split: sum.splits)
qed simp_all

lemma Process_length: "length (fst (Process b v)) = length b"
  by (auto simp: Process_def Let_def process_samples_length split: prod.splits)

lemma Process_fresh_state:
  "v = validator_Reset \<or> sv_state v \<in> {kRunning, kDisabled} \<Longrightarrow> Process b v = (b', v', out) \<Longrightarrow> outcome_ok out \<Longrightarrow>
     b' = strip_markers b \<and> outcome_tally out = tally_of (values_of b)
     \<and> (v' = validator_Reset \<or> sv_state v' \<in> {kRunning, kDisabled})"
proof (elim disjE)
  assume v: "v = validator_Reset" and P: "Process b v = (b', v', out)" "outcome_ok out"
  show ?thesis
  proof (cases "first_change b")
    case None
    then show ?thesis using Process_synchronising [of b] P v by auto
  next
    case (Some i)
    define u where "u = locked_on (counters_of b ! i)"
    have u: "limit_of u = 65536" "sv_state u = kRunning" by (simp_all add: u_def limit_of_def locked_on_def)
    obtain w l where w: "check_counters (drop i (counters_of b)) (u, 65536) = Inr (w, l)"
      using Process_synchronising [of b] P v Some by (auto split: sum.splits simp flip: u_def)
    have "sv_state w = kRunning" using check_counters_keeps [of _ u w l] w u by simp
    then show ?thesis using Process_synchronising [of b] P v Some w by (simp flip: u_def)
  qed
next
  assume v: "sv_state v \<in> {kRunning, kDisabled}" and P: "Process b v = (b', v', out)" "outcome_ok out"
  show ?thesis
  proof (cases "sv_state v = kRunning")
    case True
    obtain w l where w: "check_counters (counters_of b) (v, limit_of v) = Inr (w, l)"
      using Process_running [OF True, of b] P by (auto split: sum.splits)
    have "sv_state w = kRunning" using check_counters_keeps [OF w] True by simp
    then show ?thesis using Process_running [OF True, of b] P w by (simp add: fresh_outcome_def)
  next
    case False
    then have d: "sv_state v = kDisabled" using v by simp
    show ?thesis using Process_disabled [OF d, of b] P d by (simp add: fresh_outcome_def)
  qed
qed

lemma validate_measured:
  "v = validator_Reset \<or> sv_state v \<in> {kRunning, kDisabled} \<Longrightarrow> validate_buffers bufs v = Some (out, v', ts) \<Longrightarrow>
     (out, v', ts) = measured bufs v'"
proof (induction bufs arbitrary: v out ts)
  case (Cons b bufs)
  obtain b' v1 o1 where P: "Process b v = (b', v1, o1)" by (cases "Process b v") auto
  then obtain out' ts' where r: "outcome_ok o1" "validate_buffers bufs v1 = Some (out', v', ts')"
      "out = b' # out'" "ts = outcome_tally o1 # ts'"
    using Cons.prems(2) by (auto split: if_splits option.splits prod.splits)
  note F = Process_fresh_state [OF Cons.prems(1) P r(1)]
  show ?case using Cons.IH [of v1 out' ts'] F r by (simp add: measured_def)
qed (simp add: measured_def)

lemma Accumulate_fold:
  "sm_total (fold Accumulate (map (\<lambda>b. tally_of (values_of b)) bufs) m) = merge_tally (sm_total m) (tally_of (concat (map values_of bufs)))"
proof (induction bufs arbitrary: m)
  case Nil
  have "tally_of [] = empty_tally" by (simp add: tally_of_def)
  then show ?case by simp
next
  case (Cons b bufs)
  have cnt: "sample_count (fold measure_sample vs t) = sample_count t + length vs" for vs t
    by (induction vs arbitrary: t) (simp_all add: measure_sample_def)
  have "sm_total (Accumulate (tally_of (values_of b)) m) = merge_tally (sm_total m) (tally_of (values_of b))"
  proof (cases "values_of b = []")
    case True
    then have t: "tally_of (values_of b) = empty_tally" by (simp add: tally_of_def)
    show ?thesis by (simp add: t Accumulate_def) (simp add: empty_tally_def)
  next
    case False
    then have "0 < length (values_of b)" by blast
    then have "sample_count (tally_of (values_of b)) \<noteq> 0" by (simp add: tally_of_def cnt empty_tally_def del: length_values_of)
    then show ?thesis by (simp add: Accumulate_def Let_def)
  qed
  then show ?case using Cons.IH by (simp add: merge_tally_assoc merge_tally_of)
qed

text \<open>
  A capture into a file: what a run that was not aborted and ended with success has written, what it
  has measured, and what it has checked.
\<close>

lemma finished_capture:
  assumes n: "0 < n" and opened: "RawSink_Open (Some (new_file room keeps)) new_RawSink = (True, s0)"
    and r: "reachable gen limit (process_buffer RawSink_Write opts) n b (new_worker (Some s0)) s"
    and f: "finished s" "capture_result t = kSuccess" "\<not> abort_requested s"
    and t: "t = close_sink (finish_worker RawSink_Finish) s"
  shows "\<exists>s'. sink (worker t) = Some s'
     \<and> file_contents (raw_file s') = file_samples (concat (map values_of (map gen [0..<slots_delivered s])))
     \<and> sm_total (metrics (worker t)) = tally_of (concat (map values_of (map gen [0..<slots_delivered s])))
     \<and> (test_mode opts \<longrightarrow> on_ramp (concat (map values_of (map gen [0..<slots_delivered s]))))"
proof -
  define bufs where "bufs = map gen [0..<slots_delivered s]"
  define w0 where "w0 = new_worker (Some s0)"
  have "run_work (process_buffer RawSink_Write opts) (map gen [0..<slots_delivered s]) (new_worker (Some s0)) = (None, worker s)
      \<and> finish_worker RawSink_Finish (worker s) = (True, worker (close_sink (finish_worker RawSink_Finish) s))"
    by (rule finished_run [OF n process_buffer_fails r f(1) f(2) [unfolded t] f(3)])
  then have run: "run_work (process_buffer RawSink_Write opts) bufs w0 = (None, worker s)"
      and fin: "finish_worker RawSink_Finish (worker s) = (True, worker t)"
    by (simp_all add: bufs_def w0_def t)
  have w0: "sink w0 = Some s0" "validator w0 = validator_Reset" "metrics w0 = metrics_Reset"
      "test_pattern_verifier w0 = fresh_verifier"
    by (simp_all add: w0_def new_worker_def)
  have len: "\<forall>b\<in>set bufs. \<forall>v. length (fst (Process b v)) = length b" by (simp add: Process_length)
  have open0: "file_accepted (raw_file s0) = []" "raw_is_open s0 \<and> \<not> raw_finished s0"
    using opened by (auto simp: RawSink_Open_def new_file_def file_accepted_def)
  obtain s' out ts where R: "sink (worker t) = Some s'"
      "validate_buffers bufs validator_Reset = Some (out, validator (worker t), ts)"
      "file_contents (raw_file s') = file_accepted (raw_file s0) @ file_samples (concat (map words_of out))"
      "metrics (worker t) = fold Accumulate ts metrics_Reset"
      "test_mode opts \<longrightarrow> pattern_passed (pattern_result fresh_verifier) \<longrightarrow>
            feed_buffers out fresh_verifier = (True, test_pattern_verifier (worker t))"
    using raw_file.run_stores [OF run fin w0(1) open0(2) len] w0 by auto
  have m: "out = map strip_markers bufs" "ts = map (\<lambda>b. tally_of (values_of b)) bufs"
    using validate_measured [OF _ R(2)] by (simp_all add: measured_def)
  have e: "concat (map words_of out) = concat (map values_of bufs)"
    by (simp add: m comp_def words_of_strip)
  have v: "concat (map values_of out) = concat (map values_of bufs)" by (simp add: m comp_def values_of_strip)
  have "sm_total (metrics (worker t)) = merge_tally empty_tally (tally_of (concat (map values_of bufs)))"
    using Accumulate_fold [of bufs metrics_Reset] by (simp add: R(4) m metrics_Reset_def)
  moreover have "merge_tally empty_tally t = t" for t by (simp add: merge_tally_def empty_tally_def)
  moreover have "test_mode opts \<longrightarrow> on_ramp (concat (map values_of bufs))"
    using R(5) Feed_fresh_iff [of "concat (map values_of out)"]
    by (auto simp: feed_buffers_Feed v) (simp add: fresh_verifier_def)
  ultimately show ?thesis using R(1,3) e open0(1) by (simp add: bufs_def)
qed

lemma values_small: "\<forall>v\<in>set (values_of b). v < 1024"
proof -
  have "w AND 0x3FF < 1024" for w :: u16
  proof -
    have "w AND 0x3FF \<le> 0x3FF" by (rule word_and_le1)
    then show ?thesis by (simp add: word_le_nat_alt word_less_nat_alt)
  qed
  then show ?thesis by (auto simp: values_of_def SampleValueFromWord_def)
qed

text \<open>And the offline check of that file, in test mode.\<close>

lemma finished_test_capture:
  assumes n: "0 < n" and opened: "RawSink_Open (Some (new_file room keeps)) new_RawSink = (True, s0)"
    and r: "reachable gen limit (process_buffer RawSink_Write opts) n b (new_worker (Some s0)) s"
    and f: "finished s" "capture_result t = kSuccess" "\<not> abort_requested s"
    and t: "t = close_sink (finish_worker RawSink_Finish) s" and m: "test_mode opts"
  shows "\<exists>s'. sink (worker t) = Some s'
     \<and> map_option fst (AnalyseTestData CaptureReader_Read (\<lambda>_. False) (Some (file_contents (raw_file s')))) = Some kPassed"
proof -
  obtain s' where s': "sink (worker t) = Some s'"
     "file_contents (raw_file s') = file_samples (concat (map values_of (map gen [0..<slots_delivered s])))"
     "on_ramp (concat (map values_of (map gen [0..<slots_delivered s])))"
    using finished_capture [OF n opened r f t] m by blast
  have "\<forall>v\<in>set (concat (map values_of (map gen [0..<slots_delivered s]))). v < 1024"
    using values_small by auto
  from AnalyseTestData_whole [OF this] s' show ?thesis by simp
qed

end
