(* ===== verification/CaptureBench.thy ===== *)
theory CaptureBench
  imports CaptureWork
begin

text \<open>
  The properties of the capture path: what the threads and the ring of \<^verbatim>\<open>capture_pipeline.cpp\<close> promise,
  what the sequence validator and the test pattern tell, and what is in the file at the end. The
  witnesses run the model on small rings and on streams long enough to lock on to.
\<close>

section \<open>Properties of the capture path\<close>

text \<open>
  C10: A capture into an uncompressed file that nobody aborted, and whose result is success once the
  sink has been closed, has in its file exactly the ten-bit values of the buffers the source handed
  over, in their order, and its metrics are the measurements of those values. In test mode the offline
  check of the file passes. This holds for every interleaving of the transfer, processing and control
  threads and of stop requests, and however the stream of the file holds writes back: a volume that
  fills up is told by a write or by the flush at the end, and then the result is not success. A
  capture that is aborted while its last buffers drain can end with success and without them.
\<close>

theorem capture_file_complete:
  assumes "0 < n" and "RawSink_Open (Some (new_file room keeps)) new_RawSink = (True, s0)"
    and "reachable gen limit (process_buffer RawSink_Write opts) n b (new_worker (Some s0)) s"
    and "finished s" and "capture_result t = kSuccess" and "\<not> abort_requested s"
    and "t = close_sink (finish_worker RawSink_Finish) s"
  shows "\<exists>s'. sink (worker t) = Some s'
     \<and> file_contents (raw_file s') = file_samples (concat (map values_of (map gen [0..<slots_delivered s])))
     \<and> sm_total (metrics (worker t)) = tally_of (concat (map values_of (map gen [0..<slots_delivered s])))
     \<and> (test_mode opts \<longrightarrow>
          map_option fst (AnalyseTestData CaptureReader_Read (\<lambda>_. False) (Some (file_contents (raw_file s')))) = Some kPassed)"
proof -
  from finished_capture [OF assms] obtain s' where s': "sink (worker t) = Some s'"
     "file_contents (raw_file s') = file_samples (concat (map values_of (map gen [0..<slots_delivered s])))"
     "sm_total (metrics (worker t)) = tally_of (concat (map values_of (map gen [0..<slots_delivered s])))"
    by blast
  have "map_option fst (AnalyseTestData CaptureReader_Read (\<lambda>_. False) (Some (file_contents (raw_file s')))) = Some kPassed"
    if "test_mode opts"
    using finished_test_capture [OF assms that] s'(1) by auto
  with s' show ?thesis by blast
qed

definition bench_schedule :: "action list" where
  "bench_schedule =
     [Produce, Produce, Produce, Produce, Produce, Produce, Produce, Produce, Produce,
      Consume, Consume, Consume, Consume, Consume, Consume, Consume, Dump 0, Consume, Consume]"

lemma bench_run:
  assumes "work (gen 0) w0 = (None, w1)"
  shows "\<exists>s. perform_all gen 1 work bench_schedule (started 1 b w0) = Some s
     \<and> finished s \<and> latched s = None \<and> worker s = w1 \<and> \<not> abort_requested s \<and> slots_delivered s = 1"
  by (simp add: bench_schedule_def started_def new_ring_def producer_step_def consumer_step_def ring_ops
      WaitForSlotFree_def WaitForSlotFull_def ring_size_def TransferFailed_def assms transfer_finished_def
      processing_finished_def finished_def)

text \<open>A volume with room for 100 bytes, and a stream that holds back up to three bytes.\<close>

definition bench_sink :: RawSink where
  "bench_sink = snd (RawSink_Open (Some (new_file 100 (\<lambda>n. min n 3))) new_RawSink)"

definition bench_options :: CaptureOptions where
  "bench_options = \<lparr>test_mode = True, snapshot_interval_buffers = 2, snapshot_bytes = 4\<rparr>"

definition bench_buffer :: "byte list" where
  "bench_buffer = [5, 0, 6, 0]"

lemma bench_values: "values_of bench_buffer = [5, 6]" "counters_of bench_buffer = [0, 0]"
    "strip_markers bench_buffer = bench_buffer"
  by (simp_all add: bench_buffer_def values_of_Cons)

lemma bench_feed: "FeedWireBytes bench_buffer fresh_verifier = (True, snd (FeedWireBytes bench_buffer fresh_verifier))"
proof -
  have "fst (FeedWireBytes bench_buffer fresh_verifier)"
    by (simp add: FeedWireBytes_Feed Feed_fresh_iff bench_values on_ramp_def ramp_next_def)
  then show ?thesis by (metis prod.collapse)
qed

lemma bench_write:
  "\<exists>s1. RawSink_Write bench_buffer 2 bench_sink = (True, s1) \<and> fst (RawSink_Finish s1)"
proof -
  have "raw_good bench_sink" "raw_is_open bench_sink" "file_spare (raw_file bench_sink) 4"
    by (simp_all add: bench_sink_def RawSink_Open_def new_file_def file_spare_def)
  then have w: "fst (RawSink_Write bench_buffer 2 bench_sink)" "raw_good (snd (RawSink_Write bench_buffer 2 bench_sink))"
      "file_spare (raw_file (snd (RawSink_Write bench_buffer 2 bench_sink))) 0"
    using RawSink_loop_fits [of bench_sink "[]" 2 bench_buffer] by (simp_all add: RawSink_Write_def bench_buffer_def)
  obtain s1 where s1: "RawSink_Write bench_buffer 2 bench_sink = (True, s1)"
    using w(1) by (cases "RawSink_Write bench_buffer 2 bench_sink") auto
  have "fst (RawSink_Finish s1)" using w(2,3) file_flush_fits [of "raw_file s1" 0]
    by (cases "file_flush (raw_file s1)") (auto simp: s1 RawSink_Finish_def Let_def)
  with s1 show ?thesis by blast
qed

lemma bench_process:
  "\<exists>v out. Process bench_buffer validator_Reset = (bench_buffer, v, out) \<and> outcome_ok out"
proof -
  have "first_change bench_buffer = None"
    by (simp add: first_change_def bench_values find_None_iff) (simp add: bench_buffer_def)
  then show ?thesis using Process_synchronising [of bench_buffer] by (auto simp: bench_values)
qed

lemma bench_passes:
  "\<exists>w1. process_buffer RawSink_Write bench_options bench_buffer (new_worker (Some bench_sink)) = (None, w1)
     \<and> fst (finish_worker RawSink_Finish w1)"
proof -
  obtain v out where P: "Process bench_buffer validator_Reset = (bench_buffer, v, out)" "outcome_ok out"
    using bench_process by blast
  obtain t where F: "FeedWireBytes bench_buffer fresh_verifier = (True, t)" using bench_feed by blast
  obtain s1 where W: "RawSink_Write bench_buffer 2 bench_sink = (True, s1)" "fst (RawSink_Finish s1)"
    using bench_write by blast
  have len: "length bench_buffer div 2 = 2" by (simp add: bench_buffer_def)
  show ?thesis
    using W(2) by (simp add: process_buffer_def new_worker_def P F W(1) len Let_def bench_options_def publish_snapshot_def
        finish_worker_def split_beta)
qed

lemma bench_reachable:
  "\<exists>s. reachable (\<lambda>_. bench_buffer) 1 (process_buffer RawSink_Write bench_options) 1 [] (new_worker (Some bench_sink)) s
     \<and> finished s \<and> capture_result (close_sink (finish_worker RawSink_Finish) s) = kSuccess
     \<and> \<not> abort_requested s \<and> slots_delivered s = 1"
proof -
  obtain w1 where w1: "process_buffer RawSink_Write bench_options bench_buffer (new_worker (Some bench_sink)) = (None, w1)"
      "fst (finish_worker RawSink_Finish w1)"
    using bench_passes by blast
  from bench_run [of "process_buffer RawSink_Write bench_options" "\<lambda>_. bench_buffer", OF w1(1), of "[]"]
  obtain s where s: "perform_all (\<lambda>_. bench_buffer) 1 (process_buffer RawSink_Write bench_options) bench_schedule
        (started 1 [] (new_worker (Some bench_sink))) = Some s"
      "finished s" "latched s = None" "worker s = w1" "\<not> abort_requested s" "slots_delivered s = 1" by auto
  have "capture_result (close_sink (finish_worker RawSink_Finish) s) = kSuccess"
    using w1(2) s(3,4) by (auto simp: close_sink_def capture_result_def split: prod.splits bool.splits)
  then show ?thesis using s perform_started [OF s(1)] by auto
qed

theorem capture_file_complete_witness:
  "\<exists>s t s'. finished (s :: (byte list, RawSink CaptureWorker) pipeline)
     \<and> t = close_sink (finish_worker RawSink_Finish) s \<and> sink (worker t) = Some s'
     \<and> file_contents (raw_file s') = file_samples [5, 6]
     \<and> sample_count (sm_total (metrics (worker t))) = 2
     \<and> map_option fst (AnalyseTestData CaptureReader_Read (\<lambda>_. False) (Some (file_contents (raw_file s')))) = Some kPassed"
proof -
  have opened: "RawSink_Open (Some (new_file 100 (\<lambda>n. min n 3))) new_RawSink = (True, bench_sink)"
    by (simp add: bench_sink_def RawSink_Open_def)
  obtain s where s: "reachable (\<lambda>_. bench_buffer) 1 (process_buffer RawSink_Write bench_options) 1 [] (new_worker (Some bench_sink)) s"
      "finished s" "capture_result (close_sink (finish_worker RawSink_Finish) s) = kSuccess"
      "\<not> abort_requested s" "slots_delivered s = 1"
    using bench_reachable by blast
  define t where "t = close_sink (finish_worker RawSink_Finish) s"
  have one: "concat (map values_of (map (\<lambda>_. bench_buffer) [0..<slots_delivered s])) = [5, 6]"
    by (simp add: s(5) bench_values)
  obtain s' where "sink (worker t) = Some s'" "file_contents (raw_file s') = file_samples [5, 6]"
     "sm_total (metrics (worker t)) = tally_of [5, 6]"
     "map_option fst (AnalyseTestData CaptureReader_Read (\<lambda>_. False) (Some (file_contents (raw_file s')))) = Some kPassed"
    using capture_file_complete [OF zero_less_one opened s(1,2) s(3) [folded t_def] s(4) t_def] unfolding one
    by (auto simp: bench_options_def)
  moreover have "sample_count (tally_of [5, 6]) = 2"
    by (simp add: tally_of_def measure_sample_def empty_tally_def)
  ultimately show ?thesis using s(2) t_def by metis
qed

text \<open>
  C12: The discipline of the ring, in every state the threads can reach whatever the sink does: a
  handover never finds its slot still in use, the producer never writes into the slot the consumer
  works on, the consumer works on the buffers in the order they were filled, and the counters that
  give the fill level neither run backwards nor report more than one slot beyond the ring.
\<close>

theorem ring_discipline:
  assumes "0 < n" and "reachable gen limit (process_buffer sink_write opts) n b w s"
  shows "(producer s = PMark \<longrightarrow> fst (exchange_full (producer_slot s) (ring s)) \<noteq> kOverflow)
     \<and> (producer s \<in> {PFill, PMark} \<and> consumer s = CWork \<longrightarrow> producer_slot s \<noteq> consumer_slot s)
     \<and> (consumer s = CWork \<longrightarrow> slot_data (ring s) ! consumer_slot s = gen (buffers_processed s))
     \<and> slots_freed (ring s) \<le> slots_filled (ring s) + (if producer s = PCount then 1 else 0)
     \<and> SlotsInUse (ring s) \<le> n + 1 \<and> peak_slots_in_use (ring s) \<le> n + 1"
proof -
  have ok: "run_ok gen (process_buffer sink_write opts) w n s" by (rule reachable_ok [OF assms])
  have "producer s = PMark \<longrightarrow> fst (exchange_full (producer_slot s) (ring s)) \<noteq> kOverflow"
    using never_overflows ok by (auto simp: run_ok_def)
  moreover have "producer s \<in> {PFill, PMark} \<and> consumer s = CWork \<longrightarrow> producer_slot s \<noteq> consumer_slot s"
    using windows_apart [OF ok] by auto
  moreover have "consumer s = CWork \<longrightarrow> slot_data (ring s) ! consumer_slot s = gen (buffers_processed s)"
    using ok by (auto simp: run_ok_def consumer_ok_def data_ok_def released_def)
  moreover have "slots_freed (ring s) \<le> slots_filled (ring s) + (if producer s = PCount then 1 else 0)
     \<and> peak_slots_in_use (ring s) \<le> n + 1 \<and> SlotsInUse (ring s) \<le> n + 1"
    by (rule in_use_bound [OF assms(1) _ assms(2)]) (rule process_buffer_fails)
  ultimately show ?thesis by simp
qed

lemma bench_busy:
  "\<exists>s. perform_all gen 0 work
       (replicate 7 Produce @ [Consume, Consume] @ replicate 3 Produce) (started 2 b w) = Some s
     \<and> consumer s = CWork \<and> producer s = PMark \<and> producer_slot s = 1"
  by (simp add: numeral_eq_Suc started_def new_ring_def producer_step_def consumer_step_def ring_ops
      WaitForSlotFree_def WaitForSlotFull_def ring_size_def)

theorem ring_discipline_witness:
  "\<exists>s. producer s = PMark \<and> consumer s = CWork \<and> producer_slot s \<noteq> consumer_slot s
     \<and> slot_data (ring (s :: (byte list, NullSink CaptureWorker) pipeline)) ! consumer_slot s = bench_buffer
     \<and> SlotsInUse (ring s) \<le> 3"
proof -
  obtain s where s: "perform_all (\<lambda>_. bench_buffer) 0 (process_buffer NullSink_Write bench_options)
       (replicate 7 Produce @ [Consume, Consume] @ replicate 3 Produce)
       (started 2 [] (new_worker (Some \<lparr>null_samples_written = 0\<rparr>))) = Some s"
     "consumer s = CWork" "producer s = PMark" "producer_slot s = 1"
    using bench_busy [of "\<lambda>_. bench_buffer" "process_buffer NullSink_Write bench_options" "[]"
        "new_worker (Some \<lparr>null_samples_written = 0\<rparr>)"] by auto
  have "(0 :: nat) < 2" by simp
  from ring_discipline [OF this perform_started [OF s(1)]] s show ?thesis by auto
qed

text \<open>
  C13: A capture that has been told to stop ends: from any state the threads can reach with the stop
  requested, at most \<open>27 * n + 73\<close> more accesses change anything, however the threads are scheduled and
  whoever aborts besides, and as long as the capture has not finished one of the three threads can go
  on.
\<close>

theorem capture_stop_ends:
  assumes "0 < n" and "reachable gen limit work n b w (f 0)" and "stop_requested (f 0)"
    and "\<And>i. i < k \<Longrightarrow> step gen limit work (f i) (f (Suc i)) \<and> f (Suc i) \<noteq> f i"
  shows "k \<le> 27 * n + 73 \<and> (finished (f k) \<or> (\<exists>s'. thread_step gen limit work (f k) s' \<and> s' \<noteq> f k))"
  by (rule stopped_run_ends [OF assms])

theorem capture_stop_ends_witness:
  "\<exists>f :: nat \<Rightarrow> (byte list, NullSink CaptureWorker) pipeline. stop_requested (f 0) \<and> producer (f 2) = PDone kSuccess
     \<and> (\<exists>s'. thread_step (\<lambda>_. bench_buffer) 0 (process_buffer NullSink_Write bench_options) (f 2) s' \<and> s' \<noteq> f 2)"
proof -
  define work where "work = process_buffer NullSink_Write bench_options"
  define s0 where "s0 = started 1 ([] :: byte list) (new_worker (Some \<lparr>null_samples_written = 0\<rparr>))"
  define f where "f i = (if i = 0 then RequestStop s0 else if i = 1 then (RequestStop s0)\<lparr>producer := PExit kSuccess\<rparr>
    else (RequestStop s0)\<lparr>producer := PDone kSuccess\<rparr>)" for i :: nat
  have r: "reachable (\<lambda>_. bench_buffer) 0 work 1 [] (new_worker (Some \<lparr>null_samples_written = 0\<rparr>)) (f 0)"
    using r_into_rtranclp [of "step (\<lambda>_. bench_buffer) 0 work", OF step.stops [of _ _ _ s0]]
    by (simp add: reachable_def f_def s0_def)
  have p: "producer (RequestStop s0) = PTop" "stop_requested (RequestStop s0)" "\<not> abort_requested (RequestStop s0)"
      "\<not> ring_abort_requested (ring (RequestStop s0))" "consumer (RequestStop s0) = CTop"
    by (simp_all add: RequestStop_def s0_def started_def new_ring_def)
  have a: "step (\<lambda>_. bench_buffer) 0 work (f i) (f (Suc i)) \<and> f (Suc i) \<noteq> f i" if "i < 2" for i
  proof -
    have "producer_step (\<lambda>_. bench_buffer) 0 (f i) = Some (f (Suc i))"
      using that p by (cases i) (auto simp: f_def producer_step_def TransferFailed_def)
    moreover have "producer (f (Suc i)) \<noteq> producer (f i)" using that p by (cases i) (auto simp: f_def)
    ultimately show ?thesis by (auto intro: step.produces)
  qed
  have stop: "stop_requested (f 0)" using p by (simp add: f_def)
  have "\<not> finished (f 2)" using p by (simp add: f_def finished_def processing_finished_def)
  then have "\<exists>s'. thread_step (\<lambda>_. bench_buffer) 0 work (f 2) s' \<and> s' \<noteq> f 2"
    using capture_stop_ends [OF zero_less_one r stop a] by blast
  moreover have "producer (f 2) = PDone kSuccess" by (simp add: f_def)
  ultimately show ?thesis using stop unfolding work_def by blast
qed

text \<open>
  C11: What the sequence validator cannot see. Gateware with blocks of \<open>B\<close> samples sends the samples \<open>p\<close>
  up to \<open>m\<close>, then \<open>k\<close> samples are lost, then \<open>n\<close> more arrive, cut into buffers of any even sizes of
  which the first is long enough to lock on. When the samples before the loss run, from a start in the
  first block, beyond position \<open>B + 65536\<close>, and more than one block follows the loss, the stream is accepted
  exactly when \<open>k\<close> is a whole number of periods of \<open>63 * B\<close> samples.
\<close>

theorem gap_seen:
  assumes "captured B c x ([p..<m] @ [m + k..<m + k + n]) bufs"
    and "p < B" and "B + 65536 < m" and "B < n"
  shows "validate_buffers bufs validator_Reset \<noteq> None \<longleftrightarrow> 63 * B dvd k"
  by (rule gap_undetected_iff [OF assms])

lemma length_wire_bytes: "length (wire_bytes ws) = 2 * length ws"
  by (induction ws) (simp_all add: wire_bytes_def)

lemma captured_single:
  "B \<in> {65535, 65536} \<Longrightarrow> unat c < 63 \<Longrightarrow> 65537 \<le> length js \<Longrightarrow>
     captured B c x js [wire_bytes (map (gateware_word B c x) js)]"
  by (simp add: captured_def length_wire_bytes)

lemma received_single:
  "65537 \<le> length js \<Longrightarrow> received tm adc js [wire_bytes (map (\<lambda>j. data_out tm (generated adc j)) js)]"
  by (simp add: received_def length_wire_bytes)

theorem gap_seen_witness:
  "validate_buffers [wire_bytes (map (gateware_word 65536 0 (\<lambda>_. 7)) ([0..<200000] @ [200000 + 4128768..<200000 + 4128768 + 70000]))]
     validator_Reset \<noteq> None"
proof -
  have "validate_buffers [wire_bytes (map (gateware_word 65536 0 (\<lambda>_. 7)) ([p..<m] @ [m + k..<m + k + n]))] validator_Reset \<noteq> None"
    if at: "p = 0" "m = 200000" "k = 4128768" "n = 70000" for p m k n :: nat
  proof -
    have B: "(65536 :: nat) \<in> {65535, 65536}" "unat (0 :: byte) < 63" by simp_all
    have "65537 \<le> length ([p..<m] @ [m + k..<m + k + n])" using at(1,2) by simp
    from gap_seen [OF captured_single [OF B this]] at(1,2,4)
    have "validate_buffers [wire_bytes (map (gateware_word 65536 0 (\<lambda>_. 7)) ([p..<m] @ [m + k..<m + k + n]))] validator_Reset \<noteq> None
        \<longleftrightarrow> 63 * 65536 dvd k" by simp
    with at(3) show ?thesis by simp
  qed
  from this [OF refl refl refl refl] show ?thesis .
qed

text \<open>
  C37: With the block length of the gateware in this tree no loss of whole USB packets, 512 samples each,
  goes unnoticed unless it is of at least 512 periods, 4128705 packets, when the stream runs, from a
  start in the first block, beyond position 131071 before the loss, and more than one block of 65535
  samples follows it.
\<close>

theorem packet_loss_seen:
  assumes "captured 65535 c x ([p..<m] @ [m + 512 * lost..<m + 512 * lost + n]) bufs"
    and "p < 65535" and "131071 < m" and "65535 < n" and "0 < lost" and "lost < 4128705"
  shows "validate_buffers bufs validator_Reset = None"
proof -
  have "\<not> 63 * 65535 dvd 512 * lost"
    unfolding packets_in_period using assms(5,6) by (auto dest: nat_dvd_not_less)
  moreover have "65535 + 65536 < m" using assms(3) by simp
  note gap_undetected_iff [OF assms(1,2) this assms(4)]
  ultimately show ?thesis by blast
qed

theorem packet_loss_seen_witness:
  "validate_buffers [wire_bytes (map (gateware_word 65535 0 (\<lambda>_. 7)) ([0..<200000] @ [200000 + 512 * 8064..<200000 + 512 * 8064 + 70000]))]
     validator_Reset = None"
proof -
  have "validate_buffers [wire_bytes (map (gateware_word 65535 0 (\<lambda>_. 7)) ([p..<m] @ [m + 512 * l..<m + 512 * l + n]))] validator_Reset = None"
    if at: "p = 0" "m = 200000" "l = 8064" "n = 70000" for p m l n :: nat
  proof -
    have B: "(65535 :: nat) \<in> {65535, 65536}" "unat (0 :: byte) < 63" by simp_all
    have "65537 \<le> length ([p..<m] @ [m + 512 * l..<m + 512 * l + n])" using at(1,2) by simp
    note loss = packet_loss_seen [OF captured_single [OF B this]]
    show ?thesis by (rule loss) (use at in simp_all)
  qed
  from this [OF refl refl refl refl] show ?thesis .
qed

text \<open>
  C38: What the data generator of the gateware sends from any sample on, cut into buffers of any even
  sizes of which the first is long enough to lock on, passes the sequence validator, and the stripped
  buffers are the words of the samples. In test mode they also pass the test pattern verifier.
\<close>

theorem generator_accepted:
  assumes "received tm adc [a..<b] bufs"
  shows "\<exists>out v. validate_buffers bufs validator_Reset = Some (out, v, map (\<lambda>b. tally_of (values_of b)) bufs)
     \<and> concat (map words_of out) = map (\<lambda>j. SampleValueFromWord (data_out tm (generated adc j))) [a..<b]
     \<and> (tm \<longrightarrow> fst (feed_buffers out fresh_verifier))"
proof -
  obtain v where v: "validate_buffers bufs validator_Reset = Some (measured bufs v)"
      "concat (map words_of (map strip_markers bufs)) = map (generator_value tm adc) [a..<b]"
    using generated_capture [OF assms] by blast
  have "SampleValueFromWord (data_out tm (generated adc j)) = generator_value tm adc j" for j
    by (simp add: data_out_word gateware_word_def wire_word_value generator_value_low)
  moreover have "tm \<longrightarrow> fst (feed_buffers (map strip_markers bufs) fresh_verifier)"
    using generated_test_pattern assms by (cases tm) auto
  ultimately show ?thesis using v by (auto simp: measured_def)
qed

theorem generator_accepted_witness:
  "\<exists>out. fst (feed_buffers out fresh_verifier)
     \<and> concat (map words_of out) = map (\<lambda>j. SampleValueFromWord (data_out True (generated (\<lambda>_. 3) j))) [1000..<200000]"
proof -
  have "\<exists>out. fst (feed_buffers out fresh_verifier)
     \<and> concat (map words_of out) = map (\<lambda>j. SampleValueFromWord (data_out True (generated (\<lambda>_. 3) j))) [a..<b]"
    if at: "a = 1000" "b = 200000" for a b :: nat
  proof -
    have "65537 \<le> length [a..<b]" unfolding length_upt using at by simp
    from generator_accepted [OF received_single [OF this], of True "\<lambda>_. 3"]
    obtain out where words: "concat (map words_of out) = map (\<lambda>j. SampleValueFromWord (data_out True (generated (\<lambda>_. 3) j))) [a..<b]"
        and fed: "True \<longrightarrow> fst (feed_buffers out fresh_verifier)" by (elim exE conjE) (rule that)
    from fed have "fst (feed_buffers out fresh_verifier)" by (rule mp) (rule TrueI)
    from this words show ?thesis by (intro exI conjI)
  qed
  from this [OF refl refl] show ?thesis .
qed

text \<open>
  C39: The offline check of a file of values of the ramp that the gateware of this tree sends, 0 to
  1020, returns and says exactly whether every value follows its predecessor on that ramp. What it
  reports of a break is the first one: how many samples precede it, the value that was expected and
  the value that was read. Of an intact file it reports the length of the ramp exactly when the file
  went round it, and nothing when the capture was too short to wrap.
\<close>

theorem analysis_verdict:
  assumes "\<forall>v\<in>set vs. v < 1021" and "vs \<noteq> []"
  shows "\<exists>outcome r. AnalyseTestData CaptureReader_Read (\<lambda>_. False) (Some (file_samples vs)) = Some (outcome, r)
     \<and> ExitCode outcome = (if \<forall>i. Suc i < length vs \<longrightarrow> unat (vs ! Suc i) = (unat (vs ! i) + 1) mod 1021 then 0 else 1)
     \<and> (if ExitCode outcome = 0
        then samples_checked r = length vs \<and> sequence_length r = (if 0 \<in> set (tl vs) then Some 1021 else None)
        else 0 < samples_checked r \<and> samples_checked r < length vs
          \<and> (\<forall>i. Suc i < samples_checked r \<longrightarrow> unat (vs ! Suc i) = (unat (vs ! i) + 1) mod 1021)
          \<and> unat (expected_value r) = (unat (vs ! (samples_checked r - 1)) + 1) mod 1021
          \<and> actual_value r = vs ! samples_checked r \<and> actual_value r \<noteq> expected_value r)"
proof -
  have small: "\<forall>v\<in>set vs. v < 1024" using assms(1) by (auto simp: word_less_nat_alt)
  define r where "r = pattern_result (snd (Feed vs fresh_verifier))"
  have A: "AnalyseTestData CaptureReader_Read (\<lambda>_. False) (Some (file_samples vs)) =
      Some (if on_ramp vs then kPassed else kFailedRamp, r)"
    unfolding r_def by (rule AnalyseTestData_whole [OF small])
  have F: "Feed vs fresh_verifier = (on_ramp vs, snd (Feed vs fresh_verifier))"
    by (simp add: prod_eq_iff Feed_fresh_iff)
  have V: "verdict_of vs r" "pattern_passed r \<longleftrightarrow> on_ramp vs"
    using Feed_fresh [OF assms(2) F] by (simp_all add: r_def)
  note ramp = on_ramp_nat [OF assms(1)]
  show ?thesis
  proof (cases "on_ramp vs")
    case True
    then have "samples_checked r = length vs" using V by (simp add: verdict_of_def)
    moreover have "sequence_length r = (if 0 \<in> set (tl vs) then Some 1021 else None)"
      unfolding r_def by (rule Feed_length [OF assms(1) True])
    ultimately show ?thesis using A True ramp by simp
  next
    case False
    define k where "k = samples_checked r"
    have np: "pattern_passed r = False" using V(2) False by simp
    have k: "0 < k" "k < length vs" "on_ramp (take k vs)" "expected_value r = ramp_next (vs ! (k - 1))"
        "actual_value r = vs ! k" "actual_value r \<noteq> expected_value r"
      using V(1) unfolding verdict_of_def np if_False k_def by blast+
    have "\<forall>v\<in>set (take k vs). v < 1021" using assms(1) by (meson in_set_takeD)
    note before = on_ramp_nat [OF this]
    have "\<forall>i. Suc i < k \<longrightarrow> unat (vs ! Suc i) = (unat (vs ! i) + 1) mod 1021"
      using before k(2,3) by simp
    moreover have "unat (expected_value r) = (unat (vs ! (k - 1)) + 1) mod 1021"
      using assms(1) k(2) ramp_next_nat [of "vs ! (k - 1)"] by (simp add: k(4))
    moreover have "\<not> (\<forall>i. Suc i < length vs \<longrightarrow> unat (vs ! Suc i) = (unat (vs ! i) + 1) mod 1021)"
      using False ramp by simp
    ultimately show ?thesis
      using A False k(1,2,5,6) unfolding k_def
      by (intro exI [of _ kFailedRamp] exI [of _ r] conjI) (simp_all only: ExitCode.simps if_False, simp_all)
  qed
qed

theorem analysis_verdict_witness:
  "\<exists>outcome r. AnalyseTestData CaptureReader_Read (\<lambda>_. False) (Some (file_samples [1019, 1020, 0, 2])) = Some (outcome, r)
     \<and> ExitCode outcome = 1"
proof -
  define vs :: "u16 list" where "vs = [1019, 1020, 0, 2]"
  have vs: "\<forall>v\<in>set vs. v < 1021" "vs \<noteq> []" by (simp_all add: vs_def)
  have "Suc 2 < length vs" "unat (vs ! Suc 2) \<noteq> (unat (vs ! 2) + 1) mod 1021" by (simp_all add: vs_def)
  then have "\<not> (\<forall>i. Suc i < length vs \<longrightarrow> unat (vs ! Suc i) = (unat (vs ! i) + 1) mod 1021)" by blast
  moreover obtain outcome r where "AnalyseTestData CaptureReader_Read (\<lambda>_. False) (Some (file_samples vs)) = Some (outcome, r)"
      "ExitCode outcome = (if \<forall>i. Suc i < length vs \<longrightarrow> unat (vs ! Suc i) = (unat (vs ! i) + 1) mod 1021 then 0 else 1)"
    using analysis_verdict [OF vs] by (elim exE conjE) (rule that)
  ultimately show ?thesis unfolding vs_def [symmetric] by (simp only: if_False) blast
qed

text \<open>
  The plan of the ring: a slot is a whole number of endpoint packets and more than half of two
  mebibytes, there are at least 32 slots, and together they take no more than the largest queue.
\<close>

theorem ring_plan:
  assumes "p \<le> kTargetSlotSizeBytes"
  shows "let g = PlanGeometry q p in
     (0 < p \<longrightarrow> p dvd slot_size_bytes g) \<and> slot_size_bytes g \<le> kTargetSlotSizeBytes
     \<and> kTargetSlotSizeBytes < 2 * slot_size_bytes g \<and> 32 \<le> slot_count g
     \<and> slot_size_bytes g * slot_count g \<le> kMaximumQueueSizeBytes"
  using planned_slot [OF assms, of q] PlanGeometry_count [OF assms, of q] by (simp add: Let_def)

theorem ring_plan_witness:
  "let g = PlanGeometry 0 1024 in
     1024 dvd slot_size_bytes g \<and> slot_size_bytes g \<le> kTargetSlotSizeBytes \<and> 32 \<le> slot_count g"
  using ring_plan [of 1024 0] by (simp add: Let_def)

end
