(* ===== verification/RegisterMap.thy ===== *)
theory RegisterMap
  imports Prelude
begin

text \<open>
  The gateware's register map and the firmware's policy on it:
  \<^verbatim>\<open>fx3/firmware/src/fpga-register-map.h\<close> and \<^verbatim>\<open>fpga-register-map.c\<close>. An identity block is the
  list of bytes the firmware fetched; callers pass the static twelve-byte array, never
  \<^verbatim>\<open>NULL\<close>. The lemmas say which control requests reach the register bank, that the commit
  text is the longest hexadecimal prefix that fits the caller's buffer, and that the flash
  bridge is out of the host's reach.
\<close>

subsection \<open>The map\<close>

abbreviation FPGA_REGISTER_ID :: nat where "FPGA_REGISTER_ID \<equiv> 0x00"
abbreviation FPGA_REGISTER_MAP_VERSION :: nat where "FPGA_REGISTER_MAP_VERSION \<equiv> 0x01"
abbreviation FPGA_REGISTER_BUILD_FLAGS :: nat where "FPGA_REGISTER_BUILD_FLAGS \<equiv> 0x02"
abbreviation FPGA_REGISTER_COMMIT :: nat where "FPGA_REGISTER_COMMIT \<equiv> 0x03"
abbreviation FPGA_REGISTER_IMAGE_ROLE :: nat where "FPGA_REGISTER_IMAGE_ROLE \<equiv> 0x0B"
abbreviation FPGA_REGISTER_TEST_MODE :: byte where "FPGA_REGISTER_TEST_MODE \<equiv> 0x10"
abbreviation FPGA_REGISTER_LED :: byte where "FPGA_REGISTER_LED \<equiv> 0x11"
abbreviation FPGA_REGISTER_DECIMATION :: byte where "FPGA_REGISTER_DECIMATION \<equiv> 0x12"
abbreviation FPGA_REGISTER_BRIDGE_UNLOCK :: byte where "FPGA_REGISTER_BRIDGE_UNLOCK \<equiv> 0x20"
abbreviation FPGA_REGISTER_BRIDGE_CONTROL :: byte where "FPGA_REGISTER_BRIDGE_CONTROL \<equiv> 0x21"
abbreviation FPGA_REGISTER_BRIDGE_DATA :: byte where "FPGA_REGISTER_BRIDGE_DATA \<equiv> 0x22"
abbreviation FPGA_REGISTER_RECONFIG_CONTROL :: byte where "FPGA_REGISTER_RECONFIG_CONTROL \<equiv> 0x23"
abbreviation FPGA_REGISTER_ADDRESS_MAX :: u16 where "FPGA_REGISTER_ADDRESS_MAX \<equiv> 0x7F"
abbreviation FPGA_DECIMATION_EVERY_SAMPLE :: byte where "FPGA_DECIMATION_EVERY_SAMPLE \<equiv> 0x01"
abbreviation FPGA_IDENTITY_VALUE :: byte where "FPGA_IDENTITY_VALUE \<equiv> 0x44"
abbreviation FPGA_IDENTITY_MAP_VERSION :: byte where "FPGA_IDENTITY_MAP_VERSION \<equiv> 0x02"
abbreviation FPGA_MAP_VERSION_WITH_BRIDGE :: byte where "FPGA_MAP_VERSION_WITH_BRIDGE \<equiv> 0x02"
abbreviation FPGA_IDENTITY_LENGTH :: nat where "FPGA_IDENTITY_LENGTH \<equiv> 12"
abbreviation FPGA_COMMIT_LENGTH :: nat where "FPGA_COMMIT_LENGTH \<equiv> 8"
abbreviation FPGA_BUILD_FLAG_DIRTY :: byte where "FPGA_BUILD_FLAG_DIRTY \<equiv> 0x01"
abbreviation FPGA_BUILD_FLAG_COMMIT :: byte where "FPGA_BUILD_FLAG_COMMIT \<equiv> 0x02"
abbreviation FPGA_IMAGE_ROLE_FACTORY :: byte where "FPGA_IMAGE_ROLE_FACTORY \<equiv> 0x00"
abbreviation FPGA_IMAGE_ROLE_APPLICATION :: byte where "FPGA_IMAGE_ROLE_APPLICATION \<equiv> 0x01"
abbreviation FPGA_BRIDGE_UNLOCK_0 :: byte where "FPGA_BRIDGE_UNLOCK_0 \<equiv> 0x44"
abbreviation FPGA_BRIDGE_UNLOCK_1 :: byte where "FPGA_BRIDGE_UNLOCK_1 \<equiv> 0x44"
abbreviation FPGA_BRIDGE_UNLOCK_2 :: byte where "FPGA_BRIDGE_UNLOCK_2 \<equiv> 0x55"
abbreviation FPGA_BRIDGE_UNLOCK_3 :: byte where "FPGA_BRIDGE_UNLOCK_3 \<equiv> 0xAA"
abbreviation FPGA_BRIDGE_LOCK :: byte where "FPGA_BRIDGE_LOCK \<equiv> 0x00"
abbreviation FPGA_BRIDGE_UNLOCKED :: byte where "FPGA_BRIDGE_UNLOCKED \<equiv> 0x01"
abbreviation FPGA_BRIDGE_SELECT :: byte where "FPGA_BRIDGE_SELECT \<equiv> 0x01"
abbreviation FPGA_BRIDGE_BUSY :: byte where "FPGA_BRIDGE_BUSY \<equiv> 0x02"
abbreviation FPGA_RECONFIG_TICKLE :: byte where "FPGA_RECONFIG_TICKLE \<equiv> 0x01"
abbreviation FPGA_RECONFIG_TRIGGER :: byte where "FPGA_RECONFIG_TRIGGER \<equiv> 0x02"
abbreviation FPGA_REGISTER_READ_MAX :: u16 where "FPGA_REGISTER_READ_MAX \<equiv> 64"
abbreviation FPGA_LED_READY :: byte where "FPGA_LED_READY \<equiv> 0x81"
abbreviation FPGA_LED_CAPTURING :: byte where "FPGA_LED_CAPTURING \<equiv> 0xFF"
abbreviation FPGA_LED_BUFFER_ERROR :: byte where "FPGA_LED_BUFFER_ERROR \<equiv> 0x55"
abbreviation FPGA_LED_UPDATING :: byte where "FPGA_LED_UPDATING \<equiv> 0x18"

subsection \<open>What an identity block says\<close>

definition isHexDigit :: "byte \<Rightarrow> bool" where
  "isHexDigit c \<longleftrightarrow>
     (0x30 \<le> c \<and> c \<le> 0x39) \<or> (0x61 \<le> c \<and> c \<le> 0x66) \<or> (0x41 \<le> c \<and> c \<le> 0x46)"

definition fpgaIdentityIsValid :: "byte list \<Rightarrow> bool" where
  "fpgaIdentityIsValid identity \<longleftrightarrow> identity ! FPGA_REGISTER_ID = FPGA_IDENTITY_VALUE"

definition fpgaIdentityMapVersion :: "byte list \<Rightarrow> byte" where
  "fpgaIdentityMapVersion identity =
     (if \<not> fpgaIdentityIsValid identity then 0 else identity ! FPGA_REGISTER_MAP_VERSION)"

definition fpgaIdentityIsDirty :: "byte list \<Rightarrow> bool" where
  "fpgaIdentityIsDirty identity =
     (if \<not> fpgaIdentityIsValid identity then False
      else (identity ! FPGA_REGISTER_BUILD_FLAGS) AND FPGA_BUILD_FLAG_DIRTY \<noteq> 0)"

definition fpgaIdentityImageRole :: "byte list \<Rightarrow> byte" where
  "fpgaIdentityImageRole identity =
     (if \<not> fpgaIdentityIsValid identity then FPGA_IMAGE_ROLE_APPLICATION
      else if fpgaIdentityMapVersion identity < FPGA_MAP_VERSION_WITH_BRIDGE
      then FPGA_IMAGE_ROLE_APPLICATION
      else identity ! FPGA_REGISTER_IMAGE_ROLE)"

definition fpgaIdentityHasFlashBridge :: "byte list \<Rightarrow> bool" where
  "fpgaIdentityHasFlashBridge identity =
     (if \<not> fpgaIdentityIsValid identity then False
      else FPGA_MAP_VERSION_WITH_BRIDGE \<le> fpgaIdentityMapVersion identity)"

text \<open>The copying loop, with the index it stops at; \<open>size\<close> of the source is \<open>sz\<close> here.\<close>

function commit_loop :: "byte list \<Rightarrow> nat \<Rightarrow> nat \<Rightarrow> byte list \<Rightarrow> byte list \<times> nat" where
  "commit_loop identity sz index text =
     (if index < FPGA_COMMIT_LENGTH \<and> index + 1 < sz
      then let character = identity ! (FPGA_REGISTER_COMMIT + index)
           in if \<not> isHexDigit character then (text, index)
              else commit_loop identity sz (index + 1) (text[index := character])
      else (text, index))"
  by pat_completeness auto

termination by (relation "measure (\<lambda>(_, _, index, _). FPGA_COMMIT_LENGTH - index)") auto

definition fpgaIdentityCommitText :: "byte list \<Rightarrow> byte list \<Rightarrow> nat \<Rightarrow> byte list" where
  "fpgaIdentityCommitText identity text sz =
     (if sz = 0 then text
      else let text = text[0 := 0]
           in if \<not> fpgaIdentityIsValid identity then text
              else if (identity ! FPGA_REGISTER_BUILD_FLAGS) AND FPGA_BUILD_FLAG_COMMIT = 0
              then text
              else let (text, index) = commit_loop identity sz 0 text in text[index := 0])"

subsection \<open>Policy on control requests\<close>

definition fpgaRegisterIsHostWritable :: "byte \<Rightarrow> bool" where
  "fpgaRegisterIsHostWritable address \<longleftrightarrow>
     address = FPGA_REGISTER_TEST_MODE \<or> address = FPGA_REGISTER_DECIMATION"

definition fpgaReadRequestIsValid :: "u16 \<Rightarrow> u16 \<Rightarrow> bool" where
  "fpgaReadRequestIsValid address len =
     (if FPGA_REGISTER_ADDRESS_MAX < address then False
      else if len = 0 \<or> FPGA_REGISTER_READ_MAX < len then False
      else True)"

definition fpgaWriteRequestIsValid :: "u16 \<Rightarrow> bool" where
  "fpgaWriteRequestIsValid v =
     (let address = drop_bit 8 v
      in if FPGA_REGISTER_ADDRESS_MAX < address then False
         else fpgaRegisterIsHostWritable (ucast address))"

subsection \<open>The policy, characterised\<close>

lemma drop_bit_8_u16: "unat (drop_bit 8 (v :: u16)) = unat v div 256"
  by (simp add: unat_drop_bit_eq drop_bit_eq_div unat_div)

lemma unat_high_byte: "unat (ucast (drop_bit 8 (v :: u16)) :: byte) = unat v div 256"
proof -
  have "unat (drop_bit 8 v) < 256" by (simp add: drop_bit_8_u16 less_mult_imp_div_less)
  then show ?thesis by (simp add: unsigned_ucast_eq take_bit_nat_eq_self drop_bit_8_u16)
qed

lemma write_valid_iff:
  "fpgaWriteRequestIsValid v \<longleftrightarrow> unat v div 256 = 0x10 \<or> unat v div 256 = 0x12"
  by (auto simp: fpgaWriteRequestIsValid_def Let_def fpgaRegisterIsHostWritable_def
      word_less_nat_alt word_unat_eq_iff unat_high_byte drop_bit_8_u16)

lemma read_valid_iff:
  "fpgaReadRequestIsValid a n \<longleftrightarrow> unat a \<le> 127 \<and> 0 < unat n \<and> unat n \<le> 64"
  by (auto simp: fpgaReadRequestIsValid_def word_less_nat_alt word_unat_eq_iff not_less)

subsection \<open>The commit text\<close>

definition c_string :: "byte list \<Rightarrow> byte list" where
  "c_string = takeWhile (\<lambda>c. c \<noteq> 0)"

declare commit_loop.simps [simp del]

lemma commit_loop_spec:
  assumes "sz \<le> length text" and "11 \<le> length identity"
  shows "commit_loop identity sz index text =
    (let c = takeWhile isHexDigit (take (min 8 (sz - 1) - index) (drop (3 + index) identity))
     in (take index text @ c @ drop (index + length c) text, index + length c))"
  using assms
proof (induction identity sz index "text" rule: commit_loop.induct)
  case (1 identity sz index buf)
  show ?case
  proof (cases "index < 8 \<and> index + 1 < sz")
    case False
    then have "min 8 (sz - 1) - index = 0" by auto
    moreover have "commit_loop identity sz index buf = (buf, index)"
      by (subst commit_loop.simps) (simp only: False if_False)
    ultimately show ?thesis by simp
  next
    case True
    let ?c = "identity ! (3 + index)"
    obtain m where m: "min 8 (sz - 1) - index = Suc m" "min 8 (sz - 1) - Suc index = m"
      using True by (cases "min 8 (sz - 1) - index") auto
    have split: "drop (3 + index) identity = ?c # drop (3 + Suc index) identity"
      using Cons_nth_drop_Suc [of "3 + index" identity] 1(3) True by simp
    show ?thesis
    proof (cases "isHexDigit ?c")
      case False
      then show ?thesis using True unfolding m(1) split
        by (simp add: commit_loop.simps [of identity sz index buf])
    next
      case hex: True
      let ?t = "buf[index := ?c]"
      have "index < length buf" using 1(2) True by simp
      then have t: "take (Suc index) ?t = take index buf @ [?c]"
        by (simp add: take_Suc_conv_app_nth)
      have "commit_loop identity sz index buf = commit_loop identity sz (index + 1) ?t"
        using True hex by (simp add: commit_loop.simps [of identity sz index buf] Let_def)
      also have "\<dots> = (let c = takeWhile isHexDigit
            (take (min 8 (sz - 1) - (index + 1)) (drop (3 + (index + 1)) identity))
          in (take (index + 1) ?t @ c @ drop (index + 1 + length c) ?t, index + 1 + length c))"
        using 1 True hex by (intro 1(1)) auto
      finally show ?thesis
        using hex m(2) unfolding m(1) split by (simp add: t Let_def)
    qed
  qed
qed

lemma hex_not_0: "isHexDigit c \<Longrightarrow> c \<noteq> 0"
  by (auto simp: isHexDigit_def)

lemma commit_text_spec:
  assumes "0 < sz" and "sz \<le> length text" and "11 \<le> length identity"
  shows "c_string (fpgaIdentityCommitText identity text sz) =
    (if fpgaIdentityIsValid identity \<and> (identity ! 2) AND 2 \<noteq> 0
     then takeWhile isHexDigit (take (min 8 (sz - 1)) (drop 3 identity)) else [])"
proof -
  have empty: "c_string (text[0 := 0]) = []"
    using assms by (cases "text") (auto simp: c_string_def)
  define c where "c = takeWhile isHexDigit (take (min 8 (sz - 1)) (drop 3 identity))"
  have hex: "\<forall>x \<in> set c. x \<noteq> 0"
    using hex_not_0 by (auto simp: c_def dest: set_takeWhileD)
  have "length c \<le> min 8 (sz - 1)"
    using length_takeWhile_le [of isHexDigit "take (min 8 (sz - 1)) (drop 3 identity)"]
    by (simp add: c_def)
  then have "length c \<le> sz - 1" by simp
  then have len: "length c < length text" using assms(1,2) by linarith
  have "commit_loop identity sz 0 (text[0 := 0])
      = (c @ drop (length c) (text[0 := 0]), length c)"
    using commit_loop_spec [of sz "text[0 := 0]" identity 0] assms by (simp add: c_def Let_def)
  moreover have "c_string ((c @ drop (length c) (text[0 := 0]))[length c := 0]) = c"
    using hex len by (cases "drop (length c) (text[0 := 0])")
      (auto simp: c_string_def list_update_append takeWhile_append2)
  ultimately show ?thesis
    using assms empty by (simp add: fpgaIdentityCommitText_def Let_def c_def)
qed

end
