(* ===== verification/HostVersions.thy ===== *)
theory HostVersions
  imports HostUsb RegisterMap
begin

text \<open>
  How the host reads who a device is: \<^verbatim>\<open>ddd-gui/src/capture/firmware_version.cpp\<close>, which finds the
  commit in the product string and compares commits, and \<^verbatim>\<open>fpga_version.cpp\<close>, which reads the
  identity block of the gateware. A \<^verbatim>\<open>std::string\<close> is a list of characters; the character
  classification is that of the C locale. The lemmas say that the comparison is a comparison of
  prefixes, that what the firmware's build stamps is found again, and that the host and the firmware
  read the same commit out of the same block.
\<close>

subsection \<open>Commits in text\<close>

abbreviation (input) kMinimumCommitLength :: nat where "kMinimumCommitLength \<equiv> 7"

definition IsHexDigitChar :: "char \<Rightarrow> bool" where
  "IsHexDigitChar character \<longleftrightarrow>
     (let value = of_char character :: nat
      in 48 \<le> value \<and> value \<le> 57 \<or> 65 \<le> value \<and> value \<le> 70 \<or> 97 \<le> value \<and> value \<le> 102)"

definition lower_char :: "char \<Rightarrow> char" where
  "lower_char c = (let value = of_char c :: nat
     in if 65 \<le> value \<and> value \<le> 90 then char_of (value + 32) else c)"

definition ToLowerCase :: "string \<Rightarrow> string" where
  "ToLowerCase s = map lower_char s"

text \<open>The text before the first occurrence of a pattern, and the last position of a character.\<close>

fun before_text :: "string \<Rightarrow> string \<Rightarrow> string" where
  "before_text pat [] = []"
| "before_text pat (c # cs) = (if take (length pat) (c # cs) = pat then [] else c # before_text pat cs)"

fun last_position :: "char \<Rightarrow> string \<Rightarrow> nat option" where
  "last_position c [] = None"
| "last_position c (x # xs) =
     (case last_position c xs of Some i \<Rightarrow> Some (Suc i) | None \<Rightarrow> if x = c then Some 0 else None)"

definition NormaliseCommit :: "string \<Rightarrow> string option" where
  "NormaliseCommit version =
     (let version = before_text ''-dirty'' version
      in if length version < kMinimumCommitLength then None
         else if \<not> list_all IsHexDigitChar version then None
         else Some (ToLowerCase version))"

definition ParseFirmwareCommit :: "string \<Rightarrow> string option" where
  "ParseFirmwareCommit product_string =
     (case last_position (CHR ''('') product_string of
        None \<Rightarrow> None
      | Some opened \<Rightarrow>
          let rest = drop (opened + 1) product_string
          in if CHR '')'' \<notin> set rest then None
             else NormaliseCommit (takeWhile (\<lambda>c. c \<noteq> CHR '')'') rest))"

definition CommitsMatch :: "string \<Rightarrow> string \<Rightarrow> bool" where
  "CommitsMatch first second =
     (case (NormaliseCommit first, NormaliseCommit second) of
        (Some left, Some right) \<Rightarrow>
          let compared = min (length left) (min (length right) 8)
          in take compared left = take compared right
      | _ \<Rightarrow> False)"

lemma CommitsMatch_sym: "CommitsMatch a b \<longleftrightarrow> CommitsMatch b a"
  by (auto simp: CommitsMatch_def Let_def min.left_commute split: option.splits)

lemma NormaliseCommit_length: "NormaliseCommit v = Some c \<Longrightarrow> 7 \<le> length c"
  by (auto simp: NormaliseCommit_def ToLowerCase_def Let_def split: if_splits)

lemma CommitsMatch_prefix:
  "CommitsMatch a b \<Longrightarrow> \<exists>p. 7 \<le> length p \<and> length p \<le> 8
     \<and> (\<exists>x. NormaliseCommit a = Some (p @ x)) \<and> (\<exists>y. NormaliseCommit b = Some (p @ y))"
proof -
  assume "CommitsMatch a b"
  then obtain l r where n: "NormaliseCommit a = Some l" "NormaliseCommit b = Some r"
      and t: "take (min (length l) (min (length r) 8)) l = take (min (length l) (min (length r) 8)) r"
    by (auto simp: CommitsMatch_def Let_def split: option.splits)
  define k where "k = min (length l) (min (length r) 8)"
  have k: "7 \<le> k" "k \<le> 8" "k \<le> length l"
    using NormaliseCommit_length [OF n(1)] NormaliseCommit_length [OF n(2)] by (auto simp: k_def)
  have "l = take k l @ drop k l" by simp
  moreover have "r = take k l @ drop k r" using t by (simp add: k_def)
  ultimately show ?thesis using n k by (intro exI [of _ "take k l"]) (metis length_take min.absorb2)
qed

text \<open>A commit between the last brackets of a product string is found, whatever the name before it.\<close>

lemma last_position_unbracketed: "c \<notin> set xs \<Longrightarrow> last_position c xs = None"
  by (induction xs) auto

lemma last_position_append:
  "c \<notin> set ys \<Longrightarrow> last_position c (xs @ c # ys) = Some (length xs)"
  by (induction xs) (auto simp: last_position_unbracketed)

lemma ParseFirmwareCommit_stamped:
  assumes "CHR ''('' \<notin> set commit" and "CHR '')'' \<notin> set commit" and "CHR ''('' \<notin> set rest"
  shows "ParseFirmwareCommit (name @ ''('' @ commit @ '')'' @ rest) = NormaliseCommit commit"
proof -
  have "last_position (CHR ''('') (name @ CHR ''('' # (commit @ '')'' @ rest)) = Some (length name)"
    using assms by (intro last_position_append) auto
  moreover have "takeWhile (\<lambda>c. c \<noteq> CHR '')'') (commit @ '')'' @ rest) = commit"
    using assms(2) by (subst takeWhile_append2) auto
  ultimately show ?thesis by (simp add: ParseFirmwareCommit_def Let_def)
qed

subsection \<open>The identity block of the gateware\<close>

abbreviation (input) kRegisterId :: nat where "kRegisterId \<equiv> 0x00"
abbreviation (input) kRegisterMapVersion :: nat where "kRegisterMapVersion \<equiv> 0x01"
abbreviation (input) kRegisterBuildFlags :: nat where "kRegisterBuildFlags \<equiv> 0x02"
abbreviation (input) kRegisterCommit :: nat where "kRegisterCommit \<equiv> 0x03"
abbreviation (input) kRegisterImageRole :: nat where "kRegisterImageRole \<equiv> 0x0B"
abbreviation (input) kIdentityLength :: nat where "kIdentityLength \<equiv> 12"
abbreviation (input) kCommitLength :: nat where "kCommitLength \<equiv> 8"
abbreviation (input) kImageRoleFactory :: byte where "kImageRoleFactory \<equiv> 0x00"
abbreviation (input) kImageRoleApplication :: byte where "kImageRoleApplication \<equiv> 0x01"
abbreviation (input) kIdentityValue :: byte where "kIdentityValue \<equiv> 0x44"
abbreviation (input) kBuildFlagDirty :: byte where "kBuildFlagDirty \<equiv> 0x01"
abbreviation (input) kBuildFlagCommit :: byte where "kBuildFlagCommit \<equiv> 0x02"
abbreviation (input) kRegisterMapVersionMinimum :: byte where "kRegisterMapVersionMinimum \<equiv> 2"
abbreviation (input) kRegisterMapVersionMaximum :: byte where "kRegisterMapVersionMaximum \<equiv> 2"

record FpgaVersion =
  fv_present :: bool
  fv_map_version :: byte
  fv_image_role :: byte
  fv_dirty :: bool
  fv_commit :: string

definition fresh_version :: FpgaVersion where
  "fresh_version = \<lparr>fv_present = False, fv_map_version = 0, fv_image_role = 0, fv_dirty = False, fv_commit = []\<rparr>"

definition IsHexDigitByte :: "byte \<Rightarrow> bool" where
  "IsHexDigitByte c \<longleftrightarrow>
     (0x30 \<le> c \<and> c \<le> 0x39) \<or> (0x61 \<le> c \<and> c \<le> 0x66) \<or> (0x41 \<le> c \<and> c \<le> 0x46)"

definition MapVersionIsKnown :: "FpgaVersion \<Rightarrow> bool" where
  "MapVersionIsKnown v \<longleftrightarrow> fv_present v \<and> kRegisterMapVersionMinimum \<le> fv_map_version v
     \<and> fv_map_version v \<le> kRegisterMapVersionMaximum"

definition IsRecoveryGateware :: "FpgaVersion \<Rightarrow> bool" where
  "IsRecoveryGateware v \<longleftrightarrow> MapVersionIsKnown v \<and> fv_image_role v = kImageRoleFactory"

definition ParseFpgaIdentity :: "byte list \<Rightarrow> FpgaVersion" where
  "ParseFpgaIdentity identity =
     (if length identity < kIdentityLength then fresh_version
      else if identity ! kRegisterId \<noteq> kIdentityValue then fresh_version
      else let flags = identity ! kRegisterBuildFlags;
               version = fresh_version\<lparr>fv_present := True, fv_map_version := identity ! kRegisterMapVersion,
                 fv_image_role := identity ! kRegisterImageRole, fv_dirty := flags AND kBuildFlagDirty \<noteq> 0\<rparr>
      in if flags AND kBuildFlagCommit = 0 then version
         else version\<lparr>fv_commit := map (\<lambda>b. char_of (unat b))
                (takeWhile IsHexDigitByte (take kCommitLength (drop kRegisterCommit identity)))\<rparr>)"

text \<open>The firmware reads the same out of the same block.\<close>

lemma ParseFpgaIdentity_firmware:
  assumes "12 \<le> length identity"
  shows "fv_present (ParseFpgaIdentity identity) = fpgaIdentityIsValid identity"
    and "fv_map_version (ParseFpgaIdentity identity) = fpgaIdentityMapVersion identity"
    and "fv_dirty (ParseFpgaIdentity identity) = fpgaIdentityIsDirty identity"
    and "fpgaIdentityHasFlashBridge identity \<Longrightarrow>
      fv_image_role (ParseFpgaIdentity identity) = fpgaIdentityImageRole identity"
    and "9 \<le> length buffer \<Longrightarrow> fv_commit (ParseFpgaIdentity identity) =
      map (\<lambda>b. char_of (unat b)) (c_string (fpgaIdentityCommitText identity buffer 9))"
proof -
  have hex: "isHexDigit = IsHexDigitByte" by (simp add: fun_eq_iff isHexDigit_def IsHexDigitByte_def)
  note defs = ParseFpgaIdentity_def fresh_version_def fpgaIdentityIsValid_def Let_def
  show "fv_present (ParseFpgaIdentity identity) = fpgaIdentityIsValid identity"
    using assms by (simp add: defs)
  show "fv_map_version (ParseFpgaIdentity identity) = fpgaIdentityMapVersion identity"
    using assms by (simp add: defs fpgaIdentityMapVersion_def)
  show "fv_dirty (ParseFpgaIdentity identity) = fpgaIdentityIsDirty identity"
    using assms by (simp add: defs fpgaIdentityIsDirty_def)
  show "fpgaIdentityHasFlashBridge identity \<Longrightarrow>
      fv_image_role (ParseFpgaIdentity identity) = fpgaIdentityImageRole identity"
    using assms
    by (auto simp: defs fpgaIdentityImageRole_def fpgaIdentityHasFlashBridge_def not_less split: if_splits)
  show "fv_commit (ParseFpgaIdentity identity) =
      map (\<lambda>b. char_of (unat b)) (c_string (fpgaIdentityCommitText identity buffer 9))"
    if len: "9 \<le> length buffer"
  proof -
    have spec: "c_string (fpgaIdentityCommitText identity buffer 9) =
      (if fpgaIdentityIsValid identity \<and> (identity ! 2) AND 2 \<noteq> 0
       then takeWhile isHexDigit (take (min 8 (9 - 1)) (drop 3 identity)) else [])"
      by (rule commit_text_spec) (use assms len in simp_all)
    show ?thesis unfolding spec using assms by (simp add: defs hex)
  qed
qed

end
