(* ===== verification/UpdateProtocol.thy ===== *)
theory UpdateProtocol
  imports Prelude
begin

text \<open>
  The decisions of the device update protocol: \<^verbatim>\<open>fx3/firmware/src/update-protocol.h\<close> and
  \<^verbatim>\<open>update-protocol.c\<close> up to the checksum, which is in \<open>BootBlock\<close>. Everything is a pure
  function of the request and of \<open>updateState\<close>; machine integers keep the width the
  source gives them. The phase and error bytes, which the source only ever sets to the codes
  named in the header, are datatypes with their codes. Pointer arguments are the objects they
  point at: every caller passes the address of a static object, so the guards against
  \<^verbatim>\<open>NULL\<close> never fire and are not repeated here.
\<close>

subsection \<open>Constants\<close>

abbreviation UPDATE_REQUEST_STATUS :: byte where "UPDATE_REQUEST_STATUS \<equiv> 0xD0"
abbreviation UPDATE_REQUEST_BEGIN :: byte where "UPDATE_REQUEST_BEGIN \<equiv> 0xD1"
abbreviation UPDATE_REQUEST_DATA :: byte where "UPDATE_REQUEST_DATA \<equiv> 0xD2"
abbreviation UPDATE_REQUEST_FINISH :: byte where "UPDATE_REQUEST_FINISH \<equiv> 0xD3"
abbreviation UPDATE_REQUEST_RESET :: byte where "UPDATE_REQUEST_RESET \<equiv> 0xD4"
abbreviation UPDATE_REQUEST_FPGA_RECONFIG :: byte where "UPDATE_REQUEST_FPGA_RECONFIG \<equiv> 0xD5"

abbreviation UPDATE_TARGET_EEPROM :: byte where "UPDATE_TARGET_EEPROM \<equiv> 0"
abbreviation UPDATE_TARGET_EPCS :: byte where "UPDATE_TARGET_EPCS \<equiv> 1"
abbreviation UPDATE_TARGET_EPCS_FACTORY :: byte where "UPDATE_TARGET_EPCS_FACTORY \<equiv> 2"

abbreviation UPDATE_FLAGS_NONE :: u32 where "UPDATE_FLAGS_NONE \<equiv> 0"
abbreviation UPDATE_FLAG_FACTORY_WRITE :: u32 where "UPDATE_FLAG_FACTORY_WRITE \<equiv> 0x57464444"

abbreviation UPDATE_STATUS_LENGTH :: u16 where "UPDATE_STATUS_LENGTH \<equiv> 16"
abbreviation UPDATE_BEGIN_LENGTH :: u16 where "UPDATE_BEGIN_LENGTH \<equiv> 40"
abbreviation UPDATE_DIGEST_LENGTH :: nat where "UPDATE_DIGEST_LENGTH \<equiv> 32"
abbreviation UPDATE_MAX_CHUNK :: u16 where "UPDATE_MAX_CHUNK \<equiv> 2048"

abbreviation UPDATE_EEPROM_PAGE_SIZE :: u32 where "UPDATE_EEPROM_PAGE_SIZE \<equiv> 64"
abbreviation UPDATE_EEPROM_SLAVE_SIZE :: u32 where "UPDATE_EEPROM_SLAVE_SIZE \<equiv> 65536"
abbreviation UPDATE_EEPROM_SLAVE_BASE :: u32 where "UPDATE_EEPROM_SLAVE_BASE \<equiv> 0xA0"
abbreviation UPDATE_EEPROM_SIZE :: u32 where "UPDATE_EEPROM_SIZE \<equiv> 4 * UPDATE_EEPROM_SLAVE_SIZE"

abbreviation UPDATE_EPCS_PAGE_SIZE :: u32 where "UPDATE_EPCS_PAGE_SIZE \<equiv> 256"
abbreviation UPDATE_EPCS_SECTOR_SIZE :: u32 where "UPDATE_EPCS_SECTOR_SIZE \<equiv> 65536"
abbreviation UPDATE_EPCS_SIZE :: u32 where "UPDATE_EPCS_SIZE \<equiv> 0x800000"
abbreviation UPDATE_EPCS_FACTORY_ADDRESS :: u32 where "UPDATE_EPCS_FACTORY_ADDRESS \<equiv> 0"
abbreviation UPDATE_EPCS_BOOT_BLOCK_ADDRESS :: u32 where
  "UPDATE_EPCS_BOOT_BLOCK_ADDRESS \<equiv> 0x100000"
abbreviation UPDATE_EPCS_APPLICATION_ADDRESS :: u32 where
  "UPDATE_EPCS_APPLICATION_ADDRESS \<equiv> 0x200000"

abbreviation UPDATE_EPCS_ID_EPCS16 :: byte where "UPDATE_EPCS_ID_EPCS16 \<equiv> 0x14"
abbreviation UPDATE_EPCS_ID_EPCS64 :: byte where "UPDATE_EPCS_ID_EPCS64 \<equiv> 0x16"
abbreviation UPDATE_EPCS_ID_EPCS128 :: byte where "UPDATE_EPCS_ID_EPCS128 \<equiv> 0x18"

abbreviation UPDATE_GATEWARE_MINIMUM_LENGTH :: u32 where
  "UPDATE_GATEWARE_MINIMUM_LENGTH \<equiv> UPDATE_EPCS_PAGE_SIZE"
abbreviation UPDATE_IMAGE_SIGNATURE_0 :: byte where "UPDATE_IMAGE_SIGNATURE_0 \<equiv> 0x43"
abbreviation UPDATE_IMAGE_SIGNATURE_1 :: byte where "UPDATE_IMAGE_SIGNATURE_1 \<equiv> 0x59"
abbreviation UPDATE_IMAGE_MINIMUM_LENGTH :: u32 where "UPDATE_IMAGE_MINIMUM_LENGTH \<equiv> 128"

subsection \<open>State\<close>

datatype update_phase =
  PHASE_IDLE | PHASE_RECEIVING | PHASE_WRITING | PHASE_VERIFYING | PHASE_COMPLETE | PHASE_FAILED

fun phase_code :: "update_phase \<Rightarrow> byte" where
  "phase_code PHASE_IDLE = 0"
| "phase_code PHASE_RECEIVING = 1"
| "phase_code PHASE_WRITING = 2"
| "phase_code PHASE_VERIFYING = 3"
| "phase_code PHASE_COMPLETE = 4"
| "phase_code PHASE_FAILED = 5"

datatype update_error =
  ERROR_NONE | ERROR_BUSY | ERROR_TARGET | ERROR_LENGTH | ERROR_SEQUENCE | ERROR_CHUNK
| ERROR_OVERRUN | ERROR_SHORT | ERROR_STREAM_DIGEST | ERROR_MEDIUM_DIGEST | ERROR_WRITE
| ERROR_READ | ERROR_IMAGE | ERROR_HARDWARE

fun error_code :: "update_error \<Rightarrow> byte" where
  "error_code ERROR_NONE = 0"
| "error_code ERROR_BUSY = 1"
| "error_code ERROR_TARGET = 2"
| "error_code ERROR_LENGTH = 3"
| "error_code ERROR_SEQUENCE = 4"
| "error_code ERROR_CHUNK = 5"
| "error_code ERROR_OVERRUN = 6"
| "error_code ERROR_SHORT = 7"
| "error_code ERROR_STREAM_DIGEST = 8"
| "error_code ERROR_MEDIUM_DIGEST = 9"
| "error_code ERROR_WRITE = 10"
| "error_code ERROR_READ = 11"
| "error_code ERROR_IMAGE = 12"
| "error_code ERROR_HARDWARE = 13"

record updateState =
  st_phase :: update_phase
  st_error :: update_error
  st_target :: byte
  st_length :: u32
  st_digest :: "byte list"
  st_received :: u32
  st_written :: u32
  st_verified :: u32
  st_nextChunk :: u16

record updateBegin =
  bg_length :: u32
  bg_digest :: "byte list"
  bg_flags :: u32

subsection \<open>Fields of host-supplied buffers\<close>

definition updateReadLittleEndian32 :: "byte list \<Rightarrow> nat \<Rightarrow> u32" where
  "updateReadLittleEndian32 data off =
     le32_of (data ! off) (data ! (off + 1)) (data ! (off + 2)) (data ! (off + 3))"

definition updateWriteLittleEndian16 :: "byte list \<Rightarrow> nat \<Rightarrow> u16 \<Rightarrow> byte list" where
  "updateWriteLittleEndian16 out off v =
     out[off := ucast (v AND 0xFF), off + 1 := ucast (drop_bit 8 v AND 0xFF)]"

definition updateWriteLittleEndian32 :: "byte list \<Rightarrow> nat \<Rightarrow> u32 \<Rightarrow> byte list" where
  "updateWriteLittleEndian32 out off v =
     out[off := ucast (v AND 0xFF),
         off + 1 := ucast (drop_bit 8 v AND 0xFF),
         off + 2 := ucast (drop_bit 16 v AND 0xFF),
         off + 3 := ucast (drop_bit 24 v AND 0xFF)]"

subsection \<open>State changes and the packets\<close>

definition updateStateReset :: "updateState \<Rightarrow> updateState" where
  "updateStateReset st = st\<lparr>
     st_phase := PHASE_IDLE, st_error := ERROR_NONE, st_target := UPDATE_TARGET_EEPROM,
     st_length := 0, st_received := 0, st_written := 0, st_verified := 0, st_nextChunk := 0,
     st_digest := replicate UPDATE_DIGEST_LENGTH 0\<rparr>"

definition updateStateFail :: "updateState \<Rightarrow> update_error \<Rightarrow> updateState" where
  "updateStateFail st e =
     (if st_phase st = PHASE_FAILED then st
      else st\<lparr>st_phase := PHASE_FAILED, st_error := e\<rparr>)"

definition updateBeginDecode :: "byte list \<Rightarrow> u16 \<Rightarrow> updateBegin option" where
  "updateBeginDecode data len =
     (if len \<noteq> UPDATE_BEGIN_LENGTH then None
      else let b = \<lparr>bg_length = updateReadLittleEndian32 data 0,
                    bg_digest = map (\<lambda>i. data ! (4 + i)) [0..<UPDATE_DIGEST_LENGTH],
                    bg_flags = updateReadLittleEndian32 data (4 + UPDATE_DIGEST_LENGTH)\<rparr>
           in if bg_flags b \<noteq> UPDATE_FLAGS_NONE \<and> bg_flags b \<noteq> UPDATE_FLAG_FACTORY_WRITE
              then None else Some b)"

definition updateStatusEncode :: "updateState \<Rightarrow> byte list \<Rightarrow> byte list" where
  "updateStatusEncode st out =
     (let out = out[0 := phase_code (st_phase st), 1 := error_code (st_error st)];
          out = updateWriteLittleEndian16 out 2 UPDATE_MAX_CHUNK;
          out = updateWriteLittleEndian32 out 4 (st_received st);
          out = updateWriteLittleEndian32 out 8 (st_written st)
      in updateWriteLittleEndian32 out 12 (st_verified st))"

subsection \<open>Targets and regions\<close>

definition updateTargetIsEpcs :: "byte \<Rightarrow> bool" where
  "updateTargetIsEpcs t \<longleftrightarrow> t = UPDATE_TARGET_EPCS \<or> t = UPDATE_TARGET_EPCS_FACTORY"

definition updateEpcsTargetBase :: "byte \<Rightarrow> u32" where
  "updateEpcsTargetBase t =
     (if t = UPDATE_TARGET_EPCS_FACTORY then UPDATE_EPCS_FACTORY_ADDRESS
      else UPDATE_EPCS_APPLICATION_ADDRESS)"

definition updateEpcsTargetCapacity :: "byte \<Rightarrow> u32" where
  "updateEpcsTargetCapacity t =
     (if t = UPDATE_TARGET_EPCS_FACTORY
      then UPDATE_EPCS_BOOT_BLOCK_ADDRESS - UPDATE_EPCS_FACTORY_ADDRESS
      else UPDATE_EPCS_SIZE - UPDATE_EPCS_APPLICATION_ADDRESS)"

definition updateGatewareIsPlausible :: "byte \<Rightarrow> u32 \<Rightarrow> bool" where
  "updateGatewareIsPlausible t totalLength \<longleftrightarrow>
     updateTargetIsEpcs t \<and> \<not> totalLength < UPDATE_GATEWARE_MINIMUM_LENGTH
     \<and> \<not> updateEpcsTargetCapacity t < totalLength"

definition updateEpcsCapacity :: "byte \<Rightarrow> u32" where
  "updateEpcsCapacity siliconId =
     (if siliconId = UPDATE_EPCS_ID_EPCS16 then 0x200000
      else if siliconId = UPDATE_EPCS_ID_EPCS64 then 0x800000
      else if siliconId = UPDATE_EPCS_ID_EPCS128 then 0x1000000
      else 0)"

definition updateEpcsDeviceIsUsable :: "byte \<Rightarrow> u32 \<Rightarrow> u32 \<Rightarrow> bool" where
  "updateEpcsDeviceIsUsable siliconId address bytes =
     (let capacity = updateEpcsCapacity siliconId
      in if capacity = 0 then False
         else if capacity < address then False
         else if capacity - address < bytes then False
         else True)"

subsection \<open>Admission of requests\<close>

definition updateIsInProgress :: "updateState \<Rightarrow> bool" where
  "updateIsInProgress st \<longleftrightarrow>
     st_phase st = PHASE_RECEIVING \<or> st_phase st = PHASE_WRITING \<or> st_phase st = PHASE_VERIFYING"

definition updateBeginIsAllowed ::
    "updateState \<Rightarrow> byte \<Rightarrow> u32 \<Rightarrow> u32 \<Rightarrow> bool \<Rightarrow> update_error" where
  "updateBeginIsAllowed st target len flags captureRunning =
     (if target \<noteq> UPDATE_TARGET_EEPROM \<and> \<not> updateTargetIsEpcs target then ERROR_TARGET
      else if target = UPDATE_TARGET_EPCS_FACTORY \<and> flags \<noteq> UPDATE_FLAG_FACTORY_WRITE
      then ERROR_TARGET
      else if target \<noteq> UPDATE_TARGET_EPCS_FACTORY \<and> flags \<noteq> UPDATE_FLAGS_NONE
      then ERROR_TARGET
      else if captureRunning then ERROR_BUSY
      else if updateIsInProgress st then ERROR_SEQUENCE
      else if updateTargetIsEpcs target
      then (if \<not> updateGatewareIsPlausible target len then ERROR_LENGTH else ERROR_NONE)
      else if len < UPDATE_IMAGE_MINIMUM_LENGTH then ERROR_LENGTH
      else if UPDATE_EEPROM_SIZE < len then ERROR_LENGTH
      else ERROR_NONE)"

definition updateTargetPageSize :: "byte \<Rightarrow> u32" where
  "updateTargetPageSize t =
     (if updateTargetIsEpcs t then UPDATE_EPCS_PAGE_SIZE else UPDATE_EEPROM_PAGE_SIZE)"

definition updateChunkIsAllowed ::
    "updateState \<Rightarrow> byte \<Rightarrow> u16 \<Rightarrow> u16 \<Rightarrow> update_error" where
  "updateChunkIsAllowed st target index len =
     (if target \<noteq> st_target st then ERROR_TARGET
      else if st_phase st \<noteq> PHASE_RECEIVING then ERROR_SEQUENCE
      else if index \<noteq> st_nextChunk st then ERROR_SEQUENCE
      else if len = 0 then ERROR_CHUNK
      else if UPDATE_MAX_CHUNK < len then ERROR_CHUNK
      else let remaining = st_length st - st_received st
           in if remaining < ucast len then ERROR_OVERRUN
              else if ucast len < remaining \<and> ucast len mod updateTargetPageSize target \<noteq> 0
              then ERROR_CHUNK
              else ERROR_NONE)"

definition updateFinishIsAllowed :: "updateState \<Rightarrow> byte \<Rightarrow> update_error" where
  "updateFinishIsAllowed st target =
     (if target \<noteq> st_target st then ERROR_TARGET
      else if st_phase st \<noteq> PHASE_RECEIVING then ERROR_SEQUENCE
      else if st_received st \<noteq> st_length st then ERROR_SHORT
      else ERROR_NONE)"

definition updateImageIsPlausible :: "byte list \<Rightarrow> u32 \<Rightarrow> u32 \<Rightarrow> bool" where
  "updateImageIsPlausible first firstLength totalLength =
     (if firstLength < 2 then False
      else if totalLength < UPDATE_IMAGE_MINIMUM_LENGTH then False
      else if UPDATE_EEPROM_SIZE < totalLength then False
      else if first ! 0 \<noteq> UPDATE_IMAGE_SIGNATURE_0 then False
      else if first ! 1 \<noteq> UPDATE_IMAGE_SIGNATURE_1 then False
      else True)"

subsection \<open>Paging arithmetic\<close>

definition updateEepromSlaveAddress :: "u32 \<Rightarrow> byte" where
  "updateEepromSlaveAddress address =
     (let bank = address div UPDATE_EEPROM_SLAVE_SIZE
      in ucast (UPDATE_EEPROM_SLAVE_BASE OR push_bit 1 (bank AND 7)))"

definition updateEepromSlaveOffset :: "u32 \<Rightarrow> u16" where
  "updateEepromSlaveOffset address = ucast (address mod UPDATE_EEPROM_SLAVE_SIZE)"

definition updateEepromWriteSpan :: "u32 \<Rightarrow> u32 \<Rightarrow> u16" where
  "updateEepromWriteSpan address remaining =
     (if remaining = 0 then 0
      else let toPageEnd = UPDATE_EEPROM_PAGE_SIZE - address mod UPDATE_EEPROM_PAGE_SIZE;
               span = (if remaining < toPageEnd then remaining else toPageEnd)
           in ucast span)"

definition updateEepromReadSpan :: "u32 \<Rightarrow> u32 \<Rightarrow> u16 \<Rightarrow> u16" where
  "updateEepromReadSpan address remaining bufferSize =
     (if remaining = 0 \<or> bufferSize = 0 then 0
      else let toSlaveEnd = UPDATE_EEPROM_SLAVE_SIZE - address mod UPDATE_EEPROM_SLAVE_SIZE;
               span = (if remaining < toSlaveEnd then remaining else toSlaveEnd);
               span = (if ucast bufferSize < span then ucast bufferSize else span)
           in ucast span)"

definition updateEepromPadToPage :: "u32 \<Rightarrow> u32" where
  "updateEepromPadToPage len =
     (if len = 0 then 0
      else ((len + UPDATE_EEPROM_PAGE_SIZE - 1) div UPDATE_EEPROM_PAGE_SIZE)
             * UPDATE_EEPROM_PAGE_SIZE)"

definition updateEpcsWriteSpan :: "u32 \<Rightarrow> u32 \<Rightarrow> u16" where
  "updateEpcsWriteSpan address remaining =
     (if remaining = 0 then 0
      else let toPageEnd = UPDATE_EPCS_PAGE_SIZE - address mod UPDATE_EPCS_PAGE_SIZE;
               span = (if remaining < toPageEnd then remaining else toPageEnd)
           in ucast span)"

definition updateEpcsSectorStartsHere :: "u32 \<Rightarrow> bool" where
  "updateEpcsSectorStartsHere address \<longleftrightarrow> address mod UPDATE_EPCS_SECTOR_SIZE = 0"

definition updateEpcsSectorBase :: "u32 \<Rightarrow> u32" where
  "updateEpcsSectorBase address = address - address mod UPDATE_EPCS_SECTOR_SIZE"

subsection \<open>Spans: what one page write or one read may cover\<close>

text \<open>
  The contract every span function keeps: a span is never longer than what is left, never
  empty while something is left, and never runs past the end of the page, slave or sector it
  starts in. \<open>tight_span\<close> adds that a span which leaves something over ends exactly on the
  boundary, so the next one starts a fresh page.
\<close>

locale page_span =
  fixes span :: "u32 \<Rightarrow> u32 \<Rightarrow> u16" and page :: nat
  assumes page_pos: "0 < page"
    and span_le: "unat (span a n) \<le> unat n"
    and span_pos: "n \<noteq> 0 \<Longrightarrow> 0 < unat (span a n)"
    and span_fits: "unat a mod page + unat (span a n) \<le> page"

locale tight_span = page_span +
  assumes span_tight: "unat (span a n) < unat n \<Longrightarrow> unat a mod page + unat (span a n) = page"

text \<open>The loop shape the agent's page loops share: the segments a walk of \<open>n\<close> bytes issues.\<close>

function span_walk :: "(u32 \<Rightarrow> u32 \<Rightarrow> u16) \<Rightarrow> u32 \<Rightarrow> u32 \<Rightarrow> (u32 \<times> u16) list" where
  "span_walk span a n =
     (if n = 0 \<or> span a n = 0 \<or> unat n < unat (span a n) then []
      else (a, span a n) # span_walk span (a + ucast (span a n)) (n - ucast (span a n)))"
  by pat_completeness auto
termination
proof (relation "measure (\<lambda>(span, a, n). unat n)", goal_cases)
  case 1
  show ?case by simp
next
  case (2 span a n)
  then have pos: "0 < unat (span a n)" and le: "unat (span a n) \<le> unat n"
    by (simp_all add: unat_gt_0)
  then have "unat (n - ucast (span a n)) = unat n - unat (span a n)"
    using unat_minus_le [of "ucast (span a n)" n] by (simp add: u32_le_iff)
  then show ?case using pos le by simp
qed

declare span_walk.simps [simp del]

lemma same_page_div:
  assumes "a mod page + s \<le> page" and "i < s"
  shows "(a + i) div page = a div (page :: nat)"
proof -
  have i: "a mod page + i < page" using assms by simp
  have "a + i = a div page * page + (a mod page + i)"
    using div_mult_mod_eq [of a page] by simp
  also have "\<dots> div page = a div page"
    using i by (metis add_cancel_left_right div_less div_mult_self3 gr_implies_not_zero)
  finally show ?thesis .
qed

context page_span
begin

lemma span_same_page:
  "i < unat (span a n) \<Longrightarrow> (unat a + i) div page = unat a div page"
  using span_fits by (rule same_page_div)

lemma span_walk_step:
  assumes "n \<noteq> 0"
  shows "span_walk span a n =
    (a, span a n) # span_walk span (a + ucast (span a n)) (n - ucast (span a n))"
proof -
  have "\<not> (n = 0 \<or> span a n = 0 \<or> unat n < unat (span a n))"
    using span_pos [OF assms, of a] span_le [of a n] assms by (auto simp: word_unat_eq_iff)
  then show ?thesis by (subst span_walk.simps) simp
qed

lemma span_walk_covers:
  assumes "unat a + unat n < 4294967296"
  shows "concat (map (\<lambda>(x, l). [unat x..<unat x + unat l]) (span_walk span a n))
         = [unat a..<unat a + unat n]"
  using assms
proof (induction "unat n" arbitrary: a n rule: less_induct)
  case less
  show ?case
  proof (cases "n = 0")
    case True
    then show ?thesis by (subst span_walk.simps) simp
  next
    case False
    let ?s = "span a n"
    have le: "(ucast ?s :: u32) \<le> n" using span_le [of a n] by (simp add: u32_le_iff)
    have n': "unat (n - ucast ?s) = unat n - unat ?s" using unat_minus_le [OF le] by simp
    have a': "unat (a + ucast ?s) = unat a + unat ?s"
      using less.prems span_le [of a n] by (simp add: unat_plus_le)
    have pos: "0 < unat ?s" using False by (rule span_pos)
    have "unat (n - ucast ?s) < unat n" using n' pos span_le [of a n] by simp
    moreover have "unat (a + ucast ?s) + unat (n - ucast ?s) < 4294967296"
      using less.prems span_le [of a n] n' a' by simp
    ultimately have IH: "concat (map (\<lambda>(x, l). [unat x..<unat x + unat l])
        (span_walk span (a + ucast ?s) (n - ucast ?s)))
        = [unat a + unat ?s..<unat a + unat n]"
      using less.hyps [of "n - ucast ?s" "a + ucast ?s"] n' a' span_le [of a n] by simp
    have "concat (map (\<lambda>(x, l). [unat x..<unat x + unat l]) (span_walk span a n))
        = [unat a..<unat a + unat ?s] @ [unat a + unat ?s..<unat a + unat n]"
      using IH by (simp add: span_walk_step [OF False])
    also have "\<dots> = [unat a..<unat a + unat n]"
      using span_le [of a n] by (metis le_add1 le_add_diff_inverse upt_add_eq_append add.assoc)
    finally show ?thesis .
  qed
qed

lemma span_walk_segments:
  "(x, l) \<in> set (span_walk span a n) \<Longrightarrow> 0 < unat l \<and> unat x mod page + unat l \<le> page"
proof (induction "unat n" arbitrary: a n rule: less_induct)
  case less
  then have n: "n \<noteq> 0" by (subst (asm) span_walk.simps) (auto split: if_splits)
  from less.prems consider "x = a" "l = span a n"
    | "(x, l) \<in> set (span_walk span (a + ucast (span a n)) (n - ucast (span a n)))"
    by (auto simp: span_walk_step [OF n])
  then show ?case
  proof cases
    case 1
    then show ?thesis using span_pos [OF n] span_fits by simp
  next
    case 2
    have "unat (n - ucast (span a n)) < unat n"
      using span_le [of a n] span_pos [OF n, of a]
      by (simp add: unat_minus_le u32_le_iff)
    then show ?thesis using 2 less.hyps by blast
  qed
qed

end

subsubsection \<open>The span functions of the source keep the contract\<close>

lemma unat_span_to_end:
  assumes "0 < unat p" and "unat p < 65536"
  shows "unat (ucast (if r < p - a mod p then r else p - a mod p :: u32) :: u16)
         = min (unat r) (unat p - unat a mod unat p)"
proof -
  have "unat a mod unat p < unat p" using assms(1) by simp
  then have end_eq: "unat (p - a mod p) = unat p - unat a mod unat p"
    by (subst unat_minus_le) (simp_all add: u32_le_iff unat_mod)
  have "unat (if r < p - a mod p then r else p - a mod p)
        = min (unat r) (unat p - unat a mod unat p)"
    by (simp add: u32_less_iff end_eq)
  moreover have "min (unat r) (unat p - unat a mod unat p) < 65536"
    using assms(2) by simp
  ultimately show ?thesis by (simp add: unat_ucast_u32_u16)
qed

lemma unat_updateEepromWriteSpan:
  "unat (updateEepromWriteSpan a n) = min (unat n) (64 - unat a mod 64)"
  using unat_span_to_end [of 64 n a]
  by (cases "n = 0") (simp_all add: updateEepromWriteSpan_def Let_def)

lemma unat_updateEpcsWriteSpan:
  "unat (updateEpcsWriteSpan a n) = min (unat n) (256 - unat a mod 256)"
  using unat_span_to_end [of 256 n a]
  by (cases "n = 0") (simp_all add: updateEpcsWriteSpan_def Let_def)

lemma unat_updateEepromReadSpan:
  "unat (updateEepromReadSpan a n b) = min (min (unat n) (65536 - unat a mod 65536)) (unat b)"
proof (cases "n = 0 \<or> b = 0")
  case True
  then show ?thesis by (auto simp: updateEepromReadSpan_def)
next
  case False
  have end_eq: "unat (65536 - a mod 65536) = 65536 - unat a mod 65536"
    by (subst unat_minus_le) (simp_all add: u32_le_iff unat_mod mod_le_divisor)
  let ?s = "if n < 65536 - a mod 65536 then n else 65536 - a mod 65536"
  have "unat (if ucast b < ?s then ucast b else ?s)
        = min (min (unat n) (65536 - unat a mod 65536)) (unat b)"
    by (auto simp: u32_less_iff end_eq)
  moreover have "min (min (unat n) (65536 - unat a mod 65536)) (unat b) < 65536"
    by (simp only: min_less_iff_disj unat_less_u16 simp_thms)
  ultimately show ?thesis using False
    by (simp add: updateEepromReadSpan_def Let_def unat_ucast_u32_u16)
qed

interpretation eeprom_write: tight_span updateEepromWriteSpan 64
  by unfold_locales (auto simp: unat_updateEepromWriteSpan unat_gt_0 min_def)

interpretation epcs_write: tight_span updateEpcsWriteSpan 256
  by unfold_locales (auto simp: unat_updateEpcsWriteSpan unat_gt_0 min_def)

interpretation eeprom_read: page_span "\<lambda>a n. updateEepromReadSpan a n 512" 65536
  by unfold_locales (auto simp: unat_updateEepromReadSpan unat_gt_0 min_def)

subsection \<open>What an admitted transfer looks like\<close>

lemma target_cases:
  "(target = UPDATE_TARGET_EEPROM \<or> updateTargetIsEpcs target) \<longleftrightarrow> target \<in> {0, 1, 2}"
  by (auto simp: updateTargetIsEpcs_def)

lemma updateTargetIsEpcs_simps [simp]:
  "\<not> updateTargetIsEpcs 0" "updateTargetIsEpcs 1" "updateTargetIsEpcs 2"
  by (simp_all add: updateTargetIsEpcs_def)

lemma updateEpcsTarget_simps [simp]:
  "updateEpcsTargetBase 1 = 0x200000" "updateEpcsTargetBase 2 = 0"
  "updateEpcsTargetCapacity 1 = 0x600000" "updateEpcsTargetCapacity 2 = 0x100000"
  by (simp_all add: updateEpcsTargetBase_def updateEpcsTargetCapacity_def)

lemma updateTargetPageSize_simps [simp]:
  "updateTargetPageSize 0 = 64" "updateTargetPageSize 1 = 256" "updateTargetPageSize 2 = 256"
  by (simp_all add: updateTargetPageSize_def)

definition admissible_length :: "byte \<Rightarrow> u32 \<Rightarrow> bool" where
  "admissible_length t len \<longleftrightarrow>
     t = 0 \<and> 128 \<le> unat len \<and> unat len \<le> 262144
   \<or> t = 1 \<and> 256 \<le> unat len \<and> unat len \<le> 0x600000
   \<or> t = 2 \<and> 256 \<le> unat len \<and> unat len \<le> 0x100000"

lemma begin_allowed_iff:
  "updateBeginIsAllowed st t len flags capture = ERROR_NONE \<longleftrightarrow>
     \<not> capture \<and> \<not> updateIsInProgress st \<and> admissible_length t len
     \<and> flags = (if t = 2 then UPDATE_FLAG_FACTORY_WRITE else UPDATE_FLAGS_NONE)"
  by (auto simp: updateBeginIsAllowed_def updateGatewareIsPlausible_def admissible_length_def
      u32_less_iff not_less updateTargetIsEpcs_def updateEpcsTargetCapacity_def split: if_splits)

lemma unat_updateEpcsSectorBase:
  "unat (updateEpcsSectorBase a) = unat a - unat a mod 65536"
  by (simp add: updateEpcsSectorBase_def unat_minus_le u32_le_iff unat_mod)

lemma updateEpcsSectorStartsHere_iff:
  "updateEpcsSectorStartsHere a \<longleftrightarrow> unat a mod 65536 = 0"
  by (simp add: updateEpcsSectorStartsHere_def u32_eq_iff unat_mod)

lemma region_sectors:
  assumes "admissible_length t len" and "updateTargetIsEpcs t"
    and "unat (updateEpcsTargetBase t) \<le> unat a"
    and "unat a < unat (updateEpcsTargetBase t) + unat len"
  shows "unat (updateEpcsTargetBase t) \<le> unat (updateEpcsSectorBase a)"
    and "unat (updateEpcsSectorBase a) + 65536
           \<le> unat (updateEpcsTargetBase t) + unat (updateEpcsTargetCapacity t)"
proof -
  have t: "t = 1 \<or> t = 2" using assms(2) by (auto simp: updateTargetIsEpcs_def)
  then obtain k m where k: "unat (updateEpcsTargetBase t) = k * 65536"
    and m: "unat (updateEpcsTargetBase t) + unat (updateEpcsTargetCapacity t) = m * 65536"
    and fits: "unat len \<le> unat (updateEpcsTargetCapacity t)"
    using assms(1) that [of 32 128] that [of 0 16] by (auto simp: admissible_length_def)
  have "k * 65536 \<le> unat a" "unat a < m * 65536"
    using k m fits assms(3,4) by simp_all
  then have "unat (updateEpcsTargetBase t) \<le> unat (updateEpcsSectorBase a)
    \<and> unat (updateEpcsSectorBase a) + 65536
        \<le> unat (updateEpcsTargetBase t) + unat (updateEpcsTargetCapacity t)"
    using block_floor [of k 65536 "unat a" m] k m by (simp add: unat_updateEpcsSectorBase)
  then show "unat (updateEpcsTargetBase t) \<le> unat (updateEpcsSectorBase a)"
    and "unat (updateEpcsSectorBase a) + 65536
           \<le> unat (updateEpcsTargetBase t) + unat (updateEpcsTargetCapacity t)"
    by simp_all
qed

text \<open>
  The invariant of an open transfer: what has been received never exceeds what was promised,
  and until the last chunk it is a whole number of the medium's pages, so every chunk starts
  on a page boundary.
\<close>

definition transfer_ok :: "updateState \<Rightarrow> bool" where
  "transfer_ok st \<longleftrightarrow>
     admissible_length (st_target st) (st_length st)
     \<and> unat (st_received st) \<le> unat (st_length st)
     \<and> (st_received st = st_length st
        \<or> unat (updateTargetPageSize (st_target st)) dvd unat (st_received st))"

definition take_chunk :: "updateState \<Rightarrow> u16 \<Rightarrow> updateState" where
  "take_chunk st len = st\<lparr>st_received := st_received st + ucast len,
                          st_nextChunk := st_nextChunk st + 1\<rparr>"

lemma updateTargetPageSize_pos: "0 < unat (updateTargetPageSize t)"
  by (simp add: updateTargetPageSize_def)

lemma chunk_allowed_iff:
  assumes "unat (st_received st) \<le> unat (st_length st)"
  shows "updateChunkIsAllowed st t i len = ERROR_NONE \<longleftrightarrow>
     t = st_target st \<and> st_phase st = PHASE_RECEIVING \<and> i = st_nextChunk st
     \<and> 0 < unat len \<and> unat len \<le> 2048
     \<and> unat (st_received st) + unat len \<le> unat (st_length st)
     \<and> (unat (st_received st) + unat len = unat (st_length st)
        \<or> unat (updateTargetPageSize t) dvd unat len)"
proof -
  have rem: "unat (st_length st - st_received st) = unat (st_length st) - unat (st_received st)"
    using assms by (simp add: unat_minus_le u32_le_iff)
  have len0: "len = 0 \<longleftrightarrow> unat len = 0" by (simp add: word_unat_eq_iff)
  have max: "UPDATE_MAX_CHUNK < len \<longleftrightarrow> 2048 < unat len" by (simp add: word_less_nat_alt)
  have pg0: "(ucast len :: u32) mod updateTargetPageSize t = 0
            \<longleftrightarrow> unat (updateTargetPageSize t) dvd unat len"
    unfolding u32_eq_iff unat_mod by (simp add: dvd_eq_mod_eq_0)
  show ?thesis
    using assms
    unfolding updateChunkIsAllowed_def Let_def len0 max pg0 u32_less_iff rem by auto
qed

lemma take_chunk_ok:
  assumes ok: "transfer_ok st" and allowed: "updateChunkIsAllowed st t i len = ERROR_NONE"
  shows "transfer_ok (take_chunk st len)"
    and "unat (st_received (take_chunk st len)) = unat (st_received st) + unat len"
proof -
  let ?p = "unat (updateTargetPageSize (st_target st))"
  have c: "unat (st_received st) + unat len \<le> unat (st_length st)"
    "unat (st_received st) + unat len = unat (st_length st) \<or> ?p dvd unat len" "0 < unat len"
    using allowed chunk_allowed_iff ok by (auto simp: transfer_ok_def)
  show r: "unat (st_received (take_chunk st len)) = unat (st_received st) + unat len"
    using c(1) unat_less_u32 [of "st_length st"]
    by (simp add: take_chunk_def unat_plus_le del: unat_less_u32)
  have "?p dvd unat (st_received st)"
    using ok c(1,3) by (auto simp: transfer_ok_def)
  then show "transfer_ok (take_chunk st len)"
    using ok c(1,2) r by (auto simp: transfer_ok_def take_chunk_def u32_eq_iff)
qed

subsection \<open>The packets\<close>

definition begin_packet :: "u32 \<Rightarrow> byte list \<Rightarrow> u32 \<Rightarrow> byte list" where
  "begin_packet len digest flags = bytes_le32 len @ digest @ bytes_le32 flags"

lemma updateReadLittleEndian32_at:
  "length xs = off \<Longrightarrow> updateReadLittleEndian32 (xs @ bytes_le32 v @ ys) off = v"
  by (simp add: updateReadLittleEndian32_def bytes_le32_plain nth_append le32_of_bytes)

lemma begin_packet_decodes:
  assumes "length digest = 32" and "flags = UPDATE_FLAGS_NONE \<or> flags = UPDATE_FLAG_FACTORY_WRITE"
  shows "updateBeginDecode (begin_packet len digest flags) UPDATE_BEGIN_LENGTH
         = Some \<lparr>bg_length = len, bg_digest = digest, bg_flags = flags\<rparr>"
proof -
  have "updateReadLittleEndian32 (begin_packet len digest flags) 0 = len"
    unfolding begin_packet_def using updateReadLittleEndian32_at [of "[]" 0] by simp
  moreover have "updateReadLittleEndian32 (begin_packet len digest flags) 36 = flags"
    unfolding begin_packet_def
    using updateReadLittleEndian32_at [of "bytes_le32 len @ digest" 36 flags "[]"] assms(1) by simp
  moreover have "map (\<lambda>i. begin_packet len digest flags ! (4 + i)) [0..<32] = digest"
    using assms(1) by (intro nth_equalityI) (auto simp: begin_packet_def nth_append)
  ultimately show ?thesis using assms(2) by (auto simp: updateBeginDecode_def Let_def)
qed

lemma begin_packet_of_fields:
  assumes "length data = 40"
  shows "begin_packet (updateReadLittleEndian32 data 0) (map (\<lambda>i. data ! (4 + i)) [0..<32])
           (updateReadLittleEndian32 data 36) = data"
proof -
  have four: "take 4 (drop k data) = [data ! k, data ! (k + 1), data ! (k + 2), data ! (k + 3)]"
    if "k + 4 \<le> 40" for k
    using that assms by (intro nth_equalityI) (auto simp: less_Suc_eq numeral_eq_Suc)
  have "take 32 (drop 4 data) = map (\<lambda>i. data ! (4 + i)) [0..<32]"
    using assms by (intro nth_equalityI) auto
  moreover have "data = take 4 data @ take 32 (drop 4 data) @ take 4 (drop 36 data)"
    using append_take_drop_id [of 4 data] append_take_drop_id [of 32 "drop 4 data"] assms by simp
  ultimately show ?thesis
    using four [of 0] four [of 36]
    by (simp add: begin_packet_def updateReadLittleEndian32_def bytes_of_le32)
qed

lemma updateWriteLittleEndian32_at:
  assumes "length xs = off" and "4 \<le> length ys"
  shows "updateWriteLittleEndian32 (xs @ ys) off v = xs @ bytes_le32 v @ drop 4 ys"
proof -
  obtain a b c d zs where "ys = a # b # c # d # zs"
    using assms(2) by (auto simp: Suc_le_length_iff eval_nat_numeral)
  then show ?thesis using assms(1)
    by (simp add: updateWriteLittleEndian32_def bytes_le32_plain list_update_append)
qed

lemma updateWriteLittleEndian16_at:
  assumes "length xs = off" and "2 \<le> length ys"
  shows "updateWriteLittleEndian16 (xs @ ys) off v = xs @ bytes_le16 v @ drop 2 ys"
proof -
  obtain a b zs where "ys = a # b # zs"
    using assms(2) by (auto simp: Suc_le_length_iff eval_nat_numeral)
  then show ?thesis using assms(1)
    by (simp add: updateWriteLittleEndian16_def bytes_le16_def list_update_append)
qed

lemma status_layout:
  assumes "16 \<le> length out"
  shows "updateStatusEncode st out =
    [phase_code (st_phase st), error_code (st_error st)] @ bytes_le16 UPDATE_MAX_CHUNK
    @ bytes_le32 (st_received st) @ bytes_le32 (st_written st) @ bytes_le32 (st_verified st)
    @ drop 16 out"
proof -
  let ?hd = "[phase_code (st_phase st), error_code (st_error st)]"
  let ?h4 = "?hd @ bytes_le16 UPDATE_MAX_CHUNK"
  let ?h8 = "?h4 @ bytes_le32 (st_received st)"
  let ?h12 = "?h8 @ bytes_le32 (st_written st)"
  have "out[0 := phase_code (st_phase st), 1 := error_code (st_error st)] = ?hd @ drop 2 out"
    using assms by (cases out; cases "tl out") auto
  moreover have "updateWriteLittleEndian16 (?hd @ drop 2 out) 2 UPDATE_MAX_CHUNK = ?h4 @ drop 4 out"
    using assms by (subst updateWriteLittleEndian16_at) simp_all
  moreover have "updateWriteLittleEndian32 (?h4 @ drop 4 out) 4 (st_received st) = ?h8 @ drop 8 out"
    using assms by (subst updateWriteLittleEndian32_at) simp_all
  moreover have "updateWriteLittleEndian32 (?h8 @ drop 8 out) 8 (st_written st) = ?h12 @ drop 12 out"
    using assms by (subst updateWriteLittleEndian32_at) simp_all
  moreover have "updateWriteLittleEndian32 (?h12 @ drop 12 out) 12 (st_verified st)
      = ?h12 @ bytes_le32 (st_verified st) @ drop 16 out"
    using assms by (subst updateWriteLittleEndian32_at) simp_all
  ultimately show ?thesis by (simp add: updateStatusEncode_def Let_def)
qed

text \<open>Distinct phases and distinct errors have distinct codes: each code indexes its table.\<close>

lemma phase_code_table:
  "[PHASE_IDLE, PHASE_RECEIVING, PHASE_WRITING, PHASE_VERIFYING, PHASE_COMPLETE, PHASE_FAILED]
     ! unat (phase_code p) = p"
  by (cases p) simp_all

lemma error_code_table:
  "[ERROR_NONE, ERROR_BUSY, ERROR_TARGET, ERROR_LENGTH, ERROR_SEQUENCE, ERROR_CHUNK,
    ERROR_OVERRUN, ERROR_SHORT, ERROR_STREAM_DIGEST, ERROR_MEDIUM_DIGEST, ERROR_WRITE,
    ERROR_READ, ERROR_IMAGE, ERROR_HARDWARE] ! unat (error_code e) = e"
  by (cases e) simp_all

lemma phase_code_inj: "phase_code p = phase_code q \<longleftrightarrow> p = q"
  by (metis phase_code_table)

lemma error_code_inj: "error_code e = error_code f \<longleftrightarrow> e = f"
  by (metis error_code_table)

end
