(* ===== verification/DeviceUpdater.thy ===== *)
theory DeviceUpdater
  imports HostVersions UpdateProtocol
begin

text \<open>
  The device an update is sent to, as the host sees it: \<^verbatim>\<open>ddd-gui/src/capture/device_updater.h\<close> and
  \<^verbatim>\<open>device_updater.cpp\<close>. \<open>IDeviceUpdater\<close> is a record of its operations; \<open>usb_updater\<close> is the
  implementation over a USB backend, which sends the vendor requests of \<^verbatim>\<open>wire_protocol.h\<close>. The
  lemmas say that the status packet the firmware encodes is decoded to the firmware's own state, and
  that the BEGIN packet is the one the firmware's decoder expects.
\<close>

subsection \<open>Targets, phases and errors\<close>

abbreviation (input) kUpdateTargetFirmware :: u16 where "kUpdateTargetFirmware \<equiv> 0"
abbreviation (input) kUpdateTargetGateware :: u16 where "kUpdateTargetGateware \<equiv> 1"
abbreviation (input) kUpdateTargetFactoryGateware :: u16 where "kUpdateTargetFactoryGateware \<equiv> 2"
abbreviation (input) kUpdateFlagsNone :: u32 where "kUpdateFlagsNone \<equiv> 0x00000000"
abbreviation (input) kUpdateFactoryWriteFlag :: u32 where "kUpdateFactoryWriteFlag \<equiv> 0x57464444"
abbreviation (input) kUpdateStatusLength :: nat where "kUpdateStatusLength \<equiv> 16"
abbreviation (input) kUpdateBeginLength :: nat where "kUpdateBeginLength \<equiv> 40"
abbreviation (input) kUpdateStatusRequest :: byte where "kUpdateStatusRequest \<equiv> 0xD0"
abbreviation (input) kUpdateBeginRequest :: byte where "kUpdateBeginRequest \<equiv> 0xD1"
abbreviation (input) kUpdateDataRequest :: byte where "kUpdateDataRequest \<equiv> 0xD2"
abbreviation (input) kUpdateFinishRequest :: byte where "kUpdateFinishRequest \<equiv> 0xD3"
abbreviation (input) kDeviceResetRequest :: byte where "kDeviceResetRequest \<equiv> 0xD4"
abbreviation (input) kFpgaReconfigRequest :: byte where "kFpgaReconfigRequest \<equiv> 0xD5"
abbreviation (input) kRegisterReadRequest :: byte where "kRegisterReadRequest \<equiv> 0xB7"
abbreviation (input) kUpdateVendorWrite :: byte where "kUpdateVendorWrite \<equiv> 0x40"
abbreviation (input) kVendorReadRequestType :: byte where "kVendorReadRequestType \<equiv> 0xC0"
abbreviation (input) kShortTimeoutMilliseconds :: nat where "kShortTimeoutMilliseconds \<equiv> 2000"
abbreviation (input) kWriteTimeoutMilliseconds :: nat where "kWriteTimeoutMilliseconds \<equiv> 0"
abbreviation (input) kUpdaterPollInterval :: nat where "kUpdaterPollInterval \<equiv> 250"

datatype UpdateTarget = kTargetFirmware | kTargetGateware | kTargetEpcsFactory

fun TargetIndex :: "UpdateTarget \<Rightarrow> u16" where
  "TargetIndex kTargetFirmware = kUpdateTargetFirmware"
| "TargetIndex kTargetGateware = kUpdateTargetGateware"
| "TargetIndex kTargetEpcsFactory = kUpdateTargetFactoryGateware"

definition TargetFlags :: "UpdateTarget \<Rightarrow> u32" where
  "TargetFlags t = (if t = kTargetEpcsFactory then kUpdateFactoryWriteFlag else kUpdateFlagsNone)"

fun UpdateTargetName :: "UpdateTarget \<Rightarrow> string" where
  "UpdateTargetName kTargetFirmware = ''firmware''"
| "UpdateTargetName kTargetGateware = ''gateware''"
| "UpdateTargetName kTargetEpcsFactory = ''factory gateware''"

text \<open>The constructors are in the order of their codes.\<close>

datatype UpdatePhase = kPhaseIdle | kPhaseReceiving | kPhaseWriting | kPhaseVerifying | kPhaseComplete | kPhaseFailed

datatype DeviceUpdateError = kErrorNone | kErrorBusy | kErrorTarget | kErrorLength | kErrorSequence | kErrorChunk | kErrorOverrun | kErrorShort | kErrorStreamDigest | kErrorMediumDigest | kErrorWrite | kErrorRead | kErrorImage | kErrorHardware

definition all_phases :: "UpdatePhase list" where
  "all_phases = [kPhaseIdle, kPhaseReceiving, kPhaseWriting, kPhaseVerifying, kPhaseComplete, kPhaseFailed]"

definition all_errors :: "DeviceUpdateError list" where
  "all_errors = [kErrorNone, kErrorBusy, kErrorTarget, kErrorLength, kErrorSequence, kErrorChunk, kErrorOverrun, kErrorShort, kErrorStreamDigest, kErrorMediumDigest, kErrorWrite, kErrorRead, kErrorImage, kErrorHardware]"

fun UpdatePhaseName :: "UpdatePhase \<Rightarrow> string" where
  "UpdatePhaseName kPhaseIdle = ''idle''"
| "UpdatePhaseName kPhaseReceiving = ''receiving''"
| "UpdatePhaseName kPhaseWriting = ''writing''"
| "UpdatePhaseName kPhaseVerifying = ''verifying''"
| "UpdatePhaseName kPhaseComplete = ''complete''"
| "UpdatePhaseName kPhaseFailed = ''failed''"

fun DeviceUpdateErrorName :: "DeviceUpdateError \<Rightarrow> string" where
  "DeviceUpdateErrorName kErrorNone = ''none''"
| "DeviceUpdateErrorName kErrorBusy = ''busy''"
| "DeviceUpdateErrorName kErrorTarget = ''target''"
| "DeviceUpdateErrorName kErrorLength = ''length''"
| "DeviceUpdateErrorName kErrorSequence = ''sequence''"
| "DeviceUpdateErrorName kErrorChunk = ''chunk''"
| "DeviceUpdateErrorName kErrorOverrun = ''overrun''"
| "DeviceUpdateErrorName kErrorShort = ''short''"
| "DeviceUpdateErrorName kErrorStreamDigest = ''stream digest''"
| "DeviceUpdateErrorName kErrorMediumDigest = ''medium digest''"
| "DeviceUpdateErrorName kErrorWrite = ''write''"
| "DeviceUpdateErrorName kErrorRead = ''read''"
| "DeviceUpdateErrorName kErrorImage = ''image''"
| "DeviceUpdateErrorName kErrorHardware = ''hardware''"

fun DeviceUpdateErrorText :: "DeviceUpdateError \<Rightarrow> string" where
  "DeviceUpdateErrorText kErrorNone =
     ''No error.''"
| "DeviceUpdateErrorText kErrorBusy =
     ''The device is capturing. Stop the capture and try again.''"
| "DeviceUpdateErrorText kErrorTarget =
     ''This device's firmware cannot update that part of itself yet.''"
| "DeviceUpdateErrorText kErrorLength =
     ''The device refused the update's size. The file may not be a firmware image for this device.''"
| "DeviceUpdateErrorText kErrorSequence =
     ''The device and the application lost step with each other. Nothing was changed on the device; try again.''"
| "DeviceUpdateErrorText kErrorChunk =
     ''The device refused a block of the update. Nothing was changed on the device; try again.''"
| "DeviceUpdateErrorText kErrorOverrun =
     ''More data arrived than the update said it would send. Nothing was changed on the device.''"
| "DeviceUpdateErrorText kErrorShort =
     ''The update finished before all of it had been sent. Nothing was changed on the device.''"
| "DeviceUpdateErrorText kErrorStreamDigest =
     ''The update did not arrive at the device intact. Nothing was written; try again, and try a different USB port or cable if it happens twice.''"
| "DeviceUpdateErrorText kErrorMediumDigest =
     ''The device could not confirm what it had written. The update was not completed, and the device will start in recovery mode so it can be repaired.''"
| "DeviceUpdateErrorText kErrorWrite =
     ''The device could not write to its own memory. The update was not completed.''"
| "DeviceUpdateErrorText kErrorRead =
     ''The device could not read back what it had written. The update was not completed.''"
| "DeviceUpdateErrorText kErrorImage =
     ''That file is not firmware this device can run.''"
| "DeviceUpdateErrorText kErrorHardware =
     ''This device cannot update its own firmware '' @ em_dash @ '' the part of it that writes the firmware did not start.''"

subsection \<open>The status packet\<close>

record DeviceUpdateStatus =
  us_phase :: UpdatePhase
  us_error :: DeviceUpdateError
  maximum_chunk_bytes :: u16
  bytes_received :: u32
  bytes_written :: u32
  bytes_verified :: u32

definition packet_read32 :: "byte list \<Rightarrow> nat \<Rightarrow> u32" where
  "packet_read32 packet offset =
     ucast (packet ! offset) OR push_bit 8 (ucast (packet ! (offset + 1)))
     OR push_bit 16 (ucast (packet ! (offset + 2))) OR push_bit 24 (ucast (packet ! (offset + 3)))"

definition ParseDeviceUpdateStatus :: "byte list \<Rightarrow> DeviceUpdateStatus option" where
  "ParseDeviceUpdateStatus packet =
     (if length packet \<noteq> kUpdateStatusLength then None
      else if unat (packet ! 0) \<ge> length all_phases then None
      else if unat (packet ! 1) \<ge> length all_errors then None
      else Some \<lparr>us_phase = all_phases ! unat (packet ! 0), us_error = all_errors ! unat (packet ! 1),
        maximum_chunk_bytes = ucast (packet ! 2) OR push_bit 8 (ucast (packet ! 3)),
        bytes_received = packet_read32 packet 4, bytes_written = packet_read32 packet 8,
        bytes_verified = packet_read32 packet 12\<rparr>)"

text \<open>What the host calls the firmware's phases and errors.\<close>

fun host_phase :: "update_phase \<Rightarrow> UpdatePhase" where
  "host_phase PHASE_IDLE = kPhaseIdle"
| "host_phase PHASE_RECEIVING = kPhaseReceiving"
| "host_phase PHASE_WRITING = kPhaseWriting"
| "host_phase PHASE_VERIFYING = kPhaseVerifying"
| "host_phase PHASE_COMPLETE = kPhaseComplete"
| "host_phase PHASE_FAILED = kPhaseFailed"

fun host_error :: "update_error \<Rightarrow> DeviceUpdateError" where
  "host_error ERROR_NONE = kErrorNone"
| "host_error ERROR_BUSY = kErrorBusy"
| "host_error ERROR_TARGET = kErrorTarget"
| "host_error ERROR_LENGTH = kErrorLength"
| "host_error ERROR_SEQUENCE = kErrorSequence"
| "host_error ERROR_CHUNK = kErrorChunk"
| "host_error ERROR_OVERRUN = kErrorOverrun"
| "host_error ERROR_SHORT = kErrorShort"
| "host_error ERROR_STREAM_DIGEST = kErrorStreamDigest"
| "host_error ERROR_MEDIUM_DIGEST = kErrorMediumDigest"
| "host_error ERROR_WRITE = kErrorWrite"
| "host_error ERROR_READ = kErrorRead"
| "host_error ERROR_IMAGE = kErrorImage"
| "host_error ERROR_HARDWARE = kErrorHardware"

definition host_status :: "updateState \<Rightarrow> DeviceUpdateStatus" where
  "host_status st = \<lparr>us_phase = host_phase (st_phase st), us_error = host_error (st_error st),
     maximum_chunk_bytes = UPDATE_MAX_CHUNK, bytes_received = st_received st,
     bytes_written = st_written st, bytes_verified = st_verified st\<rparr>"

lemma phase_of_code: "all_phases ! unat (phase_code p) = host_phase p" "unat (phase_code p) < length all_phases"
  by (cases p; simp add: all_phases_def)+

lemma error_of_code: "all_errors ! unat (error_code e) = host_error e" "unat (error_code e) < length all_errors"
  by (cases e; simp add: all_errors_def)+

lemma packet_read32_at:
  "length xs = offset \<Longrightarrow> packet_read32 (xs @ bytes_le32 v @ ys) offset = v"
  using le32_of_bytes [of v] by (simp add: packet_read32_def bytes_le32_plain nth_append le32_of_def)

lemma status_understood:
  assumes "16 \<le> length out"
  shows "ParseDeviceUpdateStatus (take 16 (updateStatusEncode st out)) = Some (host_status st)"
proof -
  let ?h = "[phase_code (st_phase st), error_code (st_error st)]"
  have p: "take 16 (updateStatusEncode st out) = ?h @ bytes_le16 UPDATE_MAX_CHUNK
      @ bytes_le32 (st_received st) @ bytes_le32 (st_written st) @ bytes_le32 (st_verified st)"
    unfolding status_layout [OF assms] by simp
  have r: "packet_read32 (take 16 (updateStatusEncode st out)) 4 = st_received st"
    "packet_read32 (take 16 (updateStatusEncode st out)) 8 = st_written st"
    "packet_read32 (take 16 (updateStatusEncode st out)) 12 = st_verified st"
    unfolding p
    using packet_read32_at [of "?h @ bytes_le16 UPDATE_MAX_CHUNK" 4]
      packet_read32_at [of "?h @ bytes_le16 UPDATE_MAX_CHUNK @ bytes_le32 (st_received st)" 8]
      packet_read32_at [of "?h @ bytes_le16 UPDATE_MAX_CHUNK @ bytes_le32 (st_received st)
        @ bytes_le32 (st_written st)" 12 _ "[]"] by simp_all
  have c: "ucast (take 16 (updateStatusEncode st out) ! 2) OR push_bit 8 (ucast (take 16 (updateStatusEncode st out) ! 3))
      = (UPDATE_MAX_CHUNK :: u16)"
    unfolding p by (simp add: bytes_le16_def)
  have h: "take 16 (updateStatusEncode st out) ! 0 = phase_code (st_phase st)"
    "take 16 (updateStatusEncode st out) ! 1 = error_code (st_error st)"
    "length (take 16 (updateStatusEncode st out)) = 16" unfolding p by simp_all
  show ?thesis
    unfolding ParseDeviceUpdateStatus_def r c h
    using phase_of_code [of "st_phase st"] error_of_code [of "st_error st"]
    by (simp add: host_status_def)
qed

subsection \<open>Who a device says it is\<close>

record DeviceIdentity =
  product_string :: string
  protocol_version :: int
  gateware_present :: bool
  register_map_version :: nat
  gateware_commit :: string
  image_role :: byte

definition fresh_identity :: DeviceIdentity where
  "fresh_identity = \<lparr>product_string = [], protocol_version = 0, gateware_present = False,
     register_map_version = 0, gateware_commit = [], image_role = kImageRoleApplication\<rparr>"

definition GatewareIsRecovery :: "DeviceIdentity \<Rightarrow> bool" where
  "GatewareIsRecovery i \<longleftrightarrow> gateware_present i \<and> image_role i = kImageRoleFactory"

subsection \<open>The interface and its implementation over USB\<close>

record 's device_updater =
  ReadIdentity :: "'s \<Rightarrow> DeviceIdentity option \<times> 's"
  ReadStatus :: "'s \<Rightarrow> DeviceUpdateStatus option \<times> 's"
  BeginUpdate :: "UpdateTarget \<Rightarrow> nat \<Rightarrow> byte list \<Rightarrow> 's \<Rightarrow> bool \<times> 's"
  SendChunk :: "UpdateTarget \<Rightarrow> u16 \<Rightarrow> byte list \<Rightarrow> 's \<Rightarrow> bool \<times> 's"
  FinishUpdate :: "UpdateTarget \<Rightarrow> 's \<Rightarrow> bool \<times> 's"
  ResetDevice :: "'s \<Rightarrow> bool \<times> 's"
  ReconfigureFpga :: "'s \<Rightarrow> bool \<times> 's"
  WaitForReturn :: "nat \<Rightarrow> 's \<Rightarrow> (DeviceIdentity option \<times> 's) option"

text \<open>A backend with requests that read: the bytes transferred and the buffer afterwards.\<close>

record 'w update_bus = "'w usb_host" +
  ControlIn :: "byte \<Rightarrow> byte \<Rightarrow> u16 \<Rightarrow> u16 \<Rightarrow> nat \<Rightarrow> nat \<Rightarrow> 'w \<Rightarrow> int \<times> byte list \<times> 'w"

record 'w UsbDeviceUpdater =
  updater_world :: 'w
  updater_path :: string
  updater_channel :: bool
  enumerated :: "DeviceInfo option"

definition MakeDeviceUpdater ::
    "'w update_bus \<Rightarrow> string \<Rightarrow> 'w \<Rightarrow> 'w UsbDeviceUpdater option \<times> 'w" where
  "MakeDeviceUpdater H path w =
     (let (devices, w) = Enumerate H w;
          found = (case devices of None \<Rightarrow> None | Some ds \<Rightarrow> find (\<lambda>info. di_path info = path) ds);
          (channel, w) = OpenControlChannel H path w
      in if \<not> channel then (None, w)
         else (Some \<lparr>updater_world = w, updater_path = path, updater_channel = True, enumerated = found\<rparr>, w))"

definition updater_out ::
    "'w update_bus \<Rightarrow> byte \<Rightarrow> u16 \<Rightarrow> u16 \<Rightarrow> byte list \<Rightarrow> nat \<Rightarrow> 'w UsbDeviceUpdater
     \<Rightarrow> int \<times> 'w UsbDeviceUpdater" where
  "updater_out H request value index data timeout s =
     (let (sent, w) = Transfer H kUpdateVendorWrite request value index data timeout (updater_world s)
      in (sent, s\<lparr>updater_world := w\<rparr>))"

definition updater_in ::
    "'w update_bus \<Rightarrow> byte \<Rightarrow> u16 \<Rightarrow> nat \<Rightarrow> 'w UsbDeviceUpdater \<Rightarrow> int \<times> byte list \<times> 'w UsbDeviceUpdater" where
  "updater_in H request value len s =
     (let (n, bytes, w) = ControlIn H kVendorReadRequestType request value 0 len kShortTimeoutMilliseconds (updater_world s)
      in (n, bytes, s\<lparr>updater_world := w\<rparr>))"

definition usb_ReadIdentity :: "'w update_bus \<Rightarrow> 'w UsbDeviceUpdater \<Rightarrow> DeviceIdentity option \<times> 'w UsbDeviceUpdater" where
  "usb_ReadIdentity H s =
     (if \<not> updater_channel s then (None, s)
      else case enumerated s of
        None \<Rightarrow> (None, s)
      | Some info \<Rightarrow>
          let identity = fresh_identity\<lparr>product_string := di_product_string info,
                protocol_version := di_protocol_version info\<rparr>;
              (n, registers, s) = updater_in H kRegisterReadRequest (of_nat kRegisterId) kIdentityLength s
          in if n = int kIdentityLength
             then let gateware = ParseFpgaIdentity registers
               in (Some (identity\<lparr>gateware_present := fv_present gateware,
                     register_map_version := unat (fv_map_version gateware),
                     gateware_commit := fv_commit gateware, image_role := fv_image_role gateware\<rparr>), s)
             else (Some identity, s))"

definition usb_ReadStatus :: "'w update_bus \<Rightarrow> 'w UsbDeviceUpdater \<Rightarrow> DeviceUpdateStatus option \<times> 'w UsbDeviceUpdater" where
  "usb_ReadStatus H s =
     (if \<not> updater_channel s then (None, s) else
      let (n, packet, s) = updater_in H kUpdateStatusRequest 0 kUpdateStatusLength s
      in if n \<noteq> int kUpdateStatusLength then (None, s) else (ParseDeviceUpdateStatus packet, s))"

text \<open>The length is 64 bits wide and its low half goes into the packet.\<close>

definition BeginPacket :: "UpdateTarget \<Rightarrow> nat \<Rightarrow> byte list \<Rightarrow> byte list" where
  "BeginPacket t len digest =
     (let len = of_nat len :: 64 word; flags = TargetFlags t
      in [ucast (len AND 0xFF), ucast (drop_bit 8 len AND 0xFF), ucast (drop_bit 16 len AND 0xFF),
          ucast (drop_bit 24 len AND 0xFF)] @ digest
         @ [ucast (flags AND 0xFF), ucast (drop_bit 8 flags AND 0xFF), ucast (drop_bit 16 flags AND 0xFF),
            ucast (drop_bit 24 flags AND 0xFF)])"

definition usb_Begin ::
    "'w update_bus \<Rightarrow> UpdateTarget \<Rightarrow> nat \<Rightarrow> byte list \<Rightarrow> 'w UsbDeviceUpdater \<Rightarrow> bool \<times> 'w UsbDeviceUpdater" where
  "usb_Begin H t len digest s =
     (if \<not> updater_channel s then (False, s) else
      let (sent, s) = updater_out H kUpdateBeginRequest 0 (TargetIndex t) (BeginPacket t len digest)
                        kShortTimeoutMilliseconds s
      in (sent = int kUpdateBeginLength, s))"

definition usb_SendChunk ::
    "'w update_bus \<Rightarrow> UpdateTarget \<Rightarrow> u16 \<Rightarrow> byte list \<Rightarrow> 'w UsbDeviceUpdater \<Rightarrow> bool \<times> 'w UsbDeviceUpdater" where
  "usb_SendChunk H t index data s =
     (if \<not> updater_channel s then (False, s) else
      let (sent, s) = updater_out H kUpdateDataRequest index (TargetIndex t) data kWriteTimeoutMilliseconds s
      in (sent = int (length data), s))"

definition usb_Finish :: "'w update_bus \<Rightarrow> UpdateTarget \<Rightarrow> 'w UsbDeviceUpdater \<Rightarrow> bool \<times> 'w UsbDeviceUpdater" where
  "usb_Finish H t s =
     (if \<not> updater_channel s then (False, s) else
      let (sent, s) = updater_out H kUpdateFinishRequest 0 (TargetIndex t) [] kShortTimeoutMilliseconds s
      in (0 \<le> sent, s))"

definition usb_Reset :: "'w update_bus \<Rightarrow> 'w UsbDeviceUpdater \<Rightarrow> bool \<times> 'w UsbDeviceUpdater" where
  "usb_Reset H s =
     (if \<not> updater_channel s then (False, s) else
      let (_, s) = updater_out H kDeviceResetRequest 0 0 [] kShortTimeoutMilliseconds s
      in (True, s\<lparr>updater_channel := False\<rparr>))"

definition usb_ReconfigureFpga :: "'w update_bus \<Rightarrow> 'w UsbDeviceUpdater \<Rightarrow> bool \<times> 'w UsbDeviceUpdater" where
  "usb_ReconfigureFpga H s =
     (if \<not> updater_channel s then (False, s) else
      let (sent, s) = updater_out H kFpgaReconfigRequest 0 kUpdateTargetGateware [] kShortTimeoutMilliseconds s
      in (0 \<le> sent, s))"

text \<open>One look at the bus: the identity of the device if it is back and answers.\<close>

definition look_for_return ::
    "'w update_bus \<Rightarrow> 'w UsbDeviceUpdater \<Rightarrow> DeviceIdentity option \<times> 'w UsbDeviceUpdater" where
  "look_for_return H s =
     (let (devices, w) = Enumerate H (sleep_for H kUpdaterPollInterval (updater_world s));
          s = s\<lparr>updater_world := w\<rparr>
      in case devices of
           None \<Rightarrow> (None, s)
         | Some ds \<Rightarrow>
             (case find (\<lambda>info. di_path info = updater_path s) ds of
                None \<Rightarrow> (None, s)
              | Some info \<Rightarrow>
                  let (channel, w) = OpenControlChannel H (updater_path s) (updater_world s);
                      s = s\<lparr>updater_world := w, enumerated := Some info, updater_channel := channel\<rparr>
                  in if \<not> channel then (None, s) else
                  let (identity, s) = usb_ReadIdentity H s
                  in (identity, if identity = None then s\<lparr>updater_channel := False\<rparr> else s)))"

partial_function (option) return_loop ::
    "'w update_bus \<Rightarrow> nat \<Rightarrow> 'w UsbDeviceUpdater \<Rightarrow> (DeviceIdentity option \<times> 'w UsbDeviceUpdater) option" where
  "return_loop H deadline s =
     (let (now, w) = steady_now H (updater_world s); s = s\<lparr>updater_world := w\<rparr>
      in if \<not> now < deadline then Some (None, s) else
      let (identity, s) = look_for_return H s
      in if identity \<noteq> None then Some (identity, s) else return_loop H deadline s)"

definition usb_WaitForReturn ::
    "'w update_bus \<Rightarrow> nat \<Rightarrow> 'w UsbDeviceUpdater \<Rightarrow> (DeviceIdentity option \<times> 'w UsbDeviceUpdater) option" where
  "usb_WaitForReturn H timeout s =
     (let (now, w) = steady_now H (updater_world s)
      in return_loop H (now + timeout) (s\<lparr>updater_world := w\<rparr>))"

definition usb_updater :: "'w update_bus \<Rightarrow> 'w UsbDeviceUpdater device_updater" where
  "usb_updater H = \<lparr>ReadIdentity = usb_ReadIdentity H, ReadStatus = usb_ReadStatus H, BeginUpdate = usb_Begin H,
     SendChunk = usb_SendChunk H, FinishUpdate = usb_Finish H, ResetDevice = usb_Reset H,
     ReconfigureFpga = usb_ReconfigureFpga H, WaitForReturn = usb_WaitForReturn H\<rparr>"

text \<open>The packet is the one the firmware's decoder expects.\<close>

lemma BeginPacket_begin_packet:
  "BeginPacket t len digest = begin_packet (of_nat len) digest (TargetFlags t)"
proof -
  have m: "(0xFF :: 64 word) = mask 8" "(0xFF :: u32) = mask 8" by (simp_all add: mask_eq_exp_minus_1)
  have "(ucast (drop_bit k (of_nat len :: 64 word) AND 0xFF) :: byte) = ucast (drop_bit k (of_nat len :: u32) AND 0xFF)"
    if "k < 25" for k
  proof (rule bit_word_eqI)
    fix n :: nat
    assume "n < LENGTH(8)"
    with that have "k + n < 32" by simp
    then show "bit (ucast (drop_bit k (of_nat len :: 64 word) AND 0xFF) :: byte) n
        = bit (ucast (drop_bit k (of_nat len :: u32) AND 0xFF) :: byte) n"
      unfolding m by (auto simp: bit_simps)
  qed
  from this [of 0] this [of 8] this [of 16] this [of 24] show ?thesis
    by (simp add: BeginPacket_def begin_packet_def bytes_le32_def Let_def)
qed

end
