(* ===== verification/Orchestrator.thy ===== *)
theory Orchestrator
  imports DeviceUpdater
begin

text \<open>
  Driving an update from a bundle to a device that reports the new version:
  \<^verbatim>\<open>ddd-gui/src/capture/update_orchestrator.cpp\<close>, over the interface of \<open>DeviceUpdater\<close>. The
  callbacks, the clock and the sleep are a record of operations on the same state. The state holds
  the device; a function that may wait for ever is a partial function, \<open>None\<close> when it does. The log
  lines are left out, but not the status request that one of them makes of the device.
\<close>

abbreviation (input) kUpdateChunkAlignment :: nat where "kUpdateChunkAlignment \<equiv> 256"

datatype UpdateStage = kStageChecking | kStagePreparing | kStageTransferring | kStageWriting | kStageVerifying
  | kStageRestarting | kStageConfirming | kStageComplete | kStageFailed

fun UpdateStageName :: "UpdateStage \<Rightarrow> string" where
  "UpdateStageName kStageChecking = ''Checking''"
| "UpdateStageName kStagePreparing = ''Preparing device''"
| "UpdateStageName kStageTransferring = ''Sending''"
| "UpdateStageName kStageWriting = ''Writing''"
| "UpdateStageName kStageVerifying = ''Verifying''"
| "UpdateStageName kStageRestarting = ''Restarting device''"
| "UpdateStageName kStageConfirming = ''Confirming''"
| "UpdateStageName kStageComplete = ''Complete''"
| "UpdateStageName kStageFailed = ''Failed''"

record UpdateProgress =
  prog_stage :: UpdateStage
  prog_target :: UpdateTarget
  prog_count :: nat
  prog_total :: nat
  prog_message :: string

record UpdateOutcome =
  succeeded :: bool
  out_stage :: UpdateStage
  problem :: string
  out_identity :: DeviceIdentity
  identity_confirmed :: bool

record UpdateTimings =
  tm_return_timeout :: nat
  tm_poll_interval :: nat
  tm_stall_timeout :: nat

record UpdateComponent =
  comp_length :: nat
  comp_sha256 :: "byte list"
  comp_identity :: string
  comp_interface_version :: int

record UpdateBundle =
  man_firmware :: "UpdateComponent option"
  man_gateware :: "UpdateComponent option"
  man_factory_gateware :: "UpdateComponent option"
  bundle_firmware :: "byte list"
  bundle_gateware :: "byte list"
  bundle_factory_gateware :: "byte list"

record 's orchestrator_env =
  update_cancelled :: "'s \<Rightarrow> bool \<times> 's"
  env_now :: "'s \<Rightarrow> nat \<times> 's"
  env_sleep :: "nat \<Rightarrow> 's \<Rightarrow> 's"
  progress_callback :: "UpdateProgress \<Rightarrow> 's \<Rightarrow> 's"
  timings :: UpdateTimings
  has_logger :: bool
  defer_restart :: bool

definition Report ::
    "'s orchestrator_env \<Rightarrow> UpdateStage \<Rightarrow> UpdateTarget \<Rightarrow> nat \<Rightarrow> nat \<Rightarrow> string \<Rightarrow> 's \<Rightarrow> 's" where
  "Report E stage t count total_bytes message s =
     progress_callback E \<lparr>prog_stage = stage, prog_target = t, prog_count = count, prog_total = total_bytes,
       prog_message = message\<rparr> s"

definition AlignedChunk :: "nat \<Rightarrow> nat" where
  "AlignedChunk maximum =
     (let aligned = maximum - maximum mod kUpdateChunkAlignment
      in if aligned = 0 then kUpdateChunkAlignment else aligned)"

lemma AlignedChunk_pos [simp]: "0 < AlignedChunk m"
  by (simp add: AlignedChunk_def Let_def)

lemma AlignedChunk_dvd: "256 dvd AlignedChunk m"
  by (simp add: AlignedChunk_def Let_def minus_mod_eq_div_mult)

fun decimal :: "nat \<Rightarrow> string" where
  "decimal n = (if n < 10 then [char_of (48 + n)] else decimal (n div 10) @ [char_of (48 + n mod 10)])"

declare decimal.simps [simp del]

definition DescribeRefusal :: "DeviceUpdateStatus \<Rightarrow> nat \<Rightarrow> string" where
  "DescribeRefusal status total_bytes =
     (let text = DeviceUpdateErrorText (us_error status)
      in if 0 < bytes_written status
         then text @ '' It stopped after writing '' @ decimal (unat (bytes_written status)) @ '' of ''
           @ decimal total_bytes @ '' bytes.''
         else text)"

definition DeviceRefusal :: "'s device_updater \<Rightarrow> nat \<Rightarrow> string \<Rightarrow> 's \<Rightarrow> string \<times> 's" where
  "DeviceRefusal D total_bytes fallback s =
     (case ReadStatus D s of (refused, s) \<Rightarrow>
        (case refused of
           None \<Rightarrow> (fallback, s)
         | Some st \<Rightarrow> (if us_error st = kErrorNone then fallback else DescribeRefusal st total_bytes, s)))"

definition stopped_with :: "string \<Rightarrow> UpdateOutcome \<Rightarrow> UpdateOutcome" where
  "stopped_with sentence outcome = outcome\<lparr>out_stage := kStageFailed, problem := sentence\<rparr>"

subsection \<open>Waiting for the device\<close>

partial_function (option) await_loop ::
    "'s device_updater \<Rightarrow> 's orchestrator_env \<Rightarrow> UpdateTarget \<Rightarrow> nat \<Rightarrow> UpdateOutcome \<Rightarrow> u32 \<Rightarrow> u32 \<Rightarrow> nat \<Rightarrow> 's
     \<Rightarrow> ((bool \<times> UpdateOutcome) \<times> 's) option" where
  "await_loop D E t total_bytes outcome last_written last_verified last_movement s =
     (case update_cancelled E s of (stop, s) \<Rightarrow>
      if stop
      then Some ((False, stopped_with (''The update was stopped. The device was not left half-written '' @ em_dash @ '' it still has the firmware it started with.'') outcome), s)
      else case ReadStatus D s of (status, s) \<Rightarrow>
      (case status of
         None \<Rightarrow> Some ((False, stopped_with (''The device stopped answering part way through the update. Leave it plugged in, then try again.'') outcome), s)
       | Some st \<Rightarrow>
         if us_phase st = kPhaseFailed
         then Some ((False, stopped_with (DescribeRefusal st total_bytes) outcome), s)
         else if us_phase st = kPhaseComplete
         then Some ((True, outcome), Report E kStageVerifying t total_bytes total_bytes (''The device has confirmed what it wrote.'') s)
         else
           let moved = bytes_written st \<noteq> last_written \<or> bytes_verified st \<noteq> last_verified
           in case env_now E s of (now, s) \<Rightarrow>
           if \<not> moved \<and> tm_stall_timeout (timings E) < now - last_movement
           then Some ((False, stopped_with (''The device stopped making progress. Leave it plugged in, unplug and replug it, then try again.'') outcome), s)
           else
             let s = (if us_phase st = kPhaseVerifying
                  then Report E kStageVerifying t (unat (bytes_verified st)) total_bytes
                         (''The device is reading back what it wrote and checking it.'') s
                  else Report E kStageWriting t (unat (bytes_written st)) total_bytes
                         (''The device is writing the update to its own memory.'') s)
             in await_loop D E t total_bytes outcome
                  (if moved then bytes_written st else last_written)
                  (if moved then bytes_verified st else last_verified)
                  (if moved then now else last_movement)
                  (env_sleep E (tm_poll_interval (timings E)) s)))"

definition AwaitCompletion ::
    "'s device_updater \<Rightarrow> 's orchestrator_env \<Rightarrow> UpdateTarget \<Rightarrow> nat \<Rightarrow> UpdateOutcome \<Rightarrow> 's
     \<Rightarrow> ((bool \<times> UpdateOutcome) \<times> 's) option" where
  "AwaitCompletion D E t total_bytes outcome s =
     (case env_now E s of (now, s) \<Rightarrow> await_loop D E t total_bytes outcome 0 0 now s)"

subsection \<open>Sending one component\<close>

fun sending_message :: "UpdateTarget \<Rightarrow> string" where
  "sending_message kTargetGateware =
     ''Sending the gateware to the device, which erases and writes its flash as it arrives. It pauses every few seconds while a block is erased.''"
| "sending_message kTargetEpcsFactory =
     ''Sending the factory image to the device, which erases and writes its flash as it arrives. It pauses every few seconds while a block is erased.''"
| "sending_message kTargetFirmware =
     ''Sending the firmware to the device, which writes it as it arrives.''"

function send_loop ::
    "'s device_updater \<Rightarrow> 's orchestrator_env \<Rightarrow> UpdateTarget \<Rightarrow> nat \<Rightarrow> byte list \<Rightarrow> UpdateOutcome \<Rightarrow> nat \<Rightarrow> u16 \<Rightarrow> 's
     \<Rightarrow> (bool \<times> UpdateOutcome) \<times> 's" where
  "send_loop D E t maximum payload outcome sent index s =
     (if sent < length payload then
        (case update_cancelled E s of (stop, s) \<Rightarrow>
         if stop
         then ((False, stopped_with (''The update was stopped. Nothing was committed to the device '' @ em_dash @ '' it still has the firmware it started with.'') outcome), s)
         else
           let span = min (AlignedChunk maximum) (length payload - sent)
           in case SendChunk D t index (take span (drop sent payload)) s of (accepted, s) \<Rightarrow>
           if \<not> accepted
           then (case DeviceRefusal D (length payload) (''The device stopped accepting the update. Leave it plugged in, then try again.'') s of
                   (sentence, s) \<Rightarrow> ((False, stopped_with sentence outcome), s))
           else send_loop D E t maximum payload outcome (sent + span) (index + 1)
                  (Report E kStageTransferring t (sent + span) (length payload) (sending_message t) s))
      else ((True, outcome), s))"
  by pat_completeness auto
termination
proof (relation "measure (\<lambda>(D, E, t, maximum, payload, outcome, sent, index, s). length payload - sent)", goal_cases)
  case 2
  then show ?case using AlignedChunk_pos by (auto intro: diff_less_mono2 simp: min_def)
qed simp

declare send_loop.simps [simp del]

definition WriteComponent ::
    "'s device_updater \<Rightarrow> 's orchestrator_env \<Rightarrow> UpdateTarget \<Rightarrow> UpdateComponent \<Rightarrow> byte list \<Rightarrow> UpdateOutcome \<Rightarrow> 's
     \<Rightarrow> ((bool \<times> UpdateOutcome) \<times> 's) option" where
  "WriteComponent D E t component payload outcome s =
     (case ReadStatus D s of (first_status, s) \<Rightarrow>
      (case first_status of
         None \<Rightarrow> Some ((False, stopped_with (''This device's firmware cannot update itself. It has to be programmed with the bench procedure once before it can be updated from here.'') outcome), s)
       | Some st \<Rightarrow>
         if maximum_chunk_bytes st = 0
         then Some ((False, stopped_with (''The device did not say how much data it can take.'') outcome), s)
         else
           let s = Report E kStageTransferring t 0 (length payload) (sending_message t) s
           in case BeginUpdate D t (length payload) (comp_sha256 component) s of (accepted, s) \<Rightarrow>
           if \<not> accepted
           then (case DeviceRefusal D (length payload) (''The device would not start the update.'') s of
                   (sentence, s) \<Rightarrow> Some ((False, stopped_with sentence outcome), s))
           else case send_loop D E t (unat (maximum_chunk_bytes st)) payload outcome 0 0 s of ((sent, outcome), s) \<Rightarrow>
           if \<not> sent then Some ((False, outcome), s)
           else case FinishUpdate D t s of (accepted, s) \<Rightarrow>
           if \<not> accepted
           then (case DeviceRefusal D (length payload) (''The device would not finish the update. Nothing was committed.'') s of
                   (sentence, s) \<Rightarrow> Some ((False, stopped_with sentence outcome), s))
           else AwaitCompletion D E t (length payload) outcome s))"

definition InstallComponent ::
    "'s device_updater \<Rightarrow> 's orchestrator_env \<Rightarrow> UpdateTarget \<Rightarrow> UpdateComponent \<Rightarrow> byte list \<Rightarrow> UpdateOutcome \<Rightarrow> 's
     \<Rightarrow> ((bool \<times> UpdateOutcome) \<times> 's) option" where
  "InstallComponent D E t component payload outcome s =
     (case WriteComponent D E t component payload outcome s of
        None \<Rightarrow> None
      | Some ((installed, outcome), s) \<Rightarrow>
          Some ((installed, outcome), if \<not> installed \<and> has_logger E then snd (ReadStatus D s) else s))"

subsection \<open>The three flows\<close>

definition fresh_outcome_update :: UpdateOutcome where
  "fresh_outcome_update = \<lparr>succeeded = False, out_stage = kStageChecking, problem = [],
     out_identity = fresh_identity, identity_confirmed = False\<rparr>"

definition finished_unconfirmed :: "UpdateOutcome \<Rightarrow> UpdateOutcome" where
  "finished_unconfirmed outcome =
     outcome\<lparr>succeeded := True, out_stage := kStageComplete, identity_confirmed := False\<rparr>"

text \<open>A component is carried when the manifest names it and its payload is there.\<close>

definition carried :: "UpdateComponent option \<Rightarrow> byte list \<Rightarrow> bool" where
  "carried component payload \<longleftrightarrow> component \<noteq> None \<and> payload \<noteq> []"

definition RunFactoryWrite ::
    "'s device_updater \<Rightarrow> 's orchestrator_env \<Rightarrow> UpdateBundle \<Rightarrow> 's \<Rightarrow> (UpdateOutcome \<times> 's) option" where
  "RunFactoryWrite D E bundle s =
     (let outcome = fresh_outcome_update;
          s = Report E kStageChecking kTargetEpcsFactory 0 0 (''Checking the factory image.'') s
      in if \<not> carried (man_factory_gateware bundle) (bundle_factory_gateware bundle)
      then Some (stopped_with (''This file carries no factory image.'') outcome, s)
      else case InstallComponent D E kTargetEpcsFactory (the (man_factory_gateware bundle))
             (bundle_factory_gateware bundle) outcome s of
        None \<Rightarrow> None
      | Some ((installed, outcome), s) \<Rightarrow>
          if \<not> installed then Some (outcome, s)
          else Some (finished_unconfirmed outcome,
            Report E kStageComplete kTargetEpcsFactory 0 0 (''Written and checked. The board has not been restarted yet.'') s))"

definition RunBringUpWrites ::
    "'s device_updater \<Rightarrow> 's orchestrator_env \<Rightarrow> UpdateBundle \<Rightarrow> 's \<Rightarrow> (UpdateOutcome \<times> 's) option" where
  "RunBringUpWrites D E bundle s =
     (let outcome = fresh_outcome_update;
          s = Report E kStageChecking kTargetFirmware 0 0 (''Checking what is about to be written.'') s
      in if \<not> carried (man_firmware bundle) (bundle_firmware bundle)
          \<or> \<not> carried (man_factory_gateware bundle) (bundle_factory_gateware bundle)
          \<or> \<not> carried (man_gateware bundle) (bundle_gateware bundle)
      then Some (stopped_with (''This file cannot bring a board up: it needs the firmware, the factory image and the gateware, and it does not carry all three.'') outcome, s)
      else case InstallComponent D E kTargetFirmware (the (man_firmware bundle)) (bundle_firmware bundle) outcome s of
        None \<Rightarrow> None
      | Some ((installed, outcome), s) \<Rightarrow>
      if \<not> installed then Some (outcome, s)
      else case InstallComponent D E kTargetEpcsFactory (the (man_factory_gateware bundle))
             (bundle_factory_gateware bundle) outcome s of
        None \<Rightarrow> None
      | Some ((installed, outcome), s) \<Rightarrow>
      if \<not> installed then Some (outcome, s)
      else case InstallComponent D E kTargetGateware (the (man_gateware bundle)) (bundle_gateware bundle) outcome s of
        None \<Rightarrow> None
      | Some ((installed, outcome), s) \<Rightarrow>
      if \<not> installed then Some (outcome, s)
      else Some (finished_unconfirmed outcome,
             Report E kStageComplete kTargetGateware 0 0 (''Written and checked. The board has not been restarted yet.'') s))"

definition install_if_carried ::
    "'s device_updater \<Rightarrow> 's orchestrator_env \<Rightarrow> UpdateTarget \<Rightarrow> UpdateComponent option \<Rightarrow> byte list \<Rightarrow> UpdateOutcome \<Rightarrow> 's
     \<Rightarrow> ((bool \<times> UpdateOutcome) \<times> 's) option" where
  "install_if_carried D E t component payload outcome s =
     (if carried component payload then InstallComponent D E t (the component) payload outcome s
      else Some ((True, outcome), s))"

text \<open>What the device that came back is compared with.\<close>

definition confirm_firmware :: "UpdateBundle \<Rightarrow> DeviceIdentity \<Rightarrow> UpdateOutcome \<Rightarrow> UpdateOutcome" where
  "confirm_firmware bundle returned outcome =
     (if carried (man_firmware bundle) (bundle_firmware bundle) \<and> comp_identity (the (man_firmware bundle)) \<noteq> []
      then let expected = comp_identity (the (man_firmware bundle));
               running = ParseFirmwareCommit (product_string returned)
        in if \<not> CommitsMatch (case running of None \<Rightarrow> [] | Some c \<Rightarrow> c) expected
        then outcome\<lparr>identity_confirmed := False, problem := ''The update was written and checked, but the device reports firmware ''
               @ (case running of None \<Rightarrow> ''it could not name'' | Some c \<Rightarrow> c) @ '' rather than ''
               @ expected @ ''. Try the update again.''\<rparr>
        else outcome
      else outcome)"

definition confirm_gateware :: "UpdateBundle \<Rightarrow> DeviceIdentity \<Rightarrow> UpdateOutcome \<Rightarrow> UpdateOutcome" where
  "confirm_gateware bundle returned outcome =
     (if carried (man_gateware bundle) (bundle_gateware bundle) \<and> comp_identity (the (man_gateware bundle)) \<noteq> []
         \<and> \<not> CommitsMatch (gateware_commit returned) (comp_identity (the (man_gateware bundle)))
      then outcome\<lparr>identity_confirmed := False, problem := ''The update was written and checked, but the device reports gateware ''
             @ (if gateware_commit returned = [] then ''it could not name'' else gateware_commit returned)
             @ '' rather than '' @ comp_identity (the (man_gateware bundle)) @ ''. Try the update again.''\<rparr>
      else outcome)"

definition restart_and_confirm ::
    "'s device_updater \<Rightarrow> 's orchestrator_env \<Rightarrow> UpdateBundle \<Rightarrow> UpdateOutcome \<Rightarrow> 's \<Rightarrow> (UpdateOutcome \<times> 's) option" where
  "restart_and_confirm D E bundle outcome s =
     (let s = Report E kStageRestarting kTargetFirmware 0 0 (''The device will disconnect and reconnect by itself. This is normal.'') s;
          s = snd (ResetDevice D s)
      in case WaitForReturn D (tm_return_timeout (timings E)) s of
        None \<Rightarrow> None
      | Some (None, s) \<Rightarrow> Some (stopped_with (''The device did not reappear after restarting. Unplug it, plug it back in, and open this window again to see what it is running.'') outcome, s)
      | Some (Some returned, s) \<Rightarrow>
          let outcome = outcome\<lparr>out_identity := returned, identity_confirmed := True\<rparr>;
              s = Report E kStageConfirming kTargetFirmware 0 0 (''Checking what the device is now running.'') s;
              outcome = confirm_gateware bundle returned (confirm_firmware bundle returned outcome)
          in if \<not> identity_confirmed outcome then Some (outcome\<lparr>out_stage := kStageFailed\<rparr>, s)
             else Some (outcome\<lparr>succeeded := True, out_stage := kStageComplete\<rparr>,
                    Report E kStageComplete kTargetFirmware 0 0 (''Update complete.'') s))"

definition RunUpdate ::
    "'s device_updater \<Rightarrow> 's orchestrator_env \<Rightarrow> UpdateBundle \<Rightarrow> 's \<Rightarrow> (UpdateOutcome \<times> 's) option" where
  "RunUpdate D E bundle s =
     (let outcome = fresh_outcome_update;
          s = Report E kStageChecking kTargetFirmware 0 0 (''Checking the update.'') s
      in if \<not> carried (man_firmware bundle) (bundle_firmware bundle)
          \<and> \<not> carried (man_gateware bundle) (bundle_gateware bundle)
      then Some (stopped_with (''This update file contains nothing to install.'') outcome, s)
      else case install_if_carried D E kTargetFirmware (man_firmware bundle) (bundle_firmware bundle) outcome s of
        None \<Rightarrow> None
      | Some ((installed, outcome), s) \<Rightarrow>
      if \<not> installed then Some (outcome, s)
      else case install_if_carried D E kTargetGateware (man_gateware bundle) (bundle_gateware bundle) outcome s of
        None \<Rightarrow> None
      | Some ((installed, outcome), s) \<Rightarrow>
      if \<not> installed then Some (outcome, s)
      else case (if carried (man_gateware bundle) (bundle_gateware bundle) \<and> \<not> defer_restart E
                 then ReconfigureFpga D s else (True, s)) of (reloaded, s) \<Rightarrow>
      if \<not> reloaded
      then Some (stopped_with (''The device would not reload its gateware. Unplug it and plug it back in.'') outcome, s)
      else if defer_restart E
      then Some (finished_unconfirmed outcome,
             Report E kStageComplete kTargetFirmware 0 0 (''Written and checked. The device has not been restarted yet.'') s)
      else restart_and_confirm D E bundle outcome s)"

end
