(* ===== verification/UpdateJournal.thy ===== *)
theory UpdateJournal
  imports Orchestrator
begin

text \<open>
  What an update asks of a device, in which order: a device of any behaviour is watched through a
  journal of the requests made of it and of its answers. The contract of a journal is the locale
  \<open>recording\<close>; the lemmas say what the journal of an installation looks like when it ends well and when
  it does not, for every device, every timing and every moment at which the user stops it.
\<close>

datatype update_event =
    SawStatus "DeviceUpdateStatus option"
  | SentBegin UpdateTarget nat "byte list" bool
  | SentChunk UpdateTarget u16 "byte list" bool
  | SentFinish UpdateTarget bool
  | SentReset bool
  | SentReconfigure bool
  | SawReturn "DeviceIdentity option"

definition note_event ::
    "('r \<Rightarrow> update_event) \<Rightarrow> update_event list \<Rightarrow> 'r \<times> 's \<Rightarrow> 'r \<times> 's \<times> update_event list" where
  "note_event e js answer = (fst answer, snd answer, js @ [e (fst answer)])"

definition journalled :: "'s device_updater \<Rightarrow> ('s \<times> update_event list) device_updater" where
  "journalled D = \<lparr>
     ReadIdentity = (\<lambda>(s, js). case ReadIdentity D s of (r, s) \<Rightarrow> (r, s, js)),
     ReadStatus = (\<lambda>(s, js). note_event SawStatus js (ReadStatus D s)),
     BeginUpdate = (\<lambda>t n d (s, js). note_event (SentBegin t n d) js (BeginUpdate D t n d s)),
     SendChunk = (\<lambda>t i d (s, js). note_event (SentChunk t i d) js (SendChunk D t i d s)),
     FinishUpdate = (\<lambda>t (s, js). note_event (SentFinish t) js (FinishUpdate D t s)),
     ResetDevice = (\<lambda>(s, js). note_event SentReset js (ResetDevice D s)),
     ReconfigureFpga = (\<lambda>(s, js). note_event SentReconfigure js (ReconfigureFpga D s)),
     WaitForReturn = (\<lambda>n (s, js). map_option (note_event SawReturn js) (WaitForReturn D n s))\<rparr>"

definition beside :: "'s orchestrator_env \<Rightarrow> ('s \<times> 'j) orchestrator_env" where
  "beside E = \<lparr>
     update_cancelled = (\<lambda>(s, js). case update_cancelled E s of (b, s) \<Rightarrow> (b, s, js)),
     env_now = (\<lambda>(s, js). case env_now E s of (n, s) \<Rightarrow> (n, s, js)),
     env_sleep = (\<lambda>n (s, js). (env_sleep E n s, js)),
     progress_callback = (\<lambda>p (s, js). (progress_callback E p s, js)),
     timings = timings E, has_logger = has_logger E, defer_restart = defer_restart E\<rparr>"

subsection \<open>What a journal says\<close>

text \<open>A payload cut into chunks, and the requests that send them.\<close>

function cut :: "nat \<Rightarrow> 'a list \<Rightarrow> 'a list list" where
  "cut n xs = (if xs = [] \<or> n = 0 then [] else take n xs # cut n (drop n xs))"
  by pat_completeness auto
termination by (relation "measure (\<lambda>(n, xs). length xs)") auto

declare cut.simps [simp del]

lemma concat_cut: "0 < n \<Longrightarrow> concat (cut n xs) = xs"
  by (induction n xs rule: cut.induct) (simp add: cut.simps)

fun chunk_events :: "UpdateTarget \<Rightarrow> u16 \<Rightarrow> byte list list \<Rightarrow> update_event list" where
  "chunk_events t i [] = []"
| "chunk_events t i (c # cs) = SentChunk t i c True # chunk_events t (i + 1) cs"

text \<open>
  A component installed: the status that gives the chunk size, BEGIN with the length and the digest,
  the whole payload in order, FINISH, and statuses of which the last and no other is COMPLETE.
\<close>

definition unsettled :: "DeviceUpdateStatus \<Rightarrow> bool" where
  "unsettled st \<longleftrightarrow> us_phase st \<noteq> kPhaseComplete \<and> us_phase st \<noteq> kPhaseFailed"

definition installed :: "UpdateTarget \<Rightarrow> UpdateComponent \<Rightarrow> byte list \<Rightarrow> update_event list \<Rightarrow> bool" where
  "installed t component payload js \<longleftrightarrow> (\<exists>st polls last_poll.
     js = [SawStatus (Some st), SentBegin t (length payload) (comp_sha256 component) True]
        @ chunk_events t 0 (cut (AlignedChunk (unat (maximum_chunk_bytes st))) payload)
        @ SentFinish t True # map (\<lambda>p. SawStatus (Some p)) (polls @ [last_poll])
     \<and> maximum_chunk_bytes st \<noteq> 0 \<and> (\<forall>p\<in>set polls. unsettled p) \<and> us_phase last_poll = kPhaseComplete)"

text \<open>Requests of one target only: what an installation that fails leaves in the journal.\<close>

fun concerns :: "UpdateTarget \<Rightarrow> update_event \<Rightarrow> bool" where
  "concerns t (SawStatus st) \<longleftrightarrow> True"
| "concerns t (SentBegin u n d ok) \<longleftrightarrow> u = t"
| "concerns t (SentChunk u i d ok) \<longleftrightarrow> u = t"
| "concerns t (SentFinish u ok) \<longleftrightarrow> u = t"
| "concerns t (SentReset ok) \<longleftrightarrow> False"
| "concerns t (SentReconfigure ok) \<longleftrightarrow> False"
| "concerns t (SawReturn r) \<longleftrightarrow> False"

definition only_about :: "UpdateTarget \<Rightarrow> update_event list \<Rightarrow> bool" where
  "only_about t js \<longleftrightarrow> (\<forall>e\<in>set js. concerns t e)"

lemma only_about_simps [simp]:
  "only_about t []"
  "only_about t (e # js) \<longleftrightarrow> concerns t e \<and> only_about t js"
  "only_about t (js @ ks) \<longleftrightarrow> only_about t js \<and> only_about t ks"
  by (auto simp: only_about_def)

lemma only_about_chunks [simp]: "only_about t (chunk_events t i cs)"
  by (induction cs arbitrary: i) simp_all

text \<open>Components in order: all of them installed, or an installation that stopped in one of them.\<close>

type_synonym job = "UpdateTarget \<times> UpdateComponent \<times> byte list"

fun installed_all :: "job list \<Rightarrow> update_event list \<Rightarrow> bool" where
  "installed_all [] js \<longleftrightarrow> js = []"
| "installed_all ((t, c, p) # jobs) js \<longleftrightarrow> (\<exists>a b. js = a @ b \<and> installed t c p a \<and> installed_all jobs b)"

fun stopped_in :: "job list \<Rightarrow> update_event list \<Rightarrow> bool" where
  "stopped_in [] js \<longleftrightarrow> False"
| "stopped_in ((t, c, p) # jobs) js \<longleftrightarrow>
     only_about t js \<or> (\<exists>a b. js = a @ b \<and> installed t c p a \<and> stopped_in jobs b)"

definition bring_up_jobs :: "UpdateBundle \<Rightarrow> job list" where
  "bring_up_jobs bundle =
     [(kTargetFirmware, the (man_firmware bundle), bundle_firmware bundle),
      (kTargetEpcsFactory, the (man_factory_gateware bundle), bundle_factory_gateware bundle),
      (kTargetGateware, the (man_gateware bundle), bundle_gateware bundle)]"

definition update_jobs :: "UpdateBundle \<Rightarrow> job list" where
  "update_jobs bundle =
     (if carried (man_firmware bundle) (bundle_firmware bundle)
      then [(kTargetFirmware, the (man_firmware bundle), bundle_firmware bundle)] else [])
     @ (if carried (man_gateware bundle) (bundle_gateware bundle)
        then [(kTargetGateware, the (man_gateware bundle), bundle_gateware bundle)] else [])"

definition brings_up :: "UpdateBundle \<Rightarrow> bool" where
  "brings_up bundle \<longleftrightarrow> carried (man_firmware bundle) (bundle_firmware bundle)
     \<and> carried (man_factory_gateware bundle) (bundle_factory_gateware bundle)
     \<and> carried (man_gateware bundle) (bundle_gateware bundle)"

text \<open>The device that came back says it runs what the bundle names.\<close>

definition runs_bundle :: "UpdateBundle \<Rightarrow> DeviceIdentity \<Rightarrow> bool" where
  "runs_bundle bundle came \<longleftrightarrow>
     (\<forall>c. carried (man_firmware bundle) (bundle_firmware bundle) \<and> man_firmware bundle = Some c
        \<and> comp_identity c \<noteq> [] \<longrightarrow>
        (\<exists>running. ParseFirmwareCommit (product_string came) = Some running \<and> CommitsMatch running (comp_identity c)))
     \<and> (\<forall>c. carried (man_gateware bundle) (bundle_gateware bundle) \<and> man_gateware bundle = Some c
        \<and> comp_identity c \<noteq> [] \<longrightarrow> CommitsMatch (gateware_commit came) (comp_identity c))"

definition update_settled :: "bool \<Rightarrow> UpdateBundle \<Rightarrow> UpdateOutcome \<Rightarrow> update_event list \<Rightarrow> bool" where
  "update_settled deferred bundle outcome js \<longleftrightarrow>
     (if succeeded outcome
      then update_jobs bundle \<noteq> [] \<and> (\<exists>a b. js = a @ b \<and> installed_all (update_jobs bundle) a
        \<and> (if deferred then b = [] \<and> \<not> identity_confirmed outcome
           else \<exists>r came. b = (if carried (man_gateware bundle) (bundle_gateware bundle) then [SentReconfigure True] else [])
                  @ [SentReset r, SawReturn (Some came)]
                \<and> out_identity outcome = came \<and> identity_confirmed outcome \<and> runs_bundle bundle came))
      else if update_jobs bundle = [] then js = []
      else stopped_in (update_jobs bundle) js
        \<or> \<not> deferred \<and> (\<exists>a b. js = a @ b \<and> installed_all (update_jobs bundle) a))"

lemma not_matches_empty [simp]: "\<not> CommitsMatch [] c"
  by (simp add: CommitsMatch_def NormaliseCommit_def split: option.splits)

lemma confirmed_runs:
  assumes "identity_confirmed (confirm_gateware bundle came (confirm_firmware bundle came outcome))"
  shows "runs_bundle bundle came"
  using assms
  by (auto simp: confirm_gateware_def confirm_firmware_def runs_bundle_def Let_def
      split: if_splits option.splits)

lemma confirm_fields [simp]:
  "out_identity (confirm_gateware bundle came outcome) = out_identity outcome"
  "out_identity (confirm_firmware bundle came outcome) = out_identity outcome"
  "succeeded (confirm_gateware bundle came outcome) = succeeded outcome"
  "succeeded (confirm_firmware bundle came outcome) = succeeded outcome"
  by (simp_all add: confirm_gateware_def confirm_firmware_def Let_def)

lemma stopped_with_fields [simp]: "succeeded (stopped_with m outcome) = succeeded outcome"
  by (simp add: stopped_with_def)

subsection \<open>The contract of a journal\<close>

locale recording =
  fixes D :: "'s device_updater" and E :: "'s orchestrator_env" and seen :: "'s \<Rightarrow> update_event list"
  assumes status: "ReadStatus D s = (r, s') \<Longrightarrow> seen s' = seen s @ [SawStatus r]"
    and began: "BeginUpdate D t n d s = (ok, s') \<Longrightarrow> seen s' = seen s @ [SentBegin t n d ok]"
    and chunk: "SendChunk D t i d s = (ok, s') \<Longrightarrow> seen s' = seen s @ [SentChunk t i d ok]"
    and finished: "FinishUpdate D t s = (ok, s') \<Longrightarrow> seen s' = seen s @ [SentFinish t ok]"
    and reset: "ResetDevice D s = (ok, s') \<Longrightarrow> seen s' = seen s @ [SentReset ok]"
    and reconfigured: "ReconfigureFpga D s = (ok, s') \<Longrightarrow> seen s' = seen s @ [SentReconfigure ok]"
    and returned: "WaitForReturn D n s = Some (came, s') \<Longrightarrow> seen s' = seen s @ [SawReturn came]"
    and asked: "update_cancelled E s = (b, s') \<Longrightarrow> seen s' = seen s"
    and timed: "env_now E s = (m, s') \<Longrightarrow> seen s' = seen s"
    and slept: "seen (env_sleep E n s) = seen s"
    and told: "seen (progress_callback E p s) = seen s"
begin

lemma reported [simp]: "seen (Report E stage t n m msg s) = seen s"
  by (simp add: Report_def told)

lemma refusal_seen: "DeviceRefusal D n fallback s = (sentence, s') \<Longrightarrow> \<exists>r. seen s' = seen s @ [SawStatus r]"
  unfolding DeviceRefusal_def by (auto split: prod.splits option.splits dest!: status)

definition settled_as :: "UpdateTarget \<Rightarrow> UpdateOutcome \<Rightarrow> 's \<Rightarrow> (bool \<times> UpdateOutcome) \<times> 's \<Rightarrow> bool" where
  "settled_as t outcome s result \<longleftrightarrow> (case result of ((ok, out'), s') \<Rightarrow>
     (if ok then out' = outcome \<and> (\<exists>polls last_poll. seen s' = seen s @ map (\<lambda>p. SawStatus (Some p)) (polls @ [last_poll])
             \<and> (\<forall>p\<in>set polls. unsettled p) \<and> us_phase last_poll = kPhaseComplete)
      else succeeded out' = succeeded outcome \<and> (\<exists>js. seen s' = seen s @ js \<and> only_about t js)))"

lemma settled_later:
  assumes "settled_as t outcome s2 result" and "seen s2 = seen s @ [SawStatus (Some p)]" and "unsettled p"
  shows "settled_as t outcome s result"
proof -
  obtain ok out' s' where r: "result = ((ok, out'), s')" by (metis prod.collapse)
  show ?thesis
  proof (cases ok)
    case True
    then obtain polls last_poll where
      "out' = outcome" "seen s' = seen s2 @ map (\<lambda>p. SawStatus (Some p)) (polls @ [last_poll])"
      "\<forall>p\<in>set polls. unsettled p" "us_phase last_poll = kPhaseComplete"
      using assms(1) unfolding settled_as_def r by auto
    then show ?thesis unfolding settled_as_def r using True assms(2,3)
      by (auto intro!: exI [of _ "p # polls"] exI [of _ last_poll])
  next
    case False
    then show ?thesis using assms(1,2) unfolding settled_as_def r by auto
  qed
qed

lemma await_loop_seen:
  assumes "await_loop D E t n outcome lw lv lm s = Some result"
  shows "settled_as t outcome s result"
proof -
  note induct = await_loop.raw_induct [where P = "\<lambda>D' E' t n outcome lw lv lm s result.
    D' = D \<and> E' = E \<longrightarrow> settled_as t outcome s result"]
  have "D = D \<and> E = E \<longrightarrow> settled_as t outcome s result"
  proof (rule induct [OF _ assms], rule impI, goal_cases)
  case (1 loop D' E' t n outcome lw lv lm s result)
  have eqs: "D' = D" "E' = E" using 1(3) by simp_all
  obtain stop s1 where a: "update_cancelled E s = (stop, s1)" by fastforce
  obtain r s2 where b: "ReadStatus D s1 = (r, s2)" by fastforce
  obtain now s3 where c: "env_now E s2 = (now, s3)" by fastforce
  note keep = asked [OF a] status [OF b] timed [OF c]
  show ?case
  proof (cases "stop \<or> r = None")
    case True
    then show ?thesis using 1(2) keep
      by (cases stop; cases r) (auto simp: eqs a b settled_as_def)
  next
    case False
    then obtain st where st: "r = Some st" by auto
    show ?thesis
    proof (cases "unsettled st")
      case False
      then show ?thesis using 1(2) keep \<open>\<not> (stop \<or> r = None)\<close>
        by (auto simp: eqs a b st settled_as_def unsettled_def split: if_splits)
    next
      case unset: True
      then have ph: "us_phase st \<noteq> kPhaseFailed" "us_phase st \<noteq> kPhaseComplete" by (auto simp: unsettled_def)
      let ?stalled = "\<not> (bytes_written st \<noteq> lw \<or> bytes_verified st \<noteq> lv) \<and> tm_stall_timeout (timings E) < now - lm"
      show ?thesis
      proof (cases ?stalled)
        case True
        then show ?thesis using 1(2) keep \<open>\<not> (stop \<or> r = None)\<close> ph
          by (simp add: eqs a b c st settled_as_def Let_def) auto
      next
        case False
        let ?s4 = "if us_phase st = kPhaseVerifying
              then Report E kStageVerifying t (unat (bytes_verified st)) n
                     (''The device is reading back what it wrote and checking it.'') s3
              else Report E kStageWriting t (unat (bytes_written st)) n
                     (''The device is writing the update to its own memory.'') s3"
        let ?moved = "bytes_written st \<noteq> lw \<or> bytes_verified st \<noteq> lv"
        have "loop D E t n outcome (if ?moved then bytes_written st else lw) (if ?moved then bytes_verified st else lv)
            (if ?moved then now else lm) (env_sleep E (tm_poll_interval (timings E)) ?s4) = Some result"
          using 1(2) \<open>\<not> (stop \<or> r = None)\<close> ph False
          by (auto simp: eqs a b c st Let_def split: if_splits)
        then have "settled_as t outcome (env_sleep E (tm_poll_interval (timings E)) ?s4) result"
          using 1(1) by (simp only: eqs)
        moreover have "seen (env_sleep E (tm_poll_interval (timings E)) ?s4) = seen s @ [SawStatus (Some st)]"
          using keep by (simp add: slept st)
        ultimately show ?thesis using unset by (rule settled_later)
      qed
    qed
  qed
  qed
  then show ?thesis by simp
qed

lemma await_seen:
  assumes "AwaitCompletion D E t n outcome s = Some result"
  shows "settled_as t outcome s result"
proof -
  obtain now s1 where c: "env_now E s = (now, s1)" by fastforce
  then have "settled_as t outcome s1 result"
    using assms by (auto simp: AwaitCompletion_def intro: await_loop_seen)
  moreover have "seen s1 = seen s" by (rule timed [OF c])
  ultimately show ?thesis unfolding settled_as_def by (simp only:)
qed

lemma send_loop_seen:
  assumes "send_loop D E t m payload outcome sent i s = ((ok, out'), s')"
  shows "if ok then out' = outcome \<and> seen s' = seen s @ chunk_events t i (cut (AlignedChunk m) (drop sent payload))
         else succeeded out' = succeeded outcome \<and> (\<exists>js. seen s' = seen s @ js \<and> only_about t js)"
  using assms
proof (induction "length payload - sent" arbitrary: sent i s rule: less_induct)
  case less
  show ?case
  proof (cases "sent < length payload")
    case False
    then show ?thesis using less.prems by (simp add: send_loop.simps [of D E t m payload outcome sent i s] cut.simps)
  next
    case True
    let ?span = "min (AlignedChunk m) (length payload - sent)"
    let ?c = "take ?span (drop sent payload)"
    obtain stop s1 where a: "update_cancelled E s = (stop, s1)" by fastforce
    obtain accepted s2 where b: "SendChunk D t i ?c s1 = (accepted, s2)" by fastforce
    obtain sentence s3 where d: "DeviceRefusal D (length payload)
        (''The device stopped accepting the update. Leave it plugged in, then try again.'') s2 = (sentence, s3)" by fastforce
    obtain r where keep: "seen s1 = seen s" "seen s2 = seen s @ [SentChunk t i ?c accepted]"
        "seen s3 = seen s @ [SentChunk t i ?c accepted, SawStatus r]"
      using asked [OF a] chunk [OF b] refusal_seen [OF d] by auto
    note step = less.prems [unfolded send_loop.simps [of D E t m payload outcome sent i s], simplified True if_True a prod.case]
    show ?thesis
    proof (cases "stop \<or> \<not> accepted")
      case True
      then show ?thesis using step keep by (cases stop) (auto simp: Let_def b d)
    next
      case False
      let ?s4 = "Report E kStageTransferring t (sent + ?span) (length payload) (sending_message t) s2"
      have "send_loop D E t m payload outcome (sent + ?span) (i + 1) ?s4 = ((ok, out'), s')"
        using step False by (simp add: Let_def b)
      then have ih: "if ok then out' = outcome \<and> seen s' = seen ?s4
            @ chunk_events t (i + 1) (cut (AlignedChunk m) (drop (sent + ?span) payload))
          else succeeded out' = succeeded outcome \<and> (\<exists>js. seen s' = seen ?s4 @ js \<and> only_about t js)"
        using True AlignedChunk_pos [of m] by (intro less.hyps) (auto simp: min_def intro: diff_less_mono2)
      have "take (AlignedChunk m) (drop sent payload) = ?c"
        by (auto simp: min_def)
      moreover have "drop (AlignedChunk m) (drop sent payload) = drop (sent + ?span) payload"
        by (auto simp: min_def add.commute)
      ultimately have "cut (AlignedChunk m) (drop sent payload)
          = ?c # cut (AlignedChunk m) (drop (sent + ?span) payload)"
        using True by (subst cut.simps) simp
      then show ?thesis using ih keep False by (auto simp: split: if_splits)
    qed
  qed
qed

lemma write_seen:
  assumes "WriteComponent D E t component payload outcome s = Some ((ok, out'), s')"
  shows "if ok then out' = outcome \<and> (\<exists>js. seen s' = seen s @ js \<and> installed t component payload js)
         else succeeded out' = succeeded outcome \<and> (\<exists>js. seen s' = seen s @ js \<and> only_about t js)"
proof -
  obtain r s1 where a: "ReadStatus D s = (r, s1)" by fastforce
  note keep1 = status [OF a]
  show ?thesis
  proof (cases "r = None \<or> maximum_chunk_bytes (the r) = 0")
    case True
    then show ?thesis using assms keep1 by (cases r) (auto simp: WriteComponent_def a)
  next
    case False
    then obtain st where st: "r = Some st" "maximum_chunk_bytes st \<noteq> 0" by auto
    let ?m = "unat (maximum_chunk_bytes st)"
    let ?s1 = "Report E kStageTransferring t 0 (length payload) (sending_message t) s1"
    obtain ok2 s2 where b: "BeginUpdate D t (length payload) (comp_sha256 component) ?s1 = (ok2, s2)" by fastforce
    obtain ok3 out3 s3 where c: "send_loop D E t ?m payload outcome 0 0 s2 = ((ok3, out3), s3)"
      by (metis prod.collapse)
    obtain ok4 s4 where d: "FinishUpdate D t s3 = (ok4, s4)" by fastforce
    note keep2 = began [OF b, simplified, unfolded keep1]
    note keep3 = send_loop_seen [OF c, simplified]
    note keep4 = finished [OF d]
    note step = assms [unfolded WriteComponent_def a prod.case st(1) option.case, simplified st(2) Let_def b if_False prod.case]
    show ?thesis
    proof (cases "ok2 \<and> ok3 \<and> ok4")
      case False
      then consider "\<not> ok2" | "ok2" "\<not> ok3" | "ok2" "ok3" "\<not> ok4" by blast
      then show ?thesis
      proof cases
        case 1
        then show ?thesis using step keep2
          by (auto split: prod.splits dest!: refusal_seen)
      next
        case 2
        then show ?thesis using step keep2 keep3 c by auto
      next
        case 3
        then show ?thesis using step keep2 keep3 keep4 c d
          by (auto split: prod.splits dest!: refusal_seen)
      qed
    next
      case True
      then have "AwaitCompletion D E t (length payload) out3 s4 = Some ((ok, out'), s')"
        using step c d by simp
      note await = await_seen [OF this, unfolded settled_as_def prod.case]
      have sent: "out3 = outcome" "seen s4 = seen s
          @ [SawStatus (Some st), SentBegin t (length payload) (comp_sha256 component) True]
          @ chunk_events t 0 (cut (AlignedChunk ?m) payload) @ [SentFinish t True]"
        using True keep2 keep3 keep4 st(1) by auto
      show ?thesis
      proof (cases ok)
        case ok: True
        then obtain polls last_poll where "out' = out3"
          and s': "seen s' = seen s4 @ map (\<lambda>p. SawStatus (Some p)) (polls @ [last_poll])"
          and "\<forall>p\<in>set polls. unsettled p" "us_phase last_poll = kPhaseComplete"
          using await by auto
        then have "installed t component payload ([SawStatus (Some st),
            SentBegin t (length payload) (comp_sha256 component) True]
          @ chunk_events t 0 (cut (AlignedChunk ?m) payload)
          @ SentFinish t True # map (\<lambda>p. SawStatus (Some p)) (polls @ [last_poll]))"
          unfolding installed_def using st(2) by blast
        then show ?thesis using ok \<open>out' = out3\<close> sent s' by auto
      next
        case False
        then show ?thesis using await sent by auto
      qed
    qed
  qed
qed

lemma install_seen:
  assumes "InstallComponent D E t component payload outcome s = Some ((ok, out'), s')"
  shows "if ok then out' = outcome \<and> (\<exists>js. seen s' = seen s @ js \<and> installed t component payload js)
         else succeeded out' = succeeded outcome \<and> (\<exists>js. seen s' = seen s @ js \<and> only_about t js)"
proof -
  obtain s1 where w: "WriteComponent D E t component payload outcome s = Some ((ok, out'), s1)"
    and s': "s' = (if \<not> ok \<and> has_logger E then snd (ReadStatus D s1) else s1)"
    using assms by (auto simp: InstallComponent_def split: option.splits prod.splits)
  obtain r s2 where r: "ReadStatus D s1 = (r, s2)" by fastforce
  show ?thesis using write_seen [OF w] status [OF r] by (auto simp: s' r split: if_splits)
qed

lemma bring_up_seen:
  assumes "RunBringUpWrites D E bundle s = Some (outcome, s')"
  shows "\<exists>js. seen s' = seen s @ js
    \<and> (if succeeded outcome then brings_up bundle \<and> installed_all (bring_up_jobs bundle) js
       else if brings_up bundle then stopped_in (bring_up_jobs bundle) js else js = [])"
proof (cases "brings_up bundle")
  case False
  then show ?thesis using assms
    by (auto simp: RunBringUpWrites_def brings_up_def fresh_outcome_update_def)
next
  case True
  let ?s = "Report E kStageChecking kTargetFirmware 0 0 (''Checking what is about to be written.'') s"
  note run = assms [unfolded RunBringUpWrites_def Let_def]
  obtain ok1 out1 s1 where a: "InstallComponent D E kTargetFirmware (the (man_firmware bundle)) (bundle_firmware bundle)
      fresh_outcome_update ?s = Some ((ok1, out1), s1)"
    using run True by (auto simp: brings_up_def split: option.splits)
  note seen1 = install_seen [OF a]
  show ?thesis
  proof (cases ok1)
    case False
    then show ?thesis using run True a seen1
      by (auto simp: brings_up_def bring_up_jobs_def fresh_outcome_update_def)
  next
    case ok1: True
    obtain ok2 out2 s2 where b: "InstallComponent D E kTargetEpcsFactory (the (man_factory_gateware bundle))
        (bundle_factory_gateware bundle) out1 s1 = Some ((ok2, out2), s2)"
      using run True a ok1 by (auto simp: brings_up_def split: option.splits)
    note seen2 = install_seen [OF b]
    show ?thesis
    proof (cases ok2)
      case False
      then show ?thesis using run True a b ok1 seen1 seen2
        by (auto simp: brings_up_def bring_up_jobs_def fresh_outcome_update_def)
    next
      case ok2: True
      obtain ok3 out3 s3 where c: "InstallComponent D E kTargetGateware (the (man_gateware bundle))
          (bundle_gateware bundle) out2 s2 = Some ((ok3, out3), s3)"
        using run True a b ok1 ok2 by (auto simp: brings_up_def split: option.splits)
      note seen3 = install_seen [OF c]
      obtain js1 js2 where js: "seen s2 = seen s @ js1 @ js2"
        "installed kTargetFirmware (the (man_firmware bundle)) (bundle_firmware bundle) js1"
        "installed kTargetEpcsFactory (the (man_factory_gateware bundle)) (bundle_factory_gateware bundle) js2"
        "out2 = fresh_outcome_update"
        using seen1 seen2 ok1 ok2 by auto
      show ?thesis
      proof (cases ok3)
        case False
        then have "outcome = out3" "s' = s3"
          using run True a b c ok1 ok2 by (auto simp: brings_up_def)
        then show ?thesis using seen3 js False True
          by (auto simp: bring_up_jobs_def fresh_outcome_update_def)
      next
        case ok3: True
        then obtain js3 where js3: "seen s3 = seen s @ js1 @ js2 @ js3"
          "installed kTargetGateware (the (man_gateware bundle)) (bundle_gateware bundle) js3"
          using seen3 js by auto
        have "succeeded outcome" "seen s' = seen s3"
          using run True a b c ok1 ok2 ok3 by (auto simp: brings_up_def finished_unconfirmed_def)
        then show ?thesis using js js3 True by (auto simp: bring_up_jobs_def)
      qed
    qed
  qed
qed

lemma restart_seen:
  assumes "restart_and_confirm D E bundle outcome s = Some (out', s')"
  shows "\<exists>r came. seen s' = seen s @ [SentReset r, SawReturn came]
    \<and> (succeeded out' \<longrightarrow> succeeded outcome \<or> (\<exists>ident. came = Some ident \<and> out_identity out' = ident
          \<and> identity_confirmed out' \<and> runs_bundle bundle ident))"
proof -
  let ?s = "Report E kStageRestarting kTargetFirmware 0 0 (''The device will disconnect and reconnect by itself. This is normal.'') s"
  obtain r s1 where a: "ResetDevice D ?s = (r, s1)" by fastforce
  obtain came s2 where b: "WaitForReturn D (tm_return_timeout (timings E)) s1 = Some (came, s2)"
    using assms a by (auto simp: restart_and_confirm_def Let_def split: option.splits)
  have "seen s2 = seen s @ [SentReset r, SawReturn came]"
    using reset [OF a] returned [OF b] by simp
  then show ?thesis using assms a b
    by (cases came) (auto simp: restart_and_confirm_def Let_def dest: confirmed_runs split: if_splits)
qed

lemma finish_seen:
  assumes "(case (if gw \<and> \<not> defer_restart E then ReconfigureFpga D s else (True, s)) of (reloaded, s) \<Rightarrow>
      if \<not> reloaded then Some (stopped_with m outcome, s)
      else if defer_restart E then Some (finished_unconfirmed outcome, Report E st t n k msg s)
      else restart_and_confirm D E bundle outcome s) = Some (out', s')"
    and "gw \<longleftrightarrow> carried (man_gateware bundle) (bundle_gateware bundle)"
    and "seen s = seen s0 @ js" and "installed_all (update_jobs bundle) js" and "update_jobs bundle \<noteq> []"
    and "\<not> succeeded outcome"
  shows "\<exists>js. seen s' = seen s0 @ js \<and> update_settled (defer_restart E) bundle out' js"
proof (cases "defer_restart E")
  case True
  then have "seen s' = seen s0 @ js" "succeeded out'" "\<not> identity_confirmed out'"
    using assms(1,3) by (auto simp: finished_unconfirmed_def)
  then show ?thesis using assms(4,5) True by (auto simp: update_settled_def)
next
  case False
  obtain reloaded s1 where a: "(if gw then ReconfigureFpga D s else (True, s)) = (reloaded, s1)" by fastforce
  have s1: "seen s1 = seen s0 @ js @ (if gw then [SentReconfigure reloaded] else [])"
    using a assms(3) by (auto split: if_splits dest: reconfigured)
  show ?thesis
  proof (cases reloaded)
    case False
    then have "\<not> succeeded out'" "seen s' = seen s1"
      using assms(1,6) a \<open>\<not> defer_restart E\<close> by auto
    then show ?thesis using s1 assms(4,5) \<open>\<not> defer_restart E\<close> by (auto simp: update_settled_def)
  next
    case True
    then have "restart_and_confirm D E bundle outcome s1 = Some (out', s')"
      using assms(1) a \<open>\<not> defer_restart E\<close> by simp
    from restart_seen [OF this] obtain r came
      where s': "seen s' = seen s0 @ js @ (if gw then [SentReconfigure True] else []) @ [SentReset r, SawReturn came]"
        and ok: "succeeded out' \<Longrightarrow> \<exists>ident. came = Some ident \<and> out_identity out' = ident
          \<and> identity_confirmed out' \<and> runs_bundle bundle ident"
      using s1 True assms(6) by auto
    show ?thesis
      by (rule exI, rule conjI, rule s')
        (use ok assms(2,4,5) False in \<open>auto simp: update_settled_def\<close>)
  qed
qed

lemma run_update_seen:
  assumes "RunUpdate D E bundle s = Some (outcome, s')"
  shows "\<exists>js. seen s' = seen s @ js \<and> update_settled (defer_restart E) bundle outcome js"
proof -
  let ?fw = "carried (man_firmware bundle) (bundle_firmware bundle)"
  let ?gw = "carried (man_gateware bundle) (bundle_gateware bundle)"
  let ?s = "Report E kStageChecking kTargetFirmware 0 0 (''Checking the update.'') s"
  note run = assms [unfolded RunUpdate_def Let_def]
  show ?thesis
  proof (cases "?fw \<or> ?gw")
    case False
    then show ?thesis using run
      by (auto simp: update_settled_def update_jobs_def fresh_outcome_update_def)
  next
    case some: True
    then have jobs: "update_jobs bundle \<noteq> []" by (auto simp: update_jobs_def)
    have cond: "(\<not> ?fw \<and> \<not> ?gw) = False" using some by simp
    obtain ok1 out1 s1 where a: "install_if_carried D E kTargetFirmware (man_firmware bundle) (bundle_firmware bundle)
        fresh_outcome_update ?s = Some ((ok1, out1), s1)"
      using run some by (auto split: option.splits if_splits)
    have seen1: "if ok1 then out1 = fresh_outcome_update \<and> (\<exists>js. seen s1 = seen s @ js
          \<and> (if ?fw then installed kTargetFirmware (the (man_firmware bundle)) (bundle_firmware bundle) js else js = []))
        else \<not> succeeded out1 \<and> ?fw \<and> (\<exists>js. seen s1 = seen s @ js \<and> only_about kTargetFirmware js)"
    proof (cases ?fw)
      case True
      then show ?thesis using a install_seen [of kTargetFirmware _ _ fresh_outcome_update ?s ok1 out1 s1]
        by (auto simp: install_if_carried_def fresh_outcome_update_def split: if_splits)
    next
      case False
      then show ?thesis using a by (auto simp: install_if_carried_def)
    qed
    show ?thesis
    proof (cases ok1)
      case False
      then have "outcome = out1" "s' = s1" using run some a by (auto split: if_splits)
      then show ?thesis using seen1 False jobs by (auto simp: update_settled_def update_jobs_def)
    next
      case ok1: True
      then obtain js1 where js1: "seen s1 = seen s @ js1" "out1 = fresh_outcome_update"
        "if ?fw then installed kTargetFirmware (the (man_firmware bundle)) (bundle_firmware bundle) js1 else js1 = []"
        using seen1 by auto
      obtain ok2 out2 s2 where b: "install_if_carried D E kTargetGateware (man_gateware bundle) (bundle_gateware bundle)
          out1 s1 = Some ((ok2, out2), s2)"
        using run some a ok1 by (auto split: option.splits if_splits)
      show ?thesis
      proof (cases ok2)
        case False
        then have out: "outcome = out2" "s' = s2" using run some a b ok1 by (auto split: if_splits)
        have gw: ?gw using b False by (auto simp: install_if_carried_def split: if_splits)
        then obtain js2 where "seen s2 = seen s1 @ js2" "only_about kTargetGateware js2" "\<not> succeeded out2"
          using b False install_seen [of kTargetGateware _ _ out1 s1 ok2 out2 s2]
          by (auto simp: install_if_carried_def js1(2) fresh_outcome_update_def)
        then show ?thesis using js1 out gw jobs
          by (auto simp: update_settled_def update_jobs_def split: if_splits)
      next
        case ok2: True
        obtain js2 where js2: "seen s2 = seen s1 @ js2" "out2 = out1"
          "if ?gw then installed kTargetGateware (the (man_gateware bundle)) (bundle_gateware bundle) js2 else js2 = []"
        proof (cases ?gw)
          case True
          then have "InstallComponent D E kTargetGateware (the (man_gateware bundle)) (bundle_gateware bundle)
              out1 s1 = Some ((ok2, out2), s2)"
            using b by (simp add: install_if_carried_def)
          from install_seen [OF this] show ?thesis using that ok2 True by auto
        next
          case False
          then show ?thesis using that b by (auto simp: install_if_carried_def)
        qed
        have all: "installed_all (update_jobs bundle) (js1 @ js2)"
          using js1(3) js2(3) some by (auto simp: update_jobs_def split: if_splits)
        show ?thesis
        proof (rule finish_seen [OF _ refl _ all jobs])
          show "(case (if ?gw \<and> \<not> defer_restart E then ReconfigureFpga D s2 else (True, s2)) of (reloaded, s) \<Rightarrow>
              if \<not> reloaded then Some (stopped_with (''The device would not reload its gateware. Unplug it and plug it back in.'') out2, s)
              else if defer_restart E then Some (finished_unconfirmed out2, Report E kStageComplete kTargetFirmware 0 0
                (''Written and checked. The device has not been restarted yet.'') s)
              else restart_and_confirm D E bundle out2 s) = Some (outcome, s')"
            using run a b ok1 ok2 by (simp add: cond)
        qed (simp_all add: js1 js2 fresh_outcome_update_def)
      qed
    qed
  qed
qed

end

interpretation journal: recording "journalled D" "beside E" snd
  by unfold_locales (auto simp: journalled_def beside_def note_event_def split: prod.splits)

subsection \<open>Watching changes nothing\<close>

text \<open>
  A flow on the device itself and the same flow on the device with a journal end alike: what the
  journal says is what was asked of the device.
\<close>

lemma watched:
  "fst (ReadStatus (journalled D) x) = fst (ReadStatus D (fst x))"
  "fst (snd (ReadStatus (journalled D) x)) = snd (ReadStatus D (fst x))"
  "fst (BeginUpdate (journalled D) t n d x) = fst (BeginUpdate D t n d (fst x))"
  "fst (snd (BeginUpdate (journalled D) t n d x)) = snd (BeginUpdate D t n d (fst x))"
  "fst (SendChunk (journalled D) t i d x) = fst (SendChunk D t i d (fst x))"
  "fst (snd (SendChunk (journalled D) t i d x)) = snd (SendChunk D t i d (fst x))"
  "fst (FinishUpdate (journalled D) t x) = fst (FinishUpdate D t (fst x))"
  "fst (snd (FinishUpdate (journalled D) t x)) = snd (FinishUpdate D t (fst x))"
  "fst (snd (ResetDevice (journalled D) x)) = snd (ResetDevice D (fst x))"
  "fst (ReconfigureFpga (journalled D) x) = fst (ReconfigureFpga D (fst x))"
  "fst (snd (ReconfigureFpga (journalled D) x)) = snd (ReconfigureFpga D (fst x))"
  "fst (update_cancelled (beside E) x) = fst (update_cancelled E (fst x))"
  "fst (snd (update_cancelled (beside E) x)) = snd (update_cancelled E (fst x))"
  "fst (env_now (beside E) x) = fst (env_now E (fst x))"
  "fst (snd (env_now (beside E) x)) = snd (env_now E (fst x))"
  "fst (env_sleep (beside E) n x) = env_sleep E n (fst x)"
  "fst (Report (beside E) st t n m msg x) = Report E st t n m msg (fst x)"
  "timings (beside E) = timings E" "has_logger (beside E) = has_logger E" "defer_restart (beside E) = defer_restart E"
  by (simp_all add: journalled_def beside_def Report_def note_event_def case_prod_beta)

lemma watch_refusal:
  "fst (DeviceRefusal (journalled D) n m x) = fst (DeviceRefusal D n m (fst x))"
  "fst (snd (DeviceRefusal (journalled D) n m x)) = snd (DeviceRefusal D n m (fst x))"
  by (simp_all add: DeviceRefusal_def watched case_prod_beta split: option.splits)

lemma watch_send:
  "fst (send_loop (journalled D) (beside E) t m payload outcome sent i x) = fst (send_loop D E t m payload outcome sent i (fst x))
   \<and> fst (snd (send_loop (journalled D) (beside E) t m payload outcome sent i x)) = snd (send_loop D E t m payload outcome sent i (fst x))"
proof (induction "length payload - sent" arbitrary: sent i x rule: less_induct)
  case less
  let ?span = "min (AlignedChunk m) (length payload - sent)"
  note unfolds = send_loop.simps [of D E t m payload outcome sent i "fst x"]
    send_loop.simps [of "journalled D" "beside E" t m payload outcome sent i x]
  show ?case
  proof (cases "sent < length payload")
    case True
    then have "length payload - (sent + ?span) < length payload - sent"
      using AlignedChunk_pos [of m] by (auto simp: min_def intro: diff_less_mono2)
    note ih = less [OF this]
    show ?thesis using True by (simp add: unfolds watched watch_refusal ih Let_def case_prod_beta)
  next
    case False
    then show ?thesis by (simp add: unfolds watched)
  qed
qed

text \<open>The flows that may wait for ever: when one ends, the watched one ends as it does.\<close>

definition follows :: "('r \<times> 's) option \<Rightarrow> ('r \<times> 's \<times> 'j) option \<Rightarrow> bool" where
  "follows plain watched_run \<longleftrightarrow> (\<forall>r s. plain = Some (r, s) \<longrightarrow> (\<exists>js. watched_run = Some (r, s, js)))"

lemma follows_Some [simp]: "follows (Some (r, s)) (Some (r', x)) \<longleftrightarrow> r' = r \<and> fst x = s"
  by (cases x) (auto simp: follows_def)

lemma follows_None [simp]: "follows None y"
  by (simp add: follows_def)

lemma watch_await_loop:
  assumes "await_loop D E t n outcome lw lv lm s = Some result" and "fst x = s"
  shows "follows (Some result) (await_loop (journalled D) (beside E) t n outcome lw lv lm x)"
proof -
  note induct = await_loop.raw_induct [where P = "\<lambda>D' E' t n outcome lw lv lm s result. D' = D \<and> E' = E \<longrightarrow>
    (\<forall>x. fst x = s \<longrightarrow> follows (Some result) (await_loop (journalled D) (beside E) t n outcome lw lv lm x))"]
  have "D = D \<and> E = E \<longrightarrow>
    (\<forall>x. fst x = s \<longrightarrow> follows (Some result) (await_loop (journalled D) (beside E) t n outcome lw lv lm x))"
  proof (rule induct [OF _ assms(1)], intro impI allI, goal_cases)
    case (1 loop D' E' t n outcome lw lv lm s result x)
    have eqs: "D' = D" "E' = E" using 1(3) by simp_all
    note body = 1(2) [unfolded eqs]
    note unfold = await_loop.simps [of "journalled D" "beside E" t n outcome lw lv lm x]
    let ?s1 = "snd (update_cancelled E s)" and ?x1 = "snd (update_cancelled (beside E) x)"
    let ?s2 = "snd (ReadStatus D ?s1)" and ?x2 = "snd (ReadStatus (journalled D) ?x1)"
    let ?s3 = "snd (env_now E ?s2)" and ?x3 = "snd (env_now (beside E) ?x2)"
    let ?now = "fst (env_now E ?s2)"
    show ?case
    proof (cases "fst (update_cancelled E s) \<or> fst (ReadStatus D ?s1) = None")
      case True
      then show ?thesis using body 1(4)
        by (cases "fst (update_cancelled E s)") (auto simp: unfold watched case_prod_beta)
    next
      case False
      then obtain st where st: "fst (ReadStatus D ?s1) = Some st" by auto
      let ?moved = "bytes_written st \<noteq> lw \<or> bytes_verified st \<noteq> lv"
      let ?stalled = "\<not> ?moved \<and> tm_stall_timeout (timings E) < ?now - lm"
      show ?thesis
      proof (cases "\<not> unsettled st \<or> ?stalled")
        case True
        then show ?thesis using body 1(4) False
          by (auto simp: unfold watched case_prod_beta st Let_def unsettled_def split: if_splits)
      next
        case going: False
        let ?tell = "\<lambda>F. if us_phase st = kPhaseVerifying
            then Report F kStageVerifying t (unat (bytes_verified st)) n
                   (''The device is reading back what it wrote and checking it.'')
            else Report F kStageWriting t (unat (bytes_written st)) n
                   (''The device is writing the update to its own memory.'')"
        let ?lw = "if ?moved then bytes_written st else lw" and ?lv = "if ?moved then bytes_verified st else lv"
        let ?lm = "if ?moved then ?now else lm"
        let ?s4 = "env_sleep E (tm_poll_interval (timings E)) (?tell E ?s3)"
        let ?x4 = "env_sleep (beside E) (tm_poll_interval (timings E)) (if us_phase st = kPhaseVerifying
            then Report (beside E) kStageVerifying t (unat (bytes_verified st)) n
                   (''The device is reading back what it wrote and checking it.'') ?x3
            else Report (beside E) kStageWriting t (unat (bytes_written st)) n
                   (''The device is writing the update to its own memory.'') ?x3)"
        have phase: "(us_phase st = kPhaseFailed) = False" "(us_phase st = kPhaseComplete) = False"
          "?stalled = False"
          using going by (auto simp: unsettled_def)
        have "loop D E t n outcome ?lw ?lv ?lm ?s4 = Some result"
          using body False going by (auto simp: case_prod_beta st Let_def phase(1,2) split: if_splits)
        moreover have "fst ?x4 = ?s4" using 1(4) by (simp add: watched)
        ultimately have "follows (Some result) (await_loop (journalled D) (beside E) t n outcome ?lw ?lv ?lm ?x4)"
          using 1(1) by blast
        moreover have "await_loop (journalled D) (beside E) t n outcome lw lv lm x
            = await_loop (journalled D) (beside E) t n outcome ?lw ?lv ?lm ?x4"
          unfolding unfold using False 1(4) going by (auto simp add: case_prod_beta watched st Let_def phase(1,2))
        ultimately show ?thesis by simp
      qed
    qed
  qed
  then show ?thesis using assms(2) by (simp del: split_paired_All)
qed

lemma followsI:
  assumes "\<And>r s. plain = Some (r, s) \<Longrightarrow> \<exists>x. watched_run = Some (r, x) \<and> fst x = s"
  shows "follows plain watched_run"
  using assms by (fastforce simp: follows_def)

lemma followsE:
  assumes "follows plain watched_run" and "plain = Some (r, s)"
  obtains x where "watched_run = Some (r, x)" "fst x = s"
  using assms by (auto simp: follows_def)

lemma watch_await:
  assumes "fst x = s"
  shows "follows (AwaitCompletion D E t n outcome s) (AwaitCompletion (journalled D) (beside E) t n outcome x)"
proof (rule followsI)
  fix r s' assume "AwaitCompletion D E t n outcome s = Some (r, s')"
  then have "await_loop D E t n outcome 0 0 (fst (env_now E s)) (snd (env_now E s)) = Some (r, s')"
    by (simp add: AwaitCompletion_def case_prod_beta)
  from watch_await_loop [OF this, of "snd (env_now (beside E) x)"] assms
  show "\<exists>x'. AwaitCompletion (journalled D) (beside E) t n outcome x = Some (r, x') \<and> fst x' = s'"
    by (auto simp: AwaitCompletion_def case_prod_beta watched follows_def)
qed

lemma watch_write:
  assumes "fst x = s"
  shows "follows (WriteComponent D E t component payload outcome s)
    (WriteComponent (journalled D) (beside E) t component payload outcome x)"
proof -
  let ?s1 = "snd (ReadStatus D s)" and ?x1 = "snd (ReadStatus (journalled D) x)"
  show ?thesis
  proof (cases "fst (ReadStatus D s)")
    case None
    then show ?thesis using assms by (simp add: WriteComponent_def case_prod_beta watched)
  next
    case (Some st)
    show ?thesis
      by (auto simp: WriteComponent_def case_prod_beta watched watch_refusal watch_send assms Some Let_def
          intro!: watch_await)
  qed
qed

lemma watch_install:
  assumes "fst x = s"
  shows "follows (InstallComponent D E t component payload outcome s)
    (InstallComponent (journalled D) (beside E) t component payload outcome x)"
proof (rule followsI)
  fix r s' assume run: "InstallComponent D E t component payload outcome s = Some (r, s')"
  then obtain ok out s1 where w: "WriteComponent D E t component payload outcome s = Some ((ok, out), s1)"
    by (auto simp: InstallComponent_def split: option.splits prod.splits)
  obtain x1 where "WriteComponent (journalled D) (beside E) t component payload outcome x = Some ((ok, out), x1)" "fst x1 = s1"
    by (rule followsE [OF watch_write [OF assms] w])
  then show "\<exists>x'. InstallComponent (journalled D) (beside E) t component payload outcome x = Some (r, x') \<and> fst x' = s'"
    using run w unfolding InstallComponent_def by (auto simp: watched simp del: split_paired_Ex)
qed

lemma watch_install_if:
  assumes "fst x = s"
  shows "follows (install_if_carried D E t component payload outcome s)
    (install_if_carried (journalled D) (beside E) t component payload outcome x)"
  using watch_install [OF assms] assms by (auto simp: install_if_carried_def)

lemma follows_case:
  assumes "follows p q" and "\<And>ok out s x. p = Some ((ok, out), s) \<Longrightarrow> fst x = s \<Longrightarrow> follows (f ok out s) (g ok out x)"
  shows "follows (case p of None \<Rightarrow> None | Some ((ok, out), s) \<Rightarrow> f ok out s)
    (case q of None \<Rightarrow> None | Some ((ok, out), x) \<Rightarrow> g ok out x)"
proof (cases p)
  case (Some y)
  then obtain ok out s where p: "p = Some ((ok, out), s)" by (metis prod.collapse)
  then obtain x where "q = Some ((ok, out), x)" "fst x = s" by (rule followsE [OF assms(1)])
  then show ?thesis using assms(2) [OF p, of x] by (simp add: p)
qed simp

lemma note_return: "note_event SawReturn js = (\<lambda>(came, s). (came, s, js @ [SawReturn came]))"
  by (simp add: note_event_def fun_eq_iff)

lemma watch_restart:
  assumes "fst x = s"
  shows "follows (restart_and_confirm D E bundle outcome s)
    (restart_and_confirm (journalled D) (beside E) bundle outcome x)"
proof -
  have w: "WaitForReturn (journalled D) n y = map_option (\<lambda>(came, s). (came, s, snd y @ [SawReturn came])) (WaitForReturn D n (fst y))"
    for n y by (cases y) (simp add: journalled_def note_return)
  show ?thesis using assms
    by (auto simp: restart_and_confirm_def Let_def watched w split: option.splits)
qed

lemma watch_bring_up:
  assumes "fst x = s"
  shows "follows (RunBringUpWrites D E bundle s) (RunBringUpWrites (journalled D) (beside E) bundle x)"
  using assms unfolding RunBringUpWrites_def Let_def
  by (auto intro!: follows_case watch_install simp: watched)

lemma watch_run_update:
  assumes "fst x = s"
  shows "follows (RunUpdate D E bundle s) (RunUpdate (journalled D) (beside E) bundle x)"
  using assms unfolding RunUpdate_def Let_def
  by (auto intro!: follows_case watch_install_if watch_restart simp: watched case_prod_beta)

end
