(* ===== verification/UpdateFlows.thy ===== *)
theory UpdateFlows
  imports UpdateJournal
begin

text \<open>
  What the flows of \<^verbatim>\<open>ddd-gui/src/capture/update_orchestrator.cpp\<close> promise, for a device of any
  behaviour, and a device of few lines for the witnesses to run on.
\<close>

definition small_status :: "nat \<Rightarrow> DeviceUpdateStatus" where
  "small_status n = \<lparr>us_phase = (if n mod 3 = 2 then kPhaseComplete else kPhaseVerifying), us_error = kErrorNone,
     maximum_chunk_bytes = 256, bytes_received = 0, bytes_written = 0, bytes_verified = 0\<rparr>"

definition small_identity :: DeviceIdentity where
  "small_identity = fresh_identity\<lparr>product_string := ''Domesday Duplicator (ABCDEF12)'', gateware_commit := ''abcdef1''\<rparr>"

text \<open>Every third status says COMPLETE; the state counts them.\<close>

definition small_device :: "nat device_updater" where
  "small_device = \<lparr>
     ReadIdentity = (\<lambda>n. (Some small_identity, n)), ReadStatus = (\<lambda>n. (Some (small_status n), n + 1)),
     BeginUpdate = (\<lambda>t len d n. (True, n)), SendChunk = (\<lambda>t i d n. (True, n)), FinishUpdate = (\<lambda>t n. (True, n)),
     ResetDevice = (\<lambda>n. (True, n)), ReconfigureFpga = (\<lambda>n. (True, n)),
     WaitForReturn = (\<lambda>ms n. Some (Some small_identity, n))\<rparr>"

definition small_env :: "nat orchestrator_env" where
  "small_env = \<lparr>update_cancelled = (\<lambda>n. (False, n)), env_now = (\<lambda>n. (n, n)), env_sleep = (\<lambda>ms n. n),
     progress_callback = (\<lambda>q n. n), timings = \<lparr>tm_return_timeout = 30000, tm_poll_interval = 200, tm_stall_timeout = 60000\<rparr>,
     has_logger = True, defer_restart = False\<rparr>"

definition small_component :: UpdateComponent where
  "small_component = \<lparr>comp_length = 3, comp_sha256 = replicate 32 7, comp_identity = ''abcdef12'', comp_interface_version = 1\<rparr>"

definition small_bundle :: UpdateBundle where
  "small_bundle = \<lparr>man_firmware = Some small_component, man_gateware = Some small_component,
     man_factory_gateware = Some small_component, bundle_firmware = [0x43, 0x59, 0x1C],
     bundle_gateware = [0, 1, 2], bundle_factory_gateware = [3, 4]\<rparr>"

lemma small_sels [simp]:
  "ReadStatus small_device n = (Some (small_status n), n + 1)"
  "BeginUpdate small_device t len d n = (True, n)" "SendChunk small_device t k d n = (True, n)"
  "FinishUpdate small_device t n = (True, n)" "ResetDevice small_device n = (True, n)"
  "ReconfigureFpga small_device n = (True, n)" "WaitForReturn small_device ms n = Some (Some small_identity, n)"
  "update_cancelled small_env n = (False, n)" "env_now small_env n = (n, n)" "env_sleep small_env ms n = n"
  "tm_stall_timeout (timings small_env) = 60000" "Report small_env st t a b m n = n" "\<not> defer_restart small_env"
  by (simp_all add: small_device_def small_env_def Report_def)

lemma small_await: "n mod 3 = 1 \<Longrightarrow> AwaitCompletion small_device small_env t len outcome n = Some ((True, outcome), n + 2)"
  by (simp add: AwaitCompletion_def await_loop.simps [of small_device small_env t len outcome _ _ _ n]
      await_loop.simps [of small_device small_env t len outcome _ _ _ "Suc n"] small_status_def Let_def mod_Suc)

lemma small_install:
  assumes "n mod 3 = 0" and "payload \<noteq> []" and "length payload \<le> 256"
  shows "InstallComponent small_device small_env t c payload outcome n = Some ((True, outcome), n + 3)"
proof -
  have "AlignedChunk 256 = 256" by (simp add: AlignedChunk_def)
  then have send: "send_loop small_device small_env t 256 payload outcome 0 0 k = ((True, outcome), k)" for k
    using assms(2,3) by (simp add: send_loop.simps Let_def)
  have "(n + 1) mod 3 = 1" using assms(1) by (simp add: mod_Suc)
  then show ?thesis using small_await [of "n + 1"]
    by (simp add: InstallComponent_def WriteComponent_def small_status_def [of n] Let_def send)
qed

lemma small_matches:
  "ParseFirmwareCommit (product_string small_identity) = Some ''abcdef12''"
  "CommitsMatch ''abcdef12'' ''abcdef12''" "CommitsMatch (gateware_commit small_identity) ''abcdef12''"
  by code_simp+

lemma small_run: "\<exists>outcome n. RunUpdate small_device small_env small_bundle 0 = Some (outcome, n) \<and> succeeded outcome"
  by (simp add: RunUpdate_def small_bundle_def carried_def install_if_carried_def small_install
      restart_and_confirm_def confirm_firmware_def confirm_gateware_def small_component_def small_matches Let_def)

lemma small_bring_up:
  "\<exists>outcome n. RunBringUpWrites small_device small_env small_bundle 0 = Some (outcome, n) \<and> succeeded outcome"
  by (simp add: RunBringUpWrites_def small_bundle_def carried_def small_install finished_unconfirmed_def Let_def)

subsection \<open>Properties\<close>

text \<open>
  C5: An update reports success only for what the device confirmed. Whatever the device answers and
  whenever the user stops it: success means that every component the bundle carries was announced with
  its length and digest, sent in full and in order in chunks within the device's own limit, finished,
  and then answered COMPLETE, firmware before gateware; and that the device was restarted after that
  and came back naming what the bundle names, unless the restart was left to the caller. Short of success
  no component is begun before the one ahead of it is complete, and nothing is restarted before all are.
\<close>

theorem update_as_asked:
  assumes "RunUpdate D E bundle s = Some (outcome, s')"
  shows "\<exists>js. RunUpdate (journalled D) (beside E) bundle (s, []) = Some (outcome, s', js)
    \<and> update_settled (defer_restart E) bundle outcome js"
proof -
  obtain x where "RunUpdate (journalled D) (beside E) bundle (s, []) = Some (outcome, x)" "fst x = s'"
    using watch_run_update [of "(s, [])" s D E "bundle"] assms by (auto elim!: followsE)
  then show ?thesis using journal.run_update_seen [of D E "bundle" "(s, [])" outcome x]
    by (cases x) (auto simp: watched)
qed

theorem update_as_asked_witness:
  "\<exists>outcome n js. RunUpdate (journalled small_device) (beside small_env) small_bundle (0, []) = Some (outcome, n, js)
    \<and> succeeded outcome \<and> update_settled False small_bundle outcome js"
proof -
  obtain outcome n where "RunUpdate small_device small_env small_bundle 0 = Some (outcome, n)" "succeeded outcome"
    using small_run by blast
  then show ?thesis using update_as_asked [of small_device small_env small_bundle 0 outcome n] by auto
qed

text \<open>
  C6: Bringing a board up writes the firmware, then the factory image, then the application image.
  Whatever the device answers, it begins none of them unless the bundle carries all three and the one
  before was answered COMPLETE, it never restarts the device, and it reports success only when all
  three were installed.
\<close>

theorem bring_up_in_order:
  assumes "RunBringUpWrites D E bundle s = Some (outcome, s')"
  shows "\<exists>js. RunBringUpWrites (journalled D) (beside E) bundle (s, []) = Some (outcome, s', js)
    \<and> (if succeeded outcome then brings_up bundle \<and> installed_all (bring_up_jobs bundle) js
       else if brings_up bundle then stopped_in (bring_up_jobs bundle) js else js = [])"
proof -
  obtain x where "RunBringUpWrites (journalled D) (beside E) bundle (s, []) = Some (outcome, x)" "fst x = s'"
    using watch_bring_up [of "(s, [])" s D E "bundle"] assms by (auto elim!: followsE)
  then show ?thesis using journal.bring_up_seen [of D E "bundle" "(s, [])" outcome x] by (cases x) auto
qed

theorem bring_up_in_order_witness:
  "\<exists>outcome n js. RunBringUpWrites (journalled small_device) (beside small_env) small_bundle (0, []) = Some (outcome, n, js)
    \<and> installed_all (bring_up_jobs small_bundle) js"
proof -
  obtain outcome n where "RunBringUpWrites small_device small_env small_bundle 0 = Some (outcome, n)" "succeeded outcome"
    using small_bring_up by blast
  then show ?thesis using bring_up_in_order [of small_device small_env small_bundle 0 outcome n] by auto
qed

end
