(* ===== verification/Platform.thy ===== *)
theory Platform
  imports Prelude
begin

text \<open>
  What the firmware calls in the Cypress FX3 SDK, as one record of operations over an
  uninterpreted world \<open>'w\<close>: GPIO, the I2C block, mutexes, delays, USB endpoint 0 and the DMA
  and GPIF blocks of the capture path. The SDK is vendored and closed, so it is a parameter of
  every definition that uses it; an operation whose status the source discards has none here.
  Debug output is not part of the model. The combinator \<open>all_ok\<close> is the source's chain of
  calls joined by \<^verbatim>\<open>&&\<close> or by early returns.
\<close>

abbreviation CY_U3P_SUCCESS :: u32 where "CY_U3P_SUCCESS \<equiv> 0"

datatype gpio_intr_mode = CY_U3P_GPIO_NO_INTR | CY_U3P_GPIO_INTR_POS_EDGE

record gpio_config =
  outValue :: bool
  driveLowEn :: bool
  driveHighEn :: bool
  inputEn :: bool
  intrMode :: gpio_intr_mode

record i2c_preamble =
  pre_buffer :: "byte list"
  pre_length :: nat
  pre_ctrlMask :: u16

text \<open>The byte of a two-wire EEPROM a preamble names: three slave address bits and a word address.\<close>

definition preamble_address :: "i2c_preamble \<Rightarrow> nat" where
  "preamble_address p =
     unat (drop_bit 1 (pre_buffer p ! 0) AND 7) * 65536
     + unat (pre_buffer p ! 1) * 256 + unat (pre_buffer p ! 2)"

record i2c_config =
  bitRate :: u32
  isDma :: bool
  busTimeout :: u32
  dmaTimeout :: u16

record 'w platform =
  CyU3PBusyWait :: "nat \<Rightarrow> 'w \<Rightarrow> 'w"
  CyU3PThreadSleep :: "nat \<Rightarrow> 'w \<Rightarrow> 'w"
  CyU3PDeviceGpioOverride :: "nat \<Rightarrow> bool \<Rightarrow> 'w \<Rightarrow> u32 \<times> 'w"
  CyU3PGpioSetSimpleConfig :: "nat \<Rightarrow> gpio_config \<Rightarrow> 'w \<Rightarrow> u32 \<times> 'w"
  CyU3PGpioSimpleSetValue :: "nat \<Rightarrow> bool \<Rightarrow> 'w \<Rightarrow> 'w"
  CyU3PGpioSimpleGetValue :: "nat \<Rightarrow> 'w \<Rightarrow> u32 \<times> bool \<times> 'w"
  CyU3PMutexCreate :: "'w \<Rightarrow> u32 \<times> 'w"
  CyU3PMutexGet :: "'w \<Rightarrow> u32 \<times> 'w"
  CyU3PMutexPut :: "'w \<Rightarrow> 'w"
  CyU3PI2cInit :: "'w \<Rightarrow> u32 \<times> 'w"
  CyU3PI2cSetConfig :: "i2c_config \<Rightarrow> 'w \<Rightarrow> u32 \<times> 'w"
  CyU3PI2cTransmitBytes :: "i2c_preamble \<Rightarrow> byte list \<Rightarrow> u32 \<Rightarrow> 'w \<Rightarrow> u32 \<times> 'w"
  CyU3PI2cReceiveBytes :: "i2c_preamble \<Rightarrow> nat \<Rightarrow> u32 \<Rightarrow> 'w \<Rightarrow> u32 \<times> (nat \<Rightarrow> byte) \<times> 'w"
  CyU3PI2cWaitForAck :: "i2c_preamble \<Rightarrow> u32 \<Rightarrow> 'w \<Rightarrow> u32 \<times> 'w"
  CyU3PDeviceReset :: "bool \<Rightarrow> 'w \<Rightarrow> 'w"

subsection \<open>Chains of fallible calls\<close>

fun all_ok :: "('s \<Rightarrow> bool \<times> 's) list \<Rightarrow> 's \<Rightarrow> bool \<times> 's" where
  "all_ok [] s = (True, s)"
| "all_ok (f # fs) s = (case f s of (ok, s') \<Rightarrow> if ok then all_ok fs s' else (False, s'))"

lemma all_ok_append:
  "all_ok (fs @ gs) s = (case all_ok fs s of (ok, s') \<Rightarrow> if ok then all_ok gs s' else (False, s'))"
  by (induction fs arbitrary: s) (simp_all split: prod.splits)

lemma all_ok_preserves:
  assumes "\<And>f s. f \<in> set fs \<Longrightarrow> P s \<Longrightarrow> P (snd (f s))" and "P s"
  shows "P (snd (all_ok fs s))"
  using assms
proof (induction fs arbitrary: s)
  case (Cons f fs)
  have "P (snd (f s))" using Cons.prems by simp
  then show ?case using Cons.IH [of "snd (f s)"] Cons.prems(1)
    by (cases "f s") auto
qed simp

end
