(* ===== verification/FpgaLink.thy ===== *)
theory FpgaLink
  imports Platform RegisterMap
begin

text \<open>
  The bit-banged register link of \<^verbatim>\<open>fx3/firmware/src/fpga-registers.c\<close>: pin configuration,
  byte transfers in SPI mode 0, framed register reads and writes under the link's mutex, and
  the probe that decides whether a gateware answers. The static variables of the file are the
  fields of \<open>link\<close>, and the world the SDK works on is its first field. An operation that fills
  a caller's buffer returns the bytes, or \<open>None\<close> where it returns \<^verbatim>\<open>CyFalse\<close> and leaves the
  buffer alone.
\<close>

abbreviation FPGA_SPI_SCLK_GPIO :: nat where "FPGA_SPI_SCLK_GPIO \<equiv> 22"
abbreviation FPGA_SPI_MOSI_GPIO :: nat where "FPGA_SPI_MOSI_GPIO \<equiv> 23"
abbreviation FPGA_SPI_MISO_GPIO :: nat where "FPGA_SPI_MISO_GPIO \<equiv> 24"
abbreviation FPGA_SPI_CS_GPIO :: nat where "FPGA_SPI_CS_GPIO \<equiv> 25"
abbreviation FPGA_SPI_RESERVED_GPIO :: nat where "FPGA_SPI_RESERVED_GPIO \<equiv> 26"
abbreviation FPGA_SPI_HALF_BIT_US :: nat where "FPGA_SPI_HALF_BIT_US \<equiv> 2"
abbreviation FPGA_SPI_SELECT_US :: nat where "FPGA_SPI_SELECT_US \<equiv> 2"
abbreviation FPGA_PROBE_INTERVAL_MS :: nat where "FPGA_PROBE_INTERVAL_MS \<equiv> 20"
abbreviation FPGA_STARTUP_PROBE_ATTEMPTS :: nat where "FPGA_STARTUP_PROBE_ATTEMPTS \<equiv> 10"
abbreviation FPGA_RECHECK_LOOPS :: nat where "FPGA_RECHECK_LOOPS \<equiv> 200"

record 'w link =
  world :: 'w
  glFpgaPresent :: bool
  glFpgaIdentity :: "byte list"
  glFpgaLockReady :: bool

subsection \<open>Pins\<close>

definition configureOutput :: "('w, 'p) platform_scheme \<Rightarrow> nat \<Rightarrow> bool \<Rightarrow> 'w \<Rightarrow> u32 \<times> 'w" where
  "configureOutput P gpio initialValue w =
     (let (status, w) = CyU3PDeviceGpioOverride P gpio True w
      in if status \<noteq> CY_U3P_SUCCESS then (status, w)
         else CyU3PGpioSetSimpleConfig P gpio
                \<lparr>outValue = initialValue, driveLowEn = True, driveHighEn = True,
                 inputEn = False, intrMode = CY_U3P_GPIO_NO_INTR\<rparr> w)"

definition configureInput :: "('w, 'p) platform_scheme \<Rightarrow> nat \<Rightarrow> 'w \<Rightarrow> u32 \<times> 'w" where
  "configureInput P gpio w =
     (let (status, w) = CyU3PDeviceGpioOverride P gpio True w
      in if status \<noteq> CY_U3P_SUCCESS then (status, w)
         else CyU3PGpioSetSimpleConfig P gpio
                \<lparr>outValue = False, driveLowEn = False, driveHighEn = False,
                 inputEn = True, intrMode = CY_U3P_GPIO_NO_INTR\<rparr> w)"

definition fpgaRegistersInitialise :: "('w, 'p) platform_scheme \<Rightarrow> 'w \<Rightarrow> u32 \<times> 'w" where
  "fpgaRegistersInitialise P w =
     (let (status, w) = configureOutput P FPGA_SPI_CS_GPIO True w
      in if status \<noteq> CY_U3P_SUCCESS then (status, w) else
      let (status, w) = configureOutput P FPGA_SPI_SCLK_GPIO False w
      in if status \<noteq> CY_U3P_SUCCESS then (status, w) else
      let (status, w) = configureOutput P FPGA_SPI_MOSI_GPIO False w
      in if status \<noteq> CY_U3P_SUCCESS then (status, w) else
      let (status, w) = configureInput P FPGA_SPI_MISO_GPIO w
      in if status \<noteq> CY_U3P_SUCCESS then (status, w) else
      configureOutput P FPGA_SPI_RESERVED_GPIO False w)"

definition fpgaRegistersStart ::
    "('w, 'p) platform_scheme \<Rightarrow> ('w, 'z) link_scheme \<Rightarrow> u32 \<times> ('w, 'z) link_scheme" where
  "fpgaRegistersStart P s =
     (if glFpgaLockReady s then (CY_U3P_SUCCESS, s)
      else let (status, w) = CyU3PMutexCreate P (world s); s = s\<lparr>world := w\<rparr>
           in if status \<noteq> CY_U3P_SUCCESS then (status, s)
              else (CY_U3P_SUCCESS, s\<lparr>glFpgaLockReady := True\<rparr>))"

subsection \<open>Bytes\<close>

definition transferBit ::
    "('w, 'p) platform_scheme \<Rightarrow> byte \<Rightarrow> nat \<Rightarrow> byte \<times> 'w \<Rightarrow> byte \<times> 'w" where
  "transferBit P send n = (\<lambda>(received, w).
     let w = CyU3PGpioSimpleSetValue P FPGA_SPI_MOSI_GPIO (drop_bit n send AND 1 \<noteq> 0) w;
         w = CyU3PBusyWait P FPGA_SPI_HALF_BIT_US w;
         w = CyU3PGpioSimpleSetValue P FPGA_SPI_SCLK_GPIO True w;
         (status, v, w) = CyU3PGpioSimpleGetValue P FPGA_SPI_MISO_GPIO w;
         received = (if status = CY_U3P_SUCCESS \<and> v then received OR push_bit n 1 else received);
         w = CyU3PBusyWait P FPGA_SPI_HALF_BIT_US w;
         w = CyU3PGpioSimpleSetValue P FPGA_SPI_SCLK_GPIO False w
     in (received, w))"

definition transferByte :: "('w, 'p) platform_scheme \<Rightarrow> byte \<Rightarrow> 'w \<Rightarrow> byte \<times> 'w" where
  "transferByte P send w = fold (transferBit P send) [7, 6, 5, 4, 3, 2, 1, 0] (0, w)"

definition selectFpga :: "('w, 'p) platform_scheme \<Rightarrow> 'w \<Rightarrow> 'w" where
  "selectFpga P w =
     (let w = CyU3PGpioSimpleSetValue P FPGA_SPI_CS_GPIO False w
      in CyU3PBusyWait P FPGA_SPI_SELECT_US w)"

definition deselectFpga :: "('w, 'p) platform_scheme \<Rightarrow> 'w \<Rightarrow> 'w" where
  "deselectFpga P w =
     (let w = CyU3PBusyWait P FPGA_SPI_SELECT_US w;
          w = CyU3PGpioSimpleSetValue P FPGA_SPI_CS_GPIO True w
      in CyU3PBusyWait P FPGA_SPI_SELECT_US w)"

fun sendBytes :: "('w, 'p) platform_scheme \<Rightarrow> byte list \<Rightarrow> 'w \<Rightarrow> 'w" where
  "sendBytes P [] w = w"
| "sendBytes P (b # bs) w = sendBytes P bs (snd (transferByte P b w))"

fun receiveBytes :: "('w, 'p) platform_scheme \<Rightarrow> nat \<Rightarrow> 'w \<Rightarrow> byte list \<times> 'w" where
  "receiveBytes P 0 w = ([], w)"
| "receiveBytes P (Suc n) w =
     (let (b, w) = transferByte P 0 w; (bs, w) = receiveBytes P n w in (b # bs, w))"

subsection \<open>Registers\<close>

definition takeLock ::
    "('w, 'p) platform_scheme \<Rightarrow> ('w, 'z) link_scheme \<Rightarrow> bool \<times> ('w, 'z) link_scheme" where
  "takeLock P s =
     (if \<not> glFpgaLockReady s then (False, s)
      else let (status, w) = CyU3PMutexGet P (world s)
           in (status = CY_U3P_SUCCESS, s\<lparr>world := w\<rparr>))"

definition releaseLock ::
    "('w, 'p) platform_scheme \<Rightarrow> ('w, 'z) link_scheme \<Rightarrow> ('w, 'z) link_scheme" where
  "releaseLock P s =
     (if glFpgaLockReady s then s\<lparr>world := CyU3PMutexPut P (world s)\<rparr> else s)"

definition fpgaRegistersRead ::
    "('w, 'p) platform_scheme \<Rightarrow> byte \<Rightarrow> byte \<Rightarrow> ('w, 'z) link_scheme
     \<Rightarrow> byte list option \<times> ('w, 'z) link_scheme" where
  "fpgaRegistersRead P address len s =
     (if len = 0 \<or> FPGA_REGISTER_ADDRESS_MAX < ucast address then (None, s)
      else let (ok, s) = takeLock P s
      in if \<not> ok then (None, s)
      else let w = selectFpga P (world s);
               (_, w) = transferByte P (0x80 OR address) w;
               (buffer, w) = receiveBytes P (unat len) w;
               w = deselectFpga P w
           in (Some buffer, releaseLock P (s\<lparr>world := w\<rparr>)))"

definition fpgaRegistersWrite ::
    "('w, 'p) platform_scheme \<Rightarrow> byte \<Rightarrow> byte \<Rightarrow> ('w, 'z) link_scheme
     \<Rightarrow> bool \<times> ('w, 'z) link_scheme" where
  "fpgaRegistersWrite P address v s =
     (if FPGA_REGISTER_ADDRESS_MAX < ucast address then (False, s)
      else let (ok, s) = takeLock P s
      in if \<not> ok then (False, s)
      else let w = selectFpga P (world s);
               (_, w) = transferByte P address w;
               (_, w) = transferByte P v w;
               w = deselectFpga P w
           in (True, releaseLock P (s\<lparr>world := w\<rparr>)))"

definition fpgaRegistersWriteBurst ::
    "('w, 'p) platform_scheme \<Rightarrow> byte \<Rightarrow> byte list \<Rightarrow> ('w, 'z) link_scheme
     \<Rightarrow> bool \<times> ('w, 'z) link_scheme" where
  "fpgaRegistersWriteBurst P address data s =
     (if data = [] \<or> FPGA_REGISTER_ADDRESS_MAX < ucast address then (False, s)
      else let (ok, s) = takeLock P s
      in if \<not> ok then (False, s)
      else let w = selectFpga P (world s);
               (_, w) = transferByte P address w;
               w = sendBytes P data w;
               w = deselectFpga P w
           in (True, releaseLock P (s\<lparr>world := w\<rparr>)))"

definition fpgaRegistersSetLeds ::
    "('w, 'p) platform_scheme \<Rightarrow> byte \<Rightarrow> ('w, 'z) link_scheme \<Rightarrow> bool \<times> ('w, 'z) link_scheme" where
  "fpgaRegistersSetLeds P pattern s =
     (if \<not> glFpgaPresent s then (False, s)
      else fpgaRegistersWrite P FPGA_REGISTER_LED pattern s)"

subsection \<open>The probe\<close>

definition fpgaRegistersPresent :: "('w, 'z) link_scheme \<Rightarrow> bool" where
  "fpgaRegistersPresent s = glFpgaPresent s"

definition fpgaRegistersHasFlashBridge :: "('w, 'z) link_scheme \<Rightarrow> bool" where
  "fpgaRegistersHasFlashBridge s =
     (if \<not> glFpgaPresent s then False else fpgaIdentityHasFlashBridge (glFpgaIdentity s))"

definition fpgaRegistersImageRole :: "('w, 'z) link_scheme \<Rightarrow> byte" where
  "fpgaRegistersImageRole s =
     (if \<not> glFpgaPresent s then FPGA_IMAGE_ROLE_APPLICATION
      else fpgaIdentityImageRole (glFpgaIdentity s))"

definition fpgaRegistersForgetProbe :: "('w, 'z) link_scheme \<Rightarrow> ('w, 'z) link_scheme" where
  "fpgaRegistersForgetProbe s = s\<lparr>glFpgaPresent := False\<rparr>"

function probe_loop ::
    "('w, 'p) platform_scheme \<Rightarrow> nat \<Rightarrow> nat \<Rightarrow> ('w, 'z) link_scheme \<Rightarrow> ('w, 'z) link_scheme" where
  "probe_loop P attempt attempts s =
     (if attempt < attempts then
        let (r, s) = fpgaRegistersRead P (of_nat FPGA_REGISTER_ID) (of_nat FPGA_IDENTITY_LENGTH) s;
            (answered, s) = (case r of None \<Rightarrow> (False, s)
              | Some identity \<Rightarrow> (fpgaIdentityIsValid identity, s\<lparr>glFpgaIdentity := identity\<rparr>))
        in if answered then s\<lparr>glFpgaPresent := True\<rparr>
           else let s = (if attempt + 1 < attempts
                         then s\<lparr>world := CyU3PThreadSleep P FPGA_PROBE_INTERVAL_MS (world s)\<rparr>
                         else s)
                in probe_loop P (attempt + 1) attempts s
      else s)"
  by pat_completeness auto
termination by (relation "measure (\<lambda>(_, attempt, attempts, _). attempts - attempt)") auto

definition fpgaRegistersProbe ::
    "('w, 'p) platform_scheme \<Rightarrow> nat \<Rightarrow> ('w, 'z) link_scheme \<Rightarrow> bool \<times> ('w, 'z) link_scheme" where
  "fpgaRegistersProbe P attempts s =
     (let s = probe_loop P 0 attempts (s\<lparr>glFpgaPresent := False\<rparr>)
      in if \<not> glFpgaPresent s then (False, s) else (True, s))"

subsection \<open>What an operation may change\<close>

text \<open>
  Reads and writes change nothing of the driver's own state: whatever the SDK does, only the
  world differs afterwards.
\<close>

definition world_only :: "('w, 'z) link_scheme \<Rightarrow> ('w, 'z) link_scheme \<Rightarrow> bool" where
  "world_only s s' \<longleftrightarrow> (\<exists>w. s' = s\<lparr>world := w\<rparr>)"

lemma world_only_refl [simp]: "world_only s s"
  unfolding world_only_def by (intro exI [of _ "world s"]) simp

lemma world_only_trans [trans]: "world_only s t \<Longrightarrow> world_only t u \<Longrightarrow> world_only s u"
  by (auto simp: world_only_def)

lemma world_only_update [simp]: "world_only s t \<Longrightarrow> world_only s (t\<lparr>world := w\<rparr>)"
  by (auto simp: world_only_def)

lemma world_only_from [simp]: "world_only (s\<lparr>world := w\<rparr>) t = world_only s t"
  unfolding world_only_def by (cases s, cases t) auto

lemma world_only_lock [simp]:
  "world_only s (snd (takeLock P s))"
  "world_only s t \<Longrightarrow> world_only s (releaseLock P t)"
  by (auto simp: takeLock_def releaseLock_def split: prod.splits)

lemma world_only_access [simp]:
  "world_only s (snd (fpgaRegistersRead P a n s))"
  "world_only s (snd (fpgaRegistersWrite P a v s))"
  "world_only s (snd (fpgaRegistersWriteBurst P a bs s))"
proof -
  obtain ok t where l: "takeLock P s = (ok, t)" by (cases "takeLock P s")
  then have "world_only s t" using world_only_lock(1) [of s P] by simp
  then show "world_only s (snd (fpgaRegistersRead P a n s))"
    "world_only s (snd (fpgaRegistersWrite P a v s))"
    "world_only s (snd (fpgaRegistersWriteBurst P a bs s))"
    using l by (auto simp: fpgaRegistersRead_def fpgaRegistersWrite_def
        fpgaRegistersWriteBurst_def Let_def split: prod.splits)
qed

lemma world_only_all_ok:
  assumes "\<And>f s. f \<in> set fs \<Longrightarrow> world_only s (snd (f s))"
  shows "world_only s (snd (all_ok fs s))"
proof (rule all_ok_preserves [where P = "world_only s"])
  show "world_only s (snd (f t))" if "f \<in> set fs" "world_only s t" for f t
    using that assms world_only_trans by blast
qed simp

declare probe_loop.simps [simp del]

lemma probe_loop_outcome:
  "\<not> glFpgaPresent s \<Longrightarrow>
    (glFpgaPresent (probe_loop P attempt attempts s)
      \<longrightarrow> fpgaIdentityIsValid (glFpgaIdentity (probe_loop P attempt attempts s)))
    \<and> glFpgaLockReady (probe_loop P attempt attempts s) = glFpgaLockReady s"
proof (induction "attempts - attempt" arbitrary: attempt s)
  case 0
  then show ?case by (simp add: probe_loop.simps [of P attempt])
next
  case (Suc n)
  obtain r t where r: "fpgaRegistersRead P (of_nat FPGA_REGISTER_ID) (of_nat FPGA_IDENTITY_LENGTH) s = (r, t)"
    by (cases "fpgaRegistersRead P (of_nat FPGA_REGISTER_ID) (of_nat FPGA_IDENTITY_LENGTH) s")
  then have "world_only s t"
    using world_only_access(1) [of s P "of_nat FPGA_REGISTER_ID" "of_nat FPGA_IDENTITY_LENGTH"]
    by (simp del: of_nat_numeral of_nat_0)
  then have t: "glFpgaLockReady t = glFpgaLockReady s" "glFpgaPresent t = glFpgaPresent s"
    by (auto simp: world_only_def)
  have n: "n = attempts - (attempt + 1)" "attempt < attempts" using Suc.hyps(2) by simp_all
  show ?case using t n(2) Suc.hyps(1) [OF n(1)] Suc.prems
    unfolding probe_loop.simps [of P attempt attempts s] r prod.case
    by (cases r) (simp_all add: Let_def)
qed

end
