(* ===== verification/EpcsFlash.thy ===== *)
theory EpcsFlash
  imports FpgaLink UpdateProtocol
begin

text \<open>
  The EPCS configuration flash behind the gateware's bridge: \<^verbatim>\<open>fx3/firmware/src/epcs-flash.c\<close>.
  Every operation unlocks the bridge with four register writes, frames flash commands with the
  bridge's chip select, and locks the bridge again on every way out; the wait for the part
  polls at most \<open>EPCS_READY_TIMEOUT_MS\<close> times. The lemmas say that an operation changes the
  world and the command buffer and nothing else, and that without a gateware that has the
  bridge no operation touches anything.
\<close>

abbreviation UPDATE_EPCS_WRITE_ENABLE :: byte where "UPDATE_EPCS_WRITE_ENABLE \<equiv> 0x06"
abbreviation UPDATE_EPCS_READ_STATUS :: byte where "UPDATE_EPCS_READ_STATUS \<equiv> 0x05"
abbreviation UPDATE_EPCS_READ_BYTES :: byte where "UPDATE_EPCS_READ_BYTES \<equiv> 0x03"
abbreviation UPDATE_EPCS_PAGE_PROGRAM :: byte where "UPDATE_EPCS_PAGE_PROGRAM \<equiv> 0x02"
abbreviation UPDATE_EPCS_ERASE_SECTOR :: byte where "UPDATE_EPCS_ERASE_SECTOR \<equiv> 0xD8"
abbreviation UPDATE_EPCS_READ_SILICON_ID :: byte where "UPDATE_EPCS_READ_SILICON_ID \<equiv> 0xAB"
abbreviation UPDATE_EPCS_STATUS_BUSY :: byte where "UPDATE_EPCS_STATUS_BUSY \<equiv> 0x01"
abbreviation UPDATE_EPCS_ID_DUMMY_BYTES :: nat where "UPDATE_EPCS_ID_DUMMY_BYTES \<equiv> 3"
abbreviation EPCS_READY_TIMEOUT_MS :: nat where "EPCS_READY_TIMEOUT_MS \<equiv> 8000"
abbreviation EPCS_POLL_INTERVAL_MS :: nat where "EPCS_POLL_INTERVAL_MS \<equiv> 1"

record 'w epcs = "'w link" +
  glEpcsCommand :: "byte list"

subsection \<open>The bridge\<close>

definition epcsUnlock ::
    "('w, 'p) platform_scheme \<Rightarrow> ('w, 'z) link_scheme \<Rightarrow> bool \<times> ('w, 'z) link_scheme" where
  "epcsUnlock P s =
     (if \<not> fpgaRegistersHasFlashBridge s then (False, s)
      else all_ok
        [fpgaRegistersWrite P FPGA_REGISTER_BRIDGE_UNLOCK FPGA_BRIDGE_UNLOCK_0,
         fpgaRegistersWrite P FPGA_REGISTER_BRIDGE_UNLOCK FPGA_BRIDGE_UNLOCK_1,
         fpgaRegistersWrite P FPGA_REGISTER_BRIDGE_UNLOCK FPGA_BRIDGE_UNLOCK_2,
         fpgaRegistersWrite P FPGA_REGISTER_BRIDGE_UNLOCK FPGA_BRIDGE_UNLOCK_3] s)"

definition epcsLock ::
    "('w, 'p) platform_scheme \<Rightarrow> ('w, 'z) link_scheme \<Rightarrow> ('w, 'z) link_scheme" where
  "epcsLock P s =
     (let (_, s) = fpgaRegistersWrite P FPGA_REGISTER_BRIDGE_CONTROL 0 s;
          (_, s) = fpgaRegistersWrite P FPGA_REGISTER_BRIDGE_UNLOCK FPGA_BRIDGE_LOCK s
      in s)"

definition epcsAssert ::
    "('w, 'p) platform_scheme \<Rightarrow> ('w, 'z) link_scheme \<Rightarrow> bool \<times> ('w, 'z) link_scheme" where
  "epcsAssert P = fpgaRegistersWrite P FPGA_REGISTER_BRIDGE_CONTROL FPGA_BRIDGE_SELECT"

definition epcsRelease ::
    "('w, 'p) platform_scheme \<Rightarrow> ('w, 'z) link_scheme \<Rightarrow> bool \<times> ('w, 'z) link_scheme" where
  "epcsRelease P = fpgaRegistersWrite P FPGA_REGISTER_BRIDGE_CONTROL 0"

definition epcsTransfer ::
    "('w, 'p) platform_scheme \<Rightarrow> byte \<Rightarrow> ('w, 'z) link_scheme
     \<Rightarrow> byte option \<times> ('w, 'z) link_scheme" where
  "epcsTransfer P send s =
     (let (ok, s) = fpgaRegistersWrite P FPGA_REGISTER_BRIDGE_DATA send s
      in if \<not> ok then (None, s)
         else let (r, s) = fpgaRegistersRead P FPGA_REGISTER_BRIDGE_DATA 1 s
              in (map_option (\<lambda>bs. bs ! 0) r, s))"

definition epcsSend ::
    "('w, 'p) platform_scheme \<Rightarrow> byte list \<Rightarrow> ('w, 'z) link_scheme
     \<Rightarrow> bool \<times> ('w, 'z) link_scheme" where
  "epcsSend P data = fpgaRegistersWriteBurst P FPGA_REGISTER_BRIDGE_DATA data"

definition epcsWriteEnable ::
    "('w, 'p) platform_scheme \<Rightarrow> ('w, 'z) link_scheme \<Rightarrow> bool \<times> ('w, 'z) link_scheme" where
  "epcsWriteEnable P = all_ok [epcsAssert P, epcsSend P [UPDATE_EPCS_WRITE_ENABLE], epcsRelease P]"

function epcsWaitReady_loop ::
    "('w, 'p) platform_scheme \<Rightarrow> nat \<Rightarrow> ('w, 'z) link_scheme \<Rightarrow> bool \<times> ('w, 'z) link_scheme" where
  "epcsWaitReady_loop P waited s =
     (if waited < EPCS_READY_TIMEOUT_MS then
        let (r, s) = epcsTransfer P 0xFF s
        in case r of None \<Rightarrow> (False, s)
           | Some status \<Rightarrow>
               if status AND UPDATE_EPCS_STATUS_BUSY = 0 then epcsRelease P s
               else epcsWaitReady_loop P (waited + EPCS_POLL_INTERVAL_MS)
                      (s\<lparr>world := CyU3PThreadSleep P EPCS_POLL_INTERVAL_MS (world s)\<rparr>)
      else (False, s))"
  by pat_completeness auto
termination by (relation "measure (\<lambda>(_, waited, _). EPCS_READY_TIMEOUT_MS - waited)") auto

definition epcsWaitReady ::
    "('w, 'p) platform_scheme \<Rightarrow> ('w, 'z) link_scheme \<Rightarrow> bool \<times> ('w, 'z) link_scheme" where
  "epcsWaitReady P =
     all_ok [epcsAssert P, epcsSend P [UPDATE_EPCS_READ_STATUS], epcsWaitReady_loop P 0]"

definition epcsCommand :: "byte \<Rightarrow> u32 \<Rightarrow> ('w, 'z) epcs_scheme \<Rightarrow> ('w, 'z) epcs_scheme" where
  "epcsCommand opcode address s = s\<lparr>glEpcsCommand := (glEpcsCommand s)
     [0 := opcode,
      1 := ucast (drop_bit 16 address AND 0xFF),
      2 := ucast (drop_bit 8 address AND 0xFF),
      3 := ucast (address AND 0xFF)]\<rparr>"

definition epcsSendCommand ::
    "('w, 'p) platform_scheme \<Rightarrow> nat \<Rightarrow> ('w, 'z) epcs_scheme \<Rightarrow> bool \<times> ('w, 'z) epcs_scheme" where
  "epcsSendCommand P len s = epcsSend P (take len (glEpcsCommand s)) s"

subsection \<open>Operations\<close>

definition epcsFlashIdentify ::
    "('w, 'p) platform_scheme \<Rightarrow> ('w, 'z) epcs_scheme \<Rightarrow> bool \<times> byte \<times> ('w, 'z) epcs_scheme" where
  "epcsFlashIdentify P s =
     (let (ok, s) = epcsUnlock P s
      in if \<not> ok then (False, 0, s) else
      let (ok, s) = epcsAssert P s
      in if \<not> ok then (False, 0, epcsLock P s) else
      let s = s\<lparr>glEpcsCommand := (glEpcsCommand s)
                 [0 := UPDATE_EPCS_READ_SILICON_ID, 1 := 0, 2 := 0, 3 := 0]\<rparr>;
          (ok, s) = epcsSendCommand P (1 + UPDATE_EPCS_ID_DUMMY_BYTES) s
      in if \<not> ok then (False, 0, epcsLock P s) else
      let (r, s) = epcsTransfer P 0xFF s
      in case r of None \<Rightarrow> (False, 0, epcsLock P s)
         | Some received \<Rightarrow> (received \<noteq> 0 \<and> received \<noteq> 0xFF, received, epcsLock P s))"

definition epcsFlashEraseSector ::
    "('w, 'p) platform_scheme \<Rightarrow> u32 \<Rightarrow> ('w, 'z) epcs_scheme \<Rightarrow> bool \<times> ('w, 'z) epcs_scheme" where
  "epcsFlashEraseSector P address s =
     (let base = updateEpcsSectorBase address;
          (ok, s) = epcsUnlock P s
      in if \<not> ok then (False, s) else
      let s = epcsCommand UPDATE_EPCS_ERASE_SECTOR base s;
          (ok, s) = all_ok [epcsWriteEnable P, epcsAssert P, epcsSendCommand P 4,
                            epcsRelease P, epcsWaitReady P] s
      in (ok, epcsLock P s))"

definition epcsFlashProgramPage ::
    "('w, 'p) platform_scheme \<Rightarrow> u32 \<Rightarrow> byte list \<Rightarrow> ('w, 'z) epcs_scheme
     \<Rightarrow> bool \<times> ('w, 'z) epcs_scheme" where
  "epcsFlashProgramPage P address data s =
     (if length data = 0 \<or> unat UPDATE_EPCS_PAGE_SIZE < length data then (False, s) else
      let (ok, s) = epcsUnlock P s
      in if \<not> ok then (False, s) else
      let s = epcsCommand UPDATE_EPCS_PAGE_PROGRAM address s;
          s = s\<lparr>glEpcsCommand := blit (glEpcsCommand s) 4 data\<rparr>;
          (ok, s) = all_ok [epcsWriteEnable P, epcsAssert P, epcsSendCommand P (4 + length data),
                            epcsRelease P, epcsWaitReady P] s
      in (ok, epcsLock P s))"

fun epcsRead_loop ::
    "('w, 'p) platform_scheme \<Rightarrow> nat \<Rightarrow> ('w, 'z) link_scheme
     \<Rightarrow> byte list option \<times> ('w, 'z) link_scheme" where
  "epcsRead_loop P 0 s = (Some [], s)"
| "epcsRead_loop P (Suc n) s =
     (let (r, s) = epcsTransfer P 0xFF s
      in case r of None \<Rightarrow> (None, s)
         | Some b \<Rightarrow> let (bs, s) = epcsRead_loop P n s in (map_option ((#) b) bs, s))"

definition epcsFlashRead ::
    "('w, 'p) platform_scheme \<Rightarrow> u32 \<Rightarrow> nat \<Rightarrow> ('w, 'z) epcs_scheme
     \<Rightarrow> byte list option \<times> ('w, 'z) epcs_scheme" where
  "epcsFlashRead P address len s =
     (if len = 0 then (None, s) else
      let (ok, s) = epcsUnlock P s
      in if \<not> ok then (None, s) else
      let s = epcsCommand UPDATE_EPCS_READ_BYTES address s;
          (ok, s) = all_ok [epcsAssert P, epcsSendCommand P 4] s
      in if \<not> ok then (None, epcsLock P s) else
      let (r, s) = epcsRead_loop P len s in (r, epcsLock P s))"

definition epcsFlashReconfigureFpga ::
    "('w, 'p) platform_scheme \<Rightarrow> ('w, 'z) link_scheme \<Rightarrow> bool \<times> ('w, 'z) link_scheme" where
  "epcsFlashReconfigureFpga P s =
     (if \<not> fpgaRegistersHasFlashBridge s then (False, s) else
      let (ok, s) = fpgaRegistersWrite P FPGA_REGISTER_RECONFIG_CONTROL FPGA_RECONFIG_TRIGGER s
      in if \<not> ok then (False, s) else (True, fpgaRegistersForgetProbe s))"

subsection \<open>What an operation may change\<close>

definition epcs_only :: "('w, 'z) epcs_scheme \<Rightarrow> ('w, 'z) epcs_scheme \<Rightarrow> bool" where
  "epcs_only s s' \<longleftrightarrow> (\<exists>w c. s' = s\<lparr>world := w, glEpcsCommand := c\<rparr>)"

lemma epcs_only_refl [simp]: "epcs_only s s"
  unfolding epcs_only_def by (intro exI [of _ "world s"] exI [of _ "glEpcsCommand s"]) simp

lemma epcs_only_trans [trans]:
  assumes "epcs_only s t" and "epcs_only t u" shows "epcs_only s u"
proof -
  obtain w c w' c' where "t = s\<lparr>world := w, glEpcsCommand := c\<rparr>"
    and "u = t\<lparr>world := w', glEpcsCommand := c'\<rparr>"
    using assms unfolding epcs_only_def by blast
  then have "u = s\<lparr>world := w', glEpcsCommand := c'\<rparr>" by simp
  then show ?thesis unfolding epcs_only_def by blast
qed

lemma epcs_only_world: "world_only s t \<Longrightarrow> epcs_only s t"
  unfolding world_only_def epcs_only_def
  by (metis (no_types) epcs.surjective epcs.update_convs(1) link.update_convs(1))

lemma epcs_only_command [simp]: "epcs_only s (s\<lparr>glEpcsCommand := c\<rparr>)"
  unfolding epcs_only_def by (intro exI [of _ "world s"] exI [of _ c]) simp

lemma epcs_only_fields:
  "epcs_only s t \<Longrightarrow> glFpgaPresent t = glFpgaPresent s \<and> glFpgaIdentity t = glFpgaIdentity s
     \<and> glFpgaLockReady t = glFpgaLockReady s"
  by (auto simp: epcs_only_def)

lemma world_only_bridge [simp]:
  "world_only s (snd (epcsUnlock P s))"
  "world_only s (epcsLock P s)"
  "world_only s (snd (epcsAssert P s))"
  "world_only s (snd (epcsRelease P s))"
  "world_only s (snd (epcsSend P bs s))"
  "world_only s (snd (epcsTransfer P b s))"
proof -
  show "world_only s (snd (epcsUnlock P s))"
    unfolding epcsUnlock_def by (auto intro!: world_only_all_ok simp del: all_ok.simps)
  show "world_only s (epcsLock P s)"
    unfolding epcsLock_def Let_def
    by (auto split: prod.splits intro: world_only_trans)
      (metis snd_conv world_only_access(2) world_only_trans)
  show "world_only s (snd (epcsTransfer P b s))"
    unfolding epcsTransfer_def Let_def
    by (auto split: prod.splits) (metis snd_conv world_only_access world_only_trans)+
qed (simp_all add: epcsAssert_def epcsRelease_def epcsSend_def)

declare epcsWaitReady_loop.simps [simp del]

lemma world_only_wait_loop: "world_only s (snd (epcsWaitReady_loop P waited s))"
proof (induction P waited s rule: epcsWaitReady_loop.induct)
  case (1 P waited s)
  obtain r t where r: "epcsTransfer P 0xFF s = (r, t)" by (cases "epcsTransfer P 0xFF s")
  have t: "world_only s t" using world_only_bridge(6) [of s P "0xFF"] r by simp
  then show ?case
    using 1 [OF _ r [symmetric] refl] r
    unfolding epcsWaitReady_loop.simps [of P waited s]
    by (auto split: option.splits intro: world_only_trans)
qed

lemma world_only_cycle [simp]:
  "world_only s (snd (epcsWriteEnable P s))"
  "world_only s (snd (epcsWaitReady P s))"
  "world_only s (snd (epcsSendCommand P n s))"
  unfolding epcsWriteEnable_def epcsWaitReady_def epcsSendCommand_def
  by (auto intro!: world_only_all_ok world_only_wait_loop simp del: all_ok.simps)

lemma world_only_read_loop: "world_only s (snd (epcsRead_loop P n s))"
proof (induction n arbitrary: s)
  case (Suc n)
  obtain r t where r: "epcsTransfer P 0xFF s = (r, t)" by (cases "epcsTransfer P 0xFF s")
  have t: "world_only s t" using world_only_bridge(6) [of s P "0xFF"] r by simp
  then show ?case
    using r Suc [of t] by (auto split: option.splits prod.splits intro: world_only_trans)
qed simp

text \<open>
  Every operation of the driver has this shape: it unlocks, sets up the command buffer, talks
  to the part, and locks.
\<close>

lemma epcs_only_session:
  assumes "epcsUnlock P s = (ok, t)" and "epcs_only t u" and "world_only u v"
  shows "epcs_only s (epcsLock P v)" and "epcs_only s t"
proof -
  have "world_only s t" using world_only_bridge(1) [of s P] assms(1) by simp
  then show t: "epcs_only s t" by (rule epcs_only_world)
  note t
  also note assms(2)
  also have "epcs_only u v" using assms(3) by (rule epcs_only_world)
  also have "epcs_only v (epcsLock P v)" by (simp add: epcs_only_world)
  finally show "epcs_only s (epcsLock P v)" .
qed

lemma world_only_steps:
  assumes "\<And>f s. f \<in> set fs \<Longrightarrow> world_only s (snd (f s))" and "all_ok fs u = (ok, v)"
  shows "world_only u v"
  using world_only_all_ok [of fs u] assms by simp

lemma epcs_only_erase: "epcs_only s (snd (epcsFlashEraseSector P a s))"
proof -
  obtain ok t where u: "epcsUnlock P s = (ok, t)" by (cases "epcsUnlock P s")
  let ?u = "epcsCommand UPDATE_EPCS_ERASE_SECTOR (updateEpcsSectorBase a) t"
  let ?steps = "[epcsWriteEnable P, epcsAssert P, epcsSendCommand P 4, epcsRelease P, epcsWaitReady P]"
  obtain ok' v where v: "all_ok ?steps ?u = (ok', v)" by (cases "all_ok ?steps ?u")
  have c: "epcs_only t ?u" by (simp add: epcsCommand_def)
  have w: "world_only ?u v" using v by (rule world_only_steps [rotated]) auto
  show ?thesis
    using epcs_only_session [OF u c w]
    unfolding epcsFlashEraseSector_def Let_def u prod.case v by simp
qed

lemma epcs_only_program: "epcs_only s (snd (epcsFlashProgramPage P a data s))"
proof -
  obtain ok t where u: "epcsUnlock P s = (ok, t)" by (cases "epcsUnlock P s")
  let ?c = "epcsCommand UPDATE_EPCS_PAGE_PROGRAM a t"
  let ?u = "?c\<lparr>glEpcsCommand := blit (glEpcsCommand ?c) 4 data\<rparr>"
  let ?steps = "[epcsWriteEnable P, epcsAssert P, epcsSendCommand P (4 + length data),
    epcsRelease P, epcsWaitReady P]"
  obtain ok' v where v: "all_ok ?steps ?u = (ok', v)" by (cases "all_ok ?steps ?u")
  have c: "epcs_only t ?u" by (simp add: epcsCommand_def)
  have w: "world_only ?u v" using v by (rule world_only_steps [rotated]) auto
  show ?thesis
    using epcs_only_session [OF u c w]
    unfolding epcsFlashProgramPage_def Let_def u prod.case v by simp
qed

lemma epcs_only_read: "epcs_only s (snd (epcsFlashRead P a n s))"
proof -
  obtain ok t where u: "epcsUnlock P s = (ok, t)" by (cases "epcsUnlock P s")
  let ?u = "epcsCommand UPDATE_EPCS_READ_BYTES a t"
  let ?steps = "[epcsAssert P, epcsSendCommand P 4]"
  obtain ok' v where v: "all_ok ?steps ?u = (ok', v)" by (cases "all_ok ?steps ?u")
  obtain r x where x: "epcsRead_loop P n v = (r, x)" by (cases "epcsRead_loop P n v")
  have c: "epcs_only t ?u" by (simp add: epcsCommand_def)
  have w: "world_only ?u v" using v by (rule world_only_steps [rotated]) auto
  moreover have "world_only v x" using world_only_read_loop [of v P n] x by simp
  ultimately have "world_only ?u x" by (rule world_only_trans)
  note s = epcs_only_session [OF u c this] epcs_only_session(1) [OF u c w]
  show ?thesis
    using s unfolding epcsFlashRead_def Let_def u prod.case v x by simp
qed

lemma epcs_only_identify: "epcs_only s (snd (snd (epcsFlashIdentify P s)))"
proof -
  obtain ok t where u: "epcsUnlock P s = (ok, t)" by (cases "epcsUnlock P s")
  obtain ok1 a where a: "epcsAssert P t = (ok1, a)" by (cases "epcsAssert P t")
  let ?u = "a\<lparr>glEpcsCommand := (glEpcsCommand a)
    [0 := UPDATE_EPCS_READ_SILICON_ID, 1 := 0, 2 := 0, 3 := 0]\<rparr>"
  obtain ok2 v where v: "epcsSendCommand P (1 + UPDATE_EPCS_ID_DUMMY_BYTES) ?u = (ok2, v)"
    by (cases "epcsSendCommand P (1 + UPDATE_EPCS_ID_DUMMY_BYTES) ?u")
  obtain r x where x: "epcsTransfer P 0xFF v = (r, x)" by (cases "epcsTransfer P 0xFF v")
  have ta: "world_only t a" using world_only_bridge(3) [of t P] a by simp
  then have c: "epcs_only t ?u" by (rule epcs_only_trans [OF epcs_only_world]) simp
  have w: "world_only ?u v"
    using world_only_cycle(3) [of ?u P "1 + UPDATE_EPCS_ID_DUMMY_BYTES"] unfolding v by simp
  have "world_only v x" using world_only_bridge(6) [of v P "0xFF"] x by simp
  with w have "world_only ?u x" by (rule world_only_trans)
  note s = epcs_only_session [OF u c this] epcs_only_session(1) [OF u c w]
    epcs_only_session(1) [OF u epcs_only_refl ta]
  show ?thesis
    using s unfolding epcsFlashIdentify_def Let_def u a prod.case v x
    by (simp split: option.split)
qed

lemma no_bridge_no_operation:
  assumes "\<not> fpgaRegistersHasFlashBridge s"
  shows "epcsFlashEraseSector P a s = (False, s)" and "epcsFlashProgramPage P a data s = (False, s)"
    and "epcsFlashRead P a n s = (None, s)" and "epcsFlashIdentify P s = (False, 0, s)"
    and "epcsFlashReconfigureFpga P s = (False, s)"
  using assms by (simp_all add: epcsFlashEraseSector_def epcsFlashProgramPage_def
      epcsFlashRead_def epcsFlashIdentify_def epcsFlashReconfigureFpga_def epcsUnlock_def)

text \<open>
  The cells after an erase and after a program. A page program can only clear bits, and the
  driver's spans keep it inside one page, so the chip's wrap-around never shows.
\<close>

definition erased_cells :: "nat \<Rightarrow> memory \<Rightarrow> memory" where
  "erased_cells a m =
     (\<lambda>i. if a - a mod 65536 \<le> i \<and> i < a - a mod 65536 + 65536 then 0xFF else m i)"

definition programmed_cells :: "nat \<Rightarrow> byte list \<Rightarrow> memory \<Rightarrow> memory" where
  "programmed_cells a data m =
     (\<lambda>i. if a \<le> i \<and> i < a + length data then m i AND data ! (i - a) else m i)"

lemma erased_outside: "i < a - a mod 65536 \<or> a - a mod 65536 + 65536 \<le> i \<Longrightarrow> erased_cells a m i = m i"
  by (auto simp: erased_cells_def)

lemma programmed_outside: "i < a \<or> a + length data \<le> i \<Longrightarrow> programmed_cells a data m i = m i"
  by (auto simp: programmed_cells_def)

lemma and_all_ones: "(0xFF :: byte) AND b = b"
proof -
  have "(0xFF :: byte) = -1" by simp
  then show ?thesis by (simp only: and.left_neutral)
qed

lemma program_erased:
  assumes "\<And>i. a \<le> i \<Longrightarrow> i < a + length data \<Longrightarrow> m i = 0xFF"
  shows "programmed_cells a data m = patch m a data"
  using assms by (auto simp: fun_eq_iff programmed_cells_def patch_def and_all_ones)

end
