(* ===== verification/BootBlock.thy ===== *)
theory BootBlock
  imports UpdateProtocol
begin

text \<open>
  The CRC-32 of \<^verbatim>\<open>update-protocol.c\<close>, the boot block it protects, and the reader of both:
  the boot decision the factory gateware makes at every power-on
  (\<^verbatim>\<open>fpga/factory/bootLoader.v\<close>, \<^verbatim>\<open>fpga/factory/crc32.v\<close>). The lemmas show that the checksum is
  linear and injective, that damage confined to four consecutive bytes always changes it, and
  that the reader accepts exactly the blocks the firmware writes for images inside the device.
\<close>

abbreviation UPDATE_BOOT_BLOCK_LENGTH :: nat where "UPDATE_BOOT_BLOCK_LENGTH \<equiv> 24"
abbreviation UPDATE_BOOT_BLOCK_HEADER_LENGTH :: nat where "UPDATE_BOOT_BLOCK_HEADER_LENGTH \<equiv> 20"
abbreviation UPDATE_BOOT_BLOCK_LAYOUT_VERSION :: u16 where "UPDATE_BOOT_BLOCK_LAYOUT_VERSION \<equiv> 1"
abbreviation UPDATE_BOOT_BLOCK_MAGIC_0 :: byte where "UPDATE_BOOT_BLOCK_MAGIC_0 \<equiv> 0x44"
abbreviation UPDATE_BOOT_BLOCK_MAGIC_1 :: byte where "UPDATE_BOOT_BLOCK_MAGIC_1 \<equiv> 0x44"
abbreviation UPDATE_BOOT_BLOCK_MAGIC_2 :: byte where "UPDATE_BOOT_BLOCK_MAGIC_2 \<equiv> 0x42"
abbreviation UPDATE_BOOT_BLOCK_MAGIC_3 :: byte where "UPDATE_BOOT_BLOCK_MAGIC_3 \<equiv> 0x42"
abbreviation UPDATE_CRC32_INITIAL :: u32 where "UPDATE_CRC32_INITIAL \<equiv> 0xFFFFFFFF"

subsection \<open>The checksum\<close>

definition crc32_bit :: "u32 \<Rightarrow> u32" where
  "crc32_bit crc =
     (if crc AND 1 \<noteq> 0 then drop_bit 1 crc XOR 0xEDB88320 else drop_bit 1 crc)"

definition crc32_byte :: "u32 \<Rightarrow> byte \<Rightarrow> u32" where
  "crc32_byte crc b = (crc32_bit ^^ 8) (crc XOR ucast b)"

definition updateCrc32Update :: "u32 \<Rightarrow> byte list \<Rightarrow> u32" where
  "updateCrc32Update crc data = foldl crc32_byte crc data"

definition updateCrc32Final :: "u32 \<Rightarrow> u32" where
  "updateCrc32Final crc = crc XOR 0xFFFFFFFF"

definition updateBootBlockEncode :: "byte list \<Rightarrow> u32 \<Rightarrow> u32 \<Rightarrow> u32 \<Rightarrow> byte list" where
  "updateBootBlockEncode out address len imageCrc =
     (let out = out[0 := UPDATE_BOOT_BLOCK_MAGIC_0, 1 := UPDATE_BOOT_BLOCK_MAGIC_1,
                    2 := UPDATE_BOOT_BLOCK_MAGIC_2, 3 := UPDATE_BOOT_BLOCK_MAGIC_3];
          out = updateWriteLittleEndian16 out 4 UPDATE_BOOT_BLOCK_LAYOUT_VERSION;
          out = updateWriteLittleEndian16 out 6 0;
          out = updateWriteLittleEndian32 out 8 address;
          out = updateWriteLittleEndian32 out 12 len;
          out = updateWriteLittleEndian32 out 16 imageCrc;
          headerCrc = updateCrc32Final
            (updateCrc32Update UPDATE_CRC32_INITIAL (take UPDATE_BOOT_BLOCK_HEADER_LENGTH out))
      in updateWriteLittleEndian32 out UPDATE_BOOT_BLOCK_HEADER_LENGTH headerCrc)"

definition crc32 :: "byte list \<Rightarrow> u32" where
  "crc32 data = updateCrc32Final (updateCrc32Update UPDATE_CRC32_INITIAL data)"

subsection \<open>The reader: the factory image's boot decision\<close>

record boot_header =
  bh_magic :: "byte list"
  bh_version :: u16
  bh_address :: u32
  bh_length :: u32
  bh_imageCrc :: u32
  bh_headerCrc :: u32

definition read_boot_header :: "byte list \<Rightarrow> boot_header" where
  "read_boot_header blk =
     \<lparr>bh_magic = take 4 blk,
      bh_version = ucast (blk ! 4) OR push_bit 8 (ucast (blk ! 5)),
      bh_address = updateReadLittleEndian32 blk 8,
      bh_length = updateReadLittleEndian32 blk 12,
      bh_imageCrc = updateReadLittleEndian32 blk 16,
      bh_headerCrc = updateReadLittleEndian32 blk 20\<rparr>"

definition header_valid :: "byte list \<Rightarrow> bool" where
  "header_valid blk =
     (let h = read_boot_header blk
      in bh_magic h = [0x44, 0x44, 0x42, 0x42]
         \<and> bh_version h = 1
         \<and> bh_length h \<noteq> 0
         \<and> drop_bit 23 (bh_address h) = 0
         \<and> bh_address h + bh_length h \<le> 0x00800000
         \<and> bh_headerCrc h = crc32 (take 20 blk))"

text \<open>
  A read command carries 24 bits of address; the flash goes on from there for as long as it is
  clocked, its address counter of 24 bits rolling over.
\<close>

definition flash_stream :: "memory \<Rightarrow> u32 \<Rightarrow> nat \<Rightarrow> byte list" where
  "flash_stream flash address n = map (\<lambda>i. flash ((unat (take_bit 24 address) + i) mod 2 ^ 24)) [0..<n]"

definition boot_enters_application :: "memory \<Rightarrow> bool" where
  "boot_enters_application flash =
     (let blk = flash_stream flash 0x100000 24; h = read_boot_header blk
      in header_valid blk
         \<and> bh_imageCrc h = crc32 (flash_stream flash (bh_address h) (unat (bh_length h))))"

lemma flash_stream_slice:
  assumes "unat address + n \<le> 2 ^ 24" and "0 < n"
  shows "flash_stream flash address n = slice flash (unat address) n"
proof -
  have "unat (take_bit 24 address) = unat address"
    using assms by (simp add: unsigned_take_bit_eq take_bit_nat_eq_self)
  then show ?thesis using assms by (intro nth_equalityI) (simp_all add: flash_stream_def)
qed

subsection \<open>Linearity and injectivity\<close>

lemma xor_eq_0_word: "x XOR y = 0 \<longleftrightarrow> x = (y :: u32)"
  by (simp add: bit_eq_iff bit_xor_iff)

lemma xor_cancel_word: "c XOR x = c XOR y \<longleftrightarrow> x = (y :: u32)"
  by (auto simp: bit_eq_iff bit_xor_iff)

lemma xor_common_word: "(c XOR z) XOR (d XOR z) = c XOR (d :: u32)"
  by (auto simp: bit_eq_iff bit_xor_iff)

lemma and_1_iff: "(x AND 1 \<noteq> 0) \<longleftrightarrow> bit (x :: u32) 0"
  by (simp add: and_one_eq mod_2_eq_odd bit_0)

lemma crc32_bit_alt: "crc32_bit x = drop_bit 1 x XOR (if bit x 0 then 0xEDB88320 else 0)"
  by (simp only: crc32_bit_def and_1_iff) simp

lemma drop_bit_xor_word: "drop_bit n (x XOR y :: u32) = drop_bit n x XOR drop_bit n y"
  by (rule bit_word_eqI) (simp add: bit_drop_bit_eq bit_xor_iff)

lemma crc32_bit_xor: "crc32_bit (x XOR y) = crc32_bit x XOR crc32_bit y"
  by (cases "bit x 0"; cases "bit y 0")
    (simp_all add: crc32_bit_alt drop_bit_xor_word bit_xor_iff xor.assoc xor.commute xor.left_commute)

lemma crc32_bit_0 [simp]: "crc32_bit 0 = 0"
  by (simp add: crc32_bit_alt)

lemma crc32_bit_eq_0: "crc32_bit x = 0 \<Longrightarrow> x = 0"
proof -
  assume z: "crc32_bit x = 0"
  have poly: "bit (0xEDB88320 :: u32) 31" by simp
  have "\<not> bit (drop_bit 1 x) 31"
    using bit_imp_le_length [of x 32] by (auto simp: bit_drop_bit_eq)
  then have "bit (crc32_bit x) 31 = bit x 0"
    using poly by (simp add: crc32_bit_alt bit_xor_iff)
  then have low: "\<not> bit x 0" using z by simp
  then have half: "drop_bit 1 x = 0" using z by (simp add: crc32_bit_alt)
  show "x = 0"
  proof (rule bit_word_eqI)
    fix n
    show "bit x n = bit 0 n"
    proof (cases n)
      case 0
      then show ?thesis using low by simp
    next
      case (Suc m)
      have "bit (drop_bit 1 x) m = bit x n" using Suc by (simp add: bit_drop_bit_eq)
      then show ?thesis using half by simp
    qed
  qed
qed

lemma crc32_steps_xor: "(crc32_bit ^^ n) (x XOR y) = (crc32_bit ^^ n) x XOR (crc32_bit ^^ n) y"
  by (induction n) (simp_all add: crc32_bit_xor)

lemma crc32_steps_0 [simp]: "(crc32_bit ^^ n) 0 = 0"
  by (induction n) simp_all

lemma crc32_steps_eq_0: "(crc32_bit ^^ n) x = 0 \<Longrightarrow> x = 0"
  by (induction n) (auto dest: crc32_bit_eq_0)

lemma crc32_bit_push:
  assumes "\<And>i. bit x i \<Longrightarrow> i + Suc n < 32"
  shows "crc32_bit (push_bit (Suc n) x) = push_bit n x"
proof -
  have "\<not> bit (push_bit (Suc n) x) 0" by (simp only: bit_push_bit_iff) simp
  moreover have "drop_bit 1 (push_bit (Suc n) x) = push_bit n x"
  proof (rule bit_word_eqI)
    fix i :: nat
    assume "i < LENGTH(32)"
    then show "bit (drop_bit 1 (push_bit (Suc n) x)) i = bit (push_bit n x) i"
      using assms [of "i - n"]
      by (simp only: bit_drop_bit_eq bit_push_bit_iff o_def) auto
  qed
  ultimately show ?thesis by (simp add: crc32_bit_alt del: push_bit_Suc)
qed

lemma crc32_steps_push:
  "(\<And>i. bit x i \<Longrightarrow> i + n < 32) \<Longrightarrow> (crc32_bit ^^ n) (push_bit n x) = x"
proof (induction n)
  case (Suc n)
  have "(crc32_bit ^^ Suc n) (push_bit (Suc n) x) = (crc32_bit ^^ n) (crc32_bit (push_bit (Suc n) x))"
    by (simp only: funpow_Suc_right o_apply)
  also have "\<dots> = (crc32_bit ^^ n) (push_bit n x)"
    using Suc.prems by (simp only: crc32_bit_push)
  also have "\<dots> = x" using Suc.prems by (intro Suc.IH) (metis Suc_lessD add_Suc_right)
  finally show ?case .
qed simp

lemma updateCrc32Update_append:
  "updateCrc32Update c (xs @ ys) = updateCrc32Update (updateCrc32Update c xs) ys"
  by (simp add: updateCrc32Update_def)

lemma updateCrc32Update_Cons:
  "updateCrc32Update c (x # xs) = updateCrc32Update (crc32_byte c x) xs"
  by (simp add: updateCrc32Update_def)

lemma updateCrc32Update_Nil [simp]: "updateCrc32Update c [] = c"
  by (simp add: updateCrc32Update_def)

text \<open>
  Two messages of one length differ, after the same tail, by the pure shift of the
  difference they had before it.
\<close>

lemma crc32_tail_xor:
  "updateCrc32Update c zs XOR updateCrc32Update d zs = (crc32_bit ^^ (8 * length zs)) (c XOR d)"
proof (induction zs arbitrary: c d)
  case (Cons z zs)
  have "crc32_byte c z XOR crc32_byte d z = (crc32_bit ^^ 8) ((c XOR ucast z) XOR (d XOR ucast z))"
    by (simp only: crc32_byte_def crc32_steps_xor)
  also have "\<dots> = (crc32_bit ^^ 8) (c XOR d)" by (simp only: xor_common_word)
  finally have first: "crc32_byte c z XOR crc32_byte d z = (crc32_bit ^^ 8) (c XOR d)" .
  have "updateCrc32Update c (z # zs) XOR updateCrc32Update d (z # zs)
      = (crc32_bit ^^ (8 * length zs)) ((crc32_bit ^^ 8) (c XOR d))"
    by (simp only: updateCrc32Update_Cons Cons.IH first)
  also have "\<dots> = (crc32_bit ^^ (8 * length zs + 8)) (c XOR d)"
    by (simp only: funpow_add o_apply)
  also have "8 * length zs + 8 = 8 * length (z # zs)" by simp
  finally show ?case .
qed simp

lemma crc32_tail_injective: "updateCrc32Update c zs = updateCrc32Update d zs \<longleftrightarrow> c = d"
proof
  assume "updateCrc32Update c zs = updateCrc32Update d zs"
  then have "(crc32_bit ^^ (8 * length zs)) (c XOR d) = 0"
    using crc32_tail_xor [of c zs d] by simp
  then have "c XOR d = 0" by (rule crc32_steps_eq_0)
  then show "c = d" by (simp only: xor_eq_0_word)
qed simp

subsection \<open>Damage within four consecutive bytes is always seen\<close>

fun pack :: "byte list \<Rightarrow> u32" where
  "pack [] = 0"
| "pack (x # xs) = ucast x XOR push_bit 8 (pack xs)"

lemma pack_bits: "bit (pack xs) i \<Longrightarrow> i < 8 * length xs"
proof (induction xs arbitrary: i)
  case (Cons x xs)
  show ?case
  proof (cases "i < 8")
    case False
    then have "bit (pack xs) (i - 8)"
      using Cons.prems byte_bit_less [of x i] by (auto simp: bit_xor_iff bit_push_bit_iff bit_ucast_iff)
    then have "i - 8 < 8 * length xs" by (rule Cons.IH)
    then show ?thesis by simp
  qed simp
qed simp

lemma updateCrc32Update_pack:
  "length xs \<le> 4 \<Longrightarrow> updateCrc32Update c xs = (crc32_bit ^^ (8 * length xs)) (c XOR pack xs)"
proof (induction xs arbitrary: c)
  case (Cons x xs)
  have "i + 8 < 32" if "bit (pack xs) i" for i
    using pack_bits [OF that] Cons.prems by simp
  then have pk: "(crc32_bit ^^ 8) (push_bit 8 (pack xs)) = pack xs" by (rule crc32_steps_push)
  have "(crc32_bit ^^ 8) (c XOR pack (x # xs))
      = (crc32_bit ^^ 8) ((c XOR ucast x) XOR push_bit 8 (pack xs))"
    by (simp only: pack.simps xor.assoc)
  also have "\<dots> = (crc32_bit ^^ 8) (c XOR ucast x) XOR pack xs"
    by (simp only: crc32_steps_xor pk)
  finally have "(crc32_bit ^^ 8) (c XOR ucast x) XOR pack xs = (crc32_bit ^^ 8) (c XOR pack (x # xs))"
    by (rule sym)
  moreover have "updateCrc32Update c (x # xs)
      = (crc32_bit ^^ (8 * length xs)) ((crc32_bit ^^ 8) (c XOR ucast x) XOR pack xs)"
    using Cons.prems by (simp add: updateCrc32Update_Cons Cons.IH crc32_byte_def)
  ultimately have "updateCrc32Update c (x # xs)
      = (crc32_bit ^^ (8 * length xs)) ((crc32_bit ^^ 8) (c XOR pack (x # xs)))"
    by (simp only:)
  also have "\<dots> = (crc32_bit ^^ (8 * length xs + 8)) (c XOR pack (x # xs))"
    by (simp only: funpow_add o_apply)
  also have "8 * length xs + 8 = 8 * length (x # xs)" by simp
  finally show ?case .
qed simp

lemma pack_inject:
  "\<lbrakk>length xs = length ys; length xs \<le> 4; pack xs = pack ys\<rbrakk> \<Longrightarrow> xs = ys"
proof (induction xs ys rule: list_induct2)
  case (Cons x xs y ys)
  have bits: "bit (ucast x XOR push_bit 8 (pack xs) :: u32) i
              = bit (ucast y XOR push_bit 8 (pack ys) :: u32) i" for i
    using Cons.prems by simp
  have "x = y"
  proof (rule bit_word_eqI)
    fix i :: nat
    assume "i < LENGTH(8)"
    then show "bit x i = bit y i"
      using bits [of i] by (simp add: bit_xor_iff bit_push_bit_iff bit_ucast_iff)
  qed
  moreover have "pack xs = pack ys"
  proof (rule bit_word_eqI)
    fix i :: nat
    assume "i < LENGTH(32)"
    show "bit (pack xs) i = bit (pack ys) i"
    proof (cases "i < 24")
      case True
      then show ?thesis
        using bits [of "i + 8"] byte_bit_less [of x "i + 8"] byte_bit_less [of y "i + 8"]
        by (auto simp: bit_xor_iff bit_push_bit_iff bit_ucast_iff)
    next
      case False
      then show ?thesis using pack_bits [of xs i] pack_bits [of ys i] Cons by auto
    qed
  qed
  ultimately show ?case using Cons by simp
qed simp

lemma crc32_steps_inject: "(crc32_bit ^^ n) x = (crc32_bit ^^ n) y \<longleftrightarrow> x = y"
proof
  assume "(crc32_bit ^^ n) x = (crc32_bit ^^ n) y"
  then have "(crc32_bit ^^ n) (x XOR y) = 0" by (simp only: crc32_steps_xor xor_self_eq)
  then have "x XOR y = 0" by (rule crc32_steps_eq_0)
  then show "x = y" by (simp only: xor_eq_0_word)
qed simp

lemma crc32_register_burst:
  assumes "length d = length e" and "length d \<le> 4" and "d \<noteq> e"
  shows "updateCrc32Update c (xs @ d @ ys) \<noteq> updateCrc32Update c (xs @ e @ ys)"
proof -
  let ?c = "updateCrc32Update c xs"
  have "pack d \<noteq> pack e" using assms pack_inject by blast
  then have "?c XOR pack d \<noteq> ?c XOR pack e"
    by (simp only: xor_cancel_word not_False_eq_True)
  then have "updateCrc32Update ?c d \<noteq> updateCrc32Update ?c e"
    using assms(1,2) by (simp only: updateCrc32Update_pack crc32_steps_inject) simp
  then show ?thesis by (simp add: updateCrc32Update_append crc32_tail_injective)
qed

text \<open>
  The header checksum covers the first twenty bytes and is stored after them, so a header is
  intact exactly when the register has one fixed value after all twenty-four: the CRC residue.
\<close>

lemma updateCrc32Update_4:
  "updateCrc32Update c [b0, b1, b2, b3] = (crc32_bit ^^ 32) (c XOR pack [b0, b1, b2, b3])"
  using updateCrc32Update_pack [of "[b0, b1, b2, b3]" c] by simp

lemma pack_le32: "pack [b0, b1, b2, b3] = le32_of b0 b1 b2 b3"
proof (rule bit_word_eqI)
  fix n :: nat
  assume "n < LENGTH(32)"
  then have "n < 8 \<or> 8 \<le> n \<and> n < 16 \<or> 16 \<le> n \<and> n < 24 \<or> 24 \<le> n \<and> n < 32"
    by auto
  then show "bit (pack [b0, b1, b2, b3]) n = bit (le32_of b0 b1 b2 b3) n"
    using byte_bit_less [of b0 n] byte_bit_less [of b1 "n - 8"] byte_bit_less [of b2 "n - 16"]
      byte_bit_less [of b2 "n - 8 - 8"] byte_bit_less [of b3 "n - 24"]
    by (elim disjE)
      (auto simp add: le32_of_def bit_or_iff bit_xor_iff bit_push_bit_iff bit_ucast_iff)
qed

definition crc32_residue :: u32 where
  "crc32_residue = (crc32_bit ^^ 32) 0xFFFFFFFF"

lemma crc32_residue_iff:
  "le32_of b0 b1 b2 b3 = updateCrc32Final c
   \<longleftrightarrow> updateCrc32Update c [b0, b1, b2, b3] = crc32_residue"
proof -
  have "le32_of b0 b1 b2 b3 = updateCrc32Final c \<longleftrightarrow> c XOR le32_of b0 b1 b2 b3 = 0xFFFFFFFF"
    unfolding updateCrc32Final_def bit_eq_iff bit_xor_iff by auto
  then show ?thesis
    by (simp only: updateCrc32Update_4 pack_le32 crc32_residue_def crc32_steps_inject)
qed

lemma header_crc_iff:
  assumes "length blk = 24"
  shows "updateReadLittleEndian32 blk 20 = crc32 (take 20 blk)
         \<longleftrightarrow> updateCrc32Update UPDATE_CRC32_INITIAL blk = crc32_residue"
proof -
  have "drop 20 blk = [blk ! 20, blk ! 21, blk ! 22, blk ! 23]"
    using assms by (intro nth_equalityI) (auto simp: less_Suc_eq numeral_eq_Suc)
  then have split: "blk = take 20 blk @ [blk ! 20, blk ! 21, blk ! 22, blk ! 23]"
    by (metis append_take_drop_id)
  have "updateCrc32Update UPDATE_CRC32_INITIAL blk
      = updateCrc32Update (updateCrc32Update UPDATE_CRC32_INITIAL (take 20 blk))
          [blk ! 20, blk ! 21, blk ! 22, blk ! 23]"
    by (subst split) (simp only: updateCrc32Update_append)
  then show ?thesis
    by (simp add: updateReadLittleEndian32_def crc32_def crc32_residue_iff)
qed

lemma header_burst_rejected:
  assumes "length (xs @ d @ ys) = 24" and "length d \<le> 4" and "length e = length d" and "d \<noteq> e"
    and "header_valid (xs @ d @ ys)"
  shows "\<not> header_valid (xs @ e @ ys)"
proof
  assume v: "header_valid (xs @ e @ ys)"
  have "updateCrc32Update UPDATE_CRC32_INITIAL (xs @ d @ ys)
      = updateCrc32Update UPDATE_CRC32_INITIAL (xs @ e @ ys)"
    using header_crc_iff [of "xs @ d @ ys"] header_crc_iff [of "xs @ e @ ys"] assms v
    by (simp add: header_valid_def read_boot_header_def)
  then show False
    using crc32_register_burst [of d e UPDATE_CRC32_INITIAL xs ys] assms by simp
qed

subsection \<open>What the firmware writes is what the factory image reads\<close>

lemma boot_block_layout:
  assumes "24 \<le> length out"
  shows "updateBootBlockEncode out address len imageCrc =
    (let body = [0x44, 0x44, 0x42, 0x42] @ bytes_le16 1 @ bytes_le16 0 @ bytes_le32 address
                @ bytes_le32 len @ bytes_le32 imageCrc
     in body @ bytes_le32 (crc32 body) @ drop 24 out)"
proof -
  let ?m = "[0x44, 0x44, 0x42, 0x42] :: byte list"
  let ?h6 = "?m @ bytes_le16 1"
  let ?h8 = "?h6 @ bytes_le16 0"
  let ?h12 = "?h8 @ bytes_le32 address"
  let ?h16 = "?h12 @ bytes_le32 len"
  let ?h20 = "?h16 @ bytes_le32 imageCrc"
  obtain a b c d rest where out: "out = a # b # c # d # rest" and rest: "20 \<le> length rest"
    using assms by (auto simp: Suc_le_length_iff eval_nat_numeral)
  have "out[0 := 0x44, 1 := 0x44, 2 := 0x42, 3 := 0x42] = ?m @ drop 4 out"
    by (simp add: out eval_nat_numeral)
  moreover have "updateWriteLittleEndian16 (?m @ drop 4 out) 4 1 = ?h6 @ drop 6 out"
    using assms by (subst updateWriteLittleEndian16_at) simp_all
  moreover have "updateWriteLittleEndian16 (?h6 @ drop 6 out) 6 0 = ?h8 @ drop 8 out"
    using assms by (subst updateWriteLittleEndian16_at) simp_all
  moreover have "updateWriteLittleEndian32 (?h8 @ drop 8 out) 8 address = ?h12 @ drop 12 out"
    using assms by (subst updateWriteLittleEndian32_at) simp_all
  moreover have "updateWriteLittleEndian32 (?h12 @ drop 12 out) 12 len = ?h16 @ drop 16 out"
    using assms by (subst updateWriteLittleEndian32_at) simp_all
  moreover have "updateWriteLittleEndian32 (?h16 @ drop 16 out) 16 imageCrc = ?h20 @ drop 20 out"
    using assms by (subst updateWriteLittleEndian32_at) simp_all
  moreover have "updateWriteLittleEndian32 (?h20 @ drop 20 out) 20 v
      = ?h20 @ bytes_le32 v @ drop 24 out" for v
    using assms by (subst updateWriteLittleEndian32_at) simp_all
  moreover have "take 20 (?h20 @ drop 20 out) = ?h20" by simp
  ultimately show ?thesis by (simp add: updateBootBlockEncode_def Let_def crc32_def)
qed

lemma read_encoded_header:
  assumes "24 \<le> length out"
  shows "read_boot_header (take 24 (updateBootBlockEncode out address len imageCrc)) =
    \<lparr>bh_magic = [0x44, 0x44, 0x42, 0x42], bh_version = 1, bh_address = address, bh_length = len,
     bh_imageCrc = imageCrc,
     bh_headerCrc = crc32 (take 20 (updateBootBlockEncode out address len imageCrc))\<rparr>"
proof -
  let ?p = "[0x44, 0x44, 0x42, 0x42] @ bytes_le16 1 @ bytes_le16 0 :: byte list"
  let ?body = "?p @ bytes_le32 address @ bytes_le32 len @ bytes_le32 imageCrc"
  have enc: "updateBootBlockEncode out address len imageCrc
      = ?body @ bytes_le32 (crc32 ?body) @ drop 24 out"
    using boot_block_layout [OF assms] by (simp add: Let_def)
  then have t24: "take 24 (updateBootBlockEncode out address len imageCrc)
      = ?body @ bytes_le32 (crc32 ?body)"
    and t20: "take 20 (updateBootBlockEncode out address len imageCrc) = ?body"
    by simp_all
  have "updateReadLittleEndian32 (?body @ bytes_le32 (crc32 ?body)) 8 = address"
    using updateReadLittleEndian32_at [of ?p 8 address
        "bytes_le32 len @ bytes_le32 imageCrc @ bytes_le32 (crc32 ?body)"] by simp
  moreover have "updateReadLittleEndian32 (?body @ bytes_le32 (crc32 ?body)) 12 = len"
    using updateReadLittleEndian32_at [of "?p @ bytes_le32 address" 12 len
        "bytes_le32 imageCrc @ bytes_le32 (crc32 ?body)"] by simp
  moreover have "updateReadLittleEndian32 (?body @ bytes_le32 (crc32 ?body)) 16 = imageCrc"
    using updateReadLittleEndian32_at [of "?p @ bytes_le32 address @ bytes_le32 len" 16 imageCrc
        "bytes_le32 (crc32 ?body)"] by simp
  moreover have "updateReadLittleEndian32 (?body @ bytes_le32 (crc32 ?body)) 20 = crc32 ?body"
    using updateReadLittleEndian32_at [of ?body 20 "crc32 ?body" "[]"] by simp
  ultimately show ?thesis
    unfolding read_boot_header_def t24 t20 by (simp add: bytes_le16_def)
qed

lemma encoded_header_valid_iff:
  assumes "24 \<le> length out"
  shows "header_valid (take 24 (updateBootBlockEncode out address len imageCrc)) \<longleftrightarrow>
    len \<noteq> 0 \<and> drop_bit 23 address = 0 \<and> address + len \<le> 0x00800000"
  by (simp add: header_valid_def read_encoded_header [OF assms] Let_def min_def)

lemma application_address_ok: "drop_bit 23 UPDATE_EPCS_APPLICATION_ADDRESS = 0"
  by simp

text \<open>
  The bound of \<^verbatim>\<open>header_valid\<close> is on a sum of 32 bits: the largest length there is passes it, because
  the sum wraps.
\<close>

lemma boot_length_wraps:
  "header_valid (updateBootBlockEncode (replicate 24 0) UPDATE_EPCS_APPLICATION_ADDRESS 0xFFFFFFFF imageCrc)
   \<and> 0x800000 < unat (0xFFFFFFFF :: u32)"
  using encoded_header_valid_iff [of "replicate 24 0" UPDATE_EPCS_APPLICATION_ADDRESS "0xFFFFFFFF" imageCrc]
  by (simp add: boot_block_layout Let_def)

text \<open>
  A device whose medium holds the block the firmware builds, and the image that block
  describes, enters the application image at the next power-on.
\<close>

lemma boot_enters_iff:
  assumes "24 \<le> length out"
    and "slice flash 0x100000 24 = take 24 (updateBootBlockEncode out address len imageCrc)"
    and "unat address + unat len < 2 ^ 32"
  shows "boot_enters_application flash \<longleftrightarrow>
    len \<noteq> 0 \<and> unat address + unat len \<le> 0x800000
    \<and> imageCrc = crc32 (slice flash (unat address) (unat len))"
proof -
  have sum: "unat (address + len) = unat address + unat len"
    using assms(3) by (simp add: unat_plus_if' unat_word_ariths)
  have small: "drop_bit 23 address = 0 \<longleftrightarrow> unat address < 0x800000"
    by (simp add: word_unat_eq_iff drop_bit_eq_div unat_div word_less_nat_alt div_eq_0_iff)
  have fits: "len \<noteq> 0 \<and> drop_bit 23 address = 0 \<and> address + len \<le> 0x00800000 \<longleftrightarrow>
      len \<noteq> 0 \<and> unat address + unat len \<le> 0x800000"
    unfolding small word_le_nat_alt sum using unat_gt_0 [of len] by auto
  have read: "flash_stream flash 0x100000 24 = take 24 (updateBootBlockEncode out address len imageCrc)"
    using flash_stream_slice [of "0x100000" 24 flash] assms(2) by simp
  have img: "flash_stream flash address (unat len) = slice flash (unat address) (unat len)"
    if "len \<noteq> 0" "unat address + unat len \<le> 0x800000"
    using that by (intro flash_stream_slice) (simp_all add: unat_gt_0)
  show ?thesis
    unfolding boot_enters_application_def Let_def read encoded_header_valid_iff [OF assms(1)]
      read_encoded_header [OF assms(1)] boot_header.simps fits
    using img by auto
qed

end
