(* ===== verification/Sha256.thy ===== *)
theory Sha256
  imports Prelude
begin

text \<open>
  The streaming SHA-256 the firmware hashes images with
  (\<^verbatim>\<open>fx3/firmware/src/vendor/sha-256.c\<close>), and its refinement of the standard: a message is
  padded, cut into 64-byte blocks and compressed with the 64-word message schedule. The code
  keeps a sliding window of sixteen schedule words, works on the caller's data in place when
  it can, and pads in the chunk buffer; the lemmas show that none of this, nor how the
  message is cut into writes, is visible in the digest.
\<close>

abbreviation SIZE_OF_SHA_256_CHUNK :: nat where "SIZE_OF_SHA_256_CHUNK \<equiv> 64"
abbreviation TOTAL_LEN_LEN :: nat where "TOTAL_LEN_LEN \<equiv> 8"

subsection \<open>The compression function of the source\<close>

definition right_rot :: "u32 \<Rightarrow> nat \<Rightarrow> u32" where
  "right_rot v count = drop_bit count v OR push_bit (32 - count) v"

definition sha_k :: "u32 list" where
  "sha_k = concat
    [[0x428a2f98, 0x71374491, 0xb5c0fbcf, 0xe9b5dba5, 0x3956c25b, 0x59f111f1, 0x923f82a4],
     [0xab1c5ed5, 0xd807aa98, 0x12835b01, 0x243185be, 0x550c7dc3, 0x72be5d74, 0x80deb1fe],
     [0x9bdc06a7, 0xc19bf174, 0xe49b69c1, 0xefbe4786, 0x0fc19dc6, 0x240ca1cc, 0x2de92c6f],
     [0x4a7484aa, 0x5cb0a9dc, 0x76f988da, 0x983e5152, 0xa831c66d, 0xb00327c8, 0xbf597fc7],
     [0xc6e00bf3, 0xd5a79147, 0x06ca6351, 0x14292967, 0x27b70a85, 0x2e1b2138, 0x4d2c6dfc],
     [0x53380d13, 0x650a7354, 0x766a0abb, 0x81c2c92e, 0x92722c85, 0xa2bfe8a1, 0xa81a664b],
     [0xc24b8b70, 0xc76c51a3, 0xd192e819, 0xd6990624, 0xf40e3585, 0x106aa070, 0x19a4c116],
     [0x1e376c08, 0x2748774c, 0x34b0bcb5, 0x391c0cb3, 0x4ed8aa4a, 0x5b9cca4f, 0x682e6ff3],
     [0x748f82ee, 0x78a5636f, 0x84c87814, 0x8cc70208, 0x90befffa, 0xa4506ceb, 0xbef9a3f7],
     [0xc67178f2]]"

definition load_be32 :: "byte list \<Rightarrow> nat \<Rightarrow> u32" where
  "load_be32 p off =
     push_bit 24 (ucast (p ! off)) OR push_bit 16 (ucast (p ! (off + 1)))
     OR push_bit 8 (ucast (p ! (off + 2))) OR ucast (p ! (off + 3))"

definition sha_step :: "byte list \<Rightarrow> nat \<Rightarrow> nat \<Rightarrow> u32 list \<times> u32 list \<Rightarrow> u32 list \<times> u32 list" where
  "sha_step p i j = (\<lambda>(ah, w).
     let w = (if i = 0 then w[j := load_be32 p (4 * j)]
              else let s0 = right_rot (w ! ((j + 1) mod 16)) 7 XOR right_rot (w ! ((j + 1) mod 16)) 18
                            XOR drop_bit 3 (w ! ((j + 1) mod 16));
                       s1 = right_rot (w ! ((j + 14) mod 16)) 17
                            XOR right_rot (w ! ((j + 14) mod 16)) 19
                            XOR drop_bit 10 (w ! ((j + 14) mod 16))
                   in w[j := w ! j + s0 + w ! ((j + 9) mod 16) + s1]);
         s1 = right_rot (ah ! 4) 6 XOR right_rot (ah ! 4) 11 XOR right_rot (ah ! 4) 25;
         ch = (ah ! 4 AND ah ! 5) XOR (NOT (ah ! 4) AND ah ! 6);
         temp1 = ah ! 7 + s1 + ch + sha_k ! (16 * i + j) + w ! j;
         s0 = right_rot (ah ! 0) 2 XOR right_rot (ah ! 0) 13 XOR right_rot (ah ! 0) 22;
         maj = (ah ! 0 AND ah ! 1) XOR (ah ! 0 AND ah ! 2) XOR (ah ! 1 AND ah ! 2);
         temp2 = s0 + maj
     in ([temp1 + temp2, ah ! 0, ah ! 1, ah ! 2, ah ! 3 + temp1, ah ! 4, ah ! 5, ah ! 6], w))"

definition consume_chunk :: "u32 list \<Rightarrow> byte list \<Rightarrow> u32 list" where
  "consume_chunk h p =
     (let (ah, w) = fold (\<lambda>n. sha_step p (n div 16) (n mod 16)) [0..<64] (h, replicate 16 0)
      in map2 (+) h ah)"

subsection \<open>The stream\<close>

record Sha_256 =
  sh_chunk :: "byte list"
  sh_chunk_pos :: nat
  sh_space_left :: nat
  sh_total_len :: u64
  sh_h :: "u32 list"

definition sha_256_init :: "Sha_256 \<Rightarrow> Sha_256" where
  "sha_256_init s = s\<lparr>sh_chunk_pos := 0, sh_space_left := SIZE_OF_SHA_256_CHUNK, sh_total_len := 0,
     sh_h := [0x6a09e667, 0xbb67ae85, 0x3c6ef372, 0xa54ff53a,
              0x510e527f, 0x9b05688c, 0x1f83d9ab, 0x5be0cd19]\<rparr>"

function sha_256_write_loop :: "Sha_256 \<Rightarrow> byte list \<Rightarrow> Sha_256" where
  "sha_256_write_loop s data =
     (if data = [] then s
      else if sh_space_left s = SIZE_OF_SHA_256_CHUNK \<and> SIZE_OF_SHA_256_CHUNK \<le> length data
      then sha_256_write_loop
             (s\<lparr>sh_h := consume_chunk (sh_h s) (take SIZE_OF_SHA_256_CHUNK data)\<rparr>)
             (drop SIZE_OF_SHA_256_CHUNK data)
      else let n = (if length data < sh_space_left s then length data else sh_space_left s);
               s = s\<lparr>sh_chunk := blit (sh_chunk s) (sh_chunk_pos s) (take n data),
                     sh_space_left := sh_space_left s - n\<rparr>
           in sha_256_write_loop
                (if sh_space_left s = 0
                 then s\<lparr>sh_h := consume_chunk (sh_h s) (sh_chunk s), sh_chunk_pos := 0,
                        sh_space_left := SIZE_OF_SHA_256_CHUNK\<rparr>
                 else s\<lparr>sh_chunk_pos := sh_chunk_pos s + n\<rparr>)
                (drop n data))"
  by pat_completeness auto

termination
  by (relation "measures [\<lambda>(s, data). length data, \<lambda>(s, data). if sh_space_left s = 0 then 1 else 0]")
    auto

definition sha_256_write :: "Sha_256 \<Rightarrow> byte list \<Rightarrow> Sha_256" where
  "sha_256_write s data =
     sha_256_write_loop (s\<lparr>sh_total_len := sh_total_len s + of_nat (length data)\<rparr>) data"

definition sha_length_field :: "u64 \<Rightarrow> byte list" where
  "sha_length_field len =
     map (\<lambda>i. ucast (drop_bit (8 * (6 - i)) (drop_bit 5 len))) [0..<7] @ [ucast (push_bit 3 len)]"

definition sha_256_close :: "Sha_256 \<Rightarrow> byte list" where
  "sha_256_close s =
     (let chunk = blit (sh_chunk s) (sh_chunk_pos s) [0x80];
          pos = sh_chunk_pos s + 1;
          space_left = sh_space_left s - 1;
          h = sh_h s;
          (chunk, pos, space_left, h) =
            (if space_left < TOTAL_LEN_LEN
             then let chunk = blit chunk pos (replicate space_left 0)
                  in (chunk, 0, SIZE_OF_SHA_256_CHUNK, consume_chunk h chunk)
             else (chunk, pos, space_left, h));
          left = space_left - TOTAL_LEN_LEN;
          chunk = blit chunk pos (replicate left 0);
          pos = pos + left;
          chunk = blit chunk pos (sha_length_field (sh_total_len s));
          h = consume_chunk h chunk
      in concat (map (\<lambda>x. [ucast (drop_bit 24 x), ucast (drop_bit 16 x),
                           ucast (drop_bit 8 x), ucast x]) h))"

definition calc_sha_256 :: "byte list \<Rightarrow> byte list" where
  "calc_sha_256 input =
     sha_256_close (sha_256_write (sha_256_init
       \<lparr>sh_chunk = replicate 64 0, sh_chunk_pos = 0, sh_space_left = 0, sh_total_len = 0,
        sh_h = replicate 8 0\<rparr>) input)"

subsection \<open>The standard\<close>

definition small_sigma0 :: "u32 \<Rightarrow> u32" where
  "small_sigma0 x = right_rot x 7 XOR right_rot x 18 XOR drop_bit 3 x"

definition small_sigma1 :: "u32 \<Rightarrow> u32" where
  "small_sigma1 x = right_rot x 17 XOR right_rot x 19 XOR drop_bit 10 x"

definition big_sigma0 :: "u32 \<Rightarrow> u32" where
  "big_sigma0 x = right_rot x 2 XOR right_rot x 13 XOR right_rot x 22"

definition big_sigma1 :: "u32 \<Rightarrow> u32" where
  "big_sigma1 x = right_rot x 6 XOR right_rot x 11 XOR right_rot x 25"

fun schedule :: "byte list \<Rightarrow> nat \<Rightarrow> u32" where
  "schedule blk t =
     (if t < 16 then load_be32 blk (4 * t)
      else small_sigma1 (schedule blk (t - 2)) + schedule blk (t - 7)
           + small_sigma0 (schedule blk (t - 15)) + schedule blk (t - 16))"

type_synonym working = "u32 \<times> u32 \<times> u32 \<times> u32 \<times> u32 \<times> u32 \<times> u32 \<times> u32"

fun standard_round :: "byte list \<Rightarrow> nat \<Rightarrow> working \<Rightarrow> working" where
  "standard_round blk t (a, b, c, d, e, f, g, h) =
     (let t1 = h + big_sigma1 e + ((e AND f) XOR (NOT e AND g)) + sha_k ! t + schedule blk t;
          t2 = big_sigma0 a + ((a AND b) XOR (a AND c) XOR (b AND c))
      in (t1 + t2, a, b, c, d + t1, e, f, g))"

fun working_of :: "u32 list \<Rightarrow> working" where
  "working_of hs = (hs ! 0, hs ! 1, hs ! 2, hs ! 3, hs ! 4, hs ! 5, hs ! 6, hs ! 7)"

fun list_of_working :: "working \<Rightarrow> u32 list" where
  "list_of_working (a, b, c, d, e, f, g, h) = [a, b, c, d, e, f, g, h]"

definition standard_compress :: "u32 list \<Rightarrow> byte list \<Rightarrow> u32 list" where
  "standard_compress hs blk =
     map2 (+) hs (list_of_working (fold (standard_round blk) [0..<64] (working_of hs)))"

fun standard_blocks :: "u32 list \<Rightarrow> byte list \<Rightarrow> u32 list" where
  "standard_blocks hs m =
     (if length m < 64 then hs
      else standard_blocks (standard_compress hs (take 64 m)) (drop 64 m))"

definition standard_padding :: "nat \<Rightarrow> byte list" where
  "standard_padding n =
     [0x80] @ replicate ((119 - n mod 64) mod 64) 0
     @ map (\<lambda>i. ucast (drop_bit (8 * (7 - i)) (of_nat (8 * n) :: u64))) [0..<8]"

definition sha256_initial :: "u32 list" where
  "sha256_initial = [0x6a09e667, 0xbb67ae85, 0x3c6ef372, 0xa54ff53a,
                     0x510e527f, 0x9b05688c, 0x1f83d9ab, 0x5be0cd19]"

definition sha256 :: "byte list \<Rightarrow> byte list" where
  "sha256 m =
     concat (map (\<lambda>x. [ucast (drop_bit 24 x), ucast (drop_bit 16 x), ucast (drop_bit 8 x), ucast x])
       (standard_blocks sha256_initial (m @ standard_padding (length m))))"

subsection \<open>The sliding window is the schedule\<close>

declare schedule.simps [simp del]

definition window_ok :: "byte list \<Rightarrow> nat \<Rightarrow> u32 list \<Rightarrow> bool" where
  "window_ok p n w \<longleftrightarrow> length w = 16 \<and> (\<forall>t < n. n \<le> t + 16 \<longrightarrow> w ! (t mod 16) = schedule p t)"

lemma window_read:
  assumes "window_ok p n w" and "16 \<le> n" and "0 < k" and "k \<le> 16"
  shows "w ! ((n mod 16 + (16 - k)) mod 16) = schedule p (n - k)"
proof -
  have "(n mod 16 + (16 - k)) mod 16 = (n + (16 - k)) mod 16" by (simp add: mod_add_left_eq)
  also have "n + (16 - k) = (n - k) + 16" using assms by simp
  also have "\<dots> mod 16 = (n - k) mod 16" by simp
  finally have "(n mod 16 + (16 - k)) mod 16 = (n - k) mod 16" .
  moreover have "w ! ((n - k) mod 16) = schedule p (n - k)"
    using assms by (auto simp: window_ok_def)
  ultimately show ?thesis by simp
qed

lemma window_step:
  assumes w: "window_ok p n w"
  shows "\<exists>w'. sha_step p (n div 16) (n mod 16) (list_of_working v, w)
            = (list_of_working (standard_round p n v), w') \<and> window_ok p (Suc n) w'"
proof -
  define j where "j = n mod 16"
  define x where "x = (if n div 16 = 0 then load_be32 p (4 * j)
     else w ! j + small_sigma0 (w ! ((j + 1) mod 16)) + w ! ((j + 9) mod 16)
          + small_sigma1 (w ! ((j + 14) mod 16)))"
  have len: "length w = 16" and j: "j < 16" using w by (simp_all add: window_ok_def j_def)
  have x: "x = schedule p n"
  proof (cases "n < 16")
    case True
    then show ?thesis by (simp add: x_def j_def schedule.simps [of p n])
  next
    case False
    then have "w ! ((j + 1) mod 16) = schedule p (n - 15)"
      "w ! ((j + 9) mod 16) = schedule p (n - 7)"
      "w ! ((j + 14) mod 16) = schedule p (n - 2)"
      "w ! j = schedule p (n - 16)"
      using window_read [OF w, of 15] window_read [OF w, of 7] window_read [OF w, of 2]
        window_read [OF w, of 16] by (simp_all add: j_def)
    moreover have "n div 16 \<noteq> 0" using False by simp
    ultimately show ?thesis using False
      by (simp add: x_def schedule.simps [of p n] ac_simps)
  qed
  have "window_ok p (Suc n) (w[j := x])"
    unfolding window_ok_def
  proof (intro conjI allI impI)
    fix t
    assume t: "t < Suc n" "Suc n \<le> t + 16"
    show "w[j := x] ! (t mod 16) = schedule p t"
    proof (cases "t = n")
      case True
      then show ?thesis using len j x by (simp add: j_def)
    next
      case False
      have "t mod 16 \<noteq> j"
        using t False mod_eq_dvd_iff_nat [of t n 16] by (auto simp: j_def dest: dvd_imp_le)
      then show ?thesis using t False w by (simp add: window_ok_def)
    qed
  qed (simp add: len)
  moreover have "sha_step p (n div 16) (n mod 16) (list_of_working v, w)
      = (list_of_working (standard_round p n v), w[j := x])"
  proof -
    obtain a b c d e f g h where v: "v = (a, b, c, d, e, f, g, h)" by (cases v) auto
    have nth: "w[j := x] ! j = schedule p n" using len j x by simp
    have wx: "(if n div 16 = 0 then w[j := load_be32 p (4 * j)]
      else w[j := w ! j + small_sigma0 (w ! ((j + 1) mod 16)) + w ! ((j + 9) mod 16)
          + small_sigma1 (w ! ((j + 14) mod 16))]) = w[j := x]"
      by (simp add: x_def)
    have n: "16 * (n div 16) + j = n" by (simp add: j_def)
    show ?thesis
      unfolding sha_step_def j_def [symmetric] small_sigma0_def [symmetric]
        small_sigma1_def [symmetric] big_sigma0_def [symmetric] big_sigma1_def [symmetric]
        prod.case Let_def wx nth n v
      by (simp add: Let_def)
  qed
  ultimately show ?thesis by blast
qed

lemma window_rounds:
  assumes "n \<le> 64"
  shows "\<exists>w'. fold (\<lambda>n. sha_step p (n div 16) (n mod 16)) [0..<n] (list_of_working v, replicate 16 0)
            = (list_of_working (fold (standard_round p) [0..<n] v), w') \<and> window_ok p n w'"
  using assms
proof (induction n)
  case 0
  then show ?case by (simp add: window_ok_def)
next
  case (Suc n)
  then obtain w where "fold (\<lambda>n. sha_step p (n div 16) (n mod 16)) [0..<n]
      (list_of_working v, replicate 16 0) = (list_of_working (fold (standard_round p) [0..<n] v), w)"
    and "window_ok p n w" by auto
  then show ?case using window_step [of p n w "fold (standard_round p) [0..<n] v"] by simp
qed

lemma list_of_working_of: "length hs = 8 \<Longrightarrow> list_of_working (working_of hs) = hs"
  by (intro nth_equalityI) (auto simp: less_Suc_eq numeral_eq_Suc)

lemma consume_chunk_standard:
  "length hs = 8 \<Longrightarrow> consume_chunk hs p = standard_compress hs p"
  using window_rounds [of 64 p "working_of hs"] list_of_working_of [of hs]
  by (auto simp: consume_chunk_def standard_compress_def simp del: working_of.simps)

subsection \<open>Streaming is the one-shot digest\<close>

declare standard_blocks.simps [simp del]

lemma length_list_of_working [simp]: "length (list_of_working v) = 8"
  by (cases v rule: list_of_working.cases) simp

lemma length_standard_compress: "length hs = 8 \<Longrightarrow> length (standard_compress hs p) = 8"
  by (simp add: standard_compress_def)

lemma length_standard_blocks: "length hs = 8 \<Longrightarrow> length (standard_blocks hs m) = 8"
  by (induction hs m rule: standard_blocks.induct)
    (subst standard_blocks.simps, simp add: length_standard_compress)

lemma standard_blocks_short: "length m < 64 \<Longrightarrow> standard_blocks hs m = hs"
  by (subst standard_blocks.simps) simp

lemma standard_blocks_append:
  "length m mod 64 = 0 \<Longrightarrow> standard_blocks hs (m @ d) = standard_blocks (standard_blocks hs m) d"
proof (induction hs m rule: standard_blocks.induct)
  case (1 hs m)
  show ?case
  proof (cases "length m < 64")
    case True
    then have "m = []" using 1(2) by simp
    then show ?thesis by (simp add: standard_blocks_short)
  next
    case False
    then have "length (drop 64 m) mod 64 = 0" using 1(2) le_mod_geq [of 64 "length m"] by simp
    then have IH: "standard_blocks (standard_compress hs (take 64 m)) (drop 64 m @ d)
        = standard_blocks (standard_blocks (standard_compress hs (take 64 m)) (drop 64 m)) d"
      using 1(1) False by simp
    have "standard_blocks hs (m @ d)
        = standard_blocks (standard_compress hs (take 64 m)) (drop 64 m @ d)"
      using False by (subst standard_blocks.simps) simp
    moreover have "standard_blocks hs m
        = standard_blocks (standard_compress hs (take 64 m)) (drop 64 m)"
      using False by (subst standard_blocks.simps) simp
    ultimately show ?thesis using IH by simp
  qed
qed

lemma standard_blocks_snoc:
  assumes "length m mod 64 = 0" and "length b = 64"
  shows "standard_blocks hs (m @ b) = standard_compress (standard_blocks hs m) b"
  using assms by (subst standard_blocks_append, simp, subst standard_blocks.simps)
    (simp add: standard_blocks_short)

text \<open>The state after a message: the whole blocks are compressed, the rest is in the chunk.\<close>

definition holds_blocks :: "Sha_256 \<Rightarrow> byte list \<Rightarrow> byte list \<Rightarrow> bool" where
  "holds_blocks s m r \<longleftrightarrow>
     length m mod 64 = 0 \<and> length r < 64 \<and> length (sh_chunk s) = 64
     \<and> sh_chunk_pos s = length r \<and> sh_space_left s = 64 - length r
     \<and> take (length r) (sh_chunk s) = r \<and> sh_h s = standard_blocks sha256_initial m"

definition absorbed :: "Sha_256 \<Rightarrow> byte list \<Rightarrow> bool" where
  "absorbed s msg \<longleftrightarrow>
     (\<exists>m r. msg = m @ r \<and> holds_blocks s m r) \<and> sh_total_len s = of_nat (length msg)"

declare sha_256_write_loop.simps [simp del]

lemma length_sha256_initial [simp]: "length sha256_initial = 8"
  by (simp add: sha256_initial_def)

lemma write_loop_holds:
  "holds_blocks s m r \<Longrightarrow>
     \<exists>m' r'. (m @ r) @ data = m' @ r' \<and> holds_blocks (sha_256_write_loop s data) m' r'"
proof (induction s data arbitrary: m r rule: sha_256_write_loop.induct)
  case (1 s data)
  note h = 1(3)
  have sp: "sh_space_left s = 64 - length r" "sh_chunk_pos s = length r"
    "length (sh_chunk s) = 64" "take (length r) (sh_chunk s) = r" "length r < 64"
    using h by (simp_all add: holds_blocks_def)
  consider "data = []" | "data \<noteq> []" "sh_space_left s = 64 \<and> 64 \<le> length data"
    | "data \<noteq> []" "\<not> (sh_space_left s = 64 \<and> 64 \<le> length data)" by blast
  then show ?case
  proof cases
    case 1
    then show ?thesis using h by (auto simp: sha_256_write_loop.simps [of s])
  next
    case 2
    let ?s = "s\<lparr>sh_h := consume_chunk (sh_h s) (take 64 data)\<rparr>"
    have r: "r = []" using 2 sp by (cases r) auto
    have "holds_blocks ?s (m @ take 64 data) []"
      using h 2 unfolding r
      by (auto simp: holds_blocks_def consume_chunk_standard length_standard_blocks
          standard_blocks_snoc min_def)
    then obtain m' r' where "((m @ take 64 data) @ []) @ drop 64 data = m' @ r'"
      and "holds_blocks (sha_256_write_loop ?s (drop 64 data)) m' r'"
      using "1.IH"(1) 2 by blast
    moreover have "sha_256_write_loop s data = sha_256_write_loop ?s (drop 64 data)"
      using 2 by (subst sha_256_write_loop.simps) simp
    ultimately show ?thesis by (intro exI [of _ m'] exI [of _ r']) (simp add: r)
  next
    case 3
    define n where "n = (if length data < sh_space_left s then length data else sh_space_left s)"
    let ?c = "blit (sh_chunk s) (sh_chunk_pos s) (take n data)"
    let ?s1 = "s\<lparr>sh_chunk := ?c, sh_space_left := sh_space_left s - n\<rparr>"
    let ?s = "if sh_space_left ?s1 = 0
              then ?s1\<lparr>sh_h := consume_chunk (sh_h ?s1) (sh_chunk ?s1), sh_chunk_pos := 0,
                        sh_space_left := 64\<rparr>
              else ?s1\<lparr>sh_chunk_pos := sh_chunk_pos ?s1 + n\<rparr>"
    have n: "n \<le> length data" "length r + n \<le> 64" using sp by (auto simp: n_def)
    have tc: "take (length r + n) ?c = r @ take n data"
    proof -
      have "length (take n data) = n" using n by simp
      then show ?thesis
        using take_blit_end [of "length r" "sh_chunk s" "take n data"] sp by simp
    qed
    have lc: "length ?c = 64" using sp n by simp
    have unfolded: "sha_256_write_loop s data = sha_256_write_loop ?s (drop n data)"
      by (subst sha_256_write_loop.simps) (simp only: 3 if_False Let_def n_def)
    have "\<exists>m1 r1. (m @ r) @ take n data = m1 @ r1 \<and> holds_blocks ?s m1 r1"
    proof (cases "sh_space_left s - n = 0")
      case True
      then have full: "length r + n = 64" using sp n by simp
      then have "?c = r @ take n data" using tc lc by simp
      then have "holds_blocks ?s (m @ (r @ take n data)) []"
        using True h full n lc
        by (auto simp: holds_blocks_def consume_chunk_standard length_standard_blocks
            standard_blocks_snoc)
      then show ?thesis by (intro exI [of _ "m @ (r @ take n data)"] exI [of _ "[]"]) simp
    next
      case False
      then have "holds_blocks ?s m (r @ take n data)"
        using h tc lc n sp by (auto simp: holds_blocks_def)
      then show ?thesis by (intro exI [of _ m] exI [of _ "r @ take n data"]) simp
    qed
    then obtain m1 r1 where m1: "(m @ r) @ take n data = m1 @ r1" "holds_blocks ?s m1 r1"
      by blast
    then obtain m' r' where "(m1 @ r1) @ drop n data = m' @ r'"
      and "holds_blocks (sha_256_write_loop ?s (drop n data)) m' r'"
      using "1.IH"(2) [OF 3 n_def refl] by blast
    then show ?thesis
      unfolding unfolded by (intro exI [of _ m'] exI [of _ r']) (simp flip: m1(1))
  qed
qed

lemma write_loop_total [frame]:
  "sh_total_len (sha_256_write_loop s data) = sh_total_len s"
proof (induction s data rule: sha_256_write_loop.induct)
  case (1 s data)
  then show ?case
    by (subst sha_256_write_loop.simps)
      (simp add: Let_def split del: if_split cong: if_cong, simp split: if_split)
qed

lemma absorbed_write: "absorbed s msg \<Longrightarrow> absorbed (sha_256_write s data) (msg @ data)"
proof -
  assume a: "absorbed s msg"
  then obtain m r where msg: "msg = m @ r" and h: "holds_blocks s m r"
    by (auto simp: absorbed_def)
  let ?s = "s\<lparr>sh_total_len := sh_total_len s + of_nat (length data)\<rparr>"
  have "holds_blocks ?s m r" using h by (simp add: holds_blocks_def)
  then obtain m' r' where "(m @ r) @ data = m' @ r'" "holds_blocks (sha_256_write_loop ?s data) m' r'"
    using write_loop_holds by blast
  moreover have "sh_total_len (sha_256_write_loop ?s data) = of_nat (length (msg @ data))"
    using a by (simp add: frame absorbed_def)
  ultimately show ?thesis unfolding absorbed_def sha_256_write_def msg by blast
qed

lemma absorbed_init: "length (sh_chunk s) = 64 \<Longrightarrow> absorbed (sha_256_init s) []"
  by (auto simp: absorbed_def holds_blocks_def sha_256_init_def standard_blocks_short
      sha256_initial_def)

lemma drop_bit_push_bit_word:
  assumes "i < 7"
  shows "(ucast (drop_bit (8 * (7 - i)) (push_bit 3 len)) :: byte)
         = ucast (drop_bit (8 * (6 - i)) (drop_bit 5 (len :: u64)))"
proof (rule bit_word_eqI)
  fix n :: nat
  assume n: "n < LENGTH(8)"
  have "8 * (7 - i) + n < 64" "3 \<le> 8 * (7 - i) + n"
    "8 * (7 - i) + n - 3 = 5 + (8 * (6 - i) + n)"
    using n assms by auto
  then show "bit (ucast (drop_bit (8 * (7 - i)) (push_bit 3 len)) :: byte) n
      = bit (ucast (drop_bit (8 * (6 - i)) (drop_bit 5 len)) :: byte) n"
    using n by (simp add: bit_ucast_iff bit_drop_bit_eq bit_push_bit_iff ac_simps)
qed

lemma sha_length_field_standard:
  "sha_length_field (of_nat n) =
     map (\<lambda>i. ucast (drop_bit (8 * (7 - i)) (of_nat (8 * n) :: u64))) [0..<8]"
proof -
  have p: "(of_nat (8 * n) :: u64) = push_bit 3 (of_nat n)" by (simp add: push_bit_eq_mult)
  have "map (\<lambda>i. ucast (drop_bit (8 * (7 - i)) (push_bit 3 (of_nat n :: u64))) :: byte) [0..<7]
      = map (\<lambda>i. ucast (drop_bit (8 * (6 - i)) (drop_bit 5 (of_nat n :: u64)))) [0..<7]"
    by (rule map_cong) (simp_all only: drop_bit_push_bit_word set_upt atLeastLessThan_iff)
  moreover have "[0..<8] = [0..<7] @ [7 :: nat]" by (simp add: upt_rec)
  ultimately show ?thesis unfolding sha_length_field_def p by simp
qed

lemma sha_256_close_standard:
  assumes a: "absorbed s msg"
  shows "sha_256_close s = sha256 msg"
proof -
  obtain m r where msg: "msg = m @ r" and h: "holds_blocks s m r"
    and len: "sh_total_len s = of_nat (length msg)"
    using a by (auto simp: absorbed_def)
  have r: "length r < 64" "length m mod 64 = 0" "take (length r) (sh_chunk s) = r"
    "length (sh_chunk s) = 64" "sh_chunk_pos s = length r" "sh_space_left s = 64 - length r"
    "sh_h s = standard_blocks sha256_initial m"
    using h by (simp_all add: holds_blocks_def)
  let ?z = "\<lambda>n. replicate n (0 :: byte)"
  let ?l = "sha_length_field (of_nat (length msg))"
  have ll: "length ?l = 8" by (simp add: sha_length_field_def)
  have mod: "length msg mod 64 = length r" using r(1,2) by (simp add: msg mod_add_left_eq [symmetric])
  have one: "take (Suc (length r)) (blit (sh_chunk s) (length r) [0x80]) = r @ [0x80]"
    using take_blit_end [of "length r" "sh_chunk s" "[0x80]"] r by simp
  have pad: "standard_padding (length msg) =
      [0x80] @ ?z ((119 - length r) mod 64) @ ?l"
    by (simp add: standard_padding_def mod sha_length_field_standard)
  show ?thesis
  proof (cases "63 - length r < 8")
    case True
    have z: "(119 - length r) mod 64 = (63 - length r) + 56" using True r(1) by simp
    let ?b1 = "r @ [0x80] @ ?z (63 - length r)" and ?b2 = "?z 56 @ ?l"
    have "blit (blit (sh_chunk s) (length r) [0x80]) (Suc (length r)) (?z (63 - length r)) = ?b1"
      using one r by (subst blit_whole) simp_all
    moreover have "blit (blit ?b1 0 (?z 56)) 56 ?l = ?b2"
      using r ll by (simp add: blit_def)
    moreover have "standard_blocks sha256_initial (msg @ standard_padding (length msg))
        = standard_compress (standard_compress (sh_h s) ?b1) ?b2"
    proof -
      have "msg @ standard_padding (length msg) = (m @ ?b1) @ ?b2"
        using pad unfolding z by (simp add: msg replicate_add)
      then show ?thesis
        using r ll by (simp only:) (subst standard_blocks_snoc, simp, simp, subst standard_blocks_snoc, simp_all)
    qed
    ultimately show ?thesis
      using True r ll
      by (simp add: sha_256_close_def sha256_def Let_def len consume_chunk_standard
          length_standard_blocks length_standard_compress)
  next
    case False
    have z: "(119 - length r) mod 64 = 55 - length r" using False r(1) by (simp add: mod_if)
    let ?b = "r @ [0x80] @ ?z (55 - length r) @ ?l"
    have "blit (blit (blit (sh_chunk s) (length r) [0x80]) (Suc (length r)) (?z (55 - length r)))
        56 ?l = ?b"
    proof -
      let ?c = "blit (blit (sh_chunk s) (length r) [0x80]) (Suc (length r)) (?z (55 - length r))"
      have "take 56 ?c = r @ [0x80] @ ?z (55 - length r)"
        using take_blit_end [of "Suc (length r)" "blit (sh_chunk s) (length r) [0x80]"
            "?z (55 - length r)"] one False r by simp
      moreover have "length ?c = 64" using r False by simp
      ultimately show ?thesis using ll by (subst blit_whole) simp_all
    qed
    moreover have "standard_blocks sha256_initial (msg @ standard_padding (length msg))
        = standard_compress (sh_h s) ?b"
    proof -
      have "msg @ standard_padding (length msg) = m @ ?b"
        using pad unfolding z by (simp add: msg)
      then show ?thesis
        using r ll False by (simp only:) (subst standard_blocks_snoc, simp_all)
    qed
    ultimately show ?thesis
      using False r ll
      by (simp add: sha_256_close_def sha256_def Let_def len consume_chunk_standard
          length_standard_blocks)
  qed
qed

lemma absorbed_chunk: "absorbed s msg \<Longrightarrow> length (sh_chunk s) = 64"
  by (auto simp: absorbed_def holds_blocks_def)

subsection \<open>The interface the update agent hashes through\<close>

locale stream_hash =
  fixes init :: "'s \<Rightarrow> 's" and absorb :: "'s \<Rightarrow> 'm list \<Rightarrow> 's" and close :: "'s \<Rightarrow> 'd"
    and ready :: "'s \<Rightarrow> bool" and holds :: "'s \<Rightarrow> 'm list \<Rightarrow> bool" and digest :: "'m list \<Rightarrow> 'd"
  assumes init_holds: "ready s \<Longrightarrow> holds (init s) []"
    and absorb_holds: "holds s m \<Longrightarrow> holds (absorb s d) (m @ d)"
    and close_digest: "holds s m \<Longrightarrow> close s = digest m"
    and holds_ready: "holds s m \<Longrightarrow> ready s"
begin

lemma fold_holds: "holds s m \<Longrightarrow> holds (fold (\<lambda>d s. absorb s d) chunks s) (m @ concat chunks)"
proof (induction chunks arbitrary: s m)
  case (Cons d ds)
  then show ?case using absorb_holds [of s m d] Cons.IH [of "absorb s d" "m @ d"] by simp
qed simp

lemma chunked_digest:
  "ready s \<Longrightarrow> close (fold (\<lambda>d s. absorb s d) chunks (init s)) = digest (concat chunks)"
  using fold_holds [OF init_holds, of s chunks] close_digest by simp

end

interpretation sha: stream_hash sha_256_init sha_256_write sha_256_close
  "\<lambda>s. length (sh_chunk s) = 64" absorbed sha256
  by unfold_locales
    (blast intro: absorbed_init absorbed_write sha_256_close_standard absorbed_chunk)+

lemma calc_sha_256_standard: "calc_sha_256 input = sha256 input"
  using sha.chunked_digest [of _ "[input]"] by (simp add: calc_sha_256_def)

lemma length_sha256 [simp]: "length (sha256 m) = 32"
  using length_standard_blocks [of sha256_initial "m @ standard_padding (length m)"]
  by (simp add: sha256_def length_concat comp_def sum_list_triv)

end
