(* ===== verification/UpdateAgent.thy ===== *)
theory UpdateAgent
  imports EpcsFlash BootBlock Sha256
begin

text \<open>
  The update agent, \<^verbatim>\<open>fx3/firmware/src/update-agent.c\<close>: EEPROM page writes and reads with
  their retries, the BEGIN, DATA and FINISH requests, the readback verification and the two
  commit writes (the EEPROM's first page, the flash's boot block). The static variables of the
  file are the fields \<open>agent\<close> adds to the flash driver's. Loop counters are natural numbers;
  everything that lives in the state keeps its width.
\<close>

abbreviation UPDATE_I2C_BIT_RATE :: u32 where "UPDATE_I2C_BIT_RATE \<equiv> 400000"
abbreviation UPDATE_I2C_ACK_RETRIES :: u32 where "UPDATE_I2C_ACK_RETRIES \<equiv> 200"
abbreviation UPDATE_I2C_NAK_RETRIES :: u32 where "UPDATE_I2C_NAK_RETRIES \<equiv> 1"
abbreviation UPDATE_I2C_ATTEMPTS :: nat where "UPDATE_I2C_ATTEMPTS \<equiv> 4"
abbreviation UPDATE_I2C_SETTLE_US :: nat where "UPDATE_I2C_SETTLE_US \<equiv> 500"
abbreviation UPDATE_READBACK_SIZE :: u16 where "UPDATE_READBACK_SIZE \<equiv> 512"
abbreviation CY_U3P_ERROR_FAILURE :: u32 where "CY_U3P_ERROR_FAILURE \<equiv> 0x4A"

record 'w agent = "'w epcs" +
  glUpdateI2cReady :: bool
  glUpdateState :: updateState
  glUpdateVerifyPending :: bool
  glUpdateFirstPage :: "byte list"
  glUpdateReadback :: "byte list"
  glUpdatePagePad :: "byte list"
  glUpdateStreamHash :: Sha_256
  glUpdateStreamDigest :: "byte list"
  glUpdateMediumHash :: Sha_256
  glUpdateMediumDigest :: "byte list"
  glUpdateBootBlock :: "byte list"

definition agent_fail :: "update_error \<Rightarrow> ('w, 'z) agent_scheme \<Rightarrow> ('w, 'z) agent_scheme" where
  "agent_fail e s = s\<lparr>glUpdateState := updateStateFail (glUpdateState s) e\<rparr>"

definition set_phase :: "update_phase \<Rightarrow> ('w, 'z) agent_scheme \<Rightarrow> ('w, 'z) agent_scheme" where
  "set_phase ph s = s\<lparr>glUpdateState := (glUpdateState s)\<lparr>st_phase := ph\<rparr>\<rparr>"

definition set_written :: "u32 \<Rightarrow> ('w, 'z) agent_scheme \<Rightarrow> ('w, 'z) agent_scheme" where
  "set_written n s = s\<lparr>glUpdateState := (glUpdateState s)\<lparr>st_written := n\<rparr>\<rparr>"

definition set_verified :: "u32 \<Rightarrow> ('w, 'z) agent_scheme \<Rightarrow> ('w, 'z) agent_scheme" where
  "set_verified n s = s\<lparr>glUpdateState := (glUpdateState s)\<lparr>st_verified := n\<rparr>\<rparr>"

subsection \<open>The EEPROM\<close>

definition updateEepromPreamble :: "u32 \<Rightarrow> bool \<Rightarrow> i2c_preamble" where
  "updateEepromPreamble address isRead =
     (let slave = updateEepromSlaveAddress address;
          offset = updateEepromSlaveOffset address;
          buffer = [slave, ucast (drop_bit 8 offset), ucast (offset AND 0xFF)]
      in if isRead
         then \<lparr>pre_buffer = buffer @ [slave OR 1], pre_length = 4, pre_ctrlMask = 0x0004\<rparr>
         else \<lparr>pre_buffer = buffer, pre_length = 3, pre_ctrlMask = 0x0000\<rparr>)"

definition updateEepromWaitReady ::
    "('w, 'p) platform_scheme \<Rightarrow> u32 \<Rightarrow> 'w \<Rightarrow> u32 \<times> 'w" where
  "updateEepromWaitReady P address w =
     CyU3PI2cWaitForAck P
       \<lparr>pre_buffer = [updateEepromSlaveAddress address], pre_length = 1, pre_ctrlMask = 0x0000\<rparr>
       UPDATE_I2C_ACK_RETRIES w"

function eeprom_write_attempts ::
    "('w, 'p) platform_scheme \<Rightarrow> u32 \<Rightarrow> byte list \<Rightarrow> nat \<Rightarrow> u32 \<Rightarrow> 'w \<Rightarrow> u32 \<times> 'w" where
  "eeprom_write_attempts P address data attempt status w =
     (if attempt < UPDATE_I2C_ATTEMPTS then
        let w = (if 0 < attempt
                 then snd (updateEepromWaitReady P address (CyU3PBusyWait P UPDATE_I2C_SETTLE_US w))
                 else w);
            (status, w) = CyU3PI2cTransmitBytes P (updateEepromPreamble address False) data
                            UPDATE_I2C_NAK_RETRIES w
        in if status \<noteq> CY_U3P_SUCCESS
           then eeprom_write_attempts P address data (attempt + 1) status w
           else let (status, w) = updateEepromWaitReady P address w
                in if status = CY_U3P_SUCCESS then (CY_U3P_SUCCESS, w)
                   else eeprom_write_attempts P address data (attempt + 1) status w
      else (status, w))"
  by pat_completeness auto
termination by (relation "measure (\<lambda>(_, _, _, attempt, _, _). UPDATE_I2C_ATTEMPTS - attempt)") auto

definition updateEepromWritePage ::
    "('w, 'p) platform_scheme \<Rightarrow> u32 \<Rightarrow> byte list \<Rightarrow> 'w \<Rightarrow> u32 \<times> 'w" where
  "updateEepromWritePage P address data w =
     eeprom_write_attempts P address data 0 CY_U3P_ERROR_FAILURE w"

function eeprom_read_attempts ::
    "('w, 'p) platform_scheme \<Rightarrow> u32 \<Rightarrow> byte list \<Rightarrow> nat \<Rightarrow> nat \<Rightarrow> u32 \<Rightarrow> 'w
     \<Rightarrow> u32 \<times> byte list \<times> 'w" where
  "eeprom_read_attempts P address data len attempt status w =
     (if attempt < UPDATE_I2C_ATTEMPTS then
        let w = (if 0 < attempt then CyU3PBusyWait P UPDATE_I2C_SETTLE_US w else w);
            (status, bytes, w) = CyU3PI2cReceiveBytes P (updateEepromPreamble address True) len
                                   UPDATE_I2C_NAK_RETRIES w;
            data = blit data 0 (slice bytes 0 len)
        in if status = CY_U3P_SUCCESS then (CY_U3P_SUCCESS, data, w)
           else eeprom_read_attempts P address data len (attempt + 1) status w
      else (status, data, w))"
  by pat_completeness auto
termination by (relation "measure (\<lambda>(_, _, _, _, attempt, _, _). UPDATE_I2C_ATTEMPTS - attempt)") auto

definition updateEepromRead ::
    "('w, 'p) platform_scheme \<Rightarrow> u32 \<Rightarrow> byte list \<Rightarrow> nat \<Rightarrow> 'w \<Rightarrow> u32 \<times> byte list \<times> 'w" where
  "updateEepromRead P address data len w =
     eeprom_read_attempts P address data len 0 CY_U3P_ERROR_FAILURE w"

subsection \<open>Starting, and what the rest of the firmware asks\<close>

definition updateAgentStart ::
    "('w, 'p) platform_scheme \<Rightarrow> ('w, 'z) agent_scheme \<Rightarrow> u32 \<times> ('w, 'z) agent_scheme" where
  "updateAgentStart P s =
     (let s = s\<lparr>glUpdateState := updateStateReset (glUpdateState s), glUpdateVerifyPending := False\<rparr>;
          (status, w) = CyU3PI2cInit P (world s); s = s\<lparr>world := w\<rparr>
      in if status \<noteq> CY_U3P_SUCCESS then (status, s) else
      let (status, w) = CyU3PI2cSetConfig P
            \<lparr>bitRate = UPDATE_I2C_BIT_RATE, isDma = False,
             busTimeout = 0xFFFFFFFF, dmaTimeout = 0xFFFF\<rparr> (world s);
          s = s\<lparr>world := w\<rparr>
      in if status \<noteq> CY_U3P_SUCCESS then (status, s)
         else (CY_U3P_SUCCESS, s\<lparr>glUpdateI2cReady := True\<rparr>))"

definition updateAgentState :: "('w, 'z) agent_scheme \<Rightarrow> updateState" where
  "updateAgentState s = glUpdateState s"

definition updateAgentInProgress :: "('w, 'z) agent_scheme \<Rightarrow> bool" where
  "updateAgentInProgress s = updateIsInProgress (glUpdateState s)"

definition updateAgentStatus :: "('w, 'z) agent_scheme \<Rightarrow> byte list \<Rightarrow> byte list" where
  "updateAgentStatus s out = updateStatusEncode (glUpdateState s) out"

definition updateAgentVerifyPending :: "('w, 'z) agent_scheme \<Rightarrow> bool" where
  "updateAgentVerifyPending s = glUpdateVerifyPending s"

definition updateAgentMediumIsReady ::
    "('w, 'p) platform_scheme \<Rightarrow> byte \<Rightarrow> u32 \<Rightarrow> ('w, 'z) agent_scheme
     \<Rightarrow> update_error \<times> ('w, 'z) agent_scheme" where
  "updateAgentMediumIsReady P target len s =
     (if target = UPDATE_TARGET_EEPROM
      then (if glUpdateI2cReady s then ERROR_NONE else ERROR_HARDWARE, s)
      else if \<not> fpgaRegistersHasFlashBridge s then (ERROR_HARDWARE, s)
      else let (ok, siliconId, s) = epcsFlashIdentify P s
           in if \<not> ok then (ERROR_HARDWARE, s)
              else if \<not> updateEpcsDeviceIsUsable siliconId (updateEpcsTargetBase target) len
              then (ERROR_LENGTH, s)
              else (ERROR_NONE, s))"

subsection \<open>BEGIN\<close>

definition refuse_begin ::
    "update_error \<Rightarrow> ('w, 'z) agent_scheme \<Rightarrow> bool \<times> ('w, 'z) agent_scheme" where
  "refuse_begin e s =
     (if updateIsInProgress (glUpdateState s) then (False, s)
      else (False, agent_fail e (s\<lparr>glUpdateState := updateStateReset (glUpdateState s)\<rparr>)))"

definition updateAgentBegin ::
    "('w, 'p) platform_scheme \<Rightarrow> byte \<Rightarrow> byte list \<Rightarrow> u16 \<Rightarrow> bool \<Rightarrow> ('w, 'z) agent_scheme
     \<Rightarrow> bool \<times> ('w, 'z) agent_scheme" where
  "updateAgentBegin P target data len captureRunning s =
     (case updateBeginDecode data len of
        None \<Rightarrow> refuse_begin ERROR_LENGTH s
      | Some b \<Rightarrow>
          let refusal = updateBeginIsAllowed (glUpdateState s) target (bg_length b) (bg_flags b)
                          captureRunning;
              (refusal, s) = (if refusal = ERROR_NONE
                              then updateAgentMediumIsReady P target (bg_length b) s
                              else (refusal, s))
          in if refusal \<noteq> ERROR_NONE then refuse_begin refusal s
             else (True, s\<lparr>
               glUpdateState := (updateStateReset (glUpdateState s))\<lparr>
                 st_phase := PHASE_RECEIVING, st_target := target, st_length := bg_length b,
                 st_digest := bg_digest b\<rparr>,
               glUpdateFirstPage := replicate 64 0,
               glUpdateStreamHash := sha_256_init (glUpdateStreamHash s)\<rparr>))"

subsection \<open>DATA\<close>

lemma span_progress: "c < n \<Longrightarrow> span \<noteq> 0 \<Longrightarrow> n - (c + unat (span :: u16)) < n - c"
  using unat_gt_0 [of span] by arith

function data_epcs_loop ::
    "('w, 'p) platform_scheme \<Rightarrow> byte list \<Rightarrow> nat \<Rightarrow> ('w, 'z) agent_scheme
     \<Rightarrow> bool \<times> ('w, 'z) agent_scheme" where
  "data_epcs_loop P data consumed s =
     (if consumed < length data then
        let imageOffset = st_received (glUpdateState s) + of_nat consumed;
            address = updateEpcsTargetBase (st_target (glUpdateState s)) + imageOffset;
            remaining = of_nat (length data - consumed);
            span = updateEpcsWriteSpan address remaining
        in if span = 0 then (False, agent_fail ERROR_WRITE s) else
        let (ok, s) = (if updateEpcsSectorStartsHere address
                       then epcsFlashEraseSector P address s else (True, s))
        in if \<not> ok then (False, agent_fail ERROR_WRITE s) else
        let (ok, s) = epcsFlashProgramPage P address (take (unat span) (drop consumed data)) s
        in if \<not> ok then (False, agent_fail ERROR_WRITE s)
           else data_epcs_loop P data (consumed + unat span)
                  (set_written (imageOffset + ucast span) s)
      else (True, s))"
  by pat_completeness auto
termination
  by (relation "measure (\<lambda>(_, data, consumed, _). length data - consumed)")
    (simp_all only: in_measure prod.case span_progress wf_measure simp_thms)

definition updateAgentDataEpcs ::
    "('w, 'p) platform_scheme \<Rightarrow> byte list \<Rightarrow> ('w, 'z) agent_scheme
     \<Rightarrow> bool \<times> ('w, 'z) agent_scheme" where
  "updateAgentDataEpcs P data s = data_epcs_loop P data 0 s"

definition updateAgentChunkRefusal ::
    "byte \<Rightarrow> u16 \<Rightarrow> u16 \<Rightarrow> ('w, 'z) agent_scheme \<Rightarrow> update_error \<times> ('w, 'z) agent_scheme" where
  "updateAgentChunkRefusal target index len s =
     (let refusal = updateChunkIsAllowed (glUpdateState s) target index len
      in (refusal, if refusal \<noteq> ERROR_NONE then agent_fail refusal s else s))"

definition hold_first_page :: "byte list \<Rightarrow> nat \<Rightarrow> byte list \<Rightarrow> byte list" where
  "hold_first_page page offset data =
     (if offset < 64 then blit page offset (take (64 - offset) data) else page)"

function data_eeprom_loop ::
    "('w, 'p) platform_scheme \<Rightarrow> byte list \<Rightarrow> nat \<Rightarrow> u32 \<Rightarrow> ('w, 'z) agent_scheme
     \<Rightarrow> bool \<times> ('w, 'z) agent_scheme" where
  "data_eeprom_loop P data consumed offset s =
     (if consumed < length data then
        let remaining = of_nat (length data - consumed);
            span = updateEepromWriteSpan offset remaining
        in if span = 0 then (False, agent_fail ERROR_WRITE s) else
        let bytes = take (unat span) (drop consumed data);
            (page, s) =
              (if offset + ucast span = st_length (glUpdateState s)
                  \<and> unat span mod unat UPDATE_EEPROM_PAGE_SIZE \<noteq> 0
               then let writeLength = 64 - unat offset mod 64;
                        padded = blit (glUpdatePagePad s) 0
                                   (bytes @ replicate (writeLength - unat span) 0)
                    in (take writeLength padded, s\<lparr>glUpdatePagePad := padded\<rparr>)
               else (bytes, s));
            (status, w) = updateEepromWritePage P offset page (world s);
            s = s\<lparr>world := w\<rparr>
        in if status \<noteq> CY_U3P_SUCCESS then (False, agent_fail ERROR_WRITE s)
           else data_eeprom_loop P data (consumed + unat span) (offset + ucast span)
                  (set_written (offset + ucast span) s)
      else (True, s))"
  by pat_completeness auto
termination
  by (relation "measure (\<lambda>(_, data, consumed, _, _). length data - consumed)")
    (simp_all only: in_measure prod.case span_progress wf_measure simp_thms)

definition count_chunk :: "byte list \<Rightarrow> ('w, 'z) agent_scheme \<Rightarrow> ('w, 'z) agent_scheme" where
  "count_chunk data s = s\<lparr>glUpdateState := take_chunk (glUpdateState s) (of_nat (length data))\<rparr>"

definition updateAgentData ::
    "('w, 'p) platform_scheme \<Rightarrow> byte \<Rightarrow> u16 \<Rightarrow> byte list \<Rightarrow> ('w, 'z) agent_scheme
     \<Rightarrow> bool \<times> ('w, 'z) agent_scheme" where
  "updateAgentData P target index data s =
     (let len = of_nat (length data) :: u16;
          refusal = updateChunkIsAllowed (glUpdateState s) target index len
      in if refusal \<noteq> ERROR_NONE then (False, agent_fail refusal s)
      else if st_target (glUpdateState s) = UPDATE_TARGET_EEPROM
              \<and> st_received (glUpdateState s) = 0
              \<and> \<not> updateImageIsPlausible data (ucast len) (st_length (glUpdateState s))
      then (False, agent_fail ERROR_IMAGE s)
      else let s = s\<lparr>glUpdateStreamHash := sha_256_write (glUpdateStreamHash s) data\<rparr>
      in if updateTargetIsEpcs (st_target (glUpdateState s)) then
           let (ok, s) = updateAgentDataEpcs P data s
           in if \<not> ok then (False, s) else (True, count_chunk data s)
         else
           let offset = st_received (glUpdateState s);
               held = (if unat offset < 64 then min (64 - unat offset) (length data) else 0);
               s = s\<lparr>glUpdateFirstPage := hold_first_page (glUpdateFirstPage s) (unat offset) data\<rparr>;
               (ok, s) = data_eeprom_loop P data held (offset + of_nat held) s
           in if \<not> ok then (False, s) else (True, count_chunk data s))"

subsection \<open>FINISH\<close>

definition digests_differ :: "byte list \<Rightarrow> byte list \<Rightarrow> bool" where
  "digests_differ a b \<longleftrightarrow> take UPDATE_DIGEST_LENGTH a \<noteq> take UPDATE_DIGEST_LENGTH b"

definition updateAgentFinish ::
    "byte \<Rightarrow> ('w, 'z) agent_scheme \<Rightarrow> bool \<times> ('w, 'z) agent_scheme" where
  "updateAgentFinish target s =
     (let refusal = updateFinishIsAllowed (glUpdateState s) target
      in if refusal \<noteq> ERROR_NONE then (False, agent_fail refusal s) else
      let s = s\<lparr>glUpdateStreamDigest := sha_256_close (glUpdateStreamHash s)\<rparr>
      in if digests_differ (glUpdateStreamDigest s) (st_digest (glUpdateState s))
         then (False, agent_fail ERROR_STREAM_DIGEST s)
         else (True, (set_verified 0 (set_phase PHASE_VERIFYING s))\<lparr>glUpdateVerifyPending := True\<rparr>))"

subsection \<open>Verification and commit\<close>

text \<open>
  The verification loops take the length at their start; nothing else runs on the thread that
  owns the state while they do. Each returns whether it reached the end.
\<close>

function verify_epcs_loop ::
    "('w, 'p) platform_scheme \<Rightarrow> u32 \<Rightarrow> nat \<Rightarrow> u32 \<Rightarrow> ('w, 'z) agent_scheme
     \<Rightarrow> bool \<times> u32 \<times> ('w, 'z) agent_scheme" where
  "verify_epcs_loop P len offset imageCrc s =
     (if offset < unat len then
        let remaining = unat len - offset;
            span = (if remaining < unat UPDATE_READBACK_SIZE then remaining
                    else unat UPDATE_READBACK_SIZE);
            (r, s) = epcsFlashRead P
                       (updateEpcsTargetBase (st_target (glUpdateState s)) + of_nat offset) span s
        in case r of
             None \<Rightarrow> (False, imageCrc, agent_fail ERROR_READ s)
           | Some bytes \<Rightarrow>
               let s = s\<lparr>glUpdateReadback := blit (glUpdateReadback s) 0 bytes,
                         glUpdateMediumHash := sha_256_write (glUpdateMediumHash s) bytes\<rparr>
               in verify_epcs_loop P len (offset + span) (updateCrc32Update imageCrc bytes)
                    (set_verified (of_nat (offset + span)) s)
      else (True, imageCrc, s))"
  by pat_completeness auto
termination by (relation "measure (\<lambda>(_, len, offset, _, _). unat len - offset)") (auto split: if_splits)

definition complete_update :: "u32 \<Rightarrow> ('w, 'z) agent_scheme \<Rightarrow> ('w, 'z) agent_scheme" where
  "complete_update written s =
     set_phase PHASE_COMPLETE (set_verified (st_length (glUpdateState s)) (set_written written s))"

definition commit_epcs ::
    "('w, 'p) platform_scheme \<Rightarrow> u32 \<Rightarrow> ('w, 'z) agent_scheme \<Rightarrow> ('w, 'z) agent_scheme" where
  "commit_epcs P imageCrc s =
     (let s = set_phase PHASE_WRITING s;
          s = s\<lparr>glUpdateBootBlock := updateBootBlockEncode (glUpdateBootBlock s)
                   UPDATE_EPCS_APPLICATION_ADDRESS (st_length (glUpdateState s))
                   (updateCrc32Final imageCrc)\<rparr>;
          (ok, s) = all_ok
            [epcsFlashEraseSector P UPDATE_EPCS_BOOT_BLOCK_ADDRESS,
             epcsFlashProgramPage P UPDATE_EPCS_BOOT_BLOCK_ADDRESS
               (take UPDATE_BOOT_BLOCK_LENGTH (glUpdateBootBlock s))] s
      in if \<not> ok then agent_fail ERROR_WRITE s else
      let s = set_phase PHASE_VERIFYING s;
          (r, s) = epcsFlashRead P UPDATE_EPCS_BOOT_BLOCK_ADDRESS UPDATE_BOOT_BLOCK_LENGTH s
      in case r of
           None \<Rightarrow> agent_fail ERROR_READ s
         | Some bytes \<Rightarrow>
             let s = s\<lparr>glUpdateReadback := blit (glUpdateReadback s) 0 bytes\<rparr>
             in if take UPDATE_BOOT_BLOCK_LENGTH (glUpdateReadback s)
                   \<noteq> take UPDATE_BOOT_BLOCK_LENGTH (glUpdateBootBlock s)
                then agent_fail ERROR_MEDIUM_DIGEST s
                else complete_update (st_length (glUpdateState s)) s)"

definition updateAgentVerifyEpcs ::
    "('w, 'p) platform_scheme \<Rightarrow> ('w, 'z) agent_scheme \<Rightarrow> ('w, 'z) agent_scheme" where
  "updateAgentVerifyEpcs P s =
     (let s = s\<lparr>glUpdateMediumHash := sha_256_init (glUpdateMediumHash s)\<rparr>;
          (done, imageCrc, s) =
            verify_epcs_loop P (st_length (glUpdateState s)) 0 UPDATE_CRC32_INITIAL s
      in if \<not> done then s else
      let s = s\<lparr>glUpdateMediumDigest := sha_256_close (glUpdateMediumHash s)\<rparr>
      in if digests_differ (glUpdateMediumDigest s) (st_digest (glUpdateState s))
         then agent_fail ERROR_MEDIUM_DIGEST s
         else if st_target (glUpdateState s) = UPDATE_TARGET_EPCS_FACTORY
         then complete_update (st_length (glUpdateState s)) s
         else commit_epcs P imageCrc s)"

function verify_eeprom_loop ::
    "('w, 'p) platform_scheme \<Rightarrow> u32 \<Rightarrow> u32 \<Rightarrow> ('w, 'z) agent_scheme
     \<Rightarrow> bool \<times> ('w, 'z) agent_scheme" where
  "verify_eeprom_loop P len address s =
     (if address < len then
        let remaining = len - address;
            span = updateEepromReadSpan address remaining UPDATE_READBACK_SIZE
        in if span = 0 then (False, agent_fail ERROR_READ s) else
        let (status, readback, w) =
              updateEepromRead P address (glUpdateReadback s) (unat span) (world s);
            s = s\<lparr>world := w, glUpdateReadback := readback\<rparr>
        in if status \<noteq> CY_U3P_SUCCESS then (False, agent_fail ERROR_READ s) else
        let s = s\<lparr>glUpdateMediumHash :=
                    sha_256_write (glUpdateMediumHash s) (take (unat span) readback)\<rparr>
        in verify_eeprom_loop P len (address + ucast span)
             (set_verified (address + ucast span) s)
      else (True, s))"
  by pat_completeness auto
termination
proof (relation "measure (\<lambda>(_, len, address, _). unat len - unat address)", goal_cases)
  case (2 P len address s remaining span)
  note h = 2
  have "0 < unat span" "unat span \<le> unat (len - address)"
    using h(1-4) eeprom_read.span_le [of address "len - address"] by (simp_all add: unat_gt_0)
  moreover have "unat (len - address) = unat len - unat address"
    using h(1) by (simp add: unat_minus_le)
  moreover have "unat address + unat span < 4294967296"
    using calculation h(1) unat_less_u32 [of len] by (simp add: u32_less_iff del: unat_less_u32)
  ultimately show ?case using h(1) by (simp add: unat_plus_le u32_less_iff)
qed simp

definition commit_eeprom ::
    "('w, 'p) platform_scheme \<Rightarrow> ('w, 'z) agent_scheme \<Rightarrow> ('w, 'z) agent_scheme" where
  "commit_eeprom P s =
     (let s = set_phase PHASE_WRITING s;
          (status, w) = updateEepromWritePage P 0 (take 64 (glUpdateFirstPage s)) (world s);
          s = s\<lparr>world := w\<rparr>
      in if status \<noteq> CY_U3P_SUCCESS then agent_fail ERROR_WRITE s else
      let s = set_phase PHASE_VERIFYING s;
          (status, readback, w) = updateEepromRead P 0 (glUpdateReadback s) 64 (world s);
          s = s\<lparr>world := w, glUpdateReadback := readback\<rparr>
      in if status \<noteq> CY_U3P_SUCCESS then agent_fail ERROR_READ s
         else if take 64 (glUpdateReadback s) \<noteq> take 64 (glUpdateFirstPage s)
         then agent_fail ERROR_MEDIUM_DIGEST s
         else complete_update (updateEepromPadToPage (st_length (glUpdateState s))) s)"

definition updateAgentVerifyEeprom ::
    "('w, 'p) platform_scheme \<Rightarrow> ('w, 'z) agent_scheme \<Rightarrow> ('w, 'z) agent_scheme" where
  "updateAgentVerifyEeprom P s =
     (let s = set_verified UPDATE_EEPROM_PAGE_SIZE (s\<lparr>glUpdateMediumHash :=
                sha_256_write (sha_256_init (glUpdateMediumHash s)) (take 64 (glUpdateFirstPage s))\<rparr>);
          (done, s) = verify_eeprom_loop P (st_length (glUpdateState s)) UPDATE_EEPROM_PAGE_SIZE s
      in if \<not> done then s else
      let s = s\<lparr>glUpdateMediumDigest := sha_256_close (glUpdateMediumHash s)\<rparr>
      in if digests_differ (glUpdateMediumDigest s) (st_digest (glUpdateState s))
         then agent_fail ERROR_MEDIUM_DIGEST s
         else commit_eeprom P s)"

definition updateAgentVerify ::
    "('w, 'p) platform_scheme \<Rightarrow> ('w, 'z) agent_scheme \<Rightarrow> ('w, 'z) agent_scheme" where
  "updateAgentVerify P s =
     (let s = s\<lparr>glUpdateVerifyPending := False\<rparr>
      in if st_phase (glUpdateState s) \<noteq> PHASE_VERIFYING then s
         else if updateTargetIsEpcs (st_target (glUpdateState s)) then updateAgentVerifyEpcs P s
         else updateAgentVerifyEeprom P s)"

definition updateAgentReconfigureFpga ::
    "('w, 'p) platform_scheme \<Rightarrow> ('w, 'z) agent_scheme \<Rightarrow> bool \<times> ('w, 'z) agent_scheme" where
  "updateAgentReconfigureFpga P s =
     (if updateIsInProgress (glUpdateState s) then (False, s) else epcsFlashReconfigureFpga P s)"

definition updateAgentResetDevice ::
    "('w, 'p) platform_scheme \<Rightarrow> ('w, 'z) agent_scheme \<Rightarrow> ('w, 'z) agent_scheme" where
  "updateAgentResetDevice P s = s\<lparr>world := CyU3PDeviceReset P False (world s)\<rparr>"

lemma agent_fail_fields [simp]:
  "st_phase (glUpdateState (agent_fail e s)) = PHASE_FAILED"
  "world (agent_fail e s) = world s"
  by (simp_all add: agent_fail_def updateStateFail_def)

lemma complete_update_fields [simp]:
  "st_phase (glUpdateState (complete_update n s)) = PHASE_COMPLETE"
  "world (complete_update n s) = world s"
  by (simp_all add: complete_update_def set_phase_def set_verified_def set_written_def)

text \<open>The loops are unfolded one step at a time, by name.\<close>

declare eeprom_write_attempts.simps [simp del] eeprom_read_attempts.simps [simp del]
  data_epcs_loop.simps [simp del] data_eeprom_loop.simps [simp del]
  verify_epcs_loop.simps [simp del] verify_eeprom_loop.simps [simp del]

subsection \<open>A host's session\<close>

text \<open>
  What a host does with the agent: the chunks of an image in order, and a whole update. The
  host may cut the image as it likes within \<open>chunks_ok\<close>: no chunk is empty or longer than 2048
  bytes, and all but the last are whole pages of the medium.
\<close>

fun chunks_ok :: "nat \<Rightarrow> byte list list \<Rightarrow> bool" where
  "chunks_ok page [] \<longleftrightarrow> True"
| "chunks_ok page (c # cs) \<longleftrightarrow>
     c \<noteq> [] \<and> length c \<le> 2048 \<and> (cs = [] \<or> page dvd length c) \<and> chunks_ok page cs"

fun send_chunks ::
    "('w, 'p) platform_scheme \<Rightarrow> byte \<Rightarrow> u16 \<Rightarrow> byte list list \<Rightarrow> ('w, 'z) agent_scheme
     \<Rightarrow> bool \<times> ('w, 'z) agent_scheme" where
  "send_chunks P target i [] s = (True, s)"
| "send_chunks P target i (c # cs) s =
     (let (ok, s) = updateAgentData P target i c s
      in if \<not> ok then (False, s) else send_chunks P target (i + 1) cs s)"

definition update_session ::
    "('w, 'p) platform_scheme \<Rightarrow> byte \<Rightarrow> u32 \<Rightarrow> byte list \<Rightarrow> byte list list \<Rightarrow> ('w, 'z) agent_scheme
     \<Rightarrow> ('w, 'z) agent_scheme" where
  "update_session P target flags digest chunks s =
     (let (ok, s) = updateAgentBegin P target
            (begin_packet (of_nat (length (concat chunks))) digest flags) 40 False s
      in if \<not> ok then s else
      let (ok, s) = send_chunks P target 0 chunks s
      in if \<not> ok then s else
      let (ok, s) = updateAgentFinish target s
      in if \<not> ok then s else updateAgentVerify P s)"

lemma finish_accepts:
  assumes "absorbed (glUpdateStreamHash s) m" and "sha256 m = st_digest (glUpdateState s)"
    and "st_phase (glUpdateState s) = PHASE_RECEIVING"
    and "st_received (glUpdateState s) = st_length (glUpdateState s)"
  shows "updateAgentFinish (st_target (glUpdateState s)) s =
    (True, s\<lparr>glUpdateStreamDigest := sha256 m,
      glUpdateState := (glUpdateState s)\<lparr>st_phase := PHASE_VERIFYING, st_verified := 0\<rparr>,
      glUpdateVerifyPending := True\<rparr>)"
  using assms sha.close_digest [OF assms(1)]
  by (simp add: updateAgentFinish_def updateFinishIsAllowed_def digests_differ_def Let_def
      set_verified_def set_phase_def)

end
