(* ===== verification/UsbPlatform.thy ===== *)
theory UsbPlatform
  imports Platform
begin

text \<open>
  The part of the Cypress FX3 SDK that only \<^verbatim>\<open>fx3/firmware/src/domesday-duplicator.c\<close> calls: device
  and clock set-up, the UART, the USB driver (descriptors, endpoint 0, link power), the DMA
  multi-channel and the GPIF state machine. It extends the record of \<open>Platform\<close>; an operation
  whose status the source discards has none. The configuration structures are records with the
  fields of the SDK's; a callback's address is only whether there is one, and the storage port
  modes of the IO matrix, which the source never sets, are left out.
  A call that may end in \<^verbatim>\<open>domDupErrorHandler\<close>'s endless loop returns an \<open>outcome\<close>.
\<close>

subsection \<open>Configuration structures\<close>

abbreviation CY_U3P_SYS_CLK :: nat where "CY_U3P_SYS_CLK \<equiv> 3"

record sys_clock_config =
  setSysClk400 :: bool
  cpuClkDiv :: nat
  dmaClkDiv :: nat
  mmioClkDiv :: nat
  useStandbyClk :: bool
  sysClkSrc :: nat

datatype lpp_mode =
    CY_U3P_IO_MATRIX_LPP_DEFAULT | CY_U3P_IO_MATRIX_LPP_UART_ONLY | CY_U3P_IO_MATRIX_LPP_SPI_ONLY
  | CY_U3P_IO_MATRIX_LPP_I2S_ONLY | CY_U3P_IO_MATRIX_LPP_NONE

record io_matrix_config =
  isDQ32Bit :: bool
  useUart :: bool
  useI2C :: bool
  useI2S :: bool
  useSpi :: bool
  lppMode :: lpp_mode
  gpioSimpleEn :: "u32 list"
  gpioComplexEn :: "u32 list"

record pib_clock =
  pibClkDiv :: nat
  pibClkSrc :: nat
  isHalfDiv :: bool
  isDllEnable :: bool

datatype gpio_simple_div = CY_U3P_GPIO_SIMPLE_DIV_BY_2

record gpio_clock =
  fastClkDiv :: nat
  slowClkDiv :: nat
  simpleDiv :: gpio_simple_div
  gpioClkSrc :: nat
  halfDiv :: nat

datatype uart_stop_bit = CY_U3P_UART_ONE_STOP_BIT
datatype uart_parity = CY_U3P_UART_NO_PARITY
datatype dma_socket =
  CY_U3P_LPP_SOCKET_UART_CONS | CY_U3P_PIB_SOCKET_0 | CY_U3P_PIB_SOCKET_1 | CY_U3P_UIB_SOCKET_CONS_1

record uart_config =
  baudRate :: u32
  stopBit :: uart_stop_bit
  parity :: uart_parity
  txEnable :: bool
  rxEnable :: bool
  flowCtrl :: bool
  uartIsDma :: bool

datatype ep_type =
  CY_U3P_USB_EP_CONTROL | CY_U3P_USB_EP_ISO | CY_U3P_USB_EP_BULK | CY_U3P_USB_EP_INTR

record ep_config =
  ep_enable :: bool
  epType :: ep_type
  streams :: u16
  pcktSize :: u16
  burstLen :: byte
  isoPkts :: byte

datatype dma_mode = CY_U3P_DMA_MODE_BYTE

record dma_multi_config =
  dma_size :: u16
  dma_count :: u16
  validSckCount :: u16
  prodSckId :: "dma_socket list"
  consSckId :: "dma_socket list"
  prodAvailCount :: u16
  prodHeader :: u16
  prodFooter :: u16
  consHeader :: u16
  dmaMode :: dma_mode
  notification :: u32
  hasCallback :: bool

subsection \<open>USB vocabulary\<close>

datatype usb_desc =
    CY_U3P_USB_SET_SS_DEVICE_DESCR | CY_U3P_USB_SET_HS_DEVICE_DESCR | CY_U3P_USB_SET_DEVQUAL_DESCR
  | CY_U3P_USB_SET_FS_CONFIG_DESCR | CY_U3P_USB_SET_HS_CONFIG_DESCR | CY_U3P_USB_SET_STRING_DESCR
  | CY_U3P_USB_SET_SS_CONFIG_DESCR | CY_U3P_USB_SET_SS_BOS_DESCR | CY_U3P_USB_SET_OTG_DESCR

datatype usb_speed =
  CY_U3P_NOT_CONNECTED | CY_U3P_FULL_SPEED | CY_U3P_HIGH_SPEED | CY_U3P_SUPER_SPEED

datatype usb_event =
    CY_U3P_USB_EVENT_CONNECT | CY_U3P_USB_EVENT_DISCONNECT | CY_U3P_USB_EVENT_SUSPEND
  | CY_U3P_USB_EVENT_RESUME | CY_U3P_USB_EVENT_RESET | CY_U3P_USB_EVENT_SETCONF
  | CY_U3P_USB_EVENT_SPEED | CY_U3P_USB_EVENT_SETINTF | CY_U3P_USB_EVENT_SET_SEL
  | CY_U3P_USB_EVENT_SOF_ITP | CY_U3P_USB_EVENT_EP0_STAT_CPLT | CY_U3P_USB_EVENT_VBUS_VALID
  | CY_U3P_USB_EVENT_VBUS_REMOVED | CY_U3P_USB_EVENT_HOST_CONNECT | CY_U3P_USB_EVENT_HOST_DISCONNECT
  | CY_U3P_USB_EVENT_OTG_CHANGE | CY_U3P_USB_EVENT_OTG_VBUS_CHG | CY_U3P_USB_EVENT_OTG_SRP
  | CY_U3P_USB_EVENT_EP_UNDERRUN | CY_U3P_USB_EVENT_LNK_RECOVERY | CY_U3P_USB_EVENT_USB3_LNKFAIL
  | CY_U3P_USB_EVENT_SS_COMP_ENTRY | CY_U3P_USB_EVENT_SS_COMP_EXIT | CY_U3P_USB_EVENT_RESERVED_1
  | CY_U3P_USB_EVENT_LMP_EXCH_FAIL

datatype link_power =
  CyU3PUsbLPM_U0 | CyU3PUsbLPM_U1 | CyU3PUsbLPM_U2 | CyU3PUsbLPM_U3 | CyU3PUsbLPM_COMP
  | CyU3PUsbLPM_Unknown

text \<open>The source compares link power modes as the numbers of the SDK's enumeration.\<close>

fun link_power_code :: "link_power \<Rightarrow> nat" where
  "link_power_code CyU3PUsbLPM_U0 = 0"
| "link_power_code CyU3PUsbLPM_U1 = 1"
| "link_power_code CyU3PUsbLPM_U2 = 2"
| "link_power_code CyU3PUsbLPM_U3 = 3"
| "link_power_code CyU3PUsbLPM_COMP = 4"
| "link_power_code CyU3PUsbLPM_Unknown = 5"

instantiation link_power :: linorder
begin

definition less_eq_link_power :: "link_power \<Rightarrow> link_power \<Rightarrow> bool" where
  "less_eq_link_power a b \<longleftrightarrow> link_power_code a \<le> link_power_code b"

definition less_link_power :: "link_power \<Rightarrow> link_power \<Rightarrow> bool" where
  "less_link_power a b \<longleftrightarrow> link_power_code a < link_power_code b"

instance
proof
  fix a b :: link_power
  assume "a \<le> b" and "b \<le> a"
  then show "a = b" by (cases a; cases b) (simp_all add: less_eq_link_power_def)
qed (auto simp: less_eq_link_power_def less_link_power_def)

end

subsection \<open>The operations\<close>

record 'w usb_platform = "'w platform" +
  CyU3PDeviceInit :: "sys_clock_config \<Rightarrow> 'w \<Rightarrow> u32 \<times> 'w"
  CyU3PDeviceCacheControl :: "bool \<Rightarrow> bool \<Rightarrow> bool \<Rightarrow> 'w \<Rightarrow> u32 \<times> 'w"
  CyU3PDeviceConfigureIOMatrix :: "io_matrix_config \<Rightarrow> 'w \<Rightarrow> u32 \<times> 'w"
  CyU3PPibInit :: "bool \<Rightarrow> pib_clock \<Rightarrow> 'w \<Rightarrow> u32 \<times> 'w"
  CyU3PGpioInit :: "gpio_clock \<Rightarrow> 'w \<Rightarrow> u32 \<times> 'w"
  CyU3PKernelEntry :: "'w \<Rightarrow> 'w"
  CyU3PMemAlloc :: "nat \<Rightarrow> 'w \<Rightarrow> nat option \<times> 'w"
  CyU3PThreadCreate :: "nat \<Rightarrow> nat \<Rightarrow> nat \<Rightarrow> 'w \<Rightarrow> u32 \<times> 'w"
  CyU3PGpioSetValue :: "nat \<Rightarrow> bool \<Rightarrow> 'w \<Rightarrow> 'w"
  CyU3PGpioGetValue :: "nat \<Rightarrow> 'w \<Rightarrow> u32 \<times> bool"
  CyU3PUartInit :: "'w \<Rightarrow> u32 \<times> 'w"
  CyU3PUartSetConfig :: "uart_config \<Rightarrow> 'w \<Rightarrow> u32 \<times> 'w"
  CyU3PUartTxSetBlockXfer :: "u32 \<Rightarrow> 'w \<Rightarrow> u32 \<times> 'w"
  CyU3PDebugInit :: "dma_socket \<Rightarrow> nat \<Rightarrow> 'w \<Rightarrow> u32 \<times> 'w"
  CyU3PDebugPreamble :: "bool \<Rightarrow> 'w \<Rightarrow> 'w"
  CyU3PUsbStart :: "'w \<Rightarrow> u32 \<times> 'w"
  CyU3PUsbRegisterSetupCallback :: "bool \<Rightarrow> 'w \<Rightarrow> 'w"
  CyU3PUsbRegisterEventCallback :: "'w \<Rightarrow> 'w"
  CyU3PUsbRegisterLPMRequestCallback :: "'w \<Rightarrow> 'w"
  CyU3PUsbSetDesc :: "usb_desc \<Rightarrow> nat \<Rightarrow> byte list \<Rightarrow> 'w \<Rightarrow> u32 \<times> 'w"
  CyU3PConnectState :: "bool \<Rightarrow> bool \<Rightarrow> 'w \<Rightarrow> u32 \<times> 'w"
  CyU3PUsbGetSpeed :: "'w \<Rightarrow> usb_speed"
  CyU3PUsbGetLinkPowerState :: "'w \<Rightarrow> u32 \<times> link_power"
  CyU3PUsbSetLinkPowerState :: "link_power \<Rightarrow> 'w \<Rightarrow> 'w"
  CyU3PUsbLPMEnable :: "'w \<Rightarrow> 'w"
  CyU3PUsbLPMDisable :: "'w \<Rightarrow> 'w"
  CyU3PUsbAckSetup :: "'w \<Rightarrow> 'w"
  CyU3PUsbStall :: "byte \<Rightarrow> bool \<Rightarrow> bool \<Rightarrow> 'w \<Rightarrow> 'w"
  CyU3PUsbSendEP0Data :: "byte list \<Rightarrow> 'w \<Rightarrow> 'w"
  CyU3PUsbGetEP0Data :: "nat \<Rightarrow> 'w \<Rightarrow> u32 \<times> byte list \<times> 'w"
  CyU3PSetEpConfig :: "byte \<Rightarrow> ep_config \<Rightarrow> 'w \<Rightarrow> u32 \<times> 'w"
  CyU3PUsbFlushEp :: "byte \<Rightarrow> 'w \<Rightarrow> 'w"
  CyU3PUsbResetEp :: "byte \<Rightarrow> 'w \<Rightarrow> 'w"
  CyU3PDmaMultiChannelCreate :: "dma_multi_config \<Rightarrow> 'w \<Rightarrow> u32 \<times> 'w"
  CyU3PDmaMultiChannelSetXfer :: "u32 \<Rightarrow> u16 \<Rightarrow> 'w \<Rightarrow> u32 \<times> 'w"
  CyU3PDmaMultiChannelReset :: "'w \<Rightarrow> 'w"
  CyU3PDmaMultiChannelDestroy :: "'w \<Rightarrow> 'w"
  CyU3PGpifLoad :: "'w \<Rightarrow> u32 \<times> 'w"
  CyU3PGpifRegisterCallback :: "'w \<Rightarrow> 'w"
  CyU3PGpifSocketConfigure :: "nat \<Rightarrow> dma_socket \<Rightarrow> u16 \<Rightarrow> bool \<Rightarrow> nat \<Rightarrow> 'w \<Rightarrow> u32 \<times> 'w"
  CyU3PGpifSMStart :: "nat \<Rightarrow> nat \<Rightarrow> 'w \<Rightarrow> u32 \<times> 'w"
  CyU3PGpifDisable :: "bool \<Rightarrow> 'w \<Rightarrow> 'w"

subsection \<open>Calls that may not return\<close>

datatype 's outcome = Running 's | Halted u32 's

fun outcome_state :: "'s outcome \<Rightarrow> 's" where
  "outcome_state (Running s) = s"
| "outcome_state (Halted status s) = s"

fun in_order :: "('s \<Rightarrow> 's outcome) list \<Rightarrow> 's \<Rightarrow> 's outcome" where
  "in_order [] s = Running s"
| "in_order (f # fs) s = (case f s of Running s' \<Rightarrow> in_order fs s' | Halted status s' \<Rightarrow> Halted status s')"

lemma in_order_append:
  "in_order (fs @ gs) s =
     (case in_order fs s of Running s' \<Rightarrow> in_order gs s' | Halted status s' \<Rightarrow> Halted status s')"
  by (induction fs arbitrary: s) (simp_all split: outcome.splits)

lemma in_order_preserves:
  assumes "\<And>f s. f \<in> set fs \<Longrightarrow> Q s \<Longrightarrow> Q (outcome_state (f s))" and "Q s"
  shows "Q (outcome_state (in_order fs s))"
  using assms
proof (induction fs arbitrary: s)
  case (Cons f fs)
  have "Q (outcome_state (f s))" using Cons.prems by simp
  then show ?case using Cons.IH Cons.prems(1) by (cases "f s") auto
qed simp

text \<open>The chain of fallible calls of \<^verbatim>\<open>main\<close>: the status of the first that fails, or success.\<close>

fun first_failure :: "('w \<Rightarrow> u32 \<times> 'w) list \<Rightarrow> 'w \<Rightarrow> u32 \<times> 'w" where
  "first_failure [] w = (CY_U3P_SUCCESS, w)"
| "first_failure (f # fs) w =
     (let (status, w) = f w in if status \<noteq> CY_U3P_SUCCESS then (status, w) else first_failure fs w)"

end
