(* ===== verification/Descriptors.thy ===== *)
theory Descriptors
  imports Prelude
begin

text \<open>
  The USB descriptors of \<^verbatim>\<open>fx3/firmware/src/usb-descriptor.c\<close>, byte by byte, and what makes a
  descriptor set well formed: a chain of descriptors whose first bytes are their lengths, a
  configuration whose header states its own length, interfaces and endpoints. The product
  string is generated by the build and is a parameter of the firmware.
\<close>

abbreviation CY_U3P_USB_DEVICE_DESCR :: byte where "CY_U3P_USB_DEVICE_DESCR \<equiv> 0x01"
abbreviation CY_U3P_USB_CONFIG_DESCR :: byte where "CY_U3P_USB_CONFIG_DESCR \<equiv> 0x02"
abbreviation CY_U3P_USB_STRING_DESCR :: byte where "CY_U3P_USB_STRING_DESCR \<equiv> 0x03"
abbreviation CY_U3P_USB_INTRFC_DESCR :: byte where "CY_U3P_USB_INTRFC_DESCR \<equiv> 0x04"
abbreviation CY_U3P_USB_ENDPNT_DESCR :: byte where "CY_U3P_USB_ENDPNT_DESCR \<equiv> 0x05"
abbreviation CY_U3P_USB_DEVQUAL_DESCR :: byte where "CY_U3P_USB_DEVQUAL_DESCR \<equiv> 0x06"
abbreviation CY_U3P_BOS_DESCR :: byte where "CY_U3P_BOS_DESCR \<equiv> 0x0F"
abbreviation CY_U3P_DEVICE_CAPB_DESCR :: byte where "CY_U3P_DEVICE_CAPB_DESCR \<equiv> 0x10"
abbreviation CY_U3P_SS_EP_COMPN_DESCR :: byte where "CY_U3P_SS_EP_COMPN_DESCR \<equiv> 0x30"
abbreviation CY_U3P_USB2_EXTN_CAPB_TYPE :: byte where "CY_U3P_USB2_EXTN_CAPB_TYPE \<equiv> 0x02"
abbreviation CY_U3P_SS_USB_CAPB_TYPE :: byte where "CY_U3P_SS_USB_CAPB_TYPE \<equiv> 0x03"
abbreviation CY_U3P_USB_EP_BULK_CODE :: byte where "CY_U3P_USB_EP_BULK_CODE \<equiv> 0x02"
abbreviation CY_FX_EP_CONSUMER :: byte where "CY_FX_EP_CONSUMER \<equiv> 0x81"
abbreviation CY_FX_EP_BURST_LENGTH :: byte where "CY_FX_EP_BURST_LENGTH \<equiv> 16"

abbreviation VID_H :: byte where "VID_H \<equiv> 0x12"
abbreviation VID_L :: byte where "VID_L \<equiv> 0x09"
abbreviation PID_H :: byte where "PID_H \<equiv> 0x23"
abbreviation PID_L :: byte where "PID_L \<equiv> 0x47"
abbreviation PROTOCOL_VERSION_L :: byte where "PROTOCOL_VERSION_L \<equiv> 0x00"
abbreviation PROTOCOL_VERSION_H :: byte where "PROTOCOL_VERSION_H \<equiv> 0x01"

subsection \<open>The descriptors\<close>

definition USB30DeviceDscr :: "byte list" where
  "USB30DeviceDscr =
     [0x12, CY_U3P_USB_DEVICE_DESCR, 0x00, 0x03, 0x00, 0x00, 0x00, 0x09,
      VID_L, VID_H, PID_L, PID_H, PROTOCOL_VERSION_L, PROTOCOL_VERSION_H,
      0x01, 0x02, 0x00, 0x01]"

definition USB20DeviceDscr :: "byte list" where
  "USB20DeviceDscr =
     [0x12, CY_U3P_USB_DEVICE_DESCR, 0x10, 0x02, 0x00, 0x00, 0x00, 0x40,
      VID_L, VID_H, PID_L, PID_H, PROTOCOL_VERSION_L, PROTOCOL_VERSION_H,
      0x01, 0x02, 0x00, 0x01]"

definition USBBOSDscr :: "byte list" where
  "USBBOSDscr =
     [0x05, CY_U3P_BOS_DESCR, 0x16, 0x00, 0x02,
      0x07, CY_U3P_DEVICE_CAPB_DESCR, CY_U3P_USB2_EXTN_CAPB_TYPE, 0x00, 0x00, 0x00, 0x00,
      0x0A, CY_U3P_DEVICE_CAPB_DESCR, CY_U3P_SS_USB_CAPB_TYPE, 0x00, 0x0E, 0x00, 0x03,
      0x0A, 0xFF, 0x07]"

definition USBDeviceQualDscr :: "byte list" where
  "USBDeviceQualDscr =
     [0x0A, CY_U3P_USB_DEVQUAL_DESCR, 0x00, 0x02, 0x00, 0x00, 0x00, 0x40, 0x01, 0x00]"

definition USBSSConfigDscr :: "byte list" where
  "USBSSConfigDscr =
     [0x09, CY_U3P_USB_CONFIG_DESCR, 0x1F, 0x00, 0x01, 0x01, 0x00, 0x80, 0x32,
      0x09, CY_U3P_USB_INTRFC_DESCR, 0x00, 0x00, 0x01, 0xFF, 0x00, 0x00, 0x00,
      0x07, CY_U3P_USB_ENDPNT_DESCR, CY_FX_EP_CONSUMER, CY_U3P_USB_EP_BULK_CODE, 0x00, 0x04, 0x00,
      0x06, CY_U3P_SS_EP_COMPN_DESCR, CY_FX_EP_BURST_LENGTH - 1, 0x00, 0x00, 0x00]"

definition USBHSConfigDscr :: "byte list" where
  "USBHSConfigDscr =
     [0x09, CY_U3P_USB_CONFIG_DESCR, 0x19, 0x00, 0x01, 0x01, 0x00, 0x80, 0x32,
      0x09, CY_U3P_USB_INTRFC_DESCR, 0x00, 0x00, 0x01, 0xFF, 0x00, 0x00, 0x00,
      0x07, CY_U3P_USB_ENDPNT_DESCR, CY_FX_EP_CONSUMER, CY_U3P_USB_EP_BULK_CODE, 0x00, 0x02, 0x00]"

definition USBFSConfigDscr :: "byte list" where
  "USBFSConfigDscr =
     [0x09, CY_U3P_USB_CONFIG_DESCR, 0x19, 0x00, 0x01, 0x01, 0x00, 0x80, 0x32,
      0x09, CY_U3P_USB_INTRFC_DESCR, 0x00, 0x00, 0x01, 0xFF, 0x00, 0x00, 0x00,
      0x07, CY_U3P_USB_ENDPNT_DESCR, CY_FX_EP_CONSUMER, CY_U3P_USB_EP_BULK_CODE, 0x40, 0x00, 0x00]"

definition USBStringLangIDDscr :: "byte list" where
  "USBStringLangIDDscr = [0x04, CY_U3P_USB_STRING_DESCR, 0x09, 0x04]"

definition USBManufactureDscr :: "byte list" where
  "USBManufactureDscr = [0x16, CY_U3P_USB_STRING_DESCR]
     @ concat (map (\<lambda>c. [of_char c, 0x00]) ''Domesday86'')"

subsection \<open>Well-formed descriptors\<close>

text \<open>
  The descriptors a buffer is a chain of, each starting with its own length; \<open>None\<close> if a length
  is below two or runs past the end.
\<close>

function descriptors :: "byte list \<Rightarrow> byte list list option" where
  "descriptors [] = Some []"
| "descriptors (b # bs) =
     (if unat b < 2 \<or> length (b # bs) < unat b then None
      else map_option ((#) (take (unat b) (b # bs))) (descriptors (drop (unat b) (b # bs))))"
  by pat_completeness auto
termination by (relation "measure length") auto

definition kinds :: "byte list \<Rightarrow> byte list option" where
  "kinds bs = map_option (map (\<lambda>d. d ! 1)) (descriptors bs)"

definition total_length :: "byte list \<Rightarrow> nat" where
  "total_length bs = unat (bs ! 2) + 256 * unat (bs ! 3)"

definition count_kind :: "byte \<Rightarrow> byte list \<Rightarrow> nat" where
  "count_kind k ks = length (filter (\<lambda>x. x = k) ks)"

text \<open>
  A configuration: its header comes first and states the length of the whole, the number of
  interfaces that follow, and each interface of this device states the one endpoint it has.
\<close>

definition configuration_ok :: "byte list \<Rightarrow> bool" where
  "configuration_ok bs =
     (case descriptors bs of
        None \<Rightarrow> False
      | Some ds \<Rightarrow>
          total_length bs = length bs
          \<and> map (\<lambda>d. d ! 1) (take 3 ds)
              = [CY_U3P_USB_CONFIG_DESCR, CY_U3P_USB_INTRFC_DESCR, CY_U3P_USB_ENDPNT_DESCR]
          \<and> map length (take 3 ds) = [9, 9, 7]
          \<and> unat (ds ! 0 ! 4) = count_kind CY_U3P_USB_INTRFC_DESCR (map (\<lambda>d. d ! 1) ds)
          \<and> unat (ds ! 1 ! 4) = count_kind CY_U3P_USB_ENDPNT_DESCR (map (\<lambda>d. d ! 1) ds))"

definition endpoint_packet :: "byte list \<Rightarrow> nat" where
  "endpoint_packet bs = unat (bs ! 22) + 256 * unat (bs ! 23)"

lemma descriptors_single:
  assumes "bs \<noteq> []" and "2 \<le> unat (hd bs)" and "unat (hd bs) = length bs"
  shows "descriptors bs = Some [bs]"
  using assms by (cases bs) auto

lemma configurations_ok:
  "configuration_ok USBSSConfigDscr" "configuration_ok USBHSConfigDscr"
  "configuration_ok USBFSConfigDscr"
  by (simp_all add: configuration_ok_def total_length_def count_kind_def USBSSConfigDscr_def
      USBHSConfigDscr_def USBFSConfigDscr_def)

lemma simple_descriptors:
  "descriptors USB30DeviceDscr = Some [USB30DeviceDscr]"
  "descriptors USB20DeviceDscr = Some [USB20DeviceDscr]"
  "descriptors USBDeviceQualDscr = Some [USBDeviceQualDscr]"
  "descriptors USBStringLangIDDscr = Some [USBStringLangIDDscr]"
  "descriptors USBManufactureDscr = Some [USBManufactureDscr]"
  by (rule descriptors_single, simp_all add: USB30DeviceDscr_def USB20DeviceDscr_def
      USBDeviceQualDscr_def USBStringLangIDDscr_def USBManufactureDscr_def)

lemma bos_ok:
  "kinds USBBOSDscr = Some [CY_U3P_BOS_DESCR, CY_U3P_DEVICE_CAPB_DESCR, CY_U3P_DEVICE_CAPB_DESCR]"
  "total_length USBBOSDscr = length USBBOSDscr"
  by (simp_all add: kinds_def USBBOSDscr_def total_length_def)

end
