(* ===== verification/Firmware.thy ===== *)
theory Firmware
  imports UpdateAgent UsbPlatform Descriptors
begin

text \<open>
  The main module of the firmware, \<^verbatim>\<open>fx3/firmware/src/domesday-duplicator.c\<close>: start-up, the
  application thread's loop, the callbacks of the USB driver and of the GPIO block, and the
  capture path they bring up and tear down. Its static variables are the fields \<open>firmware\<close> adds
  to the update agent's; the three counters of the application thread are the last of them.
  Each callback and each pass of the loop is one function from state to state. A call of
  \<^verbatim>\<open>domDupErrorHandler\<close> never returns: the thread that made it is \<open>Halted\<close>, and the state is the
  one it left behind.
\<close>

abbreviation UPDATE_REQUEST_STATUS :: byte where "UPDATE_REQUEST_STATUS \<equiv> 0xD0"
abbreviation UPDATE_REQUEST_BEGIN :: byte where "UPDATE_REQUEST_BEGIN \<equiv> 0xD1"
abbreviation UPDATE_REQUEST_DATA :: byte where "UPDATE_REQUEST_DATA \<equiv> 0xD2"
abbreviation UPDATE_REQUEST_FINISH :: byte where "UPDATE_REQUEST_FINISH \<equiv> 0xD3"
abbreviation UPDATE_REQUEST_RESET :: byte where "UPDATE_REQUEST_RESET \<equiv> 0xD4"
abbreviation UPDATE_REQUEST_FPGA_RECONFIG :: byte where "UPDATE_REQUEST_FPGA_RECONFIG \<equiv> 0xD5"
abbreviation CY_FX_GPIFTOUSB_THREAD_STACK :: nat where "CY_FX_GPIFTOUSB_THREAD_STACK \<equiv> 0x1000"
abbreviation CY_FX_GPIFTOUSB_THREAD_PRIORITY :: nat where "CY_FX_GPIFTOUSB_THREAD_PRIORITY \<equiv> 8"
abbreviation CY_FX_DMA_BUF_SIZE :: u16 where "CY_FX_DMA_BUF_SIZE \<equiv> 16384"
abbreviation CY_FX_DMA_BUF_COUNT :: u16 where "CY_FX_DMA_BUF_COUNT \<equiv> 4"
abbreviation CY_U3P_ERROR_NO_REENUM_REQUIRED :: u32 where "CY_U3P_ERROR_NO_REENUM_REQUIRED \<equiv> 0xFE"

record 'w firmware = "'w agent" +
  glIsApplnActive :: bool
  glForceLinkU2 :: bool
  glUsbInitComplete :: bool
  input0Flag :: bool
  input1Flag :: bool
  input2Flag :: bool
  input3Flag :: bool
  input0HandledFlag :: bool
  input1HandledFlag :: bool
  input2HandledFlag :: bool
  input3HandledFlag :: bool
  dataCollectionFlag :: bool
  glRegisterBuffer :: "byte list"
  glUpdateChunkBuffer :: "byte list"
  glUpdatePacketBuffer :: "byte list"
  ledPattern :: byte
  ledPatternShown :: byte
  fpgaRecheckCount :: u32

text \<open>An SDK call from a function that holds the firmware's state.\<close>

definition effect :: "('w \<Rightarrow> 'w) \<Rightarrow> ('w, 'z) link_scheme \<Rightarrow> ('w, 'z) link_scheme" where
  "effect f s = s\<lparr>world := f (world s)\<rparr>"

definition call :: "('w \<Rightarrow> u32 \<times> 'w) \<Rightarrow> ('w, 'z) link_scheme \<Rightarrow> u32 \<times> ('w, 'z) link_scheme" where
  "call f s = (let (status, w) = f (world s) in (status, s\<lparr>world := w\<rparr>))"

definition domDupErrorHandler :: "u32 \<Rightarrow> 's \<Rightarrow> 's outcome" where
  "domDupErrorHandler apiReturnStatus s = Halted apiReturnStatus s"

definition checked :: "('w \<Rightarrow> u32 \<times> 'w) \<Rightarrow> ('w, 'z) link_scheme \<Rightarrow> ('w, 'z) link_scheme outcome" where
  "checked f s =
     (let (status, s) = call f s
      in if status \<noteq> CY_U3P_SUCCESS then domDupErrorHandler status s else Running s)"

definition plainly :: "('s \<Rightarrow> 's) \<Rightarrow> 's \<Rightarrow> 's outcome" where
  "plainly f s = Running (f s)"

subsection \<open>Start-up\<close>

definition sys_clock :: sys_clock_config where
  "sys_clock = \<lparr>setSysClk400 = True, cpuClkDiv = 2, dmaClkDiv = 2, mmioClkDiv = 2,
                useStandbyClk = False, sysClkSrc = CY_U3P_SYS_CLK\<rparr>"

definition io_matrix :: io_matrix_config where
  "io_matrix = \<lparr>isDQ32Bit = False, useUart = True, useI2C = True, useI2S = False, useSpi = False,
                lppMode = CY_U3P_IO_MATRIX_LPP_UART_ONLY,
                gpioSimpleEn = [0, 0], gpioComplexEn = [0, 0]\<rparr>"

definition pib_clocks :: pib_clock where
  "pib_clocks = \<lparr>pibClkDiv = 4, pibClkSrc = CY_U3P_SYS_CLK, isHalfDiv = False, isDllEnable = False\<rparr>"

definition gpio_clocks :: gpio_clock where
  "gpio_clocks = \<lparr>fastClkDiv = 2, slowClkDiv = 0, simpleDiv = CY_U3P_GPIO_SIMPLE_DIV_BY_2,
                  gpioClkSrc = CY_U3P_SYS_CLK, halfDiv = 0\<rparr>"

text \<open>Set-up of the clocks, the caches, the IO matrix, the PIB block and the GPIO block.\<close>

definition boot_blocks :: "('w, 'p) usb_platform_scheme \<Rightarrow> ('w \<Rightarrow> u32 \<times> 'w) list" where
  "boot_blocks P =
     [CyU3PDeviceInit P sys_clock,
      CyU3PDeviceCacheControl P True False False,
      CyU3PDeviceConfigureIOMatrix P io_matrix,
      CyU3PPibInit P True pib_clocks,
      CyU3PGpioInit P gpio_clocks]"

text \<open>The output pins collectData (19) and nRESET (27), and one of the four input pins.\<close>

definition output_pin :: "bool \<Rightarrow> gpio_config" where
  "output_pin v = \<lparr>outValue = v, driveLowEn = True, driveHighEn = True, inputEn = False,
                   intrMode = CY_U3P_GPIO_NO_INTR\<rparr>"

definition input_pin :: gpio_config where
  "input_pin = \<lparr>outValue = True, driveLowEn = False, driveHighEn = False, inputEn = True,
                intrMode = CY_U3P_GPIO_INTR_POS_EDGE\<rparr>"

definition boot_outputs :: "('w, 'p) usb_platform_scheme \<Rightarrow> ('w \<Rightarrow> u32 \<times> 'w) list" where
  "boot_outputs P =
     [CyU3PDeviceGpioOverride P 19 True,
      CyU3PGpioSetSimpleConfig P 19 (output_pin False),
      CyU3PDeviceGpioOverride P 27 True,
      CyU3PGpioSetSimpleConfig P 27 (output_pin True)]"

definition boot_inputs :: "('w, 'p) usb_platform_scheme \<Rightarrow> ('w \<Rightarrow> u32 \<times> 'w) list" where
  "boot_inputs P =
     [CyU3PDeviceGpioOverride P 20 True,
      CyU3PGpioSetSimpleConfig P 20 input_pin,
      CyU3PDeviceGpioOverride P 21 True,
      CyU3PGpioSetSimpleConfig P 21 input_pin,
      CyU3PDeviceGpioOverride P 28 True,
      CyU3PGpioSetSimpleConfig P 28 input_pin,
      CyU3PDeviceGpioOverride P 29 True,
      CyU3PGpioSetSimpleConfig P 29 input_pin]"

text \<open>\<^verbatim>\<open>main\<close>: the RTOS kernel is entered only if every call before it succeeds.\<close>

definition firmware_main :: "('w, 'p) usb_platform_scheme \<Rightarrow> 'w \<Rightarrow> 'w outcome" where
  "firmware_main P w =
     (let (status, w) = first_failure
            (boot_blocks P @ boot_outputs P @ boot_inputs P @ [fpgaRegistersInitialise P]) w
      in if status \<noteq> CY_U3P_SUCCESS then Halted status w else Running (CyU3PKernelEntry P w))"

text \<open>
  The kernel calls this one to create the application thread: the stack is allocated first, and
  either failure leaves the firmware in an endless loop.
\<close>

definition CyFxApplicationDefine :: "('w, 'p) usb_platform_scheme \<Rightarrow> 'w \<Rightarrow> 'w outcome" where
  "CyFxApplicationDefine P w =
     (let (ptr, w) = CyU3PMemAlloc P CY_FX_GPIFTOUSB_THREAD_STACK w
      in case ptr of
           None \<Rightarrow> Halted CY_U3P_SUCCESS w
         | Some stack \<Rightarrow>
             let (returnCode, w) = CyU3PThreadCreate P stack CY_FX_GPIFTOUSB_THREAD_STACK
                                     CY_FX_GPIFTOUSB_THREAD_PRIORITY w
             in if returnCode \<noteq> 0 then Halted returnCode w else Running w)"

definition uart_settings :: uart_config where
  "uart_settings = \<lparr>baudRate = 115200, stopBit = CY_U3P_UART_ONE_STOP_BIT,
                    parity = CY_U3P_UART_NO_PARITY, txEnable = True, rxEnable = False,
                    flowCtrl = False, uartIsDma = True\<rparr>"

definition domDupDebugInit ::
    "('w, 'p) usb_platform_scheme \<Rightarrow> ('w, 'z) link_scheme \<Rightarrow> ('w, 'z) link_scheme outcome" where
  "domDupDebugInit P =
     in_order
       [checked (CyU3PUartInit P),
        checked (CyU3PUartSetConfig P uart_settings),
        checked (CyU3PUartTxSetBlockXfer P 0xFFFFFFFF),
        checked (CyU3PDebugInit P CY_U3P_LPP_SOCKET_UART_CONS 8),
        plainly (effect (CyU3PDebugPreamble P False))]"

subsection \<open>The capture path\<close>

definition domDupClearInputFlags :: "('w, 'z) firmware_scheme \<Rightarrow> ('w, 'z) firmware_scheme" where
  "domDupClearInputFlags s =
     s\<lparr>input0Flag := False, input1Flag := False, input2Flag := False, input3Flag := False,
       input0HandledFlag := False, input1HandledFlag := False,
       input2HandledFlag := False, input3HandledFlag := False\<rparr>"

text \<open>collectData low, the flag that mirrors it cleared, no input condition pending.\<close>

definition stop_collecting ::
    "('w, 'p) usb_platform_scheme \<Rightarrow> ('w, 'z) firmware_scheme \<Rightarrow> ('w, 'z) firmware_scheme" where
  "stop_collecting P s =
     domDupClearInputFlags ((effect (CyU3PGpioSetValue P 19 False) s)\<lparr>dataCollectionFlag := False\<rparr>)"

definition capture_endpoint :: "u16 \<Rightarrow> ep_config" where
  "capture_endpoint packet = \<lparr>ep_enable = True, epType = CY_U3P_USB_EP_BULK, streams = 0,
     pcktSize = packet, burstLen = CY_FX_EP_BURST_LENGTH, isoPkts = 0\<rparr>"

definition capture_channel :: dma_multi_config where
  "capture_channel = \<lparr>dma_size = CY_FX_DMA_BUF_SIZE, dma_count = CY_FX_DMA_BUF_COUNT,
     validSckCount = 2, prodSckId = [CY_U3P_PIB_SOCKET_0, CY_U3P_PIB_SOCKET_1],
     consSckId = [CY_U3P_UIB_SOCKET_CONS_1], prodAvailCount = 0, prodHeader = 0, prodFooter = 0,
     consHeader = 0, dmaMode = CY_U3P_DMA_MODE_BYTE, notification = 0, hasCallback = False\<rparr>"

definition endpoint_size :: "usb_speed \<Rightarrow> u16" where
  "endpoint_size speed =
     (case speed of CY_U3P_FULL_SPEED \<Rightarrow> 64 | CY_U3P_HIGH_SPEED \<Rightarrow> 512
      | CY_U3P_SUPER_SPEED \<Rightarrow> 1024 | CY_U3P_NOT_CONNECTED \<Rightarrow> 0)"

text \<open>The GPIF callback is registered between the load and the check of its status.\<close>

definition load_gpif ::
    "('w, 'p) usb_platform_scheme \<Rightarrow> ('w, 'z) link_scheme \<Rightarrow> ('w, 'z) link_scheme outcome" where
  "load_gpif P s =
     (let (status, s) = call (CyU3PGpifLoad P) s;
          s = effect (CyU3PGpifRegisterCallback P) s
      in if status \<noteq> CY_U3P_SUCCESS then domDupErrorHandler status s else Running s)"

definition domDupStartApplication ::
    "('w, 'p) usb_platform_scheme \<Rightarrow> ('w, 'z) firmware_scheme \<Rightarrow> ('w, 'z) firmware_scheme outcome" where
  "domDupStartApplication P s =
     (let usbSpeed = CyU3PUsbGetSpeed P (world s);
          packet = endpoint_size usbSpeed
      in if usbSpeed \<noteq> CY_U3P_SUPER_SPEED then Running s
         else in_order
           [plainly (stop_collecting P),
            checked (CyU3PSetEpConfig P CY_FX_EP_CONSUMER (capture_endpoint packet)),
            plainly (effect (CyU3PUsbFlushEp P CY_FX_EP_CONSUMER)),
            checked (CyU3PDmaMultiChannelCreate P capture_channel),
            checked (CyU3PDmaMultiChannelSetXfer P 0 0),
            load_gpif P,
            checked (CyU3PGpifSocketConfigure P 0 CY_U3P_PIB_SOCKET_0 3 False 1),
            checked (CyU3PGpifSocketConfigure P 1 CY_U3P_PIB_SOCKET_1 3 False 1),
            checked (CyU3PGpifSMStart P 0 0),
            plainly (\<lambda>s. s\<lparr>glIsApplnActive := True\<rparr>)] s)"

definition disabled_endpoint :: ep_config where
  "disabled_endpoint = \<lparr>ep_enable = False, epType = CY_U3P_USB_EP_CONTROL, streams = 0,
     pcktSize = 0, burstLen = 0, isoPkts = 0\<rparr>"

definition domDupStopApplication ::
    "('w, 'p) usb_platform_scheme \<Rightarrow> ('w, 'z) firmware_scheme \<Rightarrow> ('w, 'z) firmware_scheme outcome" where
  "domDupStopApplication P =
     in_order
       [plainly (\<lambda>s. s\<lparr>glIsApplnActive := False\<rparr>),
        plainly (stop_collecting P),
        plainly (effect (CyU3PUsbLPMEnable P)),
        plainly (effect (CyU3PGpifDisable P True)),
        plainly (effect (CyU3PDmaMultiChannelDestroy P)),
        plainly (effect (CyU3PUsbFlushEp P CY_FX_EP_CONSUMER)),
        checked (CyU3PSetEpConfig P CY_FX_EP_CONSUMER disabled_endpoint)]"

subsection \<open>Initialising the USB application\<close>

definition register_descriptors ::
    "('w, 'p) usb_platform_scheme \<Rightarrow> byte list \<Rightarrow> (('w, 'z) link_scheme \<Rightarrow> ('w, 'z) link_scheme outcome) list"
    where
  "register_descriptors P product =
     [checked (CyU3PUsbSetDesc P CY_U3P_USB_SET_SS_DEVICE_DESCR 0 USB30DeviceDscr),
      checked (CyU3PUsbSetDesc P CY_U3P_USB_SET_HS_DEVICE_DESCR 0 USB20DeviceDscr),
      checked (CyU3PUsbSetDesc P CY_U3P_USB_SET_SS_BOS_DESCR 0 USBBOSDscr),
      checked (CyU3PUsbSetDesc P CY_U3P_USB_SET_DEVQUAL_DESCR 0 USBDeviceQualDscr),
      checked (CyU3PUsbSetDesc P CY_U3P_USB_SET_SS_CONFIG_DESCR 0 USBSSConfigDscr),
      checked (CyU3PUsbSetDesc P CY_U3P_USB_SET_HS_CONFIG_DESCR 0 USBHSConfigDscr),
      checked (CyU3PUsbSetDesc P CY_U3P_USB_SET_FS_CONFIG_DESCR 0 USBFSConfigDscr),
      checked (CyU3PUsbSetDesc P CY_U3P_USB_SET_STRING_DESCR 0 USBStringLangIDDscr),
      checked (CyU3PUsbSetDesc P CY_U3P_USB_SET_STRING_DESCR 1 USBManufactureDscr),
      checked (CyU3PUsbSetDesc P CY_U3P_USB_SET_STRING_DESCR 2 product)]"

text \<open>
  Connecting, or, when the boot loader left the device enumerated, restarting the capture path
  in place.
\<close>

definition connect_host ::
    "('w, 'p) usb_platform_scheme \<Rightarrow> bool \<Rightarrow> ('w, 'z) firmware_scheme \<Rightarrow> ('w, 'z) firmware_scheme outcome"
    where
  "connect_host P noRenum s =
     (if \<not> noRenum then checked (CyU3PConnectState P True True) s
      else in_order
        [\<lambda>s. if glIsApplnActive s then domDupStopApplication P s else Running s,
         domDupStartApplication P] s)"

definition domDupInitialiseApplication ::
    "('w, 'p) usb_platform_scheme \<Rightarrow> byte list \<Rightarrow> ('w, 'z) firmware_scheme
     \<Rightarrow> ('w, 'z) firmware_scheme outcome" where
  "domDupInitialiseApplication P product s =
     (let (status, s) = call (CyU3PUsbStart P) s;
          noRenum = (status = CY_U3P_ERROR_NO_REENUM_REQUIRED)
      in if \<not> noRenum \<and> status \<noteq> CY_U3P_SUCCESS then domDupErrorHandler status s
         else in_order
           ([plainly (effect (CyU3PUsbRegisterSetupCallback P True)),
             plainly (effect (CyU3PUsbRegisterEventCallback P)),
             plainly (effect (CyU3PUsbRegisterLPMRequestCallback P))]
            @ register_descriptors P product
            @ [connect_host P noRenum, plainly (\<lambda>s. s\<lparr>glUsbInitComplete := True\<rparr>)]) s)"

subsection \<open>Update requests\<close>

text \<open>
  Each update request returns whether it was handled, and whether it still has to be
  acknowledged. What the agent itself answers is not looked at: the host reads it with
  UPDATE_STATUS.
\<close>

definition update_status_request ::
    "('w, 'p) usb_platform_scheme \<Rightarrow> u16 \<Rightarrow> ('w, 'z) firmware_scheme
     \<Rightarrow> bool \<times> bool \<times> ('w, 'z) firmware_scheme" where
  "update_status_request P wLength s =
     (if wLength < UPDATE_STATUS_LENGTH then (False, False, s) else
      let s = s\<lparr>glUpdatePacketBuffer := updateAgentStatus s (glUpdatePacketBuffer s)\<rparr>;
          s = effect (CyU3PUsbSendEP0Data P (take (unat UPDATE_STATUS_LENGTH) (glUpdatePacketBuffer s))) s
      in (True, False, s))"

definition update_begin_request ::
    "('w, 'p) usb_platform_scheme \<Rightarrow> u16 \<Rightarrow> u16 \<Rightarrow> ('w, 'z) firmware_scheme
     \<Rightarrow> bool \<times> bool \<times> ('w, 'z) firmware_scheme" where
  "update_begin_request P wIndex wLength s =
     (if wLength \<noteq> UPDATE_BEGIN_LENGTH then (False, False, s) else
      let (status, bytes, w) = CyU3PUsbGetEP0Data P (unat UPDATE_BEGIN_LENGTH) (world s);
          s = s\<lparr>world := w, glUpdatePacketBuffer := blit (glUpdatePacketBuffer s) 0 bytes\<rparr>
      in if status \<noteq> CY_U3P_SUCCESS then (False, False, s) else
      let (ok, s) = updateAgentBegin P (ucast wIndex) (glUpdatePacketBuffer s)
                      (of_nat (length bytes)) (dataCollectionFlag s) s
      in (True, False, s))"

definition update_data_request ::
    "('w, 'p) usb_platform_scheme \<Rightarrow> u16 \<Rightarrow> u16 \<Rightarrow> u16 \<Rightarrow> ('w, 'z) firmware_scheme
     \<Rightarrow> bool \<times> bool \<times> ('w, 'z) firmware_scheme" where
  "update_data_request P wValue wIndex wLength s =
     (if wLength = 0 \<or> UPDATE_MAX_CHUNK < wLength then (False, False, s) else
      let (refusal, s) = updateAgentChunkRefusal (ucast wIndex) wValue wLength s
      in if refusal \<noteq> ERROR_NONE then (False, False, s) else
      let (status, bytes, w) = CyU3PUsbGetEP0Data P (unat wLength) (world s);
          s = s\<lparr>world := w, glUpdateChunkBuffer := blit (glUpdateChunkBuffer s) 0 bytes\<rparr>
      in if status \<noteq> CY_U3P_SUCCESS then (False, False, s) else
      let (ok, s) = updateAgentData P (ucast wIndex) wValue
                      (take (length bytes) (glUpdateChunkBuffer s)) s
      in (True, False, s))"

definition update_reset_request ::
    "('w, 'p) usb_platform_scheme \<Rightarrow> ('w, 'z) firmware_scheme
     \<Rightarrow> bool \<times> bool \<times> ('w, 'z) firmware_scheme" where
  "update_reset_request P s =
     (let s = effect (CyU3PUsbAckSetup P) s;
          s = effect (CyU3PThreadSleep P 100) s
      in (True, False, updateAgentResetDevice P s))"

definition domDupHandleUpdateRequest ::
    "('w, 'p) usb_platform_scheme \<Rightarrow> byte \<Rightarrow> u16 \<Rightarrow> u16 \<Rightarrow> u16 \<Rightarrow> ('w, 'z) firmware_scheme
     \<Rightarrow> bool \<times> bool \<times> ('w, 'z) firmware_scheme" where
  "domDupHandleUpdateRequest P bRequest wValue wIndex wLength s =
     (if bRequest = UPDATE_REQUEST_STATUS then update_status_request P wLength s
      else if bRequest = UPDATE_REQUEST_BEGIN then update_begin_request P wIndex wLength s
      else if bRequest = UPDATE_REQUEST_DATA then update_data_request P wValue wIndex wLength s
      else if bRequest = UPDATE_REQUEST_FINISH
      then (True, True, snd (updateAgentFinish (ucast wIndex) s))
      else if bRequest = UPDATE_REQUEST_RESET then update_reset_request P s
      else if bRequest = UPDATE_REQUEST_FPGA_RECONFIG
      then (let (ok, s) = updateAgentReconfigureFpga P s
            in if \<not> ok then (False, False, s) else (True, True, s))
      else (False, False, s))"

subsection \<open>Setup requests\<close>

abbreviation CY_U3P_USB_TYPE_MASK :: byte where "CY_U3P_USB_TYPE_MASK \<equiv> 0x60"
abbreviation CY_U3P_USB_TARGET_MASK :: byte where "CY_U3P_USB_TARGET_MASK \<equiv> 0x03"
abbreviation CY_U3P_USB_VENDOR_RQT :: byte where "CY_U3P_USB_VENDOR_RQT \<equiv> 0x40"
abbreviation CY_U3P_USB_STANDARD_RQT :: byte where "CY_U3P_USB_STANDARD_RQT \<equiv> 0x00"
abbreviation CY_U3P_USB_TARGET_INTF :: byte where "CY_U3P_USB_TARGET_INTF \<equiv> 0x01"
abbreviation CY_U3P_USB_TARGET_ENDPT :: byte where "CY_U3P_USB_TARGET_ENDPT \<equiv> 0x02"
abbreviation CY_U3P_USB_SC_CLEAR_FEATURE :: byte where "CY_U3P_USB_SC_CLEAR_FEATURE \<equiv> 0x01"
abbreviation CY_U3P_USB_SC_SET_FEATURE :: byte where "CY_U3P_USB_SC_SET_FEATURE \<equiv> 0x03"
abbreviation CY_U3P_USBX_FS_EP_HALT :: u16 where "CY_U3P_USBX_FS_EP_HALT \<equiv> 0"
abbreviation CY_U3P_USB_REQUEST_TYPE_MASK :: u32 where "CY_U3P_USB_REQUEST_TYPE_MASK \<equiv> 0x000000FF"
abbreviation CY_U3P_USB_REQUEST_MASK :: u32 where "CY_U3P_USB_REQUEST_MASK \<equiv> 0x0000FF00"
abbreviation CY_U3P_USB_VALUE_MASK :: u32 where "CY_U3P_USB_VALUE_MASK \<equiv> 0xFFFF0000"
abbreviation CY_U3P_USB_INDEX_MASK :: u32 where "CY_U3P_USB_INDEX_MASK \<equiv> 0x0000FFFF"
abbreviation CY_U3P_USB_LENGTH_MASK :: u32 where "CY_U3P_USB_LENGTH_MASK \<equiv> 0xFFFF0000"

record setup_packet =
  bReqType :: byte
  bRequest :: byte
  wValue :: u16
  wIndex :: u16
  wLength :: u16

definition decode_setup :: "u32 \<Rightarrow> u32 \<Rightarrow> setup_packet" where
  "decode_setup setupData0 setupData1 =
     \<lparr>bReqType = ucast (setupData0 AND CY_U3P_USB_REQUEST_TYPE_MASK),
      bRequest = ucast (drop_bit 8 (setupData0 AND CY_U3P_USB_REQUEST_MASK)),
      wValue = ucast (drop_bit 16 (setupData0 AND CY_U3P_USB_VALUE_MASK)),
      wIndex = ucast (setupData1 AND CY_U3P_USB_INDEX_MASK),
      wLength = ucast (drop_bit 16 (setupData1 AND CY_U3P_USB_LENGTH_MASK))\<rparr>"

text \<open>
  Vendor request 0xB5, collection start and stop. Only the start is refused during an update.
\<close>

definition start_collecting ::
    "('w, 'p) usb_platform_scheme \<Rightarrow> ('w, 'z) firmware_scheme \<Rightarrow> ('w, 'z) firmware_scheme" where
  "start_collecting P s =
     effect (CyU3PUsbLPMDisable P)
       ((domDupClearInputFlags (effect (CyU3PGpioSetValue P 19 True) s))\<lparr>dataCollectionFlag := True\<rparr>)"

definition collection_request ::
    "('w, 'p) usb_platform_scheme \<Rightarrow> u16 \<Rightarrow> ('w, 'z) firmware_scheme
     \<Rightarrow> bool \<times> bool \<times> ('w, 'z) firmware_scheme" where
  "collection_request P v s =
     (if v = 1 \<and> updateAgentInProgress s then (False, False, s)
      else if v = 1 then (True, True, start_collecting P s)
      else if v = 0 then (True, True, effect (CyU3PUsbLPMEnable P) (stop_collecting P s))
      else (True, True, s))"

text \<open>Vendor requests 0xB7 and 0xB8, reading registers and writing one.\<close>

definition register_read_request ::
    "('w, 'p) usb_platform_scheme \<Rightarrow> u16 \<Rightarrow> u16 \<Rightarrow> ('w, 'z) firmware_scheme
     \<Rightarrow> bool \<times> bool \<times> ('w, 'z) firmware_scheme" where
  "register_read_request P v len s =
     (if \<not> (fpgaRegistersPresent s \<and> fpgaReadRequestIsValid v len) then (False, False, s) else
      let (r, s) = fpgaRegistersRead P (ucast v) (ucast len) s
      in case r of
           None \<Rightarrow> (False, False, s)
         | Some bytes \<Rightarrow>
             let s = s\<lparr>glRegisterBuffer := blit (glRegisterBuffer s) 0 bytes\<rparr>;
                 s = effect (CyU3PUsbSendEP0Data P (take (unat len) (glRegisterBuffer s))) s
             in (True, False, s))"

definition register_write_request ::
    "('w, 'p) usb_platform_scheme \<Rightarrow> u16 \<Rightarrow> ('w, 'z) firmware_scheme
     \<Rightarrow> bool \<times> bool \<times> ('w, 'z) firmware_scheme" where
  "register_write_request P v s =
     (if \<not> (fpgaRegistersPresent s \<and> fpgaWriteRequestIsValid v) then (False, False, s) else
      let (ok, s) = fpgaRegistersWrite P (ucast (drop_bit 8 v)) (ucast (v AND 0xFF)) s
      in if ok then (True, True, s) else (False, False, s))"

definition acknowledge ::
    "('w, 'p) usb_platform_scheme \<Rightarrow> bool \<times> bool \<times> ('w, 'z) firmware_scheme
     \<Rightarrow> bool \<times> ('w, 'z) firmware_scheme" where
  "acknowledge P r =
     (case r of (isHandled, sendAck, s) \<Rightarrow>
        (isHandled, if sendAck then effect (CyU3PUsbAckSetup P) s else s))"

definition vendor_request ::
    "('w, 'p) usb_platform_scheme \<Rightarrow> setup_packet \<Rightarrow> ('w, 'z) firmware_scheme
     \<Rightarrow> bool \<times> ('w, 'z) firmware_scheme" where
  "vendor_request P p s =
     (if UPDATE_REQUEST_STATUS \<le> bRequest p \<and> bRequest p \<le> UPDATE_REQUEST_FPGA_RECONFIG
      then acknowledge P
             (domDupHandleUpdateRequest P (bRequest p) (wValue p) (wIndex p) (wLength p) s)
      else if \<not> glIsApplnActive s then (False, s)
      else acknowledge P
        (if bRequest p = 0xB5 then collection_request P (wValue p) s
         else if bRequest p = 0xB7 then register_read_request P (wValue p) (wLength p) s
         else if bRequest p = 0xB8 then register_write_request P (wValue p) s
         else (False, False, s)))"

text \<open>Standard requests: function suspend of the interface, and clearing an endpoint halt.\<close>

definition restart_endpoint ::
    "('w, 'p) usb_platform_scheme \<Rightarrow> u16 \<Rightarrow> ('w, 'z) firmware_scheme \<Rightarrow> ('w, 'z) firmware_scheme" where
  "restart_endpoint P endpoint s =
     (let s = effect (CyU3PDmaMultiChannelReset P) s;
          s = effect (CyU3PUsbFlushEp P CY_FX_EP_CONSUMER) s;
          s = effect (CyU3PUsbResetEp P CY_FX_EP_CONSUMER) s;
          s = snd (call (CyU3PDmaMultiChannelSetXfer P 0 0) s);
          s = effect (CyU3PUsbStall P (ucast endpoint) False True) s
      in effect (CyU3PUsbAckSetup P) s)"

definition standard_request ::
    "('w, 'p) usb_platform_scheme \<Rightarrow> setup_packet \<Rightarrow> ('w, 'z) firmware_scheme
     \<Rightarrow> bool \<times> ('w, 'z) firmware_scheme" where
  "standard_request P p s =
     (let bTarget = bReqType p AND CY_U3P_USB_TARGET_MASK
      in if bTarget = CY_U3P_USB_TARGET_INTF
            \<and> (bRequest p = CY_U3P_USB_SC_SET_FEATURE \<or> bRequest p = CY_U3P_USB_SC_CLEAR_FEATURE)
            \<and> wValue p = 0
         then (True, if glIsApplnActive s
                     then (effect (CyU3PUsbAckSetup P) s)
                            \<lparr>glForceLinkU2 := (bRequest p = CY_U3P_USB_SC_SET_FEATURE)\<rparr>
                     else effect (CyU3PUsbStall P 0 True False) s)
         else if bTarget = CY_U3P_USB_TARGET_ENDPT \<and> bRequest p = CY_U3P_USB_SC_CLEAR_FEATURE
            \<and> wValue p = CY_U3P_USBX_FS_EP_HALT \<and> glIsApplnActive s
            \<and> wIndex p = ucast CY_FX_EP_CONSUMER
         then (True, restart_endpoint P (wIndex p) s)
         else (False, s))"

definition domDupUSBSetupCB ::
    "('w, 'p) usb_platform_scheme \<Rightarrow> u32 \<Rightarrow> u32 \<Rightarrow> ('w, 'z) firmware_scheme
     \<Rightarrow> bool \<times> ('w, 'z) firmware_scheme" where
  "domDupUSBSetupCB P setupData0 setupData1 s =
     (let p = decode_setup setupData0 setupData1;
          bType = bReqType p AND CY_U3P_USB_TYPE_MASK
      in if bType = CY_U3P_USB_VENDOR_RQT then vendor_request P p s
         else if bType = CY_U3P_USB_STANDARD_RQT then standard_request P p s
         else (False, s))"

subsection \<open>USB events\<close>

definition stop_if_active ::
    "('w, 'p) usb_platform_scheme \<Rightarrow> ('w, 'z) firmware_scheme \<Rightarrow> ('w, 'z) firmware_scheme outcome" where
  "stop_if_active P s = (if glIsApplnActive s then domDupStopApplication P s else Running s)"

definition domDupUSBEventCB ::
    "('w, 'p) usb_platform_scheme \<Rightarrow> usb_event \<Rightarrow> u16 \<Rightarrow> ('w, 'z) firmware_scheme
     \<Rightarrow> ('w, 'z) firmware_scheme outcome" where
  "domDupUSBEventCB P eventType eventData s =
     (case eventType of
        CY_U3P_USB_EVENT_CONNECT \<Rightarrow> Running (effect (CyU3PUsbLPMEnable P) s)
      | CY_U3P_USB_EVENT_SETCONF \<Rightarrow>
          in_order [stop_if_active P,
                    \<lambda>s. if eventData \<noteq> 0 then domDupStartApplication P s else Running s] s
      | CY_U3P_USB_EVENT_SUSPEND \<Rightarrow>
          let s = stop_collecting P s
          in Running (if glIsApplnActive s
                      then effect (CyU3PUsbFlushEp P CY_FX_EP_CONSUMER)
                             (effect (CyU3PDmaMultiChannelReset P) s)
                      else s)
      | CY_U3P_USB_EVENT_RESUME \<Rightarrow>
          if glIsApplnActive s
          then in_order [domDupStopApplication P, domDupStartApplication P] s
          else Running s
      | CY_U3P_USB_EVENT_RESET \<Rightarrow>
          in_order [plainly (\<lambda>s. s\<lparr>glForceLinkU2 := False\<rparr>), stop_if_active P,
                    plainly (effect (CyU3PUsbLPMEnable P))] s
      | CY_U3P_USB_EVENT_DISCONNECT \<Rightarrow>
          in_order [plainly (\<lambda>s. s\<lparr>glForceLinkU2 := False\<rparr>), stop_if_active P] s
      | CY_U3P_USB_EVENT_VBUS_REMOVED \<Rightarrow>
          if glUsbInitComplete s
          then in_order [stop_if_active P,
                         plainly (\<lambda>s. snd (call (CyU3PConnectState P False True) s))] s
          else Running s
      | CY_U3P_USB_EVENT_VBUS_VALID \<Rightarrow>
          if glUsbInitComplete s
          then Running (snd (call (CyU3PConnectState P True True) s)) else Running s
      | _ \<Rightarrow> Running s)"

definition domDupLPMRequestCB :: "link_power \<Rightarrow> ('w, 'z) firmware_scheme \<Rightarrow> bool" where
  "domDupLPMRequestCB linkMode s =
     (if dataCollectionFlag s \<and> CyU3PUsbLPM_U2 \<le> linkMode then False else True)"

text \<open>The interrupt of an input pin: the condition is recorded only while the host collects.\<close>

definition gpioInterruptCallback ::
    "('w, 'p) usb_platform_scheme \<Rightarrow> nat \<Rightarrow> ('w, 'z) firmware_scheme \<Rightarrow> ('w, 'z) firmware_scheme" where
  "gpioInterruptCallback P gpioTriggerPin s =
     (let (status, gpioValue) = CyU3PGpioGetValue P gpioTriggerPin (world s);
          flag = (\<lambda>old. if gpioValue then (if dataCollectionFlag s then True else old) else False)
      in if status \<noteq> CY_U3P_SUCCESS then s
         else if gpioTriggerPin = 20 then s\<lparr>input0Flag := flag (input0Flag s)\<rparr>
         else if gpioTriggerPin = 21 then s\<lparr>input1Flag := flag (input1Flag s)\<rparr>
         else if gpioTriggerPin = 28 then s\<lparr>input2Flag := flag (input2Flag s)\<rparr>
         else if gpioTriggerPin = 29 then s\<lparr>input3Flag := flag (input3Flag s)\<rparr>
         else s)"

subsection \<open>The application thread\<close>

text \<open>
  Holding the link in U2 while the host keeps the function suspended: the loop ends when the host
  clears the suspend, when the link has left U0, or when its state cannot be read, and never if
  none of this happens, in which case the pass it belongs to has no result. The callbacks of the
  USB driver run while the thread sleeps, and one of them is what clears the suspend: \<open>others n\<close>
  is what they do in the sleep number \<open>n\<close>.
\<close>

definition hold_round ::
    "('w, 'p) usb_platform_scheme \<Rightarrow> ('w, 'z) firmware_scheme \<Rightarrow> ('w, 'z) firmware_scheme" where
  "hold_round P s = effect (CyU3PThreadSleep P 5) (effect (CyU3PUsbSetLinkPowerState P CyU3PUsbLPM_U2) s)"

definition held_in_u0 :: "u32 \<Rightarrow> link_power \<Rightarrow> ('w, 'z) firmware_scheme \<Rightarrow> bool" where
  "held_in_u0 status powerState s \<longleftrightarrow>
     glForceLinkU2 s \<and> status = CY_U3P_SUCCESS \<and> powerState = CyU3PUsbLPM_U0"

partial_function (option) hold_link_u2 ::
    "('w, 'p) usb_platform_scheme \<Rightarrow> (nat \<Rightarrow> ('w, 'z) firmware_scheme \<Rightarrow> ('w, 'z) firmware_scheme)
     \<Rightarrow> nat \<Rightarrow> u32 \<Rightarrow> link_power \<Rightarrow> ('w, 'z) firmware_scheme \<Rightarrow> ('w, 'z) firmware_scheme option" where
  "hold_link_u2 P others n status powerState s =
     (if held_in_u0 status powerState s
      then let s = others n (hold_round P s);
               (status, powerState) = CyU3PUsbGetLinkPowerState P (world s)
           in hold_link_u2 P others (n + 1) status powerState s
      else Some s)"

function recover_link ::
    "('w, 'p) usb_platform_scheme \<Rightarrow> nat \<Rightarrow> u32 \<Rightarrow> link_power \<Rightarrow> 'w \<Rightarrow> nat \<times> 'w" where
  "recover_link P linkRecoveryAttempts status powerState w =
     (if status = CY_U3P_SUCCESS \<and> linkRecoveryAttempts < 8
         \<and> (powerState = CyU3PUsbLPM_U1 \<or> powerState = CyU3PUsbLPM_U2)
      then let w = CyU3PUsbSetLinkPowerState P CyU3PUsbLPM_U0 w;
               w = CyU3PThreadSleep P 1 w;
               (status, powerState) = CyU3PUsbGetLinkPowerState P w
           in recover_link P (linkRecoveryAttempts + 1) status powerState w
      else (linkRecoveryAttempts, w))"
  by pat_completeness auto
termination by (relation "measure (\<lambda>(_, attempts, _, _, _). 8 - attempts)") auto

declare recover_link.simps [simp del]

text \<open>Recovering the link to U0 while the capture path is up.\<close>

definition wake_link ::
    "('w, 'p) usb_platform_scheme \<Rightarrow> ('w, 'z) firmware_scheme \<Rightarrow> ('w, 'z) firmware_scheme" where
  "wake_link P s =
     (if glIsApplnActive s \<and> CyU3PUsbGetSpeed P (world s) = CY_U3P_SUPER_SPEED then
        let (status, powerState) = CyU3PUsbGetLinkPowerState P (world s)
        in s\<lparr>world := snd (recover_link P 0 status powerState (world s))\<rparr>
      else s)"

definition manage_link ::
    "('w, 'p) usb_platform_scheme \<Rightarrow> (nat \<Rightarrow> ('w, 'z) firmware_scheme \<Rightarrow> ('w, 'z) firmware_scheme)
     \<Rightarrow> ('w, 'z) firmware_scheme \<Rightarrow> ('w, 'z) firmware_scheme option" where
  "manage_link P others s =
     (if glForceLinkU2 s then
        let (status, powerState) = CyU3PUsbGetLinkPowerState P (world s)
        in hold_link_u2 P others 0 status powerState s
      else Some (wake_link P s))"

text \<open>
  The verification of a pass, with nothing else running meanwhile: the LEDs are set first. As the
  steps it is made of, between which callbacks come, it is in \<open>VerifySteps\<close>.
\<close>

definition announce_update ::
    "('w, 'p) usb_platform_scheme \<Rightarrow> ('w, 'z) firmware_scheme \<Rightarrow> ('w, 'z) firmware_scheme" where
  "announce_update P s =
     (if fpgaRegistersPresent s then snd (fpgaRegistersSetLeds P FPGA_LED_UPDATING s) else s)"

definition run_verification ::
    "('w, 'p) usb_platform_scheme \<Rightarrow> ('w, 'z) firmware_scheme \<Rightarrow> ('w, 'z) firmware_scheme" where
  "run_verification P s =
     (if updateAgentVerifyPending s
      then (updateAgentVerify P (announce_update P s))\<lparr>ledPatternShown := 0\<rparr> else s)"

definition report_inputs :: "('w, 'z) firmware_scheme \<Rightarrow> ('w, 'z) firmware_scheme" where
  "report_inputs s =
     s\<lparr>input0HandledFlag := (input0Flag s \<or> input0HandledFlag s),
       input1HandledFlag := (input1Flag s \<or> input1HandledFlag s),
       input2HandledFlag := (input2Flag s \<or> input2HandledFlag s),
       input3HandledFlag := (input3Flag s \<or> input3HandledFlag s)\<rparr>"

definition led_pattern :: "('w, 'z) firmware_scheme \<Rightarrow> byte" where
  "led_pattern s =
     (if updateAgentInProgress s then FPGA_LED_UPDATING
      else if input0Flag s then FPGA_LED_BUFFER_ERROR
      else if dataCollectionFlag s then FPGA_LED_CAPTURING
      else FPGA_LED_READY)"

definition update_leds ::
    "('w, 'p) usb_platform_scheme \<Rightarrow> ('w, 'z) firmware_scheme \<Rightarrow> ('w, 'z) firmware_scheme" where
  "update_leds P s =
     (if fpgaRegistersPresent s then
        let s = s\<lparr>ledPattern := led_pattern s\<rparr>
        in if ledPattern s \<noteq> ledPatternShown s
           then let (ok, s) = fpgaRegistersSetLeds P (ledPattern s) s
                in if ok then s\<lparr>ledPatternShown := ledPattern s\<rparr> else s
           else s
      else
        let s = s\<lparr>fpgaRecheckCount := fpgaRecheckCount s + 1\<rparr>
        in if of_nat FPGA_RECHECK_LOOPS \<le> fpgaRecheckCount s
           then let (found, s) = fpgaRegistersProbe P 1 (s\<lparr>fpgaRecheckCount := 0\<rparr>)
                in if found then s\<lparr>ledPatternShown := 0\<rparr> else s
           else s)"

text \<open>One pass of the loop, and everything the thread does before it.\<close>

definition main_loop_pass ::
    "('w, 'p) usb_platform_scheme \<Rightarrow> (nat \<Rightarrow> ('w, 'z) firmware_scheme \<Rightarrow> ('w, 'z) firmware_scheme)
     \<Rightarrow> ('w, 'z) firmware_scheme \<Rightarrow> ('w, 'z) firmware_scheme option" where
  "main_loop_pass P others s =
     map_option (\<lambda>s. effect (CyU3PThreadSleep P 10) (update_leds P (report_inputs s)))
       (manage_link P others (run_verification P s))"

definition domDupThreadInitialise ::
    "('w, 'p) usb_platform_scheme \<Rightarrow> byte list \<Rightarrow> ('w, 'z) firmware_scheme
     \<Rightarrow> ('w, 'z) firmware_scheme outcome" where
  "domDupThreadInitialise P product s =
     in_order
       [plainly (\<lambda>s. s\<lparr>ledPattern := 0, ledPatternShown := 0, fpgaRecheckCount := 0\<rparr>),
        domDupDebugInit P,
        plainly (\<lambda>s. snd (fpgaRegistersStart P s)),
        plainly (\<lambda>s. snd (fpgaRegistersProbe P FPGA_STARTUP_PROBE_ATTEMPTS s)),
        plainly (\<lambda>s. snd (updateAgentStart P s)),
        domDupInitialiseApplication P product] s"

end
