(* ===== verification/VerifySteps.thy ===== *)
theory VerifySteps
  imports UpdateAgent
begin

text \<open>
  The verification of \<^verbatim>\<open>update-agent.c\<close>, \<^verbatim>\<open>updateAgentVerify\<close> and \<^verbatim>\<open>updateAgentVerifyEpcs\<close>, one
  access at a time. It runs on the application thread for as long as reading the medium takes, and
  the callbacks of the USB driver run meanwhile on the variables it uses: every read of the medium,
  every look at \<^verbatim>\<open>glUpdateState\<close> and every write to it is a step of its own, and a constructor of
  \<open>verify_at\<close> is the place the thread has got to, with its local variables. Left alone, the steps
  are \<open>updateAgentVerify\<close>.
\<close>

datatype verify_at =
    VerifyStart | VerifyPhase | VerifyTarget
  | EpcsInit | EpcsLoop nat u32 | EpcsRead nat nat u32 | EpcsCount nat u32 | EpcsClose u32
  | EpcsTarget u32 | EpcsWriting u32 | EpcsEncode u32 | EpcsErase | EpcsProgram | EpcsAgain
  | EpcsReadBack | EpcsCompare
  | EepromInit | EepromFirst | EepromLoop u32 | EepromRead u32 u16 | EepromCount u32 | EepromClose
  | EepromWriting | EepromWrite | EepromAgain | EepromReadBack | EepromCompare
  | VerifyWritten bool | VerifyVerified | VerifyComplete | VerifyFail update_error

fun verify_step ::
    "('w, 'p) platform_scheme \<Rightarrow> verify_at \<Rightarrow> ('w, 'z) agent_scheme
     \<Rightarrow> verify_at option \<times> ('w, 'z) agent_scheme" where
  "verify_step P VerifyStart s = (Some VerifyPhase, s\<lparr>glUpdateVerifyPending := False\<rparr>)"
| "verify_step P VerifyPhase s =
     (if st_phase (glUpdateState s) \<noteq> PHASE_VERIFYING then None else Some VerifyTarget, s)"
| "verify_step P VerifyTarget s =
     (Some (if updateTargetIsEpcs (st_target (glUpdateState s)) then EpcsInit else EepromInit), s)"
| "verify_step P EpcsInit s =
     (Some (EpcsLoop 0 UPDATE_CRC32_INITIAL), s\<lparr>glUpdateMediumHash := sha_256_init (glUpdateMediumHash s)\<rparr>)"
| "verify_step P (EpcsLoop offset imageCrc) s =
     (let len = unat (st_length (glUpdateState s))
      in (if offset < len
          then let remaining = len - offset
               in Some (EpcsRead offset (if remaining < unat UPDATE_READBACK_SIZE then remaining
                          else unat UPDATE_READBACK_SIZE) imageCrc)
          else Some (EpcsClose imageCrc), s))"
| "verify_step P (EpcsRead offset span imageCrc) s =
     (let (r, s) = epcsFlashRead P
            (updateEpcsTargetBase (st_target (glUpdateState s)) + of_nat offset) span s
      in case r of
           None \<Rightarrow> (Some (VerifyFail ERROR_READ), s)
         | Some bytes \<Rightarrow>
             (Some (EpcsCount (offset + span) (updateCrc32Update imageCrc bytes)),
              s\<lparr>glUpdateReadback := blit (glUpdateReadback s) 0 bytes,
                glUpdateMediumHash := sha_256_write (glUpdateMediumHash s) bytes\<rparr>))"
| "verify_step P (EpcsCount offset imageCrc) s = (Some (EpcsLoop offset imageCrc), set_verified (of_nat offset) s)"
| "verify_step P (EpcsClose imageCrc) s =
     (let s = s\<lparr>glUpdateMediumDigest := sha_256_close (glUpdateMediumHash s)\<rparr>
      in (Some (if digests_differ (glUpdateMediumDigest s) (st_digest (glUpdateState s))
                then VerifyFail ERROR_MEDIUM_DIGEST else EpcsTarget imageCrc), s))"
| "verify_step P (EpcsTarget imageCrc) s =
     (Some (if st_target (glUpdateState s) = UPDATE_TARGET_EPCS_FACTORY then VerifyWritten False
            else EpcsWriting imageCrc), s)"
| "verify_step P (EpcsWriting imageCrc) s = (Some (EpcsEncode imageCrc), set_phase PHASE_WRITING s)"
| "verify_step P (EpcsEncode imageCrc) s =
     (Some EpcsErase, s\<lparr>glUpdateBootBlock := updateBootBlockEncode (glUpdateBootBlock s)
        UPDATE_EPCS_APPLICATION_ADDRESS (st_length (glUpdateState s)) (updateCrc32Final imageCrc)\<rparr>)"
| "verify_step P EpcsErase s =
     (let (ok, s) = epcsFlashEraseSector P UPDATE_EPCS_BOOT_BLOCK_ADDRESS s
      in (Some (if ok then EpcsProgram else VerifyFail ERROR_WRITE), s))"
| "verify_step P EpcsProgram s =
     (let (ok, s) = epcsFlashProgramPage P UPDATE_EPCS_BOOT_BLOCK_ADDRESS
            (take UPDATE_BOOT_BLOCK_LENGTH (glUpdateBootBlock s)) s
      in (Some (if ok then EpcsAgain else VerifyFail ERROR_WRITE), s))"
| "verify_step P EpcsAgain s = (Some EpcsReadBack, set_phase PHASE_VERIFYING s)"
| "verify_step P EpcsReadBack s =
     (let (r, s) = epcsFlashRead P UPDATE_EPCS_BOOT_BLOCK_ADDRESS UPDATE_BOOT_BLOCK_LENGTH s
      in case r of
           None \<Rightarrow> (Some (VerifyFail ERROR_READ), s)
         | Some bytes \<Rightarrow> (Some EpcsCompare, s\<lparr>glUpdateReadback := blit (glUpdateReadback s) 0 bytes\<rparr>))"
| "verify_step P EpcsCompare s =
     (Some (if take UPDATE_BOOT_BLOCK_LENGTH (glUpdateReadback s)
               \<noteq> take UPDATE_BOOT_BLOCK_LENGTH (glUpdateBootBlock s)
            then VerifyFail ERROR_MEDIUM_DIGEST else VerifyWritten False), s)"
| "verify_step P EepromInit s =
     (Some EepromFirst, s\<lparr>glUpdateMediumHash :=
        sha_256_write (sha_256_init (glUpdateMediumHash s)) (take 64 (glUpdateFirstPage s))\<rparr>)"
| "verify_step P EepromFirst s =
     (Some (EepromLoop UPDATE_EEPROM_PAGE_SIZE), set_verified UPDATE_EEPROM_PAGE_SIZE s)"
| "verify_step P (EepromLoop address) s =
     (let len = st_length (glUpdateState s)
      in (if address < len
          then let span = updateEepromReadSpan address (len - address) UPDATE_READBACK_SIZE
               in Some (if span = 0 then VerifyFail ERROR_READ else EepromRead address span)
          else Some EepromClose, s))"
| "verify_step P (EepromRead address span) s =
     (let (status, readback, w) =
            updateEepromRead P address (glUpdateReadback s) (unat span) (world s);
          s = s\<lparr>world := w, glUpdateReadback := readback\<rparr>
      in if status \<noteq> CY_U3P_SUCCESS then (Some (VerifyFail ERROR_READ), s)
         else (Some (EepromCount (address + ucast span)),
               s\<lparr>glUpdateMediumHash := sha_256_write (glUpdateMediumHash s) (take (unat span) readback)\<rparr>))"
| "verify_step P (EepromCount address) s = (Some (EepromLoop address), set_verified address s)"
| "verify_step P EepromClose s =
     (let s = s\<lparr>glUpdateMediumDigest := sha_256_close (glUpdateMediumHash s)\<rparr>
      in (Some (if digests_differ (glUpdateMediumDigest s) (st_digest (glUpdateState s))
                then VerifyFail ERROR_MEDIUM_DIGEST else EepromWriting), s))"
| "verify_step P EepromWriting s = (Some EepromWrite, set_phase PHASE_WRITING s)"
| "verify_step P EepromWrite s =
     (let (status, w) = updateEepromWritePage P 0 (take 64 (glUpdateFirstPage s)) (world s)
      in (Some (if status \<noteq> CY_U3P_SUCCESS then VerifyFail ERROR_WRITE else EepromAgain), s\<lparr>world := w\<rparr>))"
| "verify_step P EepromAgain s = (Some EepromReadBack, set_phase PHASE_VERIFYING s)"
| "verify_step P EepromReadBack s =
     (let (status, readback, w) = updateEepromRead P 0 (glUpdateReadback s) 64 (world s)
      in (Some (if status \<noteq> CY_U3P_SUCCESS then VerifyFail ERROR_READ else EepromCompare),
          s\<lparr>world := w, glUpdateReadback := readback\<rparr>))"
| "verify_step P EepromCompare s =
     (Some (if take 64 (glUpdateReadback s) \<noteq> take 64 (glUpdateFirstPage s)
            then VerifyFail ERROR_MEDIUM_DIGEST else VerifyWritten True), s)"
| "verify_step P (VerifyWritten padded) s =
     (let n = st_length (glUpdateState s)
      in (Some VerifyVerified, set_written (if padded then updateEepromPadToPage n else n) s))"
| "verify_step P VerifyVerified s = (Some VerifyComplete, set_verified (st_length (glUpdateState s)) s)"
| "verify_step P VerifyComplete s = (None, set_phase PHASE_COMPLETE s)"
| "verify_step P (VerifyFail e) s = (None, agent_fail e s)"

subsection \<open>Left alone, the steps are the verification\<close>

definition verify_next ::
    "('w, 'p) platform_scheme \<Rightarrow> verify_at option \<times> ('w, 'z) agent_scheme
     \<Rightarrow> verify_at option \<times> ('w, 'z) agent_scheme \<Rightarrow> bool" where
  "verify_next P c c' \<longleftrightarrow> (\<exists>pc. fst c = Some pc \<and> c' = verify_step P pc (snd c))"

abbreviation verify_runs where
  "verify_runs P \<equiv> (verify_next P)\<^sup>*\<^sup>*"

lemma verify_then: "verify_runs P (verify_step P pc s) c \<Longrightarrow> verify_runs P (Some pc, s) c"
  by (rule converse_rtranclp_into_rtranclp [of "verify_next P"]) (simp_all add: verify_next_def)

lemma verify_fails: "verify_runs P (Some (VerifyFail e), s) (None, agent_fail e s)"
  by (rule verify_then) simp

lemma verify_completes:
  "verify_runs P (Some (VerifyWritten padded), s)
     (None, complete_update (if padded then updateEepromPadToPage (st_length (glUpdateState s))
        else st_length (glUpdateState s)) s)"
  by (rule verify_then, simp add: Let_def, rule conjI; rule impI; rule verify_then, simp, rule verify_then)
    (simp_all add: complete_update_def set_written_def set_verified_def set_phase_def)

lemma verify_choice:
  assumes "b \<Longrightarrow> verify_runs P (Some p, s) c" and "\<not> b \<Longrightarrow> verify_runs P (Some q, s) c"
  shows "verify_runs P (Some (if b then p else q), s) c"
  using assms by simp

lemma epcs_loop_runs:
  "verify_runs P (Some (EpcsLoop offset crc), s)
     (case verify_epcs_loop P (st_length (glUpdateState s)) offset crc s of
        (ok, crc', s') \<Rightarrow> (if ok then Some (EpcsClose crc') else None, s'))"
proof (induction "unat (st_length (glUpdateState s)) - offset" arbitrary: offset crc s rule: less_induct)
  case less
  let ?len = "st_length (glUpdateState s)"
  show ?case
  proof (cases "offset < unat ?len")
    case False
    then show ?thesis
      unfolding verify_epcs_loop.simps [of P ?len offset]
      by (intro verify_then) simp
  next
    case True
    define span where "span = (if unat ?len - offset < unat UPDATE_READBACK_SIZE then unat ?len - offset
                    else unat UPDATE_READBACK_SIZE)"
    have span: "0 < span" using True by (simp add: span_def)
    obtain r t where r: "epcsFlashRead P
        (updateEpcsTargetBase (st_target (glUpdateState s)) + of_nat offset) span s = (r, t)"
      by (meson surj_pair)
    have t: "glUpdateState t = glUpdateState s"
      using epcs_only_read [of s P "updateEpcsTargetBase (st_target (glUpdateState s)) + of_nat offset" span]
      unfolding r by (auto simp: epcs_only_def)
    let ?final = "case verify_epcs_loop P ?len offset crc s of
      (ok, crc', s') \<Rightarrow> (if ok then Some (EpcsClose crc') else None, s')"
    have "verify_runs P (Some (EpcsRead offset span crc), s) ?final"
    proof (cases r)
      case None
      then have "?final = (None, agent_fail ERROR_READ t)"
        using True r by (simp add: verify_epcs_loop.simps [of P ?len offset] span_def Let_def)
      then show ?thesis using r None by (intro verify_then) (simp add: verify_fails)
    next
      case (Some bytes)
      let ?u = "t\<lparr>glUpdateReadback := blit (glUpdateReadback t) 0 bytes,
        glUpdateMediumHash := sha_256_write (glUpdateMediumHash t) bytes\<rparr>"
      let ?v = "set_verified (of_nat (offset + span)) ?u"
      have len: "st_length (glUpdateState ?v) = ?len" using t by (simp add: set_verified_def)
      have e: "?final = (case verify_epcs_loop P ?len (offset + span) (updateCrc32Update crc bytes) ?v of
          (ok, crc', s') \<Rightarrow> (if ok then Some (EpcsClose crc') else None, s'))"
        using True r Some unfolding verify_epcs_loop.simps [of P ?len offset crc s]
        by (simp add: span_def Let_def)
      have "verify_runs P (Some (EpcsLoop (offset + span) (updateCrc32Update crc bytes)), ?v) ?final"
        unfolding e using less [of ?v "offset + span"] True span unfolding len by simp
      then have "verify_runs P (Some (EpcsCount (offset + span) (updateCrc32Update crc bytes)), ?u) ?final"
        by (intro verify_then) simp
      then show ?thesis using r Some by (intro verify_then) simp
    qed
    then show ?thesis using True by (intro verify_then) (simp add: span_def Let_def)
  qed
qed

lemma commit_epcs_runs:
  "verify_runs P (Some (EpcsWriting crc), s) (None, commit_epcs P crc s)"
proof -
  let ?s0 = "(set_phase PHASE_WRITING s)\<lparr>glUpdateBootBlock := updateBootBlockEncode (glUpdateBootBlock s)
     UPDATE_EPCS_APPLICATION_ADDRESS (st_length (glUpdateState s)) (updateCrc32Final crc)\<rparr>"
  obtain ok1 s1 where e: "epcsFlashEraseSector P UPDATE_EPCS_BOOT_BLOCK_ADDRESS ?s0 = (ok1, s1)"
    by (meson surj_pair)
  obtain ok2 s2 where p: "epcsFlashProgramPage P UPDATE_EPCS_BOOT_BLOCK_ADDRESS
      (take UPDATE_BOOT_BLOCK_LENGTH (glUpdateBootBlock s1)) s1 = (ok2, s2)" by (meson surj_pair)
  obtain r s3 where q: "epcsFlashRead P UPDATE_EPCS_BOOT_BLOCK_ADDRESS UPDATE_BOOT_BLOCK_LENGTH
      (set_phase PHASE_VERIFYING s2) = (r, s3)" by (meson surj_pair)
  have bb: "glUpdateBootBlock s1 = glUpdateBootBlock ?s0"
    using epcs_only_erase [of ?s0 P UPDATE_EPCS_BOOT_BLOCK_ADDRESS] e by (auto simp: epcs_only_def)
  define ended_at where "ended_at = (case r of None \<Rightarrow> agent_fail ERROR_READ s3
      | Some bytes \<Rightarrow>
          let t = s3\<lparr>glUpdateReadback := blit (glUpdateReadback s3) 0 bytes\<rparr>
          in if take UPDATE_BOOT_BLOCK_LENGTH (glUpdateReadback t)
                \<noteq> take UPDATE_BOOT_BLOCK_LENGTH (glUpdateBootBlock t)
             then agent_fail ERROR_MEDIUM_DIGEST t
             else complete_update (st_length (glUpdateState t)) t)"
  have f: "glUpdateBootBlock (set_phase PHASE_WRITING s) = glUpdateBootBlock s"
    "st_length (glUpdateState (set_phase PHASE_WRITING s)) = st_length (glUpdateState s)"
    by (simp_all add: set_phase_def)
  have commit: "commit_epcs P crc s = (if \<not> ok1 then agent_fail ERROR_WRITE s1
      else if \<not> ok2 then agent_fail ERROR_WRITE s2 else ended_at)"
    using e p q bb
    unfolding commit_epcs_def Let_def f ended_at_def
    by (cases ok1; cases ok2) (simp_all add: Let_def)
  have readback: "verify_runs P (Some EpcsReadBack, set_phase PHASE_VERIFYING s2) (None, ended_at)"
  proof (cases r)
    case None
    then show ?thesis using q by (intro verify_then) (simp add: verify_fails ended_at_def)
  next
    case (Some bytes)
    let ?t = "s3\<lparr>glUpdateReadback := blit (glUpdateReadback s3) 0 bytes\<rparr>"
    have "verify_runs P (Some EpcsCompare, ?t) (None, ended_at)"
      using verify_fails [of P ERROR_MEDIUM_DIGEST ?t] verify_completes [of P False ?t]
      by (intro verify_then) (simp add: Let_def ended_at_def Some)
    then show ?thesis using q Some by (intro verify_then) (simp add: Let_def)
  qed
  have "verify_runs P (Some EpcsAgain, s2) (None, ended_at)"
    by (rule verify_then) (simp add: readback)
  then have "verify_runs P (Some EpcsProgram, s1) (None, if ok2 then ended_at else agent_fail ERROR_WRITE s2)"
    by (intro verify_then) (simp add: p verify_fails)
  then have "verify_runs P (Some EpcsErase, ?s0) (None, commit_epcs P crc s)"
    unfolding commit by (intro verify_then) (cases ok2; simp add: e verify_fails)
  then have "verify_runs P (Some (EpcsEncode crc), set_phase PHASE_WRITING s) (None, commit_epcs P crc s)"
    by (intro verify_then) (simp add: f)
  then show ?thesis by (intro verify_then) simp
qed

lemma epcs_runs: "verify_runs P (Some EpcsInit, s) (None, updateAgentVerifyEpcs P s)"
proof -
  let ?t = "s\<lparr>glUpdateMediumHash := sha_256_init (glUpdateMediumHash s)\<rparr>"
  obtain ok crc u where v: "verify_epcs_loop P (st_length (glUpdateState ?t)) 0 UPDATE_CRC32_INITIAL ?t = (ok, crc, u)"
    by (metis prod_cases3)
  have "verify_runs P (Some (EpcsLoop 0 UPDATE_CRC32_INITIAL), ?t) (if ok then Some (EpcsClose crc) else None, u)"
    using epcs_loop_runs [of P 0 UPDATE_CRC32_INITIAL ?t] unfolding v by simp
  moreover have "verify_runs P (if ok then Some (EpcsClose crc) else None, u) (None, updateAgentVerifyEpcs P s)"
  proof (cases ok)
    case False
    then show ?thesis using v by (simp add: updateAgentVerifyEpcs_def Let_def)
  next
    case True
    let ?c = "u\<lparr>glUpdateMediumDigest := sha_256_close (glUpdateMediumHash u)\<rparr>"
    have "verify_runs P (Some (EpcsTarget crc), ?c) (None,
        if st_target (glUpdateState ?c) = UPDATE_TARGET_EPCS_FACTORY
        then complete_update (st_length (glUpdateState ?c)) ?c else commit_epcs P crc ?c)"
      using verify_completes [of P False ?c] commit_epcs_runs [of P crc ?c] by (intro verify_then) simp
    then have "verify_runs P (Some (EpcsClose crc), u) (None, updateAgentVerifyEpcs P s)"
      using True v verify_fails [of P ERROR_MEDIUM_DIGEST ?c]
      by (intro verify_then) (auto simp: updateAgentVerifyEpcs_def Let_def)
    then show ?thesis using True by simp
  qed
  ultimately have "verify_runs P (Some (EpcsLoop 0 UPDATE_CRC32_INITIAL), ?t) (None, updateAgentVerifyEpcs P s)"
    by (rule rtranclp_trans)
  then show ?thesis by (intro verify_then) simp
qed

lemma eeprom_loop_runs:
  "verify_runs P (Some (EepromLoop address), s)
     (case verify_eeprom_loop P (st_length (glUpdateState s)) address s of
        (ok, s') \<Rightarrow> (if ok then Some EepromClose else None, s'))"
proof -
  have "len = st_length (glUpdateState s) \<longrightarrow> verify_runs P (Some (EepromLoop address), s)
     (case verify_eeprom_loop P len address s of (ok, s') \<Rightarrow> (if ok then Some EepromClose else None, s'))" for len
  proof (induction P len address s rule: verify_eeprom_loop.induct)
    case (1 P len address s)
    show ?case
    proof
      assume len: "len = st_length (glUpdateState s)"
      let ?span = "updateEepromReadSpan address (len - address) UPDATE_READBACK_SIZE"
      let ?final = "case verify_eeprom_loop P len address s of (ok, s') \<Rightarrow> (if ok then Some EepromClose else None, s')"
      show "verify_runs P (Some (EepromLoop address), s) ?final"
      proof (cases "address < len \<and> ?span \<noteq> 0")
        case False
        then show ?thesis using verify_fails [of P ERROR_READ s]
          unfolding verify_eeprom_loop.simps [of P len address s]
          by (intro verify_then) (auto simp: len Let_def)
      next
        case True
        obtain st readback w where r: "updateEepromRead P address (glUpdateReadback s) (unat ?span) (world s)
            = (st, readback, w)" by (metis prod_cases3)
        let ?t = "s\<lparr>world := w, glUpdateReadback := readback\<rparr>"
        have "verify_runs P (Some (EepromRead address ?span), s) ?final"
        proof (cases "st = CY_U3P_SUCCESS")
          case False
          then have "?final = (None, agent_fail ERROR_READ ?t)"
            using True r unfolding verify_eeprom_loop.simps [of P len address s] by (simp add: Let_def)
          then show ?thesis using r False by (intro verify_then) (simp add: verify_fails Let_def)
        next
          case st: True
          let ?u = "?t\<lparr>glUpdateMediumHash := sha_256_write (glUpdateMediumHash ?t) (take (unat ?span) readback)\<rparr>"
          let ?v = "set_verified (address + ucast ?span) ?u"
          have e: "?final = (case verify_eeprom_loop P len (address + ucast ?span) ?v of
              (ok, s') \<Rightarrow> (if ok then Some EepromClose else None, s'))"
            using True r st unfolding verify_eeprom_loop.simps [of P len address s] by (simp add: Let_def)
          have n: "len = st_length (glUpdateState ?v)" by (simp add: set_verified_def len)
          have "verify_runs P (Some (EepromLoop (address + ucast ?span)), ?v) ?final"
            unfolding e
            using 1 True r st n by (simp add: Let_def)
          then have "verify_runs P (Some (EepromCount (address + ucast ?span)), ?u) ?final"
            by (intro verify_then) simp
          then show ?thesis using r st by (intro verify_then) (simp add: Let_def)
        qed
        then show ?thesis using True len by (intro verify_then) (simp add: Let_def)
      qed
    qed
  qed
  then show ?thesis by simp
qed

lemma commit_eeprom_runs: "verify_runs P (Some EepromWriting, s) (None, commit_eeprom P s)"
proof -
  let ?s0 = "set_phase PHASE_WRITING s"
  obtain st1 w1 where p: "updateEepromWritePage P 0 (take 64 (glUpdateFirstPage ?s0)) (world ?s0) = (st1, w1)"
    by (meson surj_pair)
  let ?s1 = "?s0\<lparr>world := w1\<rparr>"
  let ?s2 = "set_phase PHASE_VERIFYING ?s1"
  obtain st2 readback w2 where r: "updateEepromRead P 0 (glUpdateReadback ?s2) 64 (world ?s2) = (st2, readback, w2)"
    by (metis prod_cases3)
  let ?s3 = "?s2\<lparr>world := w2, glUpdateReadback := readback\<rparr>"
  have f: "glUpdateFirstPage ?s0 = glUpdateFirstPage s" "world ?s0 = world s"
    by (simp_all add: set_phase_def)
  have commit: "commit_eeprom P s = (if st1 \<noteq> CY_U3P_SUCCESS then agent_fail ERROR_WRITE ?s1
      else if st2 \<noteq> CY_U3P_SUCCESS then agent_fail ERROR_READ ?s3
      else if take 64 (glUpdateReadback ?s3) \<noteq> take 64 (glUpdateFirstPage ?s3) then agent_fail ERROR_MEDIUM_DIGEST ?s3
      else complete_update (updateEepromPadToPage (st_length (glUpdateState ?s3))) ?s3)"
    using p r unfolding commit_eeprom_def Let_def f by (simp add: Let_def)
  have "verify_runs P (Some EepromCompare, ?s3) (None,
      if take 64 (glUpdateReadback ?s3) \<noteq> take 64 (glUpdateFirstPage ?s3) then agent_fail ERROR_MEDIUM_DIGEST ?s3
      else complete_update (updateEepromPadToPage (st_length (glUpdateState ?s3))) ?s3)"
    using verify_fails [of P ERROR_MEDIUM_DIGEST ?s3] verify_completes [of P True ?s3]
    by (intro verify_then) (simp del: agent.simps)
  then have "verify_runs P (Some EepromReadBack, ?s2) (None,
      if st2 \<noteq> CY_U3P_SUCCESS then agent_fail ERROR_READ ?s3
      else if take 64 (glUpdateReadback ?s3) \<noteq> take 64 (glUpdateFirstPage ?s3) then agent_fail ERROR_MEDIUM_DIGEST ?s3
      else complete_update (updateEepromPadToPage (st_length (glUpdateState ?s3))) ?s3)"
    using verify_fails [of P ERROR_READ ?s3]
    by (intro verify_then) (simp add: r)
  then have "verify_runs P (Some EepromAgain, ?s1) (None,
      if st2 \<noteq> CY_U3P_SUCCESS then agent_fail ERROR_READ ?s3
      else if take 64 (glUpdateReadback ?s3) \<noteq> take 64 (glUpdateFirstPage ?s3) then agent_fail ERROR_MEDIUM_DIGEST ?s3
      else complete_update (updateEepromPadToPage (st_length (glUpdateState ?s3))) ?s3)"
    by (intro verify_then) (simp only: verify_step.simps)
  then have "verify_runs P (Some EepromWrite, ?s0) (None, commit_eeprom P s)"
    unfolding commit using verify_fails [of P ERROR_WRITE ?s1]
    by (intro verify_then) (simp add: p Let_def)
  then show ?thesis by (intro verify_then) simp
qed

lemma eeprom_runs: "verify_runs P (Some EepromInit, s) (None, updateAgentVerifyEeprom P s)"
proof -
  let ?t = "set_verified UPDATE_EEPROM_PAGE_SIZE (s\<lparr>glUpdateMediumHash :=
     sha_256_write (sha_256_init (glUpdateMediumHash s)) (take 64 (glUpdateFirstPage s))\<rparr>)"
  obtain ok u where v: "verify_eeprom_loop P (st_length (glUpdateState ?t)) UPDATE_EEPROM_PAGE_SIZE ?t = (ok, u)"
    by (meson surj_pair)
  have "verify_runs P (Some (EepromLoop UPDATE_EEPROM_PAGE_SIZE), ?t) (if ok then Some EepromClose else None, u)"
    using eeprom_loop_runs [of P UPDATE_EEPROM_PAGE_SIZE ?t] unfolding v by simp
  moreover have "verify_runs P (if ok then Some EepromClose else None, u) (None, updateAgentVerifyEeprom P s)"
  proof (cases ok)
    case False
    then show ?thesis using v by (simp add: updateAgentVerifyEeprom_def Let_def)
  next
    case True
    let ?c = "u\<lparr>glUpdateMediumDigest := sha_256_close (glUpdateMediumHash u)\<rparr>"
    have "verify_runs P (Some EepromClose, u) (None, updateAgentVerifyEeprom P s)"
      using True v verify_fails [of P ERROR_MEDIUM_DIGEST ?c] commit_eeprom_runs [of P ?c]
      by (intro verify_then) (auto simp: updateAgentVerifyEeprom_def Let_def)
    then show ?thesis using True by simp
  qed
  ultimately have "verify_runs P (Some (EepromLoop UPDATE_EEPROM_PAGE_SIZE), ?t) (None, updateAgentVerifyEeprom P s)"
    by (rule rtranclp_trans)
  then have "verify_runs P (Some EepromFirst, s\<lparr>glUpdateMediumHash :=
     sha_256_write (sha_256_init (glUpdateMediumHash s)) (take 64 (glUpdateFirstPage s))\<rparr>)
     (None, updateAgentVerifyEeprom P s)"
    by (intro verify_then) simp
  then show ?thesis by (intro verify_then) simp
qed

lemma verification_runs: "verify_runs P (Some VerifyStart, s) (None, updateAgentVerify P s)"
proof -
  let ?t = "s\<lparr>glUpdateVerifyPending := False\<rparr>"
  have "verify_runs P (Some VerifyTarget, ?t) (None,
      if updateTargetIsEpcs (st_target (glUpdateState ?t)) then updateAgentVerifyEpcs P ?t
      else updateAgentVerifyEeprom P ?t)"
    using epcs_runs [of P ?t] eeprom_runs [of P ?t] by (intro verify_then) simp
  then have "verify_runs P (Some VerifyPhase, ?t) (None, updateAgentVerify P s)"
    by (intro verify_then) (simp add: updateAgentVerify_def Let_def)
  then show ?thesis by (intro verify_then) simp
qed

end
