(* ===== verification/FirmwareFrames.thy ===== *)
theory FirmwareFrames
  imports Firmware VerifySteps
begin

text \<open>
  What the register link, the flash driver and the update agent leave alone. The locale
  \<open>kept_link\<close> takes a predicate on the world that the SDK calls of the first two modules keep,
  and carries it through every function of them; \<open>kept_world\<close> adds the I2C calls, and with them
  the update agent. None of those functions touches a variable of the main module, the fields
  after the agent's. Both facts are \<open>kept\<close>.
\<close>

definition kept :: "('w \<Rightarrow> bool) \<Rightarrow> ('w, 'z) agent_scheme \<Rightarrow> ('w, 'z) agent_scheme \<Rightarrow> bool" where
  "kept Q s s' \<longleftrightarrow> agent.more s' = agent.more s \<and> (Q (world s) \<longrightarrow> Q (world s'))"

lemma kept_refl [simp]: "kept Q s s"
  by (simp add: kept_def)

lemma kept_trans [trans]: "kept Q s t \<Longrightarrow> kept Q t u \<Longrightarrow> kept Q s u"
  by (simp add: kept_def)

lemma kept_epcs:
  assumes "epcs_only s t" and "Q (world s) \<Longrightarrow> Q (world t)"
  shows "kept Q s t"
  using assms by (auto simp: epcs_only_def kept_def)

lemma kept_world_only: "world_only s t \<Longrightarrow> (Q (world s) \<Longrightarrow> Q (world t)) \<Longrightarrow> kept Q s t"
  by (rule kept_epcs [OF epcs_only_world])

lemma kept_fields [simp]:
  "kept Q s t \<Longrightarrow> kept Q s (agent_fail e t)"
  "kept Q s t \<Longrightarrow> kept Q s (set_phase ph t)"
  "kept Q s t \<Longrightarrow> kept Q s (set_written n t)"
  "kept Q s t \<Longrightarrow> kept Q s (set_verified n t)"
  "kept Q s t \<Longrightarrow> kept Q s (complete_update n t)"
  "kept Q s t \<Longrightarrow> kept Q s (count_chunk data t)"
  "kept Q s t \<Longrightarrow> kept Q s (t\<lparr>glUpdateState := u\<rparr>)"
  "kept Q s t \<Longrightarrow> kept Q s (t\<lparr>glUpdateVerifyPending := b\<rparr>)"
  "kept Q s t \<Longrightarrow> kept Q s (t\<lparr>glUpdateI2cReady := b\<rparr>)"
  "kept Q s t \<Longrightarrow> kept Q s (t\<lparr>glUpdateFirstPage := bs\<rparr>)"
  "kept Q s t \<Longrightarrow> kept Q s (t\<lparr>glUpdateReadback := bs\<rparr>)"
  "kept Q s t \<Longrightarrow> kept Q s (t\<lparr>glUpdatePagePad := bs\<rparr>)"
  "kept Q s t \<Longrightarrow> kept Q s (t\<lparr>glUpdateStreamHash := h\<rparr>)"
  "kept Q s t \<Longrightarrow> kept Q s (t\<lparr>glUpdateStreamDigest := bs\<rparr>)"
  "kept Q s t \<Longrightarrow> kept Q s (t\<lparr>glUpdateMediumHash := h\<rparr>)"
  "kept Q s t \<Longrightarrow> kept Q s (t\<lparr>glUpdateMediumDigest := bs\<rparr>)"
  "kept Q s t \<Longrightarrow> kept Q s (t\<lparr>glUpdateBootBlock := bs\<rparr>)"
  "kept Q s t \<Longrightarrow> kept Q s (t\<lparr>glFpgaPresent := b\<rparr>)"
  "kept Q s t \<Longrightarrow> kept Q s (t\<lparr>glFpgaLockReady := b\<rparr>)"
  "kept Q s t \<Longrightarrow> kept Q s (t\<lparr>glFpgaIdentity := bs\<rparr>)"
  "kept Q s t \<Longrightarrow> Q (world t) \<longrightarrow> Q w \<Longrightarrow> kept Q s (t\<lparr>world := w\<rparr>)"
  by (simp_all add: kept_def agent_fail_def set_phase_def set_written_def set_verified_def
      complete_update_def count_chunk_def)

locale kept_link =
  fixes P :: "('w, 'p) platform_scheme" and Q :: "'w \<Rightarrow> bool"
  assumes busy_wait [simp]: "Q w \<Longrightarrow> Q (CyU3PBusyWait P n w)"
    and thread_sleep [simp]: "Q w \<Longrightarrow> Q (CyU3PThreadSleep P n w)"
    and set_pin [simp]: "g \<in> {22, 23, 25} \<Longrightarrow> Q w \<Longrightarrow> Q (CyU3PGpioSimpleSetValue P g v w)"
    and get_pin [simp]: "Q w \<Longrightarrow> Q (snd (snd (CyU3PGpioSimpleGetValue P g w)))"
    and mutex_create [simp]: "Q w \<Longrightarrow> Q (snd (CyU3PMutexCreate P w))"
    and mutex_get [simp]: "Q w \<Longrightarrow> Q (snd (CyU3PMutexGet P w))"
    and mutex_put [simp]: "Q w \<Longrightarrow> Q (CyU3PMutexPut P w)"
begin

subsection \<open>The register link\<close>

lemma transfer_byte [simp]: "Q w \<Longrightarrow> Q (snd (transferByte P b w))"
proof -
  have bit: "Q (snd r) \<Longrightarrow> Q (snd (transferBit P b n r))" for n r
    by (simp add: transferBit_def Let_def case_prod_beta)
  have all: "Q (snd r) \<Longrightarrow> Q (snd (fold (transferBit P b) ns r))" for ns r
    by (induction ns arbitrary: r) (simp_all add: bit)
  show "Q w \<Longrightarrow> Q (snd (transferByte P b w))" unfolding transferByte_def by (rule all) simp
qed

lemma select [simp]: "Q w \<Longrightarrow> Q (selectFpga P w)" "Q w \<Longrightarrow> Q (deselectFpga P w)"
  by (simp_all add: selectFpga_def deselectFpga_def Let_def)

lemma send_bytes [simp]: "Q w \<Longrightarrow> Q (sendBytes P bs w)"
  by (induction bs arbitrary: w) simp_all

lemma receive_bytes [simp]: "Q w \<Longrightarrow> Q (snd (receiveBytes P n w))"
  by (induction n arbitrary: w) (simp_all add: Let_def case_prod_beta)

lemma lock [simp]:
  "Q (world s) \<Longrightarrow> Q (world (snd (takeLock P s)))"
  "Q (world s) \<Longrightarrow> Q (world (releaseLock P s))"
  by (simp_all add: takeLock_def releaseLock_def Let_def case_prod_beta)

lemma registers [simp]:
  "Q (world s) \<Longrightarrow> Q (world (snd (fpgaRegistersRead P a n s)))"
  "Q (world s) \<Longrightarrow> Q (world (snd (fpgaRegistersWrite P a v s)))"
  "Q (world s) \<Longrightarrow> Q (world (snd (fpgaRegistersWriteBurst P a bs s)))"
  "Q (world s) \<Longrightarrow> Q (world (snd (fpgaRegistersSetLeds P v s)))"
  by (simp_all add: fpgaRegistersRead_def fpgaRegistersWrite_def fpgaRegistersWriteBurst_def
      fpgaRegistersSetLeds_def Let_def case_prod_beta)

lemma kept_registers [simp]:
  "kept Q s t \<Longrightarrow> kept Q s (snd (fpgaRegistersRead P a n t))"
  "kept Q s t \<Longrightarrow> kept Q s (snd (fpgaRegistersWrite P a v t))"
  "kept Q s t \<Longrightarrow> kept Q s (snd (fpgaRegistersSetLeds P v t))"
  "kept Q s t \<Longrightarrow> kept Q s (snd (fpgaRegistersStart P t))"
proof -
  have "kept Q t (snd (fpgaRegistersRead P a n t))" "kept Q t (snd (fpgaRegistersWrite P a v t))"
    for t :: "('w, 'z) agent_scheme" and a n v
    by (rule kept_world_only, simp_all)+
  note r = this [THEN kept_trans [rotated]]
  show "kept Q s t \<Longrightarrow> kept Q s (snd (fpgaRegistersRead P a n t))"
    "kept Q s t \<Longrightarrow> kept Q s (snd (fpgaRegistersWrite P a v t))"
    "kept Q s t \<Longrightarrow> kept Q s (snd (fpgaRegistersSetLeds P v t))"
    by (simp_all add: r fpgaRegistersSetLeds_def)
  show "kept Q s t \<Longrightarrow> kept Q s (snd (fpgaRegistersStart P t))"
    by (simp add: fpgaRegistersStart_def Let_def case_prod_beta)
qed

lemma kept_probe_loop: "kept Q s t \<Longrightarrow> kept Q s (probe_loop P attempt attempts t)"
proof (induction "attempts - attempt" arbitrary: attempt t)
  case 0
  then show ?case by (simp add: probe_loop.simps [of P attempt])
next
  case (Suc n)
  have n: "n = attempts - Suc attempt" "attempt < attempts" using Suc.hyps(2) by simp_all
  obtain r u where r: "fpgaRegistersRead P (of_nat FPGA_REGISTER_ID) (of_nat FPGA_IDENTITY_LENGTH) t = (r, u)"
    by (cases "fpgaRegistersRead P (of_nat FPGA_REGISTER_ID) (of_nat FPGA_IDENTITY_LENGTH) t")
  have "kept Q s u"
    using kept_registers(1) [OF Suc.prems, of "of_nat FPGA_REGISTER_ID" "of_nat FPGA_IDENTITY_LENGTH"]
    unfolding r by simp
  then show ?case using n(2)
    unfolding probe_loop.simps [of P attempt attempts t] r prod.case
    by (cases r) (auto simp: Let_def intro!: Suc.hyps(1) [OF n(1)])
qed

lemma kept_probe [simp]: "kept Q s t \<Longrightarrow> kept Q s (snd (fpgaRegistersProbe P attempts t))"
  by (simp add: fpgaRegistersProbe_def Let_def kept_probe_loop)

subsection \<open>The flash driver\<close>

lemma all_steps:
  assumes "\<And>f s. f \<in> set fs \<Longrightarrow> Q (world s) \<Longrightarrow> Q (world (snd (f s)))" and "Q (world s)"
  shows "Q (world (snd (all_ok fs s)))"
  using all_ok_preserves [where P = "\<lambda>s. Q (world s)"] assms by blast

lemma bridge [simp]:
  "Q (world s) \<Longrightarrow> Q (world (snd (epcsUnlock P s)))"
  "Q (world s) \<Longrightarrow> Q (world (epcsLock P s))"
  "Q (world s) \<Longrightarrow> Q (world (snd (epcsAssert P s)))"
  "Q (world s) \<Longrightarrow> Q (world (snd (epcsRelease P s)))"
  "Q (world s) \<Longrightarrow> Q (world (snd (epcsSend P bs s)))"
  "Q (world s) \<Longrightarrow> Q (world (snd (epcsTransfer P b s)))"
  by (auto simp: epcsUnlock_def epcsLock_def epcsAssert_def epcsRelease_def epcsSend_def
      epcsTransfer_def Let_def case_prod_beta simp del: all_ok.simps intro!: all_steps)

lemma command [simp]:
  "world (epcsCommand op a s) = world s"
  "Q (world s) \<Longrightarrow> Q (world (snd (epcsSendCommand P n s)))"
  by (simp_all add: epcsCommand_def epcsSendCommand_def)

lemma wait_loop [simp]: "Q (world s) \<Longrightarrow> Q (world (snd (epcsWaitReady_loop P waited s)))"
proof (induction "EPCS_READY_TIMEOUT_MS - waited" arbitrary: waited s rule: less_induct)
  case less
  obtain r t where r: "epcsTransfer P 0xFF s = (r, t)" by (cases "epcsTransfer P 0xFF s")
  then have t: "Q (world t)" using bridge(6) [OF less.prems, of "0xFF"] by simp
  show ?case
    unfolding epcsWaitReady_loop.simps [of P waited s] r prod.case Let_def
    using t less.prems by (auto split: option.split intro!: less.hyps)
qed

lemma cycle [simp]:
  "Q (world s) \<Longrightarrow> Q (world (snd (epcsWriteEnable P s)))"
  "Q (world s) \<Longrightarrow> Q (world (snd (epcsWaitReady P s)))"
  by (auto simp: epcsWriteEnable_def epcsWaitReady_def simp del: all_ok.simps intro!: all_steps)

lemma read_loop [simp]: "Q (world s) \<Longrightarrow> Q (world (snd (epcsRead_loop P n s)))"
  by (induction n arbitrary: s) (auto simp: Let_def case_prod_beta split: option.split)

lemma sequence [simp]:
  "Q (world s) \<Longrightarrow> Q (world (snd (all_ok [epcsAssert P, epcsSendCommand P n] s)))"
  "Q (world s) \<Longrightarrow> Q (world (snd (all_ok [epcsWriteEnable P, epcsAssert P, epcsSendCommand P n,
     epcsRelease P, epcsWaitReady P] s)))"
  by (rule all_steps; auto)+

lemma operations [simp]:
  "Q (world s) \<Longrightarrow> Q (world (snd (epcsFlashEraseSector P a s)))"
  "Q (world s) \<Longrightarrow> Q (world (snd (epcsFlashProgramPage P a data s)))"
  "Q (world s) \<Longrightarrow> Q (world (snd (epcsFlashRead P a n s)))"
  "Q (world s) \<Longrightarrow> Q (world (snd (snd (epcsFlashIdentify P s))))"
  by (auto simp: epcsFlashEraseSector_def epcsFlashProgramPage_def epcsFlashRead_def
      epcsFlashIdentify_def Let_def case_prod_beta split: option.split simp del: all_ok.simps)

lemma kept_flash [simp]:
  "kept Q s t \<Longrightarrow> kept Q s (snd (epcsFlashEraseSector P a t))"
  "kept Q s t \<Longrightarrow> kept Q s (snd (epcsFlashProgramPage P a data t))"
  "kept Q s t \<Longrightarrow> kept Q s (snd (epcsFlashRead P a n t))"
  "kept Q s t \<Longrightarrow> kept Q s (snd (snd (epcsFlashIdentify P t)))"
  "kept Q s t \<Longrightarrow> kept Q s (snd (epcsFlashReconfigureFpga P t))"
proof -
  have "kept Q t (snd (epcsFlashEraseSector P a t))" "kept Q t (snd (epcsFlashProgramPage P a data t))"
    "kept Q t (snd (epcsFlashRead P a n t))" "kept Q t (snd (snd (epcsFlashIdentify P t)))"
    by (rule kept_epcs [OF epcs_only_erase] kept_epcs [OF epcs_only_program]
        kept_epcs [OF epcs_only_read] kept_epcs [OF epcs_only_identify], simp)+
  note r = this [THEN kept_trans [rotated]]
  show "kept Q s t \<Longrightarrow> kept Q s (snd (epcsFlashEraseSector P a t))"
    "kept Q s t \<Longrightarrow> kept Q s (snd (epcsFlashProgramPage P a data t))"
    "kept Q s t \<Longrightarrow> kept Q s (snd (epcsFlashRead P a n t))"
    "kept Q s t \<Longrightarrow> kept Q s (snd (snd (epcsFlashIdentify P t)))"
    by (fact r)+
  show "kept Q s t \<Longrightarrow> kept Q s (snd (epcsFlashReconfigureFpga P t))"
    by (simp add: epcsFlashReconfigureFpga_def fpgaRegistersForgetProbe_def Let_def case_prod_beta)
qed

end

subsection \<open>The update agent\<close>

locale kept_world = kept_link +
  assumes i2c_init [simp]: "Q w \<Longrightarrow> Q (snd (CyU3PI2cInit P w))"
    and i2c_config [simp]: "Q w \<Longrightarrow> Q (snd (CyU3PI2cSetConfig P cfg w))"
    and i2c_send [simp]: "Q w \<Longrightarrow> Q (snd (CyU3PI2cTransmitBytes P pre bs tries w))"
    and i2c_receive [simp]: "Q w \<Longrightarrow> Q (snd (snd (CyU3PI2cReceiveBytes P pre len tries w)))"
    and i2c_wait [simp]: "Q w \<Longrightarrow> Q (snd (CyU3PI2cWaitForAck P pre tries w))"
begin

lemmas thread_sleep = thread_sleep
  and kept_registers = kept_registers
  and kept_probe = kept_probe

lemma eeprom_wait [simp]: "Q w \<Longrightarrow> Q (snd (updateEepromWaitReady P a w))"
  by (simp add: updateEepromWaitReady_def)

lemma eeprom_write_attempts [simp]:
  "Q w \<Longrightarrow> Q (snd (eeprom_write_attempts P a data attempt status w))"
proof (induction "UPDATE_I2C_ATTEMPTS - attempt" arbitrary: attempt status w)
  case 0
  then show ?case by (simp add: eeprom_write_attempts.simps [of P a data attempt])
next
  case (Suc n)
  have "n = UPDATE_I2C_ATTEMPTS - Suc attempt" using Suc.hyps(2) by simp
  note ih = Suc.hyps(1) [OF this]
  show ?case unfolding eeprom_write_attempts.simps [of P a data attempt]
    by (simp add: Let_def case_prod_beta ih Suc.prems)
qed

lemma eeprom_read_attempts [simp]:
  "Q w \<Longrightarrow> Q (snd (snd (eeprom_read_attempts P a data len attempt status w)))"
proof (induction "UPDATE_I2C_ATTEMPTS - attempt" arbitrary: attempt status w data)
  case 0
  then show ?case by (simp add: eeprom_read_attempts.simps [of P a data len attempt])
next
  case (Suc n)
  have "n = UPDATE_I2C_ATTEMPTS - Suc attempt" using Suc.hyps(2) by simp
  note ih = Suc.hyps(1) [OF this]
  show ?case unfolding eeprom_read_attempts.simps [of P a data len attempt]
    by (simp add: Let_def case_prod_beta ih Suc.prems)
qed

lemma eeprom_page [simp]:
  "Q w \<Longrightarrow> Q (snd (updateEepromWritePage P a data w))"
  "Q w \<Longrightarrow> Q (snd (snd (updateEepromRead P a data len w)))"
  by (simp_all add: updateEepromWritePage_def updateEepromRead_def)

lemma kept_start [simp]: "kept Q s t \<Longrightarrow> kept Q s (snd (updateAgentStart P t))"
  by (simp add: updateAgentStart_def Let_def case_prod_beta)

lemma kept_medium [simp]: "kept Q s t \<Longrightarrow> kept Q s (snd (updateAgentMediumIsReady P target len t))"
  by (simp add: updateAgentMediumIsReady_def Let_def case_prod_beta)

lemma kept_begin [simp]: "kept Q s t \<Longrightarrow> kept Q s (snd (updateAgentBegin P target data len running t))"
  by (simp add: updateAgentBegin_def refuse_begin_def Let_def case_prod_beta split: option.split)

lemma kept_data_epcs [simp]: "kept Q s t \<Longrightarrow> kept Q s (snd (data_epcs_loop P data consumed t))"
proof (induction "length data - consumed" arbitrary: consumed t rule: less_induct)
  case less
  show ?case
    unfolding data_epcs_loop.simps [of P data consumed t]
    by (simp add: Let_def case_prod_beta less.prems less.hyps span_progress)
qed

lemma kept_data_eeprom [simp]: "kept Q s t \<Longrightarrow> kept Q s (snd (data_eeprom_loop P data consumed offset t))"
proof (induction "length data - consumed" arbitrary: consumed offset t rule: less_induct)
  case less
  show ?case
    unfolding data_eeprom_loop.simps [of P data consumed offset t]
    by (simp add: Let_def case_prod_beta less.prems less.hyps span_progress)
qed

lemma kept_data [simp]: "kept Q s t \<Longrightarrow> kept Q s (snd (updateAgentData P target i data t))"
  by (simp add: updateAgentData_def updateAgentDataEpcs_def Let_def case_prod_beta)

lemma kept_decisions [simp]:
  "kept Q s t \<Longrightarrow> kept Q s (snd (updateAgentChunkRefusal target i len t))"
  "kept Q s t \<Longrightarrow> kept Q s (snd (updateAgentFinish target t))"
  "kept Q s t \<Longrightarrow> kept Q s (snd (updateAgentReconfigureFpga P t))"
  by (simp_all add: updateAgentChunkRefusal_def updateAgentFinish_def
      updateAgentReconfigureFpga_def Let_def)

lemma kept_verify_epcs [simp]:
  "kept Q s t \<Longrightarrow> kept Q s (snd (snd (verify_epcs_loop P len offset crc t)))"
proof (induction "unat len - offset" arbitrary: offset crc t rule: less_induct)
  case less
  show ?case
    unfolding verify_epcs_loop.simps [of P len offset crc t]
    by (auto simp: Let_def case_prod_beta less.prems split: option.split intro!: less.hyps)
qed

lemma kept_verify_eeprom [simp]:
  "kept Q s t \<Longrightarrow> kept Q s (snd (verify_eeprom_loop P len address t))"
proof -
  have "P' = P \<longrightarrow> kept Q s t \<longrightarrow> kept Q s (snd (verify_eeprom_loop P' len address t))" for P'
  proof (induction P' len address t rule: verify_eeprom_loop.induct)
    case (1 P' len address t)
    show ?case
    proof (intro impI)
      assume p: "P' = P" and t: "kept Q s t"
      let ?span = "updateEepromReadSpan address (len - address) UPDATE_READBACK_SIZE"
      obtain status readback w
        where r: "updateEepromRead P address (glUpdateReadback t) (unat ?span) (world t)
          = (status, readback, w)" by (metis prod_cases3)
      have "Q (world t) \<longrightarrow> Q w"
        using eeprom_page(2) [of "world t" address "glUpdateReadback t" "unat ?span"] r by simp
      then show "kept Q s (snd (verify_eeprom_loop P' len address t))"
        unfolding p verify_eeprom_loop.simps [of P len address t]
        using 1 [unfolded p] t by (simp add: Let_def r)
    qed
  qed
  then show "kept Q s t \<Longrightarrow> kept Q s (snd (verify_eeprom_loop P len address t))" by simp
qed

lemma kept_commit [simp]:
  "kept Q s t \<Longrightarrow> kept Q s (commit_epcs P crc t)"
  "kept Q s t \<Longrightarrow> kept Q s (commit_eeprom P t)"
  by (simp_all add: commit_epcs_def commit_eeprom_def Let_def case_prod_beta split: option.split)

lemma kept_verify_step: "kept Q s t \<Longrightarrow> kept Q s (snd (verify_step P pc t))"
  by (cases pc) (simp_all add: Let_def case_prod_beta split: option.split)

lemma kept_verify [simp]: "kept Q s t \<Longrightarrow> kept Q s (updateAgentVerify P t)"
  by (simp add: updateAgentVerify_def updateAgentVerifyEpcs_def updateAgentVerifyEeprom_def
      Let_def case_prod_beta)

end

end
