(* ===== verification/FirmwareSafety.thy ===== *)
theory FirmwareSafety
  imports FirmwareFrames
begin

text \<open>
  The firmware as a system of steps: callbacks of the USB driver, interrupts of the GPIO block
  and the passes of the application thread, in any order. The contract \<open>capture_board\<close> says
  what the calls of the SDK do to the collectData pin and to link power management; under it
  the invariant \<open>capture_inv\<close> holds in every reachable state.
\<close>

subsection \<open>What the agent does to its phase\<close>

lemma begin_during_capture:
  assumes "\<not> updateAgentInProgress s"
  shows "\<not> updateAgentInProgress (snd (updateAgentBegin P target data len True s))"
proof -
  have "updateBeginIsAllowed st target n f True \<noteq> ERROR_NONE" for st n f
    by (simp add: begin_allowed_iff)
  moreover have "\<not> updateAgentInProgress (snd (refuse_begin e s))" for e
    using assms by (simp add: refuse_begin_def updateAgentInProgress_def agent_fail_def
        updateStateFail_def updateIsInProgress_def)
  ultimately show ?thesis by (simp add: updateAgentBegin_def split: option.split)
qed

lemma failed_not_in_progress [simp]: "\<not> updateAgentInProgress (agent_fail e s)"
  by (simp add: updateAgentInProgress_def updateIsInProgress_def)

lemma idle_stays_idle:
  assumes "\<not> updateAgentInProgress s"
  shows "\<not> updateAgentInProgress (snd (updateAgentChunkRefusal target i len s))"
    and "\<not> updateAgentInProgress (snd (updateAgentData P target i data s))"
    and "\<not> updateAgentInProgress (snd (updateAgentFinish target s))"
    and "\<not> updateAgentInProgress (updateAgentVerify P s)"
proof -
  have ph: "st_phase (glUpdateState s) \<noteq> PHASE_RECEIVING" "st_phase (glUpdateState s) \<noteq> PHASE_VERIFYING"
    using assms by (auto simp: updateAgentInProgress_def updateIsInProgress_def)
  have c: "updateChunkIsAllowed (glUpdateState s) target i n \<noteq> ERROR_NONE" for n
    using ph(1) by (simp add: updateChunkIsAllowed_def)
  have f: "updateFinishIsAllowed (glUpdateState s) target \<noteq> ERROR_NONE"
    using ph(1) by (simp add: updateFinishIsAllowed_def)
  show "\<not> updateAgentInProgress (snd (updateAgentChunkRefusal target i len s))"
    "\<not> updateAgentInProgress (snd (updateAgentData P target i data s))"
    "\<not> updateAgentInProgress (snd (updateAgentFinish target s))"
    by (simp_all add: updateAgentChunkRefusal_def updateAgentData_def updateAgentFinish_def c f Let_def)
  show "\<not> updateAgentInProgress (updateAgentVerify P s)"
    using ph(2) assms by (simp add: updateAgentVerify_def updateAgentInProgress_def)
qed

text \<open>The places of the verification after its look at the phase.\<close>

definition past_check :: "verify_at \<Rightarrow> bool" where
  "past_check pc \<longleftrightarrow> pc \<noteq> VerifyStart \<and> pc \<noteq> VerifyPhase"

lemma past_check_simps [simp]:
  "\<not> past_check VerifyStart" "\<not> past_check VerifyPhase" "past_check VerifyTarget"
  by (simp_all add: past_check_def)

lemma agent_fields_in_progress [simp]:
  "updateAgentInProgress (set_written n s) = updateAgentInProgress s"
  "updateAgentInProgress (set_verified n s) = updateAgentInProgress s"
  "updateAgentInProgress (set_phase PHASE_WRITING s)"
  "updateAgentInProgress (set_phase PHASE_VERIFYING s)"
  "\<not> updateAgentInProgress (set_phase PHASE_COMPLETE s)"
  by (simp_all add: updateAgentInProgress_def updateIsInProgress_def set_written_def set_verified_def set_phase_def)

lemma link_keeps_update [simp]:
  "glUpdateState (snd (fpgaRegistersRead P a n s)) = glUpdateState s"
  "glUpdateState (snd (fpgaRegistersWrite P a v s)) = glUpdateState s"
  "glUpdateState (snd (fpgaRegistersSetLeds P v s)) = glUpdateState s"
  "glUpdateState (snd (fpgaRegistersStart P s)) = glUpdateState s"
proof -
  have w: "world_only s t \<Longrightarrow> glUpdateState t = glUpdateState s" for t
    by (auto simp: world_only_def)
  show "glUpdateState (snd (fpgaRegistersRead P a n s)) = glUpdateState s" by (rule w) simp
  have wr: "glUpdateState (snd (fpgaRegistersWrite P a v s)) = glUpdateState s" for a
    by (rule w) simp
  then show "glUpdateState (snd (fpgaRegistersWrite P a v s)) = glUpdateState s" .
  show "glUpdateState (snd (fpgaRegistersSetLeds P v s)) = glUpdateState s"
    by (simp add: fpgaRegistersSetLeds_def wr)
  show "glUpdateState (snd (fpgaRegistersStart P s)) = glUpdateState s"
    by (simp add: fpgaRegistersStart_def Let_def case_prod_beta)
qed

lemma probe_keeps_update [simp]:
  fixes P :: "('w, 'p) platform_scheme" and s :: "('w, 'z) agent_scheme"
  shows "glUpdateState (snd (fpgaRegistersProbe P attempts s)) = glUpdateState s"
proof -
  have "glUpdateState (probe_loop P attempt attempts t) = glUpdateState t"
    for attempt and t :: "('w, 'z) agent_scheme"
  proof (induction "attempts - attempt" arbitrary: attempt t)
    case 0
    then show ?case by (simp add: probe_loop.simps [of P attempt])
  next
    case (Suc n)
    have n: "n = attempts - Suc attempt" "attempt < attempts" using Suc.hyps(2) by simp_all
    obtain r u where r: "fpgaRegistersRead P (of_nat FPGA_REGISTER_ID) (of_nat FPGA_IDENTITY_LENGTH) t = (r, u)"
      by (cases "fpgaRegistersRead P (of_nat FPGA_REGISTER_ID) (of_nat FPGA_IDENTITY_LENGTH) t")
    have "glUpdateState u = glUpdateState t"
      using link_keeps_update(1) [of P "of_nat FPGA_REGISTER_ID" "of_nat FPGA_IDENTITY_LENGTH" t]
      unfolding r by simp
    then show ?case using n(2)
      unfolding probe_loop.simps [of P attempt attempts t] r prod.case
      by (cases r) (simp_all add: Let_def Suc.hyps(1) [OF n(1)])
  qed
  then show ?thesis by (simp add: fpgaRegistersProbe_def Let_def)
qed

lemma flash_keeps_update:
  "glUpdateState (snd (epcsFlashRead P a n s)) = glUpdateState s"
  "glUpdateState (snd (epcsFlashEraseSector P a s)) = glUpdateState s"
  "glUpdateState (snd (epcsFlashProgramPage P a data s)) = glUpdateState s"
  using epcs_only_read [of s P a n] epcs_only_erase [of s P a] epcs_only_program [of s P a data]
  by (auto simp: epcs_only_def)

lemma verify_in_progress:
  assumes "verify_step P pc s = (Some pc', t)" and "past_check pc \<Longrightarrow> updateAgentInProgress s" and "past_check pc'"
  shows "updateAgentInProgress t"
proof (cases pc)
  case VerifyPhase
  then show ?thesis using assms
    by (auto simp: updateAgentInProgress_def updateIsInProgress_def split: if_splits)
next
  case (EpcsRead offset span crc)
  then show ?thesis
    using assms flash_keeps_update(1) [of P "updateEpcsTargetBase (st_target (glUpdateState s)) + of_nat offset" span s]
    by (auto simp: Let_def case_prod_beta past_check_def updateAgentInProgress_def split: option.splits)
next
  case EpcsErase
  then show ?thesis using assms flash_keeps_update(2) [of P UPDATE_EPCS_BOOT_BLOCK_ADDRESS s]
    by (auto simp: Let_def case_prod_beta past_check_def updateAgentInProgress_def)
next
  case EpcsProgram
  then show ?thesis
    using assms flash_keeps_update(3) [of P UPDATE_EPCS_BOOT_BLOCK_ADDRESS "take UPDATE_BOOT_BLOCK_LENGTH (glUpdateBootBlock s)" s]
    by (auto simp: Let_def case_prod_beta past_check_def updateAgentInProgress_def)
next
  case EpcsReadBack
  then show ?thesis using assms flash_keeps_update(1) [of P UPDATE_EPCS_BOOT_BLOCK_ADDRESS UPDATE_BOOT_BLOCK_LENGTH s]
    by (auto simp: Let_def case_prod_beta past_check_def updateAgentInProgress_def split: option.splits)
qed (use assms in \<open>auto simp: Let_def case_prod_beta past_check_def updateAgentInProgress_def set_verified_def set_written_def
    set_phase_def updateIsInProgress_def split: if_splits\<close>)

subsection \<open>The contract of the capture hardware\<close>

text \<open>
  What is observed of the world: the level of the collectData pin and whether link power
  management is switched off, and nothing once the device has been reset. Only three calls
  change it; the others the firmware makes are \<open>quiet_call\<close>s and the answers on endpoint 0.
\<close>

inductive quiet_call :: "('w, 'p) usb_platform_scheme \<Rightarrow> ('w \<Rightarrow> 'w) \<Rightarrow> bool" for P where
  "quiet_call P (\<lambda>w. snd (CyU3PUartInit P w))"
| "quiet_call P (\<lambda>w. snd (CyU3PUartSetConfig P uart_settings w))"
| "quiet_call P (\<lambda>w. snd (CyU3PUartTxSetBlockXfer P 0xFFFFFFFF w))"
| "quiet_call P (\<lambda>w. snd (CyU3PDebugInit P CY_U3P_LPP_SOCKET_UART_CONS 8 w))"
| "quiet_call P (\<lambda>w. snd (CyU3PUsbStart P w))"
| "quiet_call P (\<lambda>w. snd (CyU3PUsbSetDesc P kind n bs w))"
| "quiet_call P (\<lambda>w. snd (CyU3PConnectState P c ss w))"
| "quiet_call P (\<lambda>w. snd (CyU3PSetEpConfig P CY_FX_EP_CONSUMER cfg w))"
| "quiet_call P (\<lambda>w. snd (CyU3PDmaMultiChannelCreate P capture_channel w))"
| "quiet_call P (\<lambda>w. snd (CyU3PDmaMultiChannelSetXfer P 0 0 w))"
| "quiet_call P (\<lambda>w. snd (CyU3PGpifLoad P w))"
| "quiet_call P (\<lambda>w. snd (CyU3PGpifSocketConfigure P t sock wm pt n w))"
| "quiet_call P (\<lambda>w. snd (CyU3PGpifSMStart P 0 0 w))"
| "quiet_call P (CyU3PDebugPreamble P False)"
| "quiet_call P (CyU3PUsbRegisterSetupCallback P True)"
| "quiet_call P (CyU3PUsbRegisterEventCallback P)"
| "quiet_call P (CyU3PUsbRegisterLPMRequestCallback P)"
| "quiet_call P (CyU3PUsbFlushEp P CY_FX_EP_CONSUMER)"
| "quiet_call P (CyU3PUsbResetEp P CY_FX_EP_CONSUMER)"
| "quiet_call P (CyU3PDmaMultiChannelReset P)"
| "quiet_call P (CyU3PDmaMultiChannelDestroy P)"
| "quiet_call P (CyU3PGpifRegisterCallback P)"
| "quiet_call P (CyU3PGpifDisable P True)"
| "quiet_call P (CyU3PUsbSetLinkPowerState P m)"

inductive control_call :: "('w, 'p) usb_platform_scheme \<Rightarrow> ('w \<Rightarrow> 'w) \<Rightarrow> bool" for P where
  "control_call P (CyU3PUsbAckSetup P)"
| "control_call P (CyU3PUsbStall P e b c)"
| "control_call P (CyU3PUsbSendEP0Data P bs)"
| "control_call P (\<lambda>w. snd (snd (CyU3PUsbGetEP0Data P n w)))"

locale capture_board =
  fixes P :: "('w, 'p) usb_platform_scheme" and pins :: "'w \<Rightarrow> (bool \<times> bool) option"
  assumes agent_calls: "kept_world P (\<lambda>w. pins w = x)"
    and quiet: "quiet_call P f \<Longrightarrow> pins (f w) = pins w"
    and control: "control_call P f \<Longrightarrow> pins (f w) = pins w"
    and collect_pin [simp]:
      "pins (CyU3PGpioSetValue P 19 v w) = map_option (\<lambda>(_, off). (v, off)) (pins w)"
    and lpm_enable [simp]: "pins (CyU3PUsbLPMEnable P w) = map_option (\<lambda>(c, _). (c, False)) (pins w)"
    and lpm_disable [simp]: "pins (CyU3PUsbLPMDisable P w) = map_option (\<lambda>(c, _). (c, True)) (pins w)"
    and device_reset [simp]: "pins (CyU3PDeviceReset P warm w) = None"

text \<open>
  The first part is the exclusion of capture and update; \<open>ex\<close> says whether it is claimed.
\<close>

definition flags_ok :: "bool \<Rightarrow> ('w, 'z) firmware_scheme \<Rightarrow> bool" where
  "flags_ok ex s \<longleftrightarrow>
     (ex \<and> dataCollectionFlag s \<longrightarrow> \<not> updateAgentInProgress s)
     \<and> (dataCollectionFlag s \<longrightarrow> glIsApplnActive s)
     \<and> (input0Flag s \<or> input1Flag s \<or> input2Flag s \<or> input3Flag s \<longrightarrow> dataCollectionFlag s)"

definition pins_ok :: "(bool \<times> bool) option \<Rightarrow> ('w, 'z) firmware_scheme \<Rightarrow> bool" where
  "pins_ok pins s \<longleftrightarrow>
     (case pins of None \<Rightarrow> True
      | Some (collecting, lpm_off) \<Rightarrow>
          collecting = dataCollectionFlag s \<and> (lpm_off \<longrightarrow> glIsApplnActive s))"

definition capture_inv ::
    "bool \<Rightarrow> ('w \<Rightarrow> (bool \<times> bool) option) \<Rightarrow> ('w, 'z) firmware_scheme \<Rightarrow> bool" where
  "capture_inv ex pins s \<longleftrightarrow> flags_ok ex s \<and> pins_ok (pins (world s)) s"

text \<open>The fields of the main module the invariant speaks of; \<open>same_flags\<close> compares them.\<close>

definition same_flags :: "('w, 'z) firmware_scheme \<Rightarrow> ('w, 'z) firmware_scheme \<Rightarrow> bool" where
  "same_flags s t \<longleftrightarrow> dataCollectionFlag t = dataCollectionFlag s
     \<and> glIsApplnActive t = glIsApplnActive s
     \<and> input0Flag t = input0Flag s \<and> input1Flag t = input1Flag s
     \<and> input2Flag t = input2Flag s \<and> input3Flag t = input3Flag s"

lemma same_flags_more: "agent.more t = agent.more s \<Longrightarrow> same_flags s t"
  by (cases s, cases t) (simp add: same_flags_def)

lemma pins_ok_None [simp]: "pins_ok None s"
  by (simp add: pins_ok_def)

lemma flags_ok_cong:
  assumes "same_flags s t" and "flags_ok ex s"
    and "ex \<Longrightarrow> dataCollectionFlag s \<Longrightarrow> \<not> updateAgentInProgress s \<Longrightarrow> \<not> updateAgentInProgress t"
  shows "flags_ok ex t"
  using assms unfolding flags_ok_def same_flags_def by metis

lemma pins_ok_cong: "same_flags s t \<Longrightarrow> pins_ok x s \<Longrightarrow> pins_ok x t"
  unfolding pins_ok_def same_flags_def by (cases x) auto

lemma capture_inv_cong:
  assumes "same_flags s t" and "pins (world t) = pins (world s) \<or> pins (world t) = None"
    and "ex \<Longrightarrow> dataCollectionFlag s \<Longrightarrow> \<not> updateAgentInProgress s \<Longrightarrow> \<not> updateAgentInProgress t"
    and "capture_inv ex pins s"
  shows "capture_inv ex pins t"
  using assms flags_ok_cong [OF assms(1)] pins_ok_cong [OF assms(1)] pins_ok_None
  unfolding capture_inv_def by metis

lemma more_in_progress:
  "glUpdateState t = glUpdateState s \<Longrightarrow> updateAgentInProgress t = updateAgentInProgress s"
  by (simp add: updateAgentInProgress_def)

context capture_board
begin

lemmas quiet_simps [simp] = quiet_call.intros [THEN quiet] control_call.intros [THEN control]

lemma agent_keeps_pins:
  assumes "\<And>x. kept_world P (\<lambda>w. pins w = x) \<Longrightarrow> kept (\<lambda>w. pins w = x) s t"
  shows "pins (world t) = pins (world s)" and "same_flags s t"
proof -
  have "agent.more t = agent.more s \<and> pins (world t) = pins (world s)"
    using assms [OF agent_calls, of "pins (world s)"] unfolding kept_def by blast
  then show "pins (world t) = pins (world s)" and "same_flags s t"
    using same_flags_more [of t s] by blast+
qed

end

subsection \<open>The capture path\<close>

lemma outcome_checked [simp]: "outcome_state (checked f s) = s\<lparr>world := snd (f (world s))\<rparr>"
  by (simp add: checked_def call_def domDupErrorHandler_def Let_def case_prod_beta)

lemma outcome_plainly [simp]: "outcome_state (plainly f s) = f s"
  by (simp add: plainly_def)

lemma outcome_load [simp]:
  "outcome_state (load_gpif P s) = s\<lparr>world := CyU3PGpifRegisterCallback P (snd (CyU3PGpifLoad P (world s)))\<rparr>"
  by (simp add: load_gpif_def call_def effect_def domDupErrorHandler_def Let_def case_prod_beta)

text \<open>The capture path at rest: nothing collected, no condition pending, the pins as given.\<close>

definition path_quiet ::
    "('w \<Rightarrow> (bool \<times> bool) option) \<Rightarrow> bool \<Rightarrow> updateState \<Rightarrow> (bool \<times> bool) option
     \<Rightarrow> ('w, 'z) firmware_scheme \<Rightarrow> bool" where
  "path_quiet pins active u x s \<longleftrightarrow> \<not> dataCollectionFlag s \<and> \<not> input0Flag s \<and> \<not> input1Flag s
     \<and> \<not> input2Flag s \<and> \<not> input3Flag s \<and> (active \<longrightarrow> glIsApplnActive s)
     \<and> glUpdateState s = u \<and> pins (world s) = x"

lemma in_order_plainly:
  "in_order (plainly f # fs) s = in_order fs (f s)"
  by (simp add: plainly_def)

context capture_board
begin

lemma stop_quiet:
  "path_quiet pins False (glUpdateState s) (map_option (\<lambda>_. (False, False)) (pins (world s)))
     (outcome_state (domDupStopApplication P s))"
  and stop_inactive: "\<not> glIsApplnActive (outcome_state (domDupStopApplication P s))"
proof -
  let ?u = "glUpdateState s" and ?x = "map_option (\<lambda>_. (False, False)) (pins (world s))"
  have x: "map_option ((\<lambda>(c, _). (c, False)) \<circ> (\<lambda>(_, off). (False, off))) p
      = map_option (\<lambda>_. (False, False)) p" for p :: "(bool \<times> bool) option"
    by (cases p) auto
  have "path_quiet pins False ?u ?x (outcome_state (domDupStopApplication P s))
      \<and> \<not> glIsApplnActive (outcome_state (domDupStopApplication P s))"
    unfolding domDupStopApplication_def in_order_plainly
    by (rule in_order_preserves)
      (auto simp: path_quiet_def effect_def stop_collecting_def domDupClearInputFlags_def
        option.map_comp x)
  then show "path_quiet pins False ?u ?x (outcome_state (domDupStopApplication P s))"
    and "\<not> glIsApplnActive (outcome_state (domDupStopApplication P s))" by blast+
qed

lemma start_quiet:
  assumes "CyU3PUsbGetSpeed P (world s) = CY_U3P_SUPER_SPEED"
  shows "path_quiet pins (glIsApplnActive s) (glUpdateState s)
     (map_option (\<lambda>(_, off). (False, off)) (pins (world s)))
     (outcome_state (domDupStartApplication P s))"
  unfolding domDupStartApplication_def assms Let_def in_order_plainly
  by (simp only: simp_thms if_False, rule in_order_preserves)
    (auto simp: path_quiet_def effect_def stop_collecting_def domDupClearInputFlags_def)

lemma start_slow:
  "CyU3PUsbGetSpeed P (world s) \<noteq> CY_U3P_SUPER_SPEED \<Longrightarrow> domDupStartApplication P s = Running s"
  by (simp add: domDupStartApplication_def)

lemma stop_inv: "capture_inv ex pins s \<Longrightarrow> capture_inv ex pins (outcome_state (domDupStopApplication P s))"
  using stop_quiet [of s]
  by (cases "pins (world s)") (auto simp: capture_inv_def flags_ok_def pins_ok_def path_quiet_def)

lemma start_inv:
  assumes "capture_inv ex pins s"
  shows "capture_inv ex pins (outcome_state (domDupStartApplication P s))"
proof (cases "CyU3PUsbGetSpeed P (world s) = CY_U3P_SUPER_SPEED")
  case True
  from start_quiet [OF this] show ?thesis using assms
    by (cases "pins (world s)") (auto simp: capture_inv_def flags_ok_def pins_ok_def path_quiet_def)
next
  case False
  then show ?thesis using assms by (simp add: start_slow)
qed

lemma stop_if_active_inv:
  "capture_inv ex pins s \<Longrightarrow> capture_inv ex pins (outcome_state (stop_if_active P s))"
  by (simp add: stop_if_active_def stop_inv)

lemma quiet_inv:
  "capture_inv ex pins s \<Longrightarrow> pins w = pins (world s) \<or> pins w = None \<Longrightarrow> capture_inv ex pins (s\<lparr>world := w\<rparr>)"
  by (erule capture_inv_cong [rotated 3]) (auto simp: same_flags_def updateAgentInProgress_def)

subsection \<open>Every callback keeps the invariant\<close>

lemma field_inv:
  "capture_inv ex pins s \<Longrightarrow> capture_inv ex pins (s\<lparr>glForceLinkU2 := b\<rparr>)"
  "capture_inv ex pins s \<Longrightarrow> capture_inv ex pins (s\<lparr>glUsbInitComplete := b\<rparr>)"
  "capture_inv ex pins s \<Longrightarrow> capture_inv ex pins (s\<lparr>glRegisterBuffer := bs\<rparr>)"
  "capture_inv ex pins s \<Longrightarrow> capture_inv ex pins (s\<lparr>glUpdateChunkBuffer := bs\<rparr>)"
  "capture_inv ex pins s \<Longrightarrow> capture_inv ex pins (s\<lparr>glUpdatePacketBuffer := bs\<rparr>)"
  by (erule capture_inv_cong [rotated 3]; simp add: same_flags_def updateAgentInProgress_def)+

lemma effect_inv:
  "capture_inv ex pins s \<Longrightarrow> pins (f (world s)) = pins (world s) \<Longrightarrow> capture_inv ex pins (effect f s)"
  "capture_inv ex pins s \<Longrightarrow> pins (snd (g (world s))) = pins (world s) \<Longrightarrow> capture_inv ex pins (snd (call g s))"
  by (simp_all add: effect_def call_def Let_def case_prod_beta quiet_inv)

lemma lpm_enable_inv: "capture_inv ex pins s \<Longrightarrow> capture_inv ex pins (effect (CyU3PUsbLPMEnable P) s)"
  by (cases "pins (world s)")
    (auto simp: effect_def capture_inv_def flags_ok_def pins_ok_def updateAgentInProgress_def)

lemma stop_collecting_inv: "capture_inv ex pins s \<Longrightarrow> capture_inv ex pins (stop_collecting P s)"
  by (cases "pins (world s)") (auto simp: effect_def stop_collecting_def domDupClearInputFlags_def
      capture_inv_def flags_ok_def pins_ok_def updateAgentInProgress_def)

lemma event_inv:
  assumes "capture_inv ex pins s"
  shows "capture_inv ex pins (outcome_state (domDupUSBEventCB P eventType eventData s))"
proof -
  have seq: "capture_inv ex pins (outcome_state (in_order fs s))"
    if "\<And>f t. f \<in> set fs \<Longrightarrow> capture_inv ex pins t \<Longrightarrow> capture_inv ex pins (outcome_state (f t))" for fs
    using that assms by (rule in_order_preserves)
  show ?thesis
  proof (cases eventType)
    case CY_U3P_USB_EVENT_SETCONF
    have "capture_inv ex pins (outcome_state (in_order [stop_if_active P,
        \<lambda>s. if eventData \<noteq> 0 then domDupStartApplication P s else Running s] s))"
      by (rule seq) (auto simp: stop_if_active_inv start_inv)
    then show ?thesis by (simp only: domDupUSBEventCB_def CY_U3P_USB_EVENT_SETCONF usb_event.case)
  next
    case CY_U3P_USB_EVENT_RESUME
    have "capture_inv ex pins (outcome_state (in_order [domDupStopApplication P, domDupStartApplication P] s))"
      by (rule seq) (auto simp: stop_inv start_inv)
    then show ?thesis using assms by (simp add: domDupUSBEventCB_def CY_U3P_USB_EVENT_RESUME del: in_order.simps)
  next
    case CY_U3P_USB_EVENT_RESET
    have "capture_inv ex pins (outcome_state (in_order [plainly (\<lambda>s. s\<lparr>glForceLinkU2 := False\<rparr>),
        stop_if_active P, plainly (effect (CyU3PUsbLPMEnable P))] s))"
      by (rule seq) (auto simp: stop_if_active_inv lpm_enable_inv field_inv)
    then show ?thesis by (simp only: domDupUSBEventCB_def CY_U3P_USB_EVENT_RESET usb_event.case)
  next
    case CY_U3P_USB_EVENT_DISCONNECT
    have "capture_inv ex pins (outcome_state (in_order [plainly (\<lambda>s. s\<lparr>glForceLinkU2 := False\<rparr>),
        stop_if_active P] s))"
      by (rule seq) (auto simp: stop_if_active_inv field_inv)
    then show ?thesis by (simp only: domDupUSBEventCB_def CY_U3P_USB_EVENT_DISCONNECT usb_event.case)
  next
    case CY_U3P_USB_EVENT_VBUS_REMOVED
    have "capture_inv ex pins (outcome_state (in_order [stop_if_active P,
        plainly (\<lambda>s. snd (call (CyU3PConnectState P False True) s))] s))"
      by (rule seq) (auto simp: stop_if_active_inv effect_inv)
    then show ?thesis using assms
      by (simp add: domDupUSBEventCB_def CY_U3P_USB_EVENT_VBUS_REMOVED del: in_order.simps)
  next
    case CY_U3P_USB_EVENT_SUSPEND
    then show ?thesis using stop_collecting_inv [OF assms]
      by (simp add: domDupUSBEventCB_def Let_def effect_inv)
  qed (use assms in \<open>simp_all add: domDupUSBEventCB_def lpm_enable_inv effect_inv\<close>)
qed

lemma input_inv:
  assumes "capture_inv ex pins s" and "b \<Longrightarrow> dataCollectionFlag s"
  shows "capture_inv ex pins (s\<lparr>input0Flag := b\<rparr>)" and "capture_inv ex pins (s\<lparr>input1Flag := b\<rparr>)"
    and "capture_inv ex pins (s\<lparr>input2Flag := b\<rparr>)" and "capture_inv ex pins (s\<lparr>input3Flag := b\<rparr>)"
proof -
  have "pins_ok x (s\<lparr>input0Flag := b\<rparr>) = pins_ok x s" "pins_ok x (s\<lparr>input1Flag := b\<rparr>) = pins_ok x s"
    "pins_ok x (s\<lparr>input2Flag := b\<rparr>) = pins_ok x s" "pins_ok x (s\<lparr>input3Flag := b\<rparr>) = pins_ok x s" for x
    by (cases x; auto simp: pins_ok_def)+
  then show "capture_inv ex pins (s\<lparr>input0Flag := b\<rparr>)" "capture_inv ex pins (s\<lparr>input1Flag := b\<rparr>)"
    "capture_inv ex pins (s\<lparr>input2Flag := b\<rparr>)" "capture_inv ex pins (s\<lparr>input3Flag := b\<rparr>)"
    using assms by (simp_all add: capture_inv_def flags_ok_def updateAgentInProgress_def)
qed

lemma interrupt_inv: "capture_inv ex pins s \<Longrightarrow> capture_inv ex pins (gpioInterruptCallback P pin s)"
  by (auto simp: gpioInterruptCallback_def Let_def case_prod_beta intro!: input_inv)

text \<open>
  An agent's step keeps the invariant if it cannot open an update while the host collects.
\<close>

lemma agent_inv:
  assumes "capture_inv ex pins s" and "\<And>x. kept_world P (\<lambda>w. pins w = x) \<Longrightarrow> kept (\<lambda>w. pins w = x) s t"
    and "ex \<Longrightarrow> dataCollectionFlag s \<Longrightarrow> \<not> updateAgentInProgress s \<Longrightarrow> \<not> updateAgentInProgress t"
  shows "capture_inv ex pins t"
  using capture_inv_cong [OF agent_keeps_pins(2) [OF assms(2)] _ assms(3,1)]
    agent_keeps_pins(1) [OF assms(2)] by blast

lemma begin_inv:
  "capture_inv ex pins s \<Longrightarrow>
   capture_inv ex pins (snd (updateAgentBegin P target data len (dataCollectionFlag s) s))"
  by (erule agent_inv) (simp_all add: kept_world.kept_begin begin_during_capture)

lemma idle_inv:
  "capture_inv ex pins s \<Longrightarrow> capture_inv ex pins (snd (updateAgentChunkRefusal target i len s))"
  "capture_inv ex pins s \<Longrightarrow> capture_inv ex pins (snd (updateAgentData P target i data s))"
  "capture_inv ex pins s \<Longrightarrow> capture_inv ex pins (snd (updateAgentFinish target s))"
  "capture_inv ex pins s \<Longrightarrow> capture_inv ex pins (updateAgentVerify P s)"
  by (erule agent_inv, simp_all add: kept_world.kept_decisions kept_world.kept_data
      kept_world.kept_verify idle_stays_idle)+

lemma link_inv:
  "capture_inv ex pins s \<Longrightarrow> capture_inv ex pins (snd (fpgaRegistersRead P a n s))"
  "capture_inv ex pins s \<Longrightarrow> capture_inv ex pins (snd (fpgaRegistersWrite P a v s))"
  "capture_inv ex pins s \<Longrightarrow> capture_inv ex pins (snd (fpgaRegistersSetLeds P v s))"
  "capture_inv ex pins s \<Longrightarrow> capture_inv ex pins (snd (fpgaRegistersStart P s))"
  "capture_inv ex pins s \<Longrightarrow> capture_inv ex pins (snd (fpgaRegistersProbe P k s))"
  by (erule agent_inv, simp_all add: kept_world.kept_registers kept_world.kept_probe
      updateAgentInProgress_def)+

subsection \<open>Setup requests\<close>

lemma update_request_inv:
  assumes "capture_inv ex pins s"
  shows "capture_inv ex pins (snd (snd (domDupHandleUpdateRequest P request v i n s)))"
proof -
  have "capture_inv ex pins (snd (snd (update_status_request P n s)))"
    using assms by (simp add: update_status_request_def Let_def effect_inv field_inv)
  moreover have "capture_inv ex pins (snd (snd (update_begin_request P i n s)))"
  proof -
    obtain status bytes w where g: "CyU3PUsbGetEP0Data P 40 (world s) = (status, bytes, w)"
      by (metis prod_cases3)
    then have "pins w = pins (world s)" by (metis control_call.intros(4) control snd_conv)
    then have t: "capture_inv ex pins (s\<lparr>world := w, glUpdatePacketBuffer := bs\<rparr>)" for bs
      by (intro field_inv quiet_inv assms) simp
    show ?thesis using assms begin_inv [OF t]
      by (simp add: update_begin_request_def g Let_def case_prod_beta t)
  qed
  moreover have "capture_inv ex pins (snd (snd (update_data_request P v i n s)))"
  proof -
    obtain refusal t where r: "updateAgentChunkRefusal (ucast i) v n s = (refusal, t)"
      by (cases "updateAgentChunkRefusal (ucast i) v n s")
    then have t: "capture_inv ex pins t" using idle_inv(1) [OF assms, of "ucast i" v n] by simp
    obtain status bytes w where g: "CyU3PUsbGetEP0Data P (unat n) (world t) = (status, bytes, w)"
      by (metis prod_cases3)
    then have "pins w = pins (world t)" by (metis control_call.intros(4) control snd_conv)
    then have u: "capture_inv ex pins (t\<lparr>world := w, glUpdateChunkBuffer := bs\<rparr>)" for bs
      by (intro field_inv quiet_inv t) simp
    show ?thesis using assms idle_inv(2) [OF u]
      by (simp add: update_data_request_def r g Let_def case_prod_beta t u)
  qed
  moreover have "capture_inv ex pins (snd (updateAgentReconfigureFpga P s))"
  proof (rule agent_inv [OF assms])
    show "kept (\<lambda>w. pins w = x) s (snd (updateAgentReconfigureFpga P s))"
      if "kept_world P (\<lambda>w. pins w = x)" for x
      using that by (rule kept_world.kept_decisions(3)) simp
  qed (simp add: updateAgentReconfigureFpga_def epcsFlashReconfigureFpga_def
      fpgaRegistersForgetProbe_def updateAgentInProgress_def Let_def case_prod_beta)
  moreover have "capture_inv ex pins (snd (snd (update_reset_request P s)))"
    using assms by (simp add: update_reset_request_def effect_def updateAgentResetDevice_def
        Let_def quiet_inv)
  ultimately show ?thesis using assms
    by (simp add: domDupHandleUpdateRequest_def Let_def case_prod_beta idle_inv)
qed

lemma acknowledge_inv:
  "capture_inv ex pins (snd (snd r)) \<Longrightarrow> capture_inv ex pins (snd (acknowledge P r))"
  by (simp add: acknowledge_def case_prod_beta effect_inv)

lemma collection_inv:
  assumes "capture_inv ex pins s" and "glIsApplnActive s"
  shows "capture_inv ex pins (snd (snd (collection_request P v s)))"
proof -
  have "capture_inv ex pins (start_collecting P s)" if "\<not> updateAgentInProgress s"
    using assms that
    by (cases "pins (world s)") (auto simp: start_collecting_def effect_def domDupClearInputFlags_def
        capture_inv_def flags_ok_def pins_ok_def updateAgentInProgress_def)
  then show ?thesis using assms
    by (simp add: collection_request_def stop_collecting_inv lpm_enable_inv)
qed

lemma register_request_inv:
  assumes "capture_inv ex pins s"
  shows "capture_inv ex pins (snd (snd (register_read_request P v n s)))"
    and "capture_inv ex pins (snd (snd (register_write_request P v s)))"
proof -
  obtain r t where r: "fpgaRegistersRead P (ucast v) (ucast n) s = (r, t)"
    by (cases "fpgaRegistersRead P (ucast v) (ucast n) s")
  then have t: "capture_inv ex pins t" using link_inv(1) [OF assms, of "ucast v" "ucast n"] by simp
  show "capture_inv ex pins (snd (snd (register_read_request P v n s)))" using assms t
    by (simp add: register_read_request_def r Let_def effect_inv field_inv split: option.split)
  show "capture_inv ex pins (snd (snd (register_write_request P v s)))" using assms
    by (simp add: register_write_request_def Let_def case_prod_beta link_inv)
qed

lemma setup_inv:
  assumes "capture_inv ex pins s"
  shows "capture_inv ex pins (snd (domDupUSBSetupCB P setupData0 setupData1 s))"
proof -
  have "capture_inv ex pins (snd (vendor_request P p s))" for p
    using assms by (simp add: vendor_request_def acknowledge_inv update_request_inv collection_inv
        register_request_inv)
  moreover have "capture_inv ex pins (snd (standard_request P p s))" for p
    using assms by (simp add: standard_request_def Let_def effect_inv field_inv restart_endpoint_def)
  ultimately show ?thesis using assms by (simp add: domDupUSBSetupCB_def Let_def)
qed

subsection \<open>What leaves an update in progress alone\<close>

lemma begin_in_progress:
  assumes "updateAgentInProgress s"
  shows "glUpdateState (snd (updateAgentBegin P target data len running s)) = glUpdateState s"
proof -
  have "updateBeginIsAllowed (glUpdateState s) target n f running \<noteq> ERROR_NONE" for n f
    using assms by (simp add: begin_allowed_iff updateAgentInProgress_def)
  then show ?thesis using assms
    by (auto simp: updateAgentBegin_def refuse_begin_def updateAgentInProgress_def Let_def split: option.split)
qed

lemma setup_in_progress:
  assumes "updateAgentInProgress s"
    and "let p = decode_setup d0 d1 in bReqType p AND CY_U3P_USB_TYPE_MASK = CY_U3P_USB_VENDOR_RQT
        \<longrightarrow> bRequest p \<noteq> UPDATE_REQUEST_DATA \<and> bRequest p \<noteq> UPDATE_REQUEST_FINISH"
  shows "updateAgentInProgress (snd (domDupUSBSetupCB P d0 d1 s))"
proof -
  have b: "glUpdateState (snd (snd (update_begin_request P i n s))) = glUpdateState s" for i n
  proof -
    obtain status bytes w where g: "CyU3PUsbGetEP0Data P 40 (world s) = (status, bytes, w)"
      by (metis prod_cases3)
    let ?t = "s\<lparr>world := w, glUpdatePacketBuffer := blit (glUpdatePacketBuffer s) 0 bytes\<rparr>"
    have "updateAgentInProgress ?t" using assms(1) by (simp add: updateAgentInProgress_def)
    from begin_in_progress [OF this] show ?thesis
      by (simp add: update_begin_request_def g Let_def case_prod_beta)
  qed
  have u: "glUpdateState (snd (snd (domDupHandleUpdateRequest P r v i n s))) = glUpdateState s"
    if "r \<noteq> UPDATE_REQUEST_DATA" "r \<noteq> UPDATE_REQUEST_FINISH" for r v i n
    using assms(1) that b
    by (auto simp: domDupHandleUpdateRequest_def update_status_request_def update_reset_request_def effect_def
        updateAgentResetDevice_def updateAgentReconfigureFpga_def updateAgentInProgress_def Let_def)
  have c: "glUpdateState (snd (snd (collection_request P v s))) = glUpdateState s" for v
    by (simp add: collection_request_def start_collecting_def stop_collecting_def domDupClearInputFlags_def effect_def)
  have r: "glUpdateState (snd (snd (register_read_request P v n s))) = glUpdateState s" for v n
    using link_keeps_update(1) [of P "ucast v" "ucast n" s]
    by (auto simp: register_read_request_def effect_def Let_def case_prod_beta split: option.split)
  have w: "glUpdateState (snd (snd (register_write_request P v s))) = glUpdateState s" for v
    by (simp add: register_write_request_def Let_def case_prod_beta)
  have a: "glUpdateState (snd (acknowledge P x)) = glUpdateState (snd (snd x))" for x
    by (simp add: acknowledge_def effect_def case_prod_beta)
  have "glUpdateState (snd (domDupUSBSetupCB P d0 d1 s)) = glUpdateState s"
    using assms(2) unfolding domDupUSBSetupCB_def Let_def
    by (simp add: vendor_request_def a u c r w standard_request_def restart_endpoint_def effect_def call_def
        Let_def case_prod_beta)
  then show ?thesis using assms(1) by (simp add: updateAgentInProgress_def)
qed

lemma event_keeps_update:
  fixes s :: "('w, 'z) firmware_scheme"
  shows "glUpdateState (outcome_state (domDupUSBEventCB P ev data s)) = glUpdateState s"
proof -
  define D :: "('w, 'z) firmware_scheme \<Rightarrow> bool" where "D t \<longleftrightarrow> glUpdateState t = glUpdateState s" for t
  have stop: "D (outcome_state (domDupStopApplication P t))" if "D t" for t
    using stop_quiet [of t] that by (simp add: path_quiet_def D_def)
  have start: "D (outcome_state (domDupStartApplication P t))" if "D t" for t
    using start_quiet [of t] that
    by (cases "CyU3PUsbGetSpeed P (world t) = CY_U3P_SUPER_SPEED") (auto simp: path_quiet_def D_def start_slow)
  have seq: "D (outcome_state (in_order fs s))"
    if "\<And>f t. f \<in> set fs \<Longrightarrow> D t \<Longrightarrow> D (outcome_state (f t))" for fs
    using that by (rule in_order_preserves) (simp_all add: D_def)
  have active: "D (outcome_state (stop_if_active P t))" if "D t" for t
    using that stop by (simp add: stop_if_active_def)
  have fields: "D (effect f t) = D t" "D (snd (call g t)) = D t" "D (t\<lparr>glForceLinkU2 := b\<rparr>) = D t" for f g t b
    by (simp_all add: D_def effect_def call_def Let_def case_prod_beta)
  have "D (outcome_state (in_order [stop_if_active P,
        \<lambda>s. if data \<noteq> 0 then domDupStartApplication P s else Running s] s))"
    "D (outcome_state (in_order [domDupStopApplication P, domDupStartApplication P] s))"
    "D (outcome_state (in_order [plainly (\<lambda>s. s\<lparr>glForceLinkU2 := False\<rparr>),
        stop_if_active P, plainly (effect (CyU3PUsbLPMEnable P))] s))"
    "D (outcome_state (in_order [plainly (\<lambda>s. s\<lparr>glForceLinkU2 := False\<rparr>), stop_if_active P] s))"
    "D (outcome_state (in_order [stop_if_active P,
        plainly (\<lambda>s. snd (call (CyU3PConnectState P False True) s))] s))"
    by (rule seq; auto simp: active start stop fields)+
  moreover have "D s" by (simp add: D_def)
  ultimately have "D (outcome_state (domDupUSBEventCB P ev data s))"
    by (cases ev) (simp_all add: domDupUSBEventCB_def Let_def D_def effect_def call_def case_prod_beta
        stop_collecting_def domDupClearInputFlags_def del: in_order.simps)
  then show ?thesis by (simp add: D_def)
qed

subsection \<open>The application thread\<close>

lemma recover_pins: "pins (snd (recover_link P attempts status mode w)) = pins w"
proof (induction "8 - attempts" arbitrary: attempts status mode w)
  case 0
  then show ?case by (simp add: recover_link.simps [of P attempts])
next
  case (Suc n)
  then have n: "n = 8 - Suc attempts" by simp
  have sleep: "pins (CyU3PThreadSleep P k w) = pins w" for k w
    using kept_world.thread_sleep [OF agent_calls] by metis
  show ?case unfolding recover_link.simps [of P attempts status mode w]
    by (simp add: Let_def case_prod_beta Suc.hyps(1) [OF n] sleep)
qed

lemma thread_field_inv:
  "capture_inv ex pins s \<Longrightarrow> capture_inv ex pins (s\<lparr>ledPattern := b\<rparr>)"
  "capture_inv ex pins s \<Longrightarrow> capture_inv ex pins (s\<lparr>ledPatternShown := b\<rparr>)"
  "capture_inv ex pins s \<Longrightarrow> capture_inv ex pins (s\<lparr>fpgaRecheckCount := n\<rparr>)"
  "capture_inv ex pins s \<Longrightarrow> capture_inv ex pins (report_inputs s)"
  by (erule capture_inv_cong [rotated 3];
      simp add: same_flags_def updateAgentInProgress_def report_inputs_def)+

lemma sleep_inv: "capture_inv ex pins s \<Longrightarrow> capture_inv ex pins (effect (CyU3PThreadSleep P n) s)"
  using kept_world.thread_sleep [OF agent_calls, of "world s" "pins (world s)" n]
  by (intro effect_inv) simp_all

text \<open>
  A step of the verification that is past its look at the phase finds an update in progress and
  leaves one in progress, or is the last.
\<close>

lemma pass_inv:
  assumes "capture_inv ex pins s"
  shows "capture_inv ex pins (announce_update P s)"
    and "capture_inv ex pins (hold_round P s)"
    and "capture_inv ex pins (wake_link P s)"
    and "capture_inv ex pins (update_leds P s)"
    and "(ex \<Longrightarrow> past_check pc \<Longrightarrow> updateAgentInProgress s) \<Longrightarrow> capture_inv ex pins (snd (verify_step P pc s))"
proof -
  show "capture_inv ex pins (announce_update P s)" using assms
    by (simp add: announce_update_def link_inv)
  show "capture_inv ex pins (hold_round P s)" using assms
    by (simp add: hold_round_def sleep_inv effect_inv)
  show "capture_inv ex pins (wake_link P s)"
    using assms by (auto simp: wake_link_def recover_pins case_prod_beta intro!: quiet_inv)
  show "capture_inv ex pins (update_leds P s)" using assms
    by (simp add: update_leds_def Let_def case_prod_beta thread_field_inv link_inv)
  assume p: "ex \<Longrightarrow> past_check pc \<Longrightarrow> updateAgentInProgress s"
  show "capture_inv ex pins (snd (verify_step P pc s))"
  proof (rule agent_inv [OF assms])
    show "kept (\<lambda>w. pins w = x) s (snd (verify_step P pc s))"
      if "kept_world P (\<lambda>w. pins w = x)" for x
      using that by (rule kept_world.kept_verify_step) simp
    show "\<not> updateAgentInProgress (snd (verify_step P pc s))"
      if "ex" "dataCollectionFlag s" "\<not> updateAgentInProgress s"
    proof -
      have "\<not> past_check pc" using that p by blast
      then show ?thesis using that(3) by (auto simp: past_check_def updateAgentInProgress_def)
    qed
  qed
qed

lemma initialise_inv:
  assumes "capture_inv ex pins s"
  shows "capture_inv ex pins (outcome_state (domDupInitialiseApplication P product s))"
proof -
  obtain status t where c: "call (CyU3PUsbStart P) s = (status, t)"
    by (cases "call (CyU3PUsbStart P) s")
  then have t: "capture_inv ex pins t" using effect_inv(2) [OF assms, of "CyU3PUsbStart P"] by simp
  have connect: "capture_inv ex pins (outcome_state (connect_host P noRenum u))"
    if "capture_inv ex pins u" for noRenum u
  proof -
    have "capture_inv ex pins (outcome_state (in_order
        [\<lambda>s. if glIsApplnActive s then domDupStopApplication P s else Running s,
         domDupStartApplication P] u))"
      using that by (rule in_order_preserves [rotated]) (auto simp: stop_inv start_inv)
    then show ?thesis using that by (simp add: connect_host_def quiet_inv del: in_order.simps)
  qed
  have "capture_inv ex pins (outcome_state (in_order
      ([plainly (effect (CyU3PUsbRegisterSetupCallback P True)),
        plainly (effect (CyU3PUsbRegisterEventCallback P)),
        plainly (effect (CyU3PUsbRegisterLPMRequestCallback P))]
       @ register_descriptors P product
       @ [connect_host P b, plainly (\<lambda>s. s\<lparr>glUsbInitComplete := True\<rparr>)]) t))" for b
    using t by (rule in_order_preserves [rotated])
      (auto simp: register_descriptors_def effect_inv quiet_inv field_inv connect)
  then show ?thesis using t
    by (simp add: domDupInitialiseApplication_def c Let_def domDupErrorHandler_def del: in_order.simps)
qed

lemma thread_start_inv:
  assumes "capture_inv ex pins s"
  shows "capture_inv ex pins (outcome_state (domDupThreadInitialise P product s))"
proof -
  have debug: "capture_inv ex pins (outcome_state (domDupDebugInit P t))" if "capture_inv ex pins t" for t
    unfolding domDupDebugInit_def
    using that by (rule in_order_preserves [rotated]) (auto simp: quiet_inv effect_inv)
  have agent: "capture_inv ex pins (snd (updateAgentStart P t))" if "capture_inv ex pins t" for t
  proof (rule agent_inv [OF that])
    show "kept (\<lambda>w. pins w = x) t (snd (updateAgentStart P t))"
      if "kept_world P (\<lambda>w. pins w = x)" for x
      using that by (rule kept_world.kept_start) simp
  qed (simp add: updateAgentStart_def updateAgentInProgress_def updateIsInProgress_def
      updateStateReset_def Let_def case_prod_beta)
  show ?thesis unfolding domDupThreadInitialise_def
    using assms by (rule in_order_preserves [rotated])
      (auto simp: thread_field_inv debug agent initialise_inv link_inv)
qed

end

subsection \<open>The system\<close>

text \<open>
  The USB driver runs its callbacks one at a time on one thread, interrupts come at any time,
  and the application thread starts once and then loops. A pass of the loop is many steps, so that
  callbacks come between them: the verification is the steps of \<open>VerifySteps\<close>, the wait in a
  suspended link looks at the link (\<open>Polling\<close>) and at what it saw (\<open>Holding\<close>). A thread that reaches
  the endless loop of \<^verbatim>\<open>domDupErrorHandler\<close> takes no more steps, and the other goes on. \<open>admits\<close>
  says which setup requests the host makes in which state.
\<close>

datatype thread_phase = Starting | Looping | Verifying verify_at | Polling | Holding u32 link_power | Stuck

record 's system =
  sys_state :: 's
  usb_runs :: bool
  app_phase :: thread_phase

inductive firmware_step ::
    "('w, 'p) usb_platform_scheme \<Rightarrow> byte list
     \<Rightarrow> (('w, 'z) firmware_scheme system \<Rightarrow> setup_packet \<Rightarrow> bool)
     \<Rightarrow> ('w, 'z) firmware_scheme system \<Rightarrow> ('w, 'z) firmware_scheme system \<Rightarrow> bool" for P product admits where
  setup_request: "usb_runs c \<Longrightarrow> admits c (decode_setup d0 d1) \<Longrightarrow>
    firmware_step P product admits c (c\<lparr>sys_state := snd (domDupUSBSetupCB P d0 d1 (sys_state c))\<rparr>)"
| event: "usb_runs c \<Longrightarrow> domDupUSBEventCB P ev data (sys_state c) = Running s \<Longrightarrow>
    firmware_step P product admits c (c\<lparr>sys_state := s\<rparr>)"
| event_halts: "usb_runs c \<Longrightarrow> domDupUSBEventCB P ev data (sys_state c) = Halted status s \<Longrightarrow>
    firmware_step P product admits c (c\<lparr>sys_state := s, usb_runs := False\<rparr>)"
| pin_interrupt:
    "firmware_step P product admits c (c\<lparr>sys_state := gpioInterruptCallback P pin (sys_state c)\<rparr>)"
| thread_starts: "app_phase c = Starting \<Longrightarrow>
    domDupThreadInitialise P product (sys_state c) = Running s \<Longrightarrow>
    firmware_step P product admits c (c\<lparr>sys_state := s, app_phase := Looping\<rparr>)"
| thread_halts: "app_phase c = Starting \<Longrightarrow>
    domDupThreadInitialise P product (sys_state c) = Halted status s \<Longrightarrow>
    firmware_step P product admits c (c\<lparr>sys_state := s, app_phase := Stuck\<rparr>)"
| verify_enters: "app_phase c = Looping \<Longrightarrow> updateAgentVerifyPending (sys_state c) \<Longrightarrow>
    firmware_step P product admits c
      (c\<lparr>sys_state := announce_update P (sys_state c), app_phase := Verifying VerifyStart\<rparr>)"
| verify_goes_on: "app_phase c = Verifying pc \<Longrightarrow> verify_step P pc (sys_state c) = (Some pc', s) \<Longrightarrow>
    firmware_step P product admits c (c\<lparr>sys_state := s, app_phase := Verifying pc'\<rparr>)"
| verify_ends: "app_phase c = Verifying pc \<Longrightarrow> verify_step P pc (sys_state c) = (None, s) \<Longrightarrow>
    firmware_step P product admits c (c\<lparr>sys_state := s\<lparr>ledPatternShown := 0\<rparr>, app_phase := Looping\<rparr>)"
| hold_enters: "app_phase c = Looping \<Longrightarrow> glForceLinkU2 (sys_state c) \<Longrightarrow>
    firmware_step P product admits c (c\<lparr>app_phase := Polling\<rparr>)"
| hold_looks: "app_phase c = Polling \<Longrightarrow>
    CyU3PUsbGetLinkPowerState P (world (sys_state c)) = (status, mode) \<Longrightarrow>
    firmware_step P product admits c (c\<lparr>app_phase := Holding status mode\<rparr>)"
| hold_goes_on: "app_phase c = Holding status mode \<Longrightarrow> held_in_u0 status mode (sys_state c) \<Longrightarrow>
    firmware_step P product admits c (c\<lparr>sys_state := hold_round P (sys_state c), app_phase := Polling\<rparr>)"
| hold_ends: "app_phase c = Holding status mode \<Longrightarrow> \<not> held_in_u0 status mode (sys_state c) \<Longrightarrow>
    firmware_step P product admits c (c\<lparr>app_phase := Looping\<rparr>)"
| link_power: "app_phase c = Looping \<Longrightarrow> \<not> glForceLinkU2 (sys_state c) \<Longrightarrow>
    firmware_step P product admits c (c\<lparr>sys_state := wake_link P (sys_state c)\<rparr>)"
| led_pass: "app_phase c = Looping \<Longrightarrow>
    firmware_step P product admits c (c\<lparr>sys_state :=
      effect (CyU3PThreadSleep P 10) (update_leds P (report_inputs (sys_state c)))\<rparr>)"

text \<open>
  Any host, and a host that sends no DATA or FINISH while an update is verified: the firmware would
  refuse it, and the refusal fails the update the verification is still working on.
\<close>

definition any_request :: "'s system \<Rightarrow> setup_packet \<Rightarrow> bool" where
  "any_request c p \<longleftrightarrow> True"

definition waits_for_verification :: "'s system \<Rightarrow> setup_packet \<Rightarrow> bool" where
  "waits_for_verification c p \<longleftrightarrow>
     (\<forall>pc. app_phase c = Verifying pc \<longrightarrow> bReqType p AND CY_U3P_USB_TYPE_MASK = CY_U3P_USB_VENDOR_RQT
        \<longrightarrow> bRequest p \<noteq> UPDATE_REQUEST_DATA \<and> bRequest p \<noteq> UPDATE_REQUEST_FINISH)"

text \<open>The state the C runtime leaves: every flag clear, the update state zero.\<close>

definition power_on :: "('w, 'z) firmware_scheme \<Rightarrow> bool" where
  "power_on s \<longleftrightarrow> \<not> glIsApplnActive s \<and> \<not> glForceLinkU2 s \<and> \<not> glUsbInitComplete s
     \<and> \<not> input0Flag s \<and> \<not> input1Flag s \<and> \<not> input2Flag s \<and> \<not> input3Flag s
     \<and> \<not> dataCollectionFlag s \<and> st_phase (glUpdateState s) = PHASE_IDLE"

context capture_board
begin

lemma step_inv:
  assumes "firmware_step P product admits c c'" and "capture_inv ex pins (sys_state c)"
    and "\<And>pc. ex \<Longrightarrow> app_phase c = Verifying pc \<Longrightarrow> past_check pc \<Longrightarrow> updateAgentInProgress (sys_state c)"
  shows "capture_inv ex pins (sys_state c')"
  using assms
proof (induction rule: firmware_step.induct)
  case (event c ev data s)
  then show ?case using event_inv [of ex "sys_state c" ev data] by simp
next
  case (event_halts c ev data status s)
  then show ?case using event_inv [of ex "sys_state c" ev data] by simp
next
  case (thread_starts c s)
  then show ?case using thread_start_inv [of ex "sys_state c" product] by simp
next
  case (thread_halts c status s)
  then show ?case using thread_start_inv [of ex "sys_state c" product] by simp
next
  case (verify_goes_on c pc pc' s)
  then show ?case using pass_inv(5) [of ex "sys_state c" pc] by simp
next
  case (verify_ends c pc s)
  then show ?case using pass_inv(5) [of ex "sys_state c" pc] by (simp add: thread_field_inv)
qed (simp_all add: setup_inv interrupt_inv pass_inv sleep_inv thread_field_inv)

text \<open>With a host that waits, an update that is verified stays in progress.\<close>

lemma step_verifying:
  assumes "firmware_step P product admits c c'"
    and "\<And>c p. admits c p \<Longrightarrow> waits_for_verification c p"
    and "\<And>pc. app_phase c = Verifying pc \<Longrightarrow> past_check pc \<Longrightarrow> updateAgentInProgress (sys_state c)"
    and "app_phase c' = Verifying pc" and "past_check pc"
  shows "updateAgentInProgress (sys_state c')"
  using assms
proof (induction rule: firmware_step.induct)
  case (setup_request c d0 d1)
  then have "waits_for_verification c (decode_setup d0 d1)" by blast
  then show ?case using setup_request setup_in_progress [of "sys_state c" d0 d1]
    by (auto simp: waits_for_verification_def)
next
  case (event c ev data s)
  then show ?case using event_keeps_update [of ev data "sys_state c"] by (simp add: updateAgentInProgress_def)
next
  case (event_halts c ev data status s)
  then show ?case using event_keeps_update [of ev data "sys_state c"] by (simp add: updateAgentInProgress_def)
next
  case (pin_interrupt c pin)
  then show ?case
    by (simp add: gpioInterruptCallback_def Let_def case_prod_beta updateAgentInProgress_def)
next
  case (verify_goes_on c pc' pc'' s)
  then show ?case using verify_in_progress [of P pc' "sys_state c" pc'' s] by auto
qed simp_all

lemma reachable_inv:
  assumes "(firmware_step P product admits)\<^sup>*\<^sup>* c c'" and "power_on (sys_state c)"
    and "pins (world (sys_state c)) = Some (False, False)"
  shows "capture_inv False pins (sys_state c')"
  using assms(1)
proof (induction rule: rtranclp_induct)
  case base
  show ?case using assms(2,3) by (simp add: capture_inv_def flags_ok_def pins_ok_def power_on_def)
next
  case (step y z)
  then show ?case by (blast intro: step_inv)
qed

lemma reachable_exclusive:
  assumes "(firmware_step P product admits)\<^sup>*\<^sup>* c c'"
    and "\<And>c p. admits c p \<Longrightarrow> waits_for_verification c p" and "power_on (sys_state c)"
    and "pins (world (sys_state c)) = Some (False, False)" and "app_phase c = Starting"
  shows "capture_inv True pins (sys_state c')"
proof -
  have "capture_inv True pins (sys_state c')
      \<and> (\<forall>pc. app_phase c' = Verifying pc \<longrightarrow> past_check pc \<longrightarrow> updateAgentInProgress (sys_state c'))"
    using assms(1)
  proof (induction rule: rtranclp_induct)
    case base
    show ?case using assms(3-5) by (simp add: capture_inv_def flags_ok_def pins_ok_def power_on_def)
  next
    case (step y z)
    then show ?case using step_inv [OF step(2), of True] step_verifying [OF step(2) assms(2)] by blast
  qed
  then show ?thesis by blast
qed

text \<open>
  The events that take the device off the bus leave the capture path down, even if the thread
  that handled them halted on the way.
\<close>

lemma down_after_stop:
  assumes "capture_inv ex pins s" and "t = outcome_state (stop_if_active P s)"
  shows "\<not> glIsApplnActive t \<and> \<not> dataCollectionFlag t
    \<and> pins (world t) \<in> {None, Some (False, False)}"
proof (cases "glIsApplnActive s")
  case True
  then have "t = outcome_state (domDupStopApplication P s)"
    using assms(2) by (simp add: stop_if_active_def)
  then show ?thesis using stop_quiet [of s] stop_inactive [of s]
    by (cases "pins (world s)") (auto simp: path_quiet_def)
next
  case False
  then have "t = s" using assms(2) by (simp add: stop_if_active_def)
  then show ?thesis using assms(1) False
    by (cases "pins (world s)") (auto simp: capture_inv_def flags_ok_def pins_ok_def)
qed

lemma in_order_stays:
  assumes "in_order (f # fs) s = r" and "\<And>g t. g \<in> set fs \<Longrightarrow> D t \<Longrightarrow> D (outcome_state (g t))"
    and "D (outcome_state (f s))"
  shows "D (outcome_state r)"
  using assms in_order_preserves [of fs D] by (cases "f s") auto

lemma off_bus_down:
  fixes s :: "('w, 'z) firmware_scheme"
  assumes "capture_inv ex pins s"
    and "ev \<in> {CY_U3P_USB_EVENT_RESET, CY_U3P_USB_EVENT_DISCONNECT}
         \<or> ev = CY_U3P_USB_EVENT_VBUS_REMOVED \<and> glUsbInitComplete s"
    and "t = outcome_state (domDupUSBEventCB P ev data s)"
  shows "\<not> glIsApplnActive t \<and> \<not> dataCollectionFlag t
    \<and> pins (world t) \<in> {None, Some (False, False)}"
proof -
  define D :: "('w, 'z) firmware_scheme \<Rightarrow> bool" where
    "D t \<longleftrightarrow> \<not> glIsApplnActive t \<and> \<not> dataCollectionFlag t
      \<and> pins (world t) \<in> {None, Some (False, False)}" for t
  have base: "D (outcome_state (stop_if_active P u))" if "capture_inv ex pins u" for u
    using down_after_stop [OF that refl] by (simp add: D_def)
  let ?s = "s\<lparr>glForceLinkU2 := False\<rparr>"
  have s1: "D (outcome_state (stop_if_active P ?s))" and s2: "D (outcome_state (stop_if_active P s))"
    using base assms(1) field_inv(1) by blast+
  have "D (outcome_state (in_order [stop_if_active P, plainly (effect (CyU3PUsbLPMEnable P))] ?s))"
    by (rule in_order_stays [where D = D and f = "stop_if_active P", OF refl _ s1]) (auto simp: D_def effect_def)
  moreover have "D (outcome_state (in_order [stop_if_active P] ?s))"
    by (rule in_order_stays [where D = D and f = "stop_if_active P", OF refl _ s1]) auto
  moreover have "D (outcome_state (in_order [stop_if_active P,
      plainly (\<lambda>s. snd (call (CyU3PConnectState P False True) s))] s))"
    by (rule in_order_stays [where D = D and f = "stop_if_active P", OF refl _ s2])
      (auto simp: D_def call_def Let_def case_prod_beta)
  ultimately have "D t" using assms(2) unfolding assms(3)
    by (elim disjE insertE conjE emptyE)
      (simp_all only: domDupUSBEventCB_def usb_event.case in_order_plainly if_True)
  then show ?thesis by (simp add: D_def)
qed

end

subsection \<open>Holding the link in U2\<close>

text \<open>
  The state after so many rounds of the loop, each with what the callbacks did in its sleep. The
  loop returns exactly when after some round the suspend is cleared, or the link out of U0 or
  unreadable.
\<close>

fun hold_rounds ::
    "('w, 'p) usb_platform_scheme \<Rightarrow> (nat \<Rightarrow> ('w, 'z) firmware_scheme \<Rightarrow> ('w, 'z) firmware_scheme)
     \<Rightarrow> nat \<Rightarrow> nat \<Rightarrow> ('w, 'z) firmware_scheme \<Rightarrow> ('w, 'z) firmware_scheme" where
  "hold_rounds P others n 0 s = s"
| "hold_rounds P others n (Suc k) s = hold_rounds P others (n + 1) k (others n (hold_round P s))"

definition looks_held :: "('w, 'p) usb_platform_scheme \<Rightarrow> ('w, 'z) firmware_scheme \<Rightarrow> bool" where
  "looks_held P s \<longleftrightarrow> glForceLinkU2 s
     \<and> CyU3PUsbGetLinkPowerState P (world s) = (CY_U3P_SUCCESS, CyU3PUsbLPM_U0)"

abbreviation (input) hold_from where
  "hold_from P others n s \<equiv> hold_link_u2 P others n (fst (CyU3PUsbGetLinkPowerState P (world s)))
     (snd (CyU3PUsbGetLinkPowerState P (world s))) s"

lemma held_looks:
  "held_in_u0 (fst (CyU3PUsbGetLinkPowerState P (world s))) (snd (CyU3PUsbGetLinkPowerState P (world s))) s
   = looks_held P s"
  by (auto simp: held_in_u0_def looks_held_def prod_eq_iff)

lemma hold_step:
  "hold_from P others n s =
     (if looks_held P s then hold_from P others (n + 1) (others n (hold_round P s)) else Some s)"
  by (subst hold_link_u2.simps) (simp add: held_looks Let_def case_prod_beta)

lemma hold_returns:
  "\<not> looks_held P (hold_rounds P others n k s) \<Longrightarrow> \<exists>t. hold_from P others n s = Some t"
proof (induction k arbitrary: n s)
  case 0
  then show ?case by (subst hold_step) simp
next
  case (Suc k)
  then show ?case using Suc.IH [of "n + 1" "others n (hold_round P s)"] by (subst hold_step) simp
qed

lemma hold_left:
  assumes "hold_from P others n s = Some t"
  shows "\<exists>k. t = hold_rounds P others n k s \<and> \<not> looks_held P t"
proof -
  note induct = hold_link_u2.raw_induct
    [where Pa = "\<lambda>(((((P, others), n), st), m), s) t. CyU3PUsbGetLinkPowerState P (world s) = (st, m) \<longrightarrow>
      (\<exists>k. t = hold_rounds P others n k s \<and> \<not> looks_held P t)", unfolded prod.case]
  show ?thesis
  proof (rule induct [OF _ assms, THEN mp], rule impI)
    fix f :: "('w, 'p) usb_platform_scheme \<Rightarrow> (nat \<Rightarrow> ('w, 'z) firmware_scheme \<Rightarrow> ('w, 'z) firmware_scheme)
        \<Rightarrow> nat \<Rightarrow> u32 \<Rightarrow> link_power \<Rightarrow> ('w, 'z) firmware_scheme \<Rightarrow> ('w, 'z) firmware_scheme option"
      and P :: "('w, 'p) usb_platform_scheme" and others n status mode s t
    assume ih: "\<And>P others n status mode s t. f P others n status mode s = Some t \<Longrightarrow>
        CyU3PUsbGetLinkPowerState P (world s) = (status, mode) \<longrightarrow>
          (\<exists>k. t = hold_rounds P others n k s \<and> \<not> looks_held P t)"
      and body: "(if held_in_u0 status mode s
        then let s = others n (hold_round P s);
                 (status, powerState) = CyU3PUsbGetLinkPowerState P (world s)
             in f P others (n + 1) status powerState s
        else Some s) = Some t"
      and here: "CyU3PUsbGetLinkPowerState P (world s) = (status, mode)"
    show "\<exists>k. t = hold_rounds P others n k s \<and> \<not> looks_held P t"
    proof (cases "held_in_u0 status mode s")
      case True
      let ?u = "others n (hold_round P s)"
      obtain st m where m: "CyU3PUsbGetLinkPowerState P (world ?u) = (st, m)"
        by (cases "CyU3PUsbGetLinkPowerState P (world ?u)")
      then have "f P others (n + 1) st m ?u = Some t" using body True by (simp add: Let_def)
      from ih [OF this] m obtain k where "t = hold_rounds P others (n + 1) k ?u" "\<not> looks_held P t" by blast
      then show ?thesis by (intro exI [of _ "Suc k"]) simp
    next
      case False
      then have "t = s" using body unfolding if_not_P [OF False] by simp
      moreover have "\<not> looks_held P s" using False here by (simp add: held_in_u0_def looks_held_def)
      ultimately have "t = s" "\<not> looks_held P s" by blast+
      then show ?thesis by (intro exI [of _ 0]) simp
    qed
  qed simp
qed

lemma hold_forever:
  "hold_from P others n s = None \<longleftrightarrow> (\<forall>k. looks_held P (hold_rounds P others n k s))"
  using hold_returns [of P others n _ s] hold_left [of P others n s] by (metis not_None_eq)

subsection \<open>A chunk that comes during the verification\<close>

text \<open>
  Without that restraint of the host the exclusion fails. The verification is about to announce its
  commit; a chunk arrives and is refused, which fails the update; a start is then admitted, and the
  verification goes on, into a phase that counts as an update in progress.
\<close>

lemma refused_chunk_lets_capture_in:
  assumes "usb_runs c" and "app_phase c = Verifying pc" and "pc = EepromWriting \<or> pc = EpcsWriting crc"
    and "st_phase (glUpdateState (sys_state c)) = PHASE_VERIFYING" and "glIsApplnActive (sys_state c)"
  shows "\<exists>c'. (firmware_step P product any_request)\<^sup>*\<^sup>* c c'
    \<and> dataCollectionFlag (sys_state c') \<and> updateAgentInProgress (sys_state c')"
proof -
  let ?s = "sys_state c"
  let ?chunk = "0x0000D240 :: u32" and ?start = "0x0001B540 :: u32"
  have d: "decode_setup ?chunk 0x00010000 = \<lparr>bReqType = 0x40, bRequest = 0xD2, wValue = 0, wIndex = 0, wLength = 1\<rparr>"
    "decode_setup ?start 0 = \<lparr>bReqType = 0x40, bRequest = 0xB5, wValue = 1, wIndex = 0, wLength = 0\<rparr>"
    by (simp_all add: decode_setup_def)
  define t where "t = agent_fail (updateChunkIsAllowed (glUpdateState ?s) 0 0 1) ?s"
  have refused: "updateChunkIsAllowed (glUpdateState ?s) 0 0 1 \<noteq> ERROR_NONE"
    using assms(4) by (simp add: updateChunkIsAllowed_def)
  have a: "snd (domDupUSBSetupCB P ?chunk 0x00010000 ?s) = t"
    using refused
    by (simp add: domDupUSBSetupCB_def d Let_def vendor_request_def domDupHandleUpdateRequest_def
        update_data_request_def updateAgentChunkRefusal_def acknowledge_def t_def)
  have idle: "\<not> updateAgentInProgress t" and up: "glIsApplnActive t"
    using assms(5) by (simp_all add: t_def agent_fail_def updateAgentInProgress_def updateIsInProgress_def updateStateFail_def)
  define u where "u = effect (CyU3PUsbAckSetup P) (start_collecting P t)"
  have b: "snd (domDupUSBSetupCB P ?start 0 t) = u"
    using idle up
    by (simp add: domDupUSBSetupCB_def d Let_def vendor_request_def collection_request_def acknowledge_def u_def)
  have collects: "dataCollectionFlag u"
    by (simp add: u_def start_collecting_def effect_def)
  obtain q where v: "verify_step P pc u = (Some q, set_phase PHASE_WRITING u)"
    using assms(3) by auto
  let ?c1 = "c\<lparr>sys_state := t\<rparr>" and ?c2 = "c\<lparr>sys_state := u\<rparr>"
  have "firmware_step P product any_request c ?c1"
    using setup_request [of c any_request ?chunk "0x00010000" P product] assms(1) a
    by (simp add: any_request_def)
  moreover have "firmware_step P product any_request ?c1 ?c2"
    using setup_request [of ?c1 any_request ?start 0 P product] assms(1) b
    by (simp add: any_request_def)
  moreover have "firmware_step P product any_request ?c2
      (?c2\<lparr>sys_state := set_phase PHASE_WRITING u, app_phase := Verifying q\<rparr>)"
    using verify_goes_on [of ?c2 pc P q "set_phase PHASE_WRITING u" product any_request] assms(2) v by simp
  ultimately have "(firmware_step P product any_request)\<^sup>*\<^sup>* c
      (?c2\<lparr>sys_state := set_phase PHASE_WRITING u, app_phase := Verifying q\<rparr>)"
    by (meson converse_rtranclp_into_rtranclp rtranclp.rtrancl_refl)
  then show ?thesis using collects
    by (intro exI [of _ "?c2\<lparr>sys_state := set_phase PHASE_WRITING u, app_phase := Verifying q\<rparr>"])
      (simp add: set_phase_def updateAgentInProgress_def updateIsInProgress_def)
qed

text \<open>The recovery of a link left in U1 or U2 gives up after eight attempts.\<close>

lemma recover_attempts: "attempts \<le> 8 \<Longrightarrow> fst (recover_link P attempts status mode w) \<le> 8"
proof (induction "8 - attempts" arbitrary: attempts status mode w)
  case 0
  then have "attempts = 8" by simp
  then show ?case by (simp add: recover_link.simps [of P 8])
next
  case (Suc n)
  then have n: "n = 8 - Suc attempts" by simp
  show ?case unfolding recover_link.simps [of P attempts status mode w]
    using Suc.hyps(2) Suc.prems by (simp add: Let_def case_prod_beta Suc.hyps(1) [OF n])
qed

end
