(* ===== verification/ControlEndpoint.thy ===== *)
theory ControlEndpoint
  imports FirmwareSafety
begin

text \<open>
  Endpoint 0. The contract \<open>control_endpoint\<close> says what each call of the USB driver puts on it:
  an acknowledgement, data to the host, the reading of a data stage, or a stall. Under it a
  setup request the firmware handles is completed exactly once and within the length the host
  asked for, and one it does not handle is left to the driver untouched.
\<close>

datatype ep0_reply = Acked | Sent "byte list" | Received nat | Stalled

fun reply_fits :: "u16 \<Rightarrow> ep0_reply \<Rightarrow> bool" where
  "reply_fits n (Sent bs) \<longleftrightarrow> 0 < length bs \<and> length bs \<le> unat n"
| "reply_fits n (Received k) \<longleftrightarrow> k = unat n"
| "reply_fits n r \<longleftrightarrow> True"

locale control_endpoint =
  fixes P :: "('w, 'p) usb_platform_scheme" and replies :: "'w \<Rightarrow> ep0_reply list"
  assumes agent_calls: "kept_world P (\<lambda>w. replies w = x)"
    and quiet: "quiet_call P f \<Longrightarrow> replies (f w) = replies w"
    and pins [simp]: "replies (CyU3PGpioSetValue P 19 v w) = replies w"
    and lpm [simp]: "replies (CyU3PUsbLPMEnable P w) = replies w"
      "replies (CyU3PUsbLPMDisable P w) = replies w"
    and device_reset [simp]: "replies (CyU3PDeviceReset P warm w) = replies w"
    and ack [simp]: "replies (CyU3PUsbAckSetup P w) = replies w @ [Acked]"
    and send [simp]: "replies (CyU3PUsbSendEP0Data P bs w) = replies w @ [Sent bs]"
    and stall [simp]: "replies (CyU3PUsbStall P 0 True False w) = replies w @ [Stalled]"
    and unstall [simp]: "replies (CyU3PUsbStall P e False True w) = replies w"
    and receive: "CyU3PUsbGetEP0Data P n w = (status, bytes, w') \<Longrightarrow>
      length bytes \<le> n
      \<and> replies w' = (if status = CY_U3P_SUCCESS then replies w @ [Received n] else replies w)"

text \<open>One request: handled with one more reply that fits, or not handled with none.\<close>

definition completes ::
    "('w \<Rightarrow> ep0_reply list) \<Rightarrow> u16 \<Rightarrow> ('w, 'z) firmware_scheme \<Rightarrow> bool
     \<Rightarrow> ('w, 'z) firmware_scheme \<Rightarrow> bool" where
  "completes replies n s handled s' \<longleftrightarrow>
     (if handled then \<exists>r. reply_fits n r \<and> replies (world s') = replies (world s) @ [r]
      else replies (world s') = replies (world s))"

text \<open>The same of a handler that may leave the acknowledgement to its caller.\<close>

definition half_completes ::
    "('w \<Rightarrow> ep0_reply list) \<Rightarrow> u16 \<Rightarrow> ('w, 'z) firmware_scheme
     \<Rightarrow> bool \<times> bool \<times> ('w, 'z) firmware_scheme \<Rightarrow> bool" where
  "half_completes replies n s r \<longleftrightarrow>
     (case r of (handled, sendAck, s') \<Rightarrow>
        if sendAck then handled \<and> replies (world s') = replies (world s)
        else completes replies n s handled s')"

lemma length_receive: "length (fst (receiveBytes P n w)) = n"
  by (induction n arbitrary: w) (simp_all add: Let_def case_prod_beta)

lemma length_registers_read:
  "fst (fpgaRegistersRead P a n s) = Some bytes \<Longrightarrow> length bytes = unat n"
  using length_receive [of P "unat n"]
  by (auto simp: fpgaRegistersRead_def Let_def case_prod_beta split: if_splits)

lemma length_status:
  "16 \<le> length out \<Longrightarrow> length (updateAgentStatus s out) = length out"
  by (simp add: updateAgentStatus_def status_layout)

context control_endpoint
begin

lemmas quiet_simps [simp] = quiet_call.intros [THEN quiet]

lemma agent_replies:
  assumes "\<And>x. kept_world P (\<lambda>w. replies w = x) \<Longrightarrow> kept (\<lambda>w. replies w = x) s t"
  shows "replies (world t) = replies (world s)"
  using assms [OF agent_calls, of "replies (world s)"] unfolding kept_def by blast

lemma sleep [simp]: "replies (CyU3PThreadSleep P n w) = replies w"
  using kept_world.thread_sleep [OF agent_calls, of w "replies w" n] by simp

lemma agent_quiet [simp]:
  "replies (world (snd (updateAgentBegin P target data len running s))) = replies (world s)"
  "replies (world (snd (updateAgentData P target i data s))) = replies (world s)"
  "replies (world (snd (updateAgentFinish target s))) = replies (world s)"
  "replies (world (snd (updateAgentChunkRefusal target i len s))) = replies (world s)"
  "replies (world (snd (updateAgentReconfigureFpga P s))) = replies (world s)"
  "replies (world (snd (fpgaRegistersRead P a n s))) = replies (world s)"
  "replies (world (snd (fpgaRegistersWrite P a v s))) = replies (world s)"
  by (rule agent_replies, simp add: kept_world.kept_begin kept_world.kept_data
      kept_world.kept_decisions kept_world.kept_registers)+

lemma status_request:
  assumes "length (glUpdatePacketBuffer s) = 40"
  shows "half_completes replies n s (update_status_request P n s)"
  using assms length_status [of "glUpdatePacketBuffer s" s]
  by (auto simp: half_completes_def completes_def update_status_request_def Let_def effect_def
      word_le_nat_alt not_less)

lemma begin_request: "half_completes replies n s (update_begin_request P i n s)"
proof -
  obtain status bytes w where g: "CyU3PUsbGetEP0Data P 40 (world s) = (status, bytes, w)"
    by (metis prod_cases3)
  then show ?thesis using receive [OF g]
    by (auto simp: half_completes_def completes_def update_begin_request_def Let_def case_prod_beta
        intro!: exI [of _ "Received 40"])
qed

lemma data_request: "half_completes replies n s (update_data_request P v i n s)"
proof -
  obtain refusal t where r: "updateAgentChunkRefusal (ucast i) v n s = (refusal, t)"
    by (cases "updateAgentChunkRefusal (ucast i) v n s")
  have t: "replies (world t) = replies (world s)"
    using agent_quiet(4) [of "ucast i" v n s] unfolding r by simp
  obtain status bytes w where g: "CyU3PUsbGetEP0Data P (unat n) (world t) = (status, bytes, w)"
    by (metis prod_cases3)
  then show ?thesis using receive [OF g] t
    by (auto simp: half_completes_def completes_def update_data_request_def r Let_def case_prod_beta
        intro!: exI [of _ "Received (unat n)"])
qed

lemma update_request:
  assumes "length (glUpdatePacketBuffer s) = 40"
  shows "half_completes replies n s (domDupHandleUpdateRequest P request v i n s)"
proof -
  have "half_completes replies n s (update_reset_request P s)"
    by (auto simp: half_completes_def completes_def update_reset_request_def effect_def
        updateAgentResetDevice_def Let_def intro!: exI [of _ Acked])
  moreover have "half_completes replies n s (False, False, t)"
    "half_completes replies n s (True, True, t)" if "replies (world t) = replies (world s)" for t
    using that by (simp_all add: half_completes_def completes_def)
  ultimately show ?thesis using assms
    by (simp add: domDupHandleUpdateRequest_def status_request begin_request data_request
        Let_def case_prod_beta)
qed

lemma collection: "half_completes replies n s (collection_request P v s)"
  by (simp add: half_completes_def completes_def collection_request_def start_collecting_def
      stop_collecting_def domDupClearInputFlags_def effect_def)

lemma register_requests:
  assumes "length (glRegisterBuffer s) = 64"
  shows "half_completes replies n s (register_read_request P v n s)"
    and "half_completes replies n s (register_write_request P v s)"
proof -
  obtain r t where r: "fpgaRegistersRead P (ucast v) (ucast n) s = (r, t)"
    by (cases "fpgaRegistersRead P (ucast v) (ucast n) s")
  have t: "replies (world t) = replies (world s)"
    using agent_quiet(6) [of "ucast v" "ucast n" s] unfolding r by simp
  have "blit (glRegisterBuffer s) 0 bytes \<noteq> []" if "r = Some bytes" "unat n \<le> 64" for bytes
  proof -
    have "length bytes = unat (ucast n :: byte)"
      using length_registers_read [of P "ucast v" "ucast n" s] r that(1) by simp
    also have "\<dots> = unat n" using that(2) by (simp add: unsigned_ucast_eq take_bit_nat_eq_self)
    finally have "length (blit (glRegisterBuffer s) 0 bytes) = 64" using assms that(2) by simp
    then show ?thesis by auto
  qed
  moreover have "glRegisterBuffer t = glRegisterBuffer s"
    using kept_world.kept_registers(1) [OF agent_calls kept_refl, of "replies (world s)" s "ucast v" "ucast n"]
    unfolding r kept_def by (cases s, cases t) simp
  ultimately show "half_completes replies n s (register_read_request P v n s)"
    using t assms
    by (auto simp: half_completes_def completes_def register_read_request_def r Let_def effect_def
        read_valid_iff split: option.split)
  show "half_completes replies n s (register_write_request P v s)"
    by (simp add: half_completes_def completes_def register_write_request_def Let_def case_prod_beta)
qed

lemma acknowledged:
  "half_completes replies n s r \<Longrightarrow>
   completes replies n s (fst (acknowledge P r)) (snd (acknowledge P r))"
  by (cases r) (auto simp: half_completes_def completes_def acknowledge_def effect_def
      intro!: exI [of _ Acked] split: if_splits)

lemma setup_completes:
  assumes "length (glUpdatePacketBuffer s) = 40" and "length (glRegisterBuffer s) = 64"
    and "domDupUSBSetupCB P setupData0 setupData1 s = (handled, s')"
  shows "completes replies (wLength (decode_setup setupData0 setupData1)) s handled s'"
proof -
  have none: "completes replies n s False s" for n by (simp add: completes_def)
  have unknown: "half_completes replies n s (False, False, s)" for n
    by (simp add: half_completes_def none)
  have "completes replies (wLength p) s (fst (vendor_request P p s)) (snd (vendor_request P p s))" for p
    using assms(1,2) by (simp add: vendor_request_def acknowledged update_request collection
        register_requests unknown none)
  moreover have "completes replies n s (fst (standard_request P p s)) (snd (standard_request P p s))" for n p
    by (auto simp: standard_request_def Let_def completes_def restart_endpoint_def effect_def call_def
        case_prod_beta intro!: exI [of _ Acked] exI [of _ Stalled])
  ultimately have "completes replies (wLength (decode_setup setupData0 setupData1)) s
      (fst (domDupUSBSetupCB P setupData0 setupData1 s)) (snd (domDupUSBSetupCB P setupData0 setupData1 s))"
    by (simp add: domDupUSBSetupCB_def Let_def none)
  then show ?thesis unfolding assms(3) by simp
qed

end

end
