(* ===== verification/UpdateWire.thy ===== *)
theory UpdateWire
  imports Orchestrator ControlEndpoint
begin

text \<open>
  The host and the device on one wire: the requests of \<open>DeviceUpdater\<close> are setup packets of the
  firmware's USB callback, and between any two of them its application thread may get a turn, in
  which it runs a pending verification. What the device's update does with a medium is the contract
  \<open>update_medium\<close>; under it the host's half, \<^verbatim>\<open>WriteComponent\<close> of
  \<^verbatim>\<open>ddd-gui/src/capture/update_orchestrator.cpp\<close>, ends with the image on the medium.
\<close>

subsection \<open>The wire\<close>

record 'w wire =
  wire_device :: "'w firmware"
  wire_clock :: nat
  wire_turn :: nat

definition setup_word0 :: "byte \<Rightarrow> byte \<Rightarrow> u16 \<Rightarrow> u32" where
  "setup_word0 rt req v = ucast rt OR push_bit 8 (ucast req) OR push_bit 16 (ucast v)"

definition setup_word1 :: "u16 \<Rightarrow> u16 \<Rightarrow> u32" where
  "setup_word1 i n = ucast i OR push_bit 16 (ucast n)"

lemma decode_setup_words:
  "decode_setup (setup_word0 rt req v) (setup_word1 i n)
     = \<lparr>bReqType = rt, bRequest = req, wValue = v, wIndex = i, wLength = n\<rparr>"
proof -
  have m: "(0xFF :: u32) = mask 8" "(0xFF00 :: u32) = push_bit 8 (mask 8)"
    "(0xFFFF0000 :: u32) = push_bit 16 (mask 16)" "(0xFFFF :: u32) = mask 16"
    by (simp_all add: mask_eq_exp_minus_1)
  have "ucast (setup_word0 rt req v AND 0xFF) = rt"
    "ucast (drop_bit 8 (setup_word0 rt req v AND 0xFF00)) = req"
    "ucast (drop_bit 16 (setup_word0 rt req v AND 0xFFFF0000)) = v"
    "ucast (setup_word1 i n AND 0xFFFF) = i"
    "ucast (drop_bit 16 (setup_word1 i n AND 0xFFFF0000)) = n"
    unfolding m setup_word0_def setup_word1_def
    by (rule bit_word_eqI, auto simp: bit_simps dest: bit_imp_le_length)+
  then show ?thesis by (simp add: decode_setup_def)
qed

text \<open>
  A schedule \<open>turns\<close> says before which requests the application thread runs. A request that is not handled
  stalls, and the backend reports a negative count.
\<close>

definition take_turn :: "('w, 'p) usb_platform_scheme \<Rightarrow> (nat \<Rightarrow> bool) \<Rightarrow> 'w wire \<Rightarrow> 'w wire" where
  "take_turn P turns w = w\<lparr>wire_turn := wire_turn w + 1,
     wire_device := if turns (wire_turn w) then run_verification P (wire_device w) else wire_device w\<rparr>"

definition wire_out ::
    "('w, 'p) usb_platform_scheme \<Rightarrow> (byte list \<Rightarrow> 'w \<Rightarrow> 'w) \<Rightarrow> (nat \<Rightarrow> bool)
     \<Rightarrow> byte \<Rightarrow> byte \<Rightarrow> u16 \<Rightarrow> u16 \<Rightarrow> byte list \<Rightarrow> 'w wire \<Rightarrow> int \<times> 'w wire" where
  "wire_out P offer turns rt req v i data w =
     (let w = take_turn P turns w;
          (handled, s) = domDupUSBSetupCB P (setup_word0 rt req v) (setup_word1 i (of_nat (length data)))
                           (effect (offer data) (wire_device w))
      in (if handled then int (length data) else - 1, w\<lparr>wire_device := s\<rparr>))"

definition wire_in ::
    "('w, 'p) usb_platform_scheme \<Rightarrow> ('w \<Rightarrow> byte list) \<Rightarrow> (nat \<Rightarrow> bool)
     \<Rightarrow> byte \<Rightarrow> byte \<Rightarrow> u16 \<Rightarrow> u16 \<Rightarrow> nat \<Rightarrow> 'w wire \<Rightarrow> int \<times> byte list \<times> 'w wire" where
  "wire_in P answer turns rt req v i n w =
     (let w = take_turn P turns w;
          (handled, s) = domDupUSBSetupCB P (setup_word0 rt req v) (setup_word1 i (of_nat n)) (wire_device w);
          bytes = (if handled then take n (answer (world s)) else [])
      in (if handled then int (length bytes) else - 1, bytes, w\<lparr>wire_device := s\<rparr>))"

definition wire_bus ::
    "('w, 'p) usb_platform_scheme \<Rightarrow> (byte list \<Rightarrow> 'w \<Rightarrow> 'w) \<Rightarrow> ('w \<Rightarrow> byte list) \<Rightarrow> (nat \<Rightarrow> bool)
     \<Rightarrow> 'w wire update_bus" where
  "wire_bus P offer answer turns = \<lparr>
     Enumerate = (\<lambda>w. (Some [], w)), OpenControlChannel = (\<lambda>path w. (True, w)),
     Transfer = (\<lambda>rt req v i data ms. wire_out P offer turns rt req v i data),
     steady_now = (\<lambda>w. (wire_clock w, w)), sleep_for = (\<lambda>ms w. w\<lparr>wire_clock := wire_clock w + ms\<rparr>),
     ControlIn = (\<lambda>rt req v i n ms. wire_in P answer turns rt req v i n)\<rparr>"

definition wire_env :: "UpdateTimings \<Rightarrow> 'w wire UsbDeviceUpdater orchestrator_env" where
  "wire_env tm = \<lparr>
     update_cancelled = (\<lambda>s. (False, s)), env_now = (\<lambda>s. (wire_clock (updater_world s), s)),
     env_sleep = (\<lambda>ms s. s\<lparr>updater_world := (updater_world s)\<lparr>wire_clock := wire_clock (updater_world s) + ms\<rparr>\<rparr>),
     progress_callback = (\<lambda>q s. s), timings = tm, has_logger = False, defer_restart = True\<rparr>"

lemma wire_env_sel [simp]:
  "update_cancelled (wire_env tm) s = (False, s)" "env_now (wire_env tm) s = (wire_clock (updater_world s), s)"
  "env_sleep (wire_env tm) ms s = s\<lparr>updater_world := (updater_world s)\<lparr>wire_clock := wire_clock (updater_world s) + ms\<rparr>\<rparr>"
  "Report (wire_env tm) st t a b m s = s" "timings (wire_env tm) = tm"
  by (simp_all add: wire_env_def Report_def)

text \<open>An update request reaches its handler, whether or not the capture path is up.\<close>

lemma setup_update:
  assumes "rt = 0x40 \<or> rt = 0xC0" and "UPDATE_REQUEST_STATUS \<le> req" and "req \<le> UPDATE_REQUEST_FPGA_RECONFIG"
  shows "domDupUSBSetupCB P (setup_word0 rt req v) (setup_word1 i n) s
    = acknowledge P (domDupHandleUpdateRequest P req v i n s)"
  using assms by (auto simp: domDupUSBSetupCB_def decode_setup_words vendor_request_def Let_def)

subsection \<open>What a request leaves of the main module's variables\<close>

lemma no_variables: "kept_world P (\<lambda>_. True)"
  by unfold_locales simp_all

lemma same_more:
  "agent.more (snd (updateAgentBegin P target data len running s)) = agent.more s"
  "agent.more (snd (updateAgentData P target i data s)) = agent.more s"
  "agent.more (snd (updateAgentFinish target s)) = agent.more s"
  using kept_world.kept_begin [OF no_variables kept_refl] kept_world.kept_data [OF no_variables kept_refl]
    kept_world.kept_decisions [OF no_variables kept_refl]
  by (simp_all add: kept_def)

lemma same_buffers:
  fixes s t :: "'w firmware"
  assumes "agent.more t = agent.more s"
  shows "glUpdatePacketBuffer t = glUpdatePacketBuffer s" "glUpdateChunkBuffer t = glUpdateChunkBuffer s"
    "dataCollectionFlag t = dataCollectionFlag s"
  using assms by (cases s; cases t; simp)+

definition buffers_ok :: "'w firmware \<Rightarrow> bool" where
  "buffers_ok s \<longleftrightarrow> length (glUpdatePacketBuffer s) = 40 \<and> length (glUpdateChunkBuffer s) = 2048"

lemma buffers_kept:
  fixes s t :: "'w firmware"
  assumes "agent.more t = agent.more s" and "buffers_ok s"
  shows "buffers_ok t"
  using assms(2) same_buffers [OF assms(1)] by (simp add: buffers_ok_def)

subsection \<open>The contracts\<close>

text \<open>Calls of the USB driver that a request for an update makes.\<close>

inductive endpoint_call :: "('w, 'p) usb_platform_scheme \<Rightarrow> (byte list \<Rightarrow> 'w \<Rightarrow> 'w) \<Rightarrow> ('w \<Rightarrow> 'w) \<Rightarrow> bool"
  for P offer where
  "endpoint_call P offer (offer d)"
| "endpoint_call P offer (CyU3PUsbAckSetup P)"
| "endpoint_call P offer (CyU3PUsbSendEP0Data P bs)"
| "endpoint_call P offer (\<lambda>w. snd (snd (CyU3PUsbGetEP0Data P n w)))"

locale endpoint_wire =
  fixes P :: "('w, 'p) usb_platform_scheme" and offer :: "byte list \<Rightarrow> 'w \<Rightarrow> 'w" and answer :: "'w \<Rightarrow> byte list"
  assumes offered: "\<exists>w'. CyU3PUsbGetEP0Data P (length d) (offer d w) = (CY_U3P_SUCCESS, d, w')"
    and answered: "answer (CyU3PUsbSendEP0Data P bs w) = bs"

locale update_medium = endpoint_wire P offer answer
  for P :: "('w, 'p) usb_platform_scheme" and offer :: "byte list \<Rightarrow> 'w \<Rightarrow> 'w" and answer :: "'w \<Rightarrow> byte list" +
  fixes t :: UpdateTarget and img :: "byte list"
    and ready taken holds :: "'w firmware \<Rightarrow> bool" and taking :: "nat \<Rightarrow> 'w firmware \<Rightarrow> bool"
  assumes begin_taken: "ready s \<Longrightarrow> \<exists>s'. updateAgentBegin P (ucast (TargetIndex t))
        (begin_packet (of_nat (length img)) (sha256 img) (TargetFlags t)) 40 (dataCollectionFlag s) s = (True, s')
      \<and> taking 0 s' \<and> st_nextChunk (glUpdateState s') = 0"
    and chunk_taken: "taking k s \<Longrightarrow> c \<noteq> [] \<Longrightarrow> length c \<le> 2048 \<Longrightarrow> take (length c) (drop k img) = c \<Longrightarrow>
      k + length c = length img \<or> 256 dvd length c \<Longrightarrow> k + length c \<le> length img \<Longrightarrow>
      updateChunkIsAllowed (glUpdateState s) (ucast (TargetIndex t)) (st_nextChunk (glUpdateState s)) (of_nat (length c)) = ERROR_NONE
      \<and> (\<exists>s'. updateAgentData P (ucast (TargetIndex t)) (st_nextChunk (glUpdateState s)) c s = (True, s')
           \<and> taking (k + length c) s' \<and> st_nextChunk (glUpdateState s') = st_nextChunk (glUpdateState s) + 1)"
    and finish_taken: "taking (length img) s \<Longrightarrow> \<exists>s'. updateAgentFinish (ucast (TargetIndex t)) s = (True, s') \<and> taken s'"
    and verified: "taken s \<Longrightarrow> holds (run_verification P s)"
    and idle: "ready s \<Longrightarrow> \<not> glUpdateVerifyPending s" "taking k s \<Longrightarrow> \<not> glUpdateVerifyPending s"
      "taken s \<Longrightarrow> st_phase (glUpdateState s) = PHASE_VERIFYING"
      "holds s \<Longrightarrow> \<not> glUpdateVerifyPending s \<and> st_phase (glUpdateState s) = PHASE_COMPLETE"
    and steady: "endpoint_call P offer f \<Longrightarrow> X \<in> {ready, taken, holds} \<union> range taking \<Longrightarrow> X s \<Longrightarrow> X (effect f s)"
      "X \<in> {ready, taken, holds} \<union> range taking \<Longrightarrow> X s \<Longrightarrow> X (s\<lparr>glUpdatePacketBuffer := b\<rparr>)"
      "X \<in> {ready, taken, holds} \<union> range taking \<Longrightarrow> X s \<Longrightarrow> X (s\<lparr>glUpdateChunkBuffer := b\<rparr>)"
begin

definition stages :: "('w firmware \<Rightarrow> bool) set" where
  "stages = {ready, taken, holds} \<union> range taking"

lemma in_stages [simp]: "ready \<in> stages" "taken \<in> stages" "holds \<in> stages" "taking k \<in> stages"
  by (simp_all add: stages_def)

lemma stage_world:
  assumes "X \<in> stages" and "X s" and "endpoint_call P offer f"
  shows "X (s\<lparr>world := f (world s)\<rparr>)"
  using steady(1) [OF assms(3) assms(1) [unfolded stages_def] assms(2)] by (simp add: effect_def)

lemma stage_buffers:
  assumes "X \<in> stages" and "X s"
  shows "X (s\<lparr>glUpdatePacketBuffer := b\<rparr>)" "X (s\<lparr>glUpdateChunkBuffer := b\<rparr>)"
  using steady(2,3) assms unfolding stages_def by blast+

lemma turn_quiet: "\<not> glUpdateVerifyPending s \<Longrightarrow> run_verification P s = s"
  by (simp add: run_verification_def announce_update_def updateAgentVerifyPending_def)

text \<open>Where a device is on the wire, at one of the stages and with its buffers.\<close>

definition at_stage :: "('w firmware \<Rightarrow> bool) \<Rightarrow> 'w wire UsbDeviceUpdater \<Rightarrow> bool" where
  "at_stage X s \<longleftrightarrow> updater_channel s \<and> X (wire_device (updater_world s)) \<and> buffers_ok (wire_device (updater_world s))"

subsection \<open>One request\<close>

lemma status_step:
  assumes "X \<in> stages" and "X s" and "buffers_ok s"
  shows "\<exists>s'. domDupUSBSetupCB P (setup_word0 0xC0 0xD0 0) (setup_word1 0 16) s = (True, s') \<and> X s' \<and> buffers_ok s'
    \<and> glUpdateState s' = glUpdateState s
    \<and> answer (world s') = take 16 (updateStatusEncode (glUpdateState s) (glUpdatePacketBuffer s))"
proof -
  let ?b = "updateStatusEncode (glUpdateState s) (glUpdatePacketBuffer s)"
  let ?s = "s\<lparr>glUpdatePacketBuffer := ?b\<rparr>"
  have l: "length ?b = 40" using assms(3) by (simp add: buffers_ok_def status_layout)
  have "X (?s\<lparr>world := CyU3PUsbSendEP0Data P (take 16 ?b) (world ?s)\<rparr>)"
    by (rule stage_world [OF assms(1) stage_buffers(1) [OF assms(1,2)] endpoint_call.intros(3)])
  then show ?thesis using assms(3) l answered
    by (simp add: setup_update acknowledge_def domDupHandleUpdateRequest_def update_status_request_def
        updateAgentStatus_def effect_def Let_def buffers_ok_def)
qed

lemma begin_step:
  assumes "ready s" and "buffers_ok s"
  shows "\<exists>s'. domDupUSBSetupCB P (setup_word0 0x40 0xD1 0) (setup_word1 (TargetIndex t) 40)
      (effect (offer (BeginPacket t (length img) (sha256 img))) s) = (True, s')
    \<and> taking 0 s' \<and> buffers_ok s' \<and> st_nextChunk (glUpdateState s') = 0"
proof -
  let ?d = "BeginPacket t (length img) (sha256 img)"
  let ?s = "effect (offer ?d) s"
  have d: "?d = begin_packet (of_nat (length img)) (sha256 img) (TargetFlags t)"
    by (rule BeginPacket_begin_packet)
  have l: "length ?d = 40" by (simp add: d begin_packet_def bytes_le32_def)
  obtain w where g: "CyU3PUsbGetEP0Data P 40 (world ?s) = (CY_U3P_SUCCESS, ?d, w)"
    using offered [of ?d "world s"] l by (auto simp: effect_def)
  have b: "blit (glUpdatePacketBuffer s) 0 ?d = ?d"
    using assms(2) l by (simp add: buffers_ok_def blit_def)
  let ?u = "?s\<lparr>world := w, glUpdatePacketBuffer := ?d\<rparr>"
  have "ready ?s" using stage_world [OF in_stages(1) assms(1) endpoint_call.intros(1), of ?d] by (simp add: effect_def)
  then have "ready (?s\<lparr>world := snd (snd (CyU3PUsbGetEP0Data P 40 (world ?s)))\<rparr>)"
    by (rule stage_world [OF in_stages(1) _ endpoint_call.intros(4)])
  then have "ready ?u" unfolding g by (auto dest: stage_buffers(1) [OF in_stages(1)])
  from begin_taken [OF this] obtain s' where
    s': "updateAgentBegin P (ucast (TargetIndex t)) ?d 40 (dataCollectionFlag ?u) ?u = (True, s')"
      "taking 0 s'" "st_nextChunk (glUpdateState s') = 0"
    unfolding d by blast
  have "agent.more s' = agent.more ?u"
    using same_more(1) [of P "ucast (TargetIndex t)" ?d 40 "dataCollectionFlag ?u" ?u] s'(1) by simp
  moreover have "buffers_ok ?u" using assms(2) l by (simp add: buffers_ok_def effect_def)
  ultimately have "buffers_ok s'" by (rule buffers_kept)
  then show ?thesis using s' g b l
    by (simp add: setup_update acknowledge_def domDupHandleUpdateRequest_def update_begin_request_def
        effect_def Let_def)
qed

lemma chunk_step:
  assumes "taking k s" and "buffers_ok s" and "c \<noteq> []" and "length c \<le> 2048" and "take (length c) (drop k img) = c"
    and "k + length c = length img \<or> 256 dvd length c" and "k + length c \<le> length img"
    and "i = st_nextChunk (glUpdateState s)"
  shows "\<exists>s'. domDupUSBSetupCB P (setup_word0 0x40 0xD2 i) (setup_word1 (TargetIndex t) (of_nat (length c)))
      (effect (offer c) s) = (True, s')
    \<and> taking (k + length c) s' \<and> buffers_ok s' \<and> st_nextChunk (glUpdateState s') = i + 1"
proof -
  let ?s = "effect (offer c) s"
  have n: "unat (of_nat (length c) :: u16) = length c" using assms(4) by (simp add: unat_of_nat_u16)
  have r: "taking k ?s" using stage_world [OF in_stages(4) assms(1) endpoint_call.intros(1), of c] by (simp add: effect_def)
  have st: "glUpdateState ?s = glUpdateState s" by (simp add: effect_def)
  note allowed = chunk_taken [OF r assms(3-7), THEN conjunct1, unfolded st, folded assms(8)]
  obtain w where g: "CyU3PUsbGetEP0Data P (length c) (world ?s) = (CY_U3P_SUCCESS, c, w)"
    using offered [of c "world s"] by (auto simp: effect_def)
  let ?b = "blit (glUpdateChunkBuffer s) 0 c"
  have b: "take (length c) ?b = c" "length ?b = 2048"
    using assms(2,4) by (simp_all add: buffers_ok_def take_blit_0)
  let ?u = "?s\<lparr>world := w, glUpdateChunkBuffer := ?b\<rparr>"
  have "taking k (?s\<lparr>world := snd (snd (CyU3PUsbGetEP0Data P (length c) (world ?s)))\<rparr>)"
    by (rule stage_world [OF in_stages(4) r endpoint_call.intros(4)])
  then have u: "taking k ?u" unfolding g by (auto dest: stage_buffers(2) [OF in_stages(4)])
  obtain s' where s': "updateAgentData P (ucast (TargetIndex t)) i c ?u = (True, s')"
      "taking (k + length c) s'" "st_nextChunk (glUpdateState s') = i + 1"
    using chunk_taken [OF u assms(3-7), THEN conjunct2] assms(8) by (auto simp: effect_def)
  have "agent.more s' = agent.more ?u"
    using same_more(2) [of P "ucast (TargetIndex t)" i c ?u] s'(1) by simp
  moreover have "buffers_ok ?u" using assms(2) b by (simp add: buffers_ok_def effect_def)
  ultimately have "buffers_ok s'" by (rule buffers_kept)
  moreover have "\<not> (of_nat (length c) :: u16) = 0" "\<not> UPDATE_MAX_CHUNK < (of_nat (length c) :: u16)"
    using assms(3,4) n by (auto simp: word_less_nat_alt unat_eq_0)
  ultimately show ?thesis using s' g b allowed n st
    by (simp add: setup_update acknowledge_def domDupHandleUpdateRequest_def update_data_request_def
        updateAgentChunkRefusal_def effect_def Let_def)
qed

lemma finish_step:
  assumes "taking (length img) s" and "buffers_ok s"
  shows "\<exists>s'. domDupUSBSetupCB P (setup_word0 0x40 0xD3 0) (setup_word1 (TargetIndex t) 0)
      (effect (offer []) s) = (True, s') \<and> taken s' \<and> buffers_ok s'"
proof -
  let ?s = "effect (offer []) s"
  have "taking (length img) ?s"
    using stage_world [OF in_stages(4) assms(1) endpoint_call.intros(1), of "[]"] by (simp add: effect_def)
  from finish_taken [OF this] obtain u where u: "updateAgentFinish (ucast (TargetIndex t)) ?s = (True, u)" "taken u"
    by blast
  have "agent.more u = agent.more ?s" using same_more(3) [of "ucast (TargetIndex t)" ?s] u(1) by simp
  moreover have "buffers_ok ?s" using assms(2) by (simp add: buffers_ok_def effect_def)
  ultimately have "buffers_ok u" by (rule buffers_kept)
  moreover have "taken (effect (CyU3PUsbAckSetup P) u)"
    unfolding effect_def by (rule stage_world [OF in_stages(2) u(2) endpoint_call.intros(2)])
  ultimately show ?thesis using u(1)
    by (simp add: setup_update acknowledge_def domDupHandleUpdateRequest_def buffers_ok_def effect_def)
qed

subsection \<open>The host's requests\<close>

abbreviation (input) host :: "(nat \<Rightarrow> bool) \<Rightarrow> 'w wire UsbDeviceUpdater device_updater" where
  "host turns \<equiv> usb_updater (wire_bus P offer answer turns)"

abbreviation (input) device :: "'w wire UsbDeviceUpdater \<Rightarrow> 'w firmware" where
  "device s \<equiv> wire_device (updater_world s)"

lemma turn_idle:
  assumes "\<not> glUpdateVerifyPending (wire_device w)"
  shows "wire_device (take_turn P turns w) = wire_device w"
  using turn_quiet [OF assms] by (simp add: take_turn_def)

text \<open>A step of the wire: from one stage to another, with one turn of the application thread offered.\<close>

definition steps :: "('w firmware \<Rightarrow> bool) \<Rightarrow> 'w wire UsbDeviceUpdater \<Rightarrow> 'w wire UsbDeviceUpdater \<Rightarrow> bool" where
  "steps X s s' \<longleftrightarrow> at_stage X s' \<and> wire_clock (updater_world s') = wire_clock (updater_world s)
     \<and> wire_turn (updater_world s') = wire_turn (updater_world s) + 1"

lemma ReadStatus_step:
  assumes "updater_channel s" and "X \<in> stages"
    and "X (wire_device (take_turn P turns (updater_world s)))" and "buffers_ok (wire_device (take_turn P turns (updater_world s)))"
  shows "\<exists>s'. ReadStatus (host turns) s = (Some (host_status (glUpdateState (device s'))), s') \<and> steps X s s'
    \<and> glUpdateState (device s') = glUpdateState (wire_device (take_turn P turns (updater_world s)))"
proof -
  let ?d = "wire_device (take_turn P turns (updater_world s))"
  obtain d' where d': "domDupUSBSetupCB P (setup_word0 0xC0 0xD0 0) (setup_word1 0 16) ?d = (True, d')" "X d'"
      "buffers_ok d'" "glUpdateState d' = glUpdateState ?d"
      "answer (world d') = take 16 (updateStatusEncode (glUpdateState ?d) (glUpdatePacketBuffer ?d))"
    using status_step [OF assms(2-4)] by blast
  have l: "length (updateStatusEncode (glUpdateState ?d) (glUpdatePacketBuffer ?d)) = 40"
    "16 \<le> length (glUpdatePacketBuffer ?d)"
    using assms(4) by (simp_all add: buffers_ok_def status_layout)
  show ?thesis using assms(1) d' l status_understood [OF l(2)]
    by (simp add: usb_updater_def usb_ReadStatus_def updater_in_def wire_bus_def wire_in_def Let_def case_prod_beta
        steps_def at_stage_def take_turn_def min_def)
qed

lemma ReadStatus_idle:
  assumes "at_stage X s" and "X \<in> stages" and "\<not> glUpdateVerifyPending (device s)"
  shows "\<exists>s'. ReadStatus (host turns) s = (Some (host_status (glUpdateState (device s'))), s') \<and> steps X s s'
    \<and> glUpdateState (device s') = glUpdateState (device s)"
  using ReadStatus_step [of s X turns] assms turn_idle [OF assms(3), of turns] by (simp add: at_stage_def)

lemma verification_buffers: "buffers_ok s \<Longrightarrow> buffers_ok (run_verification P s)"
proof -
  have k: "kept (\<lambda>_. True) s (updateAgentVerify P (snd (fpgaRegistersSetLeds P v s)))"
    "kept (\<lambda>_. True) s (updateAgentVerify P s)" for v
    by (simp_all add: kept_world.kept_verify [OF no_variables] kept_world.kept_registers [OF no_variables])
  have "agent.more (updateAgentVerify P (snd (fpgaRegistersSetLeds P v s))) = agent.more s"
    "agent.more (updateAgentVerify P s) = agent.more s" for v
    using k unfolding kept_def by blast+
  then have "buffers_ok s \<Longrightarrow> buffers_ok (updateAgentVerify P (snd (fpgaRegistersSetLeds P v s)))"
    "buffers_ok s \<Longrightarrow> buffers_ok (updateAgentVerify P s)" for v
    using buffers_kept by blast+
  then show "buffers_ok s \<Longrightarrow> buffers_ok (run_verification P s)"
    by (simp add: run_verification_def announce_update_def Let_def buffers_ok_def)
qed

lemma ReadStatus_taken:
  assumes "at_stage taken s"
  shows "\<exists>s'. ReadStatus (host turns) s = (Some (host_status (glUpdateState (device s'))), s')
    \<and> steps (if turns (wire_turn (updater_world s)) then holds else taken) s s'"
proof (cases "turns (wire_turn (updater_world s))")
  case True
  then show ?thesis using ReadStatus_step [of s holds turns] assms verified verification_buffers
    by (auto simp: at_stage_def take_turn_def)
next
  case False
  then show ?thesis using ReadStatus_step [of s taken turns] assms by (auto simp: at_stage_def take_turn_def)
qed

lemma Begin_step:
  assumes "at_stage ready s"
  shows "\<exists>s'. BeginUpdate (host turns) t (length img) (sha256 img) s = (True, s') \<and> steps (taking 0) s s'
    \<and> st_nextChunk (glUpdateState (device s')) = 0"
proof -
  have d: "updater_channel s" "ready (device s)" "buffers_ok (device s)" using assms by (simp_all add: at_stage_def)
  note idle_turn = turn_idle [OF idle(1) [OF d(2)], of turns]
  have l: "length (BeginPacket t (length img) (sha256 img)) = 40"
    by (simp add: BeginPacket_begin_packet begin_packet_def bytes_le32_def)
  obtain d' where "domDupUSBSetupCB P (setup_word0 0x40 0xD1 0) (setup_word1 (TargetIndex t) 40)
      (effect (offer (BeginPacket t (length img) (sha256 img))) (device s)) = (True, d')" "taking 0 d'" "buffers_ok d'"
      "st_nextChunk (glUpdateState d') = 0"
    using begin_step [OF d(2,3)] by blast
  then show ?thesis using d(1) idle_turn l
    by (simp add: usb_updater_def usb_Begin_def updater_out_def wire_bus_def wire_out_def Let_def case_prod_beta
        steps_def at_stage_def take_turn_def)
qed

lemma Chunk_step:
  assumes "at_stage (taking k) s" and "c \<noteq> []" and "length c \<le> 2048" and "take (length c) (drop k img) = c"
    and "k + length c = length img \<or> 256 dvd length c" and "k + length c \<le> length img"
    and "i = st_nextChunk (glUpdateState (device s))"
  shows "\<exists>s'. SendChunk (host turns) t i c s = (True, s') \<and> steps (taking (k + length c)) s s'
    \<and> st_nextChunk (glUpdateState (device s')) = i + 1"
proof -
  have d: "updater_channel s" "taking k (device s)" "buffers_ok (device s)" using assms(1) by (simp_all add: at_stage_def)
  note idle_turn = turn_idle [OF idle(2) [OF d(2)], of turns]
  obtain d' where "domDupUSBSetupCB P (setup_word0 0x40 0xD2 i) (setup_word1 (TargetIndex t) (of_nat (length c)))
      (effect (offer c) (device s)) = (True, d')" "taking (k + length c) d'" "buffers_ok d'"
      "st_nextChunk (glUpdateState d') = i + 1"
    using chunk_step [OF d(2,3) assms(2-7)] by blast
  then show ?thesis using d(1) idle_turn
    by (simp add: usb_updater_def usb_SendChunk_def updater_out_def wire_bus_def wire_out_def Let_def case_prod_beta
        steps_def at_stage_def take_turn_def)
qed

lemma Finish_step:
  assumes "at_stage (taking (length img)) s"
  shows "\<exists>s'. FinishUpdate (host turns) t s = (True, s') \<and> steps taken s s'"
proof -
  have d: "updater_channel s" "taking (length img) (device s)" "buffers_ok (device s)"
    using assms by (simp_all add: at_stage_def)
  note idle_turn = turn_idle [OF idle(2) [OF d(2)], of turns]
  obtain d' where "domDupUSBSetupCB P (setup_word0 0x40 0xD3 0) (setup_word1 (TargetIndex t) 0)
      (effect (offer []) (device s)) = (True, d')" "taken d'" "buffers_ok d'"
    using finish_step [OF d(2,3)] by blast
  then show ?thesis using d(1) idle_turn
    by (simp add: usb_updater_def usb_Finish_def updater_out_def wire_bus_def wire_out_def Let_def case_prod_beta
        steps_def at_stage_def take_turn_def)
qed

subsection \<open>The whole of it\<close>

lemma send_all:
  assumes "at_stage (taking k) s" and "k \<le> length img" and "i = st_nextChunk (glUpdateState (device s))"
  shows "\<exists>s'. send_loop (host turns) (wire_env tm) t 2048 img outcome k i s = ((True, outcome), s')
    \<and> at_stage (taking (length img)) s'"
  using assms
proof (induction "length img - k" arbitrary: k i s rule: less_induct)
  case less
  show ?case
  proof (cases "k < length img")
    case False
    then show ?thesis using less.prems by (simp add: send_loop.simps)
  next
    case True
    let ?span = "min 2048 (length img - k)"
    let ?c = "take ?span (drop k img)"
    have a: "AlignedChunk 2048 = 2048" by (simp add: AlignedChunk_def)
    have c: "?c \<noteq> []" "length ?c \<le> 2048" "take (length ?c) (drop k img) = ?c" "k + length ?c \<le> length img"
      "length ?c = ?span" using True by auto
    have al: "k + length ?c = length img \<or> 256 dvd length ?c" unfolding c(5) using True by (auto simp: min_def)
    obtain s1 where s1: "SendChunk (host turns) t i ?c s = (True, s1)" "steps (taking (k + length ?c)) s s1"
        "st_nextChunk (glUpdateState (device s1)) = i + 1"
      using Chunk_step [OF less.prems(1) c(1-3) al c(4) less.prems(3)] by blast
    have "\<exists>s'. send_loop (host turns) (wire_env tm) t 2048 img outcome (k + length ?c) (i + 1) s1 = ((True, outcome), s')
      \<and> at_stage (taking (length img)) s'"
      using s1(2,3) c(1,4) True by (intro less.hyps) (auto simp: steps_def)
    then show ?thesis using True s1(1) unfolding c(5)
      by (subst send_loop.simps) (simp add: a Let_def)
  qed
qed

lemma await_ends:
  assumes "at_stage taken s" and "turns (wire_turn (updater_world s) + d)"
    and "wire_clock (updater_world s) + d * tm_poll_interval tm \<le> lm + tm_stall_timeout tm"
    and "lm \<le> wire_clock (updater_world s)"
  shows "\<exists>s'. await_loop (host turns) (wire_env tm) t n outcome lw lv lm s = Some ((True, outcome), s')
    \<and> at_stage holds s'"
  using assms
proof (induction d arbitrary: s lw lv lm)
  case 0
  then obtain s1 where s1: "ReadStatus (host turns) s = (Some (host_status (glUpdateState (device s1))), s1)"
      "steps holds s s1"
    using ReadStatus_taken [of s turns] by auto
  then have "st_phase (glUpdateState (device s1)) = PHASE_COMPLETE" "at_stage holds s1"
    using idle(4) by (simp_all add: steps_def at_stage_def)
  then show ?case using s1(1)
    by (subst await_loop.simps) (simp add: host_status_def)
next
  case (Suc d)
  obtain s1 where s1: "ReadStatus (host turns) s = (Some (host_status (glUpdateState (device s1))), s1)"
      "steps (if turns (wire_turn (updater_world s)) then holds else taken) s s1"
    using ReadStatus_taken [OF Suc.prems(1), of turns] by blast
  show ?case
  proof (cases "turns (wire_turn (updater_world s))")
    case True
    then have "st_phase (glUpdateState (device s1)) = PHASE_COMPLETE" "at_stage holds s1"
      using s1(2) idle(4) by (simp_all add: steps_def at_stage_def)
    then show ?thesis using s1(1)
      by (subst await_loop.simps) (simp add: host_status_def)
  next
    case False
    let ?st = "glUpdateState (device s1)" and ?now = "wire_clock (updater_world s1)"
    let ?moved = "st_written ?st \<noteq> lw \<or> st_verified ?st \<noteq> lv"
    let ?s2 = "s1\<lparr>updater_world := (updater_world s1)\<lparr>wire_clock := ?now + tm_poll_interval tm\<rparr>\<rparr>"
    have t1: "at_stage taken s1" "?now = wire_clock (updater_world s)"
      "wire_turn (updater_world s1) = wire_turn (updater_world s) + 1"
      using s1(2) False by (simp_all add: steps_def)
    then have ph: "st_phase ?st = PHASE_VERIFYING" using idle(3) by (simp add: at_stage_def)
    have "\<exists>s'. await_loop (host turns) (wire_env tm) t n outcome (if ?moved then st_written ?st else lw)
        (if ?moved then st_verified ?st else lv) (if ?moved then ?now else lm) ?s2 = Some ((True, outcome), s')
      \<and> at_stage holds s'"
    proof (rule Suc.IH)
      show "at_stage taken ?s2" using t1(1) by (simp add: at_stage_def)
      show "turns (wire_turn (updater_world ?s2) + d)" using Suc.prems(2) t1(3) by simp
      show "wire_clock (updater_world ?s2) + d * tm_poll_interval tm
          \<le> (if ?moved then ?now else lm) + tm_stall_timeout tm"
        using Suc.prems(3,4) t1(2) by (auto simp: algebra_simps)
      show "(if ?moved then ?now else lm) \<le> wire_clock (updater_world ?s2)"
        using Suc.prems(4) t1(2) by auto
    qed
    moreover have "\<not> tm_stall_timeout tm < ?now - lm" using Suc.prems(3) t1(2) by auto
    ultimately show ?thesis using s1(1) ph
      by (subst await_loop.simps) (auto simp: host_status_def Let_def)
  qed
qed

lemma write_component_ends:
  assumes "at_stage ready s" and "comp_sha256 c = sha256 img"
    and "\<And>n. \<exists>k\<le>K. turns (n + k)" and "K * tm_poll_interval tm \<le> tm_stall_timeout tm"
  shows "\<exists>s'. WriteComponent (host turns) (wire_env tm) t c img outcome s = Some ((True, outcome), s')
    \<and> at_stage holds s'"
proof -
  obtain s1 where s1: "ReadStatus (host turns) s = (Some (host_status (glUpdateState (device s1))), s1)" "steps ready s s1"
    using ReadStatus_idle [OF assms(1), of turns] assms(1) idle(1) by (auto simp: at_stage_def)
  obtain s2 where s2: "BeginUpdate (host turns) t (length img) (sha256 img) s1 = (True, s2)" "steps (taking 0) s1 s2"
      "st_nextChunk (glUpdateState (device s2)) = 0"
    using Begin_step [of s1 turns] s1(2) by (auto simp: steps_def)
  obtain s3 where s3: "send_loop (host turns) (wire_env tm) t 2048 img outcome 0 0 s2 = ((True, outcome), s3)"
      "at_stage (taking (length img)) s3"
    using send_all [of 0 s2 0 turns tm outcome] s2(2,3) by (auto simp: steps_def)
  obtain s4 where s4: "FinishUpdate (host turns) t s3 = (True, s4)" "steps taken s3 s4"
    using Finish_step [OF s3(2), of turns] by blast
  obtain k where k: "k \<le> K" "turns (wire_turn (updater_world s4) + k)" using assms(3) by blast
  have "k * tm_poll_interval tm \<le> tm_stall_timeout tm"
    using k(1) assms(4) mult_le_mono1 [of k K "tm_poll_interval tm"] by linarith
  then obtain s5 where "await_loop (host turns) (wire_env tm) t (length img) outcome 0 0 (wire_clock (updater_world s4)) s4
      = Some ((True, outcome), s5)" "at_stage holds s5"
    using await_ends [of s4 turns k tm "wire_clock (updater_world s4)" "length img" outcome 0 0] k(2) s4(2)
    by (auto simp: steps_def)
  then show ?thesis using s1(1) s2(1) s3(1) s4(1) assms(2)
    by (simp add: WriteComponent_def AwaitCompletion_def host_status_def Let_def)
qed

end

end
