(* ===== verification/Media.thy ===== *)
theory Media
  imports UpdateAgent
begin

text \<open>
  What the update agent relies on from the EEPROM, as locales over the SDK's operations.
  \<open>eeprom_readback\<close> is a two-wire memory whose successful reads are true and whose page writes stay
  in their page: a write may be acknowledged and leave anything there. A verification that completes
  on such a medium has the promised image on it. \<open>eeprom_device\<close> adds that a write the bus
  acknowledges took; it is not assumed to succeed, and a failed write may leave anything in its
  cells. Accepted chunks are then on the medium, and the first page is untouched until the commit.
\<close>

subsection \<open>The EEPROM\<close>

lemma slave_bits:
  assumes "n < (8 :: nat)"
  shows "unat (drop_bit 1 (ucast (0xA0 OR push_bit 1 (of_nat n :: u32)) :: byte) AND 7) = n"
proof -
  have "n = 0 \<or> n = 1 \<or> n = 2 \<or> n = 3 \<or> n = 4 \<or> n = 5 \<or> n = 6 \<or> n = 7"
    using assms by arith
  then show ?thesis by (elim disjE) (simp_all add: push_bit_eq_mult)
qed

lemma preamble_address_of:
  assumes "unat a < 0x80000"
  shows "preamble_address (updateEepromPreamble a r) = unat a"
proof -
  let ?s = "updateEepromSlaveAddress a" and ?o = "updateEepromSlaveOffset a"
  define n where "n = unat a div 65536"
  have n: "n < 8" using assms unfolding n_def by simp
  have "unat (a div 65536) = unat (of_nat n :: u32)"
    using n by (simp add: n_def unat_div unat_of_nat)
  then have q: "a div 65536 = of_nat n" by (simp only: word_unat_eq_iff)
  have m: "(of_nat n :: u32) AND 7 = of_nat n"
  proof -
    have "n = 0 \<or> n = 1 \<or> n = 2 \<or> n = 3 \<or> n = 4 \<or> n = 5 \<or> n = 6 \<or> n = 7"
      using n by arith
    then show ?thesis by (elim disjE) simp_all
  qed
  have s: "unat (drop_bit 1 ?s AND 7) = n"
    unfolding updateEepromSlaveAddress_def Let_def q m by (rule slave_bits [OF n])
  have o: "unat ?o = unat a mod 65536"
    by (simp add: updateEepromSlaveOffset_def unsigned_ucast_eq take_bit_eq_mod unat_mod)
  have d: "unat (drop_bit 8 ?o) = unat ?o div 256" by (simp add: drop_bit_eq_div unat_div)
  have "unat ?o div 256 < 256" using unat_less_u16 [of ?o] by (simp add: less_mult_imp_div_less)
  then have hi: "unat (ucast (drop_bit 8 ?o) :: byte) = unat ?o div 256"
    unfolding d [symmetric] by (simp add: unsigned_ucast_eq take_bit_nat_eq_self)
  have lo: "unat (ucast (?o AND 0xFF) :: byte) = unat ?o mod 256"
    by (simp add: unsigned_ucast_eq take_bit_eq_mod)
  have "preamble_address (updateEepromPreamble a r) = unat (drop_bit 1 ?s AND 7) * 65536
      + unat (ucast (drop_bit 8 ?o) :: byte) * 256 + unat (ucast (?o AND 0xFF) :: byte)"
    by (cases r) (simp_all add: preamble_address_def updateEepromPreamble_def Let_def)
  also have "\<dots> = n * 65536 + (unat ?o div 256 * 256 + unat ?o mod 256)"
    unfolding s hi lo by simp
  also have "\<dots> = unat a"
    unfolding div_mult_mod_eq o n_def ..
  finally show ?thesis .
qed

text \<open>
  An EEPROM update with the bytes \<open>m\<close> received: the first page is held back in memory, the rest
  is on the medium, and all of it has been hashed.
\<close>

definition received_eeprom :: "('w \<Rightarrow> memory) \<Rightarrow> byte list \<Rightarrow> ('w, 'z) agent_scheme \<Rightarrow> bool" where
  "received_eeprom eeprom m s \<longleftrightarrow>
     st_target (glUpdateState s) = UPDATE_TARGET_EEPROM \<and> transfer_ok (glUpdateState s)
     \<and> unat (st_received (glUpdateState s)) = length m
     \<and> take (length m) (glUpdateFirstPage s) = take 64 m \<and> length (glUpdateFirstPage s) = 64
     \<and> slice (eeprom (world s)) 64 (length m - 64) = drop 64 m
     \<and> absorbed (glUpdateStreamHash s) m
     \<and> length (glUpdatePagePad s) = 64"

lemma hold_first_page_takes:
  assumes "take n page = take 64 m" and "length page = 64" and "n = length m"
  shows "take (n + length data) (hold_first_page page n data) = take 64 (m @ data)"
    and "length (hold_first_page page n data) = 64"
proof -
  show "length (hold_first_page page n data) = 64"
    using assms(2) by (simp add: hold_first_page_def)
  show "take (n + length data) (hold_first_page page n data) = take 64 (m @ data)"
  proof (cases "n < 64")
    case False
    then show ?thesis using assms by (simp add: hold_first_page_def)
  next
    case True
    let ?d = "take (64 - n) data"
    have l: "length (hold_first_page page n data) = 64"
      using assms(2) by (simp add: hold_first_page_def)
    have h: "take (n + length ?d) (hold_first_page page n data) = m @ ?d"
      using True assms take_blit_end [of n page ?d] by (simp add: hold_first_page_def del: length_take)
    show ?thesis
    proof (cases "length data \<le> 64 - n")
      case True
      then show ?thesis using h \<open>n < 64\<close> assms(3) by simp
    next
      case False
      then have "n + length ?d = 64" using \<open>n < 64\<close> by simp
      then have "hold_first_page page n data = m @ ?d" using h l by simp
      then show ?thesis using False \<open>n < 64\<close> assms(3) by simp
    qed
  qed
qed

lemma data_eeprom_steps:
  assumes "updateChunkIsAllowed (glUpdateState s) t i (of_nat (length data)) = ERROR_NONE"
    and "st_target (glUpdateState s) = UPDATE_TARGET_EEPROM"
    and "st_received (glUpdateState s) = 0 \<longrightarrow>
         updateImageIsPlausible data (ucast (of_nat (length data) :: u16)) (st_length (glUpdateState s))"
  shows "updateAgentData P t i data s =
    (let n = unat (st_received (glUpdateState s));
         held = (if n < 64 then min (64 - n) (length data) else 0);
         (ok, u) = data_eeprom_loop P data held (st_received (glUpdateState s) + of_nat held)
           (s\<lparr>glUpdateStreamHash := sha_256_write (glUpdateStreamHash s) data,
              glUpdateFirstPage := hold_first_page (glUpdateFirstPage s) n data\<rparr>)
     in if \<not> ok then (False, u) else (True, count_chunk data u))"
  using assms by (auto simp: updateAgentData_def Let_def)

locale eeprom_readback =
  fixes P :: "('w, 'p) platform_scheme" and eeprom :: "'w \<Rightarrow> memory"
  assumes wait_keeps: "eeprom (CyU3PBusyWait P n w) = eeprom w"
    and ack_keeps: "CyU3PI2cWaitForAck P pre r w = (st, w') \<Longrightarrow> eeprom w' = eeprom w"
    and transmit_confined:
      "CyU3PI2cTransmitBytes P pre data r w = (st, w') \<Longrightarrow>
       preamble_address pre mod 64 + length data \<le> 64 \<Longrightarrow>
       i < preamble_address pre \<or> preamble_address pre + length data \<le> i \<Longrightarrow>
       eeprom w' i = eeprom w i"
    and receive_keeps: "CyU3PI2cReceiveBytes P pre n r w = (st, bytes, w') \<Longrightarrow> eeprom w' = eeprom w"
    and receive_reads:
      "CyU3PI2cReceiveBytes P pre n r w = (CY_U3P_SUCCESS, bytes, w') \<Longrightarrow>
       preamble_address pre mod 65536 + n \<le> 65536 \<Longrightarrow>
       i < n \<Longrightarrow> bytes i = eeprom w (preamble_address pre + i)"
begin

text \<open>
  A page write changes nothing outside its cells; one that succeeds ends with a transmission the bus
  acknowledged, after which the medium was left alone.
\<close>

lemma write_attempts:
  assumes "eeprom_write_attempts P a data attempt st w = (st', w')" and "st \<noteq> CY_U3P_SUCCESS"
    and "unat a < 0x80000" and "unat a mod 64 + length data \<le> 64"
  shows "(\<forall>i. i < unat a \<or> unat a + length data \<le> i \<longrightarrow> eeprom w' i = eeprom w i)
    \<and> (st' = CY_U3P_SUCCESS \<longrightarrow> (\<exists>u v. CyU3PI2cTransmitBytes P (updateEepromPreamble a False) data
          UPDATE_I2C_NAK_RETRIES u = (CY_U3P_SUCCESS, v) \<and> eeprom w' = eeprom v
        \<and> (\<forall>i. i < unat a \<or> unat a + length data \<le> i \<longrightarrow> eeprom u i = eeprom w i)))"
  using assms(1,2)
proof (induction "UPDATE_I2C_ATTEMPTS - attempt" arbitrary: attempt st w)
  case 0
  then show ?case by (simp add: eeprom_write_attempts.simps [of P a data attempt])
next
  case (Suc n)
  let ?w = "if 0 < attempt
    then snd (updateEepromWaitReady P a (CyU3PBusyWait P UPDATE_I2C_SETTLE_US w)) else w"
  have w: "eeprom ?w = eeprom w"
    using wait_keeps ack_keeps by (auto simp: updateEepromWaitReady_def) (metis surjective_pairing)
  obtain s1 w1 where t: "CyU3PI2cTransmitBytes P (updateEepromPreamble a False) data
      UPDATE_I2C_NAK_RETRIES ?w = (s1, w1)" by (meson surj_pair)
  obtain s2 w2 where r: "updateEepromWaitReady P a w1 = (s2, w2)" by (meson surj_pair)
  have w2: "eeprom w2 = eeprom w1" using r ack_keeps by (auto simp: updateEepromWaitReady_def)
  have pre: "preamble_address (updateEepromPreamble a False) = unat a"
    by (rule preamble_address_of [OF assms(3)])
  have w1: "eeprom w1 i = eeprom w i" if "i < unat a \<or> unat a + length data \<le> i" for i
    using transmit_confined [OF t, of i] that assms(4) w unfolding pre by simp
  have n: "n = UPDATE_I2C_ATTEMPTS - (attempt + 1)" "attempt < UPDATE_I2C_ATTEMPTS"
    using Suc.hyps(2) by simp_all
  have step: "(if s1 \<noteq> CY_U3P_SUCCESS then eeprom_write_attempts P a data (attempt + 1) s1 w1
      else if s2 = CY_U3P_SUCCESS then (CY_U3P_SUCCESS, w2)
      else eeprom_write_attempts P a data (attempt + 1) s2 w2) = (st', w')"
    using Suc.prems(1) n(2) t r
    by (simp add: eeprom_write_attempts.simps [of P a data attempt] Let_def cong: if_cong)
  have again: ?case
    if "eeprom_write_attempts P a data (attempt + 1) sx wx = (st', w')"
      "sx \<noteq> CY_U3P_SUCCESS" "eeprom wx = eeprom w1" for sx wx
    using Suc.hyps(1) [OF n(1) that(1,2)] that(3) w1 by simp
  show ?case
  proof (cases "s1 = CY_U3P_SUCCESS \<and> s2 = CY_U3P_SUCCESS")
    case True
    then have "st' = CY_U3P_SUCCESS \<and> w' = w2" using step by simp
    moreover have "CyU3PI2cTransmitBytes P (updateEepromPreamble a False) data UPDATE_I2C_NAK_RETRIES ?w
        = (CY_U3P_SUCCESS, w1)" using t True by simp
    moreover have "eeprom ?w i = eeprom w i" for i using w by simp
    ultimately show ?thesis using w1 w2 by metis
  next
    case False
    then have "s1 \<noteq> CY_U3P_SUCCESS
        \<and> eeprom_write_attempts P a data (attempt + 1) s1 w1 = (st', w')
      \<or> s2 \<noteq> CY_U3P_SUCCESS
        \<and> eeprom_write_attempts P a data (attempt + 1) s2 w2 = (st', w')"
      using step by (auto split: if_splits)
    then show ?thesis using again w2 by blast
  qed
qed

lemma write_confined:
  assumes "updateEepromWritePage P a data w = (st, w')"
    and "unat a < 0x80000" and "unat a mod 64 + length data \<le> 64"
  shows "i < unat a \<or> unat a + length data \<le> i \<Longrightarrow> eeprom w' i = eeprom w i"
  using write_attempts [OF assms(1) [unfolded updateEepromWritePage_def] _ assms(2,3)] by auto

lemma read_attempts:
  assumes "eeprom_read_attempts P a buf n attempt st w = (st', buf', w')" and "st \<noteq> CY_U3P_SUCCESS"
    and "unat a < 0x80000" and "unat a mod 65536 + n \<le> 65536" and "n \<le> length buf"
  shows "eeprom w' = eeprom w \<and> length buf' = length buf
    \<and> (st' = CY_U3P_SUCCESS \<longrightarrow> take n buf' = slice (eeprom w) (unat a) n)"
  using assms(1,2,5)
proof (induction "UPDATE_I2C_ATTEMPTS - attempt" arbitrary: attempt st buf w)
  case 0
  then show ?case by (simp add: eeprom_read_attempts.simps [of P a _ n attempt])
next
  case (Suc k)
  let ?w = "if 0 < attempt then CyU3PBusyWait P UPDATE_I2C_SETTLE_US w else w"
  obtain s1 bytes w1 where t: "CyU3PI2cReceiveBytes P (updateEepromPreamble a True) n
      UPDATE_I2C_NAK_RETRIES ?w = (s1, bytes, w1)" by (metis prod_cases3)
  let ?b = "blit buf 0 (slice bytes 0 n)"
  have w1: "eeprom w1 = eeprom w" using receive_keeps [OF t] wait_keeps by simp
  have b: "length ?b = length buf" using Suc.prems(3) by simp
  have pre: "preamble_address (updateEepromPreamble a True) = unat a"
    by (rule preamble_address_of [OF assms(3)])
  have k: "k = UPDATE_I2C_ATTEMPTS - (attempt + 1)" "attempt < UPDATE_I2C_ATTEMPTS"
    using Suc.hyps(2) by simp_all
  have step: "(if s1 = CY_U3P_SUCCESS then (CY_U3P_SUCCESS, ?b, w1)
      else eeprom_read_attempts P a ?b n (attempt + 1) s1 w1) = (st', buf', w')"
    using Suc.prems(1) k(2) t
    by (simp add: eeprom_read_attempts.simps [of P a buf n attempt] Let_def cong: if_cong)
  show ?case
  proof (cases "s1 = CY_U3P_SUCCESS")
    case True
    have "slice bytes 0 n = slice (eeprom w) (unat a) n"
      using receive_reads [OF t [unfolded True]] assms(4) wait_keeps unfolding pre
      by (intro nth_equalityI) auto
    moreover have "st' = CY_U3P_SUCCESS \<and> buf' = ?b \<and> w' = w1"
      using step True by simp
    moreover have "take n ?b = slice bytes 0 n"
      using take_blit_0 [of "slice bytes 0 n" buf] by simp
    ultimately show ?thesis using w1 b by simp
  next
    case False
    then have "eeprom_read_attempts P a ?b n (attempt + 1) s1 w1 = (st', buf', w')"
      using step by simp
    then have "eeprom w' = eeprom w1 \<and> length buf' = length ?b
        \<and> (st' = CY_U3P_SUCCESS \<longrightarrow> take n buf' = slice (eeprom w1) (unat a) n)"
      by (rule Suc.hyps(1) [OF k(1) _ False]) (use Suc.prems(3) b in simp)
    then show ?thesis using w1 b by simp
  qed
qed

lemma read_page:
  assumes "updateEepromRead P a buf n w = (st, buf', w')" and "unat a < 0x80000"
    and "unat a mod 65536 + n \<le> 65536" and "n \<le> length buf"
  shows "eeprom w' = eeprom w" and "length buf' = length buf"
    and "st = CY_U3P_SUCCESS \<Longrightarrow> take n buf' = slice (eeprom w) (unat a) n"
  using read_attempts [OF assms(1) [unfolded updateEepromRead_def] _ assms(2-4)] by simp_all

text \<open>
  The verification loop reads and never writes. When it reaches the end it has hashed exactly
  the cells from \<open>address\<close> to the promised length.
\<close>

lemma verify_loop:
  fixes s :: "('w, 'z) agent_scheme"
  assumes "verify_eeprom_loop P len address s = (ok, s')" and "unat len \<le> 0x80000"
    and "unat address \<le> unat len" and "length (glUpdateReadback s) = 512"
  shows "eeprom (world s') = eeprom (world s)
    \<and> length (glUpdateReadback s') = 512 \<and> glUpdateFirstPage s' = glUpdateFirstPage s
    \<and> (\<not> ok \<longrightarrow> st_phase (glUpdateState s') = PHASE_FAILED)
    \<and> (ok \<longrightarrow> (\<exists>v. glUpdateState s' = (glUpdateState s)\<lparr>st_verified := v\<rparr>)
         \<and> (\<forall>m. absorbed (glUpdateMediumHash s) m \<longrightarrow> absorbed (glUpdateMediumHash s')
               (m @ slice (eeprom (world s)) (unat address) (unat len - unat address))))"
  using assms
proof (induction "unat len - unat address" arbitrary: address s rule: less_induct)
  case less
  show ?case
  proof (cases "address < len")
    case False
    then have "ok \<and> s' = s" and z: "unat len - unat address = 0"
      using less.prems(1) by (auto simp: verify_eeprom_loop.simps [of P len address] u32_less_iff)
    moreover have "\<exists>v. glUpdateState s = (glUpdateState s)\<lparr>st_verified := v\<rparr>"
      by (intro exI [of _ "st_verified (glUpdateState s)"]) simp
    ultimately show ?thesis using less.prems(4) by simp
  next
    case True
    let ?span = "updateEepromReadSpan address (len - address) UPDATE_READBACK_SIZE"
    have lt: "unat address < unat len" using True by (simp add: u32_less_iff)
    have rem: "unat (len - address) = unat len - unat address"
      using True by (simp add: unat_minus_le)
    have pos: "0 < unat ?span" using eeprom_read.span_pos [of "len - address" address] lt rem
      by (metis unat_eq_zero zero_less_diff neq0_conv)
    have le: "unat ?span \<le> unat len - unat address"
      using eeprom_read.span_le [of address "len - address"] rem by simp
    have fits: "unat address mod 65536 + unat ?span \<le> 65536" by (rule eeprom_read.span_fits)
    have short: "unat ?span \<le> 512" by (simp add: unat_updateEepromReadSpan)
    have step: "unat (address + ucast ?span) = unat address + unat ?span"
      using le lt less.prems(2) by (simp add: unat_plus_le)
    obtain st buf w where r: "updateEepromRead P address (glUpdateReadback s) (unat ?span) (world s)
        = (st, buf, w)" by (metis prod_cases3)
    have fits': "unat address < 0x80000" "unat ?span \<le> length (glUpdateReadback s)"
      using lt less.prems(2,4) short by simp_all
    note page = read_page [OF r fits'(1) fits fits'(2)]
    have nz: "?span \<noteq> 0" using pos by (auto simp: unat_gt_0)
    let ?t = "s\<lparr>world := w, glUpdateReadback := buf\<rparr>"
    show ?thesis
    proof (cases "st = CY_U3P_SUCCESS")
      case False
      then have "ok = False \<and> s' = agent_fail ERROR_READ ?t"
        using less.prems(1) True nz r
        by (simp add: verify_eeprom_loop.simps [of P len address s] Let_def cong: if_cong)
      then show ?thesis using page less.prems(4)
        by (simp add: agent_fail_def updateStateFail_def)
    next
      case st: True
      let ?u = "set_verified (address + ucast ?span)
        (?t\<lparr>glUpdateMediumHash := sha_256_write (glUpdateMediumHash s) (take (unat ?span) buf)\<rparr>)"
      have eq: "verify_eeprom_loop P len (address + ucast ?span) ?u = (ok, s')"
        using less.prems(1) True nz r st
        by (simp add: verify_eeprom_loop.simps [of P len address s] Let_def cong: if_cong)
      let ?a = "address + ucast ?span"
      have m: "unat len - unat ?a < unat len - unat address" "unat ?a \<le> unat len"
        using step pos lt le by simp_all
      have buf: "length (glUpdateReadback ?u) = 512"
        using page(2) less.prems(4) by (simp add: set_verified_def)
      note IH = less.hyps [OF m(1) eq less.prems(2) m(2) buf]
      have u: "eeprom (world ?u) = eeprom (world s)" "glUpdateFirstPage ?u = glUpdateFirstPage s"
        "glUpdateState ?u = (glUpdateState s)\<lparr>st_verified := ?a\<rparr>"
        "glUpdateMediumHash ?u = sha_256_write (glUpdateMediumHash s)
           (slice (eeprom (world s)) (unat address) (unat ?span))"
        using page(1,3) st by (simp_all add: set_verified_def)
      have split: "slice (eeprom (world s)) (unat address) (unat len - unat address)
        = slice (eeprom (world s)) (unat address) (unat ?span)
          @ slice (eeprom (world s)) (unat ?a) (unat len - unat ?a)"
      proof -
        have "unat len - unat address = unat ?span + (unat len - unat ?a)"
          using step le lt by linarith
        then show ?thesis
          using slice_append [of "eeprom (world s)" "unat address" "unat ?span" "unat len - unat ?a"]
          unfolding step by simp
      qed
      have "absorbed (glUpdateMediumHash s')
          (m @ slice (eeprom (world s)) (unat address) (unat len - unat address))"
        if "ok" "absorbed (glUpdateMediumHash s) m" for m
      proof -
        have "absorbed (glUpdateMediumHash ?u) (m @ slice (eeprom (world s)) (unat address) (unat ?span))"
          unfolding u(4) by (rule sha.absorb_holds [OF that(2)])
        then show ?thesis using IH that(1) unfolding split u(1) append_assoc [symmetric] by blast
      qed
      moreover have "\<exists>v. glUpdateState s' = (glUpdateState s)\<lparr>st_verified := v\<rparr>" if ok
        using IH that unfolding u(3) by auto
      ultimately show ?thesis using IH unfolding u(1,2) by blast
    qed
  qed
qed

text \<open>
  An EEPROM update that reports completion has the promised image on the medium: the digest of
  the cells is the one BEGIN announced.
\<close>

lemma commit_result:
  fixes s :: "('w, 'z) agent_scheme"
  assumes "length (glUpdateFirstPage s) = 64" and "length (glUpdateReadback s) = 512"
  shows "(\<forall>i. 64 \<le> i \<longrightarrow> eeprom (world (commit_eeprom P s)) i = eeprom (world s) i)
    \<and> st_phase (glUpdateState (commit_eeprom P s)) \<in> {PHASE_FAILED, PHASE_COMPLETE}
    \<and> (st_phase (glUpdateState (commit_eeprom P s)) = PHASE_COMPLETE
       \<longrightarrow> slice (eeprom (world (commit_eeprom P s))) 0 64 = glUpdateFirstPage s)"
proof -
  obtain st w where w: "updateEepromWritePage P 0 (take 64 (glUpdateFirstPage s)) (world s) = (st, w)"
    by (meson surj_pair)
  obtain st2 buf w2 where r: "updateEepromRead P 0 (glUpdateReadback s) 64 w = (st2, buf, w2)"
    by (metis prod_cases3)
  have wr: "eeprom w i = eeprom (world s) i" if "64 \<le> i" for i
    using write_confined [OF w, of i] that assms(1) by simp
  have rd: "eeprom w2 = eeprom w" "length buf = 512"
    "st2 = CY_U3P_SUCCESS \<Longrightarrow> take 64 buf = slice (eeprom w) 0 64"
    using read_page [OF r] assms(2) by simp_all
  show ?thesis
    using w r wr rd assms(1)
    by (simp add: commit_eeprom_def Let_def agent_fail_def updateStateFail_def set_phase_def
        complete_update_def set_written_def set_verified_def cong: if_cong)
qed

lemma verify_complete:
  fixes s :: "('w, 'z) agent_scheme"
  assumes "st_phase (glUpdateState (updateAgentVerify P s)) = PHASE_COMPLETE"
    and "st_phase (glUpdateState s) = PHASE_VERIFYING"
    and "st_target (glUpdateState s) = UPDATE_TARGET_EEPROM"
    and "admissible_length 0 (st_length (glUpdateState s))"
    and "length (glUpdateFirstPage s) = 64" and "length (glUpdateReadback s) = 512"
    and "length (sh_chunk (glUpdateMediumHash s)) = 64"
    and "length (st_digest (glUpdateState s)) = 32"
  shows "sha256 (slice (eeprom (world (updateAgentVerify P s))) 0 (unat (st_length (glUpdateState s))))
    = st_digest (glUpdateState s)"
proof -
  let ?len = "st_length (glUpdateState s)"
  let ?m = "eeprom (world s)"
  have len: "64 \<le> unat ?len" "unat ?len \<le> 0x80000" using assms(4) by (simp_all add: admissible_length_def)
  let ?h = "sha_256_write (sha_256_init (glUpdateMediumHash s)) (take 64 (glUpdateFirstPage s))"
  let ?t = "set_verified UPDATE_EEPROM_PAGE_SIZE (s\<lparr>glUpdateVerifyPending := False, glUpdateMediumHash := ?h\<rparr>)"
  obtain ok u where v: "verify_eeprom_loop P ?len 64 ?t = (ok, u)" by (meson surj_pair)
  have h: "absorbed ?h (glUpdateFirstPage s)"
    using sha.absorb_holds [OF sha.init_holds, of "glUpdateMediumHash s" "glUpdateFirstPage s"]
      assms(5,7) by simp
  have u: "eeprom (world u) = ?m" "length (glUpdateReadback u) = 512"
      "glUpdateFirstPage u = glUpdateFirstPage s"
    using verify_loop [OF v] len assms(6) by (simp_all add: set_verified_def)
  have fail: "\<not> ok \<longrightarrow> st_phase (glUpdateState u) = PHASE_FAILED"
    using verify_loop [OF v] len assms(6) by (simp add: set_verified_def)
  have step: "updateAgentVerify P s = (if \<not> ok then u else
      let c = u\<lparr>glUpdateMediumDigest := sha_256_close (glUpdateMediumHash u)\<rparr>
      in if digests_differ (glUpdateMediumDigest c) (st_digest (glUpdateState c))
         then agent_fail ERROR_MEDIUM_DIGEST c else commit_eeprom P c)"
    using assms(2,3) v
    by (simp add: updateAgentVerify_def updateAgentVerifyEeprom_def set_verified_def Let_def)
  then have ok using assms(1) fail by (auto split: if_splits)
  obtain x where st: "glUpdateState u = (glUpdateState s)\<lparr>st_verified := x\<rparr>"
    using verify_loop [OF v] len assms(6) \<open>ok\<close> by (auto simp: set_verified_def)
  have dig: "sha_256_close (glUpdateMediumHash u)
      = sha256 (glUpdateFirstPage s @ slice ?m 64 (unat ?len - 64))"
    using verify_loop [OF v] len assms(6) \<open>ok\<close> h
    by (intro sha.close_digest) (auto simp: set_verified_def)
  let ?c = "u\<lparr>glUpdateMediumDigest := sha_256_close (glUpdateMediumHash u)\<rparr>"
  have same: "\<not> digests_differ (glUpdateMediumDigest ?c) (st_digest (glUpdateState ?c))"
    using assms(1) step \<open>ok\<close>
    by (auto simp: Let_def agent_fail_def updateStateFail_def split: if_splits)
  then have fin: "updateAgentVerify P s = commit_eeprom P ?c"
    using step \<open>ok\<close> by (simp add: Let_def)
  have c: "length (glUpdateFirstPage ?c) = 64" "length (glUpdateReadback ?c) = 512"
    using u assms(5) by simp_all
  note commit = commit_result [OF c]
  let ?f = "eeprom (world (updateAgentVerify P s))"
  have "slice ?f 0 (unat ?len) = slice ?f 0 64 @ slice ?f 64 (unat ?len - 64)"
    using slice_append [of ?f 0 64 "unat ?len - 64"] len by simp
  also have "slice ?f 0 64 = glUpdateFirstPage s"
    using commit assms(1) u unfolding fin by simp
  also have "slice ?f 64 (unat ?len - 64) = slice ?m 64 (unat ?len - 64)"
    using commit u unfolding fin by (intro slice_cong) simp
  finally have "sha256 (slice ?f 0 (unat ?len)) = sha_256_close (glUpdateMediumHash u)"
    unfolding dig by simp
  then show ?thesis using same dig st assms(8) by (simp add: digests_differ_def)
qed

end

locale eeprom_device = eeprom_readback P eeprom
  for P :: "('w, 'p) platform_scheme" and eeprom :: "'w \<Rightarrow> memory" +
  assumes transmit_writes:
      "CyU3PI2cTransmitBytes P pre data r w = (CY_U3P_SUCCESS, w') \<Longrightarrow>
       preamble_address pre mod 64 + length data \<le> 64 \<Longrightarrow>
       eeprom w' = patch (eeprom w) (preamble_address pre) data"
begin

lemma write_page:
  assumes "updateEepromWritePage P a data w = (st, w')"
    and "unat a < 0x80000" and "unat a mod 64 + length data \<le> 64"
  shows "i < unat a \<or> unat a + length data \<le> i \<Longrightarrow> eeprom w' i = eeprom w i"
    and "st = CY_U3P_SUCCESS \<Longrightarrow> eeprom w' = patch (eeprom w) (unat a) data"
proof -
  note wr = write_attempts [OF assms(1) [unfolded updateEepromWritePage_def] _ assms(2,3)]
  show "i < unat a \<or> unat a + length data \<le> i \<Longrightarrow> eeprom w' i = eeprom w i" using wr by auto
  assume "st = CY_U3P_SUCCESS"
  then obtain u v where t: "CyU3PI2cTransmitBytes P (updateEepromPreamble a False) data
      UPDATE_I2C_NAK_RETRIES u = (CY_U3P_SUCCESS, v)" "eeprom w' = eeprom v"
    "\<And>i. i < unat a \<or> unat a + length data \<le> i \<Longrightarrow> eeprom u i = eeprom w i"
    using wr by auto
  have "eeprom v = patch (eeprom u) (unat a) data"
    using transmit_writes [OF t(1)] assms(3) unfolding preamble_address_of [OF assms(2)] by simp
  then show "eeprom w' = patch (eeprom w) (unat a) data"
    using t(2,3) by (auto simp: fun_eq_iff patch_def)
qed

text \<open>
  The write loop of a chunk: on success the chunk's bytes are on the medium from \<open>offset\<close> on,
  and whatever happens, no cell before \<open>offset\<close> changes and the agent's state keeps everything
  but its counter and its padding buffer.
\<close>

definition loop_state ::
    "bool \<Rightarrow> 'w \<Rightarrow> byte list \<Rightarrow> u32 \<Rightarrow> ('w, 'z) agent_scheme \<Rightarrow> ('w, 'z) agent_scheme" where
  "loop_state ok w pad n s =
     (let s = set_written n (s\<lparr>world := w, glUpdatePagePad := pad\<rparr>)
      in if ok then s else agent_fail ERROR_WRITE s)"

lemma loop_state_again:
  "loop_state ok w pad n (set_written k (s\<lparr>world := w', glUpdatePagePad := pad'\<rparr>))
   = loop_state ok w pad n s"
  by (simp add: loop_state_def set_written_def agent_fail_def Let_def)

lemma loop_state_same:
  "loop_state True (world s) (glUpdatePagePad s) (st_written (glUpdateState s)) s = s"
  by (simp add: loop_state_def set_written_def)

lemma data_loop:
  fixes s :: "('w, 'z) agent_scheme"
  assumes "data_eeprom_loop P data consumed offset s = (ok, s')"
    and "consumed \<le> length data" and "length data \<le> 2048"
    and "unat offset + (length data - consumed) \<le> 0x40000" and "length (glUpdatePagePad s) = 64"
  shows "(\<forall>i < unat offset. eeprom (world s') i = eeprom (world s) i)
    \<and> (ok \<longrightarrow> slice (eeprom (world s')) (unat offset) (length data - consumed) = drop consumed data)
    \<and> (\<exists>w pad n. length pad = 64 \<and> s' = loop_state ok w pad n s)"
  using assms(1,2,4,5)
proof (induction "length data - consumed" arbitrary: consumed offset s rule: less_induct)
  case less
  show ?case
  proof (cases "consumed < length data")
    case False
    then have "ok \<and> s' = s"
      using less.prems(1) by (auto simp: data_eeprom_loop.simps [of P data consumed])
    then show ?thesis using False less.prems(2,4)
      by (auto intro!: exI [of _ "world s"] exI [of _ "glUpdatePagePad s"]
          exI [of _ "st_written (glUpdateState s)"] simp: loop_state_same)
  next
    case True
    let ?left = "length data - consumed"
    let ?span = "updateEepromWriteSpan offset (of_nat ?left)"
    have rem: "unat (of_nat ?left :: u32) = ?left" using assms(3) by (simp add: unat_of_nat_u32)
    have pos: "0 < unat ?span" using eeprom_write.span_pos [of "of_nat ?left" offset] True rem
      by (metis unat_0 zero_less_diff neq0_conv)
    have le: "unat ?span \<le> ?left" using eeprom_write.span_le [of offset "of_nat ?left"] rem by simp
    have fits: "unat offset mod 64 + unat ?span \<le> 64" by (rule eeprom_write.span_fits)
    have nz: "?span \<noteq> 0" using pos by (auto simp: unat_gt_0)
    have step: "unat (offset + ucast ?span) = unat offset + unat ?span"
      using le less.prems(3) by (simp add: unat_plus_le)
    let ?bytes = "take (unat ?span) (drop consumed data)"
    have bytes: "length ?bytes = unat ?span" using le by simp
    let ?wl = "64 - unat offset mod 64"
    let ?padded = "blit (glUpdatePagePad s) 0 (?bytes @ replicate (?wl - unat ?span) 0)"
    let ?last = "offset + ucast ?span = st_length (glUpdateState s) \<and> unat ?span mod 64 \<noteq> 0"
    define page where "page = (if ?last then take ?wl ?padded else ?bytes)"
    define pad where "pad = (if ?last then ?padded else glUpdatePagePad s)"
    have "length (?bytes @ replicate (?wl - unat ?span) (0 :: byte)) = ?wl"
      using bytes fits by simp
    then have tp: "take ?wl ?padded = ?bytes @ replicate (?wl - unat ?span) 0"
      using take_blit_0 [of "?bytes @ replicate (?wl - unat ?span) 0" "glUpdatePagePad s"] by simp
    have pad: "length pad = 64" using less.prems(4) bytes fits by (simp add: pad_def)
    have page: "take (unat ?span) page = ?bytes" "unat ?span \<le> length page"
      "unat offset mod 64 + length page \<le> 64"
    proof -
      have p: "page = ?bytes @ replicate (if ?last then ?wl - unat ?span else 0) 0"
        by (simp only: page_def tp) simp
      show "take (unat ?span) page = ?bytes" "unat ?span \<le> length page"
        unfolding p using bytes by simp_all
      show "unat offset mod 64 + length page \<le> 64"
        unfolding p length_append bytes length_replicate using fits by simp
    qed
    obtain st w where w: "updateEepromWritePage P offset page (world s) = (st, w)"
      by (meson surj_pair)
    have off: "unat offset < 0x80000" using less.prems(3) by simp
    note written = write_page [OF w off page(3)]
    let ?t = "s\<lparr>world := w, glUpdatePagePad := pad\<rparr>"
    have unfold: "(if st \<noteq> CY_U3P_SUCCESS then (False, agent_fail ERROR_WRITE ?t)
        else data_eeprom_loop P data (consumed + unat ?span) (offset + ucast ?span)
          (set_written (offset + ucast ?span) ?t)) = (ok, s')"
    proof -
      have pair: "(if ?last then (take ?wl ?padded, s\<lparr>glUpdatePagePad := ?padded\<rparr>) else (?bytes, s))
          = (page, s\<lparr>glUpdatePagePad := pad\<rparr>)"
      proof (cases ?last)
        case True
        show ?thesis unfolding page_def pad_def if_P [OF True] by (rule refl)
      next
        case False
        then show ?thesis unfolding page_def pad_def if_not_P [OF False] by simp
      qed
      have t: "world (s\<lparr>glUpdatePagePad := pad\<rparr>) = world s"
        "s\<lparr>glUpdatePagePad := pad, world := w\<rparr> = ?t" by simp_all
      have c: "unat UPDATE_EEPROM_PAGE_SIZE = 64" by simp
      show ?thesis
        using less.prems(1) unfolding data_eeprom_loop.simps [of P data consumed] Let_def c
        by (simp only: True nz pair t w prod.case if_True if_False)
    qed
    show ?thesis
    proof (cases "st = CY_U3P_SUCCESS")
      case False
      then have f: "\<not> ok \<and> s' = loop_state ok w pad (st_written (glUpdateState s)) s"
        using unfold by (auto simp: loop_state_def set_written_def Let_def)
      moreover have "eeprom (world s') i = eeprom (world s) i" if "i < unat offset" for i
        using written(1) [of i] that f
        by (simp add: loop_state_def set_written_def agent_fail_def Let_def)
      ultimately show ?thesis using pad by blast
    next
      case st: True
      let ?u = "set_written (offset + ucast ?span) ?t"
      let ?o = "offset + ucast ?span" and ?c = "consumed + unat ?span"
      have eq: "data_eeprom_loop P data ?c ?o ?u = (ok, s')" using unfold st by simp
      have m: "length data - ?c < length data - consumed" "?c \<le> length data"
        "unat ?o + (length data - ?c) \<le> 0x40000" "length (glUpdatePagePad ?u) = 64"
        using pos le True less.prems(3) step pad by (simp_all add: set_written_def)
      have u: "eeprom (world ?u) = patch (eeprom (world s)) (unat offset) page"
        using written(2) st by (simp add: set_written_def)
      obtain w' pad' n where l: "length pad' = 64" "s' = loop_state ok w' pad' n ?u"
        using less.hyps [OF m(1) eq m(2-4)] by blast
      have keep: "eeprom (world s') i = patch (eeprom (world s)) (unat offset) page i"
        if "i < unat ?o" for i
        using less.hyps [OF m(1) eq m(2-4)] that unfolding u by blast
      have rest: "slice (eeprom (world s')) (unat ?o) (length data - ?c) = drop ?c data" if ok
        using less.hyps [OF m(1) eq m(2-4)] that by blast
      have first: "slice (eeprom (world s')) (unat offset) (unat ?span) = ?bytes"
        using keep step page(1,2) bytes by (intro nth_equalityI) (auto simp flip: page(1))
      have "slice (eeprom (world s')) (unat offset) ?left
          = ?bytes @ slice (eeprom (world s')) (unat ?o) (length data - ?c)"
      proof -
        have e: "unat ?span + (length data - ?c) = ?left" using le m(2) by linarith
        show ?thesis
          using slice_append [of "eeprom (world s')" "unat offset" "unat ?span" "length data - ?c"]
          unfolding e step by (simp only: first)
      qed
      moreover have "?bytes @ drop ?c data = drop consumed data"
        by (simp only: add.commute [of consumed] drop_drop [symmetric] append_take_drop_id)
      ultimately have "slice (eeprom (world s')) (unat offset) ?left = drop consumed data" if ok
        using rest [OF that] by simp
      moreover have "eeprom (world s') i = eeprom (world s) i" if "i < unat offset" for i
        using keep [of i] that step by simp
      moreover have "s' = loop_state ok w' pad' n s" using l(2) by (simp add: loop_state_again)
      ultimately show ?thesis using l(1) by blast
    qed
  qed
qed

text \<open>One accepted chunk.\<close>

lemma data_received:
  assumes "received_eeprom eeprom m s"
    and "updateChunkIsAllowed (glUpdateState s) t i (of_nat (length data)) = ERROR_NONE"
    and "st_received (glUpdateState s) = 0 \<longrightarrow>
         updateImageIsPlausible data (ucast (of_nat (length data) :: u16)) (st_length (glUpdateState s))"
    and "length data < 65536"
    and "updateAgentData P t i data s = (ok, s')"
  shows "(\<forall>k < 64. eeprom (world s') k = eeprom (world s) k)
    \<and> (ok \<longrightarrow> received_eeprom eeprom (m @ data) s'
         \<and> st_phase (glUpdateState s') = PHASE_RECEIVING
         \<and> st_length (glUpdateState s') = st_length (glUpdateState s)
         \<and> st_digest (glUpdateState s') = st_digest (glUpdateState s)
         \<and> st_nextChunk (glUpdateState s') = st_nextChunk (glUpdateState s) + 1
         \<and> glUpdateReadback s' = glUpdateReadback s \<and> glUpdateMediumHash s' = glUpdateMediumHash s)
    \<and> (\<not> ok \<longrightarrow> st_phase (glUpdateState s') = PHASE_FAILED)"
proof -
  let ?st = "glUpdateState s" and ?n = "length m"
  have inv: "st_target ?st = 0" "transfer_ok ?st" "unat (st_received ?st) = ?n"
    "take ?n (glUpdateFirstPage s) = take 64 m" "length (glUpdateFirstPage s) = 64"
    "slice (eeprom (world s)) 64 (?n - 64) = drop 64 m"
    "absorbed (glUpdateStreamHash s) m" "length (glUpdatePagePad s) = 64"
    using assms(1) by (simp_all add: received_eeprom_def)
  have l16: "unat (of_nat (length data) :: u16) = length data"
    using assms(4) by (simp add: unat_of_nat_u16)
  have bound: "unat (st_received ?st) \<le> unat (st_length ?st)" "unat (st_length ?st) \<le> 0x40000"
    using inv(1,2) by (simp_all add: transfer_ok_def admissible_length_def)
  have c: "length data \<le> 2048" "?n + length data \<le> unat (st_length ?st)"
    "st_phase ?st = PHASE_RECEIVING"
    using assms(2) unfolding chunk_allowed_iff [OF bound(1)] l16 inv(3) by simp_all
  define held where "held = (if ?n < 64 then min (64 - ?n) (length data) else 0)"
  have held: "held \<le> length data" "?n < 64 \<Longrightarrow> held < length data \<Longrightarrow> ?n + held = 64" "held \<le> 64"
    by (auto simp: held_def)
  let ?o = "st_received ?st + of_nat held"
  have o: "unat ?o = ?n + held"
  proof -
    have "unat (of_nat held :: u32) = held" using held(3) by (simp add: unat_of_nat_u32)
    then show ?thesis using inv(3) bound held(3) by (simp add: unat_plus_le)
  qed
  let ?s1 = "s\<lparr>glUpdateStreamHash := sha_256_write (glUpdateStreamHash s) data,
    glUpdateFirstPage := hold_first_page (glUpdateFirstPage s) ?n data\<rparr>"
  obtain ok1 u where l: "data_eeprom_loop P data held ?o ?s1 = (ok1, u)" by (meson surj_pair)
  have step: "(ok, s') = (if \<not> ok1 then (False, u) else (True, count_chunk data u))"
    using data_eeprom_steps [OF assms(2) inv(1) assms(3), of P] assms(5) l
    by (simp add: inv(3) held_def Let_def)
  have pre: "unat ?o + (length data - held) \<le> 0x40000" "length (glUpdatePagePad ?s1) = 64"
    using c(2) bound(2) held(1) o inv(8) by simp_all
  note loop = data_loop [OF l held(1) c(1) pre]
  obtain w pad k where u: "length pad = 64" "u = loop_state ok1 w pad k ?s1"
    using loop by blast
  have idle: "u = ?s1" if "held = length data"
    using l that unfolding data_eeprom_loop.simps [of P data held] by simp
  have ws: "world s' = world u" using step by (cases ok1) (auto simp: count_chunk_def)
  have keep: "eeprom (world s') j = eeprom (world s) j" if "j < ?n + held \<or> j < 64" for j
  proof (cases "j < ?n + held")
    case True
    then show ?thesis using loop o ws by simp
  next
    case False
    then have "held = length data" using that held(2) by (auto simp: held_def split: if_splits)
    then show ?thesis using idle ws by simp
  qed
  have "received_eeprom eeprom (m @ data) s'
      \<and> st_phase (glUpdateState s') = PHASE_RECEIVING
      \<and> st_length (glUpdateState s') = st_length ?st \<and> st_digest (glUpdateState s') = st_digest ?st
      \<and> st_nextChunk (glUpdateState s') = st_nextChunk ?st + 1
      \<and> glUpdateReadback s' = glUpdateReadback s \<and> glUpdateMediumHash s' = glUpdateMediumHash s" if ok
  proof -
    have ok: ok1 "s' = count_chunk data u" using step that by (auto split: if_splits)
    have fields: "glUpdateState s' = take_chunk (?st\<lparr>st_written := k\<rparr>) (of_nat (length data))"
      "glUpdateFirstPage s' = hold_first_page (glUpdateFirstPage s) ?n data"
      "glUpdateStreamHash s' = sha_256_write (glUpdateStreamHash s) data"
      "glUpdatePagePad s' = pad" "glUpdateReadback s' = glUpdateReadback s"
      "glUpdateMediumHash s' = glUpdateMediumHash s"
      using ok u by (simp_all add: loop_state_def set_written_def count_chunk_def)
    have tc: "transfer_ok (?st\<lparr>st_written := k\<rparr>)" using inv(2) by (simp add: transfer_ok_def)
    have al: "updateChunkIsAllowed (?st\<lparr>st_written := k\<rparr>) t i (of_nat (length data)) = ERROR_NONE"
    proof -
      have "updateChunkIsAllowed (?st\<lparr>st_written := k\<rparr>) t i len = updateChunkIsAllowed ?st t i len" for len
        by (simp add: updateChunkIsAllowed_def)
      then show ?thesis using assms(2) by simp
    qed
    note taken = take_chunk_ok [OF tc al]
    have medium: "slice (eeprom (world s')) 64 (length (m @ data) - 64) = drop 64 (m @ data)"
    proof (cases "?n < 64")
      case True
      have "slice (eeprom (world s')) (?n + held) (length data - held) = drop held data"
        using loop ok(1) o ws by simp
      then show ?thesis
        using held(2) [OF True] held(1) True by (cases "held = length data") (auto simp: held_def add.commute)
    next
      case False
      then have h: "held = 0" by (simp add: held_def)
      have "slice (eeprom (world s')) ?n (length data) = data" using loop ok(1) o ws h by simp
      moreover have "slice (eeprom (world s')) 64 (?n - 64) = drop 64 m"
        unfolding inv(6) [symmetric] using keep h False by (intro slice_cong) simp
      ultimately show ?thesis
        using slice_append [of "eeprom (world s')" 64 "?n - 64" "length data"] False by simp
    qed
    show ?thesis
      using hold_first_page_takes [OF inv(4,5) refl, of data] taken medium u(1) c(3) inv
      unfolding received_eeprom_def fields
      by (simp add: take_chunk_def l16 absorbed_write)
  qed
  moreover have "st_phase (glUpdateState s') = PHASE_FAILED" if "\<not> ok"
    using step u(2) that
    by (auto simp: loop_state_def agent_fail_def updateStateFail_def Let_def split: if_splits)
  ultimately show ?thesis using keep by blast
qed

end

subsection \<open>An EEPROM that does not fail\<close>

locale reliable_eeprom = eeprom_device P eeprom
  for P :: "('w, 'p) platform_scheme" and eeprom :: "'w \<Rightarrow> memory" +
  assumes transmit_succeeds: "fst (CyU3PI2cTransmitBytes P pre data r w) = CY_U3P_SUCCESS"
    and ack_succeeds: "fst (CyU3PI2cWaitForAck P pre r w) = CY_U3P_SUCCESS"
    and receive_succeeds: "fst (CyU3PI2cReceiveBytes P pre n r w) = CY_U3P_SUCCESS"
begin

lemma write_page_succeeds:
  assumes "updateEepromWritePage P a data w = (st, w')"
  shows "st = CY_U3P_SUCCESS"
proof -
  obtain s1 w1 where t: "CyU3PI2cTransmitBytes P (updateEepromPreamble a False) data
      UPDATE_I2C_NAK_RETRIES w = (s1, w1)" by (meson surj_pair)
  obtain s2 w2 where r: "updateEepromWaitReady P a w1 = (s2, w2)" by (meson surj_pair)
  have "s1 = CY_U3P_SUCCESS"
    using transmit_succeeds [of "updateEepromPreamble a False" data UPDATE_I2C_NAK_RETRIES w] t by simp
  moreover have "s2 = CY_U3P_SUCCESS"
    using ack_succeeds r unfolding updateEepromWaitReady_def by (metis prod.sel(1))
  ultimately show ?thesis
    using assms t r unfolding updateEepromWritePage_def eeprom_write_attempts.simps [of P a data 0]
    by simp
qed

lemma read_succeeds:
  assumes "updateEepromRead P a buf n w = (st, buf', w')"
  shows "st = CY_U3P_SUCCESS"
proof -
  obtain s1 b1 w1 where t: "CyU3PI2cReceiveBytes P (updateEepromPreamble a True) n
      UPDATE_I2C_NAK_RETRIES w = (s1, b1, w1)" by (metis prod_cases3)
  moreover have "s1 = CY_U3P_SUCCESS"
    using receive_succeeds [of "updateEepromPreamble a True" n UPDATE_I2C_NAK_RETRIES w] t by simp
  ultimately show ?thesis
    using assms unfolding updateEepromRead_def eeprom_read_attempts.simps [of P a buf n 0] by simp
qed

lemma data_loop_succeeds:
  assumes "data_eeprom_loop P data consumed offset s = (ok, s')" and "length data \<le> 2048"
  shows ok
  using assms(1)
proof (induction "length data - consumed" arbitrary: consumed offset s rule: less_induct)
  case less
  show ?case
  proof (cases "consumed < length data")
    case False
    then show ?thesis using less.prems unfolding data_eeprom_loop.simps [of P data consumed] by simp
  next
    case True
    let ?span = "updateEepromWriteSpan offset (of_nat (length data - consumed))"
    have "unat (of_nat (length data - consumed) :: u32) = length data - consumed"
      using assms(2) by (intro unat_of_nat_u32) simp
    then have pos: "0 < unat ?span"
      using eeprom_write.span_pos [of "of_nat (length data - consumed)" offset] True
      by (metis unat_0 zero_less_diff neq0_conv)
    then have nz: "?span \<noteq> 0" by (auto simp: unat_gt_0)
    obtain p t where eq: "data_eeprom_loop P data (consumed + unat ?span) p t = (ok, s')"
      using less.prems True nz write_page_succeeds
      unfolding data_eeprom_loop.simps [of P data consumed offset s] Let_def
      by (auto split: prod.splits if_splits)
    show ?thesis by (rule less.hyps [OF _ eq]) (use pos True in linarith)
  qed
qed

lemma verify_loop_succeeds:
  assumes "verify_eeprom_loop P len address s = (ok, s')" and "unat len \<le> 0x80000"
  shows ok
  using assms(1)
proof (induction "unat len - unat address" arbitrary: address s rule: less_induct)
  case less
  show ?case
  proof (cases "address < len")
    case False
    then show ?thesis using less.prems unfolding verify_eeprom_loop.simps [of P len address] by simp
  next
    case True
    let ?span = "updateEepromReadSpan address (len - address) UPDATE_READBACK_SIZE"
    have lt: "unat address < unat len" using True by (simp add: u32_less_iff)
    have rem: "unat (len - address) = unat len - unat address"
      using True by (simp add: unat_minus_le)
    have pos: "0 < unat ?span" using eeprom_read.span_pos [of "len - address" address] lt rem
      by (metis unat_eq_zero zero_less_diff neq0_conv)
    then have nz: "?span \<noteq> 0" by (auto simp: unat_gt_0)
    have le: "unat ?span \<le> unat len - unat address"
      using eeprom_read.span_le [of address "len - address"] rem by simp
    have step: "unat (address + ucast ?span) = unat address + unat ?span"
      using le lt assms(2) by (simp add: unat_plus_le)
    obtain t where eq: "verify_eeprom_loop P len (address + ucast ?span) t = (ok, s')"
      using less.prems True nz read_succeeds
      unfolding verify_eeprom_loop.simps [of P len address s] Let_def
      by (auto split: prod.splits if_splits)
    show ?thesis by (rule less.hyps [OF _ eq]) (use pos lt step in linarith)
  qed
qed

lemma data_succeeds:
  fixes s :: "('w, 'z) agent_scheme"
  assumes "received_eeprom eeprom m s"
    and "updateChunkIsAllowed (glUpdateState s) t i (of_nat (length data)) = ERROR_NONE"
    and "st_received (glUpdateState s) = 0 \<longrightarrow>
         updateImageIsPlausible data (ucast (of_nat (length data) :: u16)) (st_length (glUpdateState s))"
    and "length data \<le> 2048"
  shows "fst (updateAgentData P t i data s)"
proof -
  have t: "st_target (glUpdateState s) = UPDATE_TARGET_EEPROM"
    using assms(1) by (simp add: received_eeprom_def)
  have "fst (data_eeprom_loop P data c x u)" for c x and u :: "('w, 'z) agent_scheme"
    using data_loop_succeeds [OF _ assms(4), of c x u] by (metis prod.collapse)
  then show ?thesis
    unfolding data_eeprom_steps [OF assms(2) t assms(3)] by (simp add: Let_def case_prod_beta)
qed

lemma send_received:
  fixes s :: "('w, 'z) agent_scheme"
  assumes "received_eeprom eeprom m s" and "st_phase (glUpdateState s) = PHASE_RECEIVING"
    and "unat (st_length (glUpdateState s)) = length m + length (concat cs)"
    and "st_nextChunk (glUpdateState s) = i" and "chunks_ok 64 cs"
    and "m = [] \<longrightarrow> take 2 (concat cs) = [UPDATE_IMAGE_SIGNATURE_0, UPDATE_IMAGE_SIGNATURE_1]"
  shows "\<exists>s'. send_chunks P UPDATE_TARGET_EEPROM i cs s = (True, s')
    \<and> received_eeprom eeprom (m @ concat cs) s'
    \<and> st_phase (glUpdateState s') = PHASE_RECEIVING
    \<and> st_length (glUpdateState s') = st_length (glUpdateState s)
    \<and> st_digest (glUpdateState s') = st_digest (glUpdateState s)
    \<and> glUpdateReadback s' = glUpdateReadback s \<and> glUpdateMediumHash s' = glUpdateMediumHash s"
  using assms
proof (induction cs arbitrary: m s i)
  case Nil
  then show ?case by simp
next
  case (Cons c cs)
  let ?st = "glUpdateState s"
  have inv: "st_target ?st = UPDATE_TARGET_EEPROM" "transfer_ok ?st" "unat (st_received ?st) = length m"
    using Cons.prems(1) by (simp_all add: received_eeprom_def)
  have c: "c \<noteq> []" "length c \<le> 2048" "cs = [] \<or> 64 dvd length c" "chunks_ok 64 cs"
    using Cons.prems(5) by simp_all
  have l16: "unat (of_nat (length c) :: u16) = length c" using c(2) by (simp add: unat_of_nat_u16)
  have "unat (st_received ?st) \<le> unat (st_length ?st)" using inv(3) Cons.prems(3) by simp
  then have al: "updateChunkIsAllowed ?st UPDATE_TARGET_EEPROM i (of_nat (length c)) = ERROR_NONE"
    using inv Cons.prems(2-4) c by (auto simp: chunk_allowed_iff l16)
  have pl: "st_received ?st = 0 \<longrightarrow>
      updateImageIsPlausible c (ucast (of_nat (length c) :: u16)) (st_length ?st)"
  proof
    assume "st_received ?st = 0"
    then have m: "m = []" using inv(3) by simp
    then have sig: "take 2 (c @ concat cs) = [UPDATE_IMAGE_SIGNATURE_0, UPDATE_IMAGE_SIGNATURE_1]"
      and len: "unat (st_length ?st) = length c + length (concat cs)"
      using Cons.prems(3,6) by simp_all
    have adm: "128 \<le> unat (st_length ?st)" "unat (st_length ?st) \<le> 262144"
      using inv(1,2) by (simp_all add: transfer_ok_def admissible_length_def)
    have "64 \<le> length c"
      using c(1,3) len adm(1) by (cases "cs = []") (auto dest: dvd_imp_le)
    then obtain x y r where "c = x # y # r"
      by (cases c; cases "tl c") auto
    then show "updateImageIsPlausible c (ucast (of_nat (length c) :: u16)) (st_length ?st)"
      using sig adm \<open>64 \<le> length c\<close> l16
      by (simp add: updateImageIsPlausible_def u32_less_iff not_less)
  qed
  obtain s1 where d: "updateAgentData P UPDATE_TARGET_EEPROM i c s = (True, s1)"
    using data_succeeds [OF Cons.prems(1) al pl c(2)] by (metis prod.collapse)
  have "length c < 65536" using c(2) by simp
  note r = data_received [OF Cons.prems(1) al pl this d]
  have s1: "received_eeprom eeprom (m @ c) s1" "st_phase (glUpdateState s1) = PHASE_RECEIVING"
    "unat (st_length (glUpdateState s1)) = length (m @ c) + length (concat cs)"
    "st_nextChunk (glUpdateState s1) = i + 1"
    "m @ c = [] \<longrightarrow> take 2 (concat cs) = [UPDATE_IMAGE_SIGNATURE_0, UPDATE_IMAGE_SIGNATURE_1]"
    using r Cons.prems(3,4) c(1) by simp_all
  show ?case using Cons.IH [OF s1(1-4) c(4) s1(5)] d r by (auto simp: Let_def)
qed

text \<open>The readback of a complete, hashed image ends in a commit.\<close>

lemma verify_succeeds:
  fixes s :: "('w, 'z) agent_scheme"
  assumes "received_eeprom eeprom img s" and "st_phase (glUpdateState s) = PHASE_VERIFYING"
    and "unat (st_length (glUpdateState s)) = length img"
    and "sha256 img = st_digest (glUpdateState s)" and "length (glUpdateReadback s) = 512"
    and "length (sh_chunk (glUpdateMediumHash s)) = 64"
  shows "st_phase (glUpdateState (updateAgentVerify P s)) = PHASE_COMPLETE
    \<and> slice (eeprom (world (updateAgentVerify P s))) 0 (length img) = img"
proof -
  let ?st = "glUpdateState s" and ?m = "eeprom (world s)"
  have inv: "st_target ?st = UPDATE_TARGET_EEPROM" "length (glUpdateFirstPage s) = 64"
    "take (length img) (glUpdateFirstPage s) = take 64 img"
    "slice ?m 64 (length img - 64) = drop 64 img" "transfer_ok ?st"
    using assms(1) by (simp_all add: received_eeprom_def)
  have len: "128 \<le> length img" "length img \<le> 0x40000"
    using inv(1,5) assms(3) by (simp_all add: transfer_ok_def admissible_length_def)
  then have first: "glUpdateFirstPage s = take 64 img" using inv(2,3) by simp
  let ?h = "sha_256_write (sha_256_init (glUpdateMediumHash s)) (take 64 (glUpdateFirstPage s))"
  let ?t = "set_verified UPDATE_EEPROM_PAGE_SIZE (s\<lparr>glUpdateVerifyPending := False, glUpdateMediumHash := ?h\<rparr>)"
  obtain ok u where v: "verify_eeprom_loop P (st_length ?st) 64 ?t = (ok, u)" by (meson surj_pair)
  have h: "absorbed ?h (take 64 img)"
    using sha.absorb_holds [OF sha.init_holds, of "glUpdateMediumHash s" "take 64 img"]
      assms(6) first by simp
  have pre: "unat (st_length ?st) \<le> 0x80000" "unat (64 :: u32) \<le> unat (st_length ?st)"
    "length (glUpdateReadback ?t) = 512"
    using len assms(3,5) by (simp_all add: set_verified_def)
  have ok: ok by (rule verify_loop_succeeds [OF v pre(1)])
  note loop = verify_loop [OF v pre]
  have u: "eeprom (world u) = ?m" "length (glUpdateReadback u) = 512"
    "glUpdateFirstPage u = take 64 img"
    using loop first by (simp_all add: set_verified_def)
  obtain x where st: "glUpdateState u = ?st\<lparr>st_verified := x\<rparr>"
    using loop ok by (auto simp: set_verified_def)
  have "\<forall>m. absorbed ?h m \<longrightarrow> absorbed (glUpdateMediumHash u) (m @ drop 64 img)"
    using loop ok inv(4) assms(3) by (simp add: set_verified_def)
  then have "absorbed (glUpdateMediumHash u) (take 64 img @ drop 64 img)" using h by blast
  then have dig: "sha_256_close (glUpdateMediumHash u) = st_digest ?st"
    using sha.close_digest [of "glUpdateMediumHash u" img] assms(4) by simp
  let ?c = "u\<lparr>glUpdateMediumDigest := sha_256_close (glUpdateMediumHash u)\<rparr>"
  have fin: "updateAgentVerify P s = commit_eeprom P ?c"
    using assms(2) inv(1) v ok dig st
    by (simp add: updateAgentVerify_def updateAgentVerifyEeprom_def set_verified_def Let_def
        digests_differ_def)
  have c: "length (glUpdateFirstPage ?c) = 64" "length (glUpdateReadback ?c) = 512"
    using u len by simp_all
  obtain s1 w where w: "updateEepromWritePage P 0 (take 64 (glUpdateFirstPage ?c)) (world ?c) = (s1, w)"
    by (meson surj_pair)
  obtain s2 buf w2 where r: "updateEepromRead P 0 (glUpdateReadback ?c) 64 w = (s2, buf, w2)"
    by (metis prod_cases3)
  have suc: "s1 = CY_U3P_SUCCESS" "s2 = CY_U3P_SUCCESS"
    using write_page_succeeds [OF w] read_succeeds [OF r] .
  have "eeprom w = patch ?m 0 (take 64 img)"
    using write_page(2) [OF w] suc(1) u c(1) by simp
  then have "take 64 buf = take 64 img"
    using read_page(3) [OF r] suc(2) c(2) slice_patch_same [of ?m 0 "take 64 img"] len by simp
  then have fine: "st_phase (glUpdateState (updateAgentVerify P s)) = PHASE_COMPLETE"
    unfolding fin using w r suc u(3)
    by (simp add: commit_eeprom_def Let_def set_phase_def complete_update_def set_written_def
        set_verified_def)
  note commit = commit_result [OF c]
  let ?f = "eeprom (world (updateAgentVerify P s))"
  have "slice ?f 0 (length img) = slice ?f 0 64 @ slice ?f 64 (length img - 64)"
    using slice_append [of ?f 0 64 "length img - 64"] len by simp
  also have "slice ?f 0 64 = take 64 img"
    using commit fine u(3) unfolding fin by simp
  also have "slice ?f 64 (length img - 64) = drop 64 img"
    unfolding inv(4) [symmetric] using commit u(1) unfolding fin by (intro slice_cong) simp
  finally show ?thesis using fine by simp
qed

text \<open>A whole update over an idle agent.\<close>

lemma session_succeeds:
  fixes s :: "('w, 'z) agent_scheme"
  assumes "glUpdateI2cReady s" and "\<not> updateIsInProgress (glUpdateState s)"
    and "length (glUpdatePagePad s) = 64" and "length (glUpdateReadback s) = 512"
    and "length (sh_chunk (glUpdateStreamHash s)) = 64"
    and "length (sh_chunk (glUpdateMediumHash s)) = 64"
    and "chunks_ok 64 chunks" and "concat chunks = img"
    and "128 \<le> length img" and "length img \<le> 0x40000"
    and "take 2 img = [UPDATE_IMAGE_SIGNATURE_0, UPDATE_IMAGE_SIGNATURE_1]"
  shows "let s' = update_session P UPDATE_TARGET_EEPROM UPDATE_FLAGS_NONE (sha256 img) chunks s
    in st_phase (glUpdateState s') = PHASE_COMPLETE \<and> slice (eeprom (world s')) 0 (length img) = img"
proof -
  let ?len = "of_nat (length img) :: u32"
  have len: "unat ?len = length img" using assms(10) by (intro unat_of_nat_u32) simp
  let ?b = "\<lparr>bg_length = ?len, bg_digest = sha256 img, bg_flags = UPDATE_FLAGS_NONE\<rparr>"
  have dec: "updateBeginDecode (begin_packet ?len (sha256 img) UPDATE_FLAGS_NONE) 40 = Some ?b"
    by (rule begin_packet_decodes) simp_all
  have adm: "admissible_length UPDATE_TARGET_EEPROM ?len"
    using assms(9,10) len by (simp add: admissible_length_def)
  have al: "updateBeginIsAllowed (glUpdateState s) UPDATE_TARGET_EEPROM ?len UPDATE_FLAGS_NONE False = ERROR_NONE"
    unfolding begin_allowed_iff using assms(2) adm by simp
  let ?s0 = "s\<lparr>glUpdateState := (updateStateReset (glUpdateState s))\<lparr>
      st_phase := PHASE_RECEIVING, st_target := UPDATE_TARGET_EEPROM, st_length := ?len,
      st_digest := sha256 img\<rparr>,
    glUpdateFirstPage := replicate 64 0, glUpdateStreamHash := sha_256_init (glUpdateStreamHash s)\<rparr>"
  have bg: "updateAgentBegin P UPDATE_TARGET_EEPROM (begin_packet ?len (sha256 img) UPDATE_FLAGS_NONE)
      40 False s = (True, ?s0)"
    using al assms(1) by (simp add: updateAgentBegin_def dec updateAgentMediumIsReady_def)
  have r0: "received_eeprom eeprom [] ?s0"
    using adm assms(3) sha.init_holds [OF assms(5)]
    by (simp add: received_eeprom_def transfer_ok_def updateStateReset_def)
  have "\<exists>s1. send_chunks P UPDATE_TARGET_EEPROM 0 chunks ?s0 = (True, s1)
    \<and> received_eeprom eeprom ([] @ concat chunks) s1
    \<and> st_phase (glUpdateState s1) = PHASE_RECEIVING
    \<and> st_length (glUpdateState s1) = st_length (glUpdateState ?s0)
    \<and> st_digest (glUpdateState s1) = st_digest (glUpdateState ?s0)
    \<and> glUpdateReadback s1 = glUpdateReadback ?s0 \<and> glUpdateMediumHash s1 = glUpdateMediumHash ?s0"
    by (rule send_received [OF r0])
      (use assms(7,8,11) len in \<open>simp_all add: updateStateReset_def\<close>)
  then obtain s1 where s1: "send_chunks P UPDATE_TARGET_EEPROM 0 chunks ?s0 = (True, s1)"
    "received_eeprom eeprom img s1" "st_phase (glUpdateState s1) = PHASE_RECEIVING"
    "st_length (glUpdateState s1) = ?len" "st_digest (glUpdateState s1) = sha256 img"
    "length (glUpdateReadback s1) = 512" "length (sh_chunk (glUpdateMediumHash s1)) = 64"
    using assms(4,6,8) by auto
  have rec: "st_target (glUpdateState s1) = UPDATE_TARGET_EEPROM"
    "absorbed (glUpdateStreamHash s1) img" "st_received (glUpdateState s1) = st_length (glUpdateState s1)"
    using s1(2,4) len by (auto simp: received_eeprom_def u32_eq_iff)
  let ?s2 = "s1\<lparr>glUpdateStreamDigest := sha256 img,
      glUpdateState := (glUpdateState s1)\<lparr>st_phase := PHASE_VERIFYING, st_verified := 0\<rparr>,
      glUpdateVerifyPending := True\<rparr>"
  have fin: "updateAgentFinish UPDATE_TARGET_EEPROM s1 = (True, ?s2)"
    using finish_accepts [OF rec(2) s1(5) [symmetric] s1(3) rec(3)] rec(1) by simp
  have "st_phase (glUpdateState (updateAgentVerify P ?s2)) = PHASE_COMPLETE
    \<and> slice (eeprom (world (updateAgentVerify P ?s2))) 0 (length img) = img"
  proof (rule verify_succeeds)
    have "transfer_ok (glUpdateState ?s2) = transfer_ok (glUpdateState s1)"
      by (simp add: transfer_ok_def)
    then show "received_eeprom eeprom img ?s2" using s1(2) by (simp add: received_eeprom_def)
  qed (use s1 len in simp_all)
  moreover have "update_session P UPDATE_TARGET_EEPROM UPDATE_FLAGS_NONE (sha256 img) chunks s
      = updateAgentVerify P ?s2"
    unfolding update_session_def assms(8) Let_def bg prod.case s1(1) fin by simp
  ultimately show ?thesis by (simp add: Let_def)
qed

end

end
