(* ===== verification/FlashMedium.thy ===== *)
theory FlashMedium
  imports UpdateAgent
begin

text \<open>
  What the update agent relies on from the configuration flash, as locales over the driver's
  operations. In \<open>flash_readback\<close> reads return the cells, and an erase or a program stays in its
  sector or page, where it may leave anything even when it reports success; a verification that
  completes on such a part has the promised image and a boot block that is followed.
  \<open>flash_medium\<close> adds that an erase and a program that report success did what their names say.
  \<open>good\<close> is whatever the link and the part need to keep between operations. The lemmas say what
  the agent's readback, its boot block commit and its chunk loop do.
\<close>

subsection \<open>Sectors\<close>

definition sector_end :: "nat \<Rightarrow> nat" where
  "sector_end n = (n + 65535) div 65536 * 65536"

lemma sector_end_split:
  "sector_end (q * 65536) = q * 65536"
  "0 < r \<Longrightarrow> r \<le> 65536 \<Longrightarrow> sector_end (q * 65536 + r) = Suc q * 65536"
proof -
  show "sector_end (q * 65536) = q * 65536" by (simp add: sector_end_def)
  assume r: "0 < r" "r \<le> 65536"
  then have "(q * 65536 + r + 65535) div 65536 = q + (r + 65535) div 65536"
    by (simp add: add.assoc)
  moreover have "(r + 65535) div 65536 = 1" using r by (intro div_nat_eqI) simp_all
  ultimately show "sector_end (q * 65536 + r) = Suc q * 65536" by (simp add: sector_end_def)
qed

lemma sector_end_above: "a < e \<Longrightarrow> a - a mod 65536 + 65536 \<le> sector_end e"
proof -
  assume "a < e"
  then have "(a + 65536) div 65536 \<le> (e + 65535) div 65536" by (intro div_le_mono) simp
  moreover have "(a + 65536) div 65536 = a div 65536 + 1" by simp
  ultimately have "(a div 65536 + 1) * 65536 \<le> (e + 65535) div 65536 * 65536"
    by (intro mult_right_mono) simp_all
  then show ?thesis by (simp add: sector_end_def minus_mod_eq_div_mult)
qed

lemma sector_end_within:
  assumes "a mod 65536 + k \<le> 65536"
  shows "sector_end (a + k) \<le> a - a mod 65536 + 65536"
proof -
  let ?q = "a div 65536"
  have a: "a = ?q * 65536 + a mod 65536" by simp
  show ?thesis
  proof (cases "a mod 65536 + k = 0")
    case True
    then show ?thesis using sector_end_split(1) [of ?q] a by (simp add: minus_mod_eq_div_mult)
  next
    case False
    then have "sector_end (?q * 65536 + (a mod 65536 + k)) = Suc ?q * 65536"
      using assms by (intro sector_end_split) simp_all
    then show ?thesis using a by (simp add: minus_mod_eq_div_mult add.assoc [symmetric])
  qed
qed

lemma sector_end_mono: "a \<le> b \<Longrightarrow> sector_end a \<le> sector_end b"
  unfolding sector_end_def by (intro mult_right_mono div_le_mono) simp_all

lemma sector_end_inside:
  "a mod 65536 \<noteq> 0 \<Longrightarrow> a - a mod 65536 + 65536 = sector_end a"
  using sector_end_split(2) [of "a mod 65536" "a div 65536"] mod_less_divisor [of 65536 a]
  by (simp add: minus_mod_eq_div_mult)

lemma page_in_sector:
  assumes "a mod 256 + k \<le> (256 :: nat)"
  shows "a mod 65536 + k \<le> 65536"
proof -
  have "a mod (256 * 256) = 256 * (a div 256 mod 256) + a mod 256" by (rule mod_mult2_eq)
  moreover have "a div 256 mod 256 < 256" by simp
  ultimately show ?thesis using assms by simp
qed

text \<open>The rest of the sector a write has entered is erased.\<close>

definition blank_from :: "nat \<Rightarrow> memory \<Rightarrow> bool" where
  "blank_from a m \<longleftrightarrow> (\<forall>i. a \<le> i \<longrightarrow> i < sector_end a \<longrightarrow> m i = 0xFF)"

definition flash_loop_state ::
    "bool \<Rightarrow> 'w \<Rightarrow> byte list \<Rightarrow> u32 \<Rightarrow> ('w, 'z) agent_scheme \<Rightarrow> ('w, 'z) agent_scheme" where
  "flash_loop_state ok w c n s =
     (let s = set_written n (s\<lparr>world := w, glEpcsCommand := c\<rparr>)
      in if ok then s else agent_fail ERROR_WRITE s)"

text \<open>
  A gateware update with the bytes \<open>m\<close> received: they are in the target's region, the rest of
  the last sector entered is erased, and all of it has been hashed.
\<close>

definition received_epcs :: "('w \<Rightarrow> memory) \<Rightarrow> byte list \<Rightarrow> ('w, 'z) agent_scheme \<Rightarrow> bool" where
  "received_epcs flash m s \<longleftrightarrow>
     updateTargetIsEpcs (st_target (glUpdateState s)) \<and> transfer_ok (glUpdateState s)
     \<and> unat (st_received (glUpdateState s)) = length m
     \<and> slice (flash (world s)) (unat (updateEpcsTargetBase (st_target (glUpdateState s)))) (length m) = m
     \<and> blank_from (unat (updateEpcsTargetBase (st_target (glUpdateState s))) + length m)
         (flash (world s))
     \<and> absorbed (glUpdateStreamHash s) m"

lemma sector_end_region:
  assumes "updateTargetIsEpcs t" and "admissible_length t len" and "n \<le> unat len"
  shows "sector_end (unat (updateEpcsTargetBase t) + n)
    \<le> unat (updateEpcsTargetBase t) + unat (updateEpcsTargetCapacity t)"
proof -
  have t: "t = 1 \<or> t = 2" using assms(1) by (auto simp: updateTargetIsEpcs_def)
  then obtain k where k: "unat (updateEpcsTargetBase t) + unat (updateEpcsTargetCapacity t) = k * 65536"
    using that [of 128] that [of 16] by auto
  have "unat (updateEpcsTargetBase t) + n \<le> k * 65536"
    using t assms(2,3) k [symmetric] by (auto simp: admissible_length_def)
  then have "sector_end (unat (updateEpcsTargetBase t) + n) \<le> sector_end (k * 65536)"
    by (rule sector_end_mono)
  then show ?thesis unfolding sector_end_split(1) k .
qed

subsection \<open>The part\<close>

locale flash_readback =
  fixes P :: "('w, 'p) platform_scheme" and good :: "('w, 'z) agent_scheme \<Rightarrow> bool"
    and flash :: "'w \<Rightarrow> memory"
  assumes good_driver: "good s \<Longrightarrow> world t = world s \<Longrightarrow> glEpcsCommand t = glEpcsCommand s \<Longrightarrow>
      glFpgaPresent t = glFpgaPresent s \<Longrightarrow> glFpgaIdentity t = glFpgaIdentity s \<Longrightarrow>
      glFpgaLockReady t = glFpgaLockReady s \<Longrightarrow> good t"
    and erase_confined: "good s \<Longrightarrow> unat a < 0x800000 \<Longrightarrow> epcsFlashEraseSector P a s = (ok, s') \<Longrightarrow>
      good s' \<and> (\<forall>i. i < unat a - unat a mod 65536 \<or> unat a - unat a mod 65536 + 65536 \<le> i
                    \<longrightarrow> flash (world s') i = flash (world s) i)"
    and program_confined: "good s \<Longrightarrow> unat a < 0x800000 \<Longrightarrow> data \<noteq> [] \<Longrightarrow>
      unat a mod 256 + length data \<le> 256 \<Longrightarrow> epcsFlashProgramPage P a data s = (ok, s') \<Longrightarrow>
      good s' \<and> (\<forall>i. i < unat a \<or> unat a + length data \<le> i
                    \<longrightarrow> flash (world s') i = flash (world s) i)"
    and read: "good s \<Longrightarrow> 0 < n \<Longrightarrow> unat a + n \<le> 0x800000 \<Longrightarrow> epcsFlashRead P a n s = (r, s') \<Longrightarrow>
      good s' \<and> flash (world s') = flash (world s)
      \<and> (\<forall>bs. r = Some bs \<longrightarrow> bs = slice (flash (world s)) (unat a) n)"
begin

lemma read_slice:
  fixes s :: "('w, 'z) agent_scheme"
  assumes "good s" and "0 < n" and "unat a + n \<le> 0x800000" and "epcsFlashRead P a n s = (r, s')"
  shows "good s'" and "flash (world s') = flash (world s)"
    and "r = Some bs \<Longrightarrow> bs = slice (flash (world s)) (unat a) n"
    and "\<exists>w c. s' = s\<lparr>world := w, glEpcsCommand := c\<rparr>"
  using read [OF assms] epcs_only_read [of s P a n] assms(4) by (auto simp: epcs_only_def)

subsection \<open>Readback\<close>

lemma verify_loop:
  fixes s :: "('w, 'z) agent_scheme"
  assumes "verify_epcs_loop P len offset crc s = (ok, crc', s')" and "good s"
    and "unat (updateEpcsTargetBase (st_target (glUpdateState s))) + unat len \<le> 0x800000"
    and "offset \<le> unat len" and "length (glUpdateReadback s) = 512"
  shows "good s' \<and> flash (world s') = flash (world s)
    \<and> length (glUpdateReadback s') = 512 \<and> length (glUpdateBootBlock s') = length (glUpdateBootBlock s)
    \<and> (\<not> ok \<longrightarrow> st_phase (glUpdateState s') = PHASE_FAILED)
    \<and> (ok \<longrightarrow> (\<exists>v. glUpdateState s' = (glUpdateState s)\<lparr>st_verified := v\<rparr>)
         \<and> crc' = updateCrc32Update crc (slice (flash (world s))
             (unat (updateEpcsTargetBase (st_target (glUpdateState s))) + offset) (unat len - offset))
         \<and> (\<forall>m. absorbed (glUpdateMediumHash s) m \<longrightarrow> absorbed (glUpdateMediumHash s')
               (m @ slice (flash (world s))
                 (unat (updateEpcsTargetBase (st_target (glUpdateState s))) + offset)
                 (unat len - offset))))"
  using assms
proof (induction "unat len - offset" arbitrary: offset crc s rule: less_induct)
  case less
  let ?b = "updateEpcsTargetBase (st_target (glUpdateState s))"
  show ?case
  proof (cases "offset < unat len")
    case False
    then have "ok \<and> s' = s \<and> crc' = crc" and z: "unat len - offset = 0"
      using less.prems(1) by (auto simp: verify_epcs_loop.simps [of P len offset])
    moreover have "\<exists>v. glUpdateState s = (glUpdateState s)\<lparr>st_verified := v\<rparr>"
      by (intro exI [of _ "st_verified (glUpdateState s)"]) simp
    ultimately show ?thesis using less.prems(2,5) by (simp add: updateCrc32Update_def)
  next
    case True
    define span where "span = (if unat len - offset < unat UPDATE_READBACK_SIZE then unat len - offset
                    else unat UPDATE_READBACK_SIZE)"
    have span: "0 < span" "span \<le> unat len - offset" "span \<le> 512"
      using True by (auto simp: span_def)
    let ?a = "?b + of_nat offset"
    have "unat (of_nat offset :: u32) = offset"
      using True unat_less_u32 [of len] by (simp add: unat_of_nat_u32 del: unat_less_u32)
    then have a: "unat ?a = unat ?b + offset"
      using True less.prems(3) by (simp add: unat_plus_le)
    have top: "unat ?a + span \<le> 0x800000" using a span less.prems(3) True by simp
    obtain r t where r: "epcsFlashRead P ?a span s = (r, t)" by (meson surj_pair)
    note rd = read_slice [OF less.prems(2) span(1) top r]
    obtain w c where t: "t = s\<lparr>world := w, glEpcsCommand := c\<rparr>" using rd(4) by blast
    show ?thesis
    proof (cases r)
      case None
      have "ok = False \<and> s' = agent_fail ERROR_READ t"
        using less.prems(1) True r [unfolded span_def] None
        unfolding verify_epcs_loop.simps [of P len offset crc s] Let_def by simp
      then show ?thesis using rd(1,2) less.prems(5) t
        by (auto simp: agent_fail_def updateStateFail_def intro: good_driver [OF rd(1)])
    next
      case (Some bytes)
      let ?u = "set_verified (of_nat (offset + span)) (t\<lparr>glUpdateReadback := blit (glUpdateReadback t) 0 bytes,
        glUpdateMediumHash := sha_256_write (glUpdateMediumHash t) bytes\<rparr>)"
      have eq: "verify_epcs_loop P len (offset + span) (updateCrc32Update crc bytes) ?u = (ok, crc', s')"
        using less.prems(1) True r Some
        unfolding verify_epcs_loop.simps [of P len offset crc s] Let_def span_def by simp
      have u: "good ?u" "flash (world ?u) = flash (world s)"
        "st_target (glUpdateState ?u) = st_target (glUpdateState s)"
        "glUpdateState ?u = (glUpdateState s)\<lparr>st_verified := of_nat (offset + span)\<rparr>"
        "glUpdateMediumHash ?u = sha_256_write (glUpdateMediumHash s) bytes"
        "glUpdateBootBlock ?u = glUpdateBootBlock s"
        using rd(2) t by (simp_all add: set_verified_def good_driver [OF rd(1)])
      have b: "bytes = slice (flash (world s)) (unat ?b + offset) span"
        using rd(3) [OF Some] a by simp
      have lb: "length (glUpdateReadback ?u) = 512"
        using t b span(3) less.prems(5) by (simp add: set_verified_def)
      have m: "unat len - (offset + span) < unat len - offset" "offset + span \<le> unat len"
        "unat (updateEpcsTargetBase (st_target (glUpdateState ?u))) + unat len \<le> 0x800000"
        using True span less.prems(3) unfolding u(3) by simp_all
      note IH = less.hyps [OF m(1) eq u(1) m(3,2) lb, unfolded u(2,3)]
      have split: "slice (flash (world s)) (unat ?b + offset) (unat len - offset)
        = bytes @ slice (flash (world s)) (unat ?b + (offset + span)) (unat len - (offset + span))"
      proof -
        have "unat len - offset = span + (unat len - (offset + span))" using m(2) by simp
        then show ?thesis
          using slice_append [of "flash (world s)" "unat ?b + offset" span "unat len - (offset + span)"]
          unfolding b by (simp add: add.assoc)
      qed
      have "absorbed (glUpdateMediumHash s')
          (m @ slice (flash (world s)) (unat ?b + offset) (unat len - offset))"
        if "ok" "absorbed (glUpdateMediumHash s) m" for m
      proof -
        have "absorbed (glUpdateMediumHash ?u) (m @ bytes)"
          unfolding u(5) by (rule sha.absorb_holds [OF that(2)])
        then show ?thesis using IH that(1) unfolding split append_assoc [symmetric] by blast
      qed
      moreover have "\<exists>v. glUpdateState s' = (glUpdateState s)\<lparr>st_verified := v\<rparr>" if ok
        using IH that unfolding u(4) by auto
      moreover have "crc' = updateCrc32Update crc
          (slice (flash (world s)) (unat ?b + offset) (unat len - offset))" if ok
        using IH that unfolding split by (simp add: updateCrc32Update_append)
      ultimately show ?thesis using IH unfolding u(6) by blast
    qed
  qed
qed

subsection \<open>The commit record\<close>

lemma commit_result:
  fixes s :: "('w, 'z) agent_scheme"
  assumes "good s" and "length (glUpdateBootBlock s) = 24" and "length (glUpdateReadback s) = 512"
  shows "st_phase (glUpdateState (commit_epcs P crc s)) \<in> {PHASE_FAILED, PHASE_COMPLETE}
    \<and> (\<forall>i. i < 0x100000 \<or> 0x110000 \<le> i
           \<longrightarrow> flash (world (commit_epcs P crc s)) i = flash (world s) i)
    \<and> (st_phase (glUpdateState (commit_epcs P crc s)) = PHASE_COMPLETE \<longrightarrow>
        slice (flash (world (commit_epcs P crc s))) 0x100000 24
          = updateBootBlockEncode (glUpdateBootBlock s) UPDATE_EPCS_APPLICATION_ADDRESS
              (st_length (glUpdateState s)) (updateCrc32Final crc))"
proof -
  let ?A = "UPDATE_EPCS_BOOT_BLOCK_ADDRESS"
  let ?bb = "updateBootBlockEncode (glUpdateBootBlock s) UPDATE_EPCS_APPLICATION_ADDRESS
    (st_length (glUpdateState s)) (updateCrc32Final crc)"
  have lbb: "length ?bb = 24" using assms(2) by (simp add: boot_block_layout Let_def)
  let ?s0 = "(set_phase PHASE_WRITING s)\<lparr>glUpdateBootBlock := ?bb\<rparr>"
  have g0: "good ?s0" by (rule good_driver [OF assms(1)]) (simp_all add: set_phase_def)
  have a: "unat ?A < 0x800000" "unat ?A - unat ?A mod 65536 = 0x100000" by simp_all
  obtain ok1 s1 where e: "epcsFlashEraseSector P ?A ?s0 = (ok1, s1)" by (meson surj_pair)
  note er = erase_confined [OF g0 a(1) e]
  obtain w1 c1 where s1: "s1 = ?s0\<lparr>world := w1, glEpcsCommand := c1\<rparr>"
    using epcs_only_erase [of ?s0 P ?A] unfolding e epcs_only_def by auto
  have d: "take 24 ?bb \<noteq> []" "unat ?A mod 256 + length (take 24 ?bb) \<le> 256" "take 24 ?bb = ?bb"
    using lbb by auto
  obtain ok2 s2 where p: "epcsFlashProgramPage P ?A (take 24 ?bb) s1 = (ok2, s2)" by (meson surj_pair)
  have g1: "good s1" using er by blast
  note pr = program_confined [OF g1 a(1) d(1,2) p]
  obtain w2 c2 where s2: "s2 = s1\<lparr>world := w2, glEpcsCommand := c2\<rparr>"
    using epcs_only_program [of s1 P ?A "take 24 ?bb"] unfolding p epcs_only_def by auto
  let ?s3 = "set_phase PHASE_VERIFYING s2"
  have g2: "good s2" using pr by blast
  have g3: "good ?s3" by (rule good_driver [OF g2]) (simp_all add: set_phase_def)
  have n: "(0 :: nat) < 24" "unat ?A + 24 \<le> 0x800000" by simp_all
  obtain r s4 where q: "epcsFlashRead P ?A UPDATE_BOOT_BLOCK_LENGTH ?s3 = (r, s4)" by (meson surj_pair)
  note rd = read_slice [OF g3 n(1,2) q]
  obtain w4 c4 where s4: "s4 = ?s3\<lparr>world := w4, glEpcsCommand := c4\<rparr>" using rd(4) by blast
  have f1: "flash w1 i = flash (world s) i" if "i < 0x100000 \<or> 0x110000 \<le> i" for i
    using er [THEN conjunct2] that unfolding a(2) s1 by (auto simp: set_phase_def)
  have f2: "flash w2 i = flash (world s) i" if "i < 0x100000 \<or> 0x110000 \<le> i" for i
    using pr f1 [OF that] that lbb unfolding s2 s1 d(3) by auto
  have f4: "flash w4 = flash w2" using rd(2) unfolding s4 s2 by (simp add: set_phase_def)
  have step: "commit_epcs P crc s = (if \<not> ok1 then agent_fail ERROR_WRITE s1
      else if \<not> ok2 then agent_fail ERROR_WRITE s2
      else case r of None \<Rightarrow> agent_fail ERROR_READ s4
        | Some bytes \<Rightarrow>
            let t = s4\<lparr>glUpdateReadback := blit (glUpdateReadback s4) 0 bytes\<rparr>
            in if take 24 (glUpdateReadback t) \<noteq> take 24 (glUpdateBootBlock t)
               then agent_fail ERROR_MEDIUM_DIGEST t
               else complete_update (st_length (glUpdateState t)) t)"
  proof -
    have f: "glUpdateBootBlock (set_phase PHASE_WRITING s) = glUpdateBootBlock s"
      "st_length (glUpdateState (set_phase PHASE_WRITING s)) = st_length (glUpdateState s)"
      "glUpdateBootBlock ?s0 = ?bb"
      by (simp_all add: set_phase_def)
    show ?thesis
      unfolding commit_epcs_def Let_def f
      by (cases ok1; cases ok2) (simp_all only: all_ok.simps e p q prod.case if_True if_False simp_thms)
  qed
  show ?thesis
  proof (cases "ok1 \<and> ok2")
    case False
    then have c: "commit_epcs P crc s = agent_fail ERROR_WRITE s1
        \<or> commit_epcs P crc s = agent_fail ERROR_WRITE s2"
      unfolding step by auto
    have "flash (world s1) = flash w1" "flash (world s2) = flash w2" by (simp_all add: s1 s2)
    then show ?thesis using c f1 f2 by auto
  next
    case ok: True
    show ?thesis
    proof (cases r)
      case None
      then have "commit_epcs P crc s = agent_fail ERROR_READ s4" unfolding step using ok by simp
      moreover have "flash (world s4) = flash w2" using f4 by (simp add: s4)
      ultimately show ?thesis using f2 by auto
    next
      case (Some bytes)
      let ?t = "s4\<lparr>glUpdateReadback := blit (glUpdateReadback s4) 0 bytes\<rparr>"
      have b: "bytes = slice (flash w2) 0x100000 24" using rd(3) [OF Some] unfolding s2 by (simp add: set_phase_def)
      have t: "take 24 (glUpdateReadback ?t) = bytes" "glUpdateBootBlock ?t = ?bb"
        "flash (world ?t) = flash w2"
        using take_blit_0 [of bytes "glUpdateReadback s4"] f4 unfolding b
        by (simp_all add: s4 s2 s1 set_phase_def)
      have c: "commit_epcs P crc s = (if bytes \<noteq> ?bb then agent_fail ERROR_MEDIUM_DIGEST ?t
          else complete_update (st_length (glUpdateState ?t)) ?t)"
        unfolding step using ok Some t lbb by (simp add: Let_def)
      show ?thesis
        using f2 t(3) b unfolding c
        by auto
    qed
  qed
qed

text \<open>
  An update of the application region that reports completion has the promised image on the
  flash, and the factory image will enter it; one of the factory region has the promised image
  on the flash and the boot block's sector as it was.
\<close>

lemma verify_complete:
  fixes s :: "('w, 'z) agent_scheme"
  assumes "st_phase (glUpdateState (updateAgentVerify P s)) = PHASE_COMPLETE"
    and "st_phase (glUpdateState s) = PHASE_VERIFYING"
    and "updateTargetIsEpcs (st_target (glUpdateState s))" and "good s"
    and "admissible_length (st_target (glUpdateState s)) (st_length (glUpdateState s))"
    and "length (glUpdateReadback s) = 512" and "length (glUpdateBootBlock s) = 24"
    and "length (sh_chunk (glUpdateMediumHash s)) = 64"
    and "length (st_digest (glUpdateState s)) = 32"
  shows "sha256 (slice (flash (world (updateAgentVerify P s)))
      (unat (updateEpcsTargetBase (st_target (glUpdateState s)))) (unat (st_length (glUpdateState s))))
      = st_digest (glUpdateState s)"
    and "st_target (glUpdateState s) = UPDATE_TARGET_EPCS \<Longrightarrow>
      boot_enters_application (flash (world (updateAgentVerify P s)))"
    and "i < 0x100000 \<or> 0x110000 \<le> i \<Longrightarrow>
      flash (world (updateAgentVerify P s)) i = flash (world s) i"
    and "st_target (glUpdateState s) = UPDATE_TARGET_EPCS_FACTORY \<Longrightarrow>
      flash (world (updateAgentVerify P s)) = flash (world s)"
proof -
  let ?st = "glUpdateState s" and ?m = "flash (world s)"
  let ?b = "updateEpcsTargetBase (st_target ?st)" and ?len = "st_length ?st"
  have t: "st_target ?st = 1 \<or> st_target ?st = 2" using assms(3) by (auto simp: updateTargetIsEpcs_def)
  have region: "unat ?b + unat ?len \<le> 0x800000" "0 < unat ?len"
    "unat ?b + unat ?len \<le> 0x100000 \<or> 0x110000 \<le> unat ?b"
    using t assms(5) by (auto simp: admissible_length_def)
  let ?h = "sha_256_init (glUpdateMediumHash s)"
  let ?t = "s\<lparr>glUpdateVerifyPending := False, glUpdateMediumHash := ?h\<rparr>"
  have gt: "good ?t" by (rule good_driver [OF assms(4)]) simp_all
  obtain ok crc u where v: "verify_epcs_loop P ?len 0 UPDATE_CRC32_INITIAL ?t = (ok, crc, u)"
    by (metis prod_cases3)
  have h: "absorbed ?h []" using assms(8) by (rule sha.init_holds)
  have loop: "good u \<and> flash (world u) = ?m \<and> length (glUpdateReadback u) = 512
    \<and> length (glUpdateBootBlock u) = 24 \<and> (\<not> ok \<longrightarrow> st_phase (glUpdateState u) = PHASE_FAILED)
    \<and> (ok \<longrightarrow> (\<exists>x. glUpdateState u = ?st\<lparr>st_verified := x\<rparr>)
         \<and> crc = updateCrc32Update UPDATE_CRC32_INITIAL (slice ?m (unat ?b) (unat ?len))
         \<and> absorbed (glUpdateMediumHash u) (slice ?m (unat ?b) (unat ?len)))"
    using verify_loop [OF v gt] region(1) assms(6,7) h by auto
  have step: "updateAgentVerify P s = (if \<not> ok then u else
      let c = u\<lparr>glUpdateMediumDigest := sha_256_close (glUpdateMediumHash u)\<rparr>
      in if digests_differ (glUpdateMediumDigest c) (st_digest (glUpdateState c))
         then agent_fail ERROR_MEDIUM_DIGEST c
         else if st_target (glUpdateState c) = UPDATE_TARGET_EPCS_FACTORY
         then complete_update (st_length (glUpdateState c)) c else commit_epcs P crc c)"
    using assms(2,3) v by (simp add: updateAgentVerify_def updateAgentVerifyEpcs_def Let_def)
  then have ok using assms(1) loop by (auto split: if_splits)
  let ?c = "u\<lparr>glUpdateMediumDigest := sha_256_close (glUpdateMediumHash u)\<rparr>"
  have dig: "sha_256_close (glUpdateMediumHash u) = sha256 (slice ?m (unat ?b) (unat ?len))"
    using loop \<open>ok\<close> by (intro sha.close_digest) blast
  have st: "st_target (glUpdateState ?c) = st_target ?st" "st_length (glUpdateState ?c) = ?len"
    "st_digest (glUpdateState ?c) = st_digest ?st"
  proof -
    obtain x where "glUpdateState u = ?st\<lparr>st_verified := x\<rparr>" using loop \<open>ok\<close> by blast
    then show "st_target (glUpdateState ?c) = st_target ?st" "st_length (glUpdateState ?c) = ?len"
      "st_digest (glUpdateState ?c) = st_digest ?st" by simp_all
  qed
  have same: "\<not> digests_differ (glUpdateMediumDigest ?c) (st_digest ?st)"
    using assms(1) \<open>ok\<close> unfolding step Let_def st by (auto split: if_splits)
  then have promised: "sha256 (slice ?m (unat ?b) (unat ?len)) = st_digest ?st"
    using dig assms(9) by (simp add: digests_differ_def)
  have fin: "updateAgentVerify P s = (if st_target ?st = UPDATE_TARGET_EPCS_FACTORY
      then complete_update ?len ?c else commit_epcs P crc ?c)"
    using \<open>ok\<close> same unfolding step Let_def st by simp
  have gu: "good u" using loop by blast
  have gc: "good ?c" by (rule good_driver [OF gu]) simp_all
  have c: "length (glUpdateBootBlock ?c) = 24" "length (glUpdateReadback ?c) = 512"
    "flash (world ?c) = ?m"
    using loop by simp_all
  note commit = commit_result [OF gc c(1,2), of crc]
  have outside: "flash (world (updateAgentVerify P s)) j = ?m j" if "j < 0x100000 \<or> 0x110000 \<le> j" for j
    using commit that unfolding fin c(3) by (simp only: c(3) complete_update_fields split: if_split) blast
  then show "i < 0x100000 \<or> 0x110000 \<le> i \<Longrightarrow> flash (world (updateAgentVerify P s)) i = ?m i"
    by blast
  have kept: "slice (flash (world (updateAgentVerify P s))) (unat ?b) (unat ?len) = slice ?m (unat ?b) (unat ?len)"
    using outside region(3) by (intro slice_cong) auto
  then show "sha256 (slice (flash (world (updateAgentVerify P s))) (unat ?b) (unat ?len)) = st_digest ?st"
    using promised by simp
  show "st_target ?st = UPDATE_TARGET_EPCS_FACTORY \<Longrightarrow> flash (world (updateAgentVerify P s)) = ?m"
    using c(3) unfolding fin by simp
  show "boot_enters_application (flash (world (updateAgentVerify P s)))"
    if app: "st_target ?st = UPDATE_TARGET_EPCS"
  proof -
    let ?f = "flash (world (updateAgentVerify P s))"
    have f: "updateAgentVerify P s = commit_epcs P crc ?c" using app unfolding fin by simp
    have "crc = updateCrc32Update UPDATE_CRC32_INITIAL (slice ?m (unat ?b) (unat ?len))"
      using loop \<open>ok\<close> by blast
    then have crc: "updateCrc32Final crc = crc32 (slice ?m (unat ?b) (unat ?len))"
      by (simp only: crc32_def)
    have blk: "slice ?f 0x100000 24 = updateBootBlockEncode (glUpdateBootBlock ?c)
        UPDATE_EPCS_APPLICATION_ADDRESS ?len (updateCrc32Final crc)"
      using commit assms(1) unfolding f st(2) by blast
    have l: "24 \<le> length (glUpdateBootBlock ?c)" using c(1) by simp
    have blk': "slice ?f 0x100000 24 = take 24 (updateBootBlockEncode (glUpdateBootBlock ?c)
        UPDATE_EPCS_APPLICATION_ADDRESS ?len (updateCrc32Final crc))"
      using blk by (metis length_slice take_all order_refl)
    have b: "unat ?b = 0x200000" "UPDATE_EPCS_APPLICATION_ADDRESS = ?b"
      using app by (simp_all add: updateEpcsTargetBase_def)
    have len: "?len \<noteq> 0" "unat UPDATE_EPCS_APPLICATION_ADDRESS + unat ?len \<le> 0x800000"
      using region b by auto
    have wide: "unat UPDATE_EPCS_APPLICATION_ADDRESS + unat ?len < 2 ^ 32" using len(2) by simp
    show ?thesis
      unfolding boot_enters_iff [OF l blk' wide] using len kept crc b by simp
  qed
qed

end

locale flash_medium = flash_readback P good flash
  for P :: "('w, 'p) platform_scheme" and good :: "('w, 'z) agent_scheme \<Rightarrow> bool"
    and flash :: "'w \<Rightarrow> memory" +
  assumes erase_success: "good s \<Longrightarrow> unat a < 0x800000 \<Longrightarrow> epcsFlashEraseSector P a s = (True, s') \<Longrightarrow>
      flash (world s') = erased_cells (unat a) (flash (world s))"
    and program_success: "good s \<Longrightarrow> unat a < 0x800000 \<Longrightarrow> data \<noteq> [] \<Longrightarrow>
      unat a mod 256 + length data \<le> 256 \<Longrightarrow> epcsFlashProgramPage P a data s = (True, s') \<Longrightarrow>
      flash (world s') = programmed_cells (unat a) data (flash (world s))"
begin

lemma erase:
  assumes "good s" and "unat a < 0x800000" and "epcsFlashEraseSector P a s = (ok, s')"
  shows "good s' \<and> (\<forall>i. i < unat a - unat a mod 65536 \<or> unat a - unat a mod 65536 + 65536 \<le> i
                    \<longrightarrow> flash (world s') i = flash (world s) i)
      \<and> (ok \<longrightarrow> flash (world s') = erased_cells (unat a) (flash (world s)))"
  using erase_confined [OF assms] erase_success [OF assms(1,2)] assms(3) by simp

lemma program:
  assumes "good s" and "unat a < 0x800000" and "data \<noteq> []"
    and "unat a mod 256 + length data \<le> 256" and "epcsFlashProgramPage P a data s = (ok, s')"
  shows "good s' \<and> (\<forall>i. i < unat a \<or> unat a + length data \<le> i
                    \<longrightarrow> flash (world s') i = flash (world s) i)
      \<and> (ok \<longrightarrow> flash (world s') = programmed_cells (unat a) data (flash (world s)))"
  using program_confined [OF assms] program_success [OF assms(1-4)] assms(5) by simp

subsection \<open>Chunks\<close>

text \<open>One page of a chunk, with the erase that goes before it when it enters a sector.\<close>

lemma page_step:
  fixes s :: "('w, 'z) agent_scheme"
  assumes g: "good s" and a: "unat a < 0x800000" and d: "d \<noteq> []"
    and f: "unat a mod 256 + length d \<le> 256" and b: "blank_from (unat a) (flash (world s))"
    and e: "(if updateEpcsSectorStartsHere a then epcsFlashEraseSector P a s else (True, s)) = (ok1, s1)"
    and p: "epcsFlashProgramPage P a d s1 = (ok2, s2)"
  shows "good s1 \<and> good s2
    \<and> (\<forall>i. i < unat a \<or> sector_end (unat a + length d) \<le> i \<longrightarrow>
         flash (world s1) i = flash (world s) i \<and> flash (world s2) i = flash (world s) i)
    \<and> (ok1 \<and> ok2 \<longrightarrow> slice (flash (world s2)) (unat a) (length d) = d
         \<and> blank_from (unat a + length d) (flash (world s2)))"
proof -
  let ?A = "unat a"
  have len: "0 < length d" using d by simp
  have top: "sector_end (?A + length d) = ?A - ?A mod 65536 + 65536"
    using sector_end_above [of ?A "?A + length d"] sector_end_within [OF page_in_sector [OF f]] len
    by simp
  have g1: "good s1"
    using e g erase [OF g a, of ok1 s1] by (auto split: if_splits)
  have same1: "flash (world s1) i = flash (world s) i"
    if "i < ?A \<or> sector_end (?A + length d) \<le> i" for i
  proof (cases "updateEpcsSectorStartsHere a")
    case True
    then have "?A mod 65536 = 0" by (simp add: updateEpcsSectorStartsHere_iff)
    then show ?thesis using e True erase [OF g a, of ok1 s1] that top by auto
  qed (use e in auto)
  have ff: "flash (world s1) i = 0xFF" if "ok1" "?A \<le> i" "i < sector_end (?A + length d)" for i
  proof (cases "updateEpcsSectorStartsHere a")
    case True
    then have "?A mod 65536 = 0" by (simp add: updateEpcsSectorStartsHere_iff)
    moreover have "flash (world s1) = erased_cells ?A (flash (world s))"
      using e True erase [OF g a, of ok1 s1] that(1) by simp
    ultimately show ?thesis using that top by (simp add: erased_cells_def)
  next
    case False
    then have "?A mod 65536 \<noteq> 0" by (simp add: updateEpcsSectorStartsHere_iff)
    then show ?thesis using b e False that top sector_end_inside [of ?A]
      by (simp add: blank_from_def)
  qed
  have low: "?A + length d \<le> sector_end (?A + length d)"
    unfolding top using page_in_sector [OF f] mod_less_eq_dividend [of ?A 65536] by linarith
  note pr = program [OF g1 a d f p]
  have "flash (world s2) i = flash (world s) i"
    if "i < ?A \<or> sector_end (?A + length d) \<le> i" for i
    using pr same1 [OF that] that low by auto
  moreover have "slice (flash (world s2)) ?A (length d) = d
      \<and> blank_from (?A + length d) (flash (world s2))" if "ok1 \<and> ok2"
  proof -
    have s2: "flash (world s2) = patch (flash (world s1)) ?A d"
    proof -
      have "flash (world s2) = programmed_cells ?A d (flash (world s1))" using pr that by blast
      moreover have "flash (world s1) i = 0xFF" if "?A \<le> i" "i < ?A + length d" for i
        using ff that \<open>ok1 \<and> ok2\<close> low by simp
      ultimately show ?thesis by (simp add: program_erased)
    qed
    have "blank_from (?A + length d) (flash (world s2))"
      unfolding s2 blank_from_def using ff that by simp
    then show ?thesis using s2 by (simp add: slice_patch_same)
  qed
  ultimately show ?thesis using g1 pr same1 by blast
qed

lemma flash_loop_again:
  "flash_loop_state ok w c n (set_written k (s\<lparr>world := w', glEpcsCommand := c'\<rparr>))
   = flash_loop_state ok w c n s"
  by (simp add: flash_loop_state_def set_written_def agent_fail_def Let_def)

lemma flash_loop_same:
  "flash_loop_state True (world s) (glEpcsCommand s) (st_written (glUpdateState s)) s = s"
  by (simp add: flash_loop_state_def set_written_def)

lemma data_loop:
  fixes s :: "('w, 'z) agent_scheme"
  assumes "B = updateEpcsTargetBase (st_target (glUpdateState s)) + st_received (glUpdateState s)"
    and "data_epcs_loop P data consumed s = (ok, s')"
    and "consumed \<le> length data" and "length data \<le> 2048" and "good s"
    and "unat B + length data \<le> 0x800000"
    and "unat B = unat (updateEpcsTargetBase (st_target (glUpdateState s)))
       + unat (st_received (glUpdateState s))"
    and "blank_from (unat B + consumed) (flash (world s))"
  shows "good s'
    \<and> (\<forall>i. i < unat B + consumed \<or> sector_end (unat B + length data) \<le> i \<longrightarrow>
         flash (world s') i = flash (world s) i)
    \<and> (ok \<longrightarrow> slice (flash (world s')) (unat B + consumed) (length data - consumed) = drop consumed data
         \<and> blank_from (unat B + length data) (flash (world s')))
    \<and> (\<exists>w c n. s' = flash_loop_state ok w c n s)"
  using assms
proof (induction "length data - consumed" arbitrary: consumed s B rule: less_induct)
  case less
  show ?case
  proof (cases "consumed < length data")
    case False
    then have "ok \<and> s' = s" and c: "consumed = length data"
      using less.prems(2,3) unfolding data_epcs_loop.simps [of P data consumed s] by auto
    moreover have "\<exists>w c n. s = flash_loop_state True w c n s" by (metis flash_loop_same)
    ultimately show ?thesis using less.prems by simp
  next
    case True
    note of_nat_diff [simp del]
    let ?st = "glUpdateState s"
    let ?left = "length data - consumed"
    let ?off = "st_received ?st + of_nat consumed"
    let ?a = "updateEpcsTargetBase (st_target ?st) + ?off"
    let ?span = "updateEpcsWriteSpan ?a (of_nat ?left)"
    let ?d = "take (unat ?span) (drop consumed data)"
    have c32: "unat (of_nat consumed :: u32) = consumed" "unat (of_nat ?left :: u32) = ?left"
      using True less.prems(4) unat_of_nat_u32 [of consumed] unat_of_nat_u32 [of ?left]
      by (simp_all del: of_nat_diff)
    have a: "unat ?a = unat B + consumed"
    proof -
      have e: "?a = B + of_nat consumed" by (simp add: less.prems(1) add.assoc)
      show ?thesis unfolding e using True less.prems(6) c32(1) by (simp add: unat_plus_le)
    qed
    have pos: "0 < unat ?span" using epcs_write.span_pos [of "of_nat ?left" ?a] True c32
      by (metis unat_0 zero_less_diff neq0_conv)
    have le: "unat ?span \<le> ?left" using epcs_write.span_le [of ?a "of_nat ?left"] c32 by simp
    have d: "length ?d = unat ?span" "?d \<noteq> []" using le pos by auto
    have fits: "unat ?a mod 256 + length ?d \<le> 256" unfolding d(1) by (rule epcs_write.span_fits)
    have nz: "?span \<noteq> 0" using pos by (auto simp: unat_gt_0)
    have top: "unat ?a < 0x800000" using a True less.prems(6) by simp
    obtain ok1 s1 where e: "(if updateEpcsSectorStartsHere ?a then epcsFlashEraseSector P ?a s
        else (True, s)) = (ok1, s1)" by (meson surj_pair)
    obtain ok2 s2 where p: "epcsFlashProgramPage P ?a ?d s1 = (ok2, s2)" by (meson surj_pair)
    have bl: "blank_from (unat ?a) (flash (world s))" using less.prems(8) a by simp
    note page = page_step [OF less.prems(5) top d(2) fits bl e p]
    have o1: "epcs_only s s1"
      using e epcs_only_erase [of s P ?a] by (cases "updateEpcsSectorStartsHere ?a") auto
    have o2: "epcs_only s s2"
      using epcs_only_trans [OF o1] epcs_only_program [of s1 P ?a ?d] unfolding p by simp
    obtain w1 c1 where s1: "s1 = s\<lparr>world := w1, glEpcsCommand := c1\<rparr>"
      using o1 unfolding epcs_only_def by blast
    obtain w2 c2 where s2: "s2 = s\<lparr>world := w2, glEpcsCommand := c2\<rparr>"
      using o2 unfolding epcs_only_def by blast
    have frame: "flash (world s1) i = flash (world s) i \<and> flash (world s2) i = flash (world s) i"
      if "i < unat B + consumed \<or> sector_end (unat B + length data) \<le> i" for i
    proof -
      have "sector_end (unat ?a + length ?d) \<le> sector_end (unat B + length data)"
        unfolding a d(1) using le True by (intro sector_end_mono) simp
      then have "i < unat ?a \<or> sector_end (unat ?a + length ?d) \<le> i"
        using that unfolding a by linarith
      then show ?thesis using page by blast
    qed
    have step: "(if \<not> ok1 then (False, agent_fail ERROR_WRITE s1)
        else if \<not> ok2 then (False, agent_fail ERROR_WRITE s2)
        else data_epcs_loop P data (consumed + unat ?span) (set_written (?off + ucast ?span) s2))
        = (ok, s')"
      using less.prems(2) unfolding data_epcs_loop.simps [of P data consumed s] Let_def
      by (simp only: True nz e p prod.case if_True if_False)
    show ?thesis
    proof (cases "ok1 \<and> ok2")
      case False
      then obtain x where x: "\<not> ok" "s' = agent_fail ERROR_WRITE x" "x = s1 \<or> x = s2"
        using step by (auto split: if_splits)
      then have "good x" using page by blast
      then have "good s'" unfolding x(2) by (rule good_driver) (simp_all add: agent_fail_def)
      moreover obtain w c where "x = s\<lparr>world := w, glEpcsCommand := c\<rparr>" using x(3) s1 s2 by blast
      then have "s' = flash_loop_state ok w c (st_written ?st) s"
        using x(1) unfolding x(2) by (simp add: flash_loop_state_def set_written_def)
      moreover have "flash (world s') i = flash (world s) i"
        if "i < unat B + consumed \<or> sector_end (unat B + length data) \<le> i" for i
        using frame [OF that] x(2,3) by auto
      ultimately show ?thesis using x(1) by blast
    next
      case ok: True
      let ?u = "set_written (?off + ucast ?span) s2"
      let ?c = "consumed + unat ?span"
      have eq: "data_epcs_loop P data ?c ?u = (ok, s')" using step ok by simp
      have g2: "good s2" using page by blast
      have u: "good ?u" "world ?u = w2"
        "st_target (glUpdateState ?u) = st_target ?st" "st_received (glUpdateState ?u) = st_received ?st"
        by (auto intro: good_driver [OF g2] simp: set_written_def s2)
      have B: "B = updateEpcsTargetBase (st_target (glUpdateState ?u)) + st_received (glUpdateState ?u)"
        using less.prems(1) by (simp add: u)
      have m: "length data - ?c < length data - consumed" "?c \<le> length data"
        "unat B = unat (updateEpcsTargetBase (st_target (glUpdateState ?u)))
           + unat (st_received (glUpdateState ?u))"
        "blank_from (unat B + ?c) (flash (world ?u))"
      proof -
        show "length data - ?c < length data - consumed" "?c \<le> length data"
          using pos le True by simp_all
        show "unat B = unat (updateEpcsTargetBase (st_target (glUpdateState ?u)))
            + unat (st_received (glUpdateState ?u))"
          unfolding u(3,4) by (rule less.prems(7))
        have "blank_from (unat ?a + length ?d) (flash (world s2))" using page ok by blast
        moreover have "flash (world ?u) = flash (world s2)" unfolding u(2) by (simp add: s2)
        moreover have "unat B + ?c = unat ?a + length ?d" unfolding a d(1) by simp
        ultimately show "blank_from (unat B + ?c) (flash (world ?u))" by (simp only:)
      qed
      note IH = less.hyps [OF m(1) B eq m(2) less.prems(4) u(1) less.prems(6) m(3,4)]
      have w2: "flash w2 = flash (world s2)" by (simp add: s2)
      have "\<exists>w c n. s' = flash_loop_state ok w c n s"
        using IH unfolding s2 flash_loop_again by blast
      moreover have "flash (world s') i = flash (world s) i"
        if "i < unat B + consumed \<or> sector_end (unat B + length data) \<le> i" for i
        using IH frame [OF that] that unfolding u(2) w2 by auto
      moreover have "slice (flash (world s')) (unat B + consumed) ?left = drop consumed data" if ok
      proof -
        have "slice (flash (world s')) (unat B + consumed) (unat ?span)
            = slice (flash (world s2)) (unat B + consumed) (unat ?span)"
          using IH unfolding u(2) w2 by (intro slice_cong) simp
        also have "\<dots> = ?d" using page ok a d(1) by simp
        finally have first: "slice (flash (world s')) (unat B + consumed) (unat ?span) = ?d" .
        have rest: "slice (flash (world s')) (unat B + ?c) (length data - ?c) = drop ?c data"
          using IH that by blast
        have e: "unat ?span + (length data - ?c) = ?left" using le m(2) by linarith
        have "slice (flash (world s')) (unat B + consumed) (unat ?span + (length data - ?c))
            = ?d @ drop ?c data"
          unfolding slice_append first using rest by (simp only: add.assoc)
        then show ?thesis
          unfolding e by (simp only: add.commute [of consumed] drop_drop [symmetric] append_take_drop_id)
      qed
      moreover have "blank_from (unat B + length data) (flash (world s'))" if ok
        using IH that by blast
      ultimately show ?thesis using IH by blast
    qed
  qed
qed

text \<open>One accepted chunk.\<close>

lemma data_received:
  fixes s :: "('w, 'z) agent_scheme"
  assumes "received_epcs flash m s" and "good s"
    and "updateChunkIsAllowed (glUpdateState s) t i (of_nat (length data)) = ERROR_NONE"
    and "length data < 65536" and "updateAgentData P t i data s = (ok, s')"
  shows "good s'
    \<and> (\<forall>k. k < unat (updateEpcsTargetBase (st_target (glUpdateState s)))
          \<or> unat (updateEpcsTargetBase (st_target (glUpdateState s)))
              + unat (updateEpcsTargetCapacity (st_target (glUpdateState s))) \<le> k
          \<longrightarrow> flash (world s') k = flash (world s) k)
    \<and> (ok \<longrightarrow> received_epcs flash (m @ data) s'
         \<and> st_phase (glUpdateState s') = PHASE_RECEIVING
         \<and> st_target (glUpdateState s') = st_target (glUpdateState s)
         \<and> st_length (glUpdateState s') = st_length (glUpdateState s)
         \<and> st_digest (glUpdateState s') = st_digest (glUpdateState s)
         \<and> st_nextChunk (glUpdateState s') = st_nextChunk (glUpdateState s) + 1
         \<and> glUpdateReadback s' = glUpdateReadback s \<and> glUpdateMediumHash s' = glUpdateMediumHash s
         \<and> glUpdateBootBlock s' = glUpdateBootBlock s)
    \<and> (\<not> ok \<longrightarrow> st_phase (glUpdateState s') = PHASE_FAILED)"
proof -
  let ?st = "glUpdateState s" and ?n = "length m"
  let ?b = "updateEpcsTargetBase (st_target ?st)"
  have inv: "updateTargetIsEpcs (st_target ?st)" "transfer_ok ?st" "unat (st_received ?st) = ?n"
    "slice (flash (world s)) (unat ?b) ?n = m" "blank_from (unat ?b + ?n) (flash (world s))"
    "absorbed (glUpdateStreamHash s) m"
    using assms(1) by (simp_all add: received_epcs_def)
  have l16: "unat (of_nat (length data) :: u16) = length data"
    using assms(4) by (simp add: unat_of_nat_u16)
  have bound: "unat (st_received ?st) \<le> unat (st_length ?st)"
    "admissible_length (st_target ?st) (st_length ?st)"
    using inv(2) by (simp_all add: transfer_ok_def)
  have region: "unat ?b + unat (st_length ?st) \<le> 0x800000"
    using inv(1) bound(2) by (auto simp: updateTargetIsEpcs_def admissible_length_def)
  have c: "length data \<le> 2048" "?n + length data \<le> unat (st_length ?st)"
    "st_phase ?st = PHASE_RECEIVING"
    using assms(3) unfolding chunk_allowed_iff [OF bound(1)] l16 inv(3) by simp_all
  have ne: "st_target ?st \<noteq> UPDATE_TARGET_EEPROM" using inv(1) by (auto simp: updateTargetIsEpcs_def)
  let ?s1 = "s\<lparr>glUpdateStreamHash := sha_256_write (glUpdateStreamHash s) data\<rparr>"
  obtain ok1 u where l: "data_epcs_loop P data 0 ?s1 = (ok1, u)" by (meson surj_pair)
  have step: "(ok, s') = (if \<not> ok1 then (False, u) else (True, count_chunk data u))"
    using assms(3,5) inv(1) ne l by (simp add: updateAgentData_def updateAgentDataEpcs_def Let_def)
  let ?B = "?b + st_received ?st"
  have B: "unat ?B = unat ?b + ?n"
    using inv(3) bound(1) region by (simp add: unat_plus_le)
  have g1: "good ?s1" by (rule good_driver [OF assms(2)]) simp_all
  have pre: "?B = updateEpcsTargetBase (st_target (glUpdateState ?s1)) + st_received (glUpdateState ?s1)"
    "unat ?B + length data \<le> 0x800000"
    "unat ?B = unat (updateEpcsTargetBase (st_target (glUpdateState ?s1)))
       + unat (st_received (glUpdateState ?s1))"
    "blank_from (unat ?B + 0) (flash (world ?s1))"
    using B c(2) region inv(3,5) by simp_all
  note loop = data_loop [OF pre(1) l le0 c(1) g1 pre(2-4)]
  obtain w cm k where u: "u = flash_loop_state ok1 w cm k ?s1" using loop by blast
  have ws: "world s' = world u" using step by (cases ok1) (auto simp: count_chunk_def)
  have gs: "good s'"
  proof -
    have gu: "good u" using loop by blast
    have "good (count_chunk data u)" by (rule good_driver [OF gu]) (simp_all add: count_chunk_def)
    then show ?thesis using gu step by (cases ok1) auto
  qed
  have far: "sector_end (unat ?B + length data)
      \<le> unat ?b + unat (updateEpcsTargetCapacity (st_target ?st))"
    using sector_end_region [OF inv(1) bound(2) c(2)] unfolding B by (simp add: add.assoc)
  have keep: "flash (world s') j = flash (world s) j"
    if "j < unat ?B \<or> unat ?b + unat (updateEpcsTargetCapacity (st_target ?st)) \<le> j" for j
    using loop far that unfolding ws by auto
  have "received_epcs flash (m @ data) s'
      \<and> st_phase (glUpdateState s') = PHASE_RECEIVING
      \<and> st_target (glUpdateState s') = st_target ?st
      \<and> st_length (glUpdateState s') = st_length ?st \<and> st_digest (glUpdateState s') = st_digest ?st
      \<and> st_nextChunk (glUpdateState s') = st_nextChunk ?st + 1
      \<and> glUpdateReadback s' = glUpdateReadback s \<and> glUpdateMediumHash s' = glUpdateMediumHash s
      \<and> glUpdateBootBlock s' = glUpdateBootBlock s"
    if ok
  proof -
    have ok: ok1 "s' = count_chunk data u" using step that by (auto split: if_splits)
    have fields: "glUpdateState s' = take_chunk (?st\<lparr>st_written := k\<rparr>) (of_nat (length data))"
      "glUpdateStreamHash s' = sha_256_write (glUpdateStreamHash s) data"
      "glUpdateReadback s' = glUpdateReadback s" "glUpdateMediumHash s' = glUpdateMediumHash s"
      "glUpdateBootBlock s' = glUpdateBootBlock s"
      using ok u by (simp_all add: flash_loop_state_def set_written_def count_chunk_def)
    have tc: "transfer_ok (?st\<lparr>st_written := k\<rparr>)" using inv(2) by (simp add: transfer_ok_def)
    have al: "updateChunkIsAllowed (?st\<lparr>st_written := k\<rparr>) t i (of_nat (length data)) = ERROR_NONE"
    proof -
      have "updateChunkIsAllowed (?st\<lparr>st_written := k\<rparr>) t i len = updateChunkIsAllowed ?st t i len" for len
        by (simp add: updateChunkIsAllowed_def)
      then show ?thesis using assms(3) by simp
    qed
    note taken = take_chunk_ok [OF tc al]
    have "slice (flash (world s')) (unat ?b) ?n = m"
      using keep inv(4) B by (metis (no_types, lifting) add_less_mono1 add.commute slice_cong)
    moreover have "slice (flash (world s')) (unat ?b + ?n) (length data) = data"
      "blank_from (unat ?b + ?n + length data) (flash (world s'))"
      using loop ok(1) B unfolding ws by auto
    ultimately have "slice (flash (world s')) (unat ?b) (length (m @ data)) = m @ data"
      "blank_from (unat ?b + length (m @ data)) (flash (world s'))"
      by (simp_all add: slice_append add.assoc)
    then show ?thesis
      using taken c(3) inv
      unfolding received_epcs_def fields
      by (simp add: take_chunk_def l16 absorbed_write)
  qed
  moreover have "st_phase (glUpdateState s') = PHASE_FAILED" if "\<not> ok"
    using step u that by (auto simp: flash_loop_state_def Let_def split: if_splits)
  ultimately show ?thesis using keep gs B by auto
qed

end

subsection \<open>A flash that does not fail\<close>

locale reliable_flash = flash_medium P good flash
  for P :: "('w, 'p) platform_scheme" and good :: "('w, 'z) agent_scheme \<Rightarrow> bool"
    and flash :: "'w \<Rightarrow> memory" +
  assumes bridge: "good s \<Longrightarrow> fpgaRegistersHasFlashBridge s"
    and identify_succeeds: "good s \<Longrightarrow> \<exists>siliconId s'. epcsFlashIdentify P s = (True, siliconId, s')
      \<and> good s' \<and> flash (world s') = flash (world s) \<and> 0x800000 \<le> updateEpcsCapacity siliconId"
    and erase_succeeds: "good s \<Longrightarrow> unat a < 0x800000 \<Longrightarrow> fst (epcsFlashEraseSector P a s)"
    and program_succeeds: "good s \<Longrightarrow> unat a < 0x800000 \<Longrightarrow> data \<noteq> [] \<Longrightarrow>
      unat a mod 256 + length data \<le> 256 \<Longrightarrow> fst (epcsFlashProgramPage P a data s)"
    and read_succeeds: "good s \<Longrightarrow> 0 < n \<Longrightarrow> unat a + n \<le> 0x800000 \<Longrightarrow>
      fst (epcsFlashRead P a n s) \<noteq> None"
begin

lemma data_loop_succeeds:
  fixes s :: "('w, 'z) agent_scheme"
  assumes "data_epcs_loop P data consumed s = (ok, s')" and "length data \<le> 2048" and "good s"
    and "unat (updateEpcsTargetBase (st_target (glUpdateState s)))
      + unat (st_received (glUpdateState s)) + length data \<le> 0x800000"
  shows ok
  using assms(1,3,4)
proof (induction "length data - consumed" arbitrary: consumed s rule: less_induct)
  case less
  show ?case
  proof (cases "consumed < length data")
    case False
    then show ?thesis using less.prems(1) unfolding data_epcs_loop.simps [of P data consumed s] by simp
  next
    case True
    note of_nat_diff [simp del]
    let ?st = "glUpdateState s"
    let ?left = "length data - consumed"
    let ?off = "st_received ?st + of_nat consumed"
    let ?a = "updateEpcsTargetBase (st_target ?st) + ?off"
    let ?span = "updateEpcsWriteSpan ?a (of_nat ?left)"
    let ?d = "take (unat ?span) (drop consumed data)"
    have c32: "unat (of_nat consumed :: u32) = consumed" "unat (of_nat ?left :: u32) = ?left"
      using True assms(2) unat_of_nat_u32 [of consumed] unat_of_nat_u32 [of ?left] by simp_all
    have off: "unat ?off = unat (st_received ?st) + consumed"
      using True less.prems(3) c32(1) by (simp add: unat_plus_le)
    have a: "unat ?a = unat (updateEpcsTargetBase (st_target ?st)) + unat (st_received ?st) + consumed"
      using off True less.prems(3) by (simp add: unat_plus_le)
    have pos: "0 < unat ?span" using epcs_write.span_pos [of "of_nat ?left" ?a] True c32
      by (metis unat_0 zero_less_diff neq0_conv)
    have le: "unat ?span \<le> ?left" using epcs_write.span_le [of ?a "of_nat ?left"] c32 by simp
    have d: "length ?d = unat ?span" "?d \<noteq> []" using le pos by auto
    have fits: "unat ?a mod 256 + length ?d \<le> 256" unfolding d(1) by (rule epcs_write.span_fits)
    have nz: "?span \<noteq> 0" using pos by (auto simp: unat_gt_0)
    have top: "unat ?a < 0x800000" using a True less.prems(3) by simp
    obtain ok1 s1 where e: "(if updateEpcsSectorStartsHere ?a then epcsFlashEraseSector P ?a s
        else (True, s)) = (ok1, s1)" by (meson surj_pair)
    have 1: "ok1" "good s1"
    proof -
      have er: "good s1" if "epcsFlashEraseSector P ?a s = (ok1, s1)"
        using erase [OF less.prems(2) top that] by blast
      show "good s1"
        using e er less.prems(2) by (cases "updateEpcsSectorStartsHere ?a") simp_all
      show ok1
        using e erase_succeeds [OF less.prems(2) top]
        by (cases "updateEpcsSectorStartsHere ?a") simp_all
    qed
    obtain ok2 s2 where p: "epcsFlashProgramPage P ?a ?d s1 = (ok2, s2)" by (meson surj_pair)
    have ok2: ok2 using program_succeeds [OF 1(2) top d(2) fits] p by simp
    have g2: "good s2" using program [OF 1(2) top d(2) fits p] by blast
    have "epcs_only s s1"
      using e epcs_only_erase [of s P ?a] by (cases "updateEpcsSectorStartsHere ?a") auto
    then have "epcs_only s s2"
      using epcs_only_trans epcs_only_program [of s1 P ?a ?d] unfolding p by auto
    then have st: "glUpdateState s2 = ?st" by (auto simp: epcs_only_def)
    let ?u = "set_written (?off + ucast ?span) s2"
    have eq: "data_epcs_loop P data (consumed + unat ?span) ?u = (ok, s')"
      using less.prems(1) unfolding data_epcs_loop.simps [of P data consumed s] Let_def
      by (simp only: True nz e p 1 ok2 prod.case if_True if_False simp_thms)
    have "good ?u" by (rule good_driver [OF g2]) (simp_all add: set_written_def)
    moreover have "unat (updateEpcsTargetBase (st_target (glUpdateState ?u)))
        + unat (st_received (glUpdateState ?u)) + length data \<le> 0x800000"
      using less.prems(3) st by (simp add: set_written_def)
    ultimately show ?thesis by (intro less.hyps [OF _ eq]) (use pos True in linarith)
  qed
qed

lemma verify_loop_succeeds:
  fixes s :: "('w, 'z) agent_scheme"
  assumes "verify_epcs_loop P len offset crc s = (ok, crc', s')" and "good s"
    and "unat (updateEpcsTargetBase (st_target (glUpdateState s))) + unat len \<le> 0x800000"
  shows ok
  using assms
proof (induction "unat len - offset" arbitrary: offset crc s rule: less_induct)
  case less
  let ?b = "updateEpcsTargetBase (st_target (glUpdateState s))"
  show ?case
  proof (cases "offset < unat len")
    case False
    then show ?thesis using less.prems(1) unfolding verify_epcs_loop.simps [of P len offset crc s] by simp
  next
    case True
    define span where "span = (if unat len - offset < unat UPDATE_READBACK_SIZE then unat len - offset
                    else unat UPDATE_READBACK_SIZE)"
    have span: "0 < span" "span \<le> unat len - offset" using True by (auto simp: span_def)
    let ?a = "?b + of_nat offset"
    have "unat (of_nat offset :: u32) = offset"
      using True unat_less_u32 [of len] by (simp add: unat_of_nat_u32 del: unat_less_u32)
    then have a: "unat ?a = unat ?b + offset" using True less.prems(3) by (simp add: unat_plus_le)
    have top: "unat ?a + span \<le> 0x800000" using a span less.prems(3) True by simp
    obtain r t where r: "epcsFlashRead P ?a span s = (r, t)" by (meson surj_pair)
    note rd = read_slice [OF less.prems(2) span(1) top r]
    obtain w c where t: "t = s\<lparr>world := w, glEpcsCommand := c\<rparr>" using rd(4) by blast
    obtain bytes where bytes: "r = Some bytes"
      using read_succeeds [OF less.prems(2) span(1) top] r by auto
    let ?u = "set_verified (of_nat (offset + span)) (t\<lparr>glUpdateReadback := blit (glUpdateReadback t) 0 bytes,
      glUpdateMediumHash := sha_256_write (glUpdateMediumHash t) bytes\<rparr>)"
    have eq: "verify_epcs_loop P len (offset + span) (updateCrc32Update crc bytes) ?u = (ok, crc', s')"
      using less.prems(1) True r bytes
      unfolding verify_epcs_loop.simps [of P len offset crc s] Let_def span_def by simp
    have "good ?u" by (rule good_driver [OF rd(1)]) (simp_all add: set_verified_def)
    moreover have "unat (updateEpcsTargetBase (st_target (glUpdateState ?u))) + unat len \<le> 0x800000"
      using less.prems(3) by (simp add: set_verified_def t)
    ultimately show ?thesis by (intro less.hyps [OF _ eq]) (use span True in linarith)
  qed
qed

lemma commit_succeeds:
  fixes s :: "('w, 'z) agent_scheme"
  assumes "good s" and "length (glUpdateBootBlock s) = 24" and "length (glUpdateReadback s) = 512"
  shows "st_phase (glUpdateState (commit_epcs P crc s)) = PHASE_COMPLETE"
proof -
  let ?A = "UPDATE_EPCS_BOOT_BLOCK_ADDRESS"
  let ?bb = "updateBootBlockEncode (glUpdateBootBlock s) UPDATE_EPCS_APPLICATION_ADDRESS
    (st_length (glUpdateState s)) (updateCrc32Final crc)"
  have lbb: "length ?bb = 24" using assms(2) by (simp add: boot_block_layout Let_def)
  let ?s0 = "(set_phase PHASE_WRITING s)\<lparr>glUpdateBootBlock := ?bb\<rparr>"
  have g0: "good ?s0" by (rule good_driver [OF assms(1)]) (simp_all add: set_phase_def)
  have a: "unat ?A < 0x800000" "unat ?A mod 65536 = 0" by simp_all
  obtain s1 where e: "epcsFlashEraseSector P ?A ?s0 = (True, s1)"
    using erase_succeeds [OF g0 a(1)] by (metis prod.collapse)
  note er = erase [OF g0 a(1) e]
  obtain w1 c1 where s1: "s1 = ?s0\<lparr>world := w1, glEpcsCommand := c1\<rparr>"
    using epcs_only_erase [of ?s0 P ?A] unfolding e epcs_only_def by auto
  have d: "take 24 ?bb \<noteq> []" "unat ?A mod 256 + length (take 24 ?bb) \<le> 256" "take 24 ?bb = ?bb"
    using lbb by auto
  have g1: "good s1" using er by blast
  obtain s2 where p: "epcsFlashProgramPage P ?A (take 24 ?bb) s1 = (True, s2)"
    using program_succeeds [OF g1 a(1) d(1,2)] by (metis prod.collapse)
  note pr = program [OF g1 a(1) d(1,2) p]
  obtain w2 c2 where s2: "s2 = s1\<lparr>world := w2, glEpcsCommand := c2\<rparr>"
    using epcs_only_program [of s1 P ?A "take 24 ?bb"] unfolding p epcs_only_def by auto
  let ?s3 = "set_phase PHASE_VERIFYING s2"
  have g2: "good s2" using pr by blast
  have g3: "good ?s3" by (rule good_driver [OF g2]) (simp_all add: set_phase_def)
  have n: "(0 :: nat) < 24" "unat ?A + 24 \<le> 0x800000" by simp_all
  obtain bytes s4 where q: "epcsFlashRead P ?A UPDATE_BOOT_BLOCK_LENGTH ?s3 = (Some bytes, s4)"
    using read_succeeds [OF g3 n] by (metis option.exhaust prod.collapse)
  note rd = read_slice [OF g3 n q]
  obtain w4 c4 where s4: "s4 = ?s3\<lparr>world := w4, glEpcsCommand := c4\<rparr>" using rd(4) by blast
  have "flash (world s2) = patch (flash (world s1)) (unat ?A) (take 24 ?bb)"
  proof -
    have "flash (world s1) = erased_cells (unat ?A) (flash (world ?s0))" using er by blast
    then have "flash (world s1) i = 0xFF" if "unat ?A \<le> i" "i < unat ?A + length (take 24 ?bb)" for i
      using that lbb by (simp add: erased_cells_def)
    moreover have "flash (world s2) = programmed_cells (unat ?A) (take 24 ?bb) (flash (world s1))"
      using pr by blast
    ultimately show ?thesis by (simp only: program_erased)
  qed
  then have "slice (flash (world s2)) (unat ?A) 24 = ?bb"
    using slice_patch_same [of "flash (world s1)" "unat ?A" ?bb] lbb d(3) by simp
  then have b: "bytes = ?bb" using rd(3) by (simp add: set_phase_def)
  let ?t = "s4\<lparr>glUpdateReadback := blit (glUpdateReadback s4) 0 bytes\<rparr>"
  have t: "take 24 (glUpdateReadback ?t) = ?bb" "take 24 (glUpdateBootBlock ?t) = ?bb"
    using take_blit_0 [of bytes "glUpdateReadback s4"] lbb unfolding b
    by (simp_all add: s4 s2 s1 set_phase_def)
  have f: "glUpdateBootBlock (set_phase PHASE_WRITING s) = glUpdateBootBlock s"
    "st_length (glUpdateState (set_phase PHASE_WRITING s)) = st_length (glUpdateState s)"
    "glUpdateBootBlock ?s0 = ?bb"
    by (simp_all add: set_phase_def)
  have "commit_epcs P crc s = complete_update (st_length (glUpdateState ?t)) ?t"
    unfolding commit_epcs_def Let_def f
    by (simp only: all_ok.simps e p q prod.case option.case t if_True if_False simp_thms)
  then show ?thesis by simp
qed

lemma verify_succeeds:
  fixes s :: "('w, 'z) agent_scheme"
  assumes "received_epcs flash img s" and "st_phase (glUpdateState s) = PHASE_VERIFYING" and "good s"
    and "unat (st_length (glUpdateState s)) = length img"
    and "sha256 img = st_digest (glUpdateState s)"
    and "length (glUpdateReadback s) = 512" and "length (glUpdateBootBlock s) = 24"
    and "length (sh_chunk (glUpdateMediumHash s)) = 64"
  shows "st_phase (glUpdateState (updateAgentVerify P s)) = PHASE_COMPLETE"
proof -
  let ?st = "glUpdateState s" and ?m = "flash (world s)"
  let ?b = "updateEpcsTargetBase (st_target ?st)" and ?len = "st_length ?st"
  have inv: "updateTargetIsEpcs (st_target ?st)" "transfer_ok ?st" "slice ?m (unat ?b) (length img) = img"
    using assms(1) by (simp_all add: received_epcs_def)
  have region: "unat ?b + unat ?len \<le> 0x800000"
    using inv(1,2) by (auto simp: updateTargetIsEpcs_def transfer_ok_def admissible_length_def)
  let ?h = "sha_256_init (glUpdateMediumHash s)"
  let ?t = "s\<lparr>glUpdateVerifyPending := False, glUpdateMediumHash := ?h\<rparr>"
  have gt: "good ?t" by (rule good_driver [OF assms(3)]) simp_all
  have rt: "unat (updateEpcsTargetBase (st_target (glUpdateState ?t))) + unat ?len \<le> 0x800000"
    using region by simp
  obtain ok crc u where v: "verify_epcs_loop P ?len 0 UPDATE_CRC32_INITIAL ?t = (ok, crc, u)"
    by (metis prod_cases3)
  have ok: ok by (rule verify_loop_succeeds [OF v gt rt])
  have h: "absorbed ?h []" using assms(8) by (rule sha.init_holds)
  have loop: "good u \<and> length (glUpdateReadback u) = 512 \<and> length (glUpdateBootBlock u) = 24
    \<and> (\<exists>x. glUpdateState u = ?st\<lparr>st_verified := x\<rparr>)
    \<and> absorbed (glUpdateMediumHash u) (slice ?m (unat ?b) (unat ?len))"
    using verify_loop [OF v gt] region assms(6,7) h ok by auto
  have dig: "sha_256_close (glUpdateMediumHash u) = st_digest ?st"
    using loop inv(3) assms(4,5) by (metis sha.close_digest)
  let ?c = "u\<lparr>glUpdateMediumDigest := sha_256_close (glUpdateMediumHash u)\<rparr>"
  have st: "st_target (glUpdateState ?c) = st_target ?st" "st_digest (glUpdateState ?c) = st_digest ?st"
  proof -
    obtain x where "glUpdateState u = ?st\<lparr>st_verified := x\<rparr>" using loop by blast
    then show "st_target (glUpdateState ?c) = st_target ?st"
      "st_digest (glUpdateState ?c) = st_digest ?st" by simp_all
  qed
  have same: "\<not> digests_differ (glUpdateMediumDigest ?c) (st_digest (glUpdateState ?c))"
    unfolding st(2) using dig by (simp add: digests_differ_def)
  have fin: "updateAgentVerify P s = (if st_target ?st = UPDATE_TARGET_EPCS_FACTORY
      then complete_update (st_length (glUpdateState ?c)) ?c else commit_epcs P crc ?c)"
    using assms(2) inv(1) v ok same st(1)
    by (simp add: updateAgentVerify_def updateAgentVerifyEpcs_def Let_def)
  have gu: "good u" using loop by blast
  have "good ?c" by (rule good_driver [OF gu]) simp_all
  moreover have "length (glUpdateBootBlock ?c) = 24" "length (glUpdateReadback ?c) = 512"
    using loop by simp_all
  ultimately show ?thesis unfolding fin using commit_succeeds by simp
qed

lemma data_succeeds:
  fixes s :: "('w, 'z) agent_scheme"
  assumes "received_epcs flash m s" and "good s"
    and "updateChunkIsAllowed (glUpdateState s) t i (of_nat (length data)) = ERROR_NONE"
    and "length data \<le> 2048"
    and "length m + length data \<le> unat (st_length (glUpdateState s))"
  shows "fst (updateAgentData P t i data s)"
proof -
  let ?st = "glUpdateState s"
  have t: "updateTargetIsEpcs (st_target ?st)" "st_target ?st \<noteq> UPDATE_TARGET_EEPROM"
    "transfer_ok ?st" "unat (st_received ?st) = length m"
    using assms(1) by (auto simp: received_epcs_def updateTargetIsEpcs_def)
  let ?s1 = "s\<lparr>glUpdateStreamHash := sha_256_write (glUpdateStreamHash s) data\<rparr>"
  have "good ?s1" by (rule good_driver [OF assms(2)]) simp_all
  moreover have "unat (updateEpcsTargetBase (st_target (glUpdateState ?s1)))
      + unat (st_received (glUpdateState ?s1)) + length data \<le> 0x800000"
    using t(1,3,4) assms(5)
    by (auto simp: updateTargetIsEpcs_def transfer_ok_def admissible_length_def)
  ultimately have "fst (data_epcs_loop P data 0 ?s1)"
    using data_loop_succeeds [OF _ assms(4)] by (metis prod.collapse)
  then show ?thesis
    using assms(3) t(1,2)
    by (simp add: updateAgentData_def updateAgentDataEpcs_def Let_def case_prod_beta)
qed

lemma send_received:
  fixes s :: "('w, 'z) agent_scheme"
  assumes "received_epcs flash m s" and "good s" and "st_phase (glUpdateState s) = PHASE_RECEIVING"
    and "unat (st_length (glUpdateState s)) = length m + length (concat cs)"
    and "st_nextChunk (glUpdateState s) = i" and "chunks_ok 256 cs"
    and "st_target (glUpdateState s) = t"
  shows "\<exists>s'. send_chunks P t i cs s = (True, s')
    \<and> received_epcs flash (m @ concat cs) s' \<and> good s'
    \<and> (\<forall>k. k < unat (updateEpcsTargetBase t)
          \<or> unat (updateEpcsTargetBase t) + unat (updateEpcsTargetCapacity t) \<le> k
          \<longrightarrow> flash (world s') k = flash (world s) k)
    \<and> st_phase (glUpdateState s') = PHASE_RECEIVING \<and> st_target (glUpdateState s') = t
    \<and> st_length (glUpdateState s') = st_length (glUpdateState s)
    \<and> st_digest (glUpdateState s') = st_digest (glUpdateState s)
    \<and> glUpdateReadback s' = glUpdateReadback s \<and> glUpdateMediumHash s' = glUpdateMediumHash s
    \<and> glUpdateBootBlock s' = glUpdateBootBlock s"
  using assms
proof (induction cs arbitrary: m s i)
  case Nil
  then show ?case by simp
next
  case (Cons c cs)
  let ?st = "glUpdateState s"
  have inv: "updateTargetIsEpcs (st_target ?st)" "transfer_ok ?st" "unat (st_received ?st) = length m"
    using Cons.prems(1) by (simp_all add: received_epcs_def)
  have c: "c \<noteq> []" "length c \<le> 2048" "cs = [] \<or> 256 dvd length c" "chunks_ok 256 cs"
    using Cons.prems(6) by simp_all
  have l16: "unat (of_nat (length c) :: u16) = length c" using c(2) by (simp add: unat_of_nat_u16)
  have pg: "unat (updateTargetPageSize (st_target ?st)) = 256"
    using inv(1) by (auto simp: updateTargetIsEpcs_def)
  have "unat (st_received ?st) \<le> unat (st_length ?st)" using inv(3) Cons.prems(4) by simp
  then have al: "updateChunkIsAllowed ?st (st_target ?st) i (of_nat (length c)) = ERROR_NONE"
    using inv Cons.prems(3-5) c by (auto simp: chunk_allowed_iff l16 pg)
  have fit: "length m + length c \<le> unat (st_length ?st)" using Cons.prems(4) by simp
  obtain s1 where d: "updateAgentData P (st_target ?st) i c s = (True, s1)"
    using data_succeeds [OF Cons.prems(1,2) al c(2) fit] by (metis prod.collapse)
  have "length c < 65536" using c(2) by simp
  note r = data_received [OF Cons.prems(1,2) al this d]
  have s1: "received_epcs flash (m @ c) s1" "good s1" "st_phase (glUpdateState s1) = PHASE_RECEIVING"
    "unat (st_length (glUpdateState s1)) = length (m @ c) + length (concat cs)"
    "st_nextChunk (glUpdateState s1) = i + 1" "st_target (glUpdateState s1) = t"
    using r Cons.prems(4,5,7) c(1) by simp_all
  show ?case using Cons.IH [OF s1(1-5) c(4) s1(6)] d r Cons.prems(7) by auto
qed

text \<open>The ends of an update: what BEGIN leaves behind, and what the verification of a whole image does.\<close>

lemma begin_succeeds:
  fixes s :: "('w, 'z) agent_scheme"
  assumes "good s" and "\<not> updateIsInProgress (glUpdateState s)" and "length (sh_chunk (glUpdateStreamHash s)) = 64"
    and "updateTargetIsEpcs t" and "256 \<le> length img" and "length img \<le> unat (updateEpcsTargetCapacity t)"
    and "flags = (if t = UPDATE_TARGET_EPCS_FACTORY then UPDATE_FLAG_FACTORY_WRITE else UPDATE_FLAGS_NONE)"
  shows "\<exists>s'. updateAgentBegin P t (begin_packet (of_nat (length img)) (sha256 img) flags) 40 False s = (True, s')
    \<and> good s' \<and> received_epcs flash [] s' \<and> flash (world s') = flash (world s)
    \<and> st_phase (glUpdateState s') = PHASE_RECEIVING \<and> st_target (glUpdateState s') = t
    \<and> st_length (glUpdateState s') = of_nat (length img) \<and> st_digest (glUpdateState s') = sha256 img
    \<and> st_nextChunk (glUpdateState s') = 0 \<and> glUpdateVerifyPending s' = glUpdateVerifyPending s
    \<and> glUpdateReadback s' = glUpdateReadback s \<and> glUpdateMediumHash s' = glUpdateMediumHash s
    \<and> glUpdateBootBlock s' = glUpdateBootBlock s"
proof -
  let ?len = "of_nat (length img) :: u32"
  let ?b = "updateEpcsTargetBase t"
  have t: "t = 1 \<or> t = 2" using assms(4) by (auto simp: updateTargetIsEpcs_def)
  have len: "unat ?len = length img" using t assms(6) by (intro unat_of_nat_u32) auto
  let ?h = "\<lparr>bg_length = ?len, bg_digest = sha256 img, bg_flags = flags\<rparr>"
  have dec: "updateBeginDecode (begin_packet ?len (sha256 img) flags) 40 = Some ?h"
    by (rule begin_packet_decodes) (simp_all add: assms(7))
  have adm: "admissible_length t ?len"
    using assms(5,6) len t by (auto simp: admissible_length_def)
  have al: "updateBeginIsAllowed (glUpdateState s) t ?len flags False = ERROR_NONE"
    unfolding begin_allowed_iff using assms(2,7) adm by simp
  obtain siliconId sI where idn: "epcsFlashIdentify P s = (True, siliconId, sI)" "good sI"
    "flash (world sI) = flash (world s)" "0x800000 \<le> updateEpcsCapacity siliconId"
    using identify_succeeds [OF assms(1)] by blast
  have "epcs_only s sI" using epcs_only_identify [of s P] idn(1) by simp
  then obtain w c where sI: "sI = s\<lparr>world := w, glEpcsCommand := c\<rparr>"
    by (auto simp: epcs_only_def)
  have use: "updateEpcsDeviceIsUsable siliconId ?b ?len"
  proof -
    have cap: "0x800000 \<le> unat (updateEpcsCapacity siliconId)"
      using idn(4) by (simp add: u32_le_iff)
    have fit: "unat ?b + length img \<le> 0x800000" using t assms(6) by auto
    then have "?b \<le> updateEpcsCapacity siliconId" using cap by (simp add: u32_le_iff)
    moreover from this have "?len \<le> updateEpcsCapacity siliconId - ?b"
      using cap fit len by (simp add: u32_le_iff unat_minus_le)
    moreover have "updateEpcsCapacity siliconId \<noteq> 0" using cap by auto
    ultimately show ?thesis by (simp add: updateEpcsDeviceIsUsable_def Let_def not_less)
  qed
  have ready: "updateAgentMediumIsReady P t ?len s = (ERROR_NONE, sI)"
    using idn(1) bridge [OF assms(1)] use t by (auto simp: updateAgentMediumIsReady_def)
  let ?s0 = "sI\<lparr>glUpdateState := (updateStateReset (glUpdateState sI))\<lparr>
      st_phase := PHASE_RECEIVING, st_target := t, st_length := ?len, st_digest := sha256 img\<rparr>,
    glUpdateFirstPage := replicate 64 0, glUpdateStreamHash := sha_256_init (glUpdateStreamHash sI)\<rparr>"
  have bg: "updateAgentBegin P t (begin_packet ?len (sha256 img) flags) 40 False s = (True, ?s0)"
    using al by (simp add: updateAgentBegin_def dec ready)
  have g0: "good ?s0" by (rule good_driver [OF idn(2)]) simp_all
  have bl: "blank_from (unat ?b) m" for m
  proof -
    have "sector_end (unat ?b) = unat ?b"
      using t sector_end_split(1) [of 32] sector_end_split(1) [of 0] by auto
    then show ?thesis by (simp add: blank_from_def)
  qed
  have "received_epcs flash [] ?s0"
    using adm assms(4) sha.init_holds [of "glUpdateStreamHash sI"] assms(3) bl
    by (simp add: received_epcs_def transfer_ok_def updateStateReset_def sI)
  then show ?thesis using bg g0 idn(3) by (intro exI [of _ ?s0]) (simp add: updateStateReset_def sI)
qed

lemma verified_image:
  fixes s :: "('w, 'z) agent_scheme"
  assumes "received_epcs flash img s" and "st_phase (glUpdateState s) = PHASE_VERIFYING" and "good s"
    and "unat (st_length (glUpdateState s)) = length img" and "st_digest (glUpdateState s) = sha256 img"
    and "length (glUpdateReadback s) = 512" and "length (glUpdateBootBlock s) = 24"
    and "length (sh_chunk (glUpdateMediumHash s)) = 64" and "st_target (glUpdateState s) = t"
  shows "st_phase (glUpdateState (updateAgentVerify P s)) = PHASE_COMPLETE"
    and "slice (flash (world (updateAgentVerify P s))) (unat (updateEpcsTargetBase t)) (length img) = img"
    and "t = UPDATE_TARGET_EPCS \<Longrightarrow> boot_enters_application (flash (world (updateAgentVerify P s)))"
    and "k < 0x100000 \<or> 0x110000 \<le> k \<Longrightarrow> flash (world (updateAgentVerify P s)) k = flash (world s) k"
proof -
  let ?f = "flash (world (updateAgentVerify P s))" and ?b = "updateEpcsTargetBase t"
  have inv: "updateTargetIsEpcs (st_target (glUpdateState s))"
    "admissible_length (st_target (glUpdateState s)) (st_length (glUpdateState s))"
    "slice (flash (world s)) (unat ?b) (length img) = img"
    using assms(1,9) by (auto simp: received_epcs_def transfer_ok_def)
  have t: "t = 1 \<or> t = 2" using inv(1) assms(9) by (auto simp: updateTargetIsEpcs_def)
  have fit: "unat ?b + length img \<le> 0x100000 \<or> 0x110000 \<le> unat ?b"
    using t inv(2) assms(4,9) by (auto simp: admissible_length_def)
  show c: "st_phase (glUpdateState (updateAgentVerify P s)) = PHASE_COMPLETE"
    by (rule verify_succeeds [OF assms(1-4) assms(5) [symmetric] assms(6-8)])
  have "length (st_digest (glUpdateState s)) = 32" by (simp add: assms(5))
  note v = verify_complete [OF c assms(2) inv(1) assms(3) inv(2) assms(6-8) this]
  show "t = UPDATE_TARGET_EPCS \<Longrightarrow> boot_enters_application ?f" using v(2) assms(9) by simp
  show far: "?f k = flash (world s) k" if "k < 0x100000 \<or> 0x110000 \<le> k" for k using v(3) [OF that] .
  have "slice ?f (unat ?b) (length img) = slice (flash (world s)) (unat ?b) (length img)"
    using far fit by (intro slice_cong) auto
  then show "slice ?f (unat ?b) (length img) = img" using inv(3) by simp
qed

text \<open>A whole update over an idle agent.\<close>

lemma session_succeeds:
  fixes s :: "('w, 'z) agent_scheme"
  assumes "good s" and "\<not> updateIsInProgress (glUpdateState s)"
    and "length (glUpdateReadback s) = 512" and "length (glUpdateBootBlock s) = 24"
    and "length (sh_chunk (glUpdateStreamHash s)) = 64"
    and "length (sh_chunk (glUpdateMediumHash s)) = 64"
    and "chunks_ok 256 chunks" and "concat chunks = img" and "updateTargetIsEpcs t"
    and "256 \<le> length img" and "length img \<le> unat (updateEpcsTargetCapacity t)"
    and "flags = (if t = UPDATE_TARGET_EPCS_FACTORY then UPDATE_FLAG_FACTORY_WRITE else UPDATE_FLAGS_NONE)"
  shows "let s' = update_session P t flags (sha256 img) chunks s
    in st_phase (glUpdateState s') = PHASE_COMPLETE
      \<and> slice (flash (world s')) (unat (updateEpcsTargetBase t)) (length img) = img
      \<and> (t = UPDATE_TARGET_EPCS \<longrightarrow> boot_enters_application (flash (world s')))
      \<and> (\<forall>k. k < unat (updateEpcsTargetBase t)
            \<or> unat (updateEpcsTargetBase t) + unat (updateEpcsTargetCapacity t) \<le> k
          \<longrightarrow> k < 0x100000 \<or> 0x110000 \<le> k \<longrightarrow> flash (world s') k = flash (world s) k)"
proof -
  let ?len = "of_nat (length img) :: u32" and ?b = "updateEpcsTargetBase t"
  have len: "unat ?len = length img"
    using assms(9,11) by (intro unat_of_nat_u32) (auto simp: updateTargetIsEpcs_def)
  obtain s0 where bg: "updateAgentBegin P t (begin_packet ?len (sha256 img) flags) 40 False s = (True, s0)"
    and s0: "received_epcs flash [] s0" "good s0" "st_phase (glUpdateState s0) = PHASE_RECEIVING"
      "st_nextChunk (glUpdateState s0) = 0" "st_target (glUpdateState s0) = t" "flash (world s0) = flash (world s)"
      "st_length (glUpdateState s0) = ?len" "st_digest (glUpdateState s0) = sha256 img"
      "glUpdateReadback s0 = glUpdateReadback s" "glUpdateMediumHash s0 = glUpdateMediumHash s"
      "glUpdateBootBlock s0 = glUpdateBootBlock s"
    using begin_succeeds [OF assms(1,2,5,9-12)] by blast
  have "unat (st_length (glUpdateState s0)) = length ([] :: byte list) + length (concat chunks)"
    using s0(7) assms(8) len by simp
  from send_received [OF s0(1-3) this s0(4) assms(7) s0(5)]
  obtain s1 where s1: "send_chunks P t 0 chunks s0 = (True, s1)"
    "received_epcs flash img s1" "good s1" "st_phase (glUpdateState s1) = PHASE_RECEIVING"
    "st_target (glUpdateState s1) = t"
    "st_length (glUpdateState s1) = ?len" "st_digest (glUpdateState s1) = sha256 img"
    "length (glUpdateReadback s1) = 512" "length (sh_chunk (glUpdateMediumHash s1)) = 64"
    "length (glUpdateBootBlock s1) = 24"
    and far: "\<forall>k. k < unat ?b \<or> unat ?b + unat (updateEpcsTargetCapacity t) \<le> k
          \<longrightarrow> flash (world s1) k = flash (world s) k"
    using assms(3,4,6,8) s0 by auto
  let ?s2 = "s1\<lparr>glUpdateStreamDigest := sha256 img,
      glUpdateState := (glUpdateState s1)\<lparr>st_phase := PHASE_VERIFYING, st_verified := 0\<rparr>,
      glUpdateVerifyPending := True\<rparr>"
  have fin: "updateAgentFinish t s1 = (True, ?s2)"
    using finish_accepts [OF _ s1(7) [symmetric] s1(4)] s1(2,5,6) len
    by (simp add: received_epcs_def u32_eq_iff)
  have g2: "good ?s2" by (rule good_driver [OF s1(3)]) simp_all
  have "transfer_ok (glUpdateState ?s2) = transfer_ok (glUpdateState s1)" by (simp add: transfer_ok_def)
  then have r2: "received_epcs flash img ?s2" using s1(2) by (simp add: received_epcs_def)
  have final: "update_session P t flags (sha256 img) chunks s = updateAgentVerify P ?s2"
    unfolding update_session_def assms(8) Let_def bg prod.case s1(1) fin by simp
  have pre: "st_phase (glUpdateState ?s2) = PHASE_VERIFYING" "unat (st_length (glUpdateState ?s2)) = length img"
    "st_digest (glUpdateState ?s2) = sha256 img" "length (glUpdateReadback ?s2) = 512"
    "length (glUpdateBootBlock ?s2) = 24" "length (sh_chunk (glUpdateMediumHash ?s2)) = 64"
    "st_target (glUpdateState ?s2) = t"
    using s1 len by simp_all
  show ?thesis
    unfolding final Let_def using verified_image [OF r2 pre(1) g2 pre(2-7)] far by simp
qed

end

end
