(* ===== verification/WireMedia.thy ===== *)
theory WireMedia
  imports UpdateWire Media FlashMedium
begin

text \<open>
  The two media on the wire: an EEPROM and a configuration flash that do not fail, and that the
  requests on endpoint 0 and the status LEDs leave alone, fulfil the contract of \<open>UpdateWire\<close>.
\<close>

subsection \<open>Who sets the flag of a pending verification\<close>

lemma pending_fields [simp]:
  "glUpdateVerifyPending (agent_fail e s) = glUpdateVerifyPending s"
  "glUpdateVerifyPending (set_phase ph s) = glUpdateVerifyPending s"
  "glUpdateVerifyPending (set_written n s) = glUpdateVerifyPending s"
  "glUpdateVerifyPending (set_verified n s) = glUpdateVerifyPending s"
  "glUpdateVerifyPending (complete_update n s) = glUpdateVerifyPending s"
  "glUpdateVerifyPending (count_chunk data s) = glUpdateVerifyPending s"
  by (simp_all add: agent_fail_def set_phase_def set_written_def set_verified_def complete_update_def count_chunk_def)

lemma pending_flash [simp]:
  "glUpdateVerifyPending (snd (epcsFlashEraseSector P a s)) = glUpdateVerifyPending s"
  "glUpdateVerifyPending (snd (epcsFlashProgramPage P a d s)) = glUpdateVerifyPending s"
  "glUpdateVerifyPending (snd (epcsFlashRead P a n s)) = glUpdateVerifyPending s"
  using epcs_only_erase [of s P a] epcs_only_program [of s P a d] epcs_only_read [of s P a n]
  by (auto simp: epcs_only_def)

lemma pending_data_epcs [simp]:
  "glUpdateVerifyPending (snd (data_epcs_loop P data consumed s)) = glUpdateVerifyPending s"
proof (induction "length data - consumed" arbitrary: consumed s rule: less_induct)
  case less
  show ?case
    unfolding data_epcs_loop.simps [of P data consumed s]
    by (simp add: Let_def case_prod_beta less.hyps span_progress)
qed

lemma pending_data_eeprom [simp]:
  "glUpdateVerifyPending (snd (data_eeprom_loop P data consumed offset s)) = glUpdateVerifyPending s"
proof (induction "length data - consumed" arbitrary: consumed offset s rule: less_induct)
  case less
  show ?case
    unfolding data_eeprom_loop.simps [of P data consumed offset s]
    by (simp add: Let_def case_prod_beta less.hyps span_progress)
qed

lemma pending_data [simp]: "glUpdateVerifyPending (snd (updateAgentData P t i data s)) = glUpdateVerifyPending s"
  by (simp add: updateAgentData_def updateAgentDataEpcs_def Let_def case_prod_beta)

lemma pending_verify_epcs [simp]:
  "glUpdateVerifyPending (snd (snd (verify_epcs_loop P len offset crc s))) = glUpdateVerifyPending s"
proof (induction "unat len - offset" arbitrary: offset crc s rule: less_induct)
  case less
  show ?case
    unfolding verify_epcs_loop.simps [of P len offset crc s]
    by (auto simp: Let_def case_prod_beta less.hyps split: option.split)
qed

lemma pending_verify_eeprom [simp]:
  "glUpdateVerifyPending (snd (verify_eeprom_loop P len address s)) = glUpdateVerifyPending s"
proof (induction P len address s rule: verify_eeprom_loop.induct)
  case (1 P len address s)
  let ?span = "updateEepromReadSpan address (len - address) UPDATE_READBACK_SIZE"
  obtain status readback w
    where r: "updateEepromRead P address (glUpdateReadback s) (unat ?span) (world s) = (status, readback, w)"
    by (metis prod_cases3)
  show ?case
    unfolding verify_eeprom_loop.simps [of P len address s] using 1 by (simp add: Let_def r)
qed

lemma pending_verify [simp]: "\<not> glUpdateVerifyPending (updateAgentVerify P s)"
proof -
  have c: "glUpdateVerifyPending (commit_epcs P crc u) = glUpdateVerifyPending u"
    "glUpdateVerifyPending (commit_eeprom P u) = glUpdateVerifyPending u" for crc u
    by (simp_all add: commit_epcs_def commit_eeprom_def Let_def case_prod_beta split: option.split)
  show ?thesis
    by (simp add: updateAgentVerify_def updateAgentVerifyEpcs_def updateAgentVerifyEeprom_def
        Let_def case_prod_beta c)
qed

subsection \<open>The EEPROM\<close>

locale eeprom_on_wire = endpoint_wire P offer answer + reliable_eeprom P eeprom
  for P :: "('w, 'p) usb_platform_scheme" and offer :: "byte list \<Rightarrow> 'w \<Rightarrow> 'w" and answer :: "'w \<Rightarrow> byte list"
    and eeprom :: "'w \<Rightarrow> memory" +
  assumes endpoint_apart: "endpoint_call P offer f \<Longrightarrow> eeprom (f w) = eeprom w"
    and leds_apart: "eeprom (world (snd (fpgaRegistersSetLeds P v s))) = eeprom (world (s :: 'w firmware))"

text \<open>A device at rest whose EEPROM answers, and how far it is with the image.\<close>

definition eeprom_ready :: "'w firmware \<Rightarrow> bool" where
  "eeprom_ready s \<longleftrightarrow> glUpdateI2cReady s \<and> \<not> updateIsInProgress (glUpdateState s) \<and> \<not> dataCollectionFlag s
     \<and> \<not> glUpdateVerifyPending s \<and> length (glUpdatePagePad s) = 64 \<and> length (glUpdateReadback s) = 512
     \<and> length (sh_chunk (glUpdateStreamHash s)) = 64 \<and> length (sh_chunk (glUpdateMediumHash s)) = 64"

definition eeprom_transfer :: "('w \<Rightarrow> memory) \<Rightarrow> byte list \<Rightarrow> nat \<Rightarrow> 'w firmware \<Rightarrow> bool" where
  "eeprom_transfer eeprom img k s \<longleftrightarrow> received_eeprom eeprom (take k img) s
     \<and> unat (st_length (glUpdateState s)) = length img \<and> st_digest (glUpdateState s) = sha256 img
     \<and> length (glUpdateReadback s) = 512 \<and> length (sh_chunk (glUpdateMediumHash s)) = 64"

definition eeprom_taking :: "('w \<Rightarrow> memory) \<Rightarrow> byte list \<Rightarrow> nat \<Rightarrow> 'w firmware \<Rightarrow> bool" where
  "eeprom_taking eeprom img k s \<longleftrightarrow> eeprom_transfer eeprom img k s
     \<and> st_phase (glUpdateState s) = PHASE_RECEIVING \<and> \<not> glUpdateVerifyPending s"

definition eeprom_taken :: "('w \<Rightarrow> memory) \<Rightarrow> byte list \<Rightarrow> 'w firmware \<Rightarrow> bool" where
  "eeprom_taken eeprom img s \<longleftrightarrow> eeprom_transfer eeprom img (length img) s
     \<and> st_phase (glUpdateState s) = PHASE_VERIFYING \<and> glUpdateVerifyPending s"

definition eeprom_holds :: "('w \<Rightarrow> memory) \<Rightarrow> byte list \<Rightarrow> 'w firmware \<Rightarrow> bool" where
  "eeprom_holds eeprom img s \<longleftrightarrow> st_phase (glUpdateState s) = PHASE_COMPLETE \<and> \<not> glUpdateVerifyPending s
     \<and> slice (eeprom (world s)) 0 (length img) = img"

lemmas eeprom_stages = eeprom_ready_def eeprom_transfer_def eeprom_taking_def eeprom_taken_def eeprom_holds_def
  received_eeprom_def

lemma leds_only:
  fixes s :: "'w firmware"
  shows "\<exists>w. snd (fpgaRegistersSetLeds P v s) = s\<lparr>world := w\<rparr>"
  using world_only_access(2) [of s P FPGA_REGISTER_LED v] world_only_refl [of s]
  unfolding fpgaRegistersSetLeds_def world_only_def by auto

definition eeprom_image :: "byte list \<Rightarrow> bool" where
  "eeprom_image img \<longleftrightarrow> 128 \<le> length img \<and> length img \<le> 0x40000
     \<and> take 2 img = [UPDATE_IMAGE_SIGNATURE_0, UPDATE_IMAGE_SIGNATURE_1]"

context eeprom_on_wire
begin

lemma eeprom_begin:
  assumes "eeprom_ready s" and "eeprom_image img"
  shows "\<exists>s'. updateAgentBegin P 0 (begin_packet (of_nat (length img)) (sha256 img) UPDATE_FLAGS_NONE) 40
      (dataCollectionFlag s) s = (True, s') \<and> eeprom_taking eeprom img 0 s' \<and> st_nextChunk (glUpdateState s') = 0"
proof -
  let ?len = "of_nat (length img) :: u32"
  have img: "128 \<le> length img" "length img \<le> 0x40000" using assms(2) by (simp_all add: eeprom_image_def)
  have len: "unat ?len = length img" using img(2) by (intro unat_of_nat_u32) simp
  let ?b = "\<lparr>bg_length = ?len, bg_digest = sha256 img, bg_flags = UPDATE_FLAGS_NONE\<rparr>"
  have dec: "updateBeginDecode (begin_packet ?len (sha256 img) UPDATE_FLAGS_NONE) 40 = Some ?b"
    by (rule begin_packet_decodes) simp_all
  have adm: "admissible_length 0 ?len" using img len by (simp add: admissible_length_def)
  have al: "updateBeginIsAllowed (glUpdateState s) 0 ?len UPDATE_FLAGS_NONE False = ERROR_NONE"
    unfolding begin_allowed_iff using assms(1) adm by (simp add: eeprom_ready_def)
  let ?s0 = "s\<lparr>glUpdateState := (updateStateReset (glUpdateState s))\<lparr>
      st_phase := PHASE_RECEIVING, st_target := 0, st_length := ?len, st_digest := sha256 img\<rparr>,
    glUpdateFirstPage := replicate 64 0, glUpdateStreamHash := sha_256_init (glUpdateStreamHash s)\<rparr>"
  have bg: "updateAgentBegin P 0 (begin_packet ?len (sha256 img) UPDATE_FLAGS_NONE) 40 False s = (True, ?s0)"
    using al assms(1) by (simp add: updateAgentBegin_def dec updateAgentMediumIsReady_def eeprom_ready_def)
  have "eeprom_taking eeprom img 0 ?s0"
    using adm assms(1) len sha.init_holds [of "glUpdateStreamHash s"]
    by (simp add: eeprom_stages transfer_ok_def updateStateReset_def)
  then show ?thesis using bg assms(1) by (simp add: eeprom_ready_def updateStateReset_def)
qed

lemma eeprom_chunk:
  assumes "eeprom_taking eeprom img k s" and "eeprom_image img" and "c \<noteq> []" and "length c \<le> 2048"
    and "take (length c) (drop k img) = c" and "k + length c = length img \<or> 256 dvd length c" and "k + length c \<le> length img"
  shows "updateChunkIsAllowed (glUpdateState s) 0 (st_nextChunk (glUpdateState s)) (of_nat (length c)) = ERROR_NONE
    \<and> (\<exists>s'. updateAgentData P 0 (st_nextChunk (glUpdateState s)) c s = (True, s')
         \<and> eeprom_taking eeprom img (k + length c) s' \<and> st_nextChunk (glUpdateState s') = st_nextChunk (glUpdateState s) + 1)"
proof -
  let ?st = "glUpdateState s" and ?i = "st_nextChunk (glUpdateState s)"
  have r: "received_eeprom eeprom (take k img) s" using assms(1) by (simp add: eeprom_taking_def eeprom_transfer_def)
  have img: "128 \<le> length img" "take 2 img = [UPDATE_IMAGE_SIGNATURE_0, UPDATE_IMAGE_SIGNATURE_1]"
    using assms(2) by (simp_all add: eeprom_image_def)
  have k: "k \<le> length img" "k < length img" using assms(3,7) by (auto simp: less_le)
  have st: "st_target ?st = 0" "transfer_ok ?st" "unat (st_received ?st) = k" "unat (st_length ?st) = length img"
    "st_phase ?st = PHASE_RECEIVING"
    using assms(1) k by (simp_all add: eeprom_stages)
  have l16: "unat (of_nat (length c) :: u16) = length c" using assms(4) by (simp add: unat_of_nat_u16)
  have pg: "64 dvd length c" if "256 dvd length c" using that by (rule dvd_trans [rotated]) simp
  have al: "updateChunkIsAllowed ?st 0 ?i (of_nat (length c)) = ERROR_NONE"
    using st k assms(3,4,6,7) pg by (auto simp: chunk_allowed_iff l16)
  have pl: "st_received ?st = 0 \<longrightarrow> updateImageIsPlausible c (ucast (of_nat (length c) :: u16)) (st_length ?st)"
  proof
    assume "st_received ?st = 0"
    then have "k = 0" using st(3) by simp
    then have c: "c = take (length c) img" using assms(5) by simp
    have adm: "128 \<le> unat (st_length ?st)" "unat (st_length ?st) \<le> 262144"
      using st(1,2) by (simp_all add: transfer_ok_def admissible_length_def)
    have "64 \<le> length c"
      using assms(3,6) img(1) \<open>k = 0\<close> dvd_imp_le [of 256 "length c"] by auto
    then have "take 2 c = take 2 img" by (subst c) (simp add: min_def)
    moreover obtain x y r where "c = x # y # r" using \<open>64 \<le> length c\<close> by (cases c; cases "tl c") auto
    ultimately show "updateImageIsPlausible c (ucast (of_nat (length c) :: u16)) (st_length ?st)"
      using img(2) adm \<open>64 \<le> length c\<close> l16
      by (simp add: updateImageIsPlausible_def u32_less_iff not_less)
  qed
  obtain s' where d: "updateAgentData P 0 ?i c s = (True, s')"
    using data_succeeds [OF r al pl assms(4)] by (metis prod.collapse)
  have "length c < 65536" using assms(4) by simp
  note got = data_received [OF r al pl this d]
  have "take k img @ c = take (k + length c) img"
    unfolding take_add using assms(5) by simp
  moreover have "glUpdateVerifyPending s' = glUpdateVerifyPending s"
    using pending_data [of P 0 ?i c s] d by simp
  ultimately have "eeprom_taking eeprom img (k + length c) s'"
    using got assms(1) by (simp add: eeprom_taking_def eeprom_transfer_def)
  then show ?thesis using al d got by blast
qed

lemma eeprom_finish:
  assumes "eeprom_taking eeprom img (length img) s"
  shows "\<exists>s'. updateAgentFinish 0 s = (True, s') \<and> eeprom_taken eeprom img s'"
proof -
  have r: "absorbed (glUpdateStreamHash s) img" "st_received (glUpdateState s) = st_length (glUpdateState s)"
    "st_target (glUpdateState s) = 0" "st_phase (glUpdateState s) = PHASE_RECEIVING"
    "sha256 img = st_digest (glUpdateState s)"
    using assms by (auto simp: eeprom_stages u32_eq_iff)
  let ?s = "s\<lparr>glUpdateStreamDigest := sha256 img,
      glUpdateState := (glUpdateState s)\<lparr>st_phase := PHASE_VERIFYING, st_verified := 0\<rparr>, glUpdateVerifyPending := True\<rparr>"
  have "transfer_ok (glUpdateState ?s) = transfer_ok (glUpdateState s)" by (simp add: transfer_ok_def)
  then have "eeprom_taken eeprom img ?s" using assms by (simp add: eeprom_stages)
  then show ?thesis using finish_accepts [OF r(1,5,4,2)] r(3) by auto
qed

lemma eeprom_verified:
  assumes "eeprom_taken eeprom img s"
  shows "eeprom_holds eeprom img (run_verification P s)"
proof -
  obtain u where u: "eeprom_taken eeprom img u"
    and run: "run_verification P s = (updateAgentVerify P u)\<lparr>ledPatternShown := 0\<rparr>"
  proof (cases "glFpgaPresent s")
    case True
    let ?u = "snd (fpgaRegistersSetLeds P FPGA_LED_UPDATING s)"
    obtain w where w: "?u = s\<lparr>world := w\<rparr>" using leds_only [of P FPGA_LED_UPDATING s] by (rule exE)
    have "eeprom w = eeprom (world s)" using leds_apart [of FPGA_LED_UPDATING s] by (simp add: w)
    then have "eeprom_taken eeprom img ?u" using assms by (simp add: w eeprom_stages)
    then show ?thesis using assms True
      by (intro that) (auto simp: run_verification_def announce_update_def fpgaRegistersPresent_def updateAgentVerifyPending_def eeprom_taken_def)
  next
    case False
    then show ?thesis using assms
      by (intro that) (auto simp: run_verification_def announce_update_def fpgaRegistersPresent_def updateAgentVerifyPending_def eeprom_taken_def)
  qed
  have "st_phase (glUpdateState (updateAgentVerify P u)) = PHASE_COMPLETE
      \<and> slice (eeprom (world (updateAgentVerify P u))) 0 (length img) = img"
    by (rule verify_succeeds) (use u in \<open>auto simp: eeprom_taken_def eeprom_transfer_def\<close>)
  then show ?thesis by (simp add: run eeprom_holds_def)
qed

lemma eeprom_medium:
  assumes "eeprom_image img"
  shows "update_medium P offer answer kTargetFirmware img eeprom_ready (eeprom_taken eeprom img)
    (eeprom_holds eeprom img) (eeprom_taking eeprom img)"
proof (unfold_locales, goal_cases)
  case (1 s)
  then show ?case using eeprom_begin [OF 1 assms] by (simp add: TargetFlags_def)
next
  case (2 k s c)
  then show ?case using eeprom_chunk [OF 2(1) assms 2(2-6)] by simp
next
  case (3 s)
  then show ?case using eeprom_finish by simp
next
  case (4 s)
  then show ?case by (rule eeprom_verified)
next
  case (9 f X s)
  then have "eeprom (f (world s)) = eeprom (world s)" by (intro endpoint_apart)
  then show ?case using 9(2,3) by (auto simp: effect_def eeprom_stages)
qed (auto simp: eeprom_stages)

end

subsection \<open>The configuration flash\<close>

locale flash_on_wire = endpoint_wire P offer answer + reliable_flash P good flash
  for P :: "('w, 'p) usb_platform_scheme" and offer :: "byte list \<Rightarrow> 'w \<Rightarrow> 'w" and answer :: "'w \<Rightarrow> byte list"
    and good :: "'w firmware \<Rightarrow> bool" and flash :: "'w \<Rightarrow> memory" +
  assumes endpoint_apart: "endpoint_call P offer f \<Longrightarrow> flash (f w) = flash w"
      "endpoint_call P offer f \<Longrightarrow> good s \<Longrightarrow> good (s\<lparr>world := f (world s)\<rparr>)"
    and leds_apart: "good s \<Longrightarrow> good (snd (fpgaRegistersSetLeds P v s))
      \<and> flash (world (snd (fpgaRegistersSetLeds P v s))) = flash (world s)"

text \<open>
  A device at rest behind a gateware with the flash bridge, and how far it is with the image:
  \<open>m0\<close> is what the flash held before.
\<close>

abbreviation target_code :: "UpdateTarget \<Rightarrow> byte" where
  "target_code t \<equiv> ucast (TargetIndex t)"

definition beyond_region :: "UpdateTarget \<Rightarrow> nat \<Rightarrow> bool" where
  "beyond_region t k \<longleftrightarrow> (k < unat (updateEpcsTargetBase (target_code t))
     \<or> unat (updateEpcsTargetBase (target_code t)) + unat (updateEpcsTargetCapacity (target_code t)) \<le> k)
     \<and> (k < 0x100000 \<or> 0x110000 \<le> k)"

definition flash_ready :: "('w firmware \<Rightarrow> bool) \<Rightarrow> ('w \<Rightarrow> memory) \<Rightarrow> memory \<Rightarrow> 'w firmware \<Rightarrow> bool" where
  "flash_ready good flash m0 s \<longleftrightarrow> good s \<and> flash (world s) = m0 \<and> \<not> updateIsInProgress (glUpdateState s)
     \<and> \<not> dataCollectionFlag s \<and> \<not> glUpdateVerifyPending s
     \<and> length (glUpdateReadback s) = 512 \<and> length (glUpdateBootBlock s) = 24
     \<and> length (sh_chunk (glUpdateStreamHash s)) = 64 \<and> length (sh_chunk (glUpdateMediumHash s)) = 64"

definition flash_transfer ::
    "('w firmware \<Rightarrow> bool) \<Rightarrow> ('w \<Rightarrow> memory) \<Rightarrow> UpdateTarget \<Rightarrow> memory \<Rightarrow> byte list \<Rightarrow> nat \<Rightarrow> 'w firmware \<Rightarrow> bool" where
  "flash_transfer good flash t m0 img k s \<longleftrightarrow> received_epcs flash (take k img) s \<and> good s
     \<and> st_target (glUpdateState s) = target_code t
     \<and> unat (st_length (glUpdateState s)) = length img \<and> st_digest (glUpdateState s) = sha256 img
     \<and> length (glUpdateReadback s) = 512 \<and> length (glUpdateBootBlock s) = 24
     \<and> length (sh_chunk (glUpdateMediumHash s)) = 64
     \<and> (\<forall>i. beyond_region t i \<longrightarrow> flash (world s) i = m0 i)"

definition flash_taking ::
    "('w firmware \<Rightarrow> bool) \<Rightarrow> ('w \<Rightarrow> memory) \<Rightarrow> UpdateTarget \<Rightarrow> memory \<Rightarrow> byte list \<Rightarrow> nat \<Rightarrow> 'w firmware \<Rightarrow> bool" where
  "flash_taking good flash t m0 img k s \<longleftrightarrow> flash_transfer good flash t m0 img k s
     \<and> st_phase (glUpdateState s) = PHASE_RECEIVING \<and> \<not> glUpdateVerifyPending s"

definition flash_taken ::
    "('w firmware \<Rightarrow> bool) \<Rightarrow> ('w \<Rightarrow> memory) \<Rightarrow> UpdateTarget \<Rightarrow> memory \<Rightarrow> byte list \<Rightarrow> 'w firmware \<Rightarrow> bool" where
  "flash_taken good flash t m0 img s \<longleftrightarrow> flash_transfer good flash t m0 img (length img) s
     \<and> st_phase (glUpdateState s) = PHASE_VERIFYING \<and> glUpdateVerifyPending s"

definition flash_written :: "('w \<Rightarrow> memory) \<Rightarrow> UpdateTarget \<Rightarrow> memory \<Rightarrow> byte list \<Rightarrow> 'w \<Rightarrow> bool" where
  "flash_written flash t m0 img w \<longleftrightarrow>
     slice (flash w) (unat (updateEpcsTargetBase (target_code t))) (length img) = img
     \<and> (t = kTargetGateware \<longrightarrow> boot_enters_application (flash w))
     \<and> (\<forall>i. beyond_region t i \<longrightarrow> flash w i = m0 i)"

definition flash_holds :: "('w \<Rightarrow> memory) \<Rightarrow> UpdateTarget \<Rightarrow> memory \<Rightarrow> byte list \<Rightarrow> 'w firmware \<Rightarrow> bool" where
  "flash_holds flash t m0 img s \<longleftrightarrow> st_phase (glUpdateState s) = PHASE_COMPLETE \<and> \<not> glUpdateVerifyPending s
     \<and> flash_written flash t m0 img (world s)"

lemmas flash_stages = flash_ready_def flash_transfer_def flash_taking_def flash_taken_def flash_holds_def

definition flash_image :: "UpdateTarget \<Rightarrow> byte list \<Rightarrow> bool" where
  "flash_image t img \<longleftrightarrow> t \<noteq> kTargetFirmware \<and> 256 \<le> length img
     \<and> length img \<le> unat (updateEpcsTargetCapacity (target_code t))"

lemma target_codes:
  assumes "t \<noteq> kTargetFirmware"
  shows "target_code t = 1 \<and> t = kTargetGateware \<or> target_code t = 2 \<and> t = kTargetEpcsFactory"
    and "updateTargetIsEpcs (target_code t)"
    and "TargetFlags t = (if target_code t = UPDATE_TARGET_EPCS_FACTORY then UPDATE_FLAG_FACTORY_WRITE else UPDATE_FLAGS_NONE)"
  using assms by (cases t; simp add: TargetFlags_def)+

context flash_on_wire
begin

lemma flash_begin:
  assumes "flash_ready good flash m0 s" and "flash_image t img"
  shows "\<exists>s'. updateAgentBegin P (target_code t) (begin_packet (of_nat (length img)) (sha256 img) (TargetFlags t)) 40
      (dataCollectionFlag s) s = (True, s') \<and> flash_taking good flash t m0 img 0 s' \<and> st_nextChunk (glUpdateState s') = 0"
proof -
  have t: "t \<noteq> kTargetFirmware" "256 \<le> length img" "length img \<le> unat (updateEpcsTargetCapacity (target_code t))"
    using assms(2) by (simp_all add: flash_image_def)
  have r: "good s" "\<not> updateIsInProgress (glUpdateState s)" "length (sh_chunk (glUpdateStreamHash s)) = 64"
    "dataCollectionFlag s = False" using assms(1) by (simp_all add: flash_ready_def)
  have "unat (of_nat (length img) :: u32) = length img"
    using target_codes(1) [OF t(1)] t(3) by (intro unat_of_nat_u32) auto
  then show ?thesis
    using begin_succeeds [OF r(1-3) target_codes(2) [OF t(1)] t(2,3) target_codes(3) [OF t(1)]] assms(1)
    unfolding r(4) by (auto simp: flash_ready_def flash_taking_def flash_transfer_def)
qed

lemma flash_chunk:
  assumes "flash_taking good flash t m0 img k s" and "flash_image t img" and "c \<noteq> []" and "length c \<le> 2048"
    and "take (length c) (drop k img) = c" and "k + length c = length img \<or> 256 dvd length c" and "k + length c \<le> length img"
  shows "updateChunkIsAllowed (glUpdateState s) (target_code t) (st_nextChunk (glUpdateState s)) (of_nat (length c)) = ERROR_NONE
    \<and> (\<exists>s'. updateAgentData P (target_code t) (st_nextChunk (glUpdateState s)) c s = (True, s')
         \<and> flash_taking good flash t m0 img (k + length c) s'
         \<and> st_nextChunk (glUpdateState s') = st_nextChunk (glUpdateState s) + 1)"
proof -
  let ?st = "glUpdateState s" and ?i = "st_nextChunk (glUpdateState s)" and ?t = "target_code t"
  have t: "t \<noteq> kTargetFirmware" using assms(2) by (simp add: flash_image_def)
  have k: "length (take k img) = k" "k < length img" using assms(3,7) by (auto simp: less_le)
  have st: "received_epcs flash (take k img) s" "good s" "st_target ?st = ?t" "transfer_ok ?st"
    "unat (st_received ?st) = k" "unat (st_length ?st) = length img" "st_phase ?st = PHASE_RECEIVING"
    using assms(1) k by (auto simp: flash_taking_def flash_transfer_def received_epcs_def)
  have l16: "unat (of_nat (length c) :: u16) = length c" using assms(4) by (simp add: unat_of_nat_u16)
  have pg: "unat (updateTargetPageSize ?t) = 256" using target_codes(1) [OF t] by auto
  have al: "updateChunkIsAllowed ?st ?t ?i (of_nat (length c)) = ERROR_NONE"
    using st(3-7) k assms(3,4,6,7) pg by (auto simp: chunk_allowed_iff l16)
  have fit: "length (take k img) + length c \<le> unat (st_length ?st)" using assms(7) k st(6) by simp
  obtain s' where d: "updateAgentData P ?t ?i c s = (True, s')"
    using data_succeeds [OF st(1,2) al assms(4) fit] by (metis prod.collapse)
  have "length c < 65536" using assms(4) by simp
  note got = data_received [OF st(1,2) al this d]
  have "take k img @ c = take (k + length c) img" unfolding take_add using assms(5) by simp
  moreover have "glUpdateVerifyPending s' = glUpdateVerifyPending s"
    using pending_data [of P ?t ?i c s] d by simp
  ultimately have "flash_taking good flash t m0 img (k + length c) s'"
    using got assms(1) st(3) by (auto simp: flash_taking_def flash_transfer_def beyond_region_def)
  then show ?thesis using al d got by blast
qed

lemma flash_finish:
  assumes "flash_taking good flash t m0 img (length img) s"
  shows "\<exists>s'. updateAgentFinish (target_code t) s = (True, s') \<and> flash_taken good flash t m0 img s'"
proof -
  have r: "absorbed (glUpdateStreamHash s) img" "st_received (glUpdateState s) = st_length (glUpdateState s)"
    "st_target (glUpdateState s) = target_code t" "st_phase (glUpdateState s) = PHASE_RECEIVING"
    "sha256 img = st_digest (glUpdateState s)" "received_epcs flash img s" "good s"
    using assms by (auto simp: flash_taking_def flash_transfer_def received_epcs_def u32_eq_iff)
  let ?s = "s\<lparr>glUpdateStreamDigest := sha256 img,
      glUpdateState := (glUpdateState s)\<lparr>st_phase := PHASE_VERIFYING, st_verified := 0\<rparr>, glUpdateVerifyPending := True\<rparr>"
  have "good ?s" by (rule good_driver [OF r(7)]) simp_all
  moreover have "transfer_ok (glUpdateState ?s) = transfer_ok (glUpdateState s)" by (simp add: transfer_ok_def)
  then have "received_epcs flash img ?s" using r(6) by (simp add: received_epcs_def)
  ultimately have "flash_taken good flash t m0 img ?s"
    using assms by (simp add: flash_taken_def flash_taking_def flash_transfer_def)
  then show ?thesis using finish_accepts [OF r(1,5,4,2)] r(3) by auto
qed

lemma flash_verified:
  assumes "flash_taken good flash t m0 img s"
  shows "flash_holds flash t m0 img (run_verification P s)"
proof -
  obtain u where u: "flash_taken good flash t m0 img u"
    and run: "run_verification P s = (updateAgentVerify P u)\<lparr>ledPatternShown := 0\<rparr>"
  proof (cases "glFpgaPresent s")
    case True
    let ?u = "snd (fpgaRegistersSetLeds P FPGA_LED_UPDATING s)"
    have g: "good s" using assms by (simp add: flash_taken_def flash_transfer_def)
    obtain w where w: "?u = s\<lparr>world := w\<rparr>" using leds_only [of P FPGA_LED_UPDATING s] by (rule exE)
    have "good (s\<lparr>world := w\<rparr>)" "flash w = flash (world s)" using leds_apart [OF g, of FPGA_LED_UPDATING] by (simp_all add: w)
    then have "flash_taken good flash t m0 img ?u"
      using assms by (auto simp: w flash_taken_def flash_transfer_def received_epcs_def)
    then show ?thesis using assms True
      by (intro that) (auto simp: run_verification_def announce_update_def fpgaRegistersPresent_def updateAgentVerifyPending_def flash_taken_def)
  next
    case False
    then show ?thesis using assms
      by (intro that) (auto simp: run_verification_def announce_update_def fpgaRegistersPresent_def updateAgentVerifyPending_def flash_taken_def)
  qed
  have pre: "received_epcs flash img u" "st_phase (glUpdateState u) = PHASE_VERIFYING" "good u"
    "unat (st_length (glUpdateState u)) = length img" "st_digest (glUpdateState u) = sha256 img"
    "length (glUpdateReadback u) = 512" "length (glUpdateBootBlock u) = 24"
    "length (sh_chunk (glUpdateMediumHash u)) = 64" "st_target (glUpdateState u) = target_code t"
    and far: "\<forall>i. beyond_region t i \<longrightarrow> flash (world u) i = m0 i"
    using u by (simp_all add: flash_taken_def flash_transfer_def)
  note v = verified_image [OF pre]
  have "flash_written flash t m0 img (world (updateAgentVerify P u))"
    using v(2-4) far by (auto simp: flash_written_def beyond_region_def)
  then show ?thesis using v(1) by (simp add: run flash_holds_def)
qed

lemma flash_calls:
  assumes "endpoint_call P offer f"
  shows "flash_ready good flash m0 s \<Longrightarrow> flash_ready good flash m0 (effect f s)"
    and "flash_taken good flash t m0 img s \<Longrightarrow> flash_taken good flash t m0 img (effect f s)"
    and "flash_taking good flash t m0 img k s \<Longrightarrow> flash_taking good flash t m0 img k (effect f s)"
  using endpoint_apart [OF assms]
  by (auto simp: effect_def flash_ready_def flash_taken_def flash_taking_def flash_transfer_def received_epcs_def)

lemma flash_buffers:
  "flash_ready good flash m0 s \<Longrightarrow> flash_ready good flash m0 (s\<lparr>glUpdatePacketBuffer := b\<rparr>)"
  "flash_taken good flash t m0 img s \<Longrightarrow> flash_taken good flash t m0 img (s\<lparr>glUpdatePacketBuffer := b\<rparr>)"
  "flash_taking good flash t m0 img k s \<Longrightarrow> flash_taking good flash t m0 img k (s\<lparr>glUpdatePacketBuffer := b\<rparr>)"
  "flash_ready good flash m0 s \<Longrightarrow> flash_ready good flash m0 (s\<lparr>glUpdateChunkBuffer := b\<rparr>)"
  "flash_taken good flash t m0 img s \<Longrightarrow> flash_taken good flash t m0 img (s\<lparr>glUpdateChunkBuffer := b\<rparr>)"
  "flash_taking good flash t m0 img k s \<Longrightarrow> flash_taking good flash t m0 img k (s\<lparr>glUpdateChunkBuffer := b\<rparr>)"
  using good_driver [of s "s\<lparr>glUpdatePacketBuffer := b\<rparr>"] good_driver [of s "s\<lparr>glUpdateChunkBuffer := b\<rparr>"]
  by (auto simp: flash_ready_def flash_taken_def flash_taking_def flash_transfer_def received_epcs_def)

lemma flash_medium:
  assumes "flash_image t img"
  shows "update_medium P offer answer t img (flash_ready good flash m0) (flash_taken good flash t m0 img)
    (flash_holds flash t m0 img) (flash_taking good flash t m0 img)"
proof (unfold_locales, goal_cases)
  case (1 s)
  then show ?case by (rule flash_begin [OF _ assms])
next
  case (2 k s c)
  then show ?case using flash_chunk [OF 2(1) assms 2(2-6)] by simp
next
  case (3 s)
  then show ?case by (rule flash_finish)
next
  case (4 s)
  then show ?case by (rule flash_verified)
next
  case (9 f X s)
  moreover have "flash_holds flash t m0 img s \<Longrightarrow> flash_holds flash t m0 img (effect f s)"
    using endpoint_apart [OF 9(1)] by (auto simp: effect_def flash_holds_def flash_written_def)
  ultimately show ?case using flash_calls [OF 9(1)] by auto
next
  case (10 X s b)
  then show ?case using flash_buffers(1-3) by (auto simp: flash_holds_def)
next
  case (11 X s b)
  then show ?case using flash_buffers(4-6) by (auto simp: flash_holds_def)
qed (auto simp: flash_ready_def flash_taken_def flash_taking_def flash_holds_def)

end

end
