(* ===== verification/Gateware.thy ===== *)
theory Gateware
  imports EpcsFlash
begin

text \<open>
  The other end of the register link, from the gateware's sources: the SPI slave and register
  bank of \<^verbatim>\<open>fpga/common/spiRegisters.v\<close> and the flash bridge of \<^verbatim>\<open>fpga/common/flashBridge.v\<close>,
  with a byte-level model of the serial flash behind it (reads and identification as in
  \<^verbatim>\<open>fpga/common/sim/epcsFlashModel.v\<close>, erase and program as the part documents them). The slave
  is modelled at the edges of its clock: the synchronisers and the glitch filter, which accept
  a level held for three system clocks, are below the two microseconds the firmware holds each
  one. \<open>sim_platform\<close> joins this to the SDK's pins, and the lemmas show that the firmware's
  bit-banging performs exactly the register accesses it names.
\<close>

subsection \<open>The serial flash\<close>

record flash_chip =
  fc_mem :: memory
  fc_wel :: bool
  fc_busy :: nat
  fc_frame :: "byte list"
  fc_latency :: nat
  fc_id :: byte

definition flash_address :: "byte list \<Rightarrow> nat" where
  "flash_address fr = unat (fr ! 1) * 65536 + unat (fr ! 2) * 256 + unat (fr ! 3)"

text \<open>One byte each way: the byte that comes back depends on the frame received so far.\<close>

definition flash_shift :: "byte \<Rightarrow> flash_chip \<Rightarrow> byte \<times> flash_chip" where
  "flash_shift b fl =
     (let fr = fc_frame fl; n = length fr; fl' = fl\<lparr>fc_frame := fr @ [b]\<rparr>
      in if n = 0 then (0xFF, fl')
         else if fr ! 0 = UPDATE_EPCS_READ_STATUS then
           ((if 0 < fc_busy fl then 1 else 0) OR (if fc_wel fl then 2 else 0),
            fl'\<lparr>fc_busy := fc_busy fl - 1\<rparr>)
         else if 0 < fc_busy fl \<or> n < 4 then (0xFF, fl')
         else if fr ! 0 = UPDATE_EPCS_READ_BYTES
           then (fc_mem fl ((flash_address fr + (n - 4)) mod 16777216), fl')
         else if fr ! 0 = UPDATE_EPCS_READ_SILICON_ID then (fc_id fl, fl')
         else (0xFF, fl'))"

text \<open>Chip select rises: the framed command takes effect.\<close>

definition flash_release :: "flash_chip \<Rightarrow> flash_chip" where
  "flash_release fl =
     (let fr = fc_frame fl; fl' = fl\<lparr>fc_frame := []\<rparr>
      in if fr = [] \<or> 0 < fc_busy fl then fl'
         else if fr = [UPDATE_EPCS_WRITE_ENABLE] then fl'\<lparr>fc_wel := True\<rparr>
         else if fr ! 0 = UPDATE_EPCS_ERASE_SECTOR \<and> length fr = 4 \<and> fc_wel fl then
           let base = flash_address fr - flash_address fr mod 65536
           in fl'\<lparr>fc_mem := (\<lambda>i. if base \<le> i \<and> i < base + 65536 then 0xFF else fc_mem fl i),
                  fc_wel := False, fc_busy := fc_latency fl\<rparr>
         else if fr ! 0 = UPDATE_EPCS_PAGE_PROGRAM \<and> 4 < length fr \<and> fc_wel fl then
           let a = flash_address fr; base = a - a mod 256
           in fl'\<lparr>fc_mem := (\<lambda>i. if base \<le> i \<and> i < base + 256
                \<and> (i + 256 - a) mod 256 < length fr - 4
                then fc_mem fl i AND fr ! (4 + (i + 256 - a) mod 256) else fc_mem fl i),
                  fc_wel := False, fc_busy := fc_latency fl\<rparr>
         else fl')"

subsection \<open>The register bank and the bridge\<close>

record bank =
  bk_identity :: "byte list"
  bk_test_mode :: byte
  bk_led :: byte
  bk_decimation :: byte
  bk_progress :: nat
  bk_unlocked :: bool
  bk_select :: bool
  bk_received :: byte
  bk_flash :: flash_chip
  bk_reconfig :: bool

definition select_flash :: "bool \<Rightarrow> bank \<Rightarrow> bank" where
  "select_flash v bk =
     (if bk_select bk \<and> \<not> v then bk\<lparr>bk_select := False, bk_flash := flash_release (bk_flash bk)\<rparr>
      else if \<not> bk_select bk \<and> v
      then bk\<lparr>bk_select := True, bk_flash := (bk_flash bk)\<lparr>fc_frame := []\<rparr>\<rparr>
      else bk)"

definition write_unlock :: "byte \<Rightarrow> bank \<Rightarrow> bank" where
  "write_unlock b bk =
     (let bk = (select_flash False bk)\<lparr>bk_unlocked := False\<rparr>
      in if bk_progress bk = 0 then bk\<lparr>bk_progress := (if b = 0x44 then 1 else 0)\<rparr>
         else if bk_progress bk = 1 then bk\<lparr>bk_progress := (if b = 0x44 then 2 else 0)\<rparr>
         else if bk_progress bk = 2 then bk\<lparr>bk_progress := (if b = 0x55 then 3 else 0)\<rparr>
         else bk\<lparr>bk_progress := 0, bk_unlocked := (b = 0xAA)\<rparr>)"

definition write_control :: "byte \<Rightarrow> bank \<Rightarrow> bank" where
  "write_control b bk = (if bk_unlocked bk then select_flash (bit b 0) bk else bk)"

definition write_data :: "byte \<Rightarrow> bank \<Rightarrow> bank" where
  "write_data b bk =
     (if bk_unlocked bk \<and> bk_select bk
      then let (r, fl) = flash_shift b (bk_flash bk) in bk\<lparr>bk_received := r, bk_flash := fl\<rparr>
      else bk)"

definition reg_write :: "byte \<Rightarrow> byte \<Rightarrow> bank \<Rightarrow> bank" where
  "reg_write a b bk =
     (if a = 0x10 then bk\<lparr>bk_test_mode := b\<rparr>
      else if a = 0x11 then bk\<lparr>bk_led := b\<rparr>
      else if a = 0x12 then bk\<lparr>bk_decimation := (if b = 2 then 2 else 1)\<rparr>
      else if a = 0x20 then write_unlock b bk
      else if a = 0x21 then write_control b bk
      else if a = 0x22 then write_data b bk
      else if a = 0x23 then bk\<lparr>bk_reconfig := bk_reconfig bk \<or> bit b 1\<rparr>
      else bk)"

definition reg_read :: "byte \<Rightarrow> bank \<Rightarrow> byte" where
  "reg_read a bk =
     (if a < 12 then bk_identity bk ! unat a
      else if a = 0x10 then bk_test_mode bk
      else if a = 0x11 then bk_led bk
      else if a = 0x12 then bk_decimation bk
      else if a = 0x20 then (if bk_unlocked bk then 1 else 0)
      else if a = 0x21 then (if bk_select bk then 1 else 0)
      else if a = 0x22 then bk_received bk
      else 0)"

definition address_next :: "byte \<Rightarrow> byte" where
  "address_next a = (if a = 0x22 then a else (a + 1) AND 0x7F)"

subsection \<open>The SPI slave\<close>

record slave =
  sl_shift_in :: byte
  sl_shift_out :: byte
  sl_count :: nat
  sl_command :: bool
  sl_read :: bool
  sl_address :: byte
  sl_miso :: bool
  sl_bank :: bank

definition spi_byte :: "byte \<Rightarrow> slave \<Rightarrow> slave" where
  "spi_byte b sl =
     (if \<not> sl_command sl
      then sl\<lparr>sl_command := True, sl_read := bit b 7, sl_address := b AND 0x7F,
              sl_shift_out := (if bit b 7 then reg_read (b AND 0x7F) (sl_bank sl) else 0)\<rparr>
      else sl\<lparr>sl_bank := (if sl_read sl then sl_bank sl else reg_write (sl_address sl) b (sl_bank sl)),
              sl_address := address_next (sl_address sl),
              sl_shift_out := (if sl_read sl
                 then reg_read (address_next (sl_address sl)) (sl_bank sl) else 0)\<rparr>)"

definition spi_rise :: "bool \<Rightarrow> slave \<Rightarrow> slave" where
  "spi_rise mosi sl =
     (let byte_in = push_bit 1 (sl_shift_in sl) OR (if mosi then 1 else 0);
          sl' = sl\<lparr>sl_shift_in := byte_in AND 0x7F, sl_count := (sl_count sl + 1) mod 8\<rparr>
      in if sl_count sl = 7 then spi_byte byte_in sl' else sl')"

definition spi_fall :: "slave \<Rightarrow> slave" where
  "spi_fall sl = sl\<lparr>sl_miso := bit (sl_shift_out sl) 7, sl_shift_out := push_bit 1 (sl_shift_out sl)\<rparr>"

definition spi_deselect :: "slave \<Rightarrow> slave" where
  "spi_deselect sl = sl\<lparr>sl_shift_in := 0, sl_shift_out := 0, sl_count := 0, sl_command := False,
                        sl_miso := False\<rparr>"

subsection \<open>The board\<close>

record board =
  bd_cs_n :: bool
  bd_sclk :: bool
  bd_mosi :: bool
  bd_slave :: slave
  bd_locked :: bool
  bd_eeprom :: memory

definition drive_pin :: "nat \<Rightarrow> bool \<Rightarrow> 'b board_scheme \<Rightarrow> 'b board_scheme" where
  "drive_pin gpio v w =
     (if gpio = FPGA_SPI_MOSI_GPIO then w\<lparr>bd_mosi := v\<rparr>
      else if gpio = FPGA_SPI_SCLK_GPIO then
        w\<lparr>bd_sclk := v,
          bd_slave := (if bd_cs_n w \<or> bd_sclk w = v then bd_slave w
                       else if v then spi_rise (bd_mosi w) (bd_slave w)
                       else spi_fall (bd_slave w))\<rparr>
      else if gpio = FPGA_SPI_CS_GPIO then
        w\<lparr>bd_cs_n := v, bd_slave := (if v then spi_deselect (bd_slave w) else bd_slave w)\<rparr>
      else w)"

text \<open>
  What is left open: how the device resets, and whatever extends the board and the calls on it.
\<close>

definition sim_with ::
    "(bool \<Rightarrow> 'b board_scheme \<Rightarrow> 'b board_scheme) \<Rightarrow> 'p \<Rightarrow> ('b board_scheme, 'p) platform_scheme" where
  "sim_with rf mr = \<lparr>
     CyU3PBusyWait = (\<lambda>_ w. w),
     CyU3PThreadSleep = (\<lambda>_ w. w),
     CyU3PDeviceGpioOverride = (\<lambda>_ _ w. (CY_U3P_SUCCESS, w)),
     CyU3PGpioSetSimpleConfig = (\<lambda>_ _ w. (CY_U3P_SUCCESS, w)),
     CyU3PGpioSimpleSetValue = drive_pin,
     CyU3PGpioSimpleGetValue = (\<lambda>_ w. (CY_U3P_SUCCESS, sl_miso (bd_slave w), w)),
     CyU3PMutexCreate = (\<lambda>w. (CY_U3P_SUCCESS, w\<lparr>bd_locked := False\<rparr>)),
     CyU3PMutexGet = (\<lambda>w. if bd_locked w then (0x1D, w) else (CY_U3P_SUCCESS, w\<lparr>bd_locked := True\<rparr>)),
     CyU3PMutexPut = (\<lambda>w. w\<lparr>bd_locked := False\<rparr>),
     CyU3PI2cInit = (\<lambda>w. (CY_U3P_SUCCESS, w)),
     CyU3PI2cSetConfig = (\<lambda>_ w. (CY_U3P_SUCCESS, w)),
     CyU3PI2cTransmitBytes = (\<lambda>p data _ w.
       (CY_U3P_SUCCESS, w\<lparr>bd_eeprom := patch (bd_eeprom w) (preamble_address p) data\<rparr>)),
     CyU3PI2cReceiveBytes = (\<lambda>p n _ w. (CY_U3P_SUCCESS, \<lambda>i. bd_eeprom w (preamble_address p + i), w)),
     CyU3PI2cWaitForAck = (\<lambda>_ _ w. (CY_U3P_SUCCESS, w)),
     CyU3PDeviceReset = rf, \<dots> = mr\<rparr>"

abbreviation sim_platform :: "'b board_scheme platform" where
  "sim_platform \<equiv> sim_with (\<lambda>_ w. w) ()"

lemma sim_platform_simps [simp]:
  "CyU3PBusyWait (sim_with rf mr) n w = w"
  "CyU3PThreadSleep (sim_with rf mr) n w = w"
  "CyU3PGpioSimpleSetValue (sim_with rf mr) = drive_pin"
  "CyU3PGpioSimpleGetValue (sim_with rf mr) g w = (CY_U3P_SUCCESS, sl_miso (bd_slave w), w)"
  "CyU3PMutexGet (sim_with rf mr) w =
     (if bd_locked w then (0x1D, w) else (CY_U3P_SUCCESS, w\<lparr>bd_locked := True\<rparr>))"
  "CyU3PMutexPut (sim_with rf mr) w = w\<lparr>bd_locked := False\<rparr>"
  "CyU3PI2cTransmitBytes (sim_with rf mr) p data r w =
     (CY_U3P_SUCCESS, w\<lparr>bd_eeprom := patch (bd_eeprom w) (preamble_address p) data\<rparr>)"
  "CyU3PI2cReceiveBytes (sim_with rf mr) p n r w =
     (CY_U3P_SUCCESS, \<lambda>i. bd_eeprom w (preamble_address p + i), w)"
  "CyU3PI2cWaitForAck (sim_with rf mr) p r w = (CY_U3P_SUCCESS, w)"
  by (simp_all add: sim_with_def)

subsection \<open>One byte over the wire\<close>

definition in_register :: "byte \<Rightarrow> byte \<Rightarrow> nat \<Rightarrow> byte" where
  "in_register before send k = (push_bit k before OR drop_bit (8 - k) send) AND 0x7F"

lemma mask7: "bit (0x7F :: byte) n \<longleftrightarrow> n < 7"
proof -
  have "(0x7F :: byte) = mask 7" by (simp add: mask_eq_exp_minus_1)
  then show ?thesis by (simp only: bit_mask_iff) auto
qed

lemma bit_if_1: "bit (if c then 1 else 0 :: byte) n \<longleftrightarrow> c \<and> n = 0"
  by (simp add: bit_1_iff)

lemmas shift_bits = in_register_def bit_or_iff bit_and_iff bit_push_bit_iff bit_drop_bit_eq o_def
  mask7 bit_if_1

lemma in_register_Suc:
  assumes "k < 8"
  shows "(push_bit 1 (in_register before send k) OR (if bit send (7 - k) then 1 else 0)) AND 0x7F
         = in_register before send (Suc k)"
proof (rule bit_word_eqI)
  fix n :: nat
  obtain d where d: "8 - k = Suc d" "7 - k = d" "8 - Suc k = d"
    using assms by (cases "8 - k") auto
  assume "n < LENGTH(8)"
  then show "bit ((push_bit 1 (in_register before send k)
        OR (if bit send (7 - k) then 1 else 0)) AND 0x7F) n
      = bit (in_register before send (Suc k)) n"
    using assms unfolding shift_bits d by (cases n) auto
qed

lemma in_register_last:
  "push_bit 1 (in_register before send 7) OR (if bit send 0 then 1 else 0) = send"
proof (rule bit_word_eqI)
  fix n :: nat
  assume "n < LENGTH(8)"
  then show "bit (push_bit 1 (in_register before send 7) OR (if bit send 0 then 1 else 0)) n
      = bit send n"
    unfolding shift_bits by (cases n) auto
qed

definition byte_boundary :: "byte \<Rightarrow> 'b board_scheme \<Rightarrow> bool" where
  "byte_boundary out w \<longleftrightarrow>
     \<not> bd_cs_n w \<and> \<not> bd_sclk w \<and> sl_count (bd_slave w) = 0
     \<and> sl_shift_out (bd_slave w) = push_bit 1 out \<and> sl_miso (bd_slave w) = bit out 7
     \<and> sl_shift_in (bd_slave w) = sl_shift_in (bd_slave w) AND 0x7F"

text \<open>The board after \<open>k\<close> bits of a byte, and after the whole byte.\<close>

definition after_bits :: "byte \<Rightarrow> byte \<Rightarrow> nat \<Rightarrow> 'b board_scheme \<Rightarrow> 'b board_scheme" where
  "after_bits out send k w = w\<lparr>
     bd_mosi := (if k = 0 then bd_mosi w else bit send (8 - k)),
     bd_slave := (bd_slave w)\<lparr>sl_shift_in := in_register (sl_shift_in (bd_slave w)) send k,
       sl_shift_out := push_bit (Suc k) out, sl_count := k, sl_miso := bit out (7 - k)\<rparr>\<rparr>"

definition after_byte :: "byte \<Rightarrow> 'b board_scheme \<Rightarrow> 'b board_scheme" where
  "after_byte send w = w\<lparr>bd_mosi := bit send 0,
     bd_slave := spi_fall (spi_byte send ((bd_slave w)\<lparr>sl_shift_in := send AND 0x7F, sl_count := 0\<rparr>))\<rparr>"

definition bits_received :: "byte \<Rightarrow> nat \<Rightarrow> byte" where
  "bits_received out k = push_bit (8 - k) (drop_bit (8 - k) out)"

lemma bit_bits_received: "bit (bits_received out k) n \<longleftrightarrow> 8 - k \<le> n \<and> n < 8 \<and> bit out n"
  unfolding bits_received_def bit_push_bit_iff bit_drop_bit_eq o_def by auto

lemma bits_received_Suc:
  assumes "k < 8"
  shows "(if bit out (7 - k) then bits_received out k OR push_bit (7 - k) 1
          else bits_received out k) = bits_received out (Suc k)"
proof (rule bit_word_eqI)
  fix n :: nat
  have "bit (push_bit (7 - k) 1 :: byte) n \<longleftrightarrow> n = 7 - k"
    using assms unfolding bit_push_bit_iff by (auto simp: bit_1_iff)
  moreover have "8 - k \<le> n \<longleftrightarrow> 8 - Suc k \<le> n \<and> n \<noteq> 7 - k"
    using assms by auto
  ultimately show "bit (if bit out (7 - k) then bits_received out k OR push_bit (7 - k) 1
      else bits_received out k) n = bit (bits_received out (Suc k)) n"
    by (auto simp: bit_bits_received bit_or_iff)
qed

lemma and_1_drop_bit: "drop_bit n (b :: byte) AND 1 \<noteq> 0 \<longleftrightarrow> bit b n"
  by (simp add: and_one_eq mod_2_eq_odd flip: bit_iff_odd_drop_bit)

lemma byte_boundary_cases:
  assumes "byte_boundary out w"
  obtains m x c rd ad bk l e rest where
    "w = \<lparr>bd_cs_n = False, bd_sclk = False, bd_mosi = m,
          bd_slave = \<lparr>sl_shift_in = x, sl_shift_out = push_bit 1 out, sl_count = 0, sl_command = c,
                      sl_read = rd, sl_address = ad, sl_miso = bit out 7, sl_bank = bk\<rparr>,
          bd_locked = l, bd_eeprom = e, \<dots> = rest\<rparr>" "x AND 0x7F = x"
proof (cases w)
  case (fields cs sc m sl l e)
  then show ?thesis using assms that
    by (cases sl) (auto simp: byte_boundary_def)
qed

declare push_bit_Suc [simp del] drop_bit_Suc [simp del]

lemma spi_rise_inner:
  assumes "k < 7"
  shows "spi_rise (bit send (7 - k)) \<lparr>sl_shift_in = in_register x send k, sl_shift_out = y, sl_count = k,
      sl_command = c, sl_read = rd, sl_address = ad, sl_miso = z, sl_bank = bk\<rparr>
    = \<lparr>sl_shift_in = in_register x send (Suc k), sl_shift_out = y, sl_count = Suc k,
      sl_command = c, sl_read = rd, sl_address = ad, sl_miso = z, sl_bank = bk\<rparr>"
  using assms in_register_Suc [of k x send] by (simp add: spi_rise_def Let_def)

lemma spi_fall_inner:
  assumes "k < 7"
  shows "spi_fall \<lparr>sl_shift_in = x, sl_shift_out = push_bit (Suc k) out, sl_count = n,
      sl_command = c, sl_read = rd, sl_address = ad, sl_miso = z, sl_bank = bk\<rparr>
    = \<lparr>sl_shift_in = x, sl_shift_out = push_bit (Suc (Suc k)) out, sl_count = n,
      sl_command = c, sl_read = rd, sl_address = ad, sl_miso = bit out (7 - Suc k), sl_bank = bk\<rparr>"
proof -
  have "bit (push_bit (Suc k) out) 7 = bit out (7 - Suc k)"
    using assms by (simp only: bit_push_bit_iff) auto
  moreover have "push_bit 1 (push_bit (Suc k) out) = push_bit (Suc (Suc k)) out"
    by (simp add: push_bit_push_bit)
  ultimately show ?thesis by (simp add: spi_fall_def)
qed

lemmas board_step = transferBit_def Let_def prod.case sim_platform_simps drive_pin_def and_1_drop_bit
  after_bits_def

lemma transferBit_inner:
  assumes b: "byte_boundary out w" and k: "k < 7" and j: "j = 7 - k" "k' = Suc k"
  shows "transferBit (sim_with rf mr) send j (bits_received out k, after_bits out send k w)
         = (bits_received out k', after_bits out send k' w)"
proof -
  have "8 - Suc k = 7 - k" by simp
  then show ?thesis
    using k bits_received_Suc [of k out] unfolding j
    by (cases rule: byte_boundary_cases [OF b])
      (simp add: board_step spi_rise_inner spi_fall_inner)
qed

lemma spi_rise_last:
  "spi_rise (bit send 0) \<lparr>sl_shift_in = in_register x send 7, sl_shift_out = y, sl_count = 7,
      sl_command = c, sl_read = rd, sl_address = ad, sl_miso = z, sl_bank = bk\<rparr>
    = spi_byte send \<lparr>sl_shift_in = send AND 0x7F, sl_shift_out = y, sl_count = 0,
      sl_command = c, sl_read = rd, sl_address = ad, sl_miso = z, sl_bank = bk\<rparr>"
proof -
  have "in_register x send 8 = send AND 0x7F"
    by (rule bit_word_eqI) (simp only: shift_bits, auto)
  then show ?thesis
    using in_register_last [of x send] by (simp add: spi_rise_def Let_def)
qed

lemma spi_fall_byte:
  "spi_fall (spi_byte send \<lparr>sl_shift_in = x, sl_shift_out = y, sl_count = n,
      sl_command = c, sl_read = rd, sl_address = ad, sl_miso = z, sl_bank = bk\<rparr>)
    = spi_fall (spi_byte send \<lparr>sl_shift_in = x, sl_shift_out = y', sl_count = n,
      sl_command = c, sl_read = rd, sl_address = ad, sl_miso = z', sl_bank = bk\<rparr>)"
  by (simp add: spi_fall_def spi_byte_def)

lemma bits_received_last:
  "(if bit out 0 then bits_received out 7 OR 1 else bits_received out 7) = out"
proof -
  have "bits_received out 8 = out" by (simp add: bits_received_def)
  then show ?thesis using bits_received_Suc [of 7 out] by (simp split: if_splits)
qed

lemma transferBit_last:
  assumes b: "byte_boundary out w"
  shows "transferBit (sim_with rf mr) send 0 (bits_received out 7, after_bits out send 7 w)
         = (out, after_byte send w)"
proof (cases rule: byte_boundary_cases [OF b])
  case (1 m x c rd ad bk l e rest)
  have bit0: "send AND 1 \<noteq> 0 \<longleftrightarrow> bit send 0"
    using and_1_drop_bit [of 0 send] by simp
  have miso: "sl_miso (spi_byte send sl) = sl_miso sl" for sl
    by (simp add: spi_byte_def)
  show ?thesis
    unfolding 1(1) using bits_received_last [of out]
    by (simp add: board_step bit0 miso spi_rise_last after_byte_def)
      (metis spi_fall_byte)
qed

lemma transferByte_board:
  assumes b: "byte_boundary out w"
  shows "transferByte (sim_with rf mr) send w = (out, after_byte send w)"
proof -
  have s: "after_bits out send 0 w = w" "bits_received out 0 = 0"
    by (cases rule: byte_boundary_cases [OF b]) (simp_all add: after_bits_def bits_received_def in_register_def)
  have "transferBit (sim_with rf mr) send 7 (0, w) = (bits_received out 1, after_bits out send 1 w)"
    using transferBit_inner [OF b, of 0 7 1 rf mr send] unfolding s by simp
  moreover have "transferBit (sim_with rf mr) send 6 (bits_received out 1, after_bits out send 1 w)
      = (bits_received out 2, after_bits out send 2 w)"
    by (rule transferBit_inner [OF b]) simp_all
  moreover have "transferBit (sim_with rf mr) send 5 (bits_received out 2, after_bits out send 2 w)
      = (bits_received out 3, after_bits out send 3 w)"
    by (rule transferBit_inner [OF b]) simp_all
  moreover have "transferBit (sim_with rf mr) send 4 (bits_received out 3, after_bits out send 3 w)
      = (bits_received out 4, after_bits out send 4 w)"
    by (rule transferBit_inner [OF b]) simp_all
  moreover have "transferBit (sim_with rf mr) send 3 (bits_received out 4, after_bits out send 4 w)
      = (bits_received out 5, after_bits out send 5 w)"
    by (rule transferBit_inner [OF b]) simp_all
  moreover have "transferBit (sim_with rf mr) send 2 (bits_received out 5, after_bits out send 5 w)
      = (bits_received out 6, after_bits out send 6 w)"
    by (rule transferBit_inner [OF b]) simp_all
  moreover have "transferBit (sim_with rf mr) send 1 (bits_received out 6, after_bits out send 6 w)
      = (bits_received out 7, after_bits out send 7 w)"
    by (rule transferBit_inner [OF b]) simp_all
  ultimately show ?thesis
    using transferBit_last [OF b, of rf mr send]
    by (simp only: transferByte_def fold_Cons fold_Nil o_apply id_apply)
qed

subsection \<open>Framed register accesses\<close>

definition board_bank :: "'b board_scheme \<Rightarrow> bank" where
  "board_bank w = sl_bank (bd_slave w)"

definition link_idle :: "'b board_scheme \<Rightarrow> bool" where
  "link_idle w \<longleftrightarrow> bd_cs_n w \<and> \<not> bd_sclk w \<and> \<not> bd_locked w
     \<and> sl_shift_in (bd_slave w) = 0 \<and> sl_shift_out (bd_slave w) = 0 \<and> sl_count (bd_slave w) = 0
     \<and> \<not> sl_command (bd_slave w) \<and> \<not> sl_miso (bd_slave w)"

definition in_transfer :: "'b board_scheme \<Rightarrow> bool \<Rightarrow> byte \<Rightarrow> bank \<Rightarrow> 'b board_scheme \<Rightarrow> bool" where
  "in_transfer w0 rd ad bk w \<longleftrightarrow>
     byte_boundary (if rd then reg_read ad bk else 0) w
     \<and> sl_command (bd_slave w) \<and> sl_read (bd_slave w) = rd \<and> sl_address (bd_slave w) = ad
     \<and> board_bank w = bk \<and> bd_locked w = bd_locked w0 \<and> bd_eeprom w = bd_eeprom w0"

fun write_run :: "byte \<Rightarrow> byte list \<Rightarrow> bank \<Rightarrow> bank" where
  "write_run ad [] bk = bk"
| "write_run ad (b # bs) bk = write_run (address_next ad) bs (reg_write ad b bk)"

fun read_run :: "byte \<Rightarrow> nat \<Rightarrow> bank \<Rightarrow> byte list" where
  "read_run ad 0 bk = []"
| "read_run ad (Suc n) bk = reg_read ad bk # read_run (address_next ad) n bk"

lemma and_7F_idem: "(b AND 0x7F) AND 0x7F = (b AND 0x7F :: byte)"
  by (simp add: and.assoc)

lemma boundary_after_byte:
  "byte_boundary out w \<Longrightarrow>
     byte_boundary (sl_shift_out (spi_byte send (bd_slave w))) (after_byte send w)"
  by (cases rule: byte_boundary_cases, assumption)
    (simp add: byte_boundary_def after_byte_def spi_fall_def spi_byte_def and_7F_idem)

lemma transfer_step:
  assumes "in_transfer w0 rd ad bk w"
  shows "\<exists>w'. transferByte (sim_with rf mr) b w = (if rd then reg_read ad bk else 0, w')
    \<and> in_transfer w0 rd (address_next ad) (if rd then bk else reg_write ad b bk) w'"
proof -
  have bd: "byte_boundary (if rd then reg_read ad bk else 0) w"
    using assms by (simp add: in_transfer_def)
  have "in_transfer w0 rd (address_next ad) (if rd then bk else reg_write ad b bk) (after_byte b w)"
    using assms boundary_after_byte [OF bd, of b]
    by (simp add: in_transfer_def board_bank_def after_byte_def spi_fall_def spi_byte_def
        split: if_splits)
  then show ?thesis by (simp add: transferByte_board [OF bd])
qed

lemma sendBytes_board:
  "in_transfer w0 False ad bk w \<Longrightarrow>
     \<exists>ad'. in_transfer w0 False ad' (write_run ad bs bk) (sendBytes (sim_with rf mr) bs w)"
proof (induction bs arbitrary: ad bk w)
  case (Cons b bs)
  obtain w' where w': "transferByte (sim_with rf mr) b w = (0, w')"
    and "in_transfer w0 False (address_next ad) (reg_write ad b bk) w'"
    using transfer_step [OF Cons.prems, of rf mr b] by auto
  then show ?case using Cons.IH by simp
qed auto

lemma receiveBytes_board:
  "in_transfer w0 True ad bk w \<Longrightarrow>
     \<exists>ad' w'. receiveBytes (sim_with rf mr) n w = (read_run ad n bk, w') \<and> in_transfer w0 True ad' bk w'"
proof (induction n arbitrary: ad w)
  case (Suc n)
  obtain w' where w': "transferByte (sim_with rf mr) 0 w = (reg_read ad bk, w')"
    and t: "in_transfer w0 True (address_next ad) bk w'"
    using transfer_step [OF Suc.prems, of rf mr 0] by auto
  obtain ad' w'' where "receiveBytes (sim_with rf mr) n w' = (read_run (address_next ad) n bk, w'')"
    and "in_transfer w0 True ad' bk w''"
    using Suc.IH [OF t] by blast
  then show ?case using w' by auto
qed auto

lemma command_board:
  assumes "bd_cs_n w" "\<not> bd_sclk w" "sl_shift_in (bd_slave w) = 0" "sl_shift_out (bd_slave w) = 0"
    "sl_count (bd_slave w) = 0" "\<not> sl_command (bd_slave w)" "\<not> sl_miso (bd_slave w)"
  shows "\<exists>w'. transferByte (sim_with rf mr) c (selectFpga (sim_with rf mr) w) = (0, w')
    \<and> in_transfer w (bit c 7) (c AND 0x7F) (board_bank w) w'"
proof -
  let ?w = "selectFpga (sim_with rf mr) w"
  have b: "byte_boundary 0 ?w"
    using assms by (simp add: byte_boundary_def selectFpga_def drive_pin_def)
  have "in_transfer w (bit c 7) (c AND 0x7F) (board_bank w) (after_byte c ?w)"
    using boundary_after_byte [OF b, of c] assms
    by (simp add: in_transfer_def board_bank_def after_byte_def spi_fall_def spi_byte_def
        selectFpga_def drive_pin_def)
  then show ?thesis by (simp add: transferByte_board [OF b])
qed

lemma deselect_board:
  assumes "in_transfer w0 rd ad bk w"
  shows "link_idle ((deselectFpga (sim_with rf mr) w)\<lparr>bd_locked := False\<rparr>)"
    and "board_bank ((deselectFpga (sim_with rf mr) w)\<lparr>bd_locked := False\<rparr>) = bk"
    and "bd_eeprom ((deselectFpga (sim_with rf mr) w)\<lparr>bd_locked := False\<rparr>) = bd_eeprom w0"
  using assms
  by (auto simp: in_transfer_def byte_boundary_def link_idle_def deselectFpga_def drive_pin_def
      spi_deselect_def board_bank_def)

text \<open>The link is at rest, its mutex exists, and the bank is as given.\<close>

definition at_rest :: "('b board_scheme, 'z) link_scheme \<Rightarrow> bank \<Rightarrow> memory \<Rightarrow> bool" where
  "at_rest s bk e \<longleftrightarrow> glFpgaLockReady s \<and> link_idle (world s) \<and> board_bank (world s) = bk
     \<and> bd_eeprom (world s) = e"

lemma write_command_address:
  assumes "a \<le> 0x7F"
  shows "\<not> bit (a :: byte) 7 \<and> a AND 0x7F = a"
proof -
  have m: "(0x7F :: byte) = mask 7" by (simp add: mask_eq_exp_minus_1)
  have "unat a < 128" using assms by (simp add: word_le_nat_alt)
  then have "unat (take_bit 7 a) = unat a"
    by (simp add: unsigned_take_bit_eq take_bit_nat_eq_self)
  then have "a AND 0x7F = a"
    unfolding m take_bit_eq_mask [symmetric] by (simp only: word_unat_eq_iff)
  moreover from this have "bit a 7 = (bit a 7 \<and> bit (0x7F :: byte) 7)"
    by (metis bit_and_iff)
  ultimately show ?thesis by simp
qed

lemma read_command_address:
  assumes "a \<le> 0x7F"
  shows "bit (0x80 OR a :: byte) 7 \<and> (0x80 OR a) AND 0x7F = a"
proof -
  have "(0x80 OR a) AND 0x7F = a AND 0x7F" by (simp add: and.commute bit.conj_disj_distrib)
  then show ?thesis using write_command_address [OF assms] by (simp add: bit_or_iff)
qed

lemma address_max_iff: "FPGA_REGISTER_ADDRESS_MAX < ucast (a :: byte) \<longleftrightarrow> \<not> a \<le> 0x7F"
  by (simp add: word_less_nat_alt word_le_nat_alt unsigned_ucast_eq take_bit_nat_eq_self
      less_le_trans [OF unat_less_byte] not_le)

lemma write_at_rest:
  assumes r: "at_rest s bk e" and a: "a \<le> 0x7F"
  shows "\<exists>w. fpgaRegistersWrite (sim_with rf mr) a v s = (True, s\<lparr>world := w\<rparr>)
    \<and> at_rest (s\<lparr>world := w\<rparr>) (reg_write a v bk) e"
proof -
  let ?w = "(world s)\<lparr>bd_locked := True\<rparr>"
  have i: "link_idle (world s)" "board_bank (world s) = bk" "bd_eeprom (world s) = e" "glFpgaLockReady s"
    using r by (auto simp: at_rest_def)
  obtain w1 where w1: "transferByte (sim_with rf mr) a (selectFpga (sim_with rf mr) ?w) = (0, w1)"
    and t1: "in_transfer ?w False a bk w1"
    using command_board [of ?w rf mr a] i write_command_address [OF a]
    by (auto simp: link_idle_def board_bank_def)
  obtain w2 where w2: "transferByte (sim_with rf mr) v w1 = (0, w2)"
    and t2: "in_transfer ?w False (address_next a) (reg_write a v bk) w2"
    using transfer_step [OF t1, of rf mr v] by auto
  let ?w3 = "(deselectFpga (sim_with rf mr) w2)\<lparr>bd_locked := False\<rparr>"
  have "fpgaRegistersWrite (sim_with rf mr) a v s = (True, s\<lparr>world := ?w3\<rparr>)"
    using i a w1 w2 unfolding link_idle_def
    by (simp add: fpgaRegistersWrite_def takeLock_def releaseLock_def address_max_iff)
  then show ?thesis
    using deselect_board [OF t2, where rf = rf and mr = mr] i by (auto simp: at_rest_def intro!: exI [of _ ?w3])
qed

lemma burst_at_rest:
  assumes r: "at_rest s bk e" and a: "a \<le> 0x7F" and d: "data \<noteq> []"
  shows "\<exists>w. fpgaRegistersWriteBurst (sim_with rf mr) a data s = (True, s\<lparr>world := w\<rparr>)
    \<and> at_rest (s\<lparr>world := w\<rparr>) (write_run a data bk) e"
proof -
  let ?w = "(world s)\<lparr>bd_locked := True\<rparr>"
  have i: "link_idle (world s)" "board_bank (world s) = bk" "bd_eeprom (world s) = e" "glFpgaLockReady s"
    using r by (auto simp: at_rest_def)
  obtain w1 where w1: "transferByte (sim_with rf mr) a (selectFpga (sim_with rf mr) ?w) = (0, w1)"
    and t1: "in_transfer ?w False a bk w1"
    using command_board [of ?w rf mr a] i write_command_address [OF a]
    by (auto simp: link_idle_def board_bank_def)
  obtain ad where t2: "in_transfer ?w False ad (write_run a data bk) (sendBytes (sim_with rf mr) data w1)"
    using sendBytes_board [OF t1, of data rf mr] by blast
  let ?w3 = "(deselectFpga (sim_with rf mr) (sendBytes (sim_with rf mr) data w1))\<lparr>bd_locked := False\<rparr>"
  have "fpgaRegistersWriteBurst (sim_with rf mr) a data s = (True, s\<lparr>world := ?w3\<rparr>)"
    using i a d w1 unfolding link_idle_def
    by (simp add: fpgaRegistersWriteBurst_def takeLock_def releaseLock_def address_max_iff)
  then show ?thesis
    using deselect_board [OF t2, where rf = rf and mr = mr] i by (auto simp: at_rest_def intro!: exI [of _ ?w3])
qed

lemma read_at_rest:
  assumes r: "at_rest s bk e" and a: "a \<le> 0x7F" and n: "n \<noteq> 0"
  shows "\<exists>w. fpgaRegistersRead (sim_with rf mr) a n s = (Some (read_run a (unat n) bk), s\<lparr>world := w\<rparr>)
    \<and> at_rest (s\<lparr>world := w\<rparr>) bk e"
proof -
  let ?w = "(world s)\<lparr>bd_locked := True\<rparr>"
  have i: "link_idle (world s)" "board_bank (world s) = bk" "bd_eeprom (world s) = e" "glFpgaLockReady s"
    using r by (auto simp: at_rest_def)
  obtain w1 where w1: "transferByte (sim_with rf mr) (0x80 OR a) (selectFpga (sim_with rf mr) ?w) = (0, w1)"
    and t1: "in_transfer ?w True a bk w1"
    using command_board [of ?w rf mr "0x80 OR a"] i read_command_address [OF a]
    by (auto simp: link_idle_def board_bank_def)
  obtain ad w2 where w2: "receiveBytes (sim_with rf mr) (unat n) w1 = (read_run a (unat n) bk, w2)"
    and t2: "in_transfer ?w True ad bk w2"
    using receiveBytes_board [OF t1, of rf mr "unat n"] by blast
  let ?w3 = "(deselectFpga (sim_with rf mr) w2)\<lparr>bd_locked := False\<rparr>"
  have "fpgaRegistersRead (sim_with rf mr) a n s = (Some (read_run a (unat n) bk), s\<lparr>world := ?w3\<rparr>)"
    using i a n w1 w2 unfolding link_idle_def
    by (simp add: fpgaRegistersRead_def takeLock_def releaseLock_def address_max_iff)
  then show ?thesis
    using deselect_board [OF t2, where rf = rf and mr = mr] i by (auto simp: at_rest_def intro!: exI [of _ ?w3])
qed

end
