(* ===== verification/GatewareFlash.thy ===== *)
theory GatewareFlash
  imports Gateware
begin

text \<open>
  The flash driver of \<open>EpcsFlash\<close> on the gateware of \<open>Gateware\<close>: every operation of the driver
  succeeds on a healthy part, does to the memory cells exactly what its name says, and leaves
  the bridge locked and the flash deselected.
\<close>

subsection \<open>Steps of the bank\<close>

definition bank_step ::
    "byte list \<Rightarrow> (('b board_scheme, 'z) epcs_scheme \<Rightarrow> bool \<times> ('b board_scheme, 'z) epcs_scheme)
     \<Rightarrow> bank \<Rightarrow> bank \<Rightarrow> bool" where
  "bank_step c f bk bk' \<longleftrightarrow>
     (\<forall>s e. glEpcsCommand s = c \<longrightarrow> at_rest s bk e \<longrightarrow>
        (\<exists>w. f s = (True, s\<lparr>world := w\<rparr>) \<and> at_rest (s\<lparr>world := w\<rparr>) bk' e))"

lemma bank_step_nil: "bank_step c (all_ok []) bk bk"
  unfolding bank_step_def
proof (intro allI impI)
  fix s :: "('a board_scheme, 'b) epcs_scheme" and e
  assume "at_rest s bk e"
  then show "\<exists>w. all_ok [] s = (True, s\<lparr>world := w\<rparr>) \<and> at_rest (s\<lparr>world := w\<rparr>) bk e"
    by (intro exI [of _ "world s"]) simp
qed

lemma bank_step_cons:
  assumes "bank_step c f b0 b1" and "bank_step c (all_ok fs) b1 b2"
  shows "bank_step c (all_ok (f # fs)) b0 b2"
  unfolding bank_step_def
proof (intro allI impI)
  fix s :: "('a board_scheme, 'b) epcs_scheme" and e
  assume c: "glEpcsCommand s = c" and r: "at_rest s b0 e"
  obtain w where w: "f s = (True, s\<lparr>world := w\<rparr>)" "at_rest (s\<lparr>world := w\<rparr>) b1 e"
    using assms(1) c r unfolding bank_step_def by blast
  have "glEpcsCommand (s\<lparr>world := w\<rparr>) = c" using c by simp
  then obtain w' where "all_ok fs (s\<lparr>world := w\<rparr>) = (True, s\<lparr>world := w, world := w'\<rparr>)"
    "at_rest (s\<lparr>world := w, world := w'\<rparr>) b2 e"
    using assms(2) w(2) unfolding bank_step_def by blast
  then show "\<exists>w. all_ok (f # fs) s = (True, s\<lparr>world := w\<rparr>) \<and> at_rest (s\<lparr>world := w\<rparr>) b2 e"
    using w(1) by auto
qed

lemma bank_step_write:
  "a \<le> 0x7F \<Longrightarrow> bank_step c (fpgaRegistersWrite (sim_with rf mr) a v) bk (reg_write a v bk)"
  unfolding bank_step_def using write_at_rest [where rf = rf and mr = mr] by blast

lemma bank_step_send:
  "data \<noteq> [] \<Longrightarrow> bank_step c (epcsSend (sim_with rf mr) data) bk (write_run 0x22 data bk)"
proof -
  assume "data \<noteq> []"
  moreover have "(0x22 :: byte) \<le> 0x7F" by simp
  ultimately show ?thesis unfolding bank_step_def epcsSend_def using burst_at_rest [where rf = rf and mr = mr] by blast
qed

lemma bank_step_send_command:
  "take n c \<noteq> [] \<Longrightarrow>
     bank_step c (epcsSendCommand (sim_with rf mr) n) bk (write_run 0x22 (take n c) bk)"
  using bank_step_send [of "take n c" c rf mr bk] unfolding bank_step_def epcsSendCommand_def by auto

subsection \<open>The flash as the driver meets it\<close>

text \<open>A bank with the bridge open, and one at rest between operations.\<close>

definition opened :: "bank \<Rightarrow> bool \<Rightarrow> flash_chip \<Rightarrow> bank" where
  "opened bk sel fl = bk\<lparr>bk_progress := 0, bk_unlocked := True, bk_select := sel, bk_flash := fl\<rparr>"

definition quiet :: "bank \<Rightarrow> bool" where
  "quiet bk \<longleftrightarrow> bk_progress bk = 0 \<and> \<not> bk_unlocked bk \<and> \<not> bk_select bk
     \<and> fc_frame (bk_flash bk) = [] \<and> fc_busy (bk_flash bk) = 0 \<and> \<not> fc_wel (bk_flash bk)
     \<and> fc_latency (bk_flash bk) < 8000"

lemma reg_write_bridge [simp]:
  "reg_write 0x20 b bk = write_unlock b bk"
  "reg_write 0x21 b bk = write_control b bk"
  "reg_write 0x22 b bk = write_data b bk"
  by (simp_all add: reg_write_def)

lemma address_next_data [simp]: "address_next 0x22 = 0x22"
  by (simp add: address_next_def)

lemma unlock_bank:
  "quiet bk \<Longrightarrow> write_unlock 0xAA (write_unlock 0x55 (write_unlock 0x44 (write_unlock 0x44 bk)))
     = opened bk False (bk_flash bk)"
  by (cases bk) (simp add: write_unlock_def select_flash_def quiet_def opened_def)

lemma select_bank:
  "write_control 1 (opened bk False fl) = opened bk True (fl\<lparr>fc_frame := []\<rparr>)"
  by (cases bk) (simp add: write_control_def select_flash_def opened_def)

lemma release_bank:
  "write_control 0 (opened bk True fl) = opened bk False (flash_release fl)"
  by (cases bk) (simp add: write_control_def select_flash_def opened_def)

lemma send_bank:
  assumes "(fc_frame fl @ bs) ! 0 \<noteq> UPDATE_EPCS_READ_STATUS"
  shows "\<exists>r. write_run 0x22 bs (opened bk True fl)
           = opened (bk\<lparr>bk_received := r\<rparr>) True (fl\<lparr>fc_frame := fc_frame fl @ bs\<rparr>)"
  using assms
proof (induction bs arbitrary: bk fl)
  case Nil
  then show ?case
    by (intro exI [of _ "bk_received bk"]) simp
next
  case (Cons b bs)
  have "snd (flash_shift b fl) = fl\<lparr>fc_frame := fc_frame fl @ [b]\<rparr>"
    using Cons.prems by (cases "fc_frame fl = []") (auto simp: flash_shift_def Let_def nth_append)
  then obtain r where r: "flash_shift b fl = (r, fl\<lparr>fc_frame := fc_frame fl @ [b]\<rparr>)"
    by (cases "flash_shift b fl") auto
  have "write_data b (opened bk True fl)
      = opened (bk\<lparr>bk_received := r\<rparr>) True (fl\<lparr>fc_frame := fc_frame fl @ [b]\<rparr>)"
    using r by (cases bk) (simp add: write_data_def opened_def)
  then show ?case
    using Cons.IH [of "fl\<lparr>fc_frame := fc_frame fl @ [b]\<rparr>" "bk\<lparr>bk_received := r\<rparr>"] Cons.prems
    by auto
qed

lemma opened_received [simp]:
  "bk_received (opened bk sel fl) = bk_received bk"
  "bk_flash (opened bk sel fl) = fl"
  "(opened bk sel fl)\<lparr>bk_received := r, bk_flash := fl'\<rparr> = opened (bk\<lparr>bk_received := r\<rparr>) sel fl'"
  by (cases bk, simp add: opened_def)+

lemma write_data_opened:
  "write_data b (opened bk True fl) =
     (let (r, fl') = flash_shift b fl in opened (bk\<lparr>bk_received := r\<rparr>) True fl')"
  by (cases bk) (simp add: write_data_def opened_def split: prod.splits)

subsection \<open>Framed commands\<close>

lemma assert_step:
  "bank_step c (epcsAssert (sim_with rf mr)) (opened bk False fl) (opened bk True (fl\<lparr>fc_frame := []\<rparr>))"
  using bank_step_write [of "0x21" c rf mr 1 "opened bk False fl"]
  unfolding epcsAssert_def reg_write_bridge select_bank by simp

lemma release_step:
  "bank_step c (epcsRelease (sim_with rf mr)) (opened bk True fl) (opened bk False (flash_release fl))"
  using bank_step_write [of "0x21" c rf mr 0 "opened bk True fl"]
  unfolding epcsRelease_def reg_write_bridge release_bank by simp

lemma send_run:
  assumes "bs \<noteq> []" and "bs ! 0 \<noteq> UPDATE_EPCS_READ_STATUS"
  shows "\<exists>r. write_run 0x22 bs (opened bk True (fl\<lparr>fc_frame := []\<rparr>))
           = opened (bk\<lparr>bk_received := r\<rparr>) True (fl\<lparr>fc_frame := bs\<rparr>)"
  using send_bank [of "fl\<lparr>fc_frame := []\<rparr>" bs bk] assms by simp

lemma write_enable_step:
  assumes "fc_busy fl = 0"
  shows "bank_step c (epcsWriteEnable (sim_with rf mr)) (opened bk False fl)
    (opened (bk\<lparr>bk_received := 0xFF\<rparr>) False (fl\<lparr>fc_frame := [], fc_wel := True\<rparr>))"
proof -
  let ?fl = "fl\<lparr>fc_frame := [UPDATE_EPCS_WRITE_ENABLE]\<rparr>"
  have r: "write_run 0x22 [UPDATE_EPCS_WRITE_ENABLE] (opened bk True (fl\<lparr>fc_frame := []\<rparr>))
      = opened (bk\<lparr>bk_received := 0xFF\<rparr>) True ?fl"
    by (simp add: write_data_opened flash_shift_def Let_def)
  have f: "flash_release ?fl = fl\<lparr>fc_frame := [], fc_wel := True\<rparr>"
    using assms by (simp add: flash_release_def Let_def)
  show ?thesis
    unfolding epcsWriteEnable_def f [symmetric]
    by (rule bank_step_cons [OF assert_step], rule bank_step_cons [OF bank_step_send], simp,
        unfold r, rule bank_step_cons [OF release_step bank_step_nil])
qed

subsection \<open>Polling and reading\<close>

lemma transfer_at_rest:
  assumes "at_rest s bk e"
  shows "\<exists>w. epcsTransfer (sim_with rf mr) b s = (Some (bk_received (write_data b bk)), s\<lparr>world := w\<rparr>)
    \<and> at_rest (s\<lparr>world := w\<rparr>) (write_data b bk) e"
proof -
  have a: "(0x22 :: byte) \<le> 0x7F" by simp
  obtain w where w: "fpgaRegistersWrite (sim_with rf mr) 0x22 b s = (True, s\<lparr>world := w\<rparr>)"
    "at_rest (s\<lparr>world := w\<rparr>) (write_data b bk) e"
    using write_at_rest [OF assms a, of rf mr b] by auto
  obtain w' where "fpgaRegistersRead (sim_with rf mr) 0x22 1 (s\<lparr>world := w\<rparr>)
      = (Some [reg_read 0x22 (write_data b bk)], s\<lparr>world := w, world := w'\<rparr>)"
    "at_rest (s\<lparr>world := w, world := w'\<rparr>) (write_data b bk) e"
    using read_at_rest [OF w(2) a, of 1 rf mr] by auto
  then show ?thesis
    using w(1) by (intro exI [of _ w']) (simp add: epcsTransfer_def reg_read_def)
qed

lemma poll_shift:
  assumes "fc_frame fl = UPDATE_EPCS_READ_STATUS # fr"
  shows "flash_shift b fl = ((if 0 < fc_busy fl then 1 else 0) OR (if fc_wel fl then 2 else 0),
    fl\<lparr>fc_frame := fc_frame fl @ [b], fc_busy := fc_busy fl - 1\<rparr>)"
  using assms by (simp add: flash_shift_def Let_def)

lemma status_busy:
  "((if p then 1 else 0) OR (if q then 2 else 0)) AND (1 :: byte) = 0 \<longleftrightarrow> \<not> p"
  by simp

lemma wait_loop_step:
  fixes s :: "('b board_scheme, 'z) epcs_scheme"
  assumes "fc_frame fl = UPDATE_EPCS_READ_STATUS # fr" and "waited + fc_busy fl < 8000"
    and "at_rest s (opened bk True fl) e"
  shows "\<exists>w. epcsWaitReady_loop (sim_with rf mr) waited s = (True, s\<lparr>world := w\<rparr>)
    \<and> at_rest (s\<lparr>world := w\<rparr>)
        (opened (bk\<lparr>bk_received := if fc_wel fl then 2 else 0\<rparr>) False
          (fl\<lparr>fc_frame := [], fc_busy := 0\<rparr>)) e"
  using assms
proof (induction "fc_busy fl" arbitrary: fl fr waited s bk)
  case 0
  let ?fl = "fl\<lparr>fc_frame := fc_frame fl @ [0xFF], fc_busy := 0\<rparr>"
  let ?r = "if fc_wel fl then 2 else 0 :: byte"
  have d: "write_data 0xFF (opened bk True fl) = opened (bk\<lparr>bk_received := ?r\<rparr>) True ?fl"
    using 0 poll_shift [OF 0(2)] by (simp add: write_data_opened)
  obtain w where w: "epcsTransfer (sim_with rf mr) 0xFF s = (Some ?r, s\<lparr>world := w\<rparr>)"
    "at_rest (s\<lparr>world := w\<rparr>) (opened (bk\<lparr>bk_received := ?r\<rparr>) True ?fl) e"
    using transfer_at_rest [OF 0(4), of rf mr "0xFF"] unfolding d by auto
  have "flash_release ?fl = fl\<lparr>fc_frame := [], fc_busy := 0\<rparr>"
    using 0(2) by (simp add: flash_release_def Let_def)
  then obtain w' where "epcsRelease (sim_with rf mr) (s\<lparr>world := w\<rparr>) = (True, s\<lparr>world := w'\<rparr>)"
    "at_rest (s\<lparr>world := w'\<rparr>)
       (opened (bk\<lparr>bk_received := ?r\<rparr>) False (fl\<lparr>fc_frame := [], fc_busy := 0\<rparr>)) e"
    using release_step [of "glEpcsCommand (s\<lparr>world := w\<rparr>)" rf mr "bk\<lparr>bk_received := ?r\<rparr>" ?fl] w(2)
    unfolding bank_step_def by fastforce
  moreover have "?r AND 1 = 0" by simp
  ultimately show ?case
    using 0(1,3) w(1) by (subst epcsWaitReady_loop.simps) auto
next
  case (Suc n)
  let ?fl = "fl\<lparr>fc_frame := fc_frame fl @ [0xFF], fc_busy := n\<rparr>"
  let ?r = "1 OR (if fc_wel fl then 2 else 0) :: byte"
  have d: "write_data 0xFF (opened bk True fl) = opened (bk\<lparr>bk_received := ?r\<rparr>) True ?fl"
    using Suc(2) poll_shift [OF Suc(3)] by (simp add: write_data_opened flip: Suc(2))
  obtain w where w: "epcsTransfer (sim_with rf mr) 0xFF s = (Some ?r, s\<lparr>world := w\<rparr>)"
    "at_rest (s\<lparr>world := w\<rparr>) (opened (bk\<lparr>bk_received := ?r\<rparr>) True ?fl) e"
    using transfer_at_rest [OF Suc(5), of rf mr "0xFF"] unfolding d by auto
  obtain w' where "epcsWaitReady_loop (sim_with rf mr) (waited + 1) (s\<lparr>world := w\<rparr>)
      = (True, s\<lparr>world := w, world := w'\<rparr>)"
    "at_rest (s\<lparr>world := w, world := w'\<rparr>)
       (opened (bk\<lparr>bk_received := ?r, bk_received := if fc_wel ?fl then 2 else 0\<rparr>) False
         (?fl\<lparr>fc_frame := [], fc_busy := 0\<rparr>)) e"
    using Suc(1) [of ?fl "fr @ [0xFF]" "waited + 1" "s\<lparr>world := w\<rparr>" "bk\<lparr>bk_received := ?r\<rparr>"]
      Suc(2,3,4) w(2) by auto
  moreover have "?r AND 1 \<noteq> 0" by simp
  ultimately show ?case
    using Suc(2,4) w(1) by (subst epcsWaitReady_loop.simps) auto
qed

lemma wait_ready_step:
  assumes "fc_busy fl < 8000"
  shows "bank_step c (epcsWaitReady (sim_with rf mr) :: ('b board_scheme, 'z) epcs_scheme \<Rightarrow> _) (opened bk False fl)
    (opened (bk\<lparr>bk_received := if fc_wel fl then 2 else 0\<rparr>) False (fl\<lparr>fc_frame := [], fc_busy := 0\<rparr>))"
proof -
  let ?fl = "fl\<lparr>fc_frame := [UPDATE_EPCS_READ_STATUS]\<rparr>"
  have r: "write_run 0x22 [UPDATE_EPCS_READ_STATUS] (opened bk True (fl\<lparr>fc_frame := []\<rparr>))
      = opened (bk\<lparr>bk_received := 0xFF\<rparr>) True ?fl"
    by (simp add: write_data_opened flash_shift_def Let_def)
  have "bank_step c (epcsWaitReady_loop (sim_with rf mr) 0 :: ('b board_scheme, 'z) epcs_scheme \<Rightarrow> _) (opened (bk\<lparr>bk_received := 0xFF\<rparr>) True ?fl)
    (opened (bk\<lparr>bk_received := if fc_wel fl then 2 else 0\<rparr>) False (fl\<lparr>fc_frame := [], fc_busy := 0\<rparr>))"
    unfolding bank_step_def
  proof (intro allI impI)
    fix s :: "('b board_scheme, 'z) epcs_scheme" and e
    assume "at_rest s (opened (bk\<lparr>bk_received := 0xFF\<rparr>) True ?fl) e"
    then show "\<exists>w. epcsWaitReady_loop (sim_with rf mr) 0 s = (True, s\<lparr>world := w\<rparr>)
      \<and> at_rest (s\<lparr>world := w\<rparr>) (opened (bk\<lparr>bk_received := if fc_wel fl then 2 else 0\<rparr>) False
            (fl\<lparr>fc_frame := [], fc_busy := 0\<rparr>)) e"
      using wait_loop_step [of ?fl "[]" 0 s "bk\<lparr>bk_received := 0xFF\<rparr>" e] assms
      by (simp split del: if_split)
  qed
  then show ?thesis
    unfolding epcsWaitReady_def
    by (intro bank_step_cons [OF assert_step]) (rule bank_step_cons [OF bank_step_send], simp,
        unfold r, rule bank_step_cons [OF _ bank_step_nil])
qed

text \<open>An erase or a program: enable, frame the command, wait for the part to finish.\<close>

lemma write_cycle_step:
  assumes "fc_busy fl = 0" and "fc_latency fl < 8000"
    and "take n c = cmd" and "cmd \<noteq> []" and "cmd ! 0 \<noteq> UPDATE_EPCS_READ_STATUS"
    and "flash_release (fl\<lparr>fc_wel := True, fc_frame := cmd\<rparr>)
         = fl\<lparr>fc_frame := [], fc_mem := m, fc_wel := False, fc_busy := fc_latency fl\<rparr>"
  shows "bank_step c (all_ok [epcsWriteEnable (sim_with rf mr), epcsAssert (sim_with rf mr),
      epcsSendCommand (sim_with rf mr) n, epcsRelease (sim_with rf mr), epcsWaitReady (sim_with rf mr)])
    (opened bk False fl)
    (opened (bk\<lparr>bk_received := 0\<rparr>) False
       (fl\<lparr>fc_frame := [], fc_mem := m, fc_wel := False, fc_busy := 0\<rparr>))"
proof -
  let ?fl1 = "fl\<lparr>fc_frame := [], fc_wel := True\<rparr>"
  let ?bk1 = "bk\<lparr>bk_received := 0xFF\<rparr>"
  obtain r2 where r2: "write_run 0x22 cmd (opened ?bk1 True (?fl1\<lparr>fc_frame := []\<rparr>))
      = opened (?bk1\<lparr>bk_received := r2\<rparr>) True (?fl1\<lparr>fc_frame := cmd\<rparr>)"
    using send_run [OF assms(4,5), of ?bk1 ?fl1] by blast
  let ?fl2 = "fl\<lparr>fc_frame := [], fc_mem := m, fc_wel := False, fc_busy := fc_latency fl\<rparr>"
  have f: "flash_release (?fl1\<lparr>fc_frame := cmd\<rparr>) = ?fl2" using assms(6) by simp
  let ?fl3 = "fl\<lparr>fc_frame := [], fc_mem := m, fc_wel := False, fc_busy := 0\<rparr>"
  have "?fl2\<lparr>fc_frame := [], fc_busy := 0\<rparr> = ?fl3" by (cases fl) simp
  then have t: "opened (?bk1\<lparr>bk_received := r2, bk_received := if fc_wel ?fl2 then 2 else 0\<rparr>) False
        (?fl2\<lparr>fc_frame := [], fc_busy := 0\<rparr>) = opened (bk\<lparr>bk_received := 0\<rparr>) False ?fl3"
    by (cases fl) simp
  have "fc_busy ?fl2 < 8000" using assms(2) by simp
  note w = wait_ready_step [OF this, of c rf mr "?bk1\<lparr>bk_received := r2\<rparr>", unfolded t]
  show ?thesis
    apply (rule bank_step_cons [OF write_enable_step [OF assms(1)]])
    apply (rule bank_step_cons [OF assert_step])
    apply (rule bank_step_cons [OF bank_step_send_command])
    subgoal using assms(3,4) by simp
    unfolding assms(3) r2
    apply (rule bank_step_cons [OF release_step])
    unfolding f
    by (rule bank_step_cons [OF w bank_step_nil])
qed

subsection \<open>Opening and closing the bridge\<close>

definition closed :: "bank \<Rightarrow> flash_chip \<Rightarrow> bank" where
  "closed bk fl = bk\<lparr>bk_progress := 0, bk_unlocked := False, bk_select := False, bk_flash := fl\<rparr>"

lemma lock_bank:
  "write_unlock 0 (write_control 0 (opened bk False fl)) = closed bk fl"
  "write_unlock 0 (write_control 0 (opened bk True fl)) = closed bk (flash_release fl)"
  by (cases bk, simp add: write_unlock_def write_control_def select_flash_def opened_def closed_def)+

lemma lock_at_rest:
  assumes "at_rest s (opened bk sel fl) e"
  shows "\<exists>w. epcsLock (sim_with rf mr) s = s\<lparr>world := w\<rparr>
    \<and> at_rest (s\<lparr>world := w\<rparr>) (closed bk (if sel then flash_release fl else fl)) e"
proof -
  have a: "(0x20 :: byte) \<le> 0x7F" "(0x21 :: byte) \<le> 0x7F" by simp_all
  obtain w where w: "fpgaRegistersWrite (sim_with rf mr) 0x21 0 s = (True, s\<lparr>world := w\<rparr>)"
    "at_rest (s\<lparr>world := w\<rparr>) (write_control 0 (opened bk sel fl)) e"
    using write_at_rest [OF assms a(2), of rf mr 0] by auto
  obtain w' where "fpgaRegistersWrite (sim_with rf mr) 0x20 0 (s\<lparr>world := w\<rparr>)
      = (True, s\<lparr>world := w, world := w'\<rparr>)"
    "at_rest (s\<lparr>world := w, world := w'\<rparr>) (write_unlock 0 (write_control 0 (opened bk sel fl))) e"
    using write_at_rest [OF w(2) a(1), of rf mr 0] by auto
  then show ?thesis
    using w(1) by (cases sel) (auto simp: epcsLock_def lock_bank)
qed

lemma unlock_at_rest:
  fixes s :: "('b board_scheme, 'z) epcs_scheme"
  assumes "at_rest s bk e" and "quiet bk" and "fpgaRegistersHasFlashBridge s"
  shows "\<exists>w. epcsUnlock (sim_with rf mr) s = (True, s\<lparr>world := w\<rparr>)
    \<and> at_rest (s\<lparr>world := w\<rparr>) (opened bk False (bk_flash bk)) e"
proof -
  have a: "(0x20 :: byte) \<le> 0x7F" by simp
  have "bank_step (glEpcsCommand s) (all_ok
    [fpgaRegistersWrite (sim_with rf mr) 0x20 0x44, fpgaRegistersWrite (sim_with rf mr) 0x20 0x44,
     fpgaRegistersWrite (sim_with rf mr) 0x20 0x55, fpgaRegistersWrite (sim_with rf mr) 0x20 0xAA])
    bk (opened bk False (bk_flash bk))"
    unfolding unlock_bank [OF assms(2), symmetric] reg_write_bridge [symmetric]
    by (intro bank_step_cons [OF bank_step_write [OF a]] bank_step_nil)
  then show ?thesis using assms(1,3) unfolding bank_step_def epcsUnlock_def by auto
qed

subsection \<open>What the driver's operations do\<close>

definition address_bytes :: "u32 \<Rightarrow> byte list" where
  "address_bytes a = [ucast (drop_bit 16 a), ucast (drop_bit 8 a), ucast a]"

lemma unat_byte_of: "unat (ucast (v :: u32) :: byte) = unat v mod 256"
  by (simp add: unsigned_ucast_eq take_bit_eq_mod)

lemma three_bytes: "n div 65536 * 65536 + n div 256 mod 256 * 256 + n mod 256 = (n :: nat)"
proof -
  have "n div 65536 = n div 256 div 256" by (simp add: div_mult2_eq [symmetric])
  moreover have "n div 256 div 256 * 256 + n div 256 mod 256 = n div 256"
    and "n div 256 * 256 + n mod 256 = n" by (rule div_mult_mod_eq)+
  ultimately show ?thesis by linarith
qed

lemma flash_address_bytes:
  "unat a < 16777216 \<Longrightarrow> flash_address (opcode # address_bytes a @ xs) = unat a"
  using three_bytes [of "unat a"]
  by (simp add: flash_address_def address_bytes_def unat_byte_of unat_drop_bit_eq drop_bit_eq_div
      unat_div)

lemma command_bytes:
  assumes "4 \<le> length (glEpcsCommand s)"
  shows "glEpcsCommand (epcsCommand opcode a s)
         = opcode # address_bytes a @ drop 4 (glEpcsCommand s)"
proof -
  obtain b0 b1 b2 b3 rest where "glEpcsCommand s = b0 # b1 # b2 # b3 # rest"
    using assms by (auto simp: Suc_le_length_iff eval_nat_numeral)
  then show ?thesis
    by (simp add: epcsCommand_def address_bytes_def eval_nat_numeral)
qed

definition with_cells :: "memory \<Rightarrow> byte \<Rightarrow> bank \<Rightarrow> bank" where
  "with_cells m r bk = bk\<lparr>bk_received := r, bk_flash := (bk_flash bk)\<lparr>fc_mem := m\<rparr>\<rparr>"

lemma quiet_with_cells [simp]: "quiet (with_cells m r bk) = quiet bk"
  by (simp add: quiet_def with_cells_def)

lemma with_cells_mem [simp]: "fc_mem (bk_flash (with_cells m r bk)) = m"
  by (simp add: with_cells_def)

lemma closed_quiet:
  assumes "quiet bk"
  shows "closed (bk\<lparr>bk_received := r\<rparr>) ((bk_flash bk)\<lparr>fc_frame := [], fc_mem := m, fc_wel := False,
    fc_busy := 0\<rparr>) = with_cells m r bk"
proof (cases bk)
  case (fields i t l d p u s r f c)
  then show ?thesis using assms
    by (cases f) (simp add: closed_def with_cells_def quiet_def)
qed

lemma erase_release:
  assumes "fc_busy fl = 0" and "unat a < 16777216"
  shows "flash_release (fl\<lparr>fc_wel := True, fc_frame := UPDATE_EPCS_ERASE_SECTOR # address_bytes a\<rparr>)
    = fl\<lparr>fc_frame := [], fc_mem := erased_cells (unat a) (fc_mem fl), fc_wel := False,
         fc_busy := fc_latency fl\<rparr>"
proof (cases fl)
  case (fields m wel b fr lat id)
  let ?fr = "UPDATE_EPCS_ERASE_SECTOR # address_bytes a"
  have f: "flash_address ?fr = unat a"
    using flash_address_bytes [OF assms(2), of UPDATE_EPCS_ERASE_SECTOR "[]"] by simp
  have c: "?fr \<noteq> []" "?fr \<noteq> [UPDATE_EPCS_WRITE_ENABLE]" "?fr ! 0 = UPDATE_EPCS_ERASE_SECTOR"
    "length ?fr = 4"
    by (simp_all add: address_bytes_def)
  show ?thesis
    using assms(1)
    unfolding fields flash_release_def Let_def flash_chip.simps f erased_cells_def
    by (simp only: c less_irrefl simp_thms if_True if_False)
qed

lemma page_offset:
  assumes "a mod 256 + k \<le> (256 :: nat)" and "a - a mod 256 \<le> i" and "i < a - a mod 256 + 256"
  shows "(i + 256 - a) mod 256 < k \<longleftrightarrow> a \<le> i \<and> i < a + k"
    and "a \<le> i \<Longrightarrow> (i + 256 - a) mod 256 = i - a"
proof -
  have le: "a mod 256 \<le> a" by simp
  show in_page: "(i + 256 - a) mod 256 = i - a" if "a \<le> i"
  proof -
    have e: "i + 256 - a = (i - a) + 256" using that by simp
    have "a - a mod 256 + 256 \<le> a + 256" using le by simp
    then have "i - a < 256" using assms(3) that by linarith
    then show ?thesis unfolding e by simp
  qed
  show "(i + 256 - a) mod 256 < k \<longleftrightarrow> a \<le> i \<and> i < a + k"
  proof (cases "a \<le> i")
    case True
    then show ?thesis using in_page by auto
  next
    case False
    define r where "r = a mod 256"
    have r: "r + k \<le> 256" "a - r \<le> i" "r \<le> a" using assms le by (simp_all only: r_def)
    have "i + 256 - a < 256" using False by simp
    moreover have "k \<le> i + 256 - a" using r by linarith
    ultimately show ?thesis using False by (simp only: mod_less) simp
  qed
qed

lemma program_release:
  assumes "fc_busy fl = 0" and "unat a < 16777216" and "data \<noteq> []"
    and "unat a mod 256 + length data \<le> 256"
  shows "flash_release (fl\<lparr>fc_wel := True,
      fc_frame := UPDATE_EPCS_PAGE_PROGRAM # address_bytes a @ data\<rparr>)
    = fl\<lparr>fc_frame := [], fc_mem := programmed_cells (unat a) data (fc_mem fl), fc_wel := False,
         fc_busy := fc_latency fl\<rparr>"
proof -
  let ?fr = "UPDATE_EPCS_PAGE_PROGRAM # address_bytes a @ data"
  let ?b = "unat a - unat a mod 256"
  have len: "length ?fr - 4 = length data" "4 < length ?fr" "length ?fr \<noteq> 1"
    using assms(3) by (simp_all add: address_bytes_def)
  have nth: "?fr ! (4 + k) = data ! k" for k by (simp add: address_bytes_def eval_nat_numeral)
  let ?wrap = "\<lambda>i. if ?b \<le> i \<and> i < ?b + 256 \<and> (i + 256 - unat a) mod 256 < length ?fr - 4
        then fc_mem fl i AND ?fr ! (4 + (i + 256 - unat a) mod 256) else fc_mem fl i"
  have wrap: "?wrap = programmed_cells (unat a) data (fc_mem fl)"
  proof (rule ext)
    fix i
    show "?wrap i = programmed_cells (unat a) data (fc_mem fl) i"
    proof (cases "?b \<le> i \<and> i < ?b + 256")
      case True
      then show ?thesis
        using page_offset [OF assms(4), of i] unfolding len nth programmed_cells_def by auto
    next
      case False
      then have "\<not> (unat a \<le> i \<and> i < unat a + length data)"
        using assms(4) by linarith
      then show ?thesis using False by (auto simp: programmed_cells_def)
    qed
  qed
  have f: "flash_address ?fr = unat a" by (rule flash_address_bytes [OF assms(2)])
  have c: "?fr \<noteq> []" "?fr \<noteq> [UPDATE_EPCS_WRITE_ENABLE]" "?fr ! 0 = UPDATE_EPCS_PAGE_PROGRAM"
    "\<not> (UPDATE_EPCS_PAGE_PROGRAM :: byte) = UPDATE_EPCS_ERASE_SECTOR"
    by (simp_all add: address_bytes_def)
  show ?thesis
  proof (cases fl)
    case (fields m wel b fr lat id)
    show ?thesis
      using wrap assms(1)
      unfolding fields flash_release_def Let_def flash_chip.simps f len
      by (simp only: c len(2) less_irrefl simp_thms if_True if_False)
  qed
qed

subsection \<open>The driver's operations\<close>

text \<open>What every completed operation leaves: the link at rest, the bank as named.\<close>

lemma at_rest_command [simp]:
  "at_rest (s\<lparr>world := w, glEpcsCommand := c\<rparr>) = at_rest (s\<lparr>world := w\<rparr>)"
  "at_rest (s\<lparr>glEpcsCommand := c, world := w\<rparr>) = at_rest (s\<lparr>world := w\<rparr>)"
  by (simp_all add: fun_eq_iff at_rest_def)

lemma write_operation:
  fixes s :: "('b board_scheme, 'z) epcs_scheme"
  assumes r: "at_rest s bk e" and q: "quiet bk" and br: "fpgaRegistersHasFlashBridge s"
    and cmd: "take n c = cmd" "cmd \<noteq> []" "cmd ! 0 \<noteq> UPDATE_EPCS_READ_STATUS"
    and rel: "flash_release ((bk_flash bk)\<lparr>fc_wel := True, fc_frame := cmd\<rparr>)
      = (bk_flash bk)\<lparr>fc_frame := [], fc_mem := m, fc_wel := False,
                      fc_busy := fc_latency (bk_flash bk)\<rparr>"
    and set: "\<And>w. set_command (s\<lparr>world := w\<rparr>) = s\<lparr>world := w, glEpcsCommand := c\<rparr>"
  shows "\<exists>w. (let (ok, s) = epcsUnlock (sim_with rf mr) s
       in if \<not> ok then (False, s) else
       let s = set_command s;
           (ok, s) = all_ok [epcsWriteEnable (sim_with rf mr), epcsAssert (sim_with rf mr),
             epcsSendCommand (sim_with rf mr) n, epcsRelease (sim_with rf mr), epcsWaitReady (sim_with rf mr)] s
       in (ok, epcsLock (sim_with rf mr) s)) = (True, s\<lparr>world := w, glEpcsCommand := c\<rparr>)
    \<and> at_rest (s\<lparr>world := w, glEpcsCommand := c\<rparr>) (with_cells m 0 bk) e"
proof -
  let ?fl = "bk_flash bk"
  obtain w1 where w1: "epcsUnlock (sim_with rf mr) s = (True, s\<lparr>world := w1\<rparr>)"
    and r1: "at_rest (s\<lparr>world := w1\<rparr>) (opened bk False ?fl) e"
    using unlock_at_rest [OF r q br, where rf = rf and mr = mr] by blast
  let ?s1 = "s\<lparr>world := w1, glEpcsCommand := c\<rparr>"
  have r1': "at_rest ?s1 (opened bk False ?fl) e" using r1 by (simp add: at_rest_def)
  have cmd_s1: "glEpcsCommand ?s1 = c" by simp
  have q': "fc_busy ?fl = 0" "fc_latency ?fl < 8000" using q by (simp_all add: quiet_def)
  let ?fl' = "?fl\<lparr>fc_frame := [], fc_mem := m, fc_wel := False, fc_busy := 0\<rparr>"
  obtain w2 where w2: "all_ok [epcsWriteEnable (sim_with rf mr), epcsAssert (sim_with rf mr),
      epcsSendCommand (sim_with rf mr) n, epcsRelease (sim_with rf mr), epcsWaitReady (sim_with rf mr)] ?s1
      = (True, ?s1\<lparr>world := w2\<rparr>)"
    and r2: "at_rest (?s1\<lparr>world := w2\<rparr>) (opened (bk\<lparr>bk_received := 0\<rparr>) False ?fl') e"
    using write_cycle_step [OF q' cmd rel, of rf mr bk] r1' cmd_s1 unfolding bank_step_def by blast
  obtain w3 where w3: "epcsLock (sim_with rf mr) (?s1\<lparr>world := w2\<rparr>) = ?s1\<lparr>world := w2, world := w3\<rparr>"
    and r3: "at_rest (?s1\<lparr>world := w2, world := w3\<rparr>) (closed (bk\<lparr>bk_received := 0\<rparr>) ?fl') e"
    using lock_at_rest [OF r2, where rf = rf and mr = mr] by auto
  have "?s1\<lparr>world := w2, world := w3\<rparr> = s\<lparr>world := w3, glEpcsCommand := c\<rparr>" by simp
  then show ?thesis
    using w3 r3 closed_quiet [OF q, of 0 m]
    by (intro exI [of _ w3]) (simp add: w1 set w2 del: all_ok.simps)
qed

lemma epcsCommand_eq:
  assumes "4 \<le> length (glEpcsCommand s)"
  shows "epcsCommand opcode a (s\<lparr>world := w\<rparr>)
    = s\<lparr>world := w, glEpcsCommand := opcode # address_bytes a @ drop 4 (glEpcsCommand s)\<rparr>"
  using command_bytes [of "s\<lparr>world := w\<rparr>" opcode a] assms
  by (simp add: epcsCommand_def)

lemma erase_at_rest:
  fixes s :: "('b board_scheme, 'z) epcs_scheme"
  assumes "at_rest s bk e" and "quiet bk" and "fpgaRegistersHasFlashBridge s"
    and "4 \<le> length (glEpcsCommand s)" and "unat a < 16777216"
  shows "\<exists>w c. epcsFlashEraseSector (sim_with rf mr) a s = (True, s\<lparr>world := w, glEpcsCommand := c\<rparr>)
    \<and> length c = length (glEpcsCommand s)
    \<and> at_rest (s\<lparr>world := w, glEpcsCommand := c\<rparr>)
        (with_cells (erased_cells (unat a) (fc_mem (bk_flash bk))) 0 bk) e"
proof -
  let ?b = "updateEpcsSectorBase a"
  let ?c = "UPDATE_EPCS_ERASE_SECTOR # address_bytes ?b @ drop 4 (glEpcsCommand s)"
  have len: "length (address_bytes x) = 3" for x by (simp add: address_bytes_def)
  have b: "unat ?b = unat a - unat a mod 65536" by (rule unat_updateEpcsSectorBase)
  then have "unat ?b < 16777216" using assms(5) by linarith
  moreover have "erased_cells (unat ?b) = erased_cells (unat a)"
    by (simp add: fun_eq_iff erased_cells_def b)
  ultimately have rel: "flash_release ((bk_flash bk)\<lparr>fc_wel := True,
      fc_frame := UPDATE_EPCS_ERASE_SECTOR # address_bytes ?b\<rparr>)
    = (bk_flash bk)\<lparr>fc_frame := [], fc_mem := erased_cells (unat a) (fc_mem (bk_flash bk)),
        fc_wel := False, fc_busy := fc_latency (bk_flash bk)\<rparr>"
    using erase_release [of "bk_flash bk" ?b] assms(2) by (simp add: quiet_def)
  have cmd: "take 4 ?c = UPDATE_EPCS_ERASE_SECTOR # address_bytes ?b"
    by (simp add: len)
  obtain w where "epcsFlashEraseSector (sim_with rf mr) a s = (True, s\<lparr>world := w, glEpcsCommand := ?c\<rparr>)"
    and "at_rest (s\<lparr>world := w, glEpcsCommand := ?c\<rparr>)
        (with_cells (erased_cells (unat a) (fc_mem (bk_flash bk))) 0 bk) e"
    using write_operation [OF assms(1-3) cmd _ _ rel, where rf = rf and mr = mr and set_command = "epcsCommand UPDATE_EPCS_ERASE_SECTOR ?b"]
      epcsCommand_eq [OF assms(4)]
    unfolding epcsFlashEraseSector_def Let_def by auto
  moreover have "length ?c = length (glEpcsCommand s)" using assms(4) by (simp add: len)
  ultimately show ?thesis by blast
qed

lemma program_at_rest:
  fixes s :: "('b board_scheme, 'z) epcs_scheme"
  assumes "at_rest s bk e" and "quiet bk" and "fpgaRegistersHasFlashBridge s"
    and "length (glEpcsCommand s) = 260" and "unat a < 16777216"
    and "data \<noteq> []" and "unat a mod 256 + length data \<le> 256"
  shows "\<exists>w c. epcsFlashProgramPage (sim_with rf mr) a data s = (True, s\<lparr>world := w, glEpcsCommand := c\<rparr>)
    \<and> length c = length (glEpcsCommand s)
    \<and> at_rest (s\<lparr>world := w, glEpcsCommand := c\<rparr>)
        (with_cells (programmed_cells (unat a) data (fc_mem (bk_flash bk))) 0 bk) e"
proof -
  have len: "length (address_bytes x) = 3" for x by (simp add: address_bytes_def)
  define buf where "buf = UPDATE_EPCS_PAGE_PROGRAM # address_bytes a @ drop 4 (glEpcsCommand s)"
  have lbuf: "length buf = 260" using assms(4) by (simp add: buf_def len)
  define c where "c = blit buf 4 data"
  have ld: "length data \<le> 256" using assms(7) by linarith
  have lc: "length c = 260" using lbuf ld by (simp add: c_def)
  have cmd: "take (4 + length data) c = UPDATE_EPCS_PAGE_PROGRAM # address_bytes a @ data"
    using lbuf by (simp add: c_def) (simp add: buf_def len)
  have rel: "flash_release ((bk_flash bk)\<lparr>fc_wel := True,
      fc_frame := UPDATE_EPCS_PAGE_PROGRAM # address_bytes a @ data\<rparr>)
    = (bk_flash bk)\<lparr>fc_frame := [], fc_mem := programmed_cells (unat a) data (fc_mem (bk_flash bk)),
        fc_wel := False, fc_busy := fc_latency (bk_flash bk)\<rparr>"
    using program_release [OF _ assms(5-7), of "bk_flash bk"] assms(2) by (simp add: quiet_def)
  let ?set = "\<lambda>s. (epcsCommand UPDATE_EPCS_PAGE_PROGRAM a s)
    \<lparr>glEpcsCommand := blit (glEpcsCommand (epcsCommand UPDATE_EPCS_PAGE_PROGRAM a s)) 4 data\<rparr>"
  have set: "?set (s\<lparr>world := w\<rparr>) = s\<lparr>world := w, glEpcsCommand := c\<rparr>" for w
    using epcsCommand_eq [of s UPDATE_EPCS_PAGE_PROGRAM a w] assms(4)
    by (simp add: c_def buf_def)
  obtain w where "epcsFlashProgramPage (sim_with rf mr) a data s = (True, s\<lparr>world := w, glEpcsCommand := c\<rparr>)"
    and "at_rest (s\<lparr>world := w, glEpcsCommand := c\<rparr>)
        (with_cells (programmed_cells (unat a) data (fc_mem (bk_flash bk))) 0 bk) e"
    using write_operation [OF assms(1-3) cmd _ _ rel, where rf = rf and mr = mr and set_command = ?set] set assms(6) ld
    unfolding epcsFlashProgramPage_def Let_def by auto
  then show ?thesis using lc assms(4) by auto
qed

subsection \<open>Reading the flash\<close>

lemma read_shift:
  assumes "fc_busy fl = 0" and "fc_frame fl = UPDATE_EPCS_READ_BYTES # address_bytes a @ xs"
    and "unat a + length xs < 16777216"
  shows "flash_shift b fl = (fc_mem fl (unat a + length xs), fl\<lparr>fc_frame := fc_frame fl @ [b]\<rparr>)"
proof -
  have "flash_address (fc_frame fl) = unat a"
    unfolding assms(2) using assms(3) by (intro flash_address_bytes) simp
  moreover have "length (fc_frame fl) = 4 + length xs" "fc_frame fl ! 0 = UPDATE_EPCS_READ_BYTES"
    "fc_frame fl \<noteq> []"
    using assms(2) by (simp_all add: address_bytes_def)
  ultimately show ?thesis
    using assms(1,3) by (simp add: flash_shift_def Let_def)
qed

lemma read_loop_step:
  fixes s :: "('b board_scheme, 'z) epcs_scheme"
  assumes "fc_busy fl = 0" and "fc_frame fl = UPDATE_EPCS_READ_BYTES # address_bytes a @ xs"
    and "unat a + length xs + n \<le> 16777216" and "at_rest s (opened bk True fl) e"
  shows "\<exists>w fr r. epcsRead_loop (sim_with rf mr) n s
      = (Some (slice (fc_mem fl) (unat a + length xs) n), s\<lparr>world := w\<rparr>)
    \<and> at_rest (s\<lparr>world := w\<rparr>) (opened (bk\<lparr>bk_received := r\<rparr>) True (fl\<lparr>fc_frame := fr\<rparr>)) e
    \<and> fr \<noteq> [] \<and> fr ! 0 = UPDATE_EPCS_READ_BYTES \<and> length fr = 4 + length xs + n"
  using assms
proof (induction n arbitrary: xs fl s bk)
  case 0
  have "fc_frame fl \<noteq> []" "fc_frame fl ! 0 = UPDATE_EPCS_READ_BYTES"
    "length (fc_frame fl) = 4 + length xs"
    using "0.prems"(2) by (simp_all add: address_bytes_def)
  then show ?case using "0.prems"(4)
    by (intro exI [of _ "world s"] exI [of _ "fc_frame fl"] exI [of _ "bk_received bk"]) simp
next
  case (Suc n)
  let ?fl = "fl\<lparr>fc_frame := fc_frame fl @ [0xFF]\<rparr>"
  let ?r = "fc_mem fl (unat a + length xs)"
  have "flash_shift 0xFF fl = (?r, ?fl)"
    using Suc.prems(1-3) by (intro read_shift) auto
  then have d: "write_data 0xFF (opened bk True fl) = opened (bk\<lparr>bk_received := ?r\<rparr>) True ?fl"
    by (simp add: write_data_opened)
  obtain w where w: "epcsTransfer (sim_with rf mr) 0xFF s = (Some ?r, s\<lparr>world := w\<rparr>)"
    "at_rest (s\<lparr>world := w\<rparr>) (opened (bk\<lparr>bk_received := ?r\<rparr>) True ?fl) e"
    using transfer_at_rest [OF Suc.prems(4), of rf mr "0xFF"] unfolding d by auto
  have fr: "fc_busy ?fl = 0" "fc_frame ?fl = UPDATE_EPCS_READ_BYTES # address_bytes a @ (xs @ [0xFF])"
    "unat a + length (xs @ [0xFF]) + n \<le> 16777216"
    using Suc.prems(1-3) by simp_all
  obtain w' fr' r' where "epcsRead_loop (sim_with rf mr) n (s\<lparr>world := w\<rparr>)
      = (Some (slice (fc_mem fl) (unat a + length (xs @ [0xFF])) n), s\<lparr>world := w, world := w'\<rparr>)"
    "at_rest (s\<lparr>world := w, world := w'\<rparr>)
       (opened (bk\<lparr>bk_received := ?r, bk_received := r'\<rparr>) True (?fl\<lparr>fc_frame := fr'\<rparr>)) e"
    "fr' \<noteq> []" "fr' ! 0 = UPDATE_EPCS_READ_BYTES" "length fr' = 4 + length (xs @ [0xFF]) + n"
    using Suc.IH [OF fr w(2)] by auto
  then show ?case using w(1)
    by (intro exI [of _ w'] exI [of _ fr'] exI [of _ r']) (simp add: slice_Suc)
qed

lemma read_release:
  assumes "fc_busy fl = 0" and "fr \<noteq> []" and "fr ! 0 = UPDATE_EPCS_READ_BYTES"
  shows "flash_release (fl\<lparr>fc_frame := fr\<rparr>) = fl\<lparr>fc_frame := []\<rparr>"
  using assms by (auto simp: flash_release_def Let_def)

lemma flash_read_at_rest:
  fixes s :: "('b board_scheme, 'z) epcs_scheme"
  assumes r: "at_rest s bk e" and q: "quiet bk" and br: "fpgaRegistersHasFlashBridge s"
    and l: "4 \<le> length (glEpcsCommand s)" and n: "0 < n" "unat a + n \<le> 16777216"
  shows "\<exists>w c b. epcsFlashRead (sim_with rf mr) a n s
      = (Some (slice (fc_mem (bk_flash bk)) (unat a) n), s\<lparr>world := w, glEpcsCommand := c\<rparr>)
    \<and> length c = length (glEpcsCommand s)
    \<and> at_rest (s\<lparr>world := w, glEpcsCommand := c\<rparr>) (with_cells (fc_mem (bk_flash bk)) b bk) e"
proof -
  let ?fl = "bk_flash bk"
  let ?fr = "UPDATE_EPCS_READ_BYTES # address_bytes a"
  define c where "c = ?fr @ drop 4 (glEpcsCommand s)"
  have c: "length c = length (glEpcsCommand s)" "take 4 c = ?fr"
    using l by (simp_all add: c_def address_bytes_def)
  obtain w1 where w1: "epcsUnlock (sim_with rf mr) s = (True, s\<lparr>world := w1\<rparr>)"
    and r1: "at_rest (s\<lparr>world := w1\<rparr>) (opened bk False ?fl) e"
    using unlock_at_rest [OF r q br, where rf = rf and mr = mr] by blast
  let ?s1 = "s\<lparr>world := w1, glEpcsCommand := c\<rparr>"
  have r1': "at_rest ?s1 (opened bk False ?fl) e" and s1: "glEpcsCommand ?s1 = c" using r1 by simp_all
  obtain r2 where r2: "write_run 0x22 ?fr (opened bk True (?fl\<lparr>fc_frame := []\<rparr>))
      = opened (bk\<lparr>bk_received := r2\<rparr>) True (?fl\<lparr>fc_frame := ?fr\<rparr>)"
    using send_run [of ?fr bk ?fl] by auto
  have "bank_step c (all_ok [epcsAssert (sim_with rf mr), epcsSendCommand (sim_with rf mr) 4])
      (opened bk False ?fl) (opened (bk\<lparr>bk_received := r2\<rparr>) True (?fl\<lparr>fc_frame := ?fr\<rparr>))"
    by (rule bank_step_cons [OF assert_step], rule bank_step_cons [OF bank_step_send_command],
        simp add: c, unfold c(2) r2, rule bank_step_nil)
  then obtain w2 where w2: "all_ok [epcsAssert (sim_with rf mr), epcsSendCommand (sim_with rf mr) 4] ?s1
      = (True, ?s1\<lparr>world := w2\<rparr>)"
    and t2: "at_rest (?s1\<lparr>world := w2\<rparr>) (opened (bk\<lparr>bk_received := r2\<rparr>) True (?fl\<lparr>fc_frame := ?fr\<rparr>)) e"
    using r1' s1 unfolding bank_step_def by blast
  have q': "fc_busy (?fl\<lparr>fc_frame := ?fr\<rparr>) = 0"
    "fc_frame (?fl\<lparr>fc_frame := ?fr\<rparr>) = ?fr @ []" "unat a + length [] + n \<le> 16777216"
    using q n by (simp_all add: quiet_def)
  obtain w3 fr r3 where w3: "epcsRead_loop (sim_with rf mr) n (?s1\<lparr>world := w2\<rparr>)
      = (Some (slice (fc_mem ?fl) (unat a) n), ?s1\<lparr>world := w2, world := w3\<rparr>)"
    and t3: "at_rest (?s1\<lparr>world := w2, world := w3\<rparr>)
      (opened (bk\<lparr>bk_received := r2, bk_received := r3\<rparr>) True (?fl\<lparr>fc_frame := ?fr, fc_frame := fr\<rparr>)) e"
    and fr: "fr \<noteq> []" "fr ! 0 = UPDATE_EPCS_READ_BYTES"
    using read_loop_step [OF q'(1) q'(2) [unfolded append_Cons] q'(3) t2, where rf = rf and mr = mr] by auto
  obtain w4 where w4: "epcsLock (sim_with rf mr) (?s1\<lparr>world := w2, world := w3\<rparr>)
      = ?s1\<lparr>world := w2, world := w3, world := w4\<rparr>"
    and t4: "at_rest (?s1\<lparr>world := w2, world := w3, world := w4\<rparr>)
      (closed (bk\<lparr>bk_received := r2, bk_received := r3\<rparr>)
        (flash_release (?fl\<lparr>fc_frame := ?fr, fc_frame := fr\<rparr>))) e"
    using lock_at_rest [OF t3, where rf = rf and mr = mr] by auto
  have "flash_release (?fl\<lparr>fc_frame := ?fr, fc_frame := fr\<rparr>) = ?fl\<lparr>fc_frame := []\<rparr>"
    using read_release [OF _ fr] q by (simp add: quiet_def)
  moreover have "closed (bk\<lparr>bk_received := r2, bk_received := r3\<rparr>) (?fl\<lparr>fc_frame := []\<rparr>)
      = with_cells (fc_mem ?fl) r3 bk"
    using q by (cases bk, cases ?fl) (simp add: closed_def with_cells_def quiet_def)
  ultimately have t5: "at_rest (s\<lparr>world := w4\<rparr>) (with_cells (fc_mem ?fl) r3 bk) e"
    using t4 by simp
  have s1_eq: "epcsCommand UPDATE_EPCS_READ_BYTES a (s\<lparr>world := w1\<rparr>) = ?s1"
    using epcsCommand_eq [OF l] by (simp add: c_def)
  have "epcsFlashRead (sim_with rf mr) a n s
      = (Some (slice (fc_mem ?fl) (unat a) n), s\<lparr>world := w4, glEpcsCommand := c\<rparr>)"
    unfolding epcsFlashRead_def Let_def w1 prod.case s1_eq w2 w3 w4 using n(1) by simp
  then show ?thesis using t5 c(1) by (intro exI [of _ w4] exI [of _ c] exI [of _ r3]) simp
qed

subsection \<open>Identification\<close>

lemma identify_shift:
  assumes "fc_busy fl = 0" and "fc_frame fl = [UPDATE_EPCS_READ_SILICON_ID, 0, 0, 0]"
  shows "flash_shift b fl = (fc_id fl, fl\<lparr>fc_frame := fc_frame fl @ [b]\<rparr>)"
  using assms by (simp add: flash_shift_def Let_def)

lemma identify_at_rest:
  fixes s :: "('b board_scheme, 'z) epcs_scheme"
  assumes r: "at_rest s bk e" and q: "quiet bk" and br: "fpgaRegistersHasFlashBridge s"
    and l: "4 \<le> length (glEpcsCommand s)"
    and i: "fc_id (bk_flash bk) \<noteq> 0" "fc_id (bk_flash bk) \<noteq> 0xFF"
  shows "\<exists>w c b. epcsFlashIdentify (sim_with rf mr) s
      = (True, fc_id (bk_flash bk), s\<lparr>world := w, glEpcsCommand := c\<rparr>)
    \<and> length c = length (glEpcsCommand s)
    \<and> at_rest (s\<lparr>world := w, glEpcsCommand := c\<rparr>) (with_cells (fc_mem (bk_flash bk)) b bk) e"
proof -
  let ?fl = "bk_flash bk"
  let ?fr = "[UPDATE_EPCS_READ_SILICON_ID, 0, 0, 0] :: byte list"
  let ?set = "\<lambda>x :: byte list. x[0 := UPDATE_EPCS_READ_SILICON_ID, 1 := 0, 2 := 0, 3 := 0]"
  define c where "c = ?set (glEpcsCommand s)"
  obtain b0 b1 b2 b3 rest where "glEpcsCommand s = b0 # b1 # b2 # b3 # rest"
    using l by (auto simp: Suc_le_length_iff eval_nat_numeral)
  then have c: "length c = length (glEpcsCommand s)" "take 4 c = ?fr"
    by (simp_all add: c_def eval_nat_numeral)
  obtain w1 where w1: "epcsUnlock (sim_with rf mr) s = (True, s\<lparr>world := w1\<rparr>)"
    and r1: "at_rest (s\<lparr>world := w1\<rparr>) (opened bk False ?fl) e"
    using unlock_at_rest [OF r q br, where rf = rf and mr = mr] by blast
  obtain w2 where w2: "epcsAssert (sim_with rf mr) (s\<lparr>world := w1\<rparr>) = (True, s\<lparr>world := w1, world := w2\<rparr>)"
    and r2: "at_rest (s\<lparr>world := w1, world := w2\<rparr>) (opened bk True (?fl\<lparr>fc_frame := []\<rparr>)) e"
  proof -
    have "glEpcsCommand (s\<lparr>world := w1\<rparr>) = glEpcsCommand s" by simp
    then show ?thesis
      using that assert_step [of "glEpcsCommand s" rf mr bk ?fl] r1 unfolding bank_step_def by blast
  qed
  let ?s2 = "s\<lparr>world := w2, glEpcsCommand := c\<rparr>"
  have r2': "at_rest ?s2 (opened bk True (?fl\<lparr>fc_frame := []\<rparr>)) e" and s2: "glEpcsCommand ?s2 = c"
    using r2 by simp_all
  obtain rb where rb: "write_run 0x22 ?fr (opened bk True (?fl\<lparr>fc_frame := []\<rparr>))
      = opened (bk\<lparr>bk_received := rb\<rparr>) True (?fl\<lparr>fc_frame := ?fr\<rparr>)"
    using send_run [of ?fr bk ?fl] by auto
  have "take 4 c \<noteq> []" using c by simp
  then obtain w3 where w3: "epcsSendCommand (sim_with rf mr) 4 ?s2 = (True, ?s2\<lparr>world := w3\<rparr>)"
    and r3: "at_rest (?s2\<lparr>world := w3\<rparr>) (opened (bk\<lparr>bk_received := rb\<rparr>) True (?fl\<lparr>fc_frame := ?fr\<rparr>)) e"
    using bank_step_send_command [of 4 c rf mr "opened bk True (?fl\<lparr>fc_frame := []\<rparr>)"] r2' s2
    unfolding bank_step_def c(2) rb by blast
  let ?fl4 = "?fl\<lparr>fc_frame := ?fr @ [0xFF]\<rparr>"
  have "fc_busy (?fl\<lparr>fc_frame := ?fr\<rparr>) = 0" using q by (simp add: quiet_def)
  then have d: "write_data 0xFF (opened (bk\<lparr>bk_received := rb\<rparr>) True (?fl\<lparr>fc_frame := ?fr\<rparr>))
      = opened (bk\<lparr>bk_received := rb, bk_received := fc_id ?fl\<rparr>) True ?fl4"
    unfolding write_data_opened by (subst identify_shift) simp_all
  obtain w4 where w4: "epcsTransfer (sim_with rf mr) 0xFF (?s2\<lparr>world := w3\<rparr>)
      = (Some (fc_id ?fl), ?s2\<lparr>world := w3, world := w4\<rparr>)"
    and r4: "at_rest (?s2\<lparr>world := w3, world := w4\<rparr>)
      (opened (bk\<lparr>bk_received := rb, bk_received := fc_id ?fl\<rparr>) True ?fl4) e"
    using transfer_at_rest [OF r3, of rf mr "0xFF"] unfolding d by auto
  obtain w5 where w5: "epcsLock (sim_with rf mr) (?s2\<lparr>world := w3, world := w4\<rparr>)
      = ?s2\<lparr>world := w3, world := w4, world := w5\<rparr>"
    and r5: "at_rest (?s2\<lparr>world := w3, world := w4, world := w5\<rparr>)
      (closed (bk\<lparr>bk_received := rb, bk_received := fc_id ?fl\<rparr>) (flash_release ?fl4)) e"
    using lock_at_rest [OF r4, where rf = rf and mr = mr] by auto
  have "flash_release ?fl4 = ?fl\<lparr>fc_frame := []\<rparr>"
    by (simp add: flash_release_def Let_def)
  moreover have "closed (bk\<lparr>bk_received := rb, bk_received := fc_id ?fl\<rparr>) (?fl\<lparr>fc_frame := []\<rparr>)
      = with_cells (fc_mem ?fl) (fc_id ?fl) bk"
    using q by (cases bk, cases ?fl) (simp add: closed_def with_cells_def quiet_def)
  ultimately have t5: "at_rest (s\<lparr>world := w5\<rparr>) (with_cells (fc_mem ?fl) (fc_id ?fl) bk) e"
    using r5 by simp
  have set: "(s\<lparr>world := w1, world := w2\<rparr>)\<lparr>glEpcsCommand := ?set (glEpcsCommand (s\<lparr>world := w1, world := w2\<rparr>))\<rparr>
      = ?s2" by (simp add: c_def)
  have n: "1 + UPDATE_EPCS_ID_DUMMY_BYTES = 4" by simp
  have "epcsFlashIdentify (sim_with rf mr) s = (True, fc_id ?fl, s\<lparr>world := w5, glEpcsCommand := c\<rparr>)"
    unfolding epcsFlashIdentify_def Let_def w1 prod.case w2 set n w3 w4 option.case w5
    using i by simp
  then show ?thesis using t5 c(1) by (intro exI [of _ w5] exI [of _ c] exI [of _ "fc_id ?fl"]) simp
qed

end
