(* ===== verification/Bench.thy ===== *)
theory Bench
  imports GatewareFlash Media FlashMedium
begin

text \<open>
  The two media contracts hold of the board of \<open>Gateware\<close>: its EEPROM answers the I2C calls of
  \<open>(sim_with rf mr)\<close>, and its flash answers the driver of \<open>EpcsFlash\<close> through the bit-banged link,
  the register bank and the bridge.
\<close>

interpretation board_eeprom: eeprom_device "sim_with rf mr" bd_eeprom
  for rf :: "bool \<Rightarrow> 'b board_scheme \<Rightarrow> 'b board_scheme" and mr :: 'p
  by unfold_locales (auto simp: sim_with_def)

definition bench_flash :: "'b board_scheme \<Rightarrow> memory" where
  "bench_flash w = fc_mem (bk_flash (board_bank w))"

definition bench_good :: "('b board_scheme, 'z) epcs_scheme \<Rightarrow> bool" where
  "bench_good s \<longleftrightarrow> at_rest s (board_bank (world s)) (bd_eeprom (world s))
     \<and> quiet (board_bank (world s)) \<and> fpgaRegistersHasFlashBridge s
     \<and> length (glEpcsCommand s) = 260
     \<and> fc_id (bk_flash (board_bank (world s))) = UPDATE_EPCS_ID_EPCS64"

lemma bench_good_after:
  assumes "bench_good s" and "length c = length (glEpcsCommand s)"
    and "at_rest (s\<lparr>world := w, glEpcsCommand := c\<rparr>) (with_cells m r (board_bank (world s))) e"
  shows "bench_good (s\<lparr>world := w, glEpcsCommand := c\<rparr>) \<and> bench_flash w = m"
proof -
  have b: "board_bank w = with_cells m r (board_bank (world s))" and e: "bd_eeprom w = e"
    using assms(3) by (simp_all add: at_rest_def)
  have "fpgaRegistersHasFlashBridge (s\<lparr>world := w, glEpcsCommand := c\<rparr>)"
    using assms(1) by (simp add: bench_good_def fpgaRegistersHasFlashBridge_def split: if_splits)
  moreover have "fc_id (bk_flash (with_cells m r bk)) = fc_id (bk_flash bk)" for bk
    by (simp add: with_cells_def)
  ultimately show ?thesis using assms b e by (simp add: bench_good_def bench_flash_def)
qed

lemma bench_erase:
  fixes s s' :: "('b board_scheme, 'z) agent_scheme"
  assumes g: "bench_good s" and a: "unat a < 0x800000"
    and e: "epcsFlashEraseSector (sim_with rf mr) a s = (ok, s')"
  shows "bench_good s'
      \<and> (\<forall>i. i < unat a - unat a mod 65536 \<or> unat a - unat a mod 65536 + 65536 \<le> i
           \<longrightarrow> bench_flash (world s') i = bench_flash (world s) i)
      \<and> bench_flash (world s') = erased_cells (unat a) (bench_flash (world s))"
proof -
  obtain w c where "epcsFlashEraseSector (sim_with rf mr) a s = (True, s\<lparr>world := w, glEpcsCommand := c\<rparr>)"
    and "length c = length (glEpcsCommand s)"
    and "at_rest (s\<lparr>world := w, glEpcsCommand := c\<rparr>)
      (with_cells (erased_cells (unat a) (bench_flash (world s))) 0 (board_bank (world s))) (bd_eeprom (world s))"
    using erase_at_rest [where rf = rf and mr = mr and s = s and a = a] g a unfolding bench_good_def bench_flash_def by fastforce
  then show ?thesis
    using bench_good_after [OF g] erased_outside e by auto
qed

lemma bench_program:
  fixes s s' :: "('b board_scheme, 'z) agent_scheme"
  assumes g: "bench_good s" and a: "unat a < 0x800000" "data \<noteq> []" "unat a mod 256 + length data \<le> 256"
    and e: "epcsFlashProgramPage (sim_with rf mr) a data s = (ok, s')"
  shows "bench_good s'
      \<and> (\<forall>i. i < unat a \<or> unat a + length data \<le> i
           \<longrightarrow> bench_flash (world s') i = bench_flash (world s) i)
      \<and> bench_flash (world s') = programmed_cells (unat a) data (bench_flash (world s))"
proof -
  obtain w c where "epcsFlashProgramPage (sim_with rf mr) a data s
      = (True, s\<lparr>world := w, glEpcsCommand := c\<rparr>)"
    and "length c = length (glEpcsCommand s)"
    and "at_rest (s\<lparr>world := w, glEpcsCommand := c\<rparr>)
      (with_cells (programmed_cells (unat a) data (bench_flash (world s))) 0 (board_bank (world s)))
      (bd_eeprom (world s))"
    using program_at_rest [where rf = rf and mr = mr and s = s and a = a and data = data] g a unfolding bench_good_def bench_flash_def by fastforce
  then show ?thesis
    using bench_good_after [OF g] programmed_outside e by auto
qed

interpretation board_flash: flash_medium "sim_with rf mr"
  "bench_good :: ('b board_scheme, 'z) agent_scheme \<Rightarrow> bool" bench_flash
  for rf :: "bool \<Rightarrow> 'b board_scheme \<Rightarrow> 'b board_scheme" and mr :: 'p
proof
  fix s t :: "('b board_scheme, 'z) agent_scheme"
  assume "bench_good s" "world t = world s" "glEpcsCommand t = glEpcsCommand s"
    "glFpgaPresent t = glFpgaPresent s" "glFpgaIdentity t = glFpgaIdentity s"
    "glFpgaLockReady t = glFpgaLockReady s"
  then show "bench_good t"
    by (simp add: bench_good_def at_rest_def fpgaRegistersHasFlashBridge_def split: if_splits)
next
  fix s s' :: "('b board_scheme, 'z) agent_scheme" and a n r
  assume g: "bench_good s" and n: "0 < n" "unat a + n \<le> 0x800000"
    and "epcsFlashRead (sim_with rf mr) a n s = (r, s')"
  moreover obtain w c b where "epcsFlashRead (sim_with rf mr) a n s
      = (Some (slice (bench_flash (world s)) (unat a) n), s\<lparr>world := w, glEpcsCommand := c\<rparr>)"
    and "length c = length (glEpcsCommand s)"
    and "at_rest (s\<lparr>world := w, glEpcsCommand := c\<rparr>)
      (with_cells (bench_flash (world s)) b (board_bank (world s))) (bd_eeprom (world s))"
    using flash_read_at_rest [where rf = rf and mr = mr and s = s and a = a and n = n] g n unfolding bench_good_def bench_flash_def by fastforce
  ultimately show "bench_good s' \<and> bench_flash (world s') = bench_flash (world s)
      \<and> (\<forall>bs. r = Some bs \<longrightarrow> bs = slice (bench_flash (world s)) (unat a) n)"
    using bench_good_after [OF g] by auto
next
  fix s s' :: "('b board_scheme, 'z) agent_scheme" and a ok
  assume "bench_good s" "unat a < 0x800000" "epcsFlashEraseSector (sim_with rf mr) a s = (ok, s')"
  from bench_erase [OF this]
  show "bench_good s'
      \<and> (\<forall>i. i < unat a - unat a mod 65536 \<or> unat a - unat a mod 65536 + 65536 \<le> i
           \<longrightarrow> bench_flash (world s') i = bench_flash (world s) i)" by (elim conjE) (intro conjI)
next
  fix s s' :: "('b board_scheme, 'z) agent_scheme" and a data ok
  assume "bench_good s" "unat a < 0x800000" "data \<noteq> []" "unat a mod 256 + length data \<le> 256"
    "epcsFlashProgramPage (sim_with rf mr) a data s = (ok, s')"
  from bench_program [OF this]
  show "bench_good s'
      \<and> (\<forall>i. i < unat a \<or> unat a + length data \<le> i
           \<longrightarrow> bench_flash (world s') i = bench_flash (world s) i)" by (elim conjE) (intro conjI)
next
  fix s s' :: "('b board_scheme, 'z) agent_scheme" and a
  assume "bench_good s" "unat a < 0x800000" "epcsFlashEraseSector (sim_with rf mr) a s = (True, s')"
  from bench_erase [OF this]
  show "bench_flash (world s') = erased_cells (unat a) (bench_flash (world s))" by (elim conjE)
next
  fix s s' :: "('b board_scheme, 'z) agent_scheme" and a data
  assume "bench_good s" "unat a < 0x800000" "data \<noteq> []" "unat a mod 256 + length data \<le> 256"
    "epcsFlashProgramPage (sim_with rf mr) a data s = (True, s')"
  from bench_program [OF this]
  show "bench_flash (world s') = programmed_cells (unat a) data (bench_flash (world s))" by (elim conjE)
qed

subsection \<open>The board does not fail\<close>

interpretation board_eeprom: reliable_eeprom "sim_with rf mr" bd_eeprom
  for rf :: "bool \<Rightarrow> 'b board_scheme \<Rightarrow> 'b board_scheme" and mr :: 'p
  by unfold_locales (simp_all add: sim_with_def)

lemma bench_operation_succeeds:
  fixes s :: "('b board_scheme, 'z) epcs_scheme"
  assumes "bench_good s" and "unat a < 0x800000"
  shows "fst (epcsFlashEraseSector (sim_with rf mr) a s)"
    and "data \<noteq> [] \<Longrightarrow> unat a mod 256 + length data \<le> 256 \<Longrightarrow>
      fst (epcsFlashProgramPage (sim_with rf mr) a data s)"
    and "0 < n \<Longrightarrow> unat a + n \<le> 0x800000 \<Longrightarrow> fst (epcsFlashRead (sim_with rf mr) a n s) \<noteq> None"
  using assms erase_at_rest [where rf = rf and mr = mr and s = s and bk = "board_bank (world s)" and e = "bd_eeprom (world s)" and a = a]
    program_at_rest [where rf = rf and mr = mr and s = s and bk = "board_bank (world s)" and e = "bd_eeprom (world s)" and a = a and data = data]
    flash_read_at_rest [where rf = rf and mr = mr and s = s and bk = "board_bank (world s)" and e = "bd_eeprom (world s)" and a = a and n = n]
  unfolding bench_good_def by auto

interpretation board_flash: reliable_flash "sim_with rf mr"
  "bench_good :: ('b board_scheme, 'z) agent_scheme \<Rightarrow> bool" bench_flash
  for rf :: "bool \<Rightarrow> 'b board_scheme \<Rightarrow> 'b board_scheme" and mr :: 'p
proof
  fix s :: "('b board_scheme, 'z) agent_scheme"
  assume g: "bench_good s"
  then show "fpgaRegistersHasFlashBridge s" by (simp add: bench_good_def)
  have "fc_id (bk_flash (board_bank (world s))) = UPDATE_EPCS_ID_EPCS64"
    using g by (simp add: bench_good_def)
  then obtain w c b where "epcsFlashIdentify (sim_with rf mr) s
      = (True, UPDATE_EPCS_ID_EPCS64, s\<lparr>world := w, glEpcsCommand := c\<rparr>)"
    and "length c = length (glEpcsCommand s)"
    and "at_rest (s\<lparr>world := w, glEpcsCommand := c\<rparr>)
      (with_cells (bench_flash (world s)) b (board_bank (world s))) (bd_eeprom (world s))"
    using identify_at_rest [where rf = rf and mr = mr and s = s and bk = "board_bank (world s)" and e = "bd_eeprom (world s)"] g
    unfolding bench_good_def bench_flash_def by auto
  then show "\<exists>siliconId s'. epcsFlashIdentify (sim_with rf mr) s = (True, siliconId, s')
      \<and> bench_good s' \<and> bench_flash (world s') = bench_flash (world s)
      \<and> 0x800000 \<le> updateEpcsCapacity siliconId"
    using bench_good_after [OF g] by (auto simp: updateEpcsCapacity_def)
qed (use bench_operation_succeeds in auto)

text \<open>A powered board with an erased flash, and an agent that has started on it.\<close>

definition bench_board :: board where
  "bench_board = \<lparr>bd_cs_n = True, bd_sclk = False, bd_mosi = False,
     bd_slave = \<lparr>sl_shift_in = 0, sl_shift_out = 0, sl_count = 0, sl_command = False, sl_read = False,
       sl_address = 0, sl_miso = False,
       sl_bank = \<lparr>bk_identity = [0x44, 2, 0x14, 0, 0, 0, 0, 0, 0, 0, 0, 1], bk_test_mode = 0, bk_led = 0,
         bk_decimation = 1, bk_progress = 0, bk_unlocked = False, bk_select = False, bk_received = 0,
         bk_flash = \<lparr>fc_mem = \<lambda>_. 0xFF, fc_wel = False, fc_busy = 0, fc_frame = [], fc_latency = 0,
           fc_id = UPDATE_EPCS_ID_EPCS64\<rparr>, bk_reconfig = False\<rparr>\<rparr>,
     bd_locked = False, bd_eeprom = \<lambda>_. 0xFF\<rparr>"

definition bench_hash :: Sha_256 where
  "bench_hash = \<lparr>sh_chunk = replicate 64 0, sh_chunk_pos = 0, sh_space_left = 0, sh_total_len = 0, sh_h = []\<rparr>"

definition bench_agent :: "board agent" where
  "bench_agent = \<lparr>world = bench_board, glFpgaPresent = True,
     glFpgaIdentity = bk_identity (board_bank bench_board), glFpgaLockReady = True,
     glEpcsCommand = replicate 260 0, glUpdateI2cReady = True,
     glUpdateState = \<lparr>st_phase = PHASE_IDLE, st_error = ERROR_NONE, st_target = 0, st_length = 0,
       st_digest = replicate 32 0, st_received = 0, st_written = 0, st_verified = 0, st_nextChunk = 0\<rparr>,
     glUpdateVerifyPending = False, glUpdateFirstPage = replicate 64 0,
     glUpdateReadback = replicate 512 0, glUpdatePagePad = replicate 64 0,
     glUpdateStreamHash = bench_hash, glUpdateStreamDigest = replicate 32 0,
     glUpdateMediumHash = bench_hash, glUpdateMediumDigest = replicate 32 0,
     glUpdateBootBlock = replicate 24 0\<rparr>"

lemma bench_agent_buffers:
  "length (glUpdatePagePad bench_agent) = 64" "length (glUpdateReadback bench_agent) = 512"
  "length (glUpdateBootBlock bench_agent) = 24"
  "length (sh_chunk (glUpdateStreamHash bench_agent)) = 64"
  "length (sh_chunk (glUpdateMediumHash bench_agent)) = 64"
  "glUpdateI2cReady bench_agent" "\<not> updateIsInProgress (glUpdateState bench_agent)"
  by (simp_all only: bench_agent_def bench_hash_def agent.select_convs Sha_256.select_convs
      length_replicate updateIsInProgress_def updateState.select_convs update_phase.simps simp_thms)

lemma bench_agent_good: "bench_good bench_agent"
proof -
  have "glEpcsCommand bench_agent = replicate 260 0" "world bench_agent = bench_board"
    "glFpgaPresent bench_agent" "glFpgaLockReady bench_agent"
    "glFpgaIdentity bench_agent = bk_identity (board_bank bench_board)"
    by (simp_all only: bench_agent_def epcs.select_convs link.select_convs)
  then show ?thesis
    by (simp add: bench_good_def at_rest_def link_idle_def quiet_def fpgaRegistersHasFlashBridge_def
        bench_board_def board_bank_def fpgaIdentityHasFlashBridge_def fpgaIdentityIsValid_def
        fpgaIdentityMapVersion_def)
qed

subsection \<open>An image in transfer\<close>

text \<open>The bench with \<open>m\<close> in its flash and \<open>e\<close> in its EEPROM, and an update of \<open>img\<close> in \<open>phase\<close>.\<close>

definition bench_update ::
    "update_phase \<Rightarrow> byte \<Rightarrow> byte list \<Rightarrow> byte list \<Rightarrow> memory \<Rightarrow> memory \<Rightarrow> board agent" where
  "bench_update phase t img d m e = bench_agent\<lparr>
     world := bench_board\<lparr>bd_eeprom := e, bd_slave := (bd_slave bench_board)\<lparr>
       sl_bank := with_cells m 0 (board_bank bench_board)\<rparr>\<rparr>,
     glUpdateFirstPage := take 64 (d @ replicate 64 0),
     glUpdateState := (glUpdateState bench_agent)\<lparr>st_phase := phase, st_target := t,
       st_length := of_nat (length img), st_digest := sha256 img, st_received := of_nat (length d)\<rparr>,
     glUpdateStreamHash := sha_256_write (sha_256_init bench_hash) d\<rparr>"

lemma bench_update_fields:
  "world (bench_update phase t img d m e) = bench_board\<lparr>bd_eeprom := e,
     bd_slave := (bd_slave bench_board)\<lparr>sl_bank := with_cells m 0 (board_bank bench_board)\<rparr>\<rparr>"
  "glUpdateFirstPage (bench_update phase t img d m e) = take 64 (d @ replicate 64 0)"
  "st_phase (glUpdateState (bench_update phase t img d m e)) = phase"
  "st_target (glUpdateState (bench_update phase t img d m e)) = t"
  "st_length (glUpdateState (bench_update phase t img d m e)) = of_nat (length img)"
  "st_digest (glUpdateState (bench_update phase t img d m e)) = sha256 img"
  "st_received (glUpdateState (bench_update phase t img d m e)) = of_nat (length d)"
  "st_nextChunk (glUpdateState (bench_update phase t img d m e)) = 0"
  "glUpdateStreamHash (bench_update phase t img d m e) = sha_256_write (sha_256_init bench_hash) d"
  "length (glUpdatePagePad (bench_update phase t img d m e)) = 64"
  "length (glUpdateReadback (bench_update phase t img d m e)) = 512"
  "length (glUpdateBootBlock (bench_update phase t img d m e)) = 24"
  "length (sh_chunk (glUpdateMediumHash (bench_update phase t img d m e))) = 64"
  using bench_agent_buffers by (simp_all add: bench_update_def) (simp add: bench_agent_def)

lemma bench_update_media:
  "bd_eeprom (world (bench_update phase t img d m e)) = e"
  "bench_flash (world (bench_update phase t img d m e)) = m"
  unfolding bench_update_fields by (simp_all add: bench_flash_def board_bank_def)

lemma bench_update_good: "bench_good (bench_update phase t img d m e)"
proof -
  have d: "glEpcsCommand (bench_update phase t img d m e) = glEpcsCommand bench_agent"
    "glFpgaPresent (bench_update phase t img d m e) = glFpgaPresent bench_agent"
    "glFpgaLockReady (bench_update phase t img d m e) = glFpgaLockReady bench_agent"
    "glFpgaIdentity (bench_update phase t img d m e) = glFpgaIdentity bench_agent"
    "world bench_agent = bench_board"
    by (simp_all add: bench_update_def) (simp add: bench_agent_def)
  have id: "fc_id (bk_flash (with_cells m 0 bk)) = fc_id (bk_flash bk)" for bk
    by (simp add: with_cells_def)
  show ?thesis
    using bench_agent_good d id
    by (simp add: bench_good_def at_rest_def link_idle_def board_bank_def
        fpgaRegistersHasFlashBridge_def bench_update_fields split: if_splits)
qed

lemma bench_update_hashed: "absorbed (glUpdateStreamHash (bench_update phase t img d m e)) d"
  using sha.absorb_holds [OF sha.init_holds, of bench_hash d]
  by (simp add: bench_update_fields bench_hash_def)

lemma bench_update_eeprom:
  assumes "128 \<le> length img" and "length img \<le> 0x40000" and "d = [] \<or> d = img"
    and "slice e 64 (length d - 64) = drop 64 d"
  shows "received_eeprom bd_eeprom d (bench_update phase 0 img d m e)"
proof -
  have "unat (of_nat (length img) :: u32) = length img" using assms(2) by (simp add: unat_of_nat_u32)
  then show ?thesis
    using assms bench_update_hashed
    by (auto simp: received_eeprom_def bench_update_fields bench_update_media transfer_ok_def
        admissible_length_def)
qed

lemma bench_update_epcs:
  assumes "256 \<le> length img" and "length img \<le> 0x100000" and "d = [] \<or> d = img"
    and "t = 1 \<or> t = 2"
  shows "received_epcs bench_flash d
    (bench_update phase t img d (patch (\<lambda>_. 0xFF) (unat (updateEpcsTargetBase t)) d) e)"
proof -
  have "unat (of_nat (length img) :: u32) = length img" using assms(2) by (simp add: unat_of_nat_u32)
  then have "transfer_ok (glUpdateState (bench_update phase t img d m e))" for m
    using assms by (auto simp: bench_update_fields transfer_ok_def admissible_length_def)
  moreover have "unat (of_nat (length d) :: u32) = length d"
    using assms(2,3) by (auto simp: unat_of_nat_u32)
  ultimately show ?thesis
    using assms(4) bench_update_hashed slice_patch_same
    by (auto simp: received_epcs_def bench_update_fields(4,7) bench_update_media blank_from_def)
qed

text \<open>A smallest firmware image and a smallest gateware image.\<close>

definition bench_firmware :: "byte list" where
  "bench_firmware = [UPDATE_IMAGE_SIGNATURE_0, UPDATE_IMAGE_SIGNATURE_1] @ replicate 126 0"

definition bench_gateware :: "byte list" where
  "bench_gateware = replicate 256 0"

lemma bench_images:
  "length bench_firmware = 128" "take 2 bench_firmware = [0x43, 0x59]" "length bench_gateware = 256"
  "bench_firmware ! 0 = 0x43" "bench_firmware ! 1 = 0x59"
  "unat (of_nat 128 :: u32) = 128" "unat (of_nat 256 :: u32) = 256"
  by (simp_all add: bench_firmware_def bench_gateware_def nth_append)

lemma bench_chunks:
  "chunks_ok 64 [bench_firmware]" "concat [bench_firmware] = bench_firmware"
  "chunks_ok 256 [bench_gateware]" "concat [bench_gateware] = bench_gateware"
  using bench_images(1,3) by auto

end
