(* ===== verification/UsbBench.thy ===== *)
theory UsbBench
  imports Bench ControlEndpoint
begin

text \<open>
  The contracts of the capture hardware and of endpoint 0 hold of a simulated FX3: the board of
  \<open>Gateware\<close> extended by the collectData pin and the link power switch, a log of what endpoint 0
  carried, and the data stage the host sends next.
\<close>

record usb_bench = board +
  ub_pins :: "(bool \<times> bool) option"
  ub_replies :: "ep0_reply list"
  ub_incoming :: "byte list"
  ub_speed :: usb_speed
  ub_power :: link_power
  ub_inputs :: "nat \<Rightarrow> bool"

definition reply :: "ep0_reply \<Rightarrow> usb_bench \<Rightarrow> usb_bench" where
  "reply r w = w\<lparr>ub_replies := ub_replies w @ [r]\<rparr>"

definition fine :: "usb_bench \<Rightarrow> u32 \<times> usb_bench" where
  "fine w = (CY_U3P_SUCCESS, w)"

definition sim_usb :: "usb_bench usb_platform" where
  "sim_usb = sim_with (\<lambda>_ w. w\<lparr>ub_pins := None\<rparr>) \<lparr>
     CyU3PDeviceInit = (\<lambda>_. fine),
     CyU3PDeviceCacheControl = (\<lambda>_ _ _. fine),
     CyU3PDeviceConfigureIOMatrix = (\<lambda>_. fine),
     CyU3PPibInit = (\<lambda>_ _. fine),
     CyU3PGpioInit = (\<lambda>_. fine),
     CyU3PKernelEntry = (\<lambda>w. w),
     CyU3PMemAlloc = (\<lambda>_ w. (Some 0x40038000, w)),
     CyU3PThreadCreate = (\<lambda>_ _ _. fine),
     CyU3PGpioSetValue = (\<lambda>g v w. if g = 19
       then w\<lparr>ub_pins := map_option (\<lambda>(_, off). (v, off)) (ub_pins w)\<rparr> else w),
     CyU3PGpioGetValue = (\<lambda>g w. (CY_U3P_SUCCESS, ub_inputs w g)),
     CyU3PUartInit = fine,
     CyU3PUartSetConfig = (\<lambda>_. fine),
     CyU3PUartTxSetBlockXfer = (\<lambda>_. fine),
     CyU3PDebugInit = (\<lambda>_ _. fine),
     CyU3PDebugPreamble = (\<lambda>_ w. w),
     CyU3PUsbStart = fine,
     CyU3PUsbRegisterSetupCallback = (\<lambda>_ w. w),
     CyU3PUsbRegisterEventCallback = (\<lambda>w. w),
     CyU3PUsbRegisterLPMRequestCallback = (\<lambda>w. w),
     CyU3PUsbSetDesc = (\<lambda>_ _ _. fine),
     CyU3PConnectState = (\<lambda>_ _. fine),
     CyU3PUsbGetSpeed = ub_speed,
     CyU3PUsbGetLinkPowerState = (\<lambda>w. (CY_U3P_SUCCESS, ub_power w)),
     CyU3PUsbSetLinkPowerState = (\<lambda>m w. w\<lparr>ub_power := m\<rparr>),
     CyU3PUsbLPMEnable = (\<lambda>w. w\<lparr>ub_pins := map_option (\<lambda>(c, _). (c, False)) (ub_pins w)\<rparr>),
     CyU3PUsbLPMDisable = (\<lambda>w. w\<lparr>ub_pins := map_option (\<lambda>(c, _). (c, True)) (ub_pins w)\<rparr>),
     CyU3PUsbAckSetup = reply Acked,
     CyU3PUsbStall = (\<lambda>e b c w. if b then reply Stalled w else w),
     CyU3PUsbSendEP0Data = (\<lambda>bs. reply (Sent bs)),
     CyU3PUsbGetEP0Data = (\<lambda>n w. (CY_U3P_SUCCESS, take n (ub_incoming w), reply (Received n) w)),
     CyU3PSetEpConfig = (\<lambda>_ _. fine),
     CyU3PUsbFlushEp = (\<lambda>_ w. w),
     CyU3PUsbResetEp = (\<lambda>_ w. w),
     CyU3PDmaMultiChannelCreate = (\<lambda>_. fine),
     CyU3PDmaMultiChannelSetXfer = (\<lambda>_ _. fine),
     CyU3PDmaMultiChannelReset = (\<lambda>w. w),
     CyU3PDmaMultiChannelDestroy = (\<lambda>w. w),
     CyU3PGpifLoad = fine,
     CyU3PGpifRegisterCallback = (\<lambda>w. w),
     CyU3PGpifSocketConfigure = (\<lambda>_ _ _ _ _. fine),
     CyU3PGpifSMStart = (\<lambda>_ _. fine),
     CyU3PGpifDisable = (\<lambda>_ w. w)\<rparr>"

lemmas sim_usb_unfold = sim_usb_def sim_with_def reply_def fine_def

lemma sim_usb_agent_calls:
  "kept_world sim_usb (\<lambda>w. ub_pins w = x)"
  "kept_world sim_usb (\<lambda>w. ub_replies w = y)"
  by (unfold_locales, auto simp: sim_usb_unfold drive_pin_def split: if_splits)+

interpretation bench_capture: capture_board sim_usb ub_pins
proof (rule capture_board.intro)
  show "kept_world sim_usb (\<lambda>w. ub_pins w = x)" for x by (rule sim_usb_agent_calls)
  show "ub_pins (f w) = ub_pins w" if "quiet_call sim_usb f" for f w
    using that by cases (simp_all add: sim_usb_unfold)
  show "ub_pins (f w) = ub_pins w" if "control_call sim_usb f" for f w
    using that by cases (simp_all add: sim_usb_unfold)
qed (simp_all add: sim_usb_unfold)

interpretation bench_control: control_endpoint sim_usb ub_replies
proof (rule control_endpoint.intro)
  show "kept_world sim_usb (\<lambda>w. ub_replies w = x)" for x by (rule sim_usb_agent_calls)
  show "ub_replies (f w) = ub_replies w" if "quiet_call sim_usb f" for f w
    using that by cases (simp_all add: sim_usb_unfold)
qed (auto simp: sim_usb_unfold)

text \<open>A firmware just powered on, on a host that has trained the link at SuperSpeed.\<close>

definition bench_usb :: usb_bench where
  "bench_usb = \<lparr>bd_cs_n = bd_cs_n bench_board, bd_sclk = bd_sclk bench_board,
     bd_mosi = bd_mosi bench_board, bd_slave = bd_slave bench_board, bd_locked = bd_locked bench_board,
     bd_eeprom = bd_eeprom bench_board,
     ub_pins = Some (False, False), ub_replies = [], ub_incoming = [],
     ub_speed = CY_U3P_SUPER_SPEED, ub_power = CyU3PUsbLPM_U0, ub_inputs = (\<lambda>_. True)\<rparr>"

definition bench_firmware_state :: "usb_bench firmware" where
  "bench_firmware_state = \<lparr>world = bench_usb, glFpgaPresent = False, glFpgaIdentity = replicate 12 0,
     glFpgaLockReady = False, glEpcsCommand = replicate 260 0, glUpdateI2cReady = False,
     glUpdateState = updateStateReset undefined, glUpdateVerifyPending = False,
     glUpdateFirstPage = replicate 64 0, glUpdateReadback = replicate 512 0,
     glUpdatePagePad = replicate 64 0, glUpdateStreamHash = bench_hash,
     glUpdateStreamDigest = replicate 32 0, glUpdateMediumHash = bench_hash,
     glUpdateMediumDigest = replicate 32 0, glUpdateBootBlock = replicate 24 0,
     glIsApplnActive = False, glForceLinkU2 = False, glUsbInitComplete = False,
     input0Flag = False, input1Flag = False, input2Flag = False, input3Flag = False,
     input0HandledFlag = False, input1HandledFlag = False, input2HandledFlag = False,
     input3HandledFlag = False, dataCollectionFlag = False,
     glRegisterBuffer = replicate 64 0, glUpdateChunkBuffer = replicate 2048 0,
     glUpdatePacketBuffer = replicate 40 0, ledPattern = 0, ledPatternShown = 0,
     fpgaRecheckCount = 0\<rparr>"

lemma bench_power_on: "power_on bench_firmware_state"
  by (simp add: power_on_def bench_firmware_state_def updateStateReset_def)

definition bench_system :: "usb_bench firmware system" where
  "bench_system = \<lparr>sys_state = bench_firmware_state, usb_runs = True, app_phase = Starting\<rparr>"

text \<open>The host selects a configuration, then asks for collection to start.\<close>

lemma bench_configured:
  assumes "ub_speed (world s) = CY_U3P_SUPER_SPEED" and "\<not> glIsApplnActive s"
  shows "domDupUSBEventCB sim_usb CY_U3P_USB_EVENT_SETCONF 1 s
    = Running ((stop_collecting sim_usb s)\<lparr>glIsApplnActive := True\<rparr>)"
proof -
  have "CyU3PUsbGetSpeed sim_usb (world s) = CY_U3P_SUPER_SPEED"
    using assms(1) by (simp add: sim_usb_def sim_with_def)
  then show ?thesis using assms(2)
    by (simp add: domDupUSBEventCB_def stop_if_active_def domDupStartApplication_def plainly_def
        checked_def call_def load_gpif_def effect_def sim_usb_unfold Let_def)
qed

definition bench_capturing :: "usb_bench firmware" where
  "bench_capturing = snd (domDupUSBSetupCB sim_usb 0x0001B540 0
     ((stop_collecting sim_usb bench_firmware_state)\<lparr>glIsApplnActive := True\<rparr>))"

lemma bench_capturing_reached:
  assumes "\<And>c p. app_phase c = Starting \<Longrightarrow> admits c p"
  shows "(firmware_step sim_usb [] admits)\<^sup>*\<^sup>* bench_system
     \<lparr>sys_state = bench_capturing, usb_runs = True, app_phase = Starting\<rparr>"
proof -
  let ?s = "(stop_collecting sim_usb bench_firmware_state)\<lparr>glIsApplnActive := True\<rparr>"
  let ?c = "bench_system\<lparr>sys_state := ?s\<rparr>"
  have "domDupUSBEventCB sim_usb CY_U3P_USB_EVENT_SETCONF 1 (sys_state bench_system) = Running ?s"
    unfolding bench_system_def system.simps
    by (rule bench_configured) (simp_all add: bench_firmware_state_def bench_usb_def)
  moreover have "usb_runs bench_system" by (simp add: bench_system_def)
  ultimately have "firmware_step sim_usb [] admits bench_system ?c" by (rule event [rotated])
  moreover have "firmware_step sim_usb [] admits ?c
      (?c\<lparr>sys_state := snd (domDupUSBSetupCB sim_usb 0x0001B540 0 (sys_state ?c))\<rparr>)"
    by (rule setup_request) (simp_all add: bench_system_def assms)
  ultimately show ?thesis
    by (simp add: bench_system_def bench_capturing_def)
qed

lemma bench_capturing_flag: "dataCollectionFlag bench_capturing"
proof -
  have "bReqType (decode_setup 0x0001B540 0) AND CY_U3P_USB_TYPE_MASK = CY_U3P_USB_VENDOR_RQT"
    and "bRequest (decode_setup 0x0001B540 0) = 0xB5" and "wValue (decode_setup 0x0001B540 0) = 1"
    by (simp_all add: decode_setup_def)
  then show ?thesis
    by (simp add: bench_capturing_def domDupUSBSetupCB_def Let_def vendor_request_def
        collection_request_def start_collecting_def acknowledge_def effect_def
        stop_collecting_def domDupClearInputFlags_def updateAgentInProgress_def
        bench_firmware_state_def updateIsInProgress_def updateStateReset_def)
qed

end
