(* ===== verification/WireBench.thy ===== *)
theory WireBench
  imports WireMedia UsbBench
begin

text \<open>
  The update from end to end: the host's updater and orchestrator at one end of the control
  endpoint, the firmware at the other, over the simulated FX3 of \<open>UsbBench\<close> and its two media.
\<close>

subsection \<open>The simulated FX3 as the far end of the wire\<close>

definition offer_data :: "byte list \<Rightarrow> usb_bench \<Rightarrow> usb_bench" where
  "offer_data d w = w\<lparr>ub_incoming := d\<rparr>"

definition last_answer :: "usb_bench \<Rightarrow> byte list" where
  "last_answer w = (case rev (ub_replies w) of Sent bs # _ \<Rightarrow> bs | _ \<Rightarrow> [])"

lemma bench_endpoint: "endpoint_wire sim_usb offer_data last_answer"
  by unfold_locales (simp_all add: sim_usb_unfold offer_data_def last_answer_def)

lemma endpoint_call_board:
  assumes "endpoint_call sim_usb offer_data f"
  shows "bd_cs_n (f w) = bd_cs_n w" "bd_sclk (f w) = bd_sclk w" "bd_slave (f w) = bd_slave w"
    "bd_locked (f w) = bd_locked w" "bd_eeprom (f w) = bd_eeprom w"
  using assms by (cases; simp add: sim_usb_unfold offer_data_def)+

interpretation bench_link: kept_link sim_usb "\<lambda>w. bd_eeprom w = e" for e
  by unfold_locales (auto simp: sim_usb_unfold drive_pin_def split: if_splits)

interpretation bench_reliable: reliable_eeprom sim_usb bd_eeprom
  unfolding sim_usb_def by (rule board_eeprom.reliable_eeprom_axioms)

interpretation bench_eeprom_wire: eeprom_on_wire sim_usb offer_data last_answer bd_eeprom
proof (rule eeprom_on_wire.intro [OF bench_endpoint bench_reliable.reliable_eeprom_axioms], unfold_locales)
  show "bd_eeprom (f w) = bd_eeprom w" if "endpoint_call sim_usb offer_data f" for f w
    by (rule endpoint_call_board [OF that])
  show "bd_eeprom (world (snd (fpgaRegistersSetLeds sim_usb v s))) = bd_eeprom (world s)"
    for v and s :: "usb_bench firmware"
    using bench_link.registers(4) [of s "bd_eeprom (world s)" v] by simp
qed

lemma bench_good_board:
  fixes s :: "(usb_bench, 'z) epcs_scheme"
  assumes "bd_cs_n w = bd_cs_n (world s)" "bd_sclk w = bd_sclk (world s)" "bd_slave w = bd_slave (world s)"
    "bd_locked w = bd_locked (world s)" "bd_eeprom w = bd_eeprom (world s)" and "bench_good s"
  shows "bench_good (s\<lparr>world := w\<rparr>)"
  using assms by (simp add: bench_good_def at_rest_def link_idle_def board_bank_def fpgaRegistersHasFlashBridge_def
      split: if_splits)

lemma bench_leds:
  fixes s :: "('b board_scheme, 'z) epcs_scheme"
  assumes "bench_good s"
  shows "bench_good (snd (fpgaRegistersSetLeds (sim_with rf mr) v s))
    \<and> bench_flash (world (snd (fpgaRegistersSetLeds (sim_with rf mr) v s))) = bench_flash (world s)"
proof -
  have r: "at_rest s (board_bank (world s)) (bd_eeprom (world s))" using assms by (simp add: bench_good_def)
  have a: "FPGA_REGISTER_LED \<le> 0x7F" by simp
  obtain w where w: "fpgaRegistersWrite (sim_with rf mr) FPGA_REGISTER_LED v s = (True, s\<lparr>world := w\<rparr>)"
    "at_rest (s\<lparr>world := w\<rparr>) (reg_write FPGA_REGISTER_LED v (board_bank (world s))) (bd_eeprom (world s))"
    using write_at_rest [OF r a, where rf = rf and mr = mr and v = v] by (elim exE conjE)
  have "quiet (bk\<lparr>bk_led := v\<rparr>) = quiet bk" for bk by (simp add: quiet_def)
  then show ?thesis using w assms
    by (auto simp: fpgaRegistersSetLeds_def bench_good_def bench_flash_def at_rest_def reg_write_def
        fpgaRegistersHasFlashBridge_def split: if_splits)
qed

interpretation bench_reliable_flash: reliable_flash sim_usb
  "bench_good :: usb_bench firmware \<Rightarrow> bool" bench_flash
  unfolding sim_usb_def by (rule board_flash.reliable_flash_axioms)

interpretation bench_flash_wire: flash_on_wire sim_usb offer_data last_answer bench_good bench_flash
proof (rule flash_on_wire.intro [OF bench_endpoint bench_reliable_flash.reliable_flash_axioms], unfold_locales)
  show "bench_flash (f w) = bench_flash w" if "endpoint_call sim_usb offer_data f" for f w
    using endpoint_call_board(3) [OF that, of w] by (simp add: bench_flash_def board_bank_def)
  show "bench_good (s\<lparr>world := f (world s)\<rparr>)" if "endpoint_call sim_usb offer_data f" and "bench_good s"
    for f and s :: "usb_bench firmware"
    by (rule bench_good_board [OF endpoint_call_board [OF that(1)] that(2)])
qed (unfold sim_usb_def, rule bench_leds)

text \<open>The simulated FX3 with its firmware up, its EEPROM answering and its gateware found.\<close>

definition bench_device :: "usb_bench firmware" where
  "bench_device = bench_firmware_state\<lparr>glUpdateI2cReady := True, glFpgaPresent := True, glFpgaLockReady := True,
     glFpgaIdentity := bk_identity (board_bank bench_board)\<rparr>"

lemma bench_device_ready:
  "eeprom_ready bench_device" "flash_ready bench_good bench_flash (bench_flash bench_board) bench_device"
  "buffers_ok bench_device"
proof -
  have q: "fpgaRegistersHasFlashBridge bench_device"
    by (simp add: fpgaRegistersHasFlashBridge_def bench_device_def fpgaIdentityHasFlashBridge_def fpgaIdentityIsValid_def
        fpgaIdentityMapVersion_def board_bank_def bench_board_def)
  have w: "board_bank (world bench_device) = board_bank bench_board" "glFpgaLockReady bench_device"
    "link_idle (world bench_device)" "length (glEpcsCommand bench_device) = 260"
    by (simp_all add: bench_device_def bench_firmware_state_def bench_usb_def board_bank_def link_idle_def bench_board_def)
  have "quiet (board_bank bench_board)" "fc_id (bk_flash (board_bank bench_board)) = UPDATE_EPCS_ID_EPCS64"
    by (simp_all add: quiet_def bench_board_def board_bank_def)
  then have "bench_good bench_device" using q w by (simp add: bench_good_def at_rest_def)
  then show "flash_ready bench_good bench_flash (bench_flash bench_board) bench_device"
    using w by (simp add: flash_ready_def bench_flash_def)
      (simp add: bench_device_def bench_firmware_state_def updateIsInProgress_def updateStateReset_def bench_hash_def)
  show "eeprom_ready bench_device" "buffers_ok bench_device"
    by (simp_all add: eeprom_ready_def buffers_ok_def bench_device_def bench_firmware_state_def
        updateIsInProgress_def updateStateReset_def bench_hash_def)
qed

definition bench_updater :: "usb_bench wire UsbDeviceUpdater" where
  "bench_updater = \<lparr>updater_world = \<lparr>wire_device = bench_device, wire_clock = 0, wire_turn = 0\<rparr>,
     updater_path = [], updater_channel = True, enumerated = None\<rparr>"

lemma bench_updater_sels:
  "updater_channel bench_updater" "wire_device (updater_world bench_updater) = bench_device"
  by (simp_all add: bench_updater_def)

lemma bench_update_images: "eeprom_image bench_firmware" "flash_image kTargetGateware bench_gateware"
  using bench_images by (simp_all add: eeprom_image_def flash_image_def)

interpretation bench_eeprom_medium: update_medium sim_usb offer_data last_answer kTargetFirmware bench_firmware
  eeprom_ready "eeprom_taken bd_eeprom bench_firmware" "eeprom_holds bd_eeprom bench_firmware"
  "eeprom_taking bd_eeprom bench_firmware"
  by (rule bench_eeprom_wire.eeprom_medium [OF bench_update_images(1)])

interpretation bench_flash_medium: update_medium sim_usb offer_data last_answer kTargetGateware bench_gateware
  "flash_ready bench_good bench_flash m" "flash_taken bench_good bench_flash kTargetGateware m bench_gateware"
  "flash_holds bench_flash kTargetGateware m bench_gateware"
  "flash_taking bench_good bench_flash kTargetGateware m bench_gateware" for m
  by (rule bench_flash_wire.flash_medium [OF bench_update_images(2)])

text \<open>The application thread comes round at every third request, and the host waits its usual times.\<close>

definition every_third :: "nat \<Rightarrow> bool" where
  "every_third n \<longleftrightarrow> n mod 3 = 0"

lemma every_third_fair: "\<exists>k\<le>2. every_third (n + k)"
proof -
  consider "n mod 3 = 0" | "n mod 3 = 1" | "n mod 3 = 2" by linarith
  then show ?thesis
  proof cases
    case 1
    then show ?thesis by (intro exI [of _ 0]) (simp add: every_third_def)
  next
    case 2
    then have "(n + 2) mod 3 = 0" by presburger
    then show ?thesis by (intro exI [of _ 2]) (simp add: every_third_def)
  next
    case 3
    then have "(n + 1) mod 3 = 0" by presburger
    then show ?thesis by (intro exI [of _ 1]) (simp add: every_third_def)
  qed
qed

definition usual_timings :: UpdateTimings where
  "usual_timings = \<lparr>tm_return_timeout = 30000, tm_poll_interval = 200, tm_stall_timeout = 60000\<rparr>"

definition named_component :: "byte list \<Rightarrow> UpdateComponent" where
  "named_component img = \<lparr>comp_length = length img, comp_sha256 = sha256 img, comp_identity = [], comp_interface_version = 1\<rparr>"

subsection \<open>From the host's call to the cells of the medium\<close>

text \<open>
  C3: The host's WriteComponent for the firmware, talking to this firmware over a control endpoint
  that delivers, and not stopped by the user, returns success with the EEPROM holding exactly the image: whatever the schedule of
  the application thread, provided it comes round at least once in every \<open>K + 1\<close> requests and \<open>K\<close>
  polls are within the stall timeout.
\<close>

theorem host_updates_firmware:
  assumes "eeprom_on_wire P offer answer eeprom" and "eeprom_image img" and "comp_sha256 c = sha256 img"
    and "updater_channel s" and "eeprom_ready (wire_device (updater_world s))"
    and "buffers_ok (wire_device (updater_world s))"
    and "\<And>n. \<exists>k\<le>K. turns (n + k)" and "K * tm_poll_interval tm \<le> tm_stall_timeout tm"
  shows "\<exists>s'. WriteComponent (usb_updater (wire_bus P offer answer turns)) (wire_env tm) kTargetFirmware c img outcome s
      = Some ((True, outcome), s')
    \<and> eeprom_holds eeprom img (wire_device (updater_world s'))"
proof -
  note m = eeprom_on_wire.eeprom_medium [OF assms(1,2)]
  have "update_medium.at_stage eeprom_ready s" using assms(4-6) by (simp add: update_medium.at_stage_def [OF m])
  from update_medium.write_component_ends [OF m this assms(3,7,8)]
  show ?thesis by (auto simp: update_medium.at_stage_def [OF m])
qed

theorem host_updates_firmware_witness:
  "\<exists>s'. WriteComponent (usb_updater (wire_bus sim_usb offer_data last_answer every_third)) (wire_env usual_timings)
      kTargetFirmware (named_component bench_firmware) bench_firmware fresh_outcome_update bench_updater
      = Some ((True, fresh_outcome_update), s')
    \<and> eeprom_holds bd_eeprom bench_firmware (wire_device (updater_world s'))"
  by (rule host_updates_firmware [OF bench_eeprom_wire.eeprom_on_wire_axioms bench_update_images(1) _ _ _ _ every_third_fair])
    (simp_all add: bench_updater_sels bench_device_ready named_component_def usual_timings_def)

text \<open>
  C4: The same for the two images of the configuration flash: on success the target's region holds
  exactly the image, after the application image the factory image enters it, and no cell outside the
  region and the boot block's sector has changed.
\<close>

theorem host_updates_gateware:
  assumes "flash_on_wire P offer answer good flash" and "flash_image t img" and "comp_sha256 c = sha256 img"
    and "updater_channel s" and "flash_ready good flash m (wire_device (updater_world s))"
    and "buffers_ok (wire_device (updater_world s))"
    and "\<And>n. \<exists>k\<le>K. turns (n + k)" and "K * tm_poll_interval tm \<le> tm_stall_timeout tm"
  shows "\<exists>s'. WriteComponent (usb_updater (wire_bus P offer answer turns)) (wire_env tm) t c img outcome s
      = Some ((True, outcome), s')
    \<and> flash_holds flash t m img (wire_device (updater_world s'))"
proof -
  note m = flash_on_wire.flash_medium [OF assms(1,2), of m]
  have "update_medium.at_stage (flash_ready good flash m) s" using assms(4-6) by (simp add: update_medium.at_stage_def [OF m])
  from update_medium.write_component_ends [OF m this assms(3,7,8)]
  show ?thesis by (auto simp: update_medium.at_stage_def [OF m])
qed

theorem host_updates_gateware_witness:
  "\<exists>s'. WriteComponent (usb_updater (wire_bus sim_usb offer_data last_answer every_third)) (wire_env usual_timings)
      kTargetGateware (named_component bench_gateware) bench_gateware fresh_outcome_update bench_updater
      = Some ((True, fresh_outcome_update), s')
    \<and> flash_holds bench_flash kTargetGateware (bench_flash bench_board) bench_gateware (wire_device (updater_world s'))"
  by (rule host_updates_gateware [OF bench_flash_wire.flash_on_wire_axioms bench_update_images(2) _ _ _ _ every_third_fair])
    (simp_all add: bench_updater_sels bench_device_ready named_component_def usual_timings_def)

end
