(* ===== verification/Spec2Isabelle.thy ===== *)
theory Spec2Isabelle
  imports DmaHeap RecoveryBench CaptureBench UpdateFlows WireBench
begin

text \<open>
  Domesday Duplicator: the verification library of its firmware, its gateware's flash path, its boot
  tools, its capture path and its device update.

  \<^bold>\<open>The system.\<close> A LaserDisc player's RF signal is sampled at 40 MSPS by an FPGA, which puts a sequence
  counter into the spare bits of every sample and streams the words through a Cypress FX3 to a host.
  Three programs meet here. The FX3 firmware (\<^verbatim>\<open>fx3/firmware/src\<close>) moves samples, answers vendor
  requests on endpoint 0, and updates itself and the FPGA's configuration flash. The gateware
  (\<^verbatim>\<open>fpga\<close>) makes the sample stream, answers the register link the firmware bit-bangs, bridges to the
  flash, and at power-on its factory image decides whether to enter the application image. The host
  (\<^verbatim>\<open>ddd-gui/src/capture\<close>) runs captures, reads devices, wakes a blank FX3 through its boot ROM and
  drives updates. \<^verbatim>\<open>fx3/mkimage\<close> builds the boot images they load.

  \<^bold>\<open>Conventions.\<close> A function of the source keeps its name, and is a function from state to state. A
  C structure or a group of static variables is a record, an integer whose width matters is a word,
  a \<^verbatim>\<open>size_t\<close> is a natural number, with the wrap of its subtraction written out where a guard depends
  on it, an error is a value. What is not under
  \<^verbatim>\<open>src/\<close> or is closed (the SDK, ThreadX, libusb, the operating system) is a record of operations over
  an uninterpreted world \<open>'w\<close>, passed as an argument; what a client relies on is a \<^theory_text>\<open>locale\<close>, and
  every locale is interpreted on a definition of the model: the board of \<open>Gateware\<close>, the benches, the
  allocator, the sinks, the USB programmer. A loop that may wait for ever is a \<^theory_text>\<open>partial_function\<close>
  with the result \<open>None\<close>, and what is claimed of such a loop includes that it returns.

  \<^bold>\<open>The firmware.\<close>
  \<^item> \<open>Prelude\<close>: words, little-endian bytes, memories and block updates, the rewrite collections.
  \<^item> \<open>Platform\<close>, \<open>UsbPlatform\<close>: the SDK calls, as records of operations.
  \<^item> \<open>FpgaLink\<close> (\<^verbatim>\<open>fpga-registers.c\<close>), \<open>RegisterMap\<close> (\<^verbatim>\<open>fpga-register-map.c\<close>), \<open>EpcsFlash\<close>
    (\<^verbatim>\<open>epcs-flash.c\<close>): register link, register policy, flash driver.
  \<^item> \<open>UpdateProtocol\<close> (\<^verbatim>\<open>update-protocol.c\<close>): the pure decisions of an update: admission, spans,
    packets. \<open>BootBlock\<close>: its checksum and boot block, with \<^verbatim>\<open>fpga/factory/bootLoader.v\<close>, the reader.
  \<^item> \<open>Sha256\<close> (\<^verbatim>\<open>vendor/sha-256.c\<close>): the streaming digest and FIPS 180-4.
  \<^item> \<open>UpdateAgent\<close> (\<^verbatim>\<open>update-agent.c\<close>): BEGIN, DATA, FINISH, readback and commit. \<open>VerifySteps\<close>: the
    readback and commit one access at a time, as callbacks see it, and that the steps run without
    interruption are the readback of \<open>UpdateAgent\<close>. \<open>Media\<close> and \<open>FlashMedium\<close>: the contracts of the
    two media and what an update does on them; the weakest (\<open>eeprom_readback\<close>, \<open>flash_readback\<close>) takes
    only reads to be true, the next one also what is reported written, the last never fails. \<open>Gateware\<close>, \<open>GatewareFlash\<close>, \<open>Bench\<close>: the register slave, the bridge and a serial
    flash as a board on which the contracts are discharged.
  \<^item> \<open>Descriptors\<close> (\<^verbatim>\<open>usb-descriptor.c\<close>), \<open>Firmware\<close> (\<^verbatim>\<open>domesday-duplicator.c\<close>): start-up, the
    application thread, the USB and GPIO callbacks. \<open>FirmwareFrames\<close>, \<open>FirmwareSafety\<close>: the step
    relation of callbacks, interrupts and the thread and its invariants. The thread goes from pass to
    pass, and by single accesses while it verifies and while it holds a suspended link, so that
    callbacks come in between; which requests the host may send when is a parameter of the relation. \<open>ControlEndpoint\<close>, \<open>UsbBench\<close>: endpoint 0.
  \<^item> \<open>Memory\<close>, \<open>DmaBuffers\<close>, \<open>DmaHeap\<close> (\<^verbatim>\<open>cyfxtx.c\<close>): memory routines and the buffer allocator.

  \<^bold>\<open>Boot images and recovery.\<close>
  \<^item> \<open>BootImage\<close> (\<^verbatim>\<open>fx3-bootimage.c\<close>) writes, \<open>BootReader\<close> (\<^verbatim>\<open>boot_image.cpp\<close>) reads, \<open>HostUsb\<close>
    (\<^verbatim>\<open>usb_device_info.cpp\<close>) finds the device, \<open>Recovery\<close> (\<^verbatim>\<open>device_programmer.cpp\<close>,
    \<^verbatim>\<open>device_recovery.cpp\<close>) loads it, \<open>RecoveryBench\<close> puts them together.

  \<^bold>\<open>The update as the host drives it.\<close>
  \<^item> \<open>HostVersions\<close> (\<^verbatim>\<open>firmware_version.cpp\<close>, \<^verbatim>\<open>fpga_version.cpp\<close>): what a device says it runs.
  \<^item> \<open>DeviceUpdater\<close> (\<^verbatim>\<open>device_updater.cpp\<close>): the requests of \<^verbatim>\<open>IDeviceUpdater\<close>, over USB.
  \<^item> \<open>Orchestrator\<close> (\<^verbatim>\<open>update_orchestrator.cpp\<close>): the three flows from a bundle to an outcome.
  \<^item> \<open>UpdateJournal\<close>, \<open>UpdateFlows\<close>: a journal of what the flows ask of a device of any behaviour
    and what it answers, and what a flow's outcome says of that journal.
  \<^item> \<open>UpdateWire\<close>, \<open>WireMedia\<close>, \<open>WireBench\<close>: the host's flow at one end of endpoint 0 and the
    firmware at the other. A request is one call of the firmware's setup callback with the data stage
    the host offers; before each, the schedule says whether the application thread has come round,
    and a turn of it runs a pending verification as one step. The contract of a medium on the wire
    is discharged for the EEPROM and for the flash, and both on the simulated FX3.

  \<^bold>\<open>The capture path.\<close>
  \<^item> \<open>Samples\<close> (\<^verbatim>\<open>sample_format.h\<close>, \<^verbatim>\<open>sample_metrics.cpp\<close>), \<open>SequenceValidator\<close>
    (\<^verbatim>\<open>sequence_validator.cpp\<close>), \<open>CounterStreams\<close> (what it accepts), \<open>TestPattern\<close>
    (\<^verbatim>\<open>test_pattern_verifier.cpp\<close>, \<^verbatim>\<open>dataGenerator.v\<close>).
  \<^item> \<open>CaptureRing\<close> (\<^verbatim>\<open>disk_buffer_ring.cpp\<close>) as atomic accesses; \<open>CapturePipeline\<close>
    (\<^verbatim>\<open>capture_pipeline.cpp\<close>, \<^verbatim>\<open>synthetic_source.cpp\<close>) the step relation of the threads; \<open>CaptureEnd\<close>
    how they end; \<open>CaptureFile\<close> (\<^verbatim>\<open>raw_sink.cpp\<close>, \<^verbatim>\<open>capture_reader.cpp\<close>, \<^verbatim>\<open>test_data_analysis.cpp\<close>);
    \<open>CaptureWork\<close> the processing of a buffer; \<open>CaptureBench\<close> the properties.

  \<^bold>\<open>What the lemmas show.\<close> For each component: what its operations do on every branch, errors
  included; an invariant that every operation keeps; and its contract as a locale. Across components:
  an update that meets no failure ends with exactly the promised bytes on its medium, and a medium
  that stores anything but what it was given never lets the device say so, as long as its reads are
  true; the host's flow and the
  firmware's handlers agree on every request, so that the host returns success with the image on the
  medium; a flow reports success only for what the device answered and came back as; no capture runs
  during an update of a host that waits for the verification, and what another host can do is shown
  (\<open>refused_chunk_lets_capture_in\<close>); every setup request is answered once; a boot block that is damaged is not followed; a
  program in an ELF file is the program in the memory of the woken device; a capture file that is
  reported good, of a capture nobody aborted, has the samples the source delivered, under every
  interleaving of the threads and whatever the stream holds back until the flush at the end; and a
  capture told to stop ends. Where the code does not do what a comment says, the lemma that shows it
  stands beside the property: \<open>boot_length_wraps\<close>, \<open>older_ramp_fails\<close>, \<open>abort_during_drain\<close>,
  \<open>peak_over_count\<close>.

  \<^bold>\<open>Bounds.\<close> The waits of the firmware are bounded in the source (\<^verbatim>\<open>EPCS_READY_TIMEOUT_MS\<close> polls,
  \<^verbatim>\<open>UPDATE_I2C_ATTEMPTS\<close> tries) and the model counts as the source does; other loops are structural or
  have a measure, so there is no fuel to run out of. The application thread's wait in a suspended link,
  the host's waits for a device, and its wait for a completion are partial functions.
  An admitted update has at most 6 MiB, so that counters of 32 bits do not wrap. Waiting for a device
  is shown to end when the clock passes the deadline, and the wait for a completion when the
  application thread comes round within the stall timeout.

  \<^bold>\<open>Not modelled.\<close>
  \<^item> The closed SDK below its interface, and the register headers under \<^verbatim>\<open>fx3/sdk\<close>, which hold
    addresses only; the exception handlers of \<^verbatim>\<open>cyfxtx.c\<close>, which loop for ever; the generated GPIF
    configuration \<^verbatim>\<open>cyfxgpif2config.h\<close>; debug output.
  \<^item> The Verilog other than the data generator, the boot loader, and the register slave, bridge and
    flash as \<open>Gateware\<close> states them for the firmware's use of them; clock-level timing.
  \<^item> \<^verbatim>\<open>mkimage\<close>'s command line and \<^verbatim>\<open>fx3/programmer\<close>: file input and output around calls of libusb.
  \<^item> The libusb and WinUSB backends, memory locking and thread priorities: calls of the operating
    system. The FLAC sink and writer: calls of libFLAC. The log lines of every part.
  \<^item> Reading bundles, manifests and signatures (\<^verbatim>\<open>update_bundle.cpp\<close>, \<^verbatim>\<open>json_value.cpp\<close>,
    \<^verbatim>\<open>minisign_verify.cpp\<close>), JTAG (\<^verbatim>\<open>svf_player.cpp\<close> and the cables), metadata and naming, the monitor
    tap: an update here starts from a bundle that has been opened.
  \<^item> The estimates and statistics in floating point, the analysis of the spectrum, the control of the
    player, the graphical interface, the command lines, the vendored libraries of the host, tests,
    documentation and the hardware design.
\<close>

section \<open>Properties\<close>

subsection \<open>Admission\<close>

text \<open>
  C20: A BEGIN request is admitted exactly when no capture runs, no update is in progress, the
  length suits the target (EEPROM, application region or factory region), and the flags word
  is zero, or for the factory region the factory-write word. Every other request is refused.
\<close>

theorem begin_admission:
  "updateBeginIsAllowed st t len flags capture = ERROR_NONE \<longleftrightarrow>
     \<not> capture
     \<and> st_phase st \<in> {PHASE_IDLE, PHASE_COMPLETE, PHASE_FAILED}
     \<and> unat len \<in> (if t = UPDATE_TARGET_EEPROM then {128..262144}
                   else if t = UPDATE_TARGET_EPCS then {256..0x600000}
                   else if t = UPDATE_TARGET_EPCS_FACTORY then {256..0x100000} else {})
     \<and> flags = (if t = UPDATE_TARGET_EPCS_FACTORY then UPDATE_FLAG_FACTORY_WRITE else 0)"
proof -
  have "\<not> updateIsInProgress st \<longleftrightarrow> st_phase st \<in> {PHASE_IDLE, PHASE_COMPLETE, PHASE_FAILED}"
    by (cases "st_phase st") (simp_all add: updateIsInProgress_def)
  then show ?thesis
    unfolding begin_allowed_iff by (auto simp: admissible_length_def)
qed

text \<open>
  C21: Every sector the firmware erases for an admitted gateware image lies inside the region
  of its target, and is never the sector that holds the boot block.
\<close>

theorem erased_sectors_confined:
  assumes "updateBeginIsAllowed st t len flags capture = ERROR_NONE" and "t \<noteq> UPDATE_TARGET_EEPROM"
    and "unat (updateEpcsTargetBase t) \<le> unat a"
    and "unat a < unat (updateEpcsTargetBase t) + unat len"
  shows "let sector = unat (updateEpcsSectorBase a); base = unat (updateEpcsTargetBase t)
         in base \<le> sector \<and> sector + 65536 \<le> base + unat (updateEpcsTargetCapacity t)
            \<and> {sector..<sector + 65536} \<inter> {0x100000..<0x110000} = {}"
proof -
  have adm: "admissible_length t len" using assms(1) by (simp add: begin_allowed_iff)
  then have e: "updateTargetIsEpcs t"
    using assms(2) by (auto simp: admissible_length_def)
  note r = region_sectors [OF adm e assms(3,4)]
  from e have "t = 1 \<or> t = 2" by (auto simp: updateTargetIsEpcs_def)
  then show ?thesis using r by (auto simp: Let_def)
qed

theorem erased_sectors_confined_witness:
  "let sector = unat (updateEpcsSectorBase 0x212345); base = unat (updateEpcsTargetBase 1)
   in base \<le> sector \<and> sector + 65536 \<le> base + unat (updateEpcsTargetCapacity 1)
      \<and> {sector..<sector + 65536} \<inter> {0x100000..<0x110000} = {}"
  by (rule erased_sectors_confined
      [of "updateStateReset undefined" 1 "0x20000" 0 False "0x212345"])
    (simp_all add: updateBeginIsAllowed_def updateGatewareIsPlausible_def updateIsInProgress_def
      updateStateReset_def updateEpcsTargetCapacity_def)

subsection \<open>Checksums, digests and the boot block\<close>

text \<open>
  C22: Damage confined to at most four consecutive bytes of a boot block, wherever it falls and
  the checksum's own bytes included, never leaves a block the factory image accepts.
\<close>

theorem boot_block_burst:
  assumes "header_valid (xs @ d @ ys)" and "length (xs @ d @ ys) = 24"
    and "length d \<le> 4" and "length e = length d" and "e \<noteq> d"
  shows "\<not> header_valid (xs @ e @ ys)"
  using header_burst_rejected [of xs d ys e] assms by auto

theorem boot_block_burst_witness:
  "\<not> header_valid ([0x44, 0x44] @ [0, 0]
     @ drop 4 (updateBootBlockEncode (replicate 24 0) 0x200000 0x1000 0xDEADBEEF))"
proof -
  let ?b = "updateBootBlockEncode (replicate 24 0) 0x200000 0x1000 0xDEADBEEF"
  have l: "?b = [0x44, 0x44] @ [0x42, 0x42] @ drop 4 ?b" and n: "length ?b = 24"
    by (simp_all add: boot_block_layout Let_def)
  have "header_valid ?b"
    using encoded_header_valid_iff [of "replicate 24 0" "0x200000" "0x1000" "0xDEADBEEF"] n
    by simp
  then have "header_valid ([0x44, 0x44] @ [0x42, 0x42] @ drop 4 ?b)" by (subst (asm) l)
  then show ?thesis by (rule boot_block_burst) (simp_all add: n)
qed

text \<open>
  C23: The boot block the firmware writes is understood by the factory image: a flash that
  holds it at the boot block's address enters the application exactly when the block
  describes a non-empty image below eight megabytes whose bytes have the recorded checksum.
  It holds of every block whose address and length do not add up to 2^32 or more, as those of
  the firmware cannot; of a longer one the bound of the factory image looks at a sum that has
  wrapped (\<open>boot_length_wraps\<close>).
\<close>

theorem boot_block_understood:
  assumes "slice flash 0x100000 24 = updateBootBlockEncode (replicate 24 0) address len imageCrc"
    and "unat address + unat len < 2 ^ 32"
  shows "boot_enters_application flash \<longleftrightarrow>
    len \<noteq> 0 \<and> unat address + unat len \<le> 0x800000
    \<and> imageCrc = crc32 (slice flash (unat address) (unat len))"
proof -
  have "length (updateBootBlockEncode (replicate 24 0) address len imageCrc) = 24"
    by (simp add: boot_block_layout Let_def)
  then show ?thesis
    using boot_enters_iff [of "replicate 24 0" flash address len imageCrc] assms by simp
qed

theorem boot_block_understood_witness:
  "boot_enters_application
     (patch (\<lambda>_. 0) 0x100000 (updateBootBlockEncode (replicate 24 0) 0x200000 1 (crc32 [0])))"
proof -
  let ?b = "updateBootBlockEncode (replicate 24 0) 0x200000 1 (crc32 [0])"
  let ?f = "patch (\<lambda>_. 0) 0x100000 ?b"
  have n: "length ?b = 24" by (simp add: boot_block_layout Let_def)
  have "slice ?f 0x100000 24 = ?b"
    using slice_patch_same [of "\<lambda>_. 0" "0x100000" ?b] n by simp
  moreover have "slice ?f 0x200000 1 = [0]"
    by (rule nth_equalityI) (simp_all add: n)
  ultimately show ?thesis
    using boot_block_understood [of ?f "0x200000" 1 "crc32 [0]"] by simp
qed

text \<open>
  C24: The streaming SHA-256 computes the digest of the standard (FIPS 180-4: padding,
  64-word message schedule, compression), however the message is cut into writes, including
  empty ones, and wherever the cuts fall in a 64-byte chunk.
\<close>

theorem streamed_digest:
  "sha_256_close (fold (\<lambda>d s. sha_256_write s d) chunks
      (sha_256_init \<lparr>sh_chunk = replicate 64 x, sh_chunk_pos = p, sh_space_left = l,
                     sh_total_len = n, sh_h = h\<rparr>))
   = sha256 (concat chunks)"
  by (rule sha.chunked_digest) simp

subsection \<open>Packets and registers\<close>

text \<open>
  C25: The forty bytes a host builds for BEGIN decode to the length, digest and flags it put
  in them, and nothing of another length or with another flags word decodes at all.
\<close>

theorem begin_packet_roundtrip:
  "updateBeginDecode data len = Some b \<and> length data = 40 \<longleftrightarrow>
     len = 40 \<and> length (bg_digest b) = 32
     \<and> bg_flags b \<in> {UPDATE_FLAGS_NONE, UPDATE_FLAG_FACTORY_WRITE}
     \<and> data = begin_packet (bg_length b) (bg_digest b) (bg_flags b)"
proof
  assume "len = 40 \<and> length (bg_digest b) = 32
     \<and> bg_flags b \<in> {UPDATE_FLAGS_NONE, UPDATE_FLAG_FACTORY_WRITE}
     \<and> data = begin_packet (bg_length b) (bg_digest b) (bg_flags b)"
  then show "updateBeginDecode data len = Some b \<and> length data = 40"
    using begin_packet_decodes [of "bg_digest b" "bg_flags b" "bg_length b"]
    by (auto simp: begin_packet_def)
next
  assume "updateBeginDecode data len = Some b \<and> length data = 40"
  then show "len = 40 \<and> length (bg_digest b) = 32
     \<and> bg_flags b \<in> {UPDATE_FLAGS_NONE, UPDATE_FLAG_FACTORY_WRITE}
     \<and> data = begin_packet (bg_length b) (bg_digest b) (bg_flags b)"
    using begin_packet_of_fields [of data]
    by (auto simp: updateBeginDecode_def Let_def split: if_splits)
qed

text \<open>
  C26: A status packet determines the phase, the error and the three counters it reports, and
  fills the sixteen bytes whatever the buffer held.
\<close>

theorem status_packet_injective:
  assumes "length out = 16" and "length out' = 16"
    and "updateStatusEncode st out = updateStatusEncode st' out'"
  shows "st_phase st = st_phase st' \<and> st_error st = st_error st'
    \<and> st_received st = st_received st' \<and> st_written st = st_written st'
    \<and> st_verified st = st_verified st'"
  using assms(3) unfolding status_layout [of out st, OF eq_imp_le [OF assms(1) [symmetric]]]
    status_layout [of out' st', OF eq_imp_le [OF assms(2) [symmetric]]]
  by (simp add: assms phase_code_inj error_code_inj bytes_le32_inj)

theorem status_packet_injective_witness:
  "st_phase (updateStateReset undefined) = PHASE_IDLE"
  using status_packet_injective [of "replicate 16 0" "replicate 16 1" "updateStateReset undefined"
      "updateStateReset undefined"]
  by (simp add: status_layout updateStateReset_def)

text \<open>
  C27: Of all register writes a host can ask for, exactly those to the test-mode and the
  decimation register are honoured; the LEDs, the flash bridge and the reconfiguration
  control are out of its reach.
\<close>

theorem host_writes_confined:
  "fpgaWriteRequestIsValid v \<longleftrightarrow> unat v \<in> {0x1000..0x10FF} \<union> {0x1200..0x12FF}"
proof -
  have "unat v div 256 = 0x10 \<longleftrightarrow> unat v \<in> {0x1000..0x10FF}"
    and "unat v div 256 = 0x12 \<longleftrightarrow> unat v \<in> {0x1200..0x12FF}" by auto
  then show ?thesis unfolding write_valid_iff by blast
qed

text \<open>
  The commit text is the longest prefix of the commit field that is hexadecimal and fits
  the caller's buffer with its terminator, and empty when the gateware names no commit.
\<close>

theorem commit_text:
  assumes "0 < sz" and "sz \<le> length buf" and "length identity = 12"
  shows "c_string (fpgaIdentityCommitText identity buf sz) =
    (if fpgaIdentityIsValid identity \<and> bit (identity ! 2) 1
     then takeWhile isHexDigit (take (min 8 (sz - 1)) (drop 3 identity)) else [])"
proof -
  have "(identity ! 2) AND 2 \<noteq> 0 \<longleftrightarrow> bit (identity ! 2) 1"
    by (simp add: bit_iff_and_push_bit_not_eq_0)
  then show ?thesis using commit_text_spec assms by simp
qed

theorem commit_text_witness:
  "c_string (fpgaIdentityCommitText [0x44, 2, 2, 0x61, 0x62, 0x21, 0, 0, 0, 0, 0, 1]
      (replicate 9 0xFF) 9) = [0x61, 0x62]"
  using commit_text [of 9 "replicate 9 0xFF" "[0x44, 2, 2, 0x61, 0x62, 0x21, 0, 0, 0, 0, 0, 1]"]
  by (simp add: fpgaIdentityIsValid_def isHexDigit_def)

subsection \<open>Updates\<close>

text \<open>
  C2: On an EEPROM that does not fail, a host that announces an FX3 image of admissible length
  with its SHA-256 and sends it in order, cut into non-empty chunks of at most 2048 bytes that
  are whole pages but for the last, ends in the phase COMPLETE with exactly that image on the
  medium.
\<close>

theorem eeprom_update_succeeds:
  assumes "reliable_eeprom P eeprom" and "glUpdateI2cReady s"
    and "\<not> updateIsInProgress (glUpdateState s)"
    and "length (glUpdatePagePad s) = 64" and "length (glUpdateReadback s) = 512"
    and "length (sh_chunk (glUpdateStreamHash s)) = 64"
    and "length (sh_chunk (glUpdateMediumHash s)) = 64"
    and "chunks_ok 64 chunks" and "128 \<le> length (concat chunks)"
    and "length (concat chunks) \<le> 0x40000" and "take 2 (concat chunks) = [0x43, 0x59]"
  shows "let s' = update_session P UPDATE_TARGET_EEPROM UPDATE_FLAGS_NONE (sha256 (concat chunks)) chunks s
    in st_phase (glUpdateState s') = PHASE_COMPLETE
       \<and> slice (eeprom (world s')) 0 (length (concat chunks)) = concat chunks"
  by (rule reliable_eeprom.session_succeeds [OF assms(1)]) (use assms in simp_all)

theorem eeprom_update_succeeds_witness:
  "st_phase (glUpdateState (update_session sim_platform 0 0 (sha256 bench_firmware) [bench_firmware]
     bench_agent)) = PHASE_COMPLETE"
proof -
  have "128 \<le> length (concat [bench_firmware])" "length (concat [bench_firmware]) \<le> 0x40000"
    "take 2 (concat [bench_firmware]) = [0x43, 0x59]"
    unfolding bench_chunks(2) bench_images by simp_all
  from eeprom_update_succeeds [where P = sim_platform, OF board_eeprom.reliable_eeprom_axioms
      bench_agent_buffers(6,7,1,2,4,5) bench_chunks(1) this]
  show ?thesis unfolding bench_chunks(2) by (simp only: Let_def)
qed

text \<open>
  C1: On a configuration flash that does not fail, a host that announces a gateware image
  that fits its region and sends it in order, in chunks of whole 256-byte pages but for the
  last, ends in the phase COMPLETE with exactly that image in the region. After an update of
  the application region the factory image enters it; and nothing outside the region and the
  boot block's sector changes.
\<close>

theorem gateware_update_succeeds:
  assumes "reliable_flash P good flash" and "good s" and "\<not> updateIsInProgress (glUpdateState s)"
    and "length (glUpdateReadback s) = 512" and "length (glUpdateBootBlock s) = 24"
    and "length (sh_chunk (glUpdateStreamHash s)) = 64"
    and "length (sh_chunk (glUpdateMediumHash s)) = 64"
    and "chunks_ok 256 chunks" and "updateTargetIsEpcs t" and "256 \<le> length (concat chunks)"
    and "length (concat chunks) \<le> unat (updateEpcsTargetCapacity t)"
  shows "let s' = update_session P t
        (if t = UPDATE_TARGET_EPCS_FACTORY then UPDATE_FLAG_FACTORY_WRITE else UPDATE_FLAGS_NONE)
        (sha256 (concat chunks)) chunks s
    in st_phase (glUpdateState s') = PHASE_COMPLETE
      \<and> slice (flash (world s')) (unat (updateEpcsTargetBase t)) (length (concat chunks)) = concat chunks
      \<and> (t = UPDATE_TARGET_EPCS \<longrightarrow> boot_enters_application (flash (world s')))
      \<and> (\<forall>k. k < unat (updateEpcsTargetBase t)
            \<or> unat (updateEpcsTargetBase t) + unat (updateEpcsTargetCapacity t) \<le> k
          \<longrightarrow> k < 0x100000 \<or> 0x110000 \<le> k \<longrightarrow> flash (world s') k = flash (world s) k)"
  by (rule reliable_flash.session_succeeds [OF assms(1-8) refl assms(9-11) refl])

theorem gateware_update_succeeds_witness:
  "boot_enters_application (bench_flash (world (update_session sim_platform 1 0
     (sha256 bench_gateware) [bench_gateware] bench_agent)))"
proof -
  have "256 \<le> length (concat [bench_gateware])"
    "length (concat [bench_gateware]) \<le> unat (updateEpcsTargetCapacity 1)"
    unfolding bench_chunks(4) bench_images by simp_all
  from gateware_update_succeeds [where P = sim_platform, OF board_flash.reliable_flash_axioms bench_agent_good
      bench_agent_buffers(7,2,3,4,5) bench_chunks(3) updateTargetIsEpcs_simps(2) this]
  show ?thesis unfolding bench_chunks(4) by (simp add: Let_def)
qed

text \<open>
  C8: An EEPROM update never reports completion of anything but the promised image, whatever the
  EEPROM makes of what is written to it: its bus may acknowledge a page write and the page hold
  anything afterwards. If the verification step ends in COMPLETE, the cells of the medium have the
  digest BEGIN announced. It needs that a read which succeeds returns the cells and that a write
  stays in its page.
\<close>

theorem eeprom_completion_proved:
  assumes "eeprom_readback P eeprom"
    and "st_phase (glUpdateState (updateAgentVerify P s)) = PHASE_COMPLETE"
    and "st_phase (glUpdateState s) = PHASE_VERIFYING"
    and "st_target (glUpdateState s) = UPDATE_TARGET_EEPROM"
    and "admissible_length 0 (st_length (glUpdateState s))"
    and "length (glUpdateFirstPage s) = 64" and "length (glUpdateReadback s) = 512"
    and "length (sh_chunk (glUpdateMediumHash s)) = 64"
    and "length (st_digest (glUpdateState s)) = 32"
  shows "sha256 (slice (eeprom (world (updateAgentVerify P s))) 0 (unat (st_length (glUpdateState s))))
    = st_digest (glUpdateState s)"
  by (rule eeprom_readback.verify_complete [OF assms])

theorem eeprom_completion_proved_witness:
  "let s = bench_update PHASE_VERIFYING 0 bench_firmware bench_firmware (\<lambda>_. 0xFF)
       (patch (\<lambda>_. 0) 0 bench_firmware)
   in sha256 (slice (bd_eeprom (world (updateAgentVerify sim_platform s))) 0 128) = sha256 bench_firmware"
proof -
  let ?e = "patch (\<lambda>_. 0) 0 bench_firmware"
  let ?s = "bench_update PHASE_VERIFYING 0 bench_firmware bench_firmware (\<lambda>_. 0xFF) ?e"
  have "slice ?e 0 (64 + 64) = bench_firmware"
    using slice_patch_same [of "\<lambda>_. 0" 0 bench_firmware] bench_images(1) by simp
  then have "slice ?e 64 64 = drop 64 bench_firmware"
    unfolding slice_append by (metis add_0 append_eq_conv_conj length_slice)
  then have r: "received_eeprom bd_eeprom bench_firmware ?s"
    by (intro bench_update_eeprom) (simp_all add: bench_images)
  have l: "length (glUpdateFirstPage ?s) = 64" by (simp add: bench_update_fields)
  have c: "st_phase (glUpdateState (updateAgentVerify sim_platform ?s)) = PHASE_COMPLETE"
    by (rule board_eeprom.verify_succeeds [OF r, THEN conjunct1])
      (simp_all only: bench_update_fields bench_images)
  have a: "admissible_length 0 (st_length (glUpdateState ?s))"
    unfolding bench_update_fields admissible_length_def bench_images by simp
  have "sha256 (slice (bd_eeprom (world (updateAgentVerify sim_platform ?s))) 0
      (unat (st_length (glUpdateState ?s)))) = st_digest (glUpdateState ?s)"
    by (rule eeprom_completion_proved [OF board_eeprom.eeprom_readback_axioms c _ _ a l])
      (simp_all only: bench_update_fields length_sha256)
  then show ?thesis by (simp only: bench_update_fields bench_images Let_def)
qed

text \<open>
  C7: A gateware update never reports completion of anything but the promised image, whatever the
  flash makes of the erases and programs it is given: each may be reported done and leave anything
  in its sector or page. If the verification step ends in COMPLETE, the region has the digest BEGIN
  announced, and after an application update the factory image will enter it. It needs that a read
  which succeeds returns the cells and that an erase or a program stays in its sector or page.
\<close>

theorem gateware_completion_proved:
  assumes "flash_readback P good flash" and "good s"
    and "st_phase (glUpdateState (updateAgentVerify P s)) = PHASE_COMPLETE"
    and "st_phase (glUpdateState s) = PHASE_VERIFYING"
    and "updateTargetIsEpcs (st_target (glUpdateState s))"
    and "admissible_length (st_target (glUpdateState s)) (st_length (glUpdateState s))"
    and "length (glUpdateReadback s) = 512" and "length (glUpdateBootBlock s) = 24"
    and "length (sh_chunk (glUpdateMediumHash s)) = 64"
    and "length (st_digest (glUpdateState s)) = 32"
  shows "sha256 (slice (flash (world (updateAgentVerify P s)))
      (unat (updateEpcsTargetBase (st_target (glUpdateState s)))) (unat (st_length (glUpdateState s))))
      = st_digest (glUpdateState s)
    \<and> (st_target (glUpdateState s) = UPDATE_TARGET_EPCS
       \<longrightarrow> boot_enters_application (flash (world (updateAgentVerify P s))))"
  using flash_readback.verify_complete [OF assms(1,3-5,2,6-10)] by blast

theorem gateware_completion_proved_witness:
  "let s = bench_update PHASE_VERIFYING 1 bench_gateware bench_gateware
       (patch (\<lambda>_. 0xFF) 0x200000 bench_gateware) (\<lambda>_. 0)
   in boot_enters_application (bench_flash (world (updateAgentVerify sim_platform s)))"
proof -
  let ?s = "bench_update PHASE_VERIFYING 1 bench_gateware bench_gateware
    (patch (\<lambda>_. 0xFF) (unat (updateEpcsTargetBase 1)) bench_gateware) (\<lambda>_. 0)"
  have r: "received_epcs bench_flash bench_gateware ?s"
    by (rule bench_update_epcs) (simp_all add: bench_images)
  have c: "st_phase (glUpdateState (updateAgentVerify sim_platform ?s)) = PHASE_COMPLETE"
    by (rule board_flash.verify_succeeds [OF r _ bench_update_good])
      (simp_all only: bench_update_fields bench_images)
  have a: "admissible_length (st_target (glUpdateState ?s)) (st_length (glUpdateState ?s))"
    unfolding bench_update_fields admissible_length_def bench_images by simp
  have t: "updateTargetIsEpcs (st_target (glUpdateState ?s))" unfolding bench_update_fields by simp
  have "st_target (glUpdateState ?s) = UPDATE_TARGET_EPCS
      \<longrightarrow> boot_enters_application (bench_flash (world (updateAgentVerify sim_platform ?s)))"
    by (rule gateware_completion_proved [OF board_flash.flash_readback_axioms bench_update_good c _ t a,
          THEN conjunct2])
      (simp_all only: bench_update_fields length_sha256)
  moreover have "unat (updateEpcsTargetBase 1) = 0x200000" by simp
  ultimately show ?thesis unfolding Let_def by (simp only: bench_update_fields)
qed

text \<open>
  C18: Whatever the EEPROM answers, a data request for the EEPROM leaves its first page, the
  one the boot ROM reads, as it was; accepted, it keeps the invariant that the bytes received so
  far are held back, on the medium and hashed; refused, the update has failed.
\<close>

theorem eeprom_chunk_invariant:
  assumes "eeprom_device P eeprom" and "received_eeprom eeprom m s"
    and "updateChunkIsAllowed (glUpdateState s) t i (of_nat (length data)) = ERROR_NONE"
    and "m = [] \<longrightarrow> updateImageIsPlausible data (of_nat (length data)) (st_length (glUpdateState s))"
    and "length data < 65536"
    and "updateAgentData P t i data s = (ok, s')"
  shows "slice (eeprom (world s')) 0 64 = slice (eeprom (world s)) 0 64
    \<and> (if ok then received_eeprom eeprom (m @ data) s'
       else st_phase (glUpdateState s') = PHASE_FAILED)"
proof -
  have "st_received (glUpdateState s) = 0 \<longrightarrow> m = []"
    using assms(2) by (auto simp: received_eeprom_def)
  moreover have "(ucast (of_nat (length data) :: u16) :: u32) = of_nat (length data)"
    using assms(5) by (simp add: word_unat_eq_iff unat_of_nat_u16 unat_of_nat_u32)
  ultimately show ?thesis
    using eeprom_device.data_received [OF assms(1-3) _ assms(5,6)] assms(4)
    by (auto intro!: slice_cong)
qed

theorem eeprom_chunk_invariant_witness:
  "let s = bench_update PHASE_RECEIVING 0 bench_firmware [] (\<lambda>_. 0xFF) (\<lambda>_. 7)
   in slice (bd_eeprom (world (snd (updateAgentData sim_platform 0 0 bench_firmware s)))) 0 64
      = slice (\<lambda>_. 7) 0 64"
proof -
  let ?s = "bench_update PHASE_RECEIVING 0 bench_firmware [] (\<lambda>_. 0xFF) (\<lambda>_. 7)"
  have r: "received_eeprom bd_eeprom [] ?s"
    by (rule bench_update_eeprom) (simp_all add: bench_images)
  have a: "updateChunkIsAllowed (glUpdateState ?s) 0 0 (of_nat (length bench_firmware)) = ERROR_NONE"
    unfolding updateChunkIsAllowed_def bench_update_fields bench_images by simp
  have p: "[] = [] \<longrightarrow> updateImageIsPlausible bench_firmware (of_nat (length bench_firmware))
      (st_length (glUpdateState ?s))"
    unfolding bench_update_fields updateImageIsPlausible_def bench_images by simp
  have l: "length bench_firmware < 65536" by (simp add: bench_images)
  obtain ok s' where d: "updateAgentData sim_platform 0 0 bench_firmware ?s = (ok, s')"
    by (meson surj_pair)
  have "slice (bd_eeprom (world s')) 0 64 = slice (bd_eeprom (world ?s)) 0 64"
    by (rule eeprom_chunk_invariant [OF board_eeprom.eeprom_device_axioms r a p l d, THEN conjunct1])
  then show ?thesis by (simp only: Let_def d prod.sel bench_update_media)
qed

text \<open>
  C19: Whatever the flash answers, a data request for a gateware target changes no cell outside
  the region of its target; accepted, it keeps the invariant that the bytes received so far are
  in the region and hashed, with the rest of the last sector blank.
\<close>

theorem gateware_chunk_invariant:
  assumes "flash_medium P good flash" and "received_epcs flash m s" and "good s"
    and "updateChunkIsAllowed (glUpdateState s) t i (of_nat (length data)) = ERROR_NONE"
    and "length data < 65536" and "updateAgentData P t i data s = (ok, s')"
    and "b = unat (updateEpcsTargetBase (st_target (glUpdateState s)))"
    and "c = unat (updateEpcsTargetCapacity (st_target (glUpdateState s)))"
  shows "good s' \<and> (\<forall>k. k < b \<or> b + c \<le> k \<longrightarrow> flash (world s') k = flash (world s) k)
    \<and> (if ok then received_epcs flash (m @ data) s'
       else st_phase (glUpdateState s') = PHASE_FAILED)"
  using flash_medium.data_received [OF assms(1-6)] assms(7,8) by auto

theorem gateware_chunk_invariant_witness:
  "let s = bench_update PHASE_RECEIVING 1 bench_gateware [] (\<lambda>_. 0xFF) (\<lambda>_. 7)
   in bench_flash (world (snd (updateAgentData sim_platform 1 0 bench_gateware s))) 0x100000 = 0xFF"
proof -
  let ?s = "bench_update PHASE_RECEIVING 1 bench_gateware [] (\<lambda>_. 0xFF) (\<lambda>_. 7)"
  have "patch (\<lambda>_. 0xFF) n [] = (\<lambda>_. 0xFF)" for n by simp
  then have r: "received_epcs bench_flash [] ?s"
    using bench_update_epcs [of bench_gateware "[]" 1 PHASE_RECEIVING "\<lambda>_. 7"]
    by (simp add: bench_images)
  have a: "updateChunkIsAllowed (glUpdateState ?s) 1 0 (of_nat (length bench_gateware)) = ERROR_NONE"
    unfolding updateChunkIsAllowed_def bench_update_fields bench_images by simp
  obtain ok s' where d: "updateAgentData sim_platform 1 0 bench_gateware ?s = (ok, s')"
    by (meson surj_pair)
  have l: "length bench_gateware < 65536" by (simp add: bench_images)
  note g = gateware_chunk_invariant [OF board_flash.flash_medium_axioms r bench_update_good a l d refl refl]
  have "bench_flash (world s') 0x100000 = bench_flash (world ?s) 0x100000"
    using g unfolding bench_update_fields(4) by simp
  then show ?thesis by (simp only: Let_def d prod.sel bench_update_media)
qed

subsection \<open>The firmware's threads\<close>

text \<open>
  C14: Capture and update exclude each other. Whatever the FPGA and the SDK do, and in whatever
  order callbacks, interrupts and the steps of the application thread come, those of a running
  verification included, no reachable state collects while an update is in progress, provided the
  host sends no DATA or FINISH while an update is verified. For every host, an input condition is
  only recorded while the host collects, and the host collects only while the capture path is up.
  (What a host that does send one can reach is \<open>refused_chunk_lets_capture_in\<close>.)
\<close>

theorem capture_excludes_update:
  assumes "capture_board P pins" and "(firmware_step P product admits)\<^sup>*\<^sup>* c c'"
    and "power_on (sys_state c)" and "pins (world (sys_state c)) = Some (False, False)"
    and "app_phase c = Starting"
  shows "let s = sys_state c' in
    ((\<forall>c p. admits c p \<longrightarrow> waits_for_verification c p)
      \<longrightarrow> \<not> (dataCollectionFlag s \<and> updateAgentInProgress s))
    \<and> (dataCollectionFlag s \<longrightarrow> glIsApplnActive s)
    \<and> (input0Flag s \<or> input1Flag s \<or> input2Flag s \<or> input3Flag s \<longrightarrow> dataCollectionFlag s)"
  using capture_board.reachable_inv [OF assms(1-4)]
    capture_board.reachable_exclusive [OF assms(1,2) _ assms(3-5)]
  by (auto simp: Let_def capture_inv_def flags_ok_def)

theorem capture_excludes_update_witness:
  "dataCollectionFlag bench_capturing \<and> \<not> updateAgentInProgress bench_capturing"
  using capture_excludes_update [OF bench_capture.capture_board_axioms
      bench_capturing_reached [of waits_for_verification]]
    bench_capturing_flag bench_power_on
  by (simp add: Let_def bench_system_def bench_firmware_state_def bench_usb_def waits_for_verification_def)

text \<open>
  C16: The collectData pin is high exactly while the host collects, in every reachable state: not
  after a suspend, a reset, a disconnect or a failed restart. Link power management is off only
  while the capture path is up, and the firmware then refuses every link state below U1 exactly
  while the pin is high.
\<close>

theorem collect_pin_tracks_host:
  assumes "capture_board P pins" and "(firmware_step P product admits)\<^sup>*\<^sup>* c c'"
    and "power_on (sys_state c)" and "pins (world (sys_state c)) = Some (False, False)"
    and "pins (world (sys_state c')) = Some (collecting, lpm_off)"
  shows "collecting = dataCollectionFlag (sys_state c')
    \<and> (lpm_off \<longrightarrow> glIsApplnActive (sys_state c'))
    \<and> (domDupLPMRequestCB mode (sys_state c') \<longleftrightarrow> \<not> (collecting \<and> CyU3PUsbLPM_U2 \<le> mode))"
  using capture_board.reachable_inv [OF assms(1-4)] assms(5)
  by (simp add: capture_inv_def pins_ok_def domDupLPMRequestCB_def)

theorem collect_pin_tracks_host_witness:
  "ub_pins (world bench_capturing) = Some (True, True) \<and> \<not> domDupLPMRequestCB CyU3PUsbLPM_U2 bench_capturing"
proof -
  have "ub_pins (world bench_capturing) = Some (True, True)"
    by (simp add: bench_capturing_def domDupUSBSetupCB_def decode_setup_def Let_def vendor_request_def
        collection_request_def start_collecting_def acknowledge_def effect_def sim_usb_unfold
        stop_collecting_def domDupClearInputFlags_def updateAgentInProgress_def bench_usb_def
        bench_firmware_state_def updateIsInProgress_def updateStateReset_def)
  moreover from this have "\<not> domDupLPMRequestCB CyU3PUsbLPM_U2 bench_capturing"
    using collect_pin_tracks_host [OF bench_capture.capture_board_axioms bench_capturing_reached [of any_request],
        of True True CyU3PUsbLPM_U2] bench_power_on
    by (simp add: bench_system_def bench_firmware_state_def bench_usb_def any_request_def)
  ultimately show ?thesis by blast
qed

text \<open>
  C17: A reset, a disconnect, or the loss of VBUS once the device is initialised, leaves the
  capture path down, nothing collected and link power management back on, whichever call of
  the teardown fails.
\<close>

theorem off_the_bus_path_down:
  assumes "capture_board P pins" and "(firmware_step P product admits)\<^sup>*\<^sup>* c c'"
    and "power_on (sys_state c)" and "pins (world (sys_state c)) = Some (False, False)"
    and "ev \<in> {CY_U3P_USB_EVENT_RESET, CY_U3P_USB_EVENT_DISCONNECT}
         \<or> ev = CY_U3P_USB_EVENT_VBUS_REMOVED \<and> glUsbInitComplete (sys_state c')"
  shows "let t = outcome_state (domDupUSBEventCB P ev data (sys_state c')) in
    \<not> glIsApplnActive t \<and> \<not> dataCollectionFlag t \<and> pins (world t) \<in> {None, Some (False, False)}"
  using capture_board.off_bus_down [OF assms(1) capture_board.reachable_inv [OF assms(1-4)] assms(5) refl]
  by (simp add: Let_def)

theorem off_the_bus_path_down_witness:
  "\<not> dataCollectionFlag (outcome_state (domDupUSBEventCB sim_usb CY_U3P_USB_EVENT_RESET 0 bench_capturing))"
  using off_the_bus_path_down [OF bench_capture.capture_board_axioms bench_capturing_reached [of any_request],
      of CY_U3P_USB_EVENT_RESET 0] bench_power_on
  by (simp add: Let_def bench_system_def bench_firmware_state_def bench_usb_def any_request_def)

text \<open>
  C15: A setup request the firmware handles is completed on endpoint 0 exactly once, by an
  acknowledgement, a stall, a data stage of exactly the length announced, or data that is not
  empty and no longer than the host asked for; a request it does not handle puts nothing there.
\<close>

theorem setup_completed_once:
  assumes "control_endpoint P replies"
    and "length (glUpdatePacketBuffer s) = 40" and "length (glRegisterBuffer s) = 64"
    and "domDupUSBSetupCB P setupData0 setupData1 s = (handled, s')"
  shows "if handled
    then \<exists>r. reply_fits (wLength (decode_setup setupData0 setupData1)) r
      \<and> replies (world s') = replies (world s) @ [r]
    else replies (world s') = replies (world s)"
  using control_endpoint.setup_completes [OF assms] unfolding completes_def .

theorem setup_completed_once_witness:
  "\<exists>r. reply_fits 16 r \<and> ub_replies (world (snd (domDupUSBSetupCB sim_usb 0x0000D0C0 0x00100000
     bench_firmware_state))) = [r]"
proof -
  have d: "decode_setup 0x0000D0C0 0x00100000
      = \<lparr>bReqType = 0xC0, bRequest = 0xD0, wValue = 0, wIndex = 0, wLength = 16\<rparr>"
    by (simp add: decode_setup_def)
  have h: "fst (domDupUSBSetupCB sim_usb 0x0000D0C0 0x00100000 bench_firmware_state)"
    unfolding domDupUSBSetupCB_def d
    by (simp add: Let_def vendor_request_def domDupHandleUpdateRequest_def update_status_request_def
        acknowledge_def)
  have b: "length (glUpdatePacketBuffer bench_firmware_state) = 40"
    "length (glRegisterBuffer bench_firmware_state) = 64"
    "ub_replies (world bench_firmware_state) = []"
    by (simp_all add: bench_firmware_state_def bench_usb_def)
  show ?thesis
    using setup_completed_once [OF bench_control.control_endpoint_axioms b(1,2) surjective_pairing,
        of "0x0000D0C0" "0x00100000"] h b(3) d by simp
qed

text \<open>
  C28: A pass of the application thread's loop fails to end exactly when the wait in a suspended
  link never does: at every look of the thread, the first included and whatever the callbacks do
  while it sleeps, the host still keeps the function suspended and the link is readable and in U0.
  In particular it ends once the host clears the suspend.
\<close>

theorem pass_returns:
  "(main_loop_pass P others s = None \<longleftrightarrow>
     (\<forall>k. let t = hold_rounds P others 0 k (run_verification P s)
          in glForceLinkU2 t \<and> CyU3PUsbGetLinkPowerState P (world t) = (CY_U3P_SUCCESS, CyU3PUsbLPM_U0)))
   \<and> ((\<exists>k. \<not> glForceLinkU2 (hold_rounds P others 0 k (run_verification P s)))
      \<longrightarrow> (\<exists>s'. main_loop_pass P others s = Some s'))"
proof -
  let ?s = "run_verification P s"
  obtain status mode where g: "CyU3PUsbGetLinkPowerState P (world ?s) = (status, mode)"
    by (cases "CyU3PUsbGetLinkPowerState P (world ?s)")
  have "main_loop_pass P others s = None \<longleftrightarrow>
      glForceLinkU2 ?s \<and> (\<forall>k. looks_held P (hold_rounds P others 0 k ?s))"
    using hold_forever [of P others 0 ?s]
    unfolding main_loop_pass_def manage_link_def by (simp add: g)
  moreover have "glForceLinkU2 ?s" if "\<forall>k. looks_held P (hold_rounds P others 0 k ?s)"
    using that [rule_format, of 0] by (simp add: looks_held_def)
  ultimately show ?thesis by (auto simp: looks_held_def Let_def)
qed

theorem pass_returns_witness:
  "\<exists>s'. main_loop_pass sim_usb (\<lambda>n s. s\<lparr>glForceLinkU2 := False\<rparr>) bench_capturing = Some s'"
proof -
  have "\<not> glForceLinkU2 (hold_rounds sim_usb (\<lambda>n s. s\<lparr>glForceLinkU2 := False\<rparr>) 0 1
      (run_verification sim_usb bench_capturing))"
    by (simp add: numeral_eq_Suc)
  then show ?thesis
    using pass_returns [of sim_usb "\<lambda>n s. s\<lparr>glForceLinkU2 := False\<rparr>" bench_capturing] by blast
qed

subsection \<open>Memory\<close>

text \<open>
  C29: From a fresh start of the buffer manager, whatever calls allocate and free DMA buffers and
  whatever the operating system answers, no two live buffers share a byte, and each lies inside
  the buffer region, away from its first chunk.
\<close>

theorem dma_buffers_disjoint:
  assumes "heap_off s0" and "CyU3PDmaBufferInit os s0 = s1" and "\<not> heap_off s1"
    and "fold (call_heap (\<lambda>n. CyU3PDmaBufferAlloc os (of_nat n)) (CyU3PDmaBufferFree os)
           (\<lambda>n. 32 * chunks_needed (unat (of_nat n :: u16)))) calls (s1, []) = (s2, live)"
    and "i < j" and "j < length live"
  shows "apart (live ! i) (live ! j)
    \<and> CY_U3P_BUFFER_HEAP_BASE < fst (live ! i)
    \<and> fst (live ! i) + snd (live ! i) \<le> CY_U3P_BUFFER_HEAP_BASE + CY_U3P_BUFFER_HEAP_SIZE"
proof -
  have s1: "heap_holds s1 {}" using init_holds [OF assms(1,2)] assms(3) by simp
  have "heap_holds s2 (set live)"
    using dma_buffers.calls_sound [of "(s1, [])" os calls] s1 assms(4) by simp
  moreover have "(fst (live ! i), snd (live ! i)) \<in> set live" using assms(5,6) by simp
  ultimately show ?thesis
    using dma_buffers.calls_apart [OF s1 assms(4-6)] dma_live_inside by blast
qed

theorem dma_buffers_disjoint_witness:
  "apart (CY_U3P_BUFFER_HEAP_BASE + 160, 128) (CY_U3P_BUFFER_HEAP_BASE + 32, 128)"
proof -
  obtain s2 where "fold (call_heap (\<lambda>n. CyU3PDmaBufferAlloc sim_tx (of_nat n)) (CyU3PDmaBufferFree sim_tx)
      (\<lambda>n. 32 * chunks_needed (unat (of_nat n :: u16)))) [Alloc 100, Alloc 100] (sim_heap, [])
    = (s2, [(CY_U3P_BUFFER_HEAP_BASE + 160, 128), (CY_U3P_BUFFER_HEAP_BASE + 32, 128)])"
    using sim_alloc sim_alloc_again
    by (cases "CyU3PDmaBufferAlloc sim_tx 100 (snd (CyU3PDmaBufferAlloc sim_tx 100 sim_heap))")
      (auto simp: chunks_needed_def)
  from dma_buffers_disjoint [OF sim_heap_off(1) _ sim_heap_off(2) this, of 0 1]
  show ?thesis by (simp add: sim_heap_def)
qed

text \<open>
  C30: A buffer the allocator hands out is aligned to a chunk, and the bytes requested lie inside
  the buffer region and in no buffer that was live before.
\<close>

theorem dma_buffer_fits:
  assumes "heap_holds s B" and "CyU3PDmaBufferAlloc os n s = (p, s')" and "p \<noteq> 0"
  shows "p mod 32 = 0
    \<and> CY_U3P_BUFFER_HEAP_BASE < p \<and> p + unat n \<le> CY_U3P_BUFFER_HEAP_BASE + CY_U3P_BUFFER_HEAP_SIZE
    \<and> (\<forall>x \<in> B. apart (p, unat n) x)"
proof -
  let ?len = "32 * chunks_needed (unat n)"
  note new = dma_alloc_block [OF assms]
  note inside = dma_live_inside [OF new(1) insertI1]
  have "apart (p, ?len) x" if "x \<in> B" for x
    using dma_live_apart [OF new(1) insertI1, of x] that new(2) by auto
  then show ?thesis using inside chunks_needed_enough [of "unat n"] by fastforce
qed

theorem dma_buffer_fits_witness:
  "CY_U3P_BUFFER_HEAP_BASE + 32 + 100 \<le> CY_U3P_BUFFER_HEAP_BASE + CY_U3P_BUFFER_HEAP_SIZE"
  using dma_buffer_fits [OF sim_heap_holds sim_alloc] by simp

text \<open>
  C31: Freeing a buffer just allocated succeeds when the lock is granted, and leaves the status
  words as they were before the allocation.
\<close>

theorem dma_alloc_free_restores:
  assumes "heap_holds s B" and "CyU3PDmaBufferAlloc os n s = (p, s')" and "p \<noteq> 0"
    and "CyU3PDmaBufferFree os p s' = (r, s'')"
  shows "(r = 0 \<longrightarrow> usedStatus s'' = usedStatus s)
    \<and> (r = 0 \<longleftrightarrow> fst (lock_buffers os (tx_ticks CY_U3P_BUFFER_ALLOC_TIMEOUT) s') = 0)"
  using dma_alloc_free [OF assms] by blast

theorem dma_alloc_free_restores_witness:
  "usedStatus (snd (CyU3PDmaBufferFree sim_tx (CY_U3P_BUFFER_HEAP_BASE + 32)
     (snd (CyU3PDmaBufferAlloc sim_tx 100 sim_heap)))) = replicate 224 0"
proof -
  obtain r s'' where f: "CyU3PDmaBufferFree sim_tx (CY_U3P_BUFFER_HEAP_BASE + 32)
      (snd (CyU3PDmaBufferAlloc sim_tx 100 sim_heap)) = (r, s'')" by fastforce
  have "usedStatus s'' = usedStatus sim_heap"
    using dma_alloc_free_restores [OF sim_heap_holds sim_alloc _ f [unfolded sim_alloc snd_conv]] sim_lock
    by simp
  then show ?thesis using f by (simp only: sim_heap_fields snd_conv)
qed

text \<open>
  C32: When the lock is granted and the search starts at the top of the bitmap, as after every
  free, an allocation fails only if no run of one chunk more than it needs is clear.
\<close>

theorem dma_alloc_finds_room:
  assumes "heap_holds s B" and "searchPos s = 0"
    and "fst (lock_buffers os (tx_ticks CY_U3P_BUFFER_ALLOC_TIMEOUT) s) = 0"
    and "a + chunks_needed (unat n) < 7168"
    and "list_all (\<lambda>i. \<not> used_bit (usedStatus s) i) [a..<a + chunks_needed (unat n) + 1]"
  shows "fst (CyU3PDmaBufferAlloc os n s) \<noteq> 0"
proof
  assume "fst (CyU3PDmaBufferAlloc os n s) = 0"
  from dma_alloc_full [OF assms(1-3) this] assms(4)
  obtain i where "a \<le> i" "i \<le> a + chunks_needed (unat n)" "used_bit (usedStatus s) i"
    by (auto simp: no_run_def)
  then show False using assms(5) by (auto simp: list_all_iff)
qed

theorem dma_alloc_finds_room_witness: "fst (CyU3PDmaBufferAlloc sim_tx 40000 sim_heap) \<noteq> 0"
  using dma_alloc_finds_room [OF sim_heap_holds sim_heap_fields(5), of sim_tx 0 40000] used_bit_zeros
  by (simp add: sim_lock sim_heap_fields chunks_needed_def list_all_iff)

text \<open>
  C33: The unrolled memory routines are what their names say: a block set, a block copied
  unless the destination starts inside the source, and a comparison that is zero exactly for
  equal blocks and negative exactly when the first byte that differs is the smaller.
\<close>

theorem memory_routines:
  "CyU3PMemSet m ptr v n = patch m ptr (replicate n v)
   \<and> (\<not> (src < dest \<and> dest < src + n) \<longrightarrow> CyU3PMemCopy m dest src n = patch m dest (slice m src n))
   \<and> (CyU3PMemCmp m s1 s2 n = 0 \<longleftrightarrow> slice m s1 n = slice m s2 n)
   \<and> (CyU3PMemCmp m s1 s2 n < 0 \<longleftrightarrow>
        (\<exists>k < n. slice m s1 k = slice m s2 k \<and> m (s1 + k) < m (s2 + k)))"
  using MemSet_patch MemCopy_patch MemCmp_zero MemCmp_first by (meson not_less)

theorem memory_routines_witness: "CyU3PMemCopy of_nat 20 10 10 = patch of_nat 20 (slice of_nat 10 10)"
  using memory_routines [of of_nat 0 0 10 10 20 0 0] by simp

subsection \<open>Recovery\<close>

text \<open>
  C9: A device woken with an image built from an ELF file has every loadable segment of the file
  in its memory, zero-filled to its memory size and less what falls in the vector area, and has
  been asked exactly once to jump, to the entry point, with that memory. It holds for every host
  and device that honour the boot ROM's download command.
\<close>

theorem recovery_loads_program:
  assumes "boot_rom H ram jumps"
    and "\<And>w b w'. cancel w = (b, w') \<Longrightarrow> ram w' = ram w \<and> jumps w' = jumps w"
    and "fx3_elf_parse elf FX3_MAX_SEGMENTS = Inr (segs, entry)"
    and "fx3_build_image calloc segs entry FX3_IMAGE_CTL_DEFAULT FX3_IMAGE_TYPE_NORMAL keep = Inr img"
    and "length (image_sections (work_segments keep segs)) \<le> kMaximumSections"
    and "Wake (usb_programmer H) (usb_access H path present cancel timeout) img s = Some (Inr there, s')"
  shows "jumps (usb_world s') = jumps (usb_world s)
    @ [(entry, load_program keep segs (ram (usb_world s)))]"
proof -
  have ok: "list_all segment_ok segs" using elf_parse_ok [OF assms(3)] by simp
  obtain parsed where parsed: "ParseBootImage img = Inr parsed" "bi_entry_address parsed = entry"
    "map (section_of img) (bi_sections parsed) = image_sections (work_segments keep segs)"
    using parse_built [OF ok assms(4) _ assms(5)] by auto
  show ?thesis
    using recovery.wake_loads [OF boot_rom.usb_recovery [OF assms(1,2)] built_image_short [OF ok assms(4,5)] assms(6)]
      parsed load_image_sections [OF work_segments_ok [OF ok]] load_work [OF ok] by auto
qed

theorem recovery_loads_program_witness:
  "\<exists>s'. Wake (usb_programmer sim_host) bench_access bench_image bench_programmer = Some (Inr ''1-2'', s')
     \<and> map (\<lambda>j. (fst j, snd j 0x101)) (sb_jumps (usb_world s')) = [(0x100, 4)]"
proof -
  obtain s' where w: "Wake (usb_programmer sim_host) bench_access bench_image bench_programmer = Some (Inr ''1-2'', s')"
    using bench_wake by blast
  have "sb_jumps (usb_world s') = [(0x100, load_program False [bench_segment]
      (sb_ram (usb_world bench_programmer)))]"
    using recovery_loads_program [OF bench_rom.boot_rom_axioms _ bench_elf_parse bench_build bench_count
        w [unfolded bench_access_def]]
    by (simp add: idle_cancel_def bench_programmer_def sim_bus_start_def del: work_segments.simps)
  then have "map (\<lambda>j. (fst j, snd j 0x101)) (sb_jumps (usb_world s')) = [(0x100, 4)]"
    by (simp only: list.map fst_conv snd_conv bench_byte)
  then show ?thesis using w by (intro exI [of _ s'] conjI)
qed

text \<open>
  C34: The reader of boot images accepts every image the writer produces for a program of at most
  1024 sections, and gives back its sections, each with its load address, and its entry point.
\<close>

theorem image_roundtrip:
  assumes "list_all segment_ok segs" and "ctl AND 1 = 0"
    and "fx3_build_image calloc segs entry ctl FX3_IMAGE_TYPE_NORMAL keep = Inr img"
    and "length (image_sections (work_segments keep segs)) \<le> kMaximumSections"
  shows "\<exists>parsed. ParseBootImage img = Inr parsed \<and> bi_entry_address parsed = entry
    \<and> map (\<lambda>sec. (sec_address sec, take (sec_length sec) (drop (sec_offset sec) img))) (bi_sections parsed)
      = concat (map (\<lambda>seg. cut_sections (seg_address seg) (segment_content seg)) (work_segments keep segs))"
  using parse_built [OF assms(1,3,2,4)] unfolding image_sections_def section_of_def [abs_def] by blast

theorem image_roundtrip_witness:
  "\<exists>parsed. ParseBootImage bench_image = Inr parsed \<and> bi_entry_address parsed = 0x100"
proof -
  have "list_all segment_ok [bench_segment]" "(FX3_IMAGE_CTL_DEFAULT AND 1) = 0"
    by (simp_all add: bench_segment_def segment_ok_def)
  from image_roundtrip [OF this bench_build bench_count] show ?thesis by blast
qed

text \<open>
  C35: Whatever the file, the segments the ELF reader returns are at least one and at most as many
  as asked for, the bytes each has in the file start at an offset and end inside the file, and they
  fit its memory; and whatever the image, the sections the boot image reader returns lie inside it,
  a whole number of words each.
\<close>

theorem readers_stay_inside:
  "(case fx3_elf_parse elf n of Inl _ \<Rightarrow> True
     | Inr (segs, _) \<Rightarrow> 0 < length segs \<and> length segs \<le> n
         \<and> list_all (\<lambda>seg. (\<exists>off. off + seg_file_size seg \<le> length elf \<and> seg_data seg = drop off elf)
             \<and> seg_file_size seg \<le> seg_mem_size seg) segs)
   \<and> (case ParseBootImage img of Inl _ \<Rightarrow> True
     | Inr parsed \<Rightarrow> list_all (\<lambda>sec. sec_offset sec + sec_length sec \<le> length img \<and> sec_length sec mod 4 = 0)
         (bi_sections parsed))"
  using elf_parse_ok [of elf n] parse_sections_inside [of img]
  by (auto split: sum.split simp: list_all_iff segment_ok_def segment_within_def)

text \<open>
  C36: When the clock moves on with every sleep, waiting for a device to come back always ends.
\<close>

theorem wait_for_application_ends:
  assumes "ticking_host H clock"
  shows "\<exists>r. usb_WaitForApplication H timeout s = Some r"
  using ticking_host.wait_returns [OF assms] .

theorem wait_for_application_ends_witness:
  "\<exists>r. usb_WaitForApplication sim_host 30000 bench_programmer = Some r"
  by (rule wait_for_application_ends [OF bench_clock.ticking_host_axioms])

end
